(* ===== verification/Prelude.thy ===== *)
theory Prelude
  imports Main "HOL-Library.Word" "HOL-Library.Multiset"
begin

text \<open>
  What the components share: the C integer types, the outcomes an operation can have
  besides returning, the sequencing of two operations, and the generic lemmas.

  Kernel operations take the kernel state and give back either a value with the new
  state or a \<open>kerror\<close>.  \<open>Panic\<close> is the call of \<open>_kpanic\<close> in klibc.c, which never
  returns.  \<open>Hang\<close> is a loop that does not end.  The others are accesses with no defined
  meaning in C that the code does not guard: \<open>Null_deref\<close> for a NULL pointer to a kernel
  object, \<open>Wild\<close> for a pointer used at the wrong type, \<open>Overrun\<close> for an access past the end
  of a kernel array, and \<open>Unset\<close> for a variable that is read before it was set.  An operation that does not return has no state: what it
  printed before is not kept.
\<close>

unbundle bit_operations_syntax

section \<open>Machine integers\<close>

type_synonym u8 = "8 word"
type_synonym u16 = "16 word"
type_synonym u32 = "32 word"

section \<open>Outcomes\<close>

datatype kerror =
    Panic string
  | Hang
  | Null_deref
  | Wild
  | Overrun string
  | Unset string

type_synonym 'a outcome = "kerror + 'a"

text \<open>Run the rest only if the first part returned.\<close>

definition bindE :: "'a outcome \<Rightarrow> ('a \<Rightarrow> 'b outcome) \<Rightarrow> 'b outcome" where
  "bindE m f = (case m of Inl e \<Rightarrow> Inl e | Inr x \<Rightarrow> f x)"

lemma bindE_simps [simp]:
  "bindE (Inl e) f = Inl e"
  "bindE (Inr x) f = f x"
  by (simp_all add: bindE_def)

lemma bindE_code [code]: "bindE m f = (case m of Inl e \<Rightarrow> Inl e | Inr x \<Rightarrow> f x)"
  by (rule bindE_def)

lemma bindE_eq_Inr: "bindE m f = Inr y \<longleftrightarrow> (\<exists>x. m = Inr x \<and> f x = Inr y)"
  by (cases m) auto

lemma bindE_assoc: "bindE (bindE m f) g = bindE m (\<lambda>x. bindE (f x) g)"
  by (cases m) auto

lemma bindE_InrE [elim?]:
  assumes "bindE m f = Inr y"
  obtains x where "m = Inr x" "f x = Inr y"
  using assms by (auto simp: bindE_eq_Inr)

text \<open>A pointer that the code dereferences without a test.\<close>

definition deref :: "'p option \<Rightarrow> 'p outcome" where
  "deref p = (case p of None \<Rightarrow> Inl Null_deref | Some a \<Rightarrow> Inr a)"

lemma deref_simps [simp]:
  "deref None = Inl Null_deref"
  "deref (Some a) = Inr a"
  by (simp_all add: deref_def)

section \<open>Collections of rules\<close>

named_theorems frame_simps
  \<open>fields of the kernel state an operation leaves alone\<close>

named_theorems k_ops
  \<open>what an operation returns, as conditional equations\<close>

section \<open>Lists\<close>

text \<open>
  The queues of the kernel are stable: an element goes behind every element whose key is
  not greater.  \<open>insert_by\<close> is that insertion on a list.
\<close>

fun insert_by :: "('a \<Rightarrow> 'k::linorder) \<Rightarrow> 'a \<Rightarrow> 'a list \<Rightarrow> 'a list" where
  "insert_by k x [] = [x]"
| "insert_by k x (y # ys) = (if k y \<le> k x then y # insert_by k x ys else x # y # ys)"

lemma set_insert_by [simp]: "set (insert_by k x ys) = insert x (set ys)"
  by (induction ys) auto

lemma length_insert_by [simp]: "length (insert_by k x ys) = Suc (length ys)"
  by (induction ys) auto

lemma distinct_insert_by [simp]: "distinct (insert_by k x ys) \<longleftrightarrow> x \<notin> set ys \<and> distinct ys"
  by (induction ys) auto

lemma insert_by_split:
  "insert_by k x ys = takeWhile (\<lambda>y. k y \<le> k x) ys @ x # dropWhile (\<lambda>y. k y \<le> k x) ys"
  by (induction ys) auto

lemma sorted_insert_by:
  "sorted (map k ys) \<Longrightarrow> sorted (map k (insert_by k x ys))"
  by (induction ys) auto

lemma map_insert_by:
  "(\<And>y. y \<in> set ys \<Longrightarrow> k' (f y) = k y) \<Longrightarrow> k' (f x) = k x \<Longrightarrow>
   map f (insert_by k x ys) = insert_by k' (f x) (map f ys)"
  by (induction ys) auto

text \<open>Inserting the elements of a list one after the other sorts it, stably.\<close>

lemma mset_insert_by [simp]: "mset (insert_by k x ys) = add_mset x (mset ys)"
  by (induction ys) auto

lemma filter_insert_by:
  assumes "sorted (map k ys)"
  shows "filter (\<lambda>y. k z = k y) (insert_by k x ys) =
    (if k z = k x then filter (\<lambda>y. k z = k y) ys @ [x] else filter (\<lambda>y. k z = k y) ys)"
  using assms
proof (induction ys)
  case (Cons a ys)
  have "filter (\<lambda>y. k x = k y) ys = []" if "\<not> k a \<le> k x"
    using Cons.prems that by (fastforce simp: filter_empty_conv)
  with Cons show ?case by auto
qed simp

lemma fold_insert_by:
  "fold (insert_by k) xs [] = sort_key k xs"
proof -
  let ?ys = "fold (insert_by k) xs []"
  have "mset ?ys = mset xs \<and> sorted (map k ?ys) \<and>
      (\<forall>z. filter (\<lambda>y. k z = k y) ?ys = filter (\<lambda>y. k z = k y) xs)"
  proof (induction xs rule: rev_induct)
    case (snoc x xs)
    then show ?case
      by (auto simp: sorted_insert_by filter_insert_by)
  qed simp
  then show ?thesis by (intro properties_for_sort_key [symmetric]) auto
qed

lemma sort_key_map: "sort_key f (map c xs) = map c (sort_key (\<lambda>x. f (c x)) xs)"
proof -
  have "insort_key f (c x) (map c ys) = map c (insort_key (\<lambda>x. f (c x)) x ys)" for x ys
    by (induction ys) auto
  then show ?thesis by (induction xs) auto
qed

lemma sort_key_map_pair: "sort_key fst (map (\<lambda>p. (f p, p)) ps) = map (\<lambda>p. (f p, p)) (sort_key f ps)"
proof -
  have "insort_key fst (f p, p) (map (\<lambda>p. (f p, p)) ps) = map (\<lambda>p. (f p, p)) (insort_key f p ps)" for p ps
    by (induction ps) auto
  then show ?thesis by (induction ps) auto
qed

lemma distinct_subset_length:
  assumes "distinct xs" "set xs \<subseteq> {..<n}"
  shows "length xs \<le> n"
  using card_mono [OF finite_lessThan assms(2)] distinct_card [OF assms(1)] by simp

lemma distinct_length_eq_set:
  assumes "distinct xs" "set xs \<subseteq> {..<n}" "length xs = n"
  shows "set xs = {..<n}"
  using card_subset_eq [OF finite_lessThan assms(2)] distinct_card [OF assms(1)] assms(3)
  by simp

section \<open>Casts between integer types\<close>

lemma unat_u8_lt: "unat (c :: u8) < 256"
  using unsigned_less [of c, where ?'a = nat] by simp

lemma unat_u16_lt: "unat (c :: u16) < 65536"
  using unsigned_less [of c, where ?'a = nat] by simp

lemma unat_ucast_8_32 [simp]: "unat (ucast (c :: u8) :: u32) = unat c"
  using unat_u8_lt [of c] by (simp add: unsigned_ucast_eq take_bit_nat_eq_self)

lemma unat_ucast_16_32 [simp]: "unat (ucast (c :: u16) :: u32) = unat c"
  using unat_u16_lt [of c] by (simp add: unsigned_ucast_eq take_bit_nat_eq_self)

lemma ucast_8_32_down [simp]: "ucast (ucast (c :: u8) :: u32) = c"
  by (rule bit_word_eqI) (simp add: bit_simps)

lemma ucast_8_32_inj [simp]: "ucast (c :: u8) = (ucast d :: u32) \<longleftrightarrow> c = d"
  by (metis ucast_8_32_down)

lemma scast_and_ff: "scast (c :: u8) AND 0xff = (ucast c :: u32)"
proof -
  have m: "0xff = (mask 8 :: u32)" by (simp add: mask_numeral)
  have "bit c (min n 7) \<and> n < 8 \<longleftrightarrow> bit c n" for n
  proof (cases "n < 8")
    case True
    then have "min n 7 = n" by simp
    with True show ?thesis by simp
  next
    case False
    then show ?thesis using bit_imp_le_length [of c n] by auto
  qed
  note key = this
  show ?thesis unfolding m
  proof (rule bit_word_eqI)
    fix n assume "n < LENGTH(32)"
    then show "bit (scast c AND mask 8 :: u32) n = bit (ucast c :: u32) n"
      using key [of n] by (simp add: bit_simps min.commute conj_commute)
  qed
qed

lemma unat_u32_lt: "unat (c :: u32) < 4294967296"
  using unsigned_less [of c, where ?'a = nat] by simp

end
