(* ===== verification/Kernel_State.thy ===== *)
theory Kernel_State
  imports Prelude
begin

text \<open>
  The data of the kernel: the constants of defs.h, processes.h, queues.h, shared_mem.h,
  syscalls.h, disk.h and device.h, their structs as records, and every global variable of
  the modules as a field of one state record \<open>kstate\<close>, built up module by module.

  Pointers.  A pointer to an element of a kernel array (\<open>_qnodes\<close>, \<open>_pcbs\<close>, \<open>_stacks\<close>,
  \<open>_pending_requests\<close>, \<open>_device_handles\<close>) is the element's index, and \<open>None\<close> is NULL.  A
  \<open>void *\<close> kept in a queue is an \<open>obj\<close>.  A \<open>context_t *\<close> points into a user stack and is
  the stack's index with a word offset.  The shared memory segments and their memory are
  reached through pointers that user code makes up, so they live in a flat byte memory
  \<open>mem\<close> that is indexed by 32-bit addresses, as user buffers do.  The typed arrays and the
  byte memory do not overlap in the model: a user buffer that aliases a kernel array is
  outside it.
\<close>

section \<open>Constants\<close>

abbreviation (input) MAX_PROCS :: nat where "MAX_PROCS \<equiv> 24"
abbreviation (input) STACK_SIZE :: nat where "STACK_SIZE \<equiv> 1024"

abbreviation (input) STAT_SUCCESS :: u32 where "STAT_SUCCESS \<equiv> 0"
abbreviation (input) STAT_ALLOC_FAIL :: u32 where "STAT_ALLOC_FAIL \<equiv> 1"
abbreviation (input) STAT_BAD_LEVEL :: u32 where "STAT_BAD_LEVEL \<equiv> 2"

abbreviation (input) PROC_FREE :: u8 where "PROC_FREE \<equiv> 0"
abbreviation (input) PROC_NEW :: u8 where "PROC_NEW \<equiv> 1"
abbreviation (input) PROC_READY :: u8 where "PROC_READY \<equiv> 2"
abbreviation (input) PROC_RUNNING :: u8 where "PROC_RUNNING \<equiv> 3"
abbreviation (input) PROC_ZOMBIE :: u8 where "PROC_ZOMBIE \<equiv> 4"
abbreviation (input) PROC_SLEEPING :: u8 where "PROC_SLEEPING \<equiv> 5"
abbreviation (input) PROC_BLOCKED :: u8 where "PROC_BLOCKED \<equiv> 6"

abbreviation (input) LEVEL_MEDIUM :: u8 where "LEVEL_MEDIUM \<equiv> 1"
abbreviation (input) LEVEL_LOW :: u8 where "LEVEL_LOW \<equiv> 2"
abbreviation (input) LEVEL_DEFAULT :: u8 where "LEVEL_DEFAULT \<equiv> LEVEL_MEDIUM"
abbreviation (input) MLQ_LEVELS :: nat where "MLQ_LEVELS \<equiv> 3"
abbreviation (input) QUANTUM_DEFAULT :: u8 where "QUANTUM_DEFAULT \<equiv> 2"

abbreviation (input) MAX_SHMS :: nat where "MAX_SHMS \<equiv> 4"
abbreviation (input) MAX_MEMBERS :: nat where "MAX_MEMBERS \<equiv> 2"
abbreviation (input) MAX_MEM_SIZE :: u32 where "MAX_MEM_SIZE \<equiv> 512"
abbreviation (input) SHM_FREE :: u8 where "SHM_FREE \<equiv> 0"
abbreviation (input) SHM_NEW :: u8 where "SHM_NEW \<equiv> 1"

abbreviation (input) DISK_BLOCK_SIZE :: u32 where "DISK_BLOCK_SIZE \<equiv> 512"
abbreviation (input) DISK_MAX_REQUESTS :: nat where "DISK_MAX_REQUESTS \<equiv> 256"
abbreviation (input) RD_MAX_LBA :: u32 where "RD_MAX_LBA \<equiv> 20"
abbreviation (input) DISK_CMD_READ :: u8 where "DISK_CMD_READ \<equiv> 1"
abbreviation (input) DISK_CMD_WRITE :: u8 where "DISK_CMD_WRITE \<equiv> 2"
abbreviation (input) DISK_CMD_REQUEST :: u32 where "DISK_CMD_REQUEST \<equiv> 3"
abbreviation (input) DISK_STATUS_READ_PENDING :: u8 where "DISK_STATUS_READ_PENDING \<equiv> 0x01"
abbreviation (input) DISK_STATUS_WRITE_PENDING :: u8 where "DISK_STATUS_WRITE_PENDING \<equiv> 0x02"
abbreviation (input) DISK_STATUS_IO_SUCCESS :: u8 where "DISK_STATUS_IO_SUCCESS \<equiv> 0x03"
abbreviation (input) DISK_STATUS_IO_FINISHED_ERROR :: u8 where "DISK_STATUS_IO_FINISHED_ERROR \<equiv> 0x04"
abbreviation (input) DISK_ERR_INVALID_CMD :: u8 where "DISK_ERR_INVALID_CMD \<equiv> 0xa0"
abbreviation (input) DISK_ERR_INVALID_REQ_SIZE :: u8 where "DISK_ERR_INVALID_REQ_SIZE \<equiv> 0xb0"
abbreviation (input) DISK_ERR_IO_QUEUE_INSERT :: u8 where "DISK_ERR_IO_QUEUE_INSERT \<equiv> 0xc0"

text \<open>
  The queue nodes of queues.c: two for every process (its PCB and its stack), one for every
  shared memory segment, and FUDGE_FACTOR more.
\<close>

abbreviation (input) FUDGE_FACTOR :: nat where "FUDGE_FACTOR \<equiv> 5"

definition N_QNODES :: nat where
  "N_QNODES = 2 * MAX_PROCS + MAX_SHMS + FUDGE_FACTOR"

section \<open>Words of a saved context\<close>

text \<open>
  \<open>context_t\<close> is eighteen longwords; these are the offsets of the ones the C code names.
\<close>

abbreviation (input) CTX_SS :: nat where "CTX_SS \<equiv> 0"
abbreviation (input) CTX_GS :: nat where "CTX_GS \<equiv> 1"
abbreviation (input) CTX_FS :: nat where "CTX_FS \<equiv> 2"
abbreviation (input) CTX_ES :: nat where "CTX_ES \<equiv> 3"
abbreviation (input) CTX_DS :: nat where "CTX_DS \<equiv> 4"
abbreviation (input) CTX_EAX :: nat where "CTX_EAX \<equiv> 12"
abbreviation (input) CTX_EIP :: nat where "CTX_EIP \<equiv> 15"
abbreviation (input) CTX_CS :: nat where "CTX_CS \<equiv> 16"
abbreviation (input) CTX_EFLAGS :: nat where "CTX_EFLAGS \<equiv> 17"
abbreviation (input) CTX_WORDS :: nat where "CTX_WORDS \<equiv> 18"

section \<open>Structs\<close>

text \<open>What a \<open>void *\<close> in a queue points to.\<close>

datatype obj =
    Pcb nat
  | Stack nat
  | Shm u32
  | Disk_req nat

text \<open>The ordering functions a queue can have; the kernel has one.\<close>

datatype hash_fcn = Hash_sleep

record queue_t =
  hashfcn :: "hash_fcn option"
  q_first :: "nat option"
  q_last :: "nat option"

record qnode_t =
  qn_key :: u32
  qn_data :: "obj option"
  qn_next :: "nat option"

type_synonym context_ptr = "nat \<times> nat"

record pcb_t =
  context_of :: "context_ptr option"
  stack :: "nat option"
  wakeup :: u32
  pending_request :: "nat option"
  pid :: u16
  ppid :: u16
  status :: u8
  level :: u8
  quantum :: u8

record disk_request_t =
  dr_source :: u8
  dr_cmd :: u8
  dr_status :: u8
  dr_lba :: u32
  dr_nblocks :: u32
  dr_buffer :: u32
  dr_next :: "nat option"

datatype dev_fcn =
    Rd_read_placeholder
  | Rd_write_placeholder
  | Rd_ctrl
  | Ata_read_placeholder
  | Ata_write_placeholder
  | Ata_ctrl

record device_t =
  dev_type :: u8
  dev_identifier :: u8
  dev_read :: "dev_fcn option"
  dev_write :: "dev_fcn option"
  dev_ctrl :: "dev_fcn option"
  dev_next :: "nat option"

record pci_dev_t =
  pci_bus :: u32
  pci_device :: u32
  pci_function :: u32

record ata_pending_transfer_t =
  at_request :: "nat option"
  at_current_block_addr :: u32
  at_blocks_remaining :: u32

text \<open>The queue headers of the modules, by the variable each is.\<close>

datatype queue_id =
    Free_pcbs
  | Free_stacks
  | Free_shms
  | Ready nat
  | Sleeping
  | Reading
  | Blocked_requests
  | Ramdisk_io_pending
  | Ata_io_pending

text \<open>The functions the jump tables of syscalls.c and support.c point to.\<close>

datatype sys_fcn =
    Sys_spawn
  | Sys_spawnl
  | Sys_sleep
  | Sys_exit
  | Sys_kill
  | Sys_read
  | Sys_write
  | Sys_time
  | Sys_getpid
  | Sys_getppid
  | Sys_getpidlist
  | Sys_shmget
  | Sys_shmat
  | Sys_shmwrite
  | Sys_shmread
  | Sys_shmdt
  | Sys_shmrm

datatype isr_fcn =
    Default_unexpected_handler
  | Default_expected_handler
  | Isr_clock
  | Isr_syscall
  | Isr_sio
  | Ata_isr
  | Keyboard_isr

text \<open>What the kernel does to the outside world, in order.\<close>

datatype io_event =
    Out u32 u32
  | Puts string
  | Printf string "u32 list"
  | Putchar_at u32 u32 u32
  | Set_scroll u32 u32 u32 u32
  | Puts_at u32 u32 string
  | Console_init

section \<open>The globals\<close>

record machine =
  inq :: "u32 list"
  io :: "io_event list"
  mem :: "u32 \<Rightarrow> u8"

record queue_state = machine +
  queues :: "queue_id \<Rightarrow> queue_t"
  qnodes :: "nat \<Rightarrow> qnode_t"
  free_qnodes :: "nat option"

record proc_state = queue_state +
  pcbs :: "nat \<Rightarrow> pcb_t"
  current :: "nat option"
  next_pid :: u16
  stacks :: "nat \<Rightarrow> nat \<Rightarrow> u32"
  system_stack :: "nat \<Rightarrow> u32"
  system_esp :: "nat option"

record shm_state = proc_state +
  current_shms :: u32
  next_shm :: u16
  free_ptr :: u32

record clock_state = shm_state +
  pinwheel :: u32
  pindex :: u32
  ramdisk_service :: u32
  system_time :: u32

record sio_state = clock_state +
  inbuffer :: "nat \<Rightarrow> u8"
  inlast :: nat
  innext :: nat
  incount :: u32
  outbuffer :: "nat \<Rightarrow> u8"
  outlast :: nat
  outnext :: nat
  outcount :: u32
  sending :: bool
  ier :: u8

record disk_state = sio_state +
  pending_requests :: "nat \<Rightarrow> disk_request_t"
  free_disk_requests :: "nat option"
  ramdisk :: "nat \<Rightarrow> u8"
  ide_controller :: pci_dev_t
  config_addr_reg_state :: u32

record kstate = disk_state +
  device_handles :: "nat \<Rightarrow> device_t"
  free_device_handles :: "nat option"
  current_pending_request :: "nat option"
  current_pending_transfer :: bool
  ata_transfer :: ata_pending_transfer_t
  ata_device :: u8
  ata_cmd_blk_reg :: u16
  ata_ctrl_blk_reg :: u16
  isr_table :: "u32 \<Rightarrow> isr_fcn option"
  syscalls :: "u32 \<Rightarrow> sys_fcn option"

text \<open>An operation that changes the kernel state.\<close>

type_synonym 'a kop = "kstate \<Rightarrow> ('a \<times> kstate) outcome"

text \<open>
  What the linker and the headers that are not in the tree decide: the addresses of the
  objects whose address the code uses as a number, TIMER_TICKS_PER_SECOND of syscalls.c and
  the ports TIMER_0 and TIMER_1 of clock.c.
\<close>

record linkage =
  exit_addr :: u32
  user_idle_addr :: u32
  user_first_addr :: u32
  ata_test_proc_addr :: u32
  ramdisk_addr :: u32
  memory_addr :: u32
  shms_addr :: u32
  timer_ticks_per_second :: u32
  timer_0 :: u32
  timer_1 :: u32

section \<open>Zeroed structs\<close>

definition zero_pcb :: pcb_t where
  "zero_pcb = \<lparr>context_of = None, stack = None, wakeup = 0, pending_request = None,
     pid = 0, ppid = 0, status = 0, level = 0, quantum = 0\<rparr>"

definition zero_qnode :: qnode_t where
  "zero_qnode = \<lparr>qn_key = 0, qn_data = None, qn_next = None\<rparr>"

definition zero_request :: disk_request_t where
  "zero_request = \<lparr>dr_source = 0, dr_cmd = 0, dr_status = 0, dr_lba = 0, dr_nblocks = 0,
     dr_buffer = 0, dr_next = None\<rparr>"

definition zero_device :: device_t where
  "zero_device = \<lparr>dev_type = 0, dev_identifier = 0, dev_read = None, dev_write = None,
     dev_ctrl = None, dev_next = None\<rparr>"

text \<open>
  Memory as the startup code leaves it (the bss is cleared), before \<open>_init\<close>.
\<close>

definition boot_state :: kstate where
  "boot_state = \<lparr>
     inq = [], io = [], mem = (\<lambda>_. 0),
     queues = (\<lambda>_. \<lparr>hashfcn = None, q_first = None, q_last = None\<rparr>),
     qnodes = (\<lambda>_. zero_qnode), free_qnodes = None,
     pcbs = (\<lambda>_. zero_pcb), current = None, next_pid = 0,
     stacks = (\<lambda>_ _. 0), system_stack = (\<lambda>_. 0), system_esp = None,
     current_shms = 0, next_shm = 0, free_ptr = 0,
     pinwheel = 0, pindex = 0, ramdisk_service = 4, system_time = 0,
     inbuffer = (\<lambda>_. 0), inlast = 0, innext = 0, incount = 0,
     outbuffer = (\<lambda>_. 0), outlast = 0, outnext = 0, outcount = 0,
     sending = False, ier = 0,
     pending_requests = (\<lambda>_. zero_request), free_disk_requests = None,
     ramdisk = (\<lambda>_. 0), ide_controller = \<lparr>pci_bus = 0, pci_device = 0, pci_function = 0\<rparr>,
     config_addr_reg_state = 0,
     device_handles = (\<lambda>_. zero_device), free_device_handles = None,
     current_pending_request = None, current_pending_transfer = False,
     ata_transfer = \<lparr>at_request = None, at_current_block_addr = 0, at_blocks_remaining = 0\<rparr>,
     ata_device = 2, ata_cmd_blk_reg = 0x01f0, ata_ctrl_blk_reg = 0x03f4,
     isr_table = (\<lambda>_. None), syscalls = (\<lambda>_. None)\<rparr>"

section \<open>Casts\<close>

text \<open>
  \<open>_q_remove\<close> gives back a \<open>void *\<close> that the caller casts.  A cast to the wrong type is
  \<open>Wild\<close>.
\<close>

definition as_pcb :: "obj option \<Rightarrow> (nat option) outcome" where
  "as_pcb p = (case p of None \<Rightarrow> Inr None | Some (Pcb i) \<Rightarrow> Inr (Some i) | Some _ \<Rightarrow> Inl Wild)"

definition as_stack :: "obj option \<Rightarrow> (nat option) outcome" where
  "as_stack p = (case p of None \<Rightarrow> Inr None | Some (Stack i) \<Rightarrow> Inr (Some i) | Some _ \<Rightarrow> Inl Wild)"

definition as_shm :: "obj option \<Rightarrow> u32 outcome" where
  "as_shm p = (case p of None \<Rightarrow> Inr 0 | Some (Shm a) \<Rightarrow> Inr a | Some _ \<Rightarrow> Inl Wild)"

definition as_request :: "obj option \<Rightarrow> (nat option) outcome" where
  "as_request p =
     (case p of None \<Rightarrow> Inr None | Some (Disk_req i) \<Rightarrow> Inr (Some i) | Some _ \<Rightarrow> Inl Wild)"

lemma as_pcb_simps [simp]:
  "as_pcb None = Inr None"
  "as_pcb (Some (Pcb i)) = Inr (Some i)"
  by (simp_all add: as_pcb_def)

lemma as_stack_simps [simp]:
  "as_stack None = Inr None"
  "as_stack (Some (Stack i)) = Inr (Some i)"
  by (simp_all add: as_stack_def)

lemma as_shm_simps [simp]:
  "as_shm None = Inr 0"
  "as_shm (Some (Shm a)) = Inr a"
  by (simp_all add: as_shm_def)

lemma as_request_simps [simp]:
  "as_request None = Inr None"
  "as_request (Some (Disk_req i)) = Inr (Some i)"
  by (simp_all add: as_request_def)

section \<open>Access to a field of an array element\<close>

definition set_pcb :: "nat \<Rightarrow> (pcb_t \<Rightarrow> pcb_t) \<Rightarrow> kstate \<Rightarrow> kstate" where
  "set_pcb i f s = s\<lparr>pcbs := (pcbs s)(i := f (pcbs s i))\<rparr>"

definition set_qnode :: "nat \<Rightarrow> (qnode_t \<Rightarrow> qnode_t) \<Rightarrow> kstate \<Rightarrow> kstate" where
  "set_qnode i f s = s\<lparr>qnodes := (qnodes s)(i := f (qnodes s i))\<rparr>"

definition set_queue :: "queue_id \<Rightarrow> (queue_t \<Rightarrow> queue_t) \<Rightarrow> kstate \<Rightarrow> kstate" where
  "set_queue q f s = s\<lparr>queues := (queues s)(q := f (queues s q))\<rparr>"

definition set_request :: "nat \<Rightarrow> (disk_request_t \<Rightarrow> disk_request_t) \<Rightarrow> kstate \<Rightarrow> kstate" where
  "set_request i f s = s\<lparr>pending_requests := (pending_requests s)(i := f (pending_requests s i))\<rparr>"

definition set_device :: "nat \<Rightarrow> (device_t \<Rightarrow> device_t) \<Rightarrow> kstate \<Rightarrow> kstate" where
  "set_device i f s = s\<lparr>device_handles := (device_handles s)(i := f (device_handles s i))\<rparr>"

text \<open>A word of the saved context, and a word of the arguments behind it.\<close>

definition ctx_get :: "context_ptr \<Rightarrow> nat \<Rightarrow> kstate \<Rightarrow> u32" where
  "ctx_get c w s = stacks s (fst c) (snd c + w)"

definition ctx_set :: "context_ptr \<Rightarrow> nat \<Rightarrow> u32 \<Rightarrow> kstate \<Rightarrow> kstate" where
  "ctx_set c w v s =
     s\<lparr>stacks := (stacks s)(fst c := (stacks s (fst c))(snd c + w := v))\<rparr>"

text \<open>
  The arguments of a system call start at the second longword behind the context:
  \<open>((uint32_t *)(_current->context + 1)) + 1\<close>.
\<close>

definition sys_arg :: "context_ptr \<Rightarrow> nat \<Rightarrow> kstate \<Rightarrow> u32" where
  "sys_arg c k s = stacks s (fst c) (snd c + CTX_WORDS + 1 + k)"

end
