(* ===== verification/Machine.thy ===== *)
theory Machine
  imports Kernel_State
begin

text \<open>
  The ports and the console as the kernel modules see them, the byte memory, and the
  library routines of klibc.c.

  \<open>__inb\<close> and its kin take the next value of \<open>inq\<close>, the values the devices will give; an
  empty \<open>inq\<close> is a device that never answers.  \<open>__outb\<close> and its kin, and the console
  routines, append to \<open>io\<close>.
\<close>

section \<open>Ports and console\<close>

definition outb :: "u32 \<Rightarrow> u32 \<Rightarrow> 'm machine_scheme \<Rightarrow> 'm machine_scheme" where
  "outb port v s = s\<lparr>io := io s @ [Out port v]\<rparr>"

definition inb :: "u32 \<Rightarrow> 'm machine_scheme \<Rightarrow> (u32 \<times> 'm machine_scheme) outcome" where
  "inb port s = (case inq s of
       [] \<Rightarrow> Inl Hang
     | v # vs \<Rightarrow> Inr (v AND 0xff, s\<lparr>inq := vs\<rparr>))"

definition c_puts :: "string \<Rightarrow> kstate \<Rightarrow> kstate" where
  "c_puts msg s = s\<lparr>io := io s @ [Puts msg]\<rparr>"

definition c_printf :: "string \<Rightarrow> u32 list \<Rightarrow> kstate \<Rightarrow> kstate" where
  "c_printf fmt vs s = s\<lparr>io := io s @ [Printf fmt vs]\<rparr>"

definition c_putchar_at :: "u32 \<Rightarrow> u32 \<Rightarrow> u32 \<Rightarrow> kstate \<Rightarrow> kstate" where
  "c_putchar_at x y c s = s\<lparr>io := io s @ [Putchar_at x y c]\<rparr>"

abbreviation (input) PIC_MASTER_CMD_PORT :: u32 where "PIC_MASTER_CMD_PORT \<equiv> 0x20"
abbreviation (input) PIC_SLAVE_CMD_PORT :: u32 where "PIC_SLAVE_CMD_PORT \<equiv> 0xA0"
abbreviation (input) PIC_EOI :: u32 where "PIC_EOI \<equiv> 0x20"

section \<open>Byte memory\<close>

definition ld8 :: "u32 \<Rightarrow> 'm machine_scheme \<Rightarrow> u8" where
  "ld8 a s = mem s a"

definition st8 :: "u32 \<Rightarrow> u8 \<Rightarrow> 'm machine_scheme \<Rightarrow> 'm machine_scheme" where
  "st8 a v s = s\<lparr>mem := (mem s)(a := v)\<rparr>"

text \<open>Little-endian half words and words, as the processor stores them.\<close>

definition ld16 :: "u32 \<Rightarrow> kstate \<Rightarrow> u16" where
  "ld16 a s = word_cat (mem s (a + 1)) (mem s a)"

definition st16 :: "u32 \<Rightarrow> u16 \<Rightarrow> kstate \<Rightarrow> kstate" where
  "st16 a v s = s\<lparr>mem := (mem s)(a := ucast v, a + 1 := ucast (drop_bit 8 v))\<rparr>"

definition ld32 :: "u32 \<Rightarrow> kstate \<Rightarrow> u32" where
  "ld32 a s = word_cat (ld16 (a + 2) s) (ld16 a s)"

definition st32 :: "u32 \<Rightarrow> u32 \<Rightarrow> kstate \<Rightarrow> kstate" where
  "st32 a v s = st16 (a + 2) (ucast (drop_bit 16 v)) (st16 a (ucast v) s)"

text \<open>A list of bytes stored from an address on.\<close>

fun write_bytes :: "u32 \<Rightarrow> u8 list \<Rightarrow> (u32 \<Rightarrow> u8) \<Rightarrow> u32 \<Rightarrow> u8" where
  "write_bytes a [] m = m"
| "write_bytes a (b # bs) m = write_bytes (a + 1) bs (m(a := b))"

lemma cat_split_16: "word_cat (ucast (drop_bit 8 v) :: u8) (ucast v :: u8) = (v :: u16)"
  by (rule bit_word_eqI)
    (auto simp: bit_word_cat_iff bit_simps)

lemma cat_split_32: "word_cat (ucast (drop_bit 16 v) :: u16) (ucast v :: u16) = (v :: u32)"
  by (rule bit_word_eqI)
    (auto simp: bit_word_cat_iff bit_simps)

lemma ld16_st16_same [simp]: "ld16 a (st16 a v s) = v"
  by (simp add: ld16_def st16_def cat_split_16)

lemma ld32_st32_same [simp]: "ld32 a (st32 a v s) = v"
  by (simp add: ld32_def st32_def ld16_def st16_def cat_split_16 cat_split_32 add.assoc)

section \<open>klibc.c\<close>

text \<open>
  \<open>_memclr\<close> and \<open>_memcpy\<close> count a 32-bit length down to zero.
\<close>

function memclr :: "u32 \<Rightarrow> u32 \<Rightarrow> kstate \<Rightarrow> kstate" where
  "memclr buf num s = (if num = 0 then s else memclr (buf + 1) (num - 1) (st8 buf 0 s))"
  by pat_completeness auto
termination
  by (relation "measure (\<lambda>(buf, num, s). unat num)")
    (auto simp: unat_minus_one unat_gt_0)

function memcpy :: "u32 \<Rightarrow> u32 \<Rightarrow> u32 \<Rightarrow> kstate \<Rightarrow> kstate" where
  "memcpy dst src num s =
     (if num = 0 then s else memcpy (dst + 1) (src + 1) (num - 1) (st8 dst (ld8 src s) s))"
  by pat_completeness auto
termination
  by (relation "measure (\<lambda>(dst, src, num, s). unat num)")
    (auto simp: unat_minus_one unat_gt_0)

declare memclr.simps [simp del] memcpy.simps [simp del]

text \<open>
  \<open>_strcpy\<close> copies up to and including the null byte, with no bound: the loop ends only at
  a null byte, so the number of bytes it may copy is fuel.  An address space has
  \<open>2 ^ 32\<close> bytes, which bounds the search for one that is already there.  The pointer it
  gives back is the one behind the copied null byte.
\<close>

fun strcpy :: "nat \<Rightarrow> u32 \<Rightarrow> u32 \<Rightarrow> u32 kop" where
  "strcpy 0 dst src s = Inl Hang"
| "strcpy (Suc fuel) dst src s =
     (let c = ld8 src s; s = st8 dst c s in
      if c = 0 then Inr (dst + 1, s) else strcpy fuel (dst + 1) (src + 1) s)"

definition kpanic :: "string \<Rightarrow> 'a outcome" where
  "kpanic msg = Inl (Panic msg)"

definition kprt_status :: "string option \<Rightarrow> u32 \<Rightarrow> kstate \<Rightarrow> kstate" where
  "kprt_status msg stat s =
     (case msg of
        None \<Rightarrow> s
      | Some m \<Rightarrow>
          if stat = STAT_SUCCESS then s\<lparr>io := io s @ [Printf m [], Puts ''STAT_SUCCESS'']\<rparr>
          else if stat = STAT_ALLOC_FAIL then s\<lparr>io := io s @ [Printf m [], Puts ''STAT_ALLOC_FAIL'']\<rparr>
          else if stat = STAT_BAD_LEVEL then s\<lparr>io := io s @ [Printf m [], Puts ''STAT_BAD_LEVEL'']\<rparr>
          else s\<lparr>io := io s @ [Printf m [], Puts ''STAT_????'']\<rparr>)"

end
