(* ===== verification/Chains.thy ===== *)
theory Chains
  imports Prelude
begin

text \<open>
  Singly linked lists over the elements of an array, as the queue nodes, the disk requests
  and the device handles of the kernel are: \<open>path nx p ns\<close> says that following the links
  \<open>nx\<close> from \<open>p\<close> visits \<open>ns\<close> and then meets NULL, and \<open>chain\<close> computes the list.

  The locale \<open>free_list\<close> is the interface of a module that keeps its unused elements on
  such a list and takes and returns them at its head.
\<close>

section \<open>Paths\<close>

primrec path :: "(nat \<Rightarrow> nat option) \<Rightarrow> nat option \<Rightarrow> nat list \<Rightarrow> bool" where
  "path nx p [] \<longleftrightarrow> p = None"
| "path nx p (n # ns) \<longleftrightarrow> p = Some n \<and> path nx (nx n) ns"

fun chain :: "nat \<Rightarrow> (nat \<Rightarrow> nat option) \<Rightarrow> nat option \<Rightarrow> nat list" where
  "chain 0 nx p = []"
| "chain (Suc k) nx p = (case p of None \<Rightarrow> [] | Some n \<Rightarrow> n # chain k nx (nx n))"

lemma path_None [simp]: "path nx None ns \<longleftrightarrow> ns = []"
  by (cases ns) auto

lemma path_Some: "path nx (Some n) ns \<longleftrightarrow> (\<exists>ms. ns = n # ms \<and> path nx (nx n) ms)"
  by (cases ns) auto

lemma path_chain: "path nx p ns \<Longrightarrow> length ns \<le> k \<Longrightarrow> chain k nx p = ns"
proof (induction ns arbitrary: p k)
  case Nil
  then show ?case by (cases k) auto
next
  case (Cons n ns)
  then obtain j where "k = Suc j" by (cases k) auto
  with Cons show ?case by auto
qed

lemma path_cong: "path nx p ns \<Longrightarrow> (\<And>n. n \<in> set ns \<Longrightarrow> nx' n = nx n) \<Longrightarrow> path nx' p ns"
  by (induction ns arbitrary: p) auto

lemma path_upd [simp]: "m \<notin> set ns \<Longrightarrow> path (nx(m := v)) p ns \<longleftrightarrow> path nx p ns"
  by (induction ns arbitrary: p) auto

text \<open>A path that starts with the elements of \<open>as\<close>, up to the pointer \<open>q\<close>.\<close>

primrec seg :: "(nat \<Rightarrow> nat option) \<Rightarrow> nat option \<Rightarrow> nat list \<Rightarrow> nat option \<Rightarrow> bool" where
  "seg nx p [] q \<longleftrightarrow> p = q"
| "seg nx p (n # ns) q \<longleftrightarrow> p = Some n \<and> seg nx (nx n) ns q"

lemma path_append: "path nx p (as @ bs) \<longleftrightarrow> (\<exists>q. seg nx p as q \<and> path nx q bs)"
  by (induction as arbitrary: p) auto

lemma seg_upd [simp]: "m \<notin> set ns \<Longrightarrow> seg (nx(m := v)) p ns q \<longleftrightarrow> seg nx p ns q"
  by (induction ns arbitrary: p) auto

lemma seg_snoc: "seg nx p (as @ [n]) q \<longleftrightarrow> seg nx p as (Some n) \<and> nx n = q"
  by (induction as arbitrary: p) auto

lemma seg_relink:
  assumes "seg nx p (as @ [n]) q" "distinct (as @ [n])"
  shows "seg (nx(n := r)) p (as @ [n]) r"
  using assms by (simp add: seg_snoc)

section \<open>Free lists\<close>

text \<open>
  \<open>hd_of\<close> is the list's head pointer, \<open>nx\<close> the link of each element, \<open>put\<close> and \<open>get\<close>
  the operations that return and take an element.
\<close>

locale free_list =
  fixes hd_of :: "'s \<Rightarrow> nat option"
    and nx :: "'s \<Rightarrow> nat \<Rightarrow> nat option"
    and put :: "nat \<Rightarrow> 's \<Rightarrow> 's"
    and get :: "'s \<Rightarrow> nat option \<times> 's"
  assumes hd_put: "hd_of (put n s) = Some n"
    and nx_put: "nx (put n s) = (nx s)(n := hd_of s)"
    and get_None: "hd_of s = None \<Longrightarrow> get s = (None, s)"
    and get_Some: "hd_of s = Some n \<Longrightarrow> fst (get s) = Some n"
    and hd_get: "hd_of s = Some n \<Longrightarrow> hd_of (snd (get s)) = nx s n"
    and nx_get: "hd_of s = Some n \<Longrightarrow> nx (snd (get s)) = (nx s)(n := None)"
begin

lemma path_put:
  assumes "path (nx s) (hd_of s) ns" "n \<notin> set ns"
  shows "path (nx (put n s)) (hd_of (put n s)) (n # ns)"
  using assms by (simp add: hd_put nx_put)

lemma path_get:
  assumes "path (nx s) (hd_of s) (n # ns)" "n \<notin> set ns"
  shows "fst (get s) = Some n" "path (nx (snd (get s))) (hd_of (snd (get s))) ns"
  using assms by (auto simp: get_Some hd_get nx_get)

text \<open>The loop that fills the list returns every element of the array in turn.\<close>

lemma path_put_all:
  assumes "path (nx s) (hd_of s) ns" "distinct ms" "set ms \<inter> set ns = {}"
  shows "path (nx (fold put ms s)) (hd_of (fold put ms s)) (rev ms @ ns)"
  using assms
proof (induction ms arbitrary: s ns)
  case Nil
  then show ?case by simp
next
  case (Cons m ms)
  then have "path (nx (put m s)) (hd_of (put m s)) (m # ns)"
    by (intro path_put) auto
  with Cons show ?case by auto
qed

text \<open>
  An element returned twice is its own successor: the list has become a cycle of length one,
  the elements behind it are lost, and what is taken next is that element.
\<close>

lemma double_put_cycle:
  "hd_of (put n (put n s)) = Some n \<and> nx (put n (put n s)) n = Some n"
  by (simp add: hd_put nx_put)

lemma double_put_no_path: "\<not> path (nx (put n (put n s))) (hd_of (put n (put n s))) ns"
proof -
  have "nx (put n (put n s)) n = Some n" "hd_of (put n (put n s)) = Some n"
    using double_put_cycle [of n s] by auto
  moreover have "\<not> path (nx (put n (put n s))) (Some n) ns" if "nx (put n (put n s)) n = Some n"
    using that by (induction ns) auto
  ultimately show ?thesis by simp
qed

lemma double_put_get_twice:
  "fst (get (put n (put n s))) = Some n"
  "fst (get (snd (get (put n (put n s))))) = Some n"
proof -
  note c = double_put_cycle [of n s]
  show "fst (get (put n (put n s))) = Some n"
    by (rule get_Some) (simp add: hd_put)
  have "hd_of (snd (get (put n (put n s)))) = Some n"
    using c by (subst hd_get [of _ n]) auto
  then show "fst (get (snd (get (put n (put n s))))) = Some n"
    by (rule get_Some)
qed

lemma double_put_exhausts:
  "hd_of (snd (get (snd (get (put n (put n s)))))) = None"
proof -
  let ?s = "put n (put n s)"
  have h: "hd_of ?s = Some n" "nx ?s n = Some n" using double_put_cycle [of n s] by auto
  then have "hd_of (snd (get ?s)) = Some n" "nx (snd (get ?s)) n = None"
    by (simp_all add: hd_get nx_get)
  then show ?thesis by (simp add: hd_get)
qed

end

end
