(* ===== verification/Queues.thy ===== *)
theory Queues
  imports Machine Chains
begin

text \<open>
  queues.c: the pool of queue nodes and the queues built from them.  A queue with an
  ordering function is sorted by the key it gives, with equal keys in insertion order; one
  without is first in, first out.  Every queue of the kernel draws its nodes from the one
  pool.
\<close>

section \<open>The code\<close>

subsection \<open>Queue nodes\<close>

definition qn_alloc :: "kstate \<Rightarrow> nat option \<times> kstate" where
  "qn_alloc s =
     (case free_qnodes s of
        None \<Rightarrow> (None, s)
      | Some n \<Rightarrow>
          let s = s\<lparr>free_qnodes := qn_next (qnodes s n)\<rparr>;
              s = set_qnode n (\<lambda>qn. qn\<lparr>qn_next := None, qn_data := None, qn_key := 0\<rparr>) s
          in (Some n, s))"

definition qn_dealloc :: "nat option \<Rightarrow> kstate \<Rightarrow> kstate" where
  "qn_dealloc qnode s =
     (case qnode of
        None \<Rightarrow> s
      | Some n \<Rightarrow>
          let s = set_qnode n (\<lambda>qn. qn\<lparr>qn_next := free_qnodes s\<rparr>) s
          in s\<lparr>free_qnodes := Some n\<rparr>)"

subsection \<open>Queues\<close>

definition hash_sleep :: "obj option \<Rightarrow> kstate \<Rightarrow> u32 outcome" where
  "hash_sleep p s = bindE (as_pcb p) (\<lambda>i. bindE (deref i) (\<lambda>i. Inr (wakeup (pcbs s i))))"

definition call_hash :: "hash_fcn \<Rightarrow> obj option \<Rightarrow> kstate \<Rightarrow> u32 outcome" where
  "call_hash h p s = (case h of Hash_sleep \<Rightarrow> hash_sleep p s)"

text \<open>
  The search for the insertion point.  More links than there are nodes can only be followed
  in a cycle, so the fuel \<open>N_QNODES + 1\<close> loses nothing.
\<close>

fun q_scan :: "nat \<Rightarrow> u32 \<Rightarrow> nat option \<Rightarrow> nat option \<Rightarrow> kstate \<Rightarrow> (nat option \<times> nat option) outcome" where
  "q_scan 0 key prev cur s = Inl Hang"
| "q_scan (Suc fuel) key prev cur s =
     (case cur of
        None \<Rightarrow> Inr (prev, None)
      | Some c \<Rightarrow>
          if qn_key (qnodes s c) \<le> key
          then q_scan fuel key (Some c) (qn_next (qnodes s c)) s
          else Inr (prev, Some c))"

text \<open>Linking the new node \<open>n\<close> in between its predecessor and its successor.\<close>

definition q_link :: "queue_id \<Rightarrow> nat \<Rightarrow> nat option \<Rightarrow> nat option \<Rightarrow> kstate \<Rightarrow> kstate" where
  "q_link q n prev cur s =
     (let s = set_qnode n (\<lambda>qn. qn\<lparr>qn_next := cur\<rparr>) s;
          s = (case prev of
                 Some m \<Rightarrow> set_qnode m (\<lambda>qn. qn\<lparr>qn_next := Some n\<rparr>) s
               | None \<Rightarrow> set_queue q (\<lambda>h. h\<lparr>q_first := Some n\<rparr>) s)
      in if cur = None then set_queue q (\<lambda>h. h\<lparr>q_last := Some n\<rparr>) s else s)"

definition q_insert :: "queue_id \<Rightarrow> obj option \<Rightarrow> u32 kop" where
  "q_insert q p s =
     (case qn_alloc s of
        (None, s) \<Rightarrow> Inr (STAT_ALLOC_FAIL, s)
      | (Some n, s) \<Rightarrow>
          let s = set_qnode n (\<lambda>qn. qn\<lparr>qn_data := p\<rparr>) s in
          bindE
            (case hashfcn (queues s q) of
               Some h \<Rightarrow>
                 bindE (call_hash h p s) (\<lambda>key.
                   let s = set_qnode n (\<lambda>qn. qn\<lparr>qn_key := key\<rparr>) s in
                   bindE (q_scan (N_QNODES + 1) key None (q_first (queues s q)) s)
                     (\<lambda>(prev, cur). Inr (prev, cur, s)))
             | None \<Rightarrow> Inr (q_last (queues s q), None, s))
            (\<lambda>(prev, cur, s). Inr (STAT_SUCCESS, q_link q n prev cur s)))"

definition q_remove :: "queue_id \<Rightarrow> kstate \<Rightarrow> obj option \<times> kstate" where
  "q_remove q s =
     (case q_first (queues s q) of
        Some n \<Rightarrow>
          let p = qn_data (qnodes s n);
              s = set_queue q (\<lambda>h. h\<lparr>q_first := qn_next (qnodes s n)\<rparr>) s;
              s = (if q_first (queues s q) = None
                   then set_queue q (\<lambda>h. h\<lparr>q_last := None\<rparr>) s else s);
              s = qn_dealloc (Some n) s
          in (p, s)
      | None \<Rightarrow> (None, s))"

definition q_remove_if_le :: "queue_id \<Rightarrow> u32 \<Rightarrow> kstate \<Rightarrow> obj option \<times> kstate" where
  "q_remove_if_le q key s =
     (case q_first (queues s q) of
        Some n \<Rightarrow> if qn_key (qnodes s n) \<le> key then q_remove q s else (None, s)
      | None \<Rightarrow> (None, s))"

definition q_isempty :: "queue_id \<Rightarrow> kstate \<Rightarrow> bool" where
  "q_isempty q s \<longleftrightarrow> q_first (queues s q) = None"

definition q_reset :: "queue_id option \<Rightarrow> hash_fcn option \<Rightarrow> kstate \<Rightarrow> kstate" where
  "q_reset qp fcn s =
     (case qp of
        None \<Rightarrow> s
      | Some q \<Rightarrow> set_queue q (\<lambda>h. h\<lparr>hashfcn := fcn, q_first := None, q_last := None\<rparr>) s)"

definition q_init :: "kstate \<Rightarrow> kstate" where
  "q_init s =
     (let s = s\<lparr>qnodes := (\<lambda>i. if i < N_QNODES then zero_qnode else qnodes s i)\<rparr>;
          s = s\<lparr>free_qnodes := None\<rparr>;
          s = fold (\<lambda>i. qn_dealloc (Some i)) [0..<N_QNODES] s
      in c_puts '' queue'' s)"

section \<open>Well-formed queues\<close>

text \<open>
  \<open>links s\<close> is the link of every node.  \<open>q_repr s L F\<close> says that following the links from
  the head of every queue \<open>q\<close> visits \<open>L q\<close>, from the free list \<open>F\<close>, that these lists share
  no node, that the tail pointers are right, and that queues with an ordering function are
  sorted.
\<close>

definition links :: "kstate \<Rightarrow> nat \<Rightarrow> nat option" where
  "links s = (\<lambda>n. qn_next (qnodes s n))"

definition tail_of :: "nat list \<Rightarrow> nat option" where
  "tail_of ns = (if ns = [] then None else Some (last ns))"

definition queue_repr :: "kstate \<Rightarrow> queue_id \<Rightarrow> nat list \<Rightarrow> bool" where
  "queue_repr s q ns \<longleftrightarrow>
     path (links s) (q_first (queues s q)) ns \<and>
     q_last (queues s q) = tail_of ns \<and>
     distinct ns \<and> set ns \<subseteq> {..<N_QNODES} \<and>
     (hashfcn (queues s q) \<noteq> None \<longrightarrow> sorted (map (\<lambda>n. qn_key (qnodes s n)) ns))"

definition q_repr :: "kstate \<Rightarrow> (queue_id \<Rightarrow> nat list) \<Rightarrow> nat list \<Rightarrow> bool" where
  "q_repr s L F \<longleftrightarrow>
     path (links s) (free_qnodes s) F \<and> distinct F \<and> set F \<subseteq> {..<N_QNODES} \<and>
     (\<forall>q. queue_repr s q (L q)) \<and>
     (\<forall>q. set (L q) \<inter> set F = {}) \<and>
     (\<forall>q q'. q \<noteq> q' \<longrightarrow> set (L q) \<inter> set (L q') = {})"

definition q_nodes :: "kstate \<Rightarrow> queue_id \<Rightarrow> nat list" where
  "q_nodes s q = chain N_QNODES (links s) (q_first (queues s q))"

definition free_nodes :: "kstate \<Rightarrow> nat list" where
  "free_nodes s = chain N_QNODES (links s) (free_qnodes s)"

definition q_wf :: "kstate \<Rightarrow> bool" where
  "q_wf s \<longleftrightarrow> q_repr s (q_nodes s) (free_nodes s)"

text \<open>
  What a well-formed queue holds: its elements with their keys, from first to last, and the
  number of nodes left in the pool.
\<close>

definition entry :: "kstate \<Rightarrow> nat \<Rightarrow> u32 \<times> obj option" where
  "entry s n = (qn_key (qnodes s n), qn_data (qnodes s n))"

definition q_view :: "kstate \<Rightarrow> queue_id \<Rightarrow> (u32 \<times> obj option) list" where
  "q_view s q = map (entry s) (q_nodes s q)"

definition q_data :: "kstate \<Rightarrow> queue_id \<Rightarrow> obj option list" where
  "q_data s q = map snd (q_view s q)"

definition n_free :: "kstate \<Rightarrow> nat" where
  "n_free s = length (free_nodes s)"

text \<open>Nothing but the queues has changed, and no queue has changed its ordering.\<close>

definition q_frame :: "kstate \<Rightarrow> kstate \<Rightarrow> bool" where
  "q_frame s s' \<longleftrightarrow>
     s'\<lparr>queues := queues s, qnodes := qnodes s, free_qnodes := free_qnodes s\<rparr> = s \<and>
     (\<forall>q. hashfcn (queues s' q) = hashfcn (queues s q))"

lemma q_reprD:
  assumes "q_repr s L F"
  shows "queue_repr s q (L q)" "set (L q) \<inter> set F = {}"
    "path (links s) (free_qnodes s) F" "distinct F" "set F \<subseteq> {..<N_QNODES}"
    "q \<noteq> q' \<Longrightarrow> set (L q) \<inter> set (L q') = {}"
  using assms by (simp_all add: q_repr_def)

lemma queue_reprD:
  assumes "queue_repr s q ns"
  shows "path (links s) (q_first (queues s q)) ns" "q_last (queues s q) = tail_of ns"
    "distinct ns" "set ns \<subseteq> {..<N_QNODES}"
    "hashfcn (queues s q) \<noteq> None \<Longrightarrow> sorted (map (\<lambda>n. qn_key (qnodes s n)) ns)"
  using assms by (simp_all add: queue_repr_def)

lemma q_repr_unique:
  assumes "q_repr s L F"
  shows "q_nodes s = L" "free_nodes s = F"
proof -
  have chain: "chain N_QNODES nx p = ns"
    if "path nx p ns" "distinct ns" "set ns \<subseteq> {..<N_QNODES}" for nx p ns
    using that by (intro path_chain distinct_subset_length)
  note r = q_reprD [OF assms]
  show "q_nodes s = L"
    by (rule ext) (simp only: q_nodes_def chain queue_reprD [OF r(1)])
  show "free_nodes s = F"
    by (simp only: free_nodes_def chain r)
qed

lemma q_wfI: "q_repr s L F \<Longrightarrow> q_wf s"
  using q_repr_unique [of s L F] by (simp add: q_wf_def)

lemma q_wfE:
  assumes "q_wf s"
  obtains L F where "q_repr s L F" "q_nodes s = L" "free_nodes s = F"
  using assms by (auto simp: q_wf_def)

lemma q_frame_refl [simp]: "q_frame s s"
  by (simp add: q_frame_def)

lemma q_frame_trans:
  assumes "q_frame s t" "q_frame t u"
  shows "q_frame s u"
proof -
  let ?r = "\<lambda>x y. y\<lparr>queues := queues x, qnodes := qnodes x, free_qnodes := free_qnodes x\<rparr> :: kstate"
  have "?r s u = ?r s (?r t u)" by simp
  also have "\<dots> = ?r s t" using assms(2) by (simp only: q_frame_def)
  also have "\<dots> = s" using assms(1) by (simp only: q_frame_def)
  finally show ?thesis using assms by (simp add: q_frame_def)
qed

lemma q_frame_fields:
  assumes "q_frame s s'"
  shows "hashfcn (queues s' q) = hashfcn (queues s q)"
    "inq s' = inq s" "io s' = io s" "mem s' = mem s" "pcbs s' = pcbs s" "current s' = current s"
    "next_pid s' = next_pid s" "stacks s' = stacks s" "system_stack s' = system_stack s"
    "system_esp s' = system_esp s"
    "current_shms s' = current_shms s" "next_shm s' = next_shm s" "free_ptr s' = free_ptr s"
    "pinwheel s' = pinwheel s" "pindex s' = pindex s" "ramdisk_service s' = ramdisk_service s"
    "system_time s' = system_time s" "inbuffer s' = inbuffer s" "inlast s' = inlast s"
    "innext s' = innext s" "incount s' = incount s" "outbuffer s' = outbuffer s"
    "outlast s' = outlast s" "outnext s' = outnext s" "outcount s' = outcount s"
    "sending s' = sending s" "ier s' = ier s" "pending_requests s' = pending_requests s"
    "free_disk_requests s' = free_disk_requests s" "ramdisk s' = ramdisk s"
    "device_handles s' = device_handles s" "free_device_handles s' = free_device_handles s"
    "isr_table s' = isr_table s" "syscalls s' = syscalls s"
proof -
  have h: "\<forall>q. hashfcn (queues s' q) = hashfcn (queues s q)"
    and eq: "s'\<lparr>queues := queues s, qnodes := qnodes s, free_qnodes := free_qnodes s\<rparr> = s"
    using assms by (auto simp: q_frame_def)
  show "hashfcn (queues s' q) = hashfcn (queues s q)" using h by blast
  note e = arg_cong [OF eq]
  show "inq s' = inq s" using e [of inq] by simp
  show "io s' = io s" using e [of io] by simp
  show "mem s' = mem s" using e [of mem] by simp
  show "pcbs s' = pcbs s" using e [of pcbs] by simp
  show "current s' = current s" using e [of current] by simp
  show "next_pid s' = next_pid s" using e [of next_pid] by simp
  show "stacks s' = stacks s" using e [of stacks] by simp
  show "system_stack s' = system_stack s" using e [of system_stack] by simp
  show "system_esp s' = system_esp s" using e [of system_esp] by simp
  show "current_shms s' = current_shms s" using e [of current_shms] by simp
  show "next_shm s' = next_shm s" using e [of next_shm] by simp
  show "free_ptr s' = free_ptr s" using e [of free_ptr] by simp
  show "pinwheel s' = pinwheel s" using e [of pinwheel] by simp
  show "pindex s' = pindex s" using e [of pindex] by simp
  show "ramdisk_service s' = ramdisk_service s" using e [of ramdisk_service] by simp
  show "system_time s' = system_time s" using e [of system_time] by simp
  show "inbuffer s' = inbuffer s" using e [of inbuffer] by simp
  show "inlast s' = inlast s" using e [of inlast] by simp
  show "innext s' = innext s" using e [of innext] by simp
  show "incount s' = incount s" using e [of incount] by simp
  show "outbuffer s' = outbuffer s" using e [of outbuffer] by simp
  show "outlast s' = outlast s" using e [of outlast] by simp
  show "outnext s' = outnext s" using e [of outnext] by simp
  show "outcount s' = outcount s" using e [of outcount] by simp
  show "sending s' = sending s" using e [of sending] by simp
  show "ier s' = ier s" using e [of ier] by simp
  show "pending_requests s' = pending_requests s" using e [of pending_requests] by simp
  show "free_disk_requests s' = free_disk_requests s" using e [of free_disk_requests] by simp
  show "ramdisk s' = ramdisk s" using e [of ramdisk] by simp
  show "device_handles s' = device_handles s" using e [of device_handles] by simp
  show "free_device_handles s' = free_device_handles s" using e [of free_device_handles] by simp
  show "isr_table s' = isr_table s" using e [of isr_table] by simp
  show "syscalls s' = syscalls s" using e [of syscalls] by simp
qed

text \<open>What a view depends on.\<close>

lemma q_repr_cong:
  assumes "queues s' = queues s" "qnodes s' = qnodes s" "free_qnodes s' = free_qnodes s"
  shows "q_repr s' L F \<longleftrightarrow> q_repr s L F" "q_nodes s' = q_nodes s" "free_nodes s' = free_nodes s"
    "q_wf s' \<longleftrightarrow> q_wf s" "q_view s' = q_view s" "q_data s' = q_data s" "n_free s' = n_free s"
proof -
  have l: "links s' = links s" and en: "entry s' = entry s"
    using assms by (auto simp: links_def entry_def)
  show n: "q_nodes s' = q_nodes s" "free_nodes s' = free_nodes s"
    using assms l by (auto simp: q_nodes_def free_nodes_def)
  show r: "q_repr s' L F \<longleftrightarrow> q_repr s L F" for L F
    using assms l by (simp add: q_repr_def queue_repr_def)
  show "q_wf s' \<longleftrightarrow> q_wf s" by (simp add: q_wf_def n r)
  show v: "q_view s' = q_view s" by (rule ext) (simp add: q_view_def n en)
  show "q_data s' = q_data s" by (rule ext) (simp add: q_data_def v)
  show "n_free s' = n_free s" by (simp add: n_free_def n)
qed

section \<open>The operations on well-formed queues\<close>

lemma set_qnode_simps [simp]:
  "queues (set_qnode n f s) = queues s"
  "free_qnodes (set_qnode n f s) = free_qnodes s"
  "qnodes (set_qnode n f s) = (qnodes s)(n := f (qnodes s n))"
  by (simp_all add: set_qnode_def)

lemma set_queue_simps [simp]:
  "qnodes (set_queue q f s) = qnodes s"
  "free_qnodes (set_queue q f s) = free_qnodes s"
  "queues (set_queue q f s) = (queues s)(q := f (queues s q))"
  by (simp_all add: set_queue_def)

lemma q_frame_set_qnode [simp]: "q_frame s (set_qnode n f t) \<longleftrightarrow> q_frame s t"
  by (simp add: q_frame_def set_qnode_def)

lemma q_frame_set_queue:
  "hashfcn (f (queues t q)) = hashfcn (queues t q) \<Longrightarrow>
   q_frame s (set_queue q f t) \<longleftrightarrow> q_frame s t"
  by (auto simp: q_frame_def set_queue_def)

lemma q_frame_free_qnodes [simp]: "q_frame s (t\<lparr>free_qnodes := p\<rparr>) \<longleftrightarrow> q_frame s t"
  by (simp add: q_frame_def)

lemma tail_of_simps [simp]:
  "tail_of [] = None"
  "tail_of (as @ [n]) = Some n"
  "bs \<noteq> [] \<Longrightarrow> tail_of (as @ bs) = tail_of bs"
  "bs \<noteq> [] \<Longrightarrow> tail_of (n # bs) = tail_of bs"
  by (auto simp: tail_of_def)

lemma q_frame_q_link: "q_frame s (q_link q n prev cur t) \<longleftrightarrow> q_frame s t"
  by (auto simp: q_link_def Let_def q_frame_set_queue split: option.splits)

lemma qn_key_q_link [simp]:
  "qn_key (qnodes (q_link q n prev cur s) m) = qn_key (qnodes s m)"
  "qn_data (qnodes (q_link q n prev cur s) m) = qn_data (qnodes s m)"
  by (auto simp: q_link_def Let_def split: option.splits)

lemma free_qnodes_q_link [simp]: "free_qnodes (q_link q n prev cur s) = free_qnodes s"
  by (auto simp: q_link_def Let_def split: option.splits)

lemma hashfcn_q_link [simp]: "hashfcn (queues (q_link q n prev cur s) q') = hashfcn (queues s q')"
  by (auto simp: q_link_def Let_def split: option.splits)

lemma queues_q_link_other [simp]: "q' \<noteq> q \<Longrightarrow> queues (q_link q n prev cur s) q' = queues s q'"
  by (auto simp: q_link_def Let_def split: option.splits)

text \<open>
  Linking a node that is on no list between \<open>as\<close> and \<open>bs\<close> gives the queue \<open>as @ n # bs\<close>
  and leaves every other list alone.
\<close>

lemma links_q_link:
  "links (q_link q n prev cur s) =
   (case prev of None \<Rightarrow> (links s)(n := cur) | Some m \<Rightarrow> (links s)(n := cur, m := Some n))"
  by (rule ext) (auto simp: q_link_def links_def Let_def split: option.splits)

lemma q_link_path:
  assumes "path (links s) (q_first (queues s q)) (as @ bs)" "distinct (as @ bs)"
    and "n \<notin> set (as @ bs)" and cur: "path (links s) cur bs"
  shows "path (links (q_link q n (tail_of as) cur s))
           (q_first (queues (q_link q n (tail_of as) cur s) q)) (as @ n # bs)"
proof (cases as rule: rev_cases)
  case Nil
  then show ?thesis using assms
    by (simp add: links_q_link) (simp add: q_link_def Let_def)
next
  case (snoc as' m)
  let ?nx = "(links s)(n := cur)"
  from assms(1) snoc obtain r
    where "seg (links s) (q_first (queues s q)) (as' @ [m]) r" by (auto simp only: path_append)
  then have "seg ?nx (q_first (queues s q)) (as' @ [m]) r"
    using assms snoc by simp
  then have "seg (?nx(m := Some n)) (q_first (queues s q)) (as' @ [m]) (Some n)"
    using assms snoc by (intro seg_relink) auto
  moreover have "path (?nx(m := Some n)) (Some n) (n # bs)"
    using assms snoc by auto
  moreover have "q_first (queues (q_link q n (Some m) cur s) q) = q_first (queues s q)"
    by (simp add: q_link_def Let_def)
  ultimately show ?thesis
    unfolding path_append using snoc by (auto simp: links_q_link)
qed

lemma q_link_last:
  assumes "q_last (queues s q) = tail_of (as @ bs)" "path (links s) cur bs"
  shows "q_last (queues (q_link q n prev cur s) q) = tail_of (as @ n # bs)"
  using assms by (cases bs) (auto simp: q_link_def Let_def split: option.splits)

lemma q_link_repr:
  assumes r: "q_repr s L F" and L: "L q = as @ bs" and cur: "path (links s) cur bs"
    and n: "n < N_QNODES" "n \<notin> set F" "\<And>q'. n \<notin> set (L q')"
    and sorted: "hashfcn (queues s q) \<noteq> None \<Longrightarrow>
       sorted (map (\<lambda>n. qn_key (qnodes s n)) (as @ n # bs))"
  shows "q_repr (q_link q n (tail_of as) cur s) (L(q := as @ n # bs)) F"
proof -
  let ?s = "q_link q n (tail_of as) cur s"
  have frame: "path (links ?s) p ns"
    if "path (links s) p ns" "n \<notin> set ns" "set as \<inter> set ns = {}" for p ns
    using that by (cases as rule: rev_cases) (auto simp: links_q_link)
  note q = queue_reprD [OF q_reprD(1) [OF r, of q], unfolded L]
  have disj: "set as \<inter> set F = {}" "set bs \<inter> set F = {}"
    using q_reprD(2) [OF r, of q] L by auto
  have self: "queue_repr ?s q (as @ n # bs)"
    unfolding queue_repr_def
  proof (intro conjI)
    show "path (links ?s) (q_first (queues ?s q)) (as @ n # bs)"
      using q n(3) [of q] L cur by (intro q_link_path) auto
    show "q_last (queues ?s q) = tail_of (as @ n # bs)"
      using q cur by (intro q_link_last)
  qed (use q n(1) n(3) [of q] L sorted in auto)
  have other: "queue_repr ?s q' (L q')" if "q' \<noteq> q" for q'
  proof -
    note q' = queue_reprD [OF q_reprD(1) [OF r, of q']]
    have "set as \<inter> set (L q') = {}" using q_reprD(6) [OF r that] L by auto
    then show ?thesis
      unfolding queue_repr_def using q' that n(3) [of q'] by (simp add: frame)
  qed
  show ?thesis
    unfolding q_repr_def
  proof (intro conjI allI impI)
    show "path (links ?s) (free_qnodes ?s) F"
      using q_reprD(3) [OF r] n(2) disj by (simp add: frame)
    fix p p' :: queue_id
    show "queue_repr ?s p ((L(q := as @ n # bs)) p)" using self other by simp
    show "set ((L(q := as @ n # bs)) p) \<inter> set F = {}"
      using q_reprD(2) [OF r, of p] n(2) disj by auto
    assume "p \<noteq> p'"
    then show "set ((L(q := as @ n # bs)) p) \<inter> set ((L(q := as @ n # bs)) p') = {}"
      using q_reprD(6) [OF r, of p p'] n(3) [of p] n(3) [of p'] L by auto
  qed (use q_reprD [OF r] in auto)
qed

subsection \<open>Nodes\<close>

lemma qn_alloc_repr:
  assumes "q_repr s L (n # F)"
  shows "fst (qn_alloc s) = Some n" "q_repr (snd (qn_alloc s)) L F"
    "queues (snd (qn_alloc s)) = queues s"
    "m \<noteq> n \<Longrightarrow> entry (snd (qn_alloc s)) m = entry s m" "entry (snd (qn_alloc s)) n = (0, None)"
    "q_frame s (snd (qn_alloc s))"
proof -
  have fr: "free_qnodes s = Some n" "path (links s) (links s n) F" "n \<notin> set F"
    using q_reprD(3,4) [OF assms] by auto
  let ?s = "snd (qn_alloc s)"
  have l: "links ?s = (links s)(n := None)" and qs: "queues ?s = queues s"
    and f: "free_qnodes ?s = links s n"
    using fr by (auto simp: qn_alloc_def links_def)
  have en: "entry ?s m = entry s m" if "m \<noteq> n" for m
    using fr that by (simp add: qn_alloc_def entry_def)
  have disj: "n \<notin> set (L q)" for q using q_reprD(2) [OF assms, of q] by auto
  show "fst (qn_alloc s) = Some n" "entry ?s n = (0, None)" "q_frame s ?s"
    using fr by (auto simp: qn_alloc_def entry_def)
  show "queues ?s = queues s" "m \<noteq> n \<Longrightarrow> entry ?s m = entry s m" by (fact qs, fact en)
  have keys: "map (\<lambda>n. qn_key (qnodes ?s n)) (L q) = map (\<lambda>n. qn_key (qnodes s n)) (L q)" for q
  proof (rule map_cong [OF refl])
    fix m assume "m \<in> set (L q)"
    then have "m \<noteq> n" using disj [of q] by blast
    then show "qn_key (qnodes ?s m) = qn_key (qnodes s m)" using en by (simp add: entry_def)
  qed
  have "queue_repr ?s q (L q)" for q
    using queue_reprD [OF q_reprD(1) [OF assms, of q]] disj [of q]
    unfolding queue_repr_def by (simp add: l qs keys)
  then show "q_repr ?s L F"
    using q_reprD [OF assms] fr unfolding q_repr_def by (auto simp: l f)
qed

lemma qn_alloc_empty: "q_repr s L [] \<Longrightarrow> qn_alloc s = (None, s)"
  by (auto simp: q_repr_def qn_alloc_def)

text \<open>Keys and data of nodes that are on no list are free to change.\<close>

lemma q_repr_set_qnode:
  assumes "q_repr s L F" "\<And>q. n \<notin> set (L q)"
    and nxt: "qn_next (f (qnodes s n)) = qn_next (qnodes s n)"
  shows "q_repr (set_qnode n f s) L F"
proof -
  have l: "links (set_qnode n f s) = links s"
    using nxt by (auto simp: links_def)
  have keys: "map (\<lambda>m. qn_key (qnodes (set_qnode n f s) m)) (L q) = map (\<lambda>m. qn_key (qnodes s m)) (L q)" for q
    using assms(2) [of q] by auto
  have "queue_repr (set_qnode n f s) q (L q)" for q
    using queue_reprD [OF q_reprD(1) [OF assms(1), of q]]
    unfolding queue_repr_def by (simp only: l keys) simp
  then show ?thesis using q_reprD [OF assms(1)] unfolding q_repr_def by (auto simp: l)
qed

lemma qn_dealloc_repr:
  assumes r: "q_repr s L F" and n: "n < N_QNODES" "n \<notin> set F" "\<And>q. n \<notin> set (L q)"
  shows "q_repr (qn_dealloc (Some n) s) L (n # F)" "q_frame s (qn_dealloc (Some n) s)"
    "entry (qn_dealloc (Some n) s) = entry s" "queues (qn_dealloc (Some n) s) = queues s"
proof -
  let ?s = "qn_dealloc (Some n) s"
  have l: "links ?s = (links s)(n := free_qnodes s)" and f: "free_qnodes ?s = Some n"
    and qs: "queues ?s = queues s"
    by (auto simp: qn_dealloc_def links_def Let_def)
  show en: "entry ?s = entry s"
    by (rule ext) (simp add: qn_dealloc_def entry_def Let_def)
  have key: "qn_key (qnodes ?s m) = qn_key (qnodes s m)" for m
    using fun_cong [OF en, of m] by (simp add: entry_def)
  show "q_frame s ?s" by (simp add: qn_dealloc_def Let_def)
  show "queues ?s = queues s" by (fact qs)
  have "queue_repr ?s q (L q)" for q
    using queue_reprD [OF q_reprD(1) [OF r, of q]] n(3) [of q]
    unfolding queue_repr_def by (simp add: l qs key)
  then show "q_repr ?s L (n # F)"
    using q_reprD [OF r] n unfolding q_repr_def by (auto simp: l f)
qed

subsection \<open>Insertion\<close>

text \<open>Where an element goes, and the key it gets.\<close>

definition q_place :: "bool \<Rightarrow> u32 \<times> 'v \<Rightarrow> (u32 \<times> 'v) list \<Rightarrow> (u32 \<times> 'v) list" where
  "q_place ordered e xs = (if ordered then insert_by fst e xs else xs @ [e])"

definition q_ordered :: "kstate \<Rightarrow> queue_id \<Rightarrow> bool" where
  "q_ordered s q \<longleftrightarrow> hashfcn (queues s q) \<noteq> None"

definition q_key :: "kstate \<Rightarrow> queue_id \<Rightarrow> obj option \<Rightarrow> u32 outcome" where
  "q_key s q p = (case hashfcn (queues s q) of None \<Rightarrow> Inr 0 | Some h \<Rightarrow> call_hash h p s)"

lemma call_hash_cong: "pcbs s' = pcbs s \<Longrightarrow> call_hash h p s' = call_hash h p s"
  by (cases h) (simp add: call_hash_def hash_sleep_def)

lemma q_scan_eq:
  assumes "path (links s) cur bs" "length bs < fuel" "prev = tail_of as"
  shows "\<exists>cur'. q_scan fuel key prev cur s =
       Inr (tail_of (as @ takeWhile (\<lambda>m. qn_key (qnodes s m) \<le> key) bs), cur') \<and>
     path (links s) cur' (dropWhile (\<lambda>m. qn_key (qnodes s m) \<le> key) bs)"
  using assms
proof (induction bs arbitrary: fuel cur prev as)
  case Nil
  then show ?case by (cases fuel) auto
next
  case (Cons b bs)
  then obtain f where f: "fuel = Suc f" "length bs < f" by (cases fuel) auto
  from Cons.prems have c: "cur = Some b" "path (links s) (links s b) bs" by auto
  show ?case
  proof (cases "qn_key (qnodes s b) \<le> key")
    case True
    from Cons.IH [of "links s b" f "Some b" "as @ [b]"] c(2) f(2) True
    show ?thesis using c(1) f(1) by (simp add: links_def)
  next
    case False
    then show ?thesis using Cons.prems c(1) f(1) by simp
  qed
qed

lemma q_insert_full: "q_wf s \<Longrightarrow> n_free s = 0 \<Longrightarrow> q_insert q p s = Inr (STAT_ALLOC_FAIL, s)"
  by (auto simp: q_wf_def n_free_def q_insert_def dest!: qn_alloc_empty)

lemma q_insert_nodes:
  assumes r: "q_repr s L (n # F)" and k: "q_key s q p = Inr k"
  defines "P \<equiv> \<lambda>m. qn_key (qnodes s m) \<le> k"
  defines "as \<equiv> if q_ordered s q then takeWhile P (L q) else L q"
    and "bs \<equiv> if q_ordered s q then dropWhile P (L q) else []"
  shows "\<exists>s'. q_insert q p s = Inr (STAT_SUCCESS, s') \<and> q_repr s' (L(q := as @ n # bs)) F \<and>
     q_frame s s' \<and> entry s' = (entry s)(n := (k, p))"
proof -
  define s1 where "s1 = snd (qn_alloc s)"
  define s2 where "s2 = set_qnode n (\<lambda>qn. qn\<lparr>qn_data := p\<rparr>) s1"
  define s3 where "s3 = set_qnode n (\<lambda>qn. qn\<lparr>qn_key := k\<rparr>) s2"
  note a = qn_alloc_repr [OF r, folded s1_def]
  have al: "qn_alloc s = (Some n, s1)" using a(1) by (simp add: s1_def prod_eq_iff)
  have new: "n \<notin> set (L q')" for q' using q_reprD(2) [OF r, of q'] by auto
  have nF: "n < N_QNODES" "n \<notin> set F" using q_reprD(4,5) [OF r] by auto
  have r3: "q_repr s3 L F"
    unfolding s3_def s2_def by (intro q_repr_set_qnode a(2) new) simp_all
  have k1: "qn_key (qnodes s1 n) = 0" using a(5) by (simp add: entry_def)
  have e3: "entry s3 m = (if m = n then (k, p) else entry s m)" for m
    using a(4) [of m] by (auto simp: s3_def s2_def entry_def)
  have q3: "queues s3 = queues s" by (simp add: s3_def s2_def a(3))
  have fr3: "q_frame s s3" by (simp add: s3_def s2_def a(6))
  have fr2: "q_frame s s2" by (simp add: s2_def a(6))
  have P3: "qn_key (qnodes s3 m) = qn_key (qnodes s m)" if "m \<in> set (L q)" for m
    using e3 [of m] new [of q] that by (cases "m = n") (auto simp: entry_def)
  have key3: "qn_key (qnodes s3 n) = k" using e3 [of n] by (simp add: entry_def)
  have path3: "path (links s3) (q_first (queues s q)) (L q)" "length (L q) < N_QNODES + 1"
    "sorted (map (\<lambda>n. qn_key (qnodes s n)) (L q))" if "q_ordered s q"
    using queue_reprD [OF q_reprD(1) [OF r3, of q]] queue_reprD [OF q_reprD(1) [OF r, of q]] that
    by (auto simp: q3 q_ordered_def less_Suc_eq_le intro: distinct_subset_length)
  have L: "L q = as @ bs" by (simp add: as_def bs_def)
  have q2: "queues s2 = queues s" by (simp add: s2_def a(3))
  let ?key = "\<lambda>key. set_qnode n (\<lambda>qn. qn\<lparr>qn_key := key\<rparr>) s2"
  have ins_eq: "q_insert q p s =
      bindE
        (case hashfcn (queues s q) of
           Some h \<Rightarrow> bindE (call_hash h p s2) (\<lambda>key.
             bindE (q_scan (N_QNODES + 1) key None (q_first (queues s q)) (?key key))
               (\<lambda>(prev, cur). Inr (prev, cur, ?key key)))
         | None \<Rightarrow> Inr (q_last (queues s q), None, s2))
        (\<lambda>(prev, cur, s). Inr (STAT_SUCCESS, q_link q n prev cur s))"
    by (simp add: q_insert_def al Let_def s2_def a(3) split: option.split)
  have tw: "takeWhile (\<lambda>m. qn_key (qnodes s3 m) \<le> k) (L q) = as"
    "dropWhile (\<lambda>m. qn_key (qnodes s3 m) \<le> k) (L q) = bs" if "q_ordered s q"
    using that P3 by (auto simp: as_def bs_def P_def intro!: takeWhile_cong dropWhile_cong)
  obtain cur where cur: "path (links s3) cur bs"
    and ins: "q_insert q p s = Inr (STAT_SUCCESS, q_link q n (tail_of as) cur s3)"
  proof (cases "hashfcn (queues s q)")
    case None
    then have "k = 0" using k by (simp add: q_key_def)
    moreover have "qnodes s1 n\<lparr>qn_data := p, qn_key := 0\<rparr> = qnodes s1 n\<lparr>qn_data := p\<rparr>"
      using k1 by (cases "qnodes s1 n") simp
    ultimately have "s3 = s2" by (simp add: s3_def s2_def set_qnode_def)
    moreover have "q_last (queues s q) = tail_of (L q)"
      using queue_reprD(2) [OF q_reprD(1) [OF r]] .
    ultimately show ?thesis using None
      by (intro that [of None]) (simp_all add: ins_eq as_def bs_def q_ordered_def)
  next
    case (Some h)
    then have ord: "q_ordered s q" by (simp add: q_ordered_def)
    have h: "call_hash h p s2 = Inr k"
      using k Some call_hash_cong [OF q_frame_fields(5) [OF fr2]] by (simp add: q_key_def)
    from tw [OF ord] obtain cur where "q_scan (N_QNODES + 1) k None (q_first (queues s q)) s3 = Inr (tail_of as, cur)"
      "path (links s3) cur bs"
      using q_scan_eq [OF path3(1,2) [OF ord], of None "[]" k] by auto
    then show ?thesis using Some h
      by (intro that [of cur]) (simp_all add: ins_eq s3_def del: set_qnode_simps)
  qed
  have sorted: "sorted (map (\<lambda>n. qn_key (qnodes s3 n)) (as @ n # bs))" if o: "hashfcn (queues s3 q) \<noteq> None"
  proof -
    have ord: "q_ordered s q" using o by (simp add: q_ordered_def q3)
    let ?k = "\<lambda>m. qn_key (qnodes s3 m)"
    have "as @ n # bs = insert_by ?k n (L q)"
      using tw [OF ord] by (simp add: insert_by_split key3)
    moreover have "sorted (map ?k (L q))" using path3(3) [OF ord] P3 by (simp cong: map_cong)
    ultimately show ?thesis by (simp only: sorted_insert_by)
  qed
  have "q_repr (q_link q n (tail_of as) cur s3) (L(q := as @ n # bs)) F"
    using nF new by (intro q_link_repr r3 L cur sorted)
  moreover have "entry (q_link q n (tail_of as) cur s3) = (entry s)(n := (k, p))"
    using e3 by (intro ext) (auto simp: entry_def)
  ultimately show ?thesis using ins fr3 by (auto simp: q_frame_q_link)
qed

text \<open>
  On views: an insertion into a pool with a free node succeeds, puts the element where the
  queue's order wants it, takes one node and changes nothing else.
\<close>

lemma q_view_of_repr:
  assumes "q_repr s L F"
  shows "q_view s q = map (entry s) (L q)" "n_free s = length F"
  by (simp_all add: q_view_def n_free_def q_repr_unique [OF assms])

theorem q_insert_ok:
  assumes wf: "q_wf s" and room: "n_free s \<noteq> 0" and k: "q_key s q p = Inr k"
  shows "\<exists>s'. q_insert q p s = Inr (STAT_SUCCESS, s') \<and> q_wf s' \<and> q_frame s s' \<and>
     q_view s' = (q_view s)(q := q_place (q_ordered s q) (k, p) (q_view s q)) \<and>
     n_free s' = n_free s - 1"
proof -
  from wf obtain L F' where r0: "q_repr s L F'" by (auto elim: q_wfE)
  with room obtain n F where F: "F' = n # F" by (cases F') (auto simp: q_view_of_repr)
  note r = r0 [unfolded F]
  define P where "P = (\<lambda>m. qn_key (qnodes s m) \<le> k)"
  define as where "as = (if q_ordered s q then takeWhile P (L q) else L q)"
  define bs where "bs = (if q_ordered s q then dropWhile P (L q) else [])"
  from q_insert_nodes [OF r k] obtain s'
    where s': "q_insert q p s = Inr (STAT_SUCCESS, s')" "q_repr s' (L(q := as @ n # bs)) F"
      "q_frame s s'" and en: "entry s' = (entry s)(n := (k, p))"
    unfolding as_def bs_def P_def by blast
  have new: "n \<notin> set (L q')" for q' using q_reprD(2) [OF r, of q'] by auto
  have old: "map (entry s') ns = map (entry s) ns" if "n \<notin> set ns" for ns
    using that by (auto simp: en)
  have L: "L q = as @ bs" by (simp add: as_def bs_def)
  have ab: "n \<notin> set as" "n \<notin> set bs" using new [of q] L by auto
  have "map (entry s) as @ (k, p) # map (entry s) bs = q_place (q_ordered s q) (k, p) (map (entry s) (L q))"
    by (auto simp: q_place_def insert_by_split takeWhile_map dropWhile_map as_def bs_def P_def
        entry_def comp_def)
  then have "q_view s' = (q_view s)(q := q_place (q_ordered s q) (k, p) (q_view s q))"
    using ab new by (intro ext) (simp add: q_view_of_repr(1) [OF s'(2)] q_view_of_repr(1) [OF r] old en)
  moreover have "n_free s' = n_free s - 1"
    by (simp add: q_view_of_repr(2) [OF s'(2)] q_view_of_repr(2) [OF r])
  ultimately show ?thesis using s' by (blast intro: q_wfI)
qed

subsection \<open>Removal\<close>

lemma q_first_view: "q_wf s \<Longrightarrow> q_first (queues s q) = None \<longleftrightarrow> q_view s q = []"
proof -
  assume "q_wf s"
  then obtain L F where r: "q_repr s L F" by (auto elim: q_wfE)
  from queue_reprD(1) [OF q_reprD(1) [OF r, of q]] show ?thesis
    by (cases "L q") (auto simp: q_view_of_repr [OF r])
qed

lemma q_isempty_view: "q_wf s \<Longrightarrow> q_isempty q s \<longleftrightarrow> q_view s q = []"
  by (simp add: q_isempty_def q_first_view)

lemma q_remove_empty: "q_wf s \<Longrightarrow> q_view s q = [] \<Longrightarrow> q_remove q s = (None, s)"
  using q_first_view [of s q] by (simp add: q_remove_def)

theorem q_remove_ok:
  assumes wf: "q_wf s" and v: "q_view s q = (k, p) # es"
  shows "\<exists>s'. q_remove q s = (p, s') \<and> q_wf s' \<and> q_frame s s' \<and>
     q_view s' = (q_view s)(q := es) \<and> n_free s' = Suc (n_free s)"
proof -
  from wf obtain L F where r: "q_repr s L F" by (auto elim: q_wfE)
  note vr = q_view_of_repr [OF r]
  from v vr(1) obtain n ns where L: "L q = n # ns" and n: "entry s n = (k, p)"
    and ns: "map (entry s) ns = es" by (cases "L q") auto
  note q = queue_reprD [OF q_reprD(1) [OF r, of q], unfolded L]
  define s1 where "s1 = set_queue q (\<lambda>h. h\<lparr>q_first := links s n\<rparr>) s"
  define s2 where "s2 = (if links s n = None then set_queue q (\<lambda>h. h\<lparr>q_last := None\<rparr>) s1 else s1)"
  have links2: "links s2 = links s" and keys: "qnodes s2 = qnodes s" and f2: "free_qnodes s2 = free_qnodes s"
    and oth: "\<And>q'. q' \<noteq> q \<Longrightarrow> queues s2 q' = queues s q'"
    and h: "hashfcn (queues s2 q) = hashfcn (queues s q)"
    and first2: "q_first (queues s2 q) = links s n"
    by (auto simp: s2_def s1_def links_def)
  have fr: "q_frame s s2" by (auto simp: s2_def s1_def q_frame_set_queue)
  have path: "path (links s) (links s n) ns" using q(1) by simp
  then have "links s n = None \<longleftrightarrow> ns = []" by (cases ns) auto
  then have last2: "q_last (queues s2 q) = tail_of ns"
    using q(2) by (auto simp: s2_def s1_def)
  have "queue_repr s2 q ns"
    unfolding queue_repr_def links2 keys first2 last2 h
    using q path by auto
  moreover have "queue_repr s2 q' (L q')" if "q' \<noteq> q" for q'
    using queue_reprD [OF q_reprD(1) [OF r, of q']] unfolding queue_repr_def links2 keys oth [OF that]
    by blast
  moreover have "set ns \<inter> set F = {}" "set ns \<inter> set (L q') = {}" if "q' \<noteq> q" for q'
    using q_reprD(2) [OF r, of q] q_reprD(6) [OF r, of q q'] that L by auto
  moreover have "set ns \<inter> set F = {}" using q_reprD(2) [OF r, of q] L by auto
  ultimately have r2: "q_repr s2 (L(q := ns)) F"
    using q_reprD [OF r] unfolding q_repr_def links2 f2 by (simp add: Int_commute)
  have n2: "n < N_QNODES" "n \<notin> set F" "n \<notin> set ((L(q := ns)) q')" for q'
    using q(3,4) q_reprD(2) [OF r, of q] q_reprD(6) [OF r, of q' q] L by auto
  define s' where "s' = qn_dealloc (Some n) s2"
  note d = qn_dealloc_repr [OF r2 n2, folded s'_def]
  have "entry s2 = entry s" by (rule ext) (simp add: entry_def keys)
  with d(3) have en: "entry s' = entry s" by simp
  have "q_view s' = (q_view s)(q := es)"
    by (rule ext) (simp add: q_view_of_repr(1) [OF d(1)] vr(1) en ns)
  moreover have "n_free s' = Suc (n_free s)"
    by (simp add: q_view_of_repr(2) [OF d(1)] vr(2))
  moreover have "q_frame s s'" using fr d(2) by (rule q_frame_trans)
  moreover have "q_remove q s = (p, s')"
    using q(1) n by (simp add: q_remove_def Let_def s'_def s2_def s1_def links_def entry_def)
  ultimately show ?thesis using q_wfI [OF d(1)] by blast
qed

lemma q_remove_if_le_eq:
  assumes "q_wf s"
  shows "q_remove_if_le q key s =
     (case q_view s q of [] \<Rightarrow> (None, s) | (k, p) # es \<Rightarrow> if k \<le> key then q_remove q s else (None, s))"
proof -
  from assms obtain L F where r: "q_repr s L F" by (auto elim: q_wfE)
  from queue_reprD(1) [OF q_reprD(1) [OF r, of q]] show ?thesis
    by (cases "L q") (auto simp: q_remove_if_le_def q_view_of_repr [OF r] entry_def)
qed

section \<open>The interface\<close>

text \<open>
  What the rest of the kernel relies on: a state with a view of every queue, an insertion
  that needs room in the common pool and may need a key, and a removal from the front.
\<close>

locale queue_module =
  fixes wf :: "'s \<Rightarrow> bool"
    and view :: "'s \<Rightarrow> 'q \<Rightarrow> (u32 \<times> 'v) list"
    and room :: "'s \<Rightarrow> nat"
    and frame :: "'s \<Rightarrow> 's \<Rightarrow> bool"
    and ordered :: "'s \<Rightarrow> 'q \<Rightarrow> bool"
    and key :: "'s \<Rightarrow> 'q \<Rightarrow> 'v \<Rightarrow> u32 outcome"
    and ins :: "'q \<Rightarrow> 'v \<Rightarrow> 's \<Rightarrow> (u32 \<times> 's) outcome"
    and rem :: "'q \<Rightarrow> 's \<Rightarrow> 'v \<times> 's"
    and none :: 'v
  assumes ins_ok: "wf s \<Longrightarrow> room s \<noteq> 0 \<Longrightarrow> key s q p = Inr k \<Longrightarrow>
      \<exists>s'. ins q p s = Inr (STAT_SUCCESS, s') \<and> wf s' \<and> frame s s' \<and>
        view s' = (view s)(q := q_place (ordered s q) (k, p) (view s q)) \<and> room s' = room s - 1"
    and ins_full: "wf s \<Longrightarrow> room s = 0 \<Longrightarrow> ins q p s = Inr (STAT_ALLOC_FAIL, s)"
    and rem_ok: "wf s \<Longrightarrow> view s q = (k, p) # es \<Longrightarrow>
      \<exists>s'. rem q s = (p, s') \<and> wf s' \<and> frame s s' \<and> view s' = (view s)(q := es) \<and>
        room s' = Suc (room s)"
    and rem_empty: "wf s \<Longrightarrow> view s q = [] \<Longrightarrow> rem q s = (none, s)"
    and frame_refl: "frame s s"
    and frame_trans: "frame s t \<Longrightarrow> frame t u \<Longrightarrow> frame s u"
    and frame_ordered: "frame s t \<Longrightarrow> ordered t = ordered s"
    and frame_key: "frame s t \<Longrightarrow> key t = key s"

text \<open>A run of insertions, which stops at an error, and a run of removals.\<close>

fun insert_all :: "('q \<Rightarrow> 'v \<Rightarrow> 's \<Rightarrow> (u32 \<times> 's) outcome) \<Rightarrow> 'q \<Rightarrow> 'v list \<Rightarrow> 's \<Rightarrow> (u32 list \<times> 's) outcome" where
  "insert_all ins q [] s = Inr ([], s)"
| "insert_all ins q (p # ps) s =
     bindE (ins q p s) (\<lambda>(r, s). bindE (insert_all ins q ps s) (\<lambda>(rs, s). Inr (r # rs, s)))"

fun remove_n :: "('q \<Rightarrow> 's \<Rightarrow> 'v \<times> 's) \<Rightarrow> 'q \<Rightarrow> nat \<Rightarrow> 's \<Rightarrow> 'v list \<times> 's" where
  "remove_n rem q 0 s = ([], s)"
| "remove_n rem q (Suc n) s =
     (case rem q s of (p, s) \<Rightarrow> case remove_n rem q n s of (ps, s) \<Rightarrow> (p # ps, s))"

context queue_module
begin

lemma remove_n_view:
  assumes "wf s" "n \<le> length (view s q)"
  shows "\<exists>s'. remove_n rem q n s = (map snd (take n (view s q)), s') \<and> wf s' \<and> frame s s' \<and>
     view s' = (view s)(q := drop n (view s q)) \<and> room s' = room s + n"
  using assms
proof (induction n arbitrary: s)
  case 0
  then show ?case using frame_refl by auto
next
  case (Suc n)
  from Suc.prems(2) obtain k p es where v: "view s q = (k, p) # es"
    by (cases "view s q") auto
  from rem_ok [OF Suc.prems(1) v] obtain t where t: "rem q s = (p, t)" "wf t" "frame s t"
    "view t = (view s)(q := es)" "room t = Suc (room s)" by blast
  have "n \<le> length (view t q)" using Suc.prems(2) v t(4) by simp
  from Suc.IH [OF t(2) this] obtain s' where
    "remove_n rem q n t = (map snd (take n (view t q)), s')" "wf s'" "frame t s'"
    "view s' = (view t)(q := drop n (view t q))" "room s' = room t + n" by blast
  moreover from this have "frame s s'" using t(3) frame_trans by blast
  ultimately show ?case using t v by (auto simp: fun_eq_iff)
qed

lemma insert_all_view:
  assumes "wf s" "length ps \<le> room s" "\<And>p. p \<in> set ps \<Longrightarrow> key s q p = Inr (f p)"
  shows "\<exists>s'. insert_all ins q ps s = Inr (replicate (length ps) STAT_SUCCESS, s') \<and> wf s' \<and>
     frame s s' \<and> room s' = room s - length ps \<and>
     view s' = (view s)(q := fold (q_place (ordered s q)) (map (\<lambda>p. (f p, p)) ps) (view s q))"
  using assms
proof (induction ps arbitrary: s)
  case Nil
  then show ?case using frame_refl by auto
next
  case (Cons p ps)
  then have "room s \<noteq> 0" by auto
  from ins_ok [OF Cons.prems(1) this Cons.prems(3) [of p]] obtain t where
    t: "ins q p s = Inr (STAT_SUCCESS, t)" "wf t" "frame s t" "room t = room s - 1"
    "view t = (view s)(q := q_place (ordered s q) (f p, p) (view s q))" by auto
  have "length ps \<le> room t" using Cons.prems(2) t(4) by simp
  moreover have "key t q p = Inr (f p)" if "p \<in> set ps" for p
    using Cons.prems(3) that frame_key [OF t(3)] by simp
  ultimately obtain s' where
    "insert_all ins q ps t = Inr (replicate (length ps) STAT_SUCCESS, s')" "wf s'" "frame t s'"
    "room s' = room t - length ps"
    "view s' = (view t)(q := fold (q_place (ordered t q)) (map (\<lambda>p. (f p, p)) ps) (view t q))"
    using Cons.IH [OF t(2)] by blast
  moreover from this have "frame s s'" using t(3) frame_trans by blast
  ultimately show ?case using t frame_ordered [OF t(3)] by (auto simp: fun_eq_iff)
qed

text \<open>What goes into an empty queue without an order comes out in the order it went in.\<close>

lemma fifo:
  assumes "wf s" "view s q = []" "\<not> ordered s q" "length ps \<le> room s"
    and "\<And>p. p \<in> set ps \<Longrightarrow> key s q p = Inr (f p)"
  shows "\<exists>t s'. insert_all ins q ps s = Inr (replicate (length ps) STAT_SUCCESS, t) \<and>
     remove_n rem q (length ps) t = (ps, s') \<and> view s' = view s \<and> room s' = room s"
proof -
  from insert_all_view [OF assms(1,4,5)] obtain t where
    t: "insert_all ins q ps s = Inr (replicate (length ps) STAT_SUCCESS, t)" "wf t"
      "room t = room s - length ps"
      "view t = (view s)(q := fold (q_place False) (map (\<lambda>p. (f p, p)) ps) [])"
    using assms(2,3) by auto
  have app: "fold (q_place False) es xs = xs @ es" for es xs :: "(u32 \<times> 'v) list"
    by (induction es arbitrary: xs) (auto simp: q_place_def)
  have v: "view t q = map (\<lambda>p. (f p, p)) ps" using t(4) by (simp add: app)
  moreover have "(view t)(q := []) = view s" using t(4) assms(2) by auto
  ultimately show ?thesis
    using remove_n_view [OF t(2), of "length ps" q] t(1,3) assms(4) by (auto simp: comp_def)
qed

text \<open>
  What goes into an empty queue with an order comes out stably sorted by key.
\<close>

lemma priority:
  assumes "wf s" "view s q = []" "ordered s q" "length ps \<le> room s"
    and "\<And>p. p \<in> set ps \<Longrightarrow> key s q p = Inr (f p)"
  shows "\<exists>t s'. insert_all ins q ps s = Inr (replicate (length ps) STAT_SUCCESS, t) \<and>
     remove_n rem q (length ps) t = (sort_key f ps, s') \<and> view s' = view s \<and> room s' = room s"
proof -
  from insert_all_view [OF assms(1,4,5)] obtain t where
    t: "insert_all ins q ps s = Inr (replicate (length ps) STAT_SUCCESS, t)" "wf t"
      "room t = room s - length ps"
      "view t = (view s)(q := fold (q_place True) (map (\<lambda>p. (f p, p)) ps) [])"
    using assms(2,3) by auto
  have "q_place True = (insert_by fst :: u32 \<times> 'v \<Rightarrow> _)" by (intro ext) (simp add: q_place_def)
  then have v: "view t q = map (\<lambda>p. (f p, p)) (sort_key f ps)"
    using t(4) by (simp add: fold_insert_by sort_key_map_pair)
  moreover have "(view t)(q := []) = view s" using t(4) assms(2) by auto
  ultimately show ?thesis
    using remove_n_view [OF t(2), of "length ps" q] t(1,3) assms(4) by (auto simp: comp_def)
qed

end

lemma q_frame_key: "q_frame s t \<Longrightarrow> q_key t = q_key s"
  by (intro ext) (simp add: q_key_def q_frame_fields(1) call_hash_cong [OF q_frame_fields(5), of s t]
     split: option.split)

lemma q_frame_ordered: "q_frame s t \<Longrightarrow> q_ordered t = q_ordered s"
  by (intro ext) (simp add: q_ordered_def q_frame_fields(1))

interpretation kq: queue_module q_wf q_view n_free q_frame q_ordered q_key q_insert q_remove None
proof (unfold_locales, goal_cases)
  case 1 then show ?case by (rule q_insert_ok)
next
  case 2 then show ?case by (rule q_insert_full)
next
  case 3 then show ?case by (rule q_remove_ok)
next
  case 4 then show ?case by (rule q_remove_empty)
next
  case 5 show ?case by (rule q_frame_refl)
next
  case 6 then show ?case by (rule q_frame_trans)
next
  case 7 then show ?case by (rule q_frame_ordered)
next
  case 8 then show ?case by (rule q_frame_key)
qed

section \<open>Initialisation\<close>

interpretation qn: free_list free_qnodes links "\<lambda>n. qn_dealloc (Some n)" qn_alloc
proof (unfold_locales, goal_cases)
  case (2 n s) show ?case by (rule ext) (simp add: qn_dealloc_def links_def Let_def)
next
  case (6 s n) then show ?case by (intro ext) (simp add: qn_alloc_def links_def)
qed (simp_all add: qn_dealloc_def qn_alloc_def Let_def links_def)

lemma fold_qn_dealloc:
  "queues (fold (\<lambda>n. qn_dealloc (Some n)) ns s) = queues s \<and>
   q_frame s (fold (\<lambda>n. qn_dealloc (Some n)) ns s)"
proof (induction ns arbitrary: s)
  case (Cons n ns)
  have "queues (qn_dealloc (Some n) s) = queues s" "q_frame s (qn_dealloc (Some n) s)"
    by (simp_all add: qn_dealloc_def Let_def)
  with Cons [of "qn_dealloc (Some n) s"] show ?case by (auto intro: q_frame_trans)
qed simp

text \<open>
  With every queue empty, \<open>_q_init\<close> puts all nodes on the free list, the last one first.
\<close>

definition all_empty :: "kstate \<Rightarrow> bool" where
  "all_empty s \<longleftrightarrow> (\<forall>q. q_first (queues s q) = None \<and> q_last (queues s q) = None)"

lemma q_init_repr:
  assumes "all_empty s"
  shows "q_repr (q_init s) (\<lambda>_. []) (rev [0..<N_QNODES])"
proof -
  define s0 where "s0 = s\<lparr>qnodes := (\<lambda>i. if i < N_QNODES then zero_qnode else qnodes s i), free_qnodes := None\<rparr>"
  define s1 where "s1 = fold (\<lambda>i. qn_dealloc (Some i)) [0..<N_QNODES] s0"
  have "q_init s = c_puts '' queue'' s1" by (simp add: q_init_def s1_def s0_def)
  then have same: "queues (q_init s) = queues s1" "qnodes (q_init s) = qnodes s1"
    "free_qnodes (q_init s) = free_qnodes s1" by (simp_all add: c_puts_def)
  have "path (links s0) (free_qnodes s0) []" by (simp add: s0_def)
  from qn.path_put_all [OF this, of "[0..<N_QNODES]"]
  have "path (links s1) (free_qnodes s1) (rev [0..<N_QNODES])" by (simp add: s1_def)
  moreover have "queues s1 = queues s"
    using fold_qn_dealloc [of "[0..<N_QNODES]" s0] by (simp add: s1_def s0_def)
  ultimately have "q_repr s1 (\<lambda>_. []) (rev [0..<N_QNODES])"
    using assms by (auto simp: q_repr_def queue_repr_def all_empty_def)
  then show ?thesis by (simp only: q_repr_cong(1) [OF same])
qed

lemma q_reset_view:
  assumes wf: "q_wf s" and empty: "q_view s q = []"
  shows "q_wf (q_reset (Some q) h s)" "q_view (q_reset (Some q) h s) = q_view s"
    "n_free (q_reset (Some q) h s) = n_free s"
proof -
  let ?s = "q_reset (Some q) h s"
  from wf obtain L F where r: "q_repr s L F" by (auto elim: q_wfE)
  have Lq: "L q = []" using empty by (simp add: q_view_of_repr [OF r])
  have l: "links ?s = links s" and e: "entry ?s = entry s" and f: "free_qnodes ?s = free_qnodes s"
    and k: "qnodes ?s = qnodes s"
    and o: "q' \<noteq> q \<Longrightarrow> queues ?s q' = queues s q'" for q'
    by (auto simp: q_reset_def links_def entry_def)
  have "queue_repr ?s q' (L q')" for q'
  proof (cases "q' = q")
    case True
    then show ?thesis by (simp add: queue_repr_def Lq q_reset_def)
  next
    case False
    then show ?thesis
      using queue_reprD [OF q_reprD(1) [OF r, of q']] by (simp add: queue_repr_def l k o)
  qed
  then have "q_repr ?s L F" using q_reprD [OF r] by (auto simp: q_repr_def l f)
  from q_wfI [OF this] q_view_of_repr [OF this] q_view_of_repr [OF r]
  show "q_wf ?s" "q_view ?s = q_view s" "n_free ?s = n_free s" by (auto simp: e)
qed

end
