(* ===== verification/Pools.thy ===== *)
theory Pools
  imports Queues
begin

text \<open>
  Stacks, PCBs and shared memory segments are handed out from queues of free objects.  The
  locale \<open>resource_pool\<close> is the contract of such a pool; its lemmas are about runs of
  allocations.  The pools of the kernel, which share the pool of queue nodes, are
  interpretations of it.
\<close>

section \<open>The contract\<close>

locale resource_pool =
  fixes alloc :: "'s \<Rightarrow> ('h option \<times> 's) outcome"
    and dealloc :: "'h \<Rightarrow> 's \<Rightarrow> (u32 \<times> 's) outcome"
    and valid :: "'h \<Rightarrow> bool"
    and inv :: "'s \<Rightarrow> bool"
    and free :: "'s \<Rightarrow> 'h list"
    and room :: "'s \<Rightarrow> nat"
    and frame :: "'s \<Rightarrow> 's \<Rightarrow> bool"
  assumes alloc_none: "inv s \<Longrightarrow> free s = [] \<Longrightarrow> alloc s = Inr (None, s)"
    and alloc_some: "inv s \<Longrightarrow> free s = h # hs \<Longrightarrow>
      \<exists>s'. alloc s = Inr (Some h, s') \<and> inv s' \<and> free s' = hs \<and> room s' = Suc (room s) \<and>
        frame s s'"
    and dealloc_ok: "inv s \<Longrightarrow> valid h \<Longrightarrow> room s \<noteq> 0 \<Longrightarrow>
      \<exists>s'. dealloc h s = Inr (STAT_SUCCESS, s') \<and> inv s' \<and> free s' = free s @ [h] \<and>
        room s' = room s - 1 \<and> frame s s'"
    and dealloc_full: "inv s \<Longrightarrow> valid h \<Longrightarrow> room s = 0 \<Longrightarrow>
      \<exists>s'. dealloc h s = Inr (STAT_ALLOC_FAIL, s') \<and> inv s' \<and> free s' = free s \<and> room s' = 0 \<and>
        frame s s'"
    and frame_refl: "frame s s"
    and frame_trans: "frame s t \<Longrightarrow> frame t u \<Longrightarrow> frame s u"

fun alloc_n :: "('s \<Rightarrow> ('h option \<times> 's) outcome) \<Rightarrow> nat \<Rightarrow> 's \<Rightarrow> ('h option list \<times> 's) outcome" where
  "alloc_n alloc 0 s = Inr ([], s)"
| "alloc_n alloc (Suc n) s =
     bindE (alloc s) (\<lambda>(h, s). bindE (alloc_n alloc n s) (\<lambda>(hs, s). Inr (h # hs, s)))"

text \<open>
  The loops \<open>for( i = 0; i < n; ++i ) stat = dealloc( &array[i] );\<close> of the initialisation
  routines: the status of the last call is kept.
\<close>

fun dealloc_loop :: "('h \<Rightarrow> 's \<Rightarrow> (u32 \<times> 's) outcome) \<Rightarrow> 'h list \<Rightarrow> u32 \<Rightarrow> 's \<Rightarrow> (u32 \<times> 's) outcome" where
  "dealloc_loop dealloc [] stat s = Inr (stat, s)"
| "dealloc_loop dealloc (h # hs) stat s =
     bindE (dealloc h s) (\<lambda>(stat, s). dealloc_loop dealloc hs stat s)"

context resource_pool
begin

lemma alloc_n_free:
  assumes "inv s" "n \<le> length (free s)"
  shows "\<exists>s'. alloc_n alloc n s = Inr (map Some (take n (free s)), s') \<and> inv s' \<and>
     free s' = drop n (free s) \<and> room s' = room s + n"
  using assms
proof (induction n arbitrary: s)
  case 0
  then show ?case by auto
next
  case (Suc n)
  then obtain h hs where f: "free s = h # hs" by (cases "free s") auto
  from alloc_some [OF Suc.prems(1) f] obtain t where
    t: "alloc s = Inr (Some h, t)" "inv t" "free t = hs" "room t = Suc (room s)" by blast
  have "n \<le> length (free t)" using Suc.prems(2) f t(3) by simp
  from Suc.IH [OF t(2) this] t f show ?case by auto
qed

text \<open>Handles given out in one run are different from each other.\<close>

lemma alloc_n_distinct:
  assumes "inv s" "n \<le> length (free s)" "distinct (free s)"
    and "alloc_n alloc n s = Inr (hs, s')"
  shows "distinct hs" "None \<notin> set hs" "length hs = n"
  using alloc_n_free [OF assms(1,2)] assms(2-4) by (auto simp: distinct_map)

text \<open>When everything is given out, the next request is refused.\<close>

lemma alloc_exhausted:
  assumes "inv s"
  shows "\<exists>s'. alloc_n alloc (Suc (length (free s))) s = Inr (map Some (free s) @ [None], s')"
proof -
  have "\<exists>s'. alloc_n alloc (Suc n) s = Inr (map Some (free s) @ [None], s')"
    if "inv s" "length (free s) = n" for n s
    using that
  proof (induction n arbitrary: s)
    case 0
    then show ?case by (auto simp: alloc_none)
  next
    case (Suc n)
    then obtain h hs where f: "free s = h # hs" by (cases "free s") auto
    from alloc_some [OF Suc.prems(1) f] obtain t where
      t: "alloc s = Inr (Some h, t)" "inv t" "free t = hs" by blast
    with Suc.IH [of t] Suc.prems f show ?case by auto
  qed
  then show ?thesis using assms by blast
qed

lemma dealloc_loop_free:
  assumes "inv s" "length hs \<le> room s" "\<forall>h \<in> set hs. valid h"
  shows "\<exists>s'. dealloc_loop dealloc hs STAT_SUCCESS s = Inr (STAT_SUCCESS, s') \<and> inv s' \<and>
     free s' = free s @ hs \<and> room s' = room s - length hs \<and> frame s s'"
  using assms
proof (induction hs arbitrary: s)
  case Nil
  then show ?case using frame_refl by auto
next
  case (Cons h hs)
  then have "room s \<noteq> 0" by auto
  have "valid h" using Cons.prems(3) by simp
  from dealloc_ok [OF Cons.prems(1) this \<open>room s \<noteq> 0\<close>] obtain t where
    t: "dealloc h s = Inr (STAT_SUCCESS, t)" "inv t" "free t = free s @ [h]" "room t = room s - 1"
      "frame s t"
    by blast
  have "length hs \<le> room t" using Cons.prems(2) t(4) by simp
  from Cons.IH [OF t(2) this] Cons.prems(3) obtain s' where s': "frame t s'"
    "dealloc_loop dealloc hs STAT_SUCCESS t = Inr (STAT_SUCCESS, s')" "inv s'"
    "free s' = free t @ hs" "room s' = room t - length hs" by auto
  moreover have "frame s s'" using t(5) s'(1) by (rule frame_trans)
  ultimately show ?case using t by auto
qed

text \<open>
  What is given back is given out again, after everything that was free before.
\<close>

lemma recycle:
  assumes "inv s" "length hs \<le> room s" "\<forall>h \<in> set hs. valid h"
  shows "\<exists>t s'. dealloc_loop dealloc hs STAT_SUCCESS s = Inr (STAT_SUCCESS, t) \<and>
     alloc_n alloc (length (free s) + length hs) t = Inr (map Some (free s @ hs), s')"
proof -
  from dealloc_loop_free [OF assms] obtain t where
    t: "dealloc_loop dealloc hs STAT_SUCCESS s = Inr (STAT_SUCCESS, t)" "inv t"
      "free t = free s @ hs" by blast
  from alloc_n_free [OF t(2), of "length (free s) + length hs"] t(1,3) show ?thesis by auto
qed

end

section \<open>Queues of one kind of object\<close>

text \<open>
  A queue without an order whose elements are all made by the injection \<open>c\<close>.
\<close>

definition typed_queue :: "('h \<Rightarrow> obj option) \<Rightarrow> queue_id \<Rightarrow> kstate \<Rightarrow> bool" where
  "typed_queue c q s \<longleftrightarrow> q_wf s \<and> \<not> q_ordered s q \<and> set (q_data s q) \<subseteq> range c"

definition contents :: "('h \<Rightarrow> obj option) \<Rightarrow> queue_id \<Rightarrow> kstate \<Rightarrow> 'h list" where
  "contents c q s = map (inv c) (q_data s q)"

lemma q_data_contents:
  "typed_queue c q s \<Longrightarrow> q_data s q = map c (contents c q s)"
  by (auto simp: contents_def typed_queue_def f_inv_into_f comp_def intro!: map_idI [symmetric])

lemma typed_queue_remove:
  assumes t: "typed_queue c q s" and c: "inj c" and h: "contents c q s = h # hs"
  shows "\<exists>s'. q_remove q s = (c h, s') \<and> typed_queue c q s' \<and> contents c q s' = hs \<and>
     n_free s' = Suc (n_free s) \<and> q_frame s s' \<and> q_view s' = (q_view s)(q := tl (q_view s q))"
proof -
  have wf: "q_wf s" and uno: "\<not> q_ordered s q" using t by (auto simp: typed_queue_def)
  have "map snd (q_view s q) = c h # map c hs"
    using q_data_contents [OF t] h by (simp add: q_data_def)
  then obtain k es where v: "q_view s q = (k, c h) # es" and es: "map snd es = map c hs"
    by (cases "q_view s q") auto
  from q_remove_ok [OF wf v] obtain s' where s': "q_remove q s = (c h, s')" "q_wf s'" "q_frame s s'"
    "q_view s' = (q_view s)(q := es)" "n_free s' = Suc (n_free s)" by blast
  have "q_data s' q = map c hs" using s'(4) es by (simp add: q_data_def)
  moreover have "q_ordered s' q = q_ordered s q" using q_frame_ordered [OF s'(3)] by simp
  ultimately have "typed_queue c q s'" "contents c q s' = hs"
    using s'(2) uno c by (auto simp: typed_queue_def contents_def)
  with s' v show ?thesis by auto
qed

lemma typed_queue_remove_empty:
  "typed_queue c q s \<Longrightarrow> contents c q s = [] \<Longrightarrow> q_remove q s = (None, s)"
  by (simp add: typed_queue_def contents_def q_data_def q_remove_empty)

lemma typed_queue_insert:
  assumes t: "typed_queue c q s" and c: "inj c" and room: "n_free s \<noteq> 0"
  shows "\<exists>s'. q_insert q (c h) s = Inr (STAT_SUCCESS, s') \<and> typed_queue c q s' \<and>
     contents c q s' = contents c q s @ [h] \<and> n_free s' = n_free s - 1 \<and> q_frame s s' \<and>
     q_view s' = (q_view s)(q := q_view s q @ [(0, c h)])"
proof -
  have wf: "q_wf s" and uno: "\<not> q_ordered s q" using t by (auto simp: typed_queue_def)
  have key: "q_key s q (c h) = Inr 0" using uno by (auto simp: q_ordered_def q_key_def)
  from q_insert_ok [OF wf room key] uno obtain s' where
    s': "q_insert q (c h) s = Inr (STAT_SUCCESS, s')" "q_wf s'" "q_frame s s'"
      "q_view s' = (q_view s)(q := q_view s q @ [(0, c h)])" "n_free s' = n_free s - 1"
    by (auto simp: q_place_def)
  have d: "q_data s' q = q_data s q @ [c h]" using s'(4) by (simp add: q_data_def)
  moreover have "q_ordered s' q = q_ordered s q" using q_frame_ordered [OF s'(3)] by simp
  ultimately have "typed_queue c q s'" "contents c q s' = contents c q s @ [h]"
    using t s'(2) c by (auto simp: typed_queue_def contents_def)
  with s' show ?thesis by blast
qed

text \<open>Nothing but the queue \<open>q\<close> and the pool of nodes has changed.\<close>

definition only_queue :: "queue_id \<Rightarrow> kstate \<Rightarrow> kstate \<Rightarrow> bool" where
  "only_queue q s s' \<longleftrightarrow> q_frame s s' \<and> (\<forall>q'. q' \<noteq> q \<longrightarrow> q_view s' q' = q_view s q')"

lemma only_queue_refl: "only_queue q s s"
  by (simp add: only_queue_def)

lemma only_queue_trans: "only_queue q s t \<Longrightarrow> only_queue q t u \<Longrightarrow> only_queue q s u"
  by (auto simp: only_queue_def intro: q_frame_trans)

lemma typed_queue_cong:
  assumes "queues s' = queues s" "qnodes s' = qnodes s" "free_qnodes s' = free_qnodes s"
  shows "typed_queue c q s' \<longleftrightarrow> typed_queue c q s" "contents c q s' = contents c q s"
  using q_repr_cong(4,6) [OF assms] assms(1)
  by (auto simp: typed_queue_def contents_def q_ordered_def)

end
