(* ===== verification/Stacks.thy ===== *)
theory Stacks
  imports Pools
begin

text \<open>
  stacks.c: the user stacks and the queue of free ones, and the system stack.
\<close>

section \<open>The code\<close>

definition stack_alloc :: "(nat option) kop" where
  "stack_alloc s =
     (case q_remove Free_stacks s of (p, s) \<Rightarrow> bindE (as_stack p) (\<lambda>st. Inr (st, s)))"

definition stack_dealloc :: "nat \<Rightarrow> u32 kop" where
  "stack_dealloc st s = q_insert Free_stacks (Some (Stack st)) s"

definition stack_init :: "kstate \<Rightarrow> kstate outcome" where
  "stack_init s =
     (let s = s\<lparr>stacks := (\<lambda>i. if i < MAX_PROCS then (\<lambda>w. if w < STACK_SIZE then 0 else stacks s i w)
                              else stacks s i)\<rparr>;
          s = s\<lparr>system_stack := (\<lambda>w. if w < STACK_SIZE then 0 else system_stack s w)\<rparr>;
          s = q_reset (Some Free_stacks) None s
      in bindE (dealloc_loop stack_dealloc [0..<MAX_PROCS] STAT_SUCCESS s) (\<lambda>(stat, s).
           if stat \<noteq> STAT_SUCCESS then kpanic ''stack init: insert fail''
           else
             let s = s\<lparr>system_esp := Some (STACK_SIZE - 2)\<rparr>
             in Inr (c_puts '' stack'' s)))"

section \<open>The pool of stacks\<close>

abbreviation (input) c_stack :: "nat \<Rightarrow> obj option" where
  "c_stack \<equiv> (\<lambda>i. Some (Stack i))"

definition stack_pool :: "kstate \<Rightarrow> bool" where
  "stack_pool s \<longleftrightarrow> typed_queue c_stack Free_stacks s"

definition free_stacks :: "kstate \<Rightarrow> nat list" where
  "free_stacks s = contents c_stack Free_stacks s"

lemma inj_c_stack: "inj c_stack" by (simp add: inj_def)

lemma stack_alloc_some:
  assumes "stack_pool s" "free_stacks s = i # is"
  shows "\<exists>s'. stack_alloc s = Inr (Some i, s') \<and> stack_pool s' \<and> free_stacks s' = is \<and>
    n_free s' = Suc (n_free s) \<and> q_frame s s' \<and>
    q_view s' = (q_view s)(Free_stacks := tl (q_view s Free_stacks))"
  using typed_queue_remove [OF assms(1) [unfolded stack_pool_def] inj_c_stack assms(2) [unfolded free_stacks_def]]
  by (auto simp: stack_alloc_def stack_pool_def free_stacks_def)

lemma stack_alloc_none:
  "stack_pool s \<Longrightarrow> free_stacks s = [] \<Longrightarrow> stack_alloc s = Inr (None, s)"
  by (auto simp: stack_alloc_def stack_pool_def free_stacks_def dest!: typed_queue_remove_empty)

lemma stack_dealloc_ok:
  assumes "stack_pool s" "n_free s \<noteq> 0"
  shows "\<exists>s'. stack_dealloc i s = Inr (STAT_SUCCESS, s') \<and> stack_pool s' \<and>
    free_stacks s' = free_stacks s @ [i] \<and> n_free s' = n_free s - 1 \<and> q_frame s s' \<and>
    q_view s' = (q_view s)(Free_stacks := q_view s Free_stacks @ [(0, c_stack i)])"
  using typed_queue_insert [OF assms(1) [unfolded stack_pool_def] inj_c_stack assms(2)]
  by (simp add: stack_dealloc_def stack_pool_def free_stacks_def)

lemma stack_dealloc_full:
  "stack_pool s \<Longrightarrow> n_free s = 0 \<Longrightarrow> stack_dealloc i s = Inr (STAT_ALLOC_FAIL, s)"
  by (simp add: stack_dealloc_def stack_pool_def typed_queue_def q_insert_full)

interpretation stack_pool:
  resource_pool stack_alloc stack_dealloc "\<lambda>_. True" stack_pool free_stacks n_free "only_queue Free_stacks"
proof (unfold_locales, goal_cases)
  case (1 s) then show ?case by (rule stack_alloc_none)
next
  case (2 s h hs) then show ?case using stack_alloc_some [of s h hs] by (auto simp: only_queue_def)
next
  case (3 s h) then show ?case using stack_dealloc_ok [of s h] by (auto simp: only_queue_def)
next
  case (4 s h) then show ?case using stack_dealloc_full [of s h] by (auto simp: only_queue_refl)
next
  case 5 show ?case by (rule only_queue_refl)
next
  case 6 then show ?case by (rule only_queue_trans)
qed

section \<open>Initialisation\<close>

text \<open>
  With an empty queue and enough nodes, \<open>_stack_init\<close> succeeds and every stack is free, in
  the order of the array.
\<close>

theorem stack_init_ok:
  assumes wf: "q_wf s" and empty: "q_view s Free_stacks = []" and room: "MAX_PROCS \<le> n_free s"
  shows "\<exists>s'. stack_init s = Inr s' \<and> stack_pool s' \<and> free_stacks s' = [0..<MAX_PROCS] \<and>
    n_free s' = n_free s - MAX_PROCS \<and> (\<forall>q. q \<noteq> Free_stacks \<longrightarrow> q_view s' q = q_view s q) \<and>
    (\<forall>q. q \<noteq> Free_stacks \<longrightarrow> hashfcn (queues s' q) = hashfcn (queues s q)) \<and>
    pcbs s' = pcbs s \<and> current s' = current s \<and> next_pid s' = next_pid s \<and>
    (\<forall>i<MAX_PROCS. \<forall>w<STACK_SIZE. stacks s' i w = 0) \<and> system_esp s' = Some (STACK_SIZE - 2)"
proof -
  define s1 where "s1 = s\<lparr>stacks := (\<lambda>i. if i < MAX_PROCS then (\<lambda>w. if w < STACK_SIZE then 0 else stacks s i w)
                              else stacks s i)\<rparr>"
  define s2 where "s2 = s1\<lparr>system_stack := (\<lambda>w. if w < STACK_SIZE then 0 else system_stack s1 w)\<rparr>"
  define s3 where "s3 = q_reset (Some Free_stacks) None s2"
  have same: "queues s2 = queues s" "qnodes s2 = qnodes s" "free_qnodes s2 = free_qnodes s"
    by (simp_all add: s2_def s1_def)
  have wf2: "q_wf s2" and v2: "q_view s2 = q_view s" and n2: "n_free s2 = n_free s"
    using q_repr_cong [OF same] wf by auto
  note r = q_reset_view [OF wf2, of Free_stacks None, folded s3_def, unfolded v2, OF empty]
  have inv: "stack_pool s3" and free: "free_stacks s3 = []"
    using r empty by (auto simp: stack_pool_def typed_queue_def q_ordered_def q_data_def v2 s3_def
        q_reset_def free_stacks_def contents_def)
  have "length [0..<MAX_PROCS] \<le> n_free s3" using room by (simp add: r n2)
  from stack_pool.dealloc_loop_free [OF inv this] obtain t where
    t: "dealloc_loop stack_dealloc [0..<MAX_PROCS] STAT_SUCCESS s3 = Inr (STAT_SUCCESS, t)"
      "stack_pool t" "free_stacks t = [0..<MAX_PROCS]" "n_free t = n_free s - MAX_PROCS"
      "only_queue Free_stacks s3 t"
    by (auto simp: free r n2)
  define u where "u = c_puts '' stack'' (t\<lparr>system_esp := Some (STACK_SIZE - 2)\<rparr>)"
  have same_u: "queues u = queues t" "qnodes u = qnodes t" "free_qnodes u = free_qnodes t"
    by (simp_all add: u_def c_puts_def)
  have "stack_init s = Inr u"
    using t(1) by (simp add: stack_init_def Let_def s3_def s2_def s1_def u_def cong: if_cong)
  moreover have "stack_pool u" "free_stacks u = [0..<MAX_PROCS]" "n_free u = n_free s - MAX_PROCS"
    using t(2-4) by (simp_all add: stack_pool_def free_stacks_def typed_queue_cong [OF same_u]
      q_repr_cong [OF same_u])
  moreover have fr: "q_frame s3 t" using t(5) by (simp add: only_queue_def)
  moreover have "q_view u q = q_view s q" if "q \<noteq> Free_stacks" for q
    using t(5) that q_repr_cong(5) [OF same_u] r(2) by (simp add: only_queue_def v2)
  moreover have "hashfcn (queues u q) = hashfcn (queues s q)" if "q \<noteq> Free_stacks" for q
    using that by (simp add: same_u q_frame_fields(1) [OF fr]) (simp add: s3_def q_reset_def same)
  moreover have "pcbs u = pcbs s" "current u = current s" "next_pid u = next_pid s"
    "stacks u = stacks s1" "system_esp u = Some (STACK_SIZE - 2)"
    by (simp_all add: u_def c_puts_def q_frame_fields [OF fr])
      (simp_all add: s3_def s2_def s1_def q_reset_def set_queue_def)
  ultimately show ?thesis by (auto simp: s1_def)
qed

end
