(* ===== verification/Processes.thy ===== *)
theory Processes
  imports Stacks
begin

text \<open>
  processes.c: the process control blocks, the queue of free ones and the queues a process
  can wait in.
\<close>

section \<open>The code\<close>

definition pcb_alloc :: "(nat option) kop" where
  "pcb_alloc s =
     (case q_remove Free_pcbs s of (p, s) \<Rightarrow>
       bindE (as_pcb p) (\<lambda>pcb.
         case pcb of
           None \<Rightarrow> Inr (None, s)
         | Some i \<Rightarrow> Inr (Some i, set_pcb i (\<lambda>p. p\<lparr>status := PROC_NEW\<rparr>) s)))"

definition pcb_dealloc :: "nat \<Rightarrow> u32 kop" where
  "pcb_dealloc i s =
     (let s = set_pcb i (\<lambda>p. p\<lparr>status := PROC_FREE\<rparr>) s
      in q_insert Free_pcbs (Some (Pcb i)) s)"

definition pcb_init :: "kstate \<Rightarrow> kstate outcome" where
  "pcb_init s =
     (let s = fold (\<lambda>i. q_reset (Some (Ready i)) None) [0..<MLQ_LEVELS] s;
          s = q_reset (Some Sleeping) (Some Hash_sleep) s;
          s = q_reset (Some Reading) None s;
          s = q_reset (Some Free_pcbs) None s;
          s = s\<lparr>pcbs := (\<lambda>i. if i < MAX_PROCS then zero_pcb else pcbs s i)\<rparr>
      in bindE (dealloc_loop pcb_dealloc [0..<MAX_PROCS] STAT_SUCCESS s) (\<lambda>(stat, s).
           if stat \<noteq> STAT_SUCCESS then kpanic ''pcb init: insert fail''
           else
             let s = s\<lparr>current := None\<rparr>;
                 s = s\<lparr>next_pid := 0\<rparr>
             in Inr (c_puts '' process'' s)))"

section \<open>The pool of PCBs\<close>

abbreviation (input) c_pcb :: "nat \<Rightarrow> obj option" where
  "c_pcb \<equiv> (\<lambda>i. Some (Pcb i))"

definition pcb_pool :: "kstate \<Rightarrow> bool" where
  "pcb_pool s \<longleftrightarrow> typed_queue c_pcb Free_pcbs s"

definition free_pcbs :: "kstate \<Rightarrow> nat list" where
  "free_pcbs s = contents c_pcb Free_pcbs s"

text \<open>Only the queue of free PCBs and the states of PCBs have changed.\<close>

definition status_frame :: "kstate \<Rightarrow> kstate \<Rightarrow> bool" where
  "status_frame s s' \<longleftrightarrow>
     only_queue Free_pcbs s (s'\<lparr>pcbs := pcbs s\<rparr>) \<and>
     (\<forall>i. (pcbs s' i)\<lparr>status := status (pcbs s i)\<rparr> = pcbs s i)"

lemma inj_c_pcb: "inj c_pcb" by (simp add: inj_def)

lemma set_pcb_simps [simp]:
  "queues (set_pcb i f s) = queues s"
  "qnodes (set_pcb i f s) = qnodes s"
  "free_qnodes (set_pcb i f s) = free_qnodes s"
  "pcbs (set_pcb i f s) = (pcbs s)(i := f (pcbs s i))"
  "current (set_pcb i f s) = current s"
  by (simp_all add: set_pcb_def)

lemma q_view_set_pcb [simp]:
  "q_view (set_pcb i f s) = q_view s" "q_wf (set_pcb i f s) = q_wf s"
  "n_free (set_pcb i f s) = n_free s"
  by (rule q_repr_cong; simp)+

lemma q_view_pcbs_update [simp]:
  "q_view (s\<lparr>pcbs := f\<rparr>) = q_view s" "q_wf (s\<lparr>pcbs := f\<rparr>) = q_wf s"
  "n_free (s\<lparr>pcbs := f\<rparr>) = n_free s"
  for s :: kstate
  by (rule q_repr_cong; simp)+

lemma q_view_pcbs_update' [simp]:
  "q_view (s\<lparr>current := f\<rparr>) = q_view s" "q_wf (s\<lparr>current := f\<rparr>) = q_wf s"
  "n_free (s\<lparr>current := f\<rparr>) = n_free s"
  for s :: kstate
  by (rule q_repr_cong; simp)+

lemma status_frame_refl: "status_frame s s"
  by (simp add: status_frame_def only_queue_refl)

lemma q_frame_pcbs:
  assumes "q_frame s t"
  shows "q_frame (s\<lparr>pcbs := p\<rparr>) (t\<lparr>pcbs := p\<rparr>)"
proof -
  have "t\<lparr>queues := queues s, qnodes := qnodes s, free_qnodes := free_qnodes s\<rparr> = s"
    using assms by (simp add: q_frame_def)
  from arg_cong [OF this, of "\<lambda>x. x\<lparr>pcbs := p\<rparr>"]
  have "t\<lparr>pcbs := p, queues := queues s, qnodes := qnodes s, free_qnodes := free_qnodes s\<rparr> = s\<lparr>pcbs := p\<rparr>"
    by (cases t; cases s) simp
  with assms show ?thesis by (simp add: q_frame_def)
qed

lemma only_queue_pcbs:
  "only_queue q s t \<Longrightarrow> only_queue q (s\<lparr>pcbs := p\<rparr>) (t\<lparr>pcbs := p\<rparr>)"
  by (simp add: only_queue_def q_frame_pcbs)

lemma status_frame_trans:
  assumes "status_frame s t" "status_frame t u"
  shows "status_frame s u"
proof -
  have "only_queue Free_pcbs t (u\<lparr>pcbs := pcbs t\<rparr>)" using assms(2) by (simp add: status_frame_def)
  then have "only_queue Free_pcbs (t\<lparr>pcbs := pcbs s\<rparr>) (u\<lparr>pcbs := pcbs s\<rparr>)"
    using only_queue_pcbs [of Free_pcbs t "u\<lparr>pcbs := pcbs t\<rparr>" "pcbs s"] by simp
  moreover have "(pcbs u i)\<lparr>status := status (pcbs s i)\<rparr> = pcbs s i" for i
  proof -
    have "(pcbs u i)\<lparr>status := status (pcbs t i)\<rparr> = pcbs t i"
      "(pcbs t i)\<lparr>status := status (pcbs s i)\<rparr> = pcbs s i"
      using assms by (simp_all add: status_frame_def)
    then show ?thesis by (cases "pcbs u i"; cases "pcbs t i"; cases "pcbs s i") simp
  qed
  ultimately show ?thesis
    using assms(1) by (auto simp: status_frame_def intro: only_queue_trans)
qed

lemma status_frame_set: "only_queue Free_pcbs s t \<Longrightarrow> status_frame s (set_pcb i (\<lambda>p. p\<lparr>status := v\<rparr>) t)"
proof -
  assume o: "only_queue Free_pcbs s t"
  then have p: "pcbs t = pcbs s" by (auto simp: only_queue_def dest!: q_frame_fields(5))
  have "(set_pcb i (\<lambda>p. p\<lparr>status := v\<rparr>) t)\<lparr>pcbs := pcbs s\<rparr> = t"
    by (simp add: set_pcb_def p [symmetric])
  with o p show ?thesis by (simp add: status_frame_def)
qed

lemma status_frame_set': 
  assumes "only_queue Free_pcbs (set_pcb i (\<lambda>p. p\<lparr>status := v\<rparr>) s) t"
  shows "status_frame s t"
proof -
  have p: "pcbs t = (pcbs s)(i := (pcbs s i)\<lparr>status := v\<rparr>)"
    using assms by (auto simp: only_queue_def dest!: q_frame_fields(5))
  have "only_queue Free_pcbs s (t\<lparr>pcbs := pcbs s\<rparr>)"
    using only_queue_pcbs [OF assms, of "pcbs s"] by (simp add: set_pcb_def)
  with p show ?thesis by (auto simp: status_frame_def)
qed

lemma pcb_alloc_some:
  assumes "pcb_pool s" "free_pcbs s = i # is"
  shows "\<exists>t. pcb_alloc s = Inr (Some i, set_pcb i (\<lambda>p. p\<lparr>status := PROC_NEW\<rparr>) t) \<and>
    pcb_pool (set_pcb i (\<lambda>p. p\<lparr>status := PROC_NEW\<rparr>) t) \<and>
    free_pcbs (set_pcb i (\<lambda>p. p\<lparr>status := PROC_NEW\<rparr>) t) = is \<and>
    n_free t = Suc (n_free s) \<and> q_frame s t \<and> q_wf t \<and>
    q_view t = (q_view s)(Free_pcbs := tl (q_view s Free_pcbs))"
  using typed_queue_remove [OF assms(1) [unfolded pcb_pool_def] inj_c_pcb assms(2) [unfolded free_pcbs_def]]
  by (auto simp: pcb_alloc_def pcb_pool_def free_pcbs_def typed_queue_cong [OF set_pcb_simps(1-3)]
     dest: typed_queue_def [THEN iffD1])

lemma pcb_alloc_none:
  "pcb_pool s \<Longrightarrow> free_pcbs s = [] \<Longrightarrow> pcb_alloc s = Inr (None, s)"
  by (auto simp: pcb_alloc_def pcb_pool_def free_pcbs_def dest!: typed_queue_remove_empty)

lemma pcb_dealloc_ok:
  assumes "pcb_pool s" "n_free s \<noteq> 0"
  shows "\<exists>s'. pcb_dealloc i s = Inr (STAT_SUCCESS, s') \<and> pcb_pool s' \<and>
    free_pcbs s' = free_pcbs s @ [i] \<and> n_free s' = n_free s - 1 \<and>
    q_frame (set_pcb i (\<lambda>p. p\<lparr>status := PROC_FREE\<rparr>) s) s' \<and> q_wf s' \<and>
    q_view s' = (q_view s)(Free_pcbs := q_view s Free_pcbs @ [(0, c_pcb i)])"
proof -
  let ?s = "set_pcb i (\<lambda>p. p\<lparr>status := PROC_FREE\<rparr>) s"
  have "typed_queue c_pcb Free_pcbs ?s" "n_free ?s \<noteq> 0"
    using assms by (simp_all add: pcb_pool_def typed_queue_cong [of ?s s])
  from typed_queue_insert [OF this(1) inj_c_pcb this(2), of i] show ?thesis
    by (auto simp: pcb_dealloc_def pcb_pool_def free_pcbs_def typed_queue_cong [of ?s s]
       dest: typed_queue_def [THEN iffD1])
qed

lemma pcb_dealloc_full:
  "pcb_pool s \<Longrightarrow> n_free s = 0 \<Longrightarrow>
   pcb_dealloc i s = Inr (STAT_ALLOC_FAIL, set_pcb i (\<lambda>p. p\<lparr>status := PROC_FREE\<rparr>) s)"
  by (simp add: pcb_dealloc_def pcb_pool_def typed_queue_def q_insert_full)

interpretation pcb_pool:
  resource_pool pcb_alloc pcb_dealloc "\<lambda>_. True" pcb_pool free_pcbs n_free status_frame
proof (unfold_locales, goal_cases)
  case (1 s) then show ?case by (rule pcb_alloc_none)
next
  case (2 s h hs)
  from pcb_alloc_some [OF this] obtain t where t:
    "pcb_alloc s = Inr (Some h, set_pcb h (\<lambda>p. p\<lparr>status := PROC_NEW\<rparr>) t)"
    "pcb_pool (set_pcb h (\<lambda>p. p\<lparr>status := PROC_NEW\<rparr>) t)"
    "free_pcbs (set_pcb h (\<lambda>p. p\<lparr>status := PROC_NEW\<rparr>) t) = hs"
    "n_free t = Suc (n_free s)" "q_frame s t"
    "q_view t = (q_view s)(Free_pcbs := tl (q_view s Free_pcbs))" by blast
  then have "only_queue Free_pcbs s t" by (simp add: only_queue_def)
  then have "status_frame s (set_pcb h (\<lambda>p. p\<lparr>status := PROC_NEW\<rparr>) t)" by (rule status_frame_set)
  with t show ?case by auto
next
  case (3 s h)
  from pcb_dealloc_ok [OF 3(1,3), of h] obtain s' where s':
    "pcb_dealloc h s = Inr (STAT_SUCCESS, s')" "pcb_pool s'" "free_pcbs s' = free_pcbs s @ [h]"
    "n_free s' = n_free s - 1" "q_frame (set_pcb h (\<lambda>p. p\<lparr>status := PROC_FREE\<rparr>) s) s'"
    "q_view s' = (q_view s)(Free_pcbs := q_view s Free_pcbs @ [(0, c_pcb h)])" by blast
  then have "only_queue Free_pcbs (set_pcb h (\<lambda>p. p\<lparr>status := PROC_FREE\<rparr>) s) s'"
    by (simp add: only_queue_def)
  then have "status_frame s s'" by (rule status_frame_set')
  with s' show ?case by blast
next
  case (4 s h)
  let ?s = "set_pcb h (\<lambda>p. p\<lparr>status := PROC_FREE\<rparr>) s"
  have "typed_queue c_pcb Free_pcbs ?s = typed_queue c_pcb Free_pcbs s"
    "contents c_pcb Free_pcbs ?s = contents c_pcb Free_pcbs s"
    by (simp_all add: typed_queue_cong [of ?s s])
  then show ?case using pcb_dealloc_full [OF 4(1,3), of h] 4 status_frame_set [OF only_queue_refl, of s h PROC_FREE]
    by (auto simp: pcb_pool_def free_pcbs_def)
next
  case 5 show ?case by (rule status_frame_refl)
next
  case 6 then show ?case by (rule status_frame_trans)
qed

end
