(* ===== verification/Kernel_Inv.thy ===== *)
theory Kernel_Inv
  imports Processes
begin

text \<open>
  The invariant of the scheduler's data, as a matter of ownership.  Every PCB is at most in
  one place: in the queue of free PCBs, in one of the queues of live processes, or in the
  hands of the running code.  Every user stack is at most in one place: free, owned by one
  live PCB, or in the hands of the code.  Every queue node is either free or in a queue.

  \<open>kinv H F K s\<close> says that this holds in \<open>s\<close> while the code holds the live PCBs \<open>H\<close>, the PCBs
  \<open>F\<close> that are just allocated, and the stacks \<open>K\<close>.  Between two entries into the kernel \<open>H\<close>
  is the current process, and \<open>F\<close> and \<open>K\<close> are empty.

  The invariant is a predicate on the views of the queues, so an operation on a queue is an
  update of the view in its proofs.
\<close>

section \<open>Views\<close>

type_synonym view = "queue_id \<Rightarrow> (u32 \<times> obj option) list"

definition pcb_of :: "obj option \<Rightarrow> nat" where
  "pcb_of p = (case p of Some (Pcb i) \<Rightarrow> i | _ \<Rightarrow> 0)"

definition stack_of :: "obj option \<Rightarrow> nat" where
  "stack_of p = (case p of Some (Stack i) \<Rightarrow> i | _ \<Rightarrow> 0)"

lemma pcb_of_simps [simp]: "pcb_of (Some (Pcb i)) = i" by (simp add: pcb_of_def)
lemma stack_of_simps [simp]: "stack_of (Some (Stack i)) = i" by (simp add: stack_of_def)

definition pcbs_in :: "view \<Rightarrow> queue_id \<Rightarrow> nat list" where
  "pcbs_in v q = map (\<lambda>e. pcb_of (snd e)) (v q)"

definition stacks_in :: "view \<Rightarrow> nat list" where
  "stacks_in v = map (\<lambda>e. stack_of (snd e)) (v Free_stacks)"

definition live_queues :: "queue_id list" where
  "live_queues = [Ready 0, Ready 1, Ready 2, Sleeping, Reading, Blocked_requests]"

definition other_queues :: "queue_id list" where
  "other_queues = [Free_shms, Ramdisk_io_pending, Ata_io_pending]"

definition live :: "view \<Rightarrow> nat multiset" where
  "live v = mset (concat (map (pcbs_in v) live_queues))"

definition n_other :: "view \<Rightarrow> nat" where
  "n_other v = sum_list (map (\<lambda>q. length (v q)) other_queues)"

definition n_used :: "view \<Rightarrow> nat" where
  "n_used v = length (v Free_pcbs) + length (v Free_stacks) +
     sum_list (map (\<lambda>q. length (v q)) live_queues) + n_other v"

definition stack_idx :: "(nat \<Rightarrow> pcb_t) \<Rightarrow> nat \<Rightarrow> nat" where
  "stack_idx ps i = (case stack (ps i) of Some st \<Rightarrow> st | None \<Rightarrow> 0)"

abbreviation (input) OTHER_MAX :: nat where "OTHER_MAX \<equiv> 8"

section \<open>The invariant\<close>

text \<open>The queues hold what they are meant to hold.\<close>

definition typed_view :: "view \<Rightarrow> bool" where
  "typed_view v \<longleftrightarrow>
     (\<forall>q \<in> set (Free_pcbs # live_queues). \<forall>e \<in> set (v q). snd e \<in> range c_pcb) \<and>
     (\<forall>e \<in> set (v Free_stacks). snd e \<in> range c_stack) \<and>
     (\<forall>e \<in> set (v Free_shms). snd e \<in> range (\<lambda>a. Some (Shm a))) \<and>
     (\<forall>q \<in> {Ramdisk_io_pending, Ata_io_pending}. \<forall>e \<in> set (v q). snd e \<in> range (\<lambda>i. Some (Disk_req i)))"

text \<open>What every live PCB has: a stack, a valid level and a saved context.\<close>

definition live_pcb :: "pcb_t \<Rightarrow> bool" where
  "live_pcb p \<longleftrightarrow> stack p \<noteq> None \<and> unat (level p) < MLQ_LEVELS \<and> context_of p \<noteq> None"

definition owned :: "nat list \<Rightarrow> nat list \<Rightarrow> nat list \<Rightarrow> view \<Rightarrow> (nat \<Rightarrow> pcb_t) \<Rightarrow> bool" where
  "owned H F K v ps \<longleftrightarrow>
     mset (pcbs_in v Free_pcbs) + live v + mset H + mset F \<subseteq># mset_set {..<MAX_PROCS} \<and>
     mset (stacks_in v) + image_mset (stack_idx ps) (live v + mset H) + mset K \<subseteq># mset_set {..<MAX_PROCS} \<and>
     (\<forall>i \<in># live v + mset H. live_pcb (ps i))"

definition statuses :: "view \<Rightarrow> (nat \<Rightarrow> pcb_t) \<Rightarrow> bool" where
  "statuses v ps \<longleftrightarrow>
     (\<forall>l. \<forall>i \<in> set (pcbs_in v (Ready l)). status (ps i) \<in> {PROC_READY, PROC_ZOMBIE}) \<and>
     (\<forall>i \<in> set (pcbs_in v Free_pcbs). status (ps i) = PROC_FREE)"

definition hashes_ok :: "(queue_id \<Rightarrow> queue_t) \<Rightarrow> bool" where
  "hashes_ok qs \<longleftrightarrow> (\<forall>q. hashfcn (qs q) = (if q = Sleeping then Some Hash_sleep else None))"

definition ready_levels :: "view \<Rightarrow> bool" where
  "ready_levels v \<longleftrightarrow> (\<forall>l. MLQ_LEVELS \<le> l \<longrightarrow> v (Ready l) = [])"

definition kinv :: "nat list \<Rightarrow> nat list \<Rightarrow> nat list \<Rightarrow> kstate \<Rightarrow> bool" where
  "kinv H F K s \<longleftrightarrow>
     q_wf s \<and> hashes_ok (queues s) \<and> typed_view (q_view s) \<and> owned H F K (q_view s) (pcbs s) \<and>
     statuses (q_view s) (pcbs s) \<and> ready_levels (q_view s) \<and>
     n_free s + n_used (q_view s) = N_QNODES \<and> n_other (q_view s) \<le> OTHER_MAX"

lemma kinvD:
  assumes "kinv H F K s"
  shows "q_wf s" "hashes_ok (queues s)" "typed_view (q_view s)" "owned H F K (q_view s) (pcbs s)"
    "statuses (q_view s) (pcbs s)" "n_free s + n_used (q_view s) = N_QNODES"
    "n_other (q_view s) \<le> OTHER_MAX" "ready_levels (q_view s)"
  using assms by (auto simp: kinv_def)

text \<open>What the invariant depends on.\<close>

lemma kinv_cong:
  assumes "queues s' = queues s" "qnodes s' = qnodes s" "free_qnodes s' = free_qnodes s"
    "pcbs s' = pcbs s"
  shows "kinv H F K s' \<longleftrightarrow> kinv H F K s"
  using q_repr_cong(4,5,7) [OF assms(1-3)] assms by (simp add: kinv_def)

section \<open>Updates of a view\<close>

lemma queue_sums_upd:
  assumes "q \<in> set live_queues"
  shows "live (v(q := es)) + mset (pcbs_in v q) = live v + mset (map (\<lambda>e. pcb_of (snd e)) es)"
    "n_used (v(q := es)) + length (v q) = n_used v + length es"
    "n_other (v(q := es)) = n_other v" "pcbs_in (v(q := es)) Free_pcbs = pcbs_in v Free_pcbs"
    "stacks_in (v(q := es)) = stacks_in v"
  using assms
  by (auto simp: live_queues_def live_def pcbs_in_def n_used_def n_other_def other_queues_def
      stacks_in_def ac_simps)

lemma free_pcbs_upd:
  "live (v(Free_pcbs := es)) = live v"
  "n_used (v(Free_pcbs := es)) + length (v Free_pcbs) = n_used v + length es"
  "n_other (v(Free_pcbs := es)) = n_other v"
  "stacks_in (v(Free_pcbs := es)) = stacks_in v"
  by (auto simp: live_queues_def live_def pcbs_in_def n_used_def n_other_def other_queues_def
      stacks_in_def)

lemma free_stacks_upd:
  "live (v(Free_stacks := es)) = live v"
  "n_used (v(Free_stacks := es)) + length (v Free_stacks) = n_used v + length es"
  "n_other (v(Free_stacks := es)) = n_other v"
  by (auto simp: live_queues_def live_def pcbs_in_def n_used_def n_other_def other_queues_def)

lemma other_upd:
  assumes "q \<in> set other_queues"
  shows "live (v(q := es)) = live v"
    "n_used (v(q := es)) + length (v q) = n_used v + length es"
    "n_other (v(q := es)) + length (v q) = n_other v + length es"
    "pcbs_in (v(q := es)) Free_pcbs = pcbs_in v Free_pcbs"
    "stacks_in (v(q := es)) = stacks_in v"
    "pcbs_in (v(q := es)) (Ready l) = pcbs_in v (Ready l)"
  using assms
  by (auto simp: live_queues_def live_def pcbs_in_def n_used_def n_other_def other_queues_def
      stacks_in_def)

lemma live_queues_not:
  "Free_pcbs \<notin> set live_queues" "Free_stacks \<notin> set live_queues"
  "q \<in> set other_queues \<Longrightarrow> q \<notin> set live_queues"
  "q \<in> set other_queues \<Longrightarrow> q \<noteq> Free_pcbs \<and> q \<noteq> Free_stacks \<and> q \<noteq> Ready l \<and> q \<noteq> Sleeping"
  by (auto simp: live_queues_def other_queues_def)

lemma q_place_props [simp]:
  "length (q_place b e es) = Suc (length es)"
  "set (q_place b e es) = insert e (set es)"
  "mset (q_place b e es) = add_mset e (mset es)"
  by (auto simp: q_place_def)

lemma mset_place:
  "mset (map (\<lambda>e. pcb_of (snd e)) (q_place b (k, Some (Pcb i)) es)) =
   add_mset i (mset (map (\<lambda>e. pcb_of (snd e)) es))"
  by simp

lemma pcbs_in_q_place:
  "mset (pcbs_in (v(q := q_place b (k, Some (Pcb i)) (v q))) q) = add_mset i (mset (pcbs_in v q))"
  "set (pcbs_in (v(q := q_place b (k, Some (Pcb i)) (v q))) q) = insert i (set (pcbs_in v q))"
  by (simp_all add: pcbs_in_def flip: mset_map) (auto simp: q_place_def)

lemma pcbs_in_other [simp]: "q' \<noteq> q \<Longrightarrow> pcbs_in (v(q := es)) q' = pcbs_in v q'"
  by (simp add: pcbs_in_def)

section \<open>Room in the pool of nodes\<close>

lemma sub_procs_size: "M \<subseteq># mset_set {..<MAX_PROCS} \<Longrightarrow> size M \<le> MAX_PROCS"
  using size_mset_mono [of M "mset_set {..<MAX_PROCS}"] by simp

lemma size_live: "size (live v) = sum_list (map (\<lambda>q. length (v q)) live_queues)"
  by (simp add: live_def live_queues_def pcbs_in_def)

lemma kinv_room:
  assumes "kinv H F K s"
  shows "1 + length H + length F + length K \<le> n_free s"
proof -
  note k = kinvD [OF assms]
  have "size (mset (pcbs_in (q_view s) Free_pcbs) + live (q_view s) + mset H + mset F) \<le> MAX_PROCS"
    "size (mset (stacks_in (q_view s)) + image_mset (stack_idx (pcbs s)) (live (q_view s) + mset H) +
      mset K) \<le> MAX_PROCS"
    using k(4) unfolding owned_def by (blast intro: sub_procs_size)+
  then have "length (q_view s Free_pcbs) + size (live (q_view s)) + length H + length F \<le> MAX_PROCS"
    "length (q_view s Free_stacks) + size (live (q_view s)) + length H + length K \<le> MAX_PROCS"
    by (simp_all add: pcbs_in_def stacks_in_def)
  moreover have "n_free s + (length (q_view s Free_pcbs) + length (q_view s Free_stacks) +
     size (live (q_view s)) + n_other (q_view s)) = N_QNODES"
    using k(6) by (simp add: n_used_def size_live)
  ultimately show ?thesis using k(7) by (simp add: N_QNODES_def)
qed

text \<open>Held PCBs are in range, are different from each other and are in no queue.\<close>

lemma sub_mset_distinct: "mset xs \<subseteq># mset_set A \<Longrightarrow> distinct xs"
proof (rule distinct_count_atmost_1 [THEN iffD2], rule allI)
  fix a
  assume "mset xs \<subseteq># mset_set A"
  then have "count (mset xs) a \<le> count (mset_set A) a" by (rule mset_subset_eq_count)
  also have "\<dots> \<le> 1" by (cases "finite A"; cases "a \<in> A") simp_all
  finally show "count (mset xs) a = (if a \<in> set xs then 1 else 0)"
    by (cases "a \<in> set xs") (auto simp: count_eq_zero_iff le_Suc_eq)
qed

lemma sub_mset_set:
  "M \<subseteq># mset_set {..<MAX_PROCS} \<Longrightarrow> i \<in># M \<Longrightarrow> i < MAX_PROCS \<and> i \<notin># M - {#i#}"
proof -
  assume sub: "M \<subseteq># mset_set {..<MAX_PROCS}" and i: "i \<in># M"
  have "count M i \<le> count (mset_set {..<MAX_PROCS}) i" using sub by (rule mset_subset_eq_count)
  then have c: "count M i \<le> 1" by (cases "i < MAX_PROCS") auto
  have "i \<in># mset_set {..<MAX_PROCS}" using mset_subset_eqD [OF sub i] .
  then show ?thesis using c i by (auto simp: not_in_iff)
qed

lemma owned_held:
  assumes "owned (i # H) F K v ps"
  shows "i < MAX_PROCS" "i \<notin># live v" "i \<notin> set (pcbs_in v Free_pcbs)" "i \<notin> set H" "i \<notin> set F"
    "live_pcb (ps i)"
proof -
  have "mset (pcbs_in v Free_pcbs) + live v + mset (i # H) + mset F \<subseteq># mset_set {..<MAX_PROCS}"
    using assms by (simp only: owned_def)
  from sub_mset_set [OF this, of i]
  show "i < MAX_PROCS" "i \<notin># live v" "i \<notin> set (pcbs_in v Free_pcbs)" "i \<notin> set H" "i \<notin> set F"
    by auto
  show "live_pcb (ps i)" using assms by (simp add: owned_def)
qed

lemma in_live: "q \<in> set live_queues \<Longrightarrow> i \<in> set (pcbs_in v q) \<Longrightarrow> i \<in># live v"
  by (auto simp: live_def)


lemma not_live_ready:
  assumes "ready_levels v" "i \<notin># live v"
  shows "i \<notin> set (pcbs_in v (Ready l))"
proof (cases "l < MLQ_LEVELS")
  case True
  then have "Ready l \<in> set live_queues" by (auto simp: live_queues_def)
  then show ?thesis using in_live assms(2) by blast
next
  case False
  then show ?thesis using assms(1) by (simp add: ready_levels_def pcbs_in_def)
qed

section \<open>Changes of ownership\<close>

text \<open>From a queue of live PCBs into the hands of the code, and back.\<close>

lemma mset_part: "x \<in> set xs \<Longrightarrow> mset (f x) \<subseteq># mset (concat (map f xs))"
  by (induction xs) (auto intro: subset_mset.order_trans)

text \<open>Every queue of PCBs and the queue of the free stacks holds a part of what there is.\<close>

lemma owned_part:
  assumes "owned H F K v ps"
  shows "q \<in> set (Free_pcbs # live_queues) \<Longrightarrow> mset (pcbs_in v q) \<subseteq># mset_set {..<MAX_PROCS}"
    "mset (stacks_in v) \<subseteq># mset_set {..<MAX_PROCS}"
proof -
  have o: "mset (pcbs_in v Free_pcbs) + live v \<subseteq># mset_set {..<MAX_PROCS}"
    "mset (stacks_in v) \<subseteq># mset_set {..<MAX_PROCS}"
    using assms unfolding owned_def by (metis add.assoc mset_subset_eq_add_left subset_mset.order_trans)+
  show "mset (stacks_in v) \<subseteq># mset_set {..<MAX_PROCS}" by (fact o(2))
  assume q: "q \<in> set (Free_pcbs # live_queues)"
  have "mset (pcbs_in v q) \<subseteq># mset (concat (map (pcbs_in v) (Free_pcbs # live_queues)))"
    using q by (rule mset_part)
  then show "mset (pcbs_in v q) \<subseteq># mset_set {..<MAX_PROCS}"
    using o(1) by (simp add: live_def)
qed

lemma part_bound: "mset (map f es) \<subseteq># mset_set {..<MAX_PROCS} \<Longrightarrow> e \<in> set es \<Longrightarrow> f e < MAX_PROCS"
  using sub_mset_set [of "mset (map f es)" "f e"] by simp

lemma owned_take:
  assumes "live v = add_mset i (live v')" "pcbs_in v' Free_pcbs = pcbs_in v Free_pcbs"
    "stacks_in v' = stacks_in v"
  shows "owned (i # H) F K v' ps \<longleftrightarrow> owned H F K v ps"
  using assms by (auto simp: owned_def)

lemma typed_view_sub:
  "typed_view v \<Longrightarrow> (\<And>q. set (v' q) \<subseteq> set (v q)) \<Longrightarrow> typed_view v'"
  unfolding typed_view_def by blast

lemma typed_pcb:
  "typed_view v \<Longrightarrow> q \<in> set (Free_pcbs # live_queues) \<Longrightarrow> v q = (k, p) # es \<Longrightarrow> \<exists>i. p = Some (Pcb i)"
  unfolding typed_view_def by force

lemma statuses_sub:
  "statuses v ps \<Longrightarrow> (\<And>q. set (pcbs_in v' q) \<subseteq> set (pcbs_in v q)) \<Longrightarrow> statuses v' ps"
  unfolding statuses_def by blast

lemma statuses_put:
  assumes "statuses v ps" "q \<noteq> Free_pcbs"
    and "\<And>l. q = Ready l \<Longrightarrow> status (ps i) \<in> {PROC_READY, PROC_ZOMBIE}"
  shows "statuses (v(q := q_place b (k, Some (Pcb i)) (v q))) ps"
proof -
  have "status (ps j) \<in> {PROC_READY, PROC_ZOMBIE}"
    if "j \<in> set (pcbs_in (v(q := q_place b (k, Some (Pcb i)) (v q))) (Ready l))" for l j
    using assms(1,3) that by (cases "q = Ready l") (auto simp: statuses_def pcbs_in_q_place)
  with assms(1,2) show ?thesis by (auto simp: statuses_def)
qed

lemma pcbs_in_Cons:
  assumes "typed_view v" "q \<in> set (Free_pcbs # live_queues)" "pcbs_in v q = i # is"
  obtains k es where "v q = (k, Some (Pcb i)) # es" "map (\<lambda>e. pcb_of (snd e)) es = is"
proof -
  from assms(3) obtain k p es where v: "v q = (k, p) # es" and i: "pcb_of p = i"
    and es: "map (\<lambda>e. pcb_of (snd e)) es = is"
    by (cases "v q") (auto simp: pcbs_in_def)
  from typed_pcb [OF assms(1,2) v] i have "p = Some (Pcb i)" by auto
  with v es that show thesis by blast
qed

lemma pcbs_in_tl: "set (pcbs_in (v(q := tl (v q))) q') \<subseteq> set (pcbs_in v q')"
  by (cases "v q") (auto simp: pcbs_in_def)

lemma ready_levels_tl: "ready_levels v \<Longrightarrow> ready_levels (v(q := tl (v q)))"
  by (auto simp: ready_levels_def)

lemma set_tl: "set ((v(q := tl (v q))) q') \<subseteq> set (v q')"
  by (cases "v q") auto

lemma hashes_frame: "q_frame s s' \<Longrightarrow> hashes_ok (queues s) \<Longrightarrow> hashes_ok (queues s')"
  by (simp add: hashes_ok_def q_frame_fields(1))

lemma kinv_take:
  assumes k: "kinv H F K s" and q: "q \<in> set live_queues" and i: "pcbs_in (q_view s) q = i # is"
  shows "\<exists>s'. q_remove q s = (Some (Pcb i), s') \<and> kinv (i # H) F K s' \<and> q_frame s s' \<and>
     q_view s' = (q_view s)(q := tl (q_view s q))"
proof -
  note d = kinvD [OF k]
  let ?v = "q_view s" and ?v' = "(q_view s)(q := tl (q_view s q))"
  from q have q': "q \<in> set (Free_pcbs # live_queues)" by simp
  from pcbs_in_Cons [OF d(3) q' i] obtain ky es where
    v: "?v q = (ky, Some (Pcb i)) # es" by blast
  from q_remove_ok [OF d(1) v] v obtain s' where s': "q_remove q s = (Some (Pcb i), s')" "q_wf s'"
    "q_frame s s'" "q_view s' = ?v'" "n_free s' = Suc (n_free s)" by auto
  note u = queue_sums_upd [OF q, of ?v "tl (?v q)"]
  have live: "live ?v = add_mset i (live ?v')" using u(1) by (simp add: v pcbs_in_def)
  have "owned (i # H) F K ?v' (pcbs s)"
    using d(4) owned_take [OF live u(4,5)] by simp
  moreover have "typed_view ?v'" using d(3) set_tl by (rule typed_view_sub)
  moreover have "statuses ?v' (pcbs s)" using d(5) pcbs_in_tl by (rule statuses_sub)
  moreover have "n_free s' + n_used ?v' = N_QNODES" using u(2) d(6) s'(5) by (simp add: v)
  moreover have "n_other ?v' \<le> OTHER_MAX" using u(3) d(7) by simp
  ultimately have "kinv (i # H) F K s'"
    unfolding kinv_def using s' hashes_frame [OF s'(3) d(2)] ready_levels_tl [OF d(8)]
    by (simp add: q_frame_fields(5) [OF s'(3)])
  with s' show ?thesis by blast
qed

lemma kinv_put:
  assumes k: "kinv (i # H) F K s" and q: "q \<in> set live_queues"
    and st: "\<And>l. q = Ready l \<Longrightarrow> status (pcbs s i) \<in> {PROC_READY, PROC_ZOMBIE}"
  shows "\<exists>s'. q_insert q (Some (Pcb i)) s = Inr (STAT_SUCCESS, s') \<and> kinv H F K s' \<and> q_frame s s' \<and>
     q_view s' = (q_view s)(q := q_place (q = Sleeping)
       (if q = Sleeping then wakeup (pcbs s i) else 0, Some (Pcb i)) (q_view s q))"
proof -
  note d = kinvD [OF k]
  let ?k = "if q = Sleeping then wakeup (pcbs s i) else 0"
  let ?v = "q_view s"
  let ?v' = "?v(q := q_place (q = Sleeping) (?k, Some (Pcb i)) (?v q))"
  have key: "q_key s q (Some (Pcb i)) = Inr ?k" and ord: "q_ordered s q \<longleftrightarrow> q = Sleeping"
    using d(2) by (auto simp: hashes_ok_def q_key_def call_hash_def hash_sleep_def q_ordered_def)
  have "n_free s \<noteq> 0" using kinv_room [OF k] by simp
  from q_insert_ok [OF d(1) this key] obtain s' where s':
    "q_insert q (Some (Pcb i)) s = Inr (STAT_SUCCESS, s')" "q_wf s'" "q_frame s s'" "q_view s' = ?v'"
    "n_free s' = n_free s - 1"
    by (auto simp: ord)
  note u = queue_sums_upd [OF q, of ?v "q_place (q = Sleeping) (?k, Some (Pcb i)) (?v q)"]
  have live: "live ?v' = add_mset i (live ?v)" using u(1) unfolding mset_place pcbs_in_def by simp
  have "owned H F K ?v' (pcbs s)"
    using d(4) owned_take [OF live u(4,5) [symmetric]] by simp
  moreover have "typed_view ?v'" using d(3) q by (auto simp: typed_view_def live_queues_def)
  moreover have "statuses ?v' (pcbs s)"
  proof -
    have "q \<noteq> Free_pcbs" using q by (auto simp: live_queues_def)
    with d(5) st show ?thesis by (intro statuses_put) auto
  qed
  moreover have "n_free s' + n_used ?v' = N_QNODES"
    using u(2) d(6) s'(5) kinv_room [OF k] by simp
  moreover have "n_other ?v' \<le> OTHER_MAX" using u(3) d(7) by simp
  moreover have "ready_levels ?v'" using d(8) q by (auto simp: ready_levels_def live_queues_def)
  ultimately have "kinv H F K s'"
    unfolding kinv_def using s' hashes_frame [OF s'(3) d(2)]
    by (simp add: q_frame_fields(5) [OF s'(3)])
  with s' show ?thesis by blast
qed


text \<open>A held PCB is a just allocated one with the stack it owns, both held.\<close>

lemma kinv_split:
  "kinv (i # H) F K s \<longleftrightarrow>
   live_pcb (pcbs s i) \<and> (\<exists>st. stack (pcbs s i) = Some st \<and> kinv H (i # F) (st # K) s)"
  by (auto simp: kinv_def owned_def stack_idx_def live_pcb_def split: option.splits)

lemma sub_drop: "add_mset i M \<subseteq># N \<Longrightarrow> M \<subseteq># N"
  by (meson mset_subset_eq_insertD subset_mset.less_imp_le)

text \<open>Letting go of a PCB keeps the invariant: the PCB is lost with its stack.\<close>

lemma kinv_drop: "kinv (i # H) F K s \<Longrightarrow> kinv H F K s"
  unfolding kinv_def owned_def by (auto dest!: sub_drop)

text \<open>A PCB that is not free can change, as long as its stack and its queue agree.\<close>

lemma kinv_set_pcb:
  assumes k: "kinv H F K s" and free: "i \<notin> set (pcbs_in (q_view s) Free_pcbs)"
    and st: "stack (f (pcbs s i)) = stack (pcbs s i) \<and> live_pcb (f (pcbs s i)) \<or> i \<notin># live (q_view s) + mset H"
    and ready: "\<And>l. i \<in> set (pcbs_in (q_view s) (Ready l)) \<Longrightarrow>
      status (f (pcbs s i)) \<in> {PROC_READY, PROC_ZOMBIE}"
  shows "kinv H F K (set_pcb i f s)"
proof -
  note d = kinvD [OF k]
  let ?v = "q_view s" and ?ps = "(pcbs s)(i := f (pcbs s i))"
  have "image_mset (stack_idx ?ps) (live ?v + mset H) = image_mset (stack_idx (pcbs s)) (live ?v + mset H)"
    using st by (intro image_mset_cong) (auto simp: stack_idx_def)
  moreover have "\<forall>j \<in># live ?v + mset H. live_pcb (?ps j)"
    using st d(4) by (auto simp: owned_def)
  ultimately have "owned H F K ?v ?ps"
    using d(4) unfolding owned_def by (simp only: conj_assoc)
  moreover have "statuses ?v ?ps" using d(5) free ready by (auto simp: statuses_def)
  ultimately show ?thesis using k by (simp add: kinv_def)
qed

lemma kinv_set_held:
  assumes k: "kinv (i # H) F K s" and st: "stack (f (pcbs s i)) = stack (pcbs s i)"
    and lv: "live_pcb (f (pcbs s i))"
  shows "kinv (i # H) F K (set_pcb i f s)"
proof -
  note o = owned_held [OF kinvD(4) [OF k]]
  show ?thesis using k st lv o not_live_ready [OF kinvD(8) [OF k] o(2)] by (intro kinv_set_pcb) auto
qed

lemma owned_fresh:
  assumes "owned H (i # F) K v ps"
  shows "i < MAX_PROCS" "i \<notin># live v" "i \<notin> set (pcbs_in v Free_pcbs)" "i \<notin> set H" "i \<notin> set F"
proof -
  have "mset (pcbs_in v Free_pcbs) + live v + mset H + mset (i # F) \<subseteq># mset_set {..<MAX_PROCS}"
    using assms by (simp only: owned_def)
  from sub_mset_set [OF this, of i]
  show "i < MAX_PROCS" "i \<notin># live v" "i \<notin> set (pcbs_in v Free_pcbs)" "i \<notin> set H" "i \<notin> set F"
    by auto
qed

lemma kinv_set_fresh:
  assumes k: "kinv H (i # F) K s"
  shows "kinv H (i # F) K (set_pcb i f s)"
proof -
  note o = owned_fresh [OF kinvD(4) [OF k]]
  show ?thesis using k o not_live_ready [OF kinvD(8) [OF k] o(2)] by (intro kinv_set_pcb) auto
qed


section \<open>The pools\<close>

lemma kinv_pools:
  assumes "kinv H F K s"
  shows "pcb_pool s" "stack_pool s" "free_pcbs s = pcbs_in (q_view s) Free_pcbs"
    "free_stacks s = stacks_in (q_view s)"
proof -
  note d = kinvD [OF assms]
  show p: "pcb_pool s" and st: "stack_pool s"
    using d(1-3) by (auto simp: pcb_pool_def stack_pool_def typed_queue_def q_ordered_def hashes_ok_def
        q_data_def typed_view_def)
  have pc: "map c_pcb (free_pcbs s) = map snd (q_view s Free_pcbs)"
    using q_data_contents [of c_pcb Free_pcbs s] p by (simp add: pcb_pool_def free_pcbs_def q_data_def)
  have sc: "map c_stack (free_stacks s) = map snd (q_view s Free_stacks)"
    using q_data_contents [of c_stack Free_stacks s] st
    by (simp add: stack_pool_def free_stacks_def q_data_def)
  show "free_pcbs s = pcbs_in (q_view s) Free_pcbs"
    using arg_cong [OF pc, of "map pcb_of"] by (simp add: pcbs_in_def comp_def)
  show "free_stacks s = stacks_in (q_view s)"
    using arg_cong [OF sc, of "map stack_of"] by (simp add: stacks_in_def comp_def)
qed

text \<open>Only PCBs, saved contexts, the current process and queues have changed.\<close>

definition core :: "kstate \<Rightarrow> kstate" where
  "core s = s\<lparr>pcbs := (\<lambda>_. zero_pcb), current := None, next_pid := 0, stacks := (\<lambda>_ _. 0)\<rparr>"

definition k_frame :: "kstate \<Rightarrow> kstate \<Rightarrow> bool" where
  "k_frame s s' \<longleftrightarrow> q_frame (core s) (core s')"

lemma k_frame_refl [simp]: "k_frame s s"
  by (simp add: k_frame_def)

lemma k_frame_trans [trans]: "k_frame s t \<Longrightarrow> k_frame t u \<Longrightarrow> k_frame s u"
  unfolding k_frame_def by (rule q_frame_trans)

lemma q_frame_k_frame: "q_frame s t \<Longrightarrow> k_frame s t"
proof -
  assume a: "q_frame s t"
  then have "t\<lparr>queues := queues s, qnodes := qnodes s, free_qnodes := free_qnodes s\<rparr> = s"
    by (simp add: q_frame_def)
  from arg_cong [OF this, of core] have
    "(core t)\<lparr>queues := queues s, qnodes := qnodes s, free_qnodes := free_qnodes s\<rparr> = core s"
    by (cases t; cases s) (simp add: core_def)
  with a show ?thesis by (simp add: k_frame_def q_frame_def core_def)
qed

lemma core_updates [simp]:
  "core (set_pcb i f s) = core s" "core (ctx_set c w x s) = core s"
  "core (s\<lparr>current := cu\<rparr>) = core s" "core (s\<lparr>next_pid := n\<rparr>) = core s"
  "core (s\<lparr>pcbs := p\<rparr>) = core s" "core (s\<lparr>stacks := st\<rparr>) = core s"
  by (simp_all add: core_def set_pcb_def ctx_set_def)

lemma k_frame_updates [simp]:
  "k_frame s (set_pcb i f t) \<longleftrightarrow> k_frame s t" "k_frame s (ctx_set c w x t) \<longleftrightarrow> k_frame s t"
  "k_frame s (t\<lparr>current := cu\<rparr>) \<longleftrightarrow> k_frame s t" "k_frame s (t\<lparr>next_pid := n\<rparr>) \<longleftrightarrow> k_frame s t"
  "k_frame s (t\<lparr>stacks := st\<rparr>) \<longleftrightarrow> k_frame s t" "k_frame s (t\<lparr>pcbs := ps\<rparr>) \<longleftrightarrow> k_frame s t"
  "k_frame (s\<lparr>pcbs := ps\<rparr>) t \<longleftrightarrow> k_frame s t"
  "k_frame (set_pcb i f s) t \<longleftrightarrow> k_frame s t" "k_frame (ctx_set c w x s) t \<longleftrightarrow> k_frame s t"
  "k_frame (s\<lparr>current := cu\<rparr>) t \<longleftrightarrow> k_frame s t" "k_frame (s\<lparr>next_pid := n\<rparr>) t \<longleftrightarrow> k_frame s t"
  "k_frame (s\<lparr>stacks := st\<rparr>) t \<longleftrightarrow> k_frame s t"
  by (simp_all add: k_frame_def)

lemma k_frame_fields:
  assumes "k_frame s s'"
  shows "inq s' = inq s" "io s' = io s" "mem s' = mem s"
    "current_shms s' = current_shms s" "next_shm s' = next_shm s" "free_ptr s' = free_ptr s"
    "system_time s' = system_time s" "inbuffer s' = inbuffer s" "inlast s' = inlast s"
    "innext s' = innext s" "incount s' = incount s" "outbuffer s' = outbuffer s"
    "outlast s' = outlast s" "outnext s' = outnext s" "outcount s' = outcount s"
    "sending s' = sending s" "pending_requests s' = pending_requests s" "ramdisk s' = ramdisk s"
    "ramdisk_service s' = ramdisk_service s" "pinwheel s' = pinwheel s" "pindex s' = pindex s"
    "hashfcn (queues s' q) = hashfcn (queues s q)" "syscalls s' = syscalls s"
    "isr_table s' = isr_table s"
  using q_frame_fields [OF assms [unfolded k_frame_def]] by (simp_all add: core_def)

lemma kinv_pcb_alloc:
  assumes k: "kinv H F K s" and i: "pcbs_in (q_view s) Free_pcbs = i # is"
  shows "\<exists>s'. pcb_alloc s = Inr (Some i, s') \<and> kinv H (i # F) K s' \<and> k_frame s s' \<and>
     pcbs s' = (pcbs s)(i := (pcbs s i)\<lparr>status := PROC_NEW\<rparr>) \<and> current s' = current s \<and>
     next_pid s' = next_pid s \<and> stacks s' = stacks s \<and>
     q_view s' = (q_view s)(Free_pcbs := tl (q_view s Free_pcbs))"
proof -
  note d = kinvD [OF k] and p = kinv_pools [OF k]
  let ?v = "q_view s" and ?v' = "(q_view s)(Free_pcbs := tl (q_view s Free_pcbs))"
  have "Free_pcbs \<in> set (Free_pcbs # live_queues)" by simp
  from pcbs_in_Cons [OF d(3) this i] obtain ky es where v: "?v Free_pcbs = (ky, Some (Pcb i)) # es"
    by blast
  from pcb_alloc_some [OF p(1)] p(3) i obtain t where t:
    "pcb_alloc s = Inr (Some i, set_pcb i (\<lambda>p. p\<lparr>status := PROC_NEW\<rparr>) t)" "n_free t = Suc (n_free s)"
    "q_frame s t" "q_wf t" "q_view t = ?v'" by metis
  note u = free_pcbs_upd [of ?v "tl (?v Free_pcbs)"]
  have "pcbs_in ?v Free_pcbs = i # pcbs_in ?v' Free_pcbs" by (simp add: pcbs_in_def v)
  then have "owned H (i # F) K ?v' (pcbs t)"
    using d(4) by (simp add: owned_def u q_frame_fields(5) [OF t(3)])
  moreover have "typed_view ?v'" using d(3) set_tl by (rule typed_view_sub)
  moreover have "statuses ?v' (pcbs t)"
    unfolding q_frame_fields(5) [OF t(3)] using d(5) pcbs_in_tl by (rule statuses_sub)
  moreover have "n_free t + n_used ?v' = N_QNODES" using u(2) d(6) t(2) by (simp add: v)
  moreover have "n_other ?v' \<le> OTHER_MAX" using u(3) d(7) by simp
  ultimately have "kinv H (i # F) K t"
    unfolding kinv_def using t(4,5) hashes_frame [OF t(3) d(2)] ready_levels_tl [OF d(8)] by simp
  from kinv_set_fresh [OF this] t q_frame_k_frame [OF t(3)] show ?thesis
    by (auto simp: q_frame_fields [OF t(3)] set_pcb_def)
qed


lemma kinv_pcb_alloc_none:
  "kinv H F K s \<Longrightarrow> pcbs_in (q_view s) Free_pcbs = [] \<Longrightarrow> pcb_alloc s = Inr (None, s)"
  using kinv_pools [of H F K s] by (simp add: pcb_alloc_none)

lemma kinv_pcb_dealloc:
  assumes k0: "kinv H (i # F) K s"
  shows "\<exists>s'. pcb_dealloc i s = Inr (STAT_SUCCESS, s') \<and> kinv H F K s' \<and> k_frame s s' \<and>
     pcbs s' = (pcbs s)(i := (pcbs s i)\<lparr>status := PROC_FREE\<rparr>) \<and> current s' = current s \<and>
     next_pid s' = next_pid s \<and> stacks s' = stacks s \<and>
     q_view s' = (q_view s)(Free_pcbs := q_view s Free_pcbs @ [(0, Some (Pcb i))])"
proof -
  let ?s = "set_pcb i (\<lambda>p. p\<lparr>status := PROC_FREE\<rparr>) s"
  note k = kinv_set_fresh [OF k0, of "\<lambda>p. p\<lparr>status := PROC_FREE\<rparr>"]
  note d = kinvD [OF k]
  let ?v = "q_view s" and ?v' = "(q_view s)(Free_pcbs := q_view s Free_pcbs @ [(0, Some (Pcb i))])"
  have "n_free s \<noteq> 0" using kinv_room [OF k0] by simp
  from pcb_dealloc_ok [OF kinv_pools(1) [OF k0] this, of i] obtain t where t:
    "pcb_dealloc i s = Inr (STAT_SUCCESS, t)" "n_free t = n_free s - 1" "q_frame ?s t" "q_wf t"
    "q_view t = ?v'" by blast
  note u = free_pcbs_upd [of ?v "?v Free_pcbs @ [(0, Some (Pcb i))]"]
  have v: "pcbs_in ?v' Free_pcbs = pcbs_in ?v Free_pcbs @ [i]" by (simp add: pcbs_in_def)
  have "owned H F K ?v' (pcbs t)"
    using d(4) by (simp add: owned_def u v q_frame_fields(5) [OF t(3)])
  moreover have "typed_view ?v'" using d(3) by (auto simp: typed_view_def live_queues_def)
  moreover have "statuses ?v' (pcbs t)" using d(5)
    by (auto simp: q_frame_fields(5) [OF t(3)] statuses_def v)
  moreover have "n_free t + n_used ?v' = N_QNODES" using u(2) d(6) t(2) \<open>n_free s \<noteq> 0\<close> by simp
  moreover have "n_other ?v' \<le> OTHER_MAX" using u(3) d(7) by simp
  moreover have "ready_levels ?v'" using d(8) by (simp add: ready_levels_def)
  ultimately have "kinv H F K t"
    unfolding kinv_def using t(4,5) hashes_frame [OF t(3) d(2)] by simp
  moreover have "k_frame s t" using q_frame_k_frame [OF t(3)] by simp
  ultimately show ?thesis using t
    by (auto simp: q_frame_fields [OF t(3)] set_pcb_def)
qed

lemma kinv_stack_alloc:
  assumes k: "kinv H F K s" and i: "stacks_in (q_view s) = st # sts"
  shows "\<exists>s'. stack_alloc s = Inr (Some st, s') \<and> kinv H F (st # K) s' \<and> q_frame s s' \<and>
     q_view s' = (q_view s)(Free_stacks := tl (q_view s Free_stacks))"
proof -
  note d = kinvD [OF k] and p = kinv_pools [OF k]
  let ?v = "q_view s" and ?v' = "(q_view s)(Free_stacks := tl (q_view s Free_stacks))"
  from stack_alloc_some [OF p(2)] p(4) i obtain t where t:
    "stack_alloc s = Inr (Some st, t)" "n_free t = Suc (n_free s)"
    "q_frame s t" "stack_pool t" "q_view t = ?v'" by metis
  have wf: "q_wf t" using t(4) by (simp add: stack_pool_def typed_queue_def)
  note u = free_stacks_upd [of ?v "tl (?v Free_stacks)"]
  have ne: "?v Free_stacks \<noteq> []" using i by (auto simp: stacks_in_def)
  have "stacks_in ?v' = tl (stacks_in ?v)" by (simp add: stacks_in_def map_tl)
  then have "owned H F (st # K) ?v' (pcbs t)"
    using d(4) i by (simp add: owned_def u q_frame_fields(5) [OF t(3)])
  moreover have "typed_view ?v'" using d(3) set_tl by (rule typed_view_sub)
  moreover have "statuses ?v' (pcbs t)"
    unfolding q_frame_fields(5) [OF t(3)] using d(5) pcbs_in_tl by (rule statuses_sub)
  moreover have "n_free t + n_used ?v' = N_QNODES" using u(2) d(6) t(2) ne
    by (cases "?v Free_stacks") auto
  moreover have "n_other ?v' \<le> OTHER_MAX" using u(3) d(7) by simp
  ultimately have "kinv H F (st # K) t"
    unfolding kinv_def using t(5) wf hashes_frame [OF t(3) d(2)] ready_levels_tl [OF d(8)] by simp
  with t show ?thesis by blast
qed

lemma kinv_stack_alloc_none:
  "kinv H F K s \<Longrightarrow> stacks_in (q_view s) = [] \<Longrightarrow> stack_alloc s = Inr (None, s)"
  using kinv_pools [of H F K s] by (simp add: stack_alloc_none)

lemma kinv_stack_dealloc:
  assumes k: "kinv H F (st # K) s"
  shows "\<exists>s'. stack_dealloc st s = Inr (STAT_SUCCESS, s') \<and> kinv H F K s' \<and> q_frame s s' \<and>
     q_view s' = (q_view s)(Free_stacks := q_view s Free_stacks @ [(0, Some (Stack st))])"
proof -
  note d = kinvD [OF k] and p = kinv_pools [OF k]
  let ?v = "q_view s"
  let ?v' = "(q_view s)(Free_stacks := q_view s Free_stacks @ [(0, Some (Stack st))])"
  have room: "n_free s \<noteq> 0" using kinv_room [OF k] by simp
  from stack_dealloc_ok [OF p(2) room, of st] obtain t where t:
    "stack_dealloc st s = Inr (STAT_SUCCESS, t)" "n_free t = n_free s - 1"
    "q_frame s t" "stack_pool t" "q_view t = ?v'" by blast
  have wf: "q_wf t" using t(4) by (simp add: stack_pool_def typed_queue_def)
  note u = free_stacks_upd [of ?v "?v Free_stacks @ [(0, Some (Stack st))]"]
  have "stacks_in ?v' = stacks_in ?v @ [st]" by (simp add: stacks_in_def)
  then have "owned H F K ?v' (pcbs t)"
    using d(4) by (simp add: owned_def u q_frame_fields(5) [OF t(3)])
  moreover have "typed_view ?v'" using d(3) by (auto simp: typed_view_def live_queues_def)
  moreover have "statuses ?v' (pcbs t)" using d(5)
    by (simp add: q_frame_fields(5) [OF t(3)] statuses_def)
  moreover have "n_free t + n_used ?v' = N_QNODES" using u(2) d(6) t(2) room by simp
  moreover have "n_other ?v' \<le> OTHER_MAX" using u(3) d(7) by simp
  moreover have "ready_levels ?v'" using d(8) by (simp add: ready_levels_def)
  ultimately have "kinv H F K t"
    unfolding kinv_def using t(5) wf hashes_frame [OF t(3) d(2)] by simp
  with t show ?thesis by blast
qed

lemma kinv_perm:
  "mset H = mset H' \<Longrightarrow> mset F = mset F' \<Longrightarrow> mset K = mset K' \<Longrightarrow> kinv H F K s \<longleftrightarrow> kinv H' F' K' s"
  by (simp add: kinv_def owned_def)


section \<open>The other queues\<close>

lemma other_frame:
  assumes k: "kinv H F K s" and q: "q \<in> set other_queues" and ty: "typed_view ((q_view s)(q := es))"
    and s': "q_wf s'" "q_frame s s'" "q_view s' = (q_view s)(q := es)"
    and n: "n_free s' + length es = n_free s + length (q_view s q)"
    and m: "n_other ((q_view s)(q := es)) \<le> OTHER_MAX"
  shows "kinv H F K s'"
proof -
  note d = kinvD [OF k] and u = other_upd [OF q, of "q_view s" es]
  have ni: "Ready l \<noteq> q" for l using live_queues_not(4) [OF q] by metis
  have "owned H F K (q_view s') (pcbs s')"
    using d(4) by (simp add: owned_def s'(3) u q_frame_fields(5) [OF s'(2)])
  moreover have "statuses (q_view s') (pcbs s')"
    using d(5) unfolding statuses_def s'(3) u(4,6) q_frame_fields(5) [OF s'(2)] .
  moreover have "ready_levels (q_view s')" using d(8) ni by (simp add: ready_levels_def s'(3))
  moreover have "n_free s' + n_used (q_view s') = N_QNODES" using u(2) d(6) n by (simp add: s'(3))
  ultimately show ?thesis
    unfolding kinv_def using s' ty m hashes_frame [OF s'(2) d(2)] by simp
qed

lemma kinv_other_remove:
  assumes k: "kinv H F K s" and q: "q \<in> set other_queues" and v: "q_view s q = (ky, p) # es"
  shows "\<exists>s'. q_remove q s = (p, s') \<and> kinv H F K s' \<and> q_frame s s' \<and> q_view s' = (q_view s)(q := es)"
proof -
  note d = kinvD [OF k]
  from q_remove_ok [OF d(1) v] obtain s' where s': "q_remove q s = (p, s')" "q_wf s'" "q_frame s s'"
    "q_view s' = (q_view s)(q := es)" "n_free s' = Suc (n_free s)" by blast
  have "typed_view ((q_view s)(q := es))" using typed_view_sub [OF d(3)] v by (metis fun_upd_apply set_subset_Cons order_refl)
  moreover have "n_other ((q_view s)(q := es)) \<le> OTHER_MAX"
    using other_upd(3) [OF q, of "q_view s" es] d(7) v by simp
  ultimately have "kinv H F K s'" using other_frame [OF k q _ s'(2-4)] v s'(5) by simp
  with s' show ?thesis by blast
qed

lemma kinv_other_insert:
  assumes k: "kinv H F K s" and q: "q \<in> set other_queues" and n: "n_other (q_view s) < OTHER_MAX"
    and ty: "q = Free_shms \<and> p \<in> range (\<lambda>a. Some (Shm a)) \<or>
      q \<noteq> Free_shms \<and> p \<in> range (\<lambda>i. Some (Disk_req i))"
  shows "\<exists>s'. q_insert q p s = Inr (STAT_SUCCESS, s') \<and> kinv H F K s' \<and> q_frame s s' \<and>
    q_view s' = (q_view s)(q := q_view s q @ [(0, p)])"
proof -
  note d = kinvD [OF k]
  have room: "n_free s \<noteq> 0" using kinv_room [OF k] by simp
  have "q_key s q p = Inr 0" "\<not> q_ordered s q"
    using d(2) live_queues_not(4) [OF q] by (auto simp: hashes_ok_def q_key_def q_ordered_def)
  from q_insert_ok [OF d(1) room this(1)] this(2) obtain s' where
    s': "q_insert q p s = Inr (STAT_SUCCESS, s')" "q_wf s'" "q_frame s s'"
      "q_view s' = (q_view s)(q := q_view s q @ [(0, p)])" "n_free s' = n_free s - 1"
    by (auto simp: q_place_def)
  have "typed_view ((q_view s)(q := q_view s q @ [(0, p)]))"
    using d(3) q ty by (auto simp: typed_view_def other_queues_def live_queues_def)
  moreover have "n_other ((q_view s)(q := q_view s q @ [(0, p)])) \<le> OTHER_MAX"
    using other_upd(3) [OF q, of "q_view s" "q_view s q @ [(0, p)]"] n by simp
  ultimately have "kinv H F K s'" using other_frame [OF k q _ s'(2-4)] s'(5) room by simp
  with s' show ?thesis by blast
qed

end
