(* ===== verification/Klibc.thy ===== *)
theory Klibc
  imports Machine
begin

text \<open>
  What the memory routines of klibc.c do, on the byte memory.  Addresses wrap around at
  \<open>2 ^ 32\<close>, so the bytes of a block are those whose distance from its start is less than its
  length.
\<close>

section \<open>Clearing and copying blocks\<close>

text \<open>The distance of \<open>x\<close> from one address, and from the next.\<close>

lemma dist_Suc:
  fixes x a n :: u32
  assumes "n \<noteq> 0"
  shows "unat (x - a) < unat n \<longleftrightarrow> x = a \<or> unat (x - (a + 1)) < unat (n - 1)"
proof -
  have n1: "unat (n - 1) = unat n - 1" "0 < unat n"
    using assms by (simp_all add: unat_minus_one unat_gt_0)
  show ?thesis
  proof (cases "x = a")
    case False
    then have "x - a \<noteq> 0" by simp
    then have "unat (x - a - 1) = unat (x - a) - 1" "0 < unat (x - a)"
      by (simp_all only: unat_minus_one unat_gt_0 not_False_eq_True)
    moreover have e: "x - (a + 1) = x - a - 1" by (simp only: diff_diff_eq)
    ultimately have "unat (x - (a + 1)) = unat (x - a) - 1" "0 < unat (x - a)" unfolding e by blast+
    then show ?thesis using n1 False by auto
  qed (use n1 in simp)
qed

lemma memclr_mem:
  "mem (memclr a n s) x = (if unat (x - a) < unat n then 0 else mem s x)"
proof (induction a n s rule: memclr.induct)
  case (1 a n s)
  show ?case
  proof (cases "n = 0")
    case True
    then show ?thesis by (simp add: memclr.simps)
  next
    case False
    then have "mem (memclr a n s) x = mem (memclr (a + 1) (n - 1) (st8 a 0 s)) x"
      by (simp add: memclr.simps)
    with 1 [OF False] show ?thesis by (simp add: dist_Suc [OF False] st8_def)
  qed
qed

definition disjoint_blocks :: "u32 \<Rightarrow> u32 \<Rightarrow> u32 \<Rightarrow> bool" where
  "disjoint_blocks d a n \<longleftrightarrow> (\<forall>x. unat (x - d) < unat n \<longrightarrow> \<not> unat (x - a) < unat n)"

lemma disjoint_blocks_step:
  assumes "disjoint_blocks d a n" "n \<noteq> 0"
  shows "disjoint_blocks (d + 1) (a + 1) (n - 1)"
  unfolding disjoint_blocks_def
proof (intro allI impI notI)
  fix x assume "unat (x - (d + 1)) < unat (n - 1)" "unat (x - (a + 1)) < unat (n - 1)"
  then have "unat (x - d) < unat n" "unat (x - a) < unat n"
    using dist_Suc [OF assms(2)] by blast+
  then show False using assms(1) by (simp add: disjoint_blocks_def)
qed

lemma memcpy_mem:
  assumes "disjoint_blocks d a n"
  shows "mem (memcpy d a n s) x = (if unat (x - d) < unat n then mem s (a + (x - d)) else mem s x)"
  using assms
proof (induction d a n s rule: memcpy.induct)
  case (1 d a n s)
  show ?case
  proof (cases "n = 0")
    case True
    then show ?thesis by (simp add: memcpy.simps)
  next
    case False
    let ?s = "st8 d (ld8 a s) s"
    have e: "memcpy d a n s = memcpy (d + 1) (a + 1) (n - 1) ?s"
      using False by (simp add: memcpy.simps)
    have IH: "mem (memcpy (d + 1) (a + 1) (n - 1) ?s) x =
      (if unat (x - (d + 1)) < unat (n - 1) then mem ?s (a + 1 + (x - (d + 1))) else mem ?s x)"
      by (rule 1(1) [OF False disjoint_blocks_step [OF 1(2) False]])
    have pos: "0 < unat n" using False by (simp add: unat_gt_0)
    have "mem ?s (a + 1 + (x - (d + 1))) = mem s (a + (x - d))" if "unat (x - (d + 1)) < unat (n - 1)"
    proof -
      have "a + 1 + (x - (d + 1)) = a + (x - d)" by simp
      moreover have "a + (x - d) \<noteq> d"
      proof
        assume "a + (x - d) = d"
        then have "x - d = d - a" by (metis add_diff_cancel_left')
        moreover have "unat (x - d) < unat n" using that dist_Suc [OF False] by blast
        ultimately have "unat (d - a) < unat n" by (simp only:)
        then show False using 1(2) pos by (auto simp: disjoint_blocks_def dest: spec [of _ d])
      qed
      ultimately show ?thesis by (simp add: st8_def)
    qed
    then show ?thesis
      unfolding e IH by (auto simp: dist_Suc [OF False] st8_def ld8_def)
  qed
qed

lemma unat_of_nat_32: "k < 2 ^ 32 \<Longrightarrow> unat (of_nat k :: u32) = k"
  by (simp add: unat_of_nat take_bit_nat_eq_self)

section \<open>Copying strings\<close>

text \<open>Blocks whose starts are far enough from each other in both directions have no byte in common.\<close>

lemma words_apart:
  fixes a b i j n m :: u32
  assumes "n \<le> b - a" "m \<le> a - b" "i < n" "j < m"
  shows "a + i \<noteq> b + j"
proof
  assume eq: "a + i = b + j"
  then have d: "b - a = i - j" "a - b = j - i" by (simp_all add: algebra_simps)
  consider "j \<le> i" | "i \<le> j" by fastforce
  then show False
  proof cases
    case 1
    then have "i - j \<le> i" by (rule word_sub_le)
    then have "i - j < n" using assms(3) by (rule order.strict_trans1)
    then show False using assms(1) d(1) by (metis leD)
  next
    case 2
    then have "j - i \<le> j" by (rule word_sub_le)
    then have "j - i < m" using assms(4) by (rule order.strict_trans1)
    then show False using assms(2) d(2) by (metis leD)
  qed
qed

lemma disjoint_blocksI: "n \<le> b - a \<Longrightarrow> n \<le> a - b \<Longrightarrow> disjoint_blocks a b n"
  using words_apart [of n b a n] unfolding disjoint_blocks_def
  by (metis add.commute diff_add_cancel word_less_nat_alt)

text \<open>The string at an address: the bytes before the first null byte.\<close>

definition cstring :: "u32 \<Rightarrow> u8 list \<Rightarrow> kstate \<Rightarrow> bool" where
  "cstring a cs s \<longleftrightarrow> 0 \<notin> set cs \<and>
     (\<forall>k < length cs. mem s (a + of_nat k) = cs ! k) \<and> mem s (a + of_nat (length cs)) = 0"

lemma cstring_Nil: "cstring a [] s \<longleftrightarrow> mem s a = 0"
  by (simp add: cstring_def)

lemma cstring_Cons:
  "cstring a (c # cs) s \<longleftrightarrow> c \<noteq> 0 \<and> mem s a = c \<and> cstring (a + 1) cs s"
proof -
  have "(\<forall>k < Suc n. P k) \<longleftrightarrow> P 0 \<and> (\<forall>k < n. P (Suc k))" for n and P :: "nat \<Rightarrow> bool"
    by (auto simp: less_Suc_eq_0_disj)
  then show ?thesis by (auto simp: cstring_def add.assoc)
qed

text \<open>
  A copy to a place that does not overlap the string ends behind the copied null byte, puts
  the string there and changes nothing else.
\<close>

lemma strcpy_ok:
  assumes "cstring src cs s" "length cs < fuel" "length cs < 2 ^ 32"
    and "disjoint_blocks dst src (of_nat (Suc (length cs)))" "Suc (length cs) < 2 ^ 32"
  shows "\<exists>s'. strcpy fuel dst src s = Inr (dst + of_nat (length cs) + 1, s') \<and> cstring dst cs s' \<and>
    (\<forall>x. \<not> unat (x - dst) < Suc (length cs) \<longrightarrow> mem s' x = mem s x) \<and> s' = s\<lparr>mem := mem s'\<rparr>"
  using assms
proof (induction cs arbitrary: fuel dst src s)
  case Nil
  then obtain f where f: "fuel = Suc f" by (cases fuel) auto
  have z: "mem s src = 0" using Nil by (simp add: cstring_Nil)
  have "unat (x - dst) < 1 \<longleftrightarrow> x = dst" for x
    by (metis diff_self eq_iff_diff_eq_0 less_one unat_eq_zero unat_0)
  then show ?case using f z by (auto simp: Let_def ld8_def st8_def cstring_Nil)
next
  case (Cons c cs)
  then obtain f where f: "fuel = Suc f" "length cs < f" by (cases fuel) auto
  let ?n = "of_nat (Suc (length (c # cs))) :: u32"
  let ?s = "st8 dst c s"
  have c: "c \<noteq> 0" "mem s src = c" "cstring (src + 1) cs s" using Cons.prems(1) by (simp_all add: cstring_Cons)
  have n: "unat ?n = Suc (length (c # cs))" "?n - 1 = of_nat (Suc (length cs))"
    using unat_of_nat_32 [OF Cons.prems(5)] by simp_all
  have n0: "?n \<noteq> 0" using n(1) by (metis nat.distinct(1) unat_0)
  have dj: "disjoint_blocks (dst + 1) (src + 1) (of_nat (Suc (length cs)))"
    using disjoint_blocks_step [OF Cons.prems(4) n0] n(2) by simp
  have "dst \<noteq> src + of_nat k" if "k < Suc (length (c # cs))" for k
  proof
    assume d: "dst = src + of_nat k"
    have "unat (of_nat k :: u32) = k" using that Cons.prems(5) by (simp add: unat_of_nat take_bit_nat_eq_self)
    then have "unat (dst - src) < unat ?n" using that n(1) d by simp
    then show False using Cons.prems(4) n(1) by (auto simp: disjoint_blocks_def dest: spec [of _ dst])
  qed note sep = this
  have "cstring (src + 1) cs ?s"
  proof -
    have "mem ?s (src + 1 + of_nat k) = mem s (src + 1 + of_nat k)" if "k \<le> length cs" for k
      using sep [of "Suc k"] that by (auto simp: st8_def add_ac)
    then show ?thesis using c(3) by (simp add: cstring_def)
  qed
  from Cons.IH [OF this f(2) _ dj] Cons.prems(3,5) obtain s' where
    s': "strcpy f (dst + 1) (src + 1) ?s = Inr (dst + 1 + of_nat (length cs) + 1, s')"
      "cstring (dst + 1) cs s'" "\<And>x. \<not> unat (x - (dst + 1)) < Suc (length cs) \<Longrightarrow> mem s' x = mem ?s x"
      "s' = ?s\<lparr>mem := mem s'\<rparr>" by auto
  have "Suc (length cs) < 2 ^ 32" using Cons.prems(5) by simp
  then have nn: "unat (of_nat (Suc (length cs)) :: u32) = Suc (length cs)" by (rule unat_of_nat_32)
  have dist: "unat (x - dst) < Suc (length (c # cs)) \<longleftrightarrow> x = dst \<or> unat (x - (dst + 1)) < Suc (length cs)" for x
    using dist_Suc [OF n0, of x dst] n nn by simp
  have "\<not> unat (dst - (dst + 1)) < Suc (length cs)"
  proof -
    have "dst - (dst + 1) = -1" by simp
    moreover have "unat (-1 :: u32) = 2 ^ 32 - 1" by (simp add: unsigned_minus_1_eq_mask mask_eq_exp_minus_1)
    ultimately show ?thesis using Cons.prems(5) by simp
  qed
  then have "mem s' dst = c" using s'(3) by (simp add: st8_def)
  then have "cstring dst (c # cs) s'" using s'(2) c(1) by (simp add: cstring_Cons)
  moreover have "mem s' x = mem s x" if "\<not> unat (x - dst) < Suc (length (c # cs))" for x
    using that dist [of x] s'(3) [of x] by (auto simp: st8_def)
  moreover have "s' = s\<lparr>mem := mem s'\<rparr>" using s'(4) by (simp add: st8_def)
  moreover have "strcpy fuel dst src s = Inr (dst + of_nat (length (c # cs)) + 1, s')"
    using s'(1) f(1) c by (simp add: Let_def ld8_def add_ac)
  ultimately show ?case by blast
qed

end
