(* ===== verification/Handles.thy ===== *)
theory Handles
  imports Machine Chains
begin

text \<open>
  The two lists of free structs that are linked through the structs themselves: the disk
  requests of disk.c and the device handles of device.c.
\<close>

section \<open>Disk requests\<close>

definition disk_dealloc_request :: "nat option \<Rightarrow> kstate \<Rightarrow> kstate" where
  "disk_dealloc_request dr s =
     (case dr of
        None \<Rightarrow> s
      | Some d \<Rightarrow>
          let s = set_request d (\<lambda>r. r\<lparr>dr_next := free_disk_requests s\<rparr>) s
          in s\<lparr>free_disk_requests := Some d\<rparr>)"

definition disk_alloc_request :: "kstate \<Rightarrow> nat option \<times> kstate" where
  "disk_alloc_request s =
     (case free_disk_requests s of
        None \<Rightarrow> (None, s)
      | Some d \<Rightarrow>
          let s = s\<lparr>free_disk_requests := dr_next (pending_requests s d)\<rparr>;
              s = set_request d (\<lambda>r. r\<lparr>dr_cmd := 0, dr_status := 0, dr_lba := 0, dr_nblocks := 0,
                                       dr_buffer := 0, dr_next := None\<rparr>) s
          in (Some d, s))"

section \<open>Device handles\<close>

definition dev_dealloc_handle :: "nat option \<Rightarrow> kstate \<Rightarrow> kstate" where
  "dev_dealloc_handle dev s =
     (case dev of
        None \<Rightarrow> s
      | Some d \<Rightarrow>
          let s = set_device d (\<lambda>h. h\<lparr>dev_next := free_device_handles s\<rparr>) s
          in s\<lparr>free_device_handles := Some d\<rparr>)"

definition dev_alloc_handle :: "kstate \<Rightarrow> nat option \<times> kstate" where
  "dev_alloc_handle s =
     (case free_device_handles s of
        None \<Rightarrow> (None, s)
      | Some d \<Rightarrow>
          let s = s\<lparr>free_device_handles := dev_next (device_handles s d)\<rparr>;
              s = set_device d (\<lambda>h. h\<lparr>dev_type := 0, dev_identifier := 0, dev_next := None\<rparr>) s
          in (Some d, s))"

section \<open>Free lists\<close>

definition request_links :: "kstate \<Rightarrow> nat \<Rightarrow> nat option" where
  "request_links s = (\<lambda>d. dr_next (pending_requests s d))"

definition handle_links :: "kstate \<Rightarrow> nat \<Rightarrow> nat option" where
  "handle_links s = (\<lambda>d. dev_next (device_handles s d))"

interpretation req: free_list free_disk_requests request_links "\<lambda>d. disk_dealloc_request (Some d)"
  disk_alloc_request
proof (unfold_locales, goal_cases)
  case (2 n s) show ?case by (rule ext) (simp add: disk_dealloc_request_def request_links_def set_request_def Let_def)
next
  case (6 s n) then show ?case by (intro ext) (simp add: disk_alloc_request_def request_links_def set_request_def)
qed (simp_all add: disk_dealloc_request_def disk_alloc_request_def Let_def request_links_def set_request_def)

interpretation dev: free_list free_device_handles handle_links "\<lambda>d. dev_dealloc_handle (Some d)"
  dev_alloc_handle
proof (unfold_locales, goal_cases)
  case (2 n s) show ?case by (rule ext) (simp add: dev_dealloc_handle_def handle_links_def set_device_def Let_def)
next
  case (6 s n) then show ?case by (intro ext) (simp add: dev_alloc_handle_def handle_links_def set_device_def)
qed (simp_all add: dev_dealloc_handle_def dev_alloc_handle_def Let_def handle_links_def set_device_def)

end
