(* ===== verification/Ramdisk.thy ===== *)
theory Ramdisk
  imports Kernel_Inv Klibc Handles
begin

text \<open>
  ramdisk.c: the disk in memory, and the requests to read and write it.  The disk is its own
  array; a copy that leaves it is the outcome \<open>Overrun\<close>.
\<close>

section \<open>The code\<close>

abbreviation (input) DEV_RAMDISK :: u8 where "DEV_RAMDISK \<equiv> 1"
abbreviation (input) DEV_TYPE_BLOCK :: u8 where "DEV_TYPE_BLOCK \<equiv> 2"
abbreviation (input) RAMDISK_SIZE :: nat where "RAMDISK_SIZE \<equiv> 10240"

definition rd_open :: "nat option \<Rightarrow> kstate \<Rightarrow> u8 \<times> kstate" where
  "rd_open dev s =
     (case dev of
        None \<Rightarrow> (-1, c_puts ''ERROR: ramdisk: open called with null device pointer\<newline>'' s)
      | Some d \<Rightarrow>
          let s = set_device d (\<lambda>h. h\<lparr>dev_type := DEV_TYPE_BLOCK\<rparr>) s;
              s = set_device d (\<lambda>h. h\<lparr>dev_identifier := DEV_RAMDISK\<rparr>) s;
              s = set_device d (\<lambda>h. h\<lparr>dev_read := Some Rd_read_placeholder\<rparr>) s;
              s = set_device d (\<lambda>h. h\<lparr>dev_write := Some Rd_write_placeholder\<rparr>) s;
              s = set_device d (\<lambda>h. h\<lparr>dev_ctrl := Some Rd_ctrl\<rparr>) s
          in (0, s))"

definition rd_close :: "nat option \<Rightarrow> kstate \<Rightarrow> kstate outcome" where
  "rd_close dev s =
     bindE (deref dev) (\<lambda>d.
       let s = set_device d (\<lambda>h. h\<lparr>dev_type := 0\<rparr>) s;
           s = set_device d (\<lambda>h. h\<lparr>dev_identifier := 0\<rparr>) s;
           s = set_device d (\<lambda>h. h\<lparr>dev_read := None\<rparr>) s;
           s = set_device d (\<lambda>h. h\<lparr>dev_write := None\<rparr>) s;
           s = set_device d (\<lambda>h. h\<lparr>dev_ctrl := None\<rparr>) s
       in Inr (dev_dealloc_handle dev s))"

text \<open>
  A request.  The range check compares bytes with blocks and takes the address of the disk
  off the block number.
\<close>

definition rd_request :: "linkage \<Rightarrow> nat option \<Rightarrow> u8 kop" where
  "rd_request lk request s =
     (case request of
        None \<Rightarrow> Inr (-1, c_puts ''ERROR: ramdisk: null disk request pointer\<newline>'' s)
      | Some dr \<Rightarrow>
          let r = pending_requests s dr in
          if RD_MAX_LBA - (dr_lba r - ramdisk_addr lk) < dr_nblocks r * DISK_BLOCK_SIZE then
            let s = set_request dr (\<lambda>r. r\<lparr>dr_status := DISK_ERR_INVALID_REQ_SIZE\<rparr>) s;
                s = c_puts ''ERROR: dev_ramdisk: invalid request size\<newline>'' s
            in Inr (dr_status (pending_requests s dr), s)
          else if dr_cmd r = DISK_CMD_READ then
            let s = set_request dr (\<lambda>r. r\<lparr>dr_status := DISK_STATUS_READ_PENDING\<rparr>) s in
            bindE (deref (current s)) (\<lambda>cur.
              let s = set_pcb cur (\<lambda>p. p\<lparr>pending_request := Some dr\<rparr>) s in
              bindE (q_insert Ramdisk_io_pending (Some (Disk_req dr)) s) (\<lambda>(stat, s).
                let s = (if stat = STAT_ALLOC_FAIL then
                           let s = set_request dr (\<lambda>r. r\<lparr>dr_status := DISK_ERR_IO_QUEUE_INSERT\<rparr>) s
                           in c_puts ''ERROR: dev_ramdisk: failed insertion into disk io queue\<newline>'' s
                         else s) in
                bindE (deref (current s)) (\<lambda>cur.
                  bindE (q_insert Blocked_requests (Some (Pcb cur)) s) (\<lambda>(stat, s).
                    let s = (if stat = STAT_ALLOC_FAIL then
                               c_puts ''ERROR: ramdisk: failed insertion into blocked requests queue\<newline>'' s
                             else s)
                    in Inr (dr_status (pending_requests s dr), s)))))
          else if dr_cmd r = DISK_CMD_WRITE then
            let s = set_request dr (\<lambda>r. r\<lparr>dr_status := DISK_STATUS_WRITE_PENDING\<rparr>) s in
            bindE (deref (current s)) (\<lambda>cur.
              let s = set_pcb cur (\<lambda>p. p\<lparr>pending_request := Some dr\<rparr>) s in
              bindE (q_insert Ramdisk_io_pending (Some (Disk_req dr)) s) (\<lambda>(stat, s).
                let s = (if stat = STAT_ALLOC_FAIL then
                           let s = set_request dr (\<lambda>r. r\<lparr>dr_status := DISK_ERR_IO_QUEUE_INSERT\<rparr>) s
                           in c_puts ''ERROR: dev_ramdisk: failed insertion into disk io queue\<newline>'' s
                         else s)
                in Inr (dr_status (pending_requests s dr), s)))
          else
            let s = set_request dr (\<lambda>r. r\<lparr>dr_status := DISK_ERR_INVALID_CMD\<rparr>) s;
                s = c_puts ''ERROR: dev_ramdisk: invalid command\<newline>'' s
            in Inr (dr_status (pending_requests s dr), s))"

definition rd_ctrl :: "linkage \<Rightarrow> u32 \<Rightarrow> nat option \<Rightarrow> u32 kop" where
  "rd_ctrl lk cmd arg s =
     (if cmd = DISK_CMD_REQUEST then
        case arg of
          None \<Rightarrow> Inr (-1, c_puts ''ERROR: ramdisk: ctrl called with a null argument\<newline>'' s)
        | Some dr \<Rightarrow> bindE (rd_request lk (Some dr) s) (\<lambda>(r, s). Inr (scast r, s))
      else Inr (-1, c_puts ''ERROR: ramdisk: invalid ctrl command\<newline>'' s))"

definition rd_read_placeholder :: "u32 \<Rightarrow> u32 \<Rightarrow> kstate \<Rightarrow> u32 \<times> kstate" where
  "rd_read_placeholder buf sz s =
     (-1, c_puts ''ERROR: ramdisk: must use request interface for reads\<newline>'' s)"

definition rd_write_placeholder :: "u32 \<Rightarrow> u32 \<Rightarrow> kstate \<Rightarrow> u32 \<times> kstate" where
  "rd_write_placeholder buf sz s =
     (-1, c_puts ''ERROR: ramdisk: must use request interface for writes\<newline>'' s)"

text \<open>The \<open>_memcpy\<close> calls of the two loops, between the disk and the byte memory.\<close>

fun ramdisk_out :: "nat \<Rightarrow> u32 \<Rightarrow> nat \<Rightarrow> kstate \<Rightarrow> kstate outcome" where
  "ramdisk_out 0 dst i s = Inr s"
| "ramdisk_out (Suc n) dst i s =
     (if i < RAMDISK_SIZE then ramdisk_out n (dst + 1) (i + 1) (st8 dst (ramdisk s i) s)
      else Inl (Overrun ''ramdisk''))"

fun ramdisk_in :: "nat \<Rightarrow> nat \<Rightarrow> u32 \<Rightarrow> kstate \<Rightarrow> kstate outcome" where
  "ramdisk_in 0 i src s = Inr s"
| "ramdisk_in (Suc n) i src s =
     (if i < RAMDISK_SIZE then
        ramdisk_in n (i + 1) (src + 1) (s\<lparr>ramdisk := (ramdisk s)(i := ld8 src s)\<rparr>)
      else Inl (Overrun ''ramdisk''))"

text \<open>
  The loops.  Every round is at another block of the disk's twenty or ends in \<open>Overrun\<close>, so
  twenty-two rounds are enough.
\<close>

fun rd_read_loop :: "nat \<Rightarrow> u32 \<Rightarrow> u32 \<Rightarrow> u32 \<Rightarrow> u32 \<Rightarrow> u32 kop" where
  "rd_read_loop 0 block lba nblocks buffer s = Inl Hang"
| "rd_read_loop (Suc fuel) block lba nblocks buffer s =
     (if block < lba + nblocks * DISK_BLOCK_SIZE then
        bindE (ramdisk_out 512 (buffer + (block - lba)) (unat block) s)
          (rd_read_loop fuel (block + DISK_BLOCK_SIZE) lba nblocks buffer)
      else Inr (block, s))"

fun rd_write_loop :: "nat \<Rightarrow> u32 \<Rightarrow> u32 \<Rightarrow> u32 \<Rightarrow> u32 \<Rightarrow> u32 kop" where
  "rd_write_loop 0 block lba nblocks buffer s = Inl Hang"
| "rd_write_loop (Suc fuel) block lba nblocks buffer s =
     (if block < lba + nblocks * DISK_BLOCK_SIZE then
        bindE (ramdisk_in 512 (unat block) (buffer + (block - lba)) s)
          (rd_write_loop fuel (block + DISK_BLOCK_SIZE) lba nblocks buffer)
      else Inr (block, s))"

definition rd_read :: "u32 \<Rightarrow> u32 \<Rightarrow> u32 \<Rightarrow> u32 kop" where
  "rd_read lba nblocks buffer s =
     bindE (rd_read_loop 22 lba lba nblocks buffer s) (\<lambda>(block, s).
       Inr ((block - lba) * DISK_BLOCK_SIZE, s))"

definition rd_write :: "u32 \<Rightarrow> u32 \<Rightarrow> u32 \<Rightarrow> u32 kop" where
  "rd_write lba nblocks buffer s =
     bindE (rd_write_loop 22 lba lba nblocks buffer s) (\<lambda>(block, s).
       Inr ((block - lba) * DISK_BLOCK_SIZE, s))"

section \<open>Copying\<close>

lemma ramdisk_out_ok:
  assumes "i + n \<le> RAMDISK_SIZE" "n < 2 ^ 32"
  shows "\<exists>s'. ramdisk_out n dst i s = Inr s' \<and> ramdisk s' = ramdisk s \<and> s' = s\<lparr>mem := mem s'\<rparr> \<and>
    (\<forall>x. mem s' x = (if unat (x - dst) < n then ramdisk s (i + unat (x - dst)) else mem s x))"
  using assms
proof (induction n arbitrary: dst i s)
  case (Suc n)
  let ?s = "st8 dst (ramdisk s i) s"
  have "i + 1 + n \<le> RAMDISK_SIZE" "n < 2 ^ 32" using Suc.prems by simp_all
  from Suc.IH [OF this, of "dst + 1" ?s] obtain s' where
    s': "ramdisk_out n (dst + 1) (i + 1) ?s = Inr s'" "ramdisk s' = ramdisk ?s" "s' = ?s\<lparr>mem := mem s'\<rparr>"
    "\<And>x. mem s' x = (if unat (x - (dst + 1)) < n then ramdisk ?s (i + 1 + unat (x - (dst + 1))) else mem ?s x)"
    by blast
  have n: "unat (of_nat (Suc n) :: u32) = Suc n" using Suc.prems(2) by (rule unat_of_nat_32)
  then have n0: "(of_nat (Suc n) :: u32) \<noteq> 0" by (metis nat.distinct(1) unat_0)
  have "(of_nat (Suc n) - 1 :: u32) = of_nat n" by simp
  then have n1: "unat (of_nat (Suc n) - 1 :: u32) = n" using unat_of_nat_32 [of n] Suc.prems(2) by simp
  have d: "unat (x - dst) < Suc n \<longleftrightarrow> x = dst \<or> unat (x - (dst + 1)) < n" for x
    using dist_Suc [OF n0, of x dst] n n1 by simp
  have e: "unat (x - dst) = Suc (unat (x - (dst + 1)))" if "x \<noteq> dst" for x
  proof -
    have "x - dst \<noteq> 0" using that by simp
    then have "unat (x - dst - 1) = unat (x - dst) - 1" "0 < unat (x - dst)"
      by (simp_all only: unat_minus_one unat_gt_0 not_False_eq_True)
    then show ?thesis by (simp only: diff_diff_eq)
  qed
  have self: "\<not> unat (dst - (dst + 1)) < n"
  proof -
    have "dst - (dst + 1) = -1" by simp
    moreover have "unat (-1 :: u32) = 2 ^ 32 - 1" by (simp add: unsigned_minus_1_eq_mask mask_eq_exp_minus_1)
    ultimately show ?thesis using Suc.prems(2) by simp
  qed
  have "mem s' x = (if unat (x - dst) < Suc n then ramdisk s (i + unat (x - dst)) else mem s x)" for x
    using s'(4) [of x] d [of x] e [of x] self by (cases "x = dst") (auto simp: st8_def)
  moreover have "s' = s\<lparr>mem := mem s'\<rparr>" using s'(3) by (simp add: st8_def)
  ultimately show ?case using s'(1,2) Suc.prems(1) by (auto simp: st8_def)
qed simp

lemma ramdisk_in_ok:
  assumes "i + n \<le> RAMDISK_SIZE"
  shows "\<exists>s'. ramdisk_in n i src s = Inr s' \<and> s' = s\<lparr>ramdisk := ramdisk s'\<rparr> \<and>
    (\<forall>x. ramdisk s' x = (if i \<le> x \<and> x < i + n then mem s (src + of_nat (x - i)) else ramdisk s x))"
  using assms
proof (induction n arbitrary: i src s)
  case 0
  then show ?case by (intro exI [of _ s]) auto
next
  case (Suc n)
  let ?s = "s\<lparr>ramdisk := (ramdisk s)(i := ld8 src s)\<rparr>"
  have "i + 1 + n \<le> RAMDISK_SIZE" using Suc.prems by simp
  from Suc.IH [OF this, of "src + 1" ?s] obtain s' where
    s': "ramdisk_in n (i + 1) (src + 1) ?s = Inr s'" "s' = ?s\<lparr>ramdisk := ramdisk s'\<rparr>"
    "\<And>x. ramdisk s' x = (if i + 1 \<le> x \<and> x < i + 1 + n then mem ?s (src + 1 + of_nat (x - (i + 1))) else ramdisk ?s x)"
    by blast
  have e: "src + 1 + of_nat (x - (i + 1)) = src + of_nat (x - i)" if "i + 1 \<le> x" for x
  proof -
    have "x - i = Suc (x - (i + 1))" using that by simp
    then show ?thesis by (simp only: of_nat_Suc add.assoc)
  qed
  have "ramdisk s' x = (if i \<le> x \<and> x < i + Suc n then mem s (src + of_nat (x - i)) else ramdisk s x)" for x
    using s'(3) [of x] e [of x] by (cases "x = i") (auto simp: ld8_def)
  moreover have "s' = s\<lparr>ramdisk := ramdisk s'\<rparr>" using s'(2) by simp
  ultimately show ?case using s'(1) Suc.prems by auto
qed

section \<open>Reading and writing blocks\<close>

text \<open>
  A range of blocks that lies in the disk: \<open>lba\<close> is the offset of its first byte.
\<close>

abbreviation (input) BLOCK :: nat where "BLOCK \<equiv> 512"

definition on_disk :: "u32 \<Rightarrow> u32 \<Rightarrow> bool" where
  "on_disk lba nblocks \<longleftrightarrow> unat lba + unat nblocks * BLOCK \<le> RAMDISK_SIZE"

lemma on_diskD:
  assumes "on_disk lba nblocks"
  shows "unat (lba + nblocks * DISK_BLOCK_SIZE) = unat lba + unat nblocks * BLOCK"
    "k \<le> unat nblocks \<Longrightarrow> unat (lba + of_nat (BLOCK * k)) = unat lba + BLOCK * k"
    "k \<le> unat nblocks \<Longrightarrow> unat (of_nat (BLOCK * k) :: u32) = BLOCK * k"
proof -
  show n: "k \<le> unat nblocks \<Longrightarrow> unat (of_nat (BLOCK * k) :: u32) = BLOCK * k" for k
    using assms by (intro unat_of_nat_32) (simp add: on_disk_def)
  show k: "k \<le> unat nblocks \<Longrightarrow> unat (lba + of_nat (BLOCK * k)) = unat lba + BLOCK * k" for k
  proof -
    assume "k \<le> unat nblocks"
    moreover from this n have "unat (of_nat (BLOCK * k) :: u32) = BLOCK * k" by blast
    ultimately show ?thesis using assms by (subst unat_add_lem [THEN iffD1]) (auto simp: on_disk_def)
  qed
  have "nblocks * DISK_BLOCK_SIZE = of_nat (BLOCK * unat nblocks)" by simp
  then show "unat (lba + nblocks * DISK_BLOCK_SIZE) = unat lba + unat nblocks * BLOCK"
    using k [of "unat nblocks"] by (simp only: le_refl mult.commute)
qed

lemma block_step:
  "unat nblocks = k + Suc m \<Longrightarrow> lba + of_nat (BLOCK * k) + DISK_BLOCK_SIZE = lba + (of_nat (BLOCK * Suc k) :: u32)"
  by (simp add: algebra_simps)

lemma block_less:
  assumes "on_disk lba nblocks" "k \<le> unat nblocks"
  shows "lba + of_nat (BLOCK * k) < lba + nblocks * DISK_BLOCK_SIZE \<longleftrightarrow> k < unat nblocks"
  unfolding word_less_nat_alt on_diskD(1) [OF assms(1)] on_diskD(2) [OF assms] by simp

text \<open>The distance of an address from a buffer, and from a point inside it.\<close>

lemma dist_inside:
  fixes x b :: u32
  assumes "d + n \<le> RAMDISK_SIZE"
  shows "unat (x - (b + of_nat d)) < n \<longleftrightarrow> d \<le> unat (x - b) \<and> unat (x - b) < d + n"
    and "d \<le> unat (x - b) \<Longrightarrow> unat (x - (b + of_nat d)) = unat (x - b) - d"
proof -
  have d: "unat (of_nat d :: u32) = d" using assms by (intro unat_of_nat_32) simp
  show "d \<le> unat (x - b) \<Longrightarrow> unat (x - (b + of_nat d)) = unat (x - b) - d"
    unfolding diff_diff_add [symmetric] unat_sub_if_size d by simp
  show "unat (x - (b + of_nat d)) < n \<longleftrightarrow> d \<le> unat (x - b) \<and> unat (x - b) < d + n"
    unfolding diff_diff_add [symmetric] unat_sub_if_size d using assms by (auto simp: word_size)
qed

lemma mem_update_trans:
  "t = s\<lparr>mem := mem t\<rparr> \<Longrightarrow> u = t\<lparr>mem := mem u\<rparr> \<Longrightarrow> u = s\<lparr>mem := mem u\<rparr>" for s :: kstate
  by (cases s; cases t; cases u) simp

lemma ramdisk_update_trans:
  "t = s\<lparr>ramdisk := ramdisk t\<rparr> \<Longrightarrow> u = t\<lparr>ramdisk := ramdisk u\<rparr> \<Longrightarrow> u = s\<lparr>ramdisk := ramdisk u\<rparr>" for s :: kstate
  by (cases s; cases t; cases u) simp

lemma rd_read_loop_ok:
  assumes d: "on_disk lba nblocks" and n: "unat nblocks = k + m" and f: "m < fuel"
  shows "\<exists>s'. rd_read_loop fuel (lba + of_nat (BLOCK * k)) lba nblocks buffer s =
       Inr (lba + nblocks * DISK_BLOCK_SIZE, s') \<and> ramdisk s' = ramdisk s \<and> s' = s\<lparr>mem := mem s'\<rparr> \<and>
     (\<forall>x. mem s' x = (if BLOCK * k \<le> unat (x - buffer) \<and> unat (x - buffer) < BLOCK * unat nblocks
        then ramdisk s (unat lba + unat (x - buffer)) else mem s x))"
  using n f
proof (induction m arbitrary: fuel k s)
  case 0
  then obtain f where "fuel = Suc f" by (cases fuel) auto
  with 0 block_less [OF d, of k] show ?case by (intro exI [of _ s]) (auto simp: ac_simps)
next
  case (Suc m)
  then obtain f where f: "fuel = Suc f" "m < f" by (cases fuel) auto
  from Suc.prems have k: "k < unat nblocks" by simp
  then have "BLOCK * Suc k \<le> BLOCK * unat nblocks" by (intro mult_le_mono2) simp
  then have room: "unat lba + BLOCK * k + BLOCK \<le> RAMDISK_SIZE" using d by (simp add: on_disk_def)
  from ramdisk_out_ok [of "unat lba + BLOCK * k" 512 "buffer + of_nat (BLOCK * k)" s] room
  obtain t where t: "ramdisk_out 512 (buffer + of_nat (BLOCK * k)) (unat lba + BLOCK * k) s = Inr t"
    "ramdisk t = ramdisk s" "t = s\<lparr>mem := mem t\<rparr>"
    "\<And>x. mem t x = (if unat (x - (buffer + of_nat (BLOCK * k))) < 512
        then ramdisk s (unat lba + BLOCK * k + unat (x - (buffer + of_nat (BLOCK * k)))) else mem s x)"
    by auto
  have tx: "mem t x = (if BLOCK * k \<le> unat (x - buffer) \<and> unat (x - buffer) < BLOCK * k + BLOCK
        then ramdisk s (unat lba + unat (x - buffer)) else mem s x)" for x
    unfolding t(4) using dist_inside [of "BLOCK * k" BLOCK x buffer] room by auto
  from Suc.IH [of "Suc k" f t] Suc.prems f(2) obtain s' where
    s': "rd_read_loop f (lba + of_nat (BLOCK * Suc k)) lba nblocks buffer t =
       Inr (lba + nblocks * DISK_BLOCK_SIZE, s')" "ramdisk s' = ramdisk t" "s' = t\<lparr>mem := mem s'\<rparr>"
    "\<And>x. mem s' x = (if BLOCK * Suc k \<le> unat (x - buffer) \<and> unat (x - buffer) < BLOCK * unat nblocks
        then ramdisk t (unat lba + unat (x - buffer)) else mem t x)" by auto
  have "rd_read_loop fuel (lba + of_nat (BLOCK * k)) lba nblocks buffer s =
      bindE (ramdisk_out 512 (buffer + of_nat (BLOCK * k)) (unat lba + BLOCK * k) s)
        (rd_read_loop f (lba + of_nat (BLOCK * k) + DISK_BLOCK_SIZE) lba nblocks buffer)"
    unfolding f(1) rd_read_loop.simps using block_less [OF d, of k] k on_diskD(2) [OF d, of k] by simp
  also have "\<dots> = Inr (lba + nblocks * DISK_BLOCK_SIZE, s')"
    unfolding t(1) bindE_simps block_step [OF Suc.prems(1)] by (fact s'(1))
  finally have run: "rd_read_loop fuel (lba + of_nat (BLOCK * k)) lba nblocks buffer s =
      Inr (lba + nblocks * DISK_BLOCK_SIZE, s')" .
  have "mem s' x = (if BLOCK * k \<le> unat (x - buffer) \<and> unat (x - buffer) < BLOCK * unat nblocks
        then ramdisk s (unat lba + unat (x - buffer)) else mem s x)" for x
    unfolding s'(4) tx t(2) using k \<open>BLOCK * Suc k \<le> BLOCK * unat nblocks\<close> by auto
  moreover have "s' = s\<lparr>mem := mem s'\<rparr>" using t(3) s'(3) by (rule mem_update_trans)
  moreover have "ramdisk s' = ramdisk s" using s'(2) t(2) by simp
  ultimately show ?case using run by blast
qed

lemma rd_write_loop_ok:
  assumes d: "on_disk lba nblocks" and n: "unat nblocks = k + m" and f: "m < fuel"
  shows "\<exists>s'. rd_write_loop fuel (lba + of_nat (BLOCK * k)) lba nblocks buffer s =
       Inr (lba + nblocks * DISK_BLOCK_SIZE, s') \<and> s' = s\<lparr>ramdisk := ramdisk s'\<rparr> \<and>
     (\<forall>x. ramdisk s' x = (if unat lba + BLOCK * k \<le> x \<and> x < unat lba + BLOCK * unat nblocks
        then mem s (buffer + of_nat (x - unat lba)) else ramdisk s x))"
  using n f
proof (induction m arbitrary: fuel k s)
  case 0
  then obtain f where "fuel = Suc f" by (cases fuel) auto
  with 0 block_less [OF d, of k] show ?case by (intro exI [of _ s]) (auto simp: ac_simps)
next
  case (Suc m)
  then obtain f where f: "fuel = Suc f" "m < f" by (cases fuel) auto
  from Suc.prems have k: "k < unat nblocks" by simp
  then have le: "BLOCK * Suc k \<le> BLOCK * unat nblocks" by (intro mult_le_mono2) simp
  then have room: "unat lba + BLOCK * k + BLOCK \<le> RAMDISK_SIZE" using d by (simp add: on_disk_def)
  from ramdisk_in_ok [of "unat lba + BLOCK * k" 512 "buffer + of_nat (BLOCK * k)" s] room
  obtain t where t: "ramdisk_in 512 (unat lba + BLOCK * k) (buffer + of_nat (BLOCK * k)) s = Inr t"
    "t = s\<lparr>ramdisk := ramdisk t\<rparr>"
    "\<And>x. ramdisk t x = (if unat lba + BLOCK * k \<le> x \<and> x < unat lba + BLOCK * k + BLOCK
        then mem s (buffer + of_nat (BLOCK * k) + of_nat (x - (unat lba + BLOCK * k))) else ramdisk s x)"
    by auto
  have a: "buffer + of_nat (BLOCK * k) + of_nat (x - (unat lba + BLOCK * k)) = buffer + of_nat (x - unat lba)"
    if "unat lba + BLOCK * k \<le> x" for x
  proof -
    have "x - unat lba = BLOCK * k + (x - (unat lba + BLOCK * k))" using that by simp
    then show ?thesis by (simp only: of_nat_add add.assoc)
  qed
  have m: "mem t = mem s" by (subst t(2)) simp
  from Suc.IH [of "Suc k" f t] Suc.prems f(2) obtain s' where
    s': "rd_write_loop f (lba + of_nat (BLOCK * Suc k)) lba nblocks buffer t =
       Inr (lba + nblocks * DISK_BLOCK_SIZE, s')" "s' = t\<lparr>ramdisk := ramdisk s'\<rparr>"
    "\<And>x. ramdisk s' x = (if unat lba + BLOCK * Suc k \<le> x \<and> x < unat lba + BLOCK * unat nblocks
        then mem t (buffer + of_nat (x - unat lba)) else ramdisk t x)" by auto
  have "rd_write_loop fuel (lba + of_nat (BLOCK * k)) lba nblocks buffer s =
      bindE (ramdisk_in 512 (unat lba + BLOCK * k) (buffer + of_nat (BLOCK * k)) s)
        (rd_write_loop f (lba + of_nat (BLOCK * k) + DISK_BLOCK_SIZE) lba nblocks buffer)"
    unfolding f(1) rd_write_loop.simps using block_less [OF d, of k] k on_diskD(2) [OF d, of k] by simp
  also have "\<dots> = Inr (lba + nblocks * DISK_BLOCK_SIZE, s')"
    unfolding t(1) bindE_simps block_step [OF Suc.prems(1)] by (fact s'(1))
  finally have run: "rd_write_loop fuel (lba + of_nat (BLOCK * k)) lba nblocks buffer s =
      Inr (lba + nblocks * DISK_BLOCK_SIZE, s')" .
  have "ramdisk s' x = (if unat lba + BLOCK * k \<le> x \<and> x < unat lba + BLOCK * unat nblocks
        then mem s (buffer + of_nat (x - unat lba)) else ramdisk s x)" for x
    unfolding s'(3) m t(3) using le a [of x] by auto
  moreover have "s' = s\<lparr>ramdisk := ramdisk s'\<rparr>" using t(2) s'(2) by (rule ramdisk_update_trans)
  ultimately show ?case using run by blast
qed

text \<open>
  The disk has twenty blocks, so the fuel is enough for every range that lies in it.  The
  value given back is the number of bytes times the size of a block.
\<close>

lemma on_disk_fuel: "on_disk lba nblocks \<Longrightarrow> unat nblocks < 22"
  by (simp add: on_disk_def)

lemma rd_read_ok:
  assumes "on_disk lba nblocks"
  shows "\<exists>s'. rd_read lba nblocks buffer s = Inr (nblocks * DISK_BLOCK_SIZE * DISK_BLOCK_SIZE, s') \<and>
     ramdisk s' = ramdisk s \<and> s' = s\<lparr>mem := mem s'\<rparr> \<and>
     (\<forall>x. mem s' x = (if unat (x - buffer) < BLOCK * unat nblocks
        then ramdisk s (unat lba + unat (x - buffer)) else mem s x))"
  using rd_read_loop_ok [OF assms, of 0 "unat nblocks" 22 buffer s] on_disk_fuel [OF assms]
  by (auto simp: rd_read_def)

lemma rd_write_ok:
  assumes "on_disk lba nblocks"
  shows "\<exists>s'. rd_write lba nblocks buffer s = Inr (nblocks * DISK_BLOCK_SIZE * DISK_BLOCK_SIZE, s') \<and>
     s' = s\<lparr>ramdisk := ramdisk s'\<rparr> \<and>
     (\<forall>x. ramdisk s' x = (if unat lba \<le> x \<and> x < unat lba + BLOCK * unat nblocks
        then mem s (buffer + of_nat (x - unat lba)) else ramdisk s x))"
  using rd_write_loop_ok [OF assms, of 0 "unat nblocks" 22 buffer s] on_disk_fuel [OF assms]
  by (auto simp: rd_write_def)

text \<open>A range that leaves the disk is found out only by the copy that leaves it.\<close>

lemma ramdisk_out_overrun:
  "0 < n \<Longrightarrow> RAMDISK_SIZE < i + n \<Longrightarrow> ramdisk_out n dst i s = Inl (Overrun ''ramdisk'')"
proof (induction n arbitrary: dst i s)
  case (Suc n)
  then show ?case by (cases "n = 0") auto
qed simp

lemma rd_read_loop_overrun:
  assumes w: "unat lba + BLOCK * unat nblocks < 2 ^ 32" and o: "RAMDISK_SIZE < unat lba + BLOCK * unat nblocks"
    and k: "k < unat nblocks" "unat lba + BLOCK * k \<le> RAMDISK_SIZE \<or> k = 0" "21 \<le> fuel + k"
  shows "rd_read_loop fuel (lba + of_nat (BLOCK * k)) lba nblocks buffer s = Inl (Overrun ''ramdisk'')"
  using k
proof (induction fuel arbitrary: k s)
  case 0
  then show ?case by simp
next
  case (Suc f)
  have n: "unat (of_nat (BLOCK * j) :: u32) = BLOCK * j" "unat (lba + of_nat (BLOCK * j)) = unat lba + BLOCK * j"
    if "j \<le> unat nblocks" for j
  proof -
    have "BLOCK * j \<le> BLOCK * unat nblocks" using that by (rule mult_le_mono2)
    then show j: "unat (of_nat (BLOCK * j) :: u32) = BLOCK * j" using w by (intro unat_of_nat_32) simp
    then show "unat (lba + of_nat (BLOCK * j)) = unat lba + BLOCK * j"
      using \<open>BLOCK * j \<le> BLOCK * unat nblocks\<close> w by (subst unat_add_lem [THEN iffD1]) auto
  qed
  have "nblocks * DISK_BLOCK_SIZE = of_nat (BLOCK * unat nblocks)" by simp
  then have e: "unat (lba + nblocks * DISK_BLOCK_SIZE) = unat lba + BLOCK * unat nblocks"
    using n(2) [of "unat nblocks"] by (simp only: le_refl)
  have kn: "BLOCK * k < BLOCK * unat nblocks" "BLOCK * Suc k \<le> BLOCK * unat nblocks"
    using Suc.prems(1) by (simp_all only: mult_less_mono2 mult_le_mono2 Suc_leI zero_less_numeral)
  then have less: "lba + of_nat (BLOCK * k) < lba + nblocks * DISK_BLOCK_SIZE"
    unfolding word_less_nat_alt e using n(2) [of k] Suc.prems(1) by simp
  have step: "lba + of_nat (BLOCK * k) + DISK_BLOCK_SIZE = lba + of_nat (BLOCK * Suc k)"
    by (simp add: algebra_simps)
  let ?out = "ramdisk_out 512 (buffer + of_nat (BLOCK * k)) (unat lba + BLOCK * k) s"
  have run: "rd_read_loop (Suc f) (lba + of_nat (BLOCK * k)) lba nblocks buffer s =
      bindE ?out (rd_read_loop f (lba + of_nat (BLOCK * Suc k)) lba nblocks buffer)"
    unfolding rd_read_loop.simps step using less n(2) [of k] Suc.prems(1) by simp
  show ?case
  proof (cases "unat lba + BLOCK * k + BLOCK \<le> RAMDISK_SIZE")
    case True
    from ramdisk_out_ok [OF this, of "buffer + of_nat (BLOCK * k)" s] obtain t where t: "?out = Inr t" by auto
    have "Suc k \<noteq> unat nblocks" using True o by (metis add.assoc mult_Suc_right add.commute not_le)
    with Suc.prems True show ?thesis unfolding run t bindE_simps by (intro Suc.IH) auto
  next
    case False
    then have "?out = Inl (Overrun ''ramdisk'')" by (intro ramdisk_out_overrun) auto
    then show ?thesis unfolding run by simp
  qed
qed

lemma rd_read_overrun:
  assumes "\<not> on_disk lba nblocks" "unat lba + BLOCK * unat nblocks < 2 ^ 32" "nblocks \<noteq> 0"
  shows "rd_read lba nblocks buffer s = Inl (Overrun ''ramdisk'')"
proof -
  have "0 < unat nblocks" using assms(3) by (simp add: unat_gt_0)
  then show ?thesis
    using rd_read_loop_overrun [OF assms(2), of 0 22 buffer s] assms(1) by (simp add: rd_read_def on_disk_def mult.commute)
qed

section \<open>The range check\<close>

text \<open>
  What \<open>_rd_request\<close> does with a read request that it does not turn down: the request is
  queued, and so is the process that runs on.
\<close>

definition rd_accepts :: "linkage \<Rightarrow> u32 \<Rightarrow> u32 \<Rightarrow> bool" where
  "rd_accepts lk lba nblocks \<longleftrightarrow> nblocks * DISK_BLOCK_SIZE \<le> RD_MAX_LBA - (lba - ramdisk_addr lk)"

lemma rd_request_rejects:
  assumes "\<not> rd_accepts lk (dr_lba (pending_requests s dr)) (dr_nblocks (pending_requests s dr))"
  shows "\<exists>s'. rd_request lk (Some dr) s = Inr (DISK_ERR_INVALID_REQ_SIZE, s') \<and> queues s' = queues s \<and>
     dr_status (pending_requests s' dr) = DISK_ERR_INVALID_REQ_SIZE"
  using assms by (auto simp: rd_request_def rd_accepts_def not_le Let_def set_request_def c_puts_def)

lemma rd_request_read:
  assumes acc: "rd_accepts lk (dr_lba (pending_requests s dr)) (dr_nblocks (pending_requests s dr))"
    and cmd: "dr_cmd (pending_requests s dr) = DISK_CMD_READ"
    and k: "kinv [c] [] [] s" and c: "current s = Some c" and n: "n_other (q_view s) < OTHER_MAX"
  shows "\<exists>s'. rd_request lk (Some dr) s = Inr (DISK_STATUS_READ_PENDING, s') \<and>
     Some (Disk_req dr) \<in> set (q_data s' Ramdisk_io_pending) \<and> current s' = Some c \<and>
     Some (Pcb c) \<in> set (q_data s' Blocked_requests)"
proof -
  let ?s1 = "set_request dr (\<lambda>r. r\<lparr>dr_status := DISK_STATUS_READ_PENDING\<rparr>) s"
  let ?s2 = "set_pcb c (\<lambda>p. p\<lparr>pending_request := Some dr\<rparr>) ?s1"
  have "kinv [c] [] [] ?s1" using k by (subst kinv_cong [of _ s]) (simp_all add: set_request_def)
  moreover from this have "live_pcb (pcbs ?s1 c)" by (rule owned_held(6) [OF kinvD(4)])
  ultimately have k2: "kinv [c] [] [] ?s2" by (intro kinv_set_held) (simp_all add: live_pcb_def)
  have v1: "q_view ?s1 = q_view s" by (rule q_repr_cong(5)) (simp_all add: set_request_def)
  then have v2: "q_view ?s2 = q_view s" by simp
  have "Ramdisk_io_pending \<in> set other_queues" by (simp add: other_queues_def)
  from kinv_other_insert [OF k2 this, of "Some (Disk_req dr)"] n obtain s3 where
    s3: "q_insert Ramdisk_io_pending (Some (Disk_req dr)) ?s2 = Inr (STAT_SUCCESS, s3)" "kinv [c] [] [] s3"
      "q_frame ?s2 s3" "q_view s3 = (q_view s)(Ramdisk_io_pending := q_view s Ramdisk_io_pending @ [(0, Some (Disk_req dr))])"
    by (auto simp: v1)
  have "Blocked_requests \<in> set live_queues" by (simp add: live_queues_def)
  from kinv_put [OF s3(2) this] obtain s4 where
    s4: "q_insert Blocked_requests (Some (Pcb c)) s3 = Inr (STAT_SUCCESS, s4)" "q_frame s3 s4"
      "q_view s4 = (q_view s3)(Blocked_requests := q_view s3 Blocked_requests @ [(0, Some (Pcb c))])"
    by (auto simp: q_place_def)
  have cur: "current s3 = Some c" "current s4 = Some c" "current ?s1 = Some c"
    using c by (simp_all add: q_frame_fields [OF s3(3)] q_frame_fields [OF s4(2)] set_request_def)
  have "pending_requests s4 dr = (pending_requests s dr)\<lparr>dr_status := DISK_STATUS_READ_PENDING\<rparr>"
    by (simp add: q_frame_fields [OF s3(3)] q_frame_fields [OF s4(2)] set_request_def set_pcb_def)
  then have "rd_request lk (Some dr) s = Inr (DISK_STATUS_READ_PENDING, s4)"
    using acc cmd s3(1) s4(1) cur by (simp add: rd_request_def Let_def rd_accepts_def not_less [symmetric])
  then show ?thesis using cur(2) by (simp add: q_data_def s4(3) s3(4))
qed

end
