(* ===== verification/System.thy ===== *)
theory System
  imports Kernel_Inv
begin

text \<open>
  system.c without \<open>_init\<close>: making a process out of a PCB and a stack, and giving both back.
\<close>

abbreviation (input) GDT_CODE :: u32 where "GDT_CODE \<equiv> 0x10"
abbreviation (input) GDT_DATA :: u32 where "GDT_DATA \<equiv> 0x18"
abbreviation (input) GDT_STACK :: u32 where "GDT_STACK \<equiv> 0x20"
abbreviation (input) EFLAGS_MB1 :: u32 where "EFLAGS_MB1 \<equiv> 0x00000002"
abbreviation (input) EFLAGS_IF :: u32 where "EFLAGS_IF \<equiv> 0x00000200"
abbreviation (input) DEFAULT_EFLAGS :: u32 where "DEFAULT_EFLAGS \<equiv> (EFLAGS_MB1 OR EFLAGS_IF)"

section \<open>The code\<close>

text \<open>
  The dummy return address \<open>ret\<close> is the penultimate longword of the stack, and the context
  ends right before it.
\<close>

definition make_proc :: "linkage \<Rightarrow> nat \<Rightarrow> nat \<Rightarrow> u32 \<Rightarrow> u8 \<Rightarrow> kstate \<Rightarrow> u16 \<times> kstate" where
  "make_proc lk pcb stk fcn lvl s =
     (let s = s\<lparr>pcbs := (pcbs s)(pcb := zero_pcb)\<rparr>;
          s = s\<lparr>stacks := (stacks s)(stk := (\<lambda>w. if w < STACK_SIZE then 0 else stacks s stk w))\<rparr>;
          s = set_pcb pcb (\<lambda>p. p\<lparr>stack := Some stk\<rparr>) s;
          s = set_pcb pcb (\<lambda>p. p\<lparr>pid := next_pid s\<rparr>) s;
          s = s\<lparr>next_pid := next_pid s + 1\<rparr>;
          s = set_pcb pcb (\<lambda>p. p\<lparr>level := lvl\<rparr>) s;
          ret = STACK_SIZE - 2;
          s = ctx_set (stk, ret) 0 (exit_addr lk) s;
          ctx = (stk, ret - CTX_WORDS);
          s = set_pcb pcb (\<lambda>p. p\<lparr>context_of := Some ctx\<rparr>) s;
          s = ctx_set ctx CTX_SS GDT_STACK s;
          s = ctx_set ctx CTX_GS GDT_DATA s;
          s = ctx_set ctx CTX_FS GDT_DATA s;
          s = ctx_set ctx CTX_ES GDT_DATA s;
          s = ctx_set ctx CTX_DS GDT_DATA s;
          s = ctx_set ctx CTX_CS GDT_CODE s;
          s = ctx_set ctx CTX_EFLAGS DEFAULT_EFLAGS s;
          s = ctx_set ctx CTX_EIP fcn s
      in (pid (pcbs s pcb), s))"

definition cleanup :: "nat option \<Rightarrow> kstate \<Rightarrow> kstate outcome" where
  "cleanup pcb s =
     (case pcb of
        None \<Rightarrow> Inr s
      | Some i \<Rightarrow>
          bindE (case stack (pcbs s i) of
                   None \<Rightarrow> Inr s
                 | Some st \<Rightarrow> bindE (stack_dealloc st s) (\<lambda>(stat, s). Inr s))
            (\<lambda>s. bindE (pcb_dealloc i s) (\<lambda>(stat, s). Inr s)))"

section \<open>What the routines do\<close>

lemma ctx_set_simps [simp]:
  "pcbs (ctx_set c w v s) = pcbs s" "queues (ctx_set c w v s) = queues s"
  "qnodes (ctx_set c w v s) = qnodes s" "free_qnodes (ctx_set c w v s) = free_qnodes s"
  "current (ctx_set c w v s) = current s" "next_pid (ctx_set c w v s) = next_pid s"
  "q_view (ctx_set c w v s) = q_view s" "kinv H F K (ctx_set c w v s) = kinv H F K s"
  "n_free (ctx_set c w v s) = n_free s"
  "stacks (ctx_set c w v s) = (stacks s)(fst c := (stacks s (fst c))(snd c + w := v))"
  by (simp_all add: ctx_set_def) (rule q_repr_cong kinv_cong; simp)+

lemma set_pcb_more [simp]:
  "stacks (set_pcb i f s) = stacks s" "next_pid (set_pcb i f s) = next_pid s"
  by (simp_all add: set_pcb_def)

definition new_pcb :: "nat \<Rightarrow> u16 \<Rightarrow> u8 \<Rightarrow> pcb_t" where
  "new_pcb stk p lvl = zero_pcb\<lparr>stack := Some stk, pid := p, level := lvl,
     context_of := Some (stk, STACK_SIZE - 2 - CTX_WORDS)\<rparr>"

text \<open>The word at each place of a new process's stack.\<close>

definition new_stack :: "linkage \<Rightarrow> u32 \<Rightarrow> nat \<Rightarrow> u32" where
  "new_stack lk fcn w =
     (if w = STACK_SIZE - 2 then exit_addr lk
      else if STACK_SIZE - 2 - CTX_WORDS \<le> w \<and> w < STACK_SIZE - 2 then
        (let k = w - (STACK_SIZE - 2 - CTX_WORDS) in
         if k = CTX_SS then GDT_STACK
         else if k \<in> {CTX_GS, CTX_FS, CTX_ES, CTX_DS} then GDT_DATA
         else if k = CTX_EIP then fcn
         else if k = CTX_CS then GDT_CODE
         else if k = CTX_EFLAGS then DEFAULT_EFLAGS
         else 0)
      else 0)"

lemma make_proc_eq:
  "fst (make_proc lk i stk fcn lvl s) = next_pid s"
  "pcbs (snd (make_proc lk i stk fcn lvl s)) = (pcbs s)(i := new_pcb stk (next_pid s) lvl)"
  "next_pid (snd (make_proc lk i stk fcn lvl s)) = next_pid s + 1"
  "k_frame s (snd (make_proc lk i stk fcn lvl s))"
  "queues (snd (make_proc lk i stk fcn lvl s)) = queues s"
  "qnodes (snd (make_proc lk i stk fcn lvl s)) = qnodes s"
  "free_qnodes (snd (make_proc lk i stk fcn lvl s)) = free_qnodes s"
  "current (snd (make_proc lk i stk fcn lvl s)) = current s"
  by (simp_all add: make_proc_def Let_def new_pcb_def zero_pcb_def prod_eq_iff)

lemma make_proc_stacks:
  "stacks (snd (make_proc lk i stk fcn lvl s)) =
   (stacks s)(stk := (\<lambda>w. if w < STACK_SIZE then 0 else stacks s stk w)
     (1022 := exit_addr lk, 1004 := GDT_STACK, 1005 := GDT_DATA, 1006 := GDT_DATA, 1007 := GDT_DATA,
      1008 := GDT_DATA, 1020 := GDT_CODE, 1021 := DEFAULT_EFLAGS, 1019 := fcn))"
  by (simp add: make_proc_def Let_def cong: if_cong)

lemma make_proc_stack:
  assumes "w < STACK_SIZE"
  shows "stacks (snd (make_proc lk i stk fcn lvl s)) stk w = new_stack lk fcn w"
proof (cases "STACK_SIZE - 2 - CTX_WORDS \<le> w \<and> w < STACK_SIZE - 2")
  case True
  define k where "k = w - 1004"
  have w: "w = 1004 + k" "k < 18" using True by (auto simp: k_def)
  show ?thesis unfolding w(1) using w(2) by (simp add: make_proc_stacks new_stack_def Let_def)
next
  case False
  with assms consider "w < 1004" | "w = 1022" | "w = 1023" by linarith
  then show ?thesis by cases (simp_all add: make_proc_stacks new_stack_def)
qed

text \<open>A new process owns its stack and is not in a queue yet.\<close>

lemma kinv_make_proc:
  assumes k: "kinv H (i # F) (stk # K) s" and lvl: "unat lvl < MLQ_LEVELS"
  shows "kinv (i # H) F K (snd (make_proc lk i stk fcn lvl s))"
proof -
  let ?s = "snd (make_proc lk i stk fcn lvl s)"
  note m = make_proc_eq [where lk = lk and i = i and stk = stk and fcn = fcn and lvl = lvl and s = s]
  let ?t = "set_pcb i (\<lambda>_. new_pcb stk (next_pid s) lvl) s"
  have "kinv H (i # F) (stk # K) ?s \<longleftrightarrow> kinv H (i # F) (stk # K) ?t"
    by (rule kinv_cong) (simp_all add: m)
  then have "kinv H (i # F) (stk # K) ?s" using kinv_set_fresh [OF k] by simp
  moreover have "stack (pcbs ?s i) = Some stk" "live_pcb (pcbs ?s i)"
    using lvl by (simp_all add: m(2) new_pcb_def live_pcb_def)
  ultimately show ?thesis by (auto simp: kinv_split)
qed

lemma make_proc_view: "q_view (snd (make_proc lk i stk fcn lvl s)) = q_view s"
  by (rule q_repr_cong(5)) (simp_all add: make_proc_eq)

text \<open>Cleaning up a PCB makes it and its stack free.\<close>

lemma kinv_cleanup:
  assumes k: "kinv (i # H) F K s"
  shows "\<exists>st s'. stack (pcbs s i) = Some st \<and> cleanup (Some i) s = Inr s' \<and> kinv H F K s' \<and>
     k_frame s s' \<and> pcbs s' = (pcbs s)(i := (pcbs s i)\<lparr>status := PROC_FREE\<rparr>) \<and>
     current s' = current s \<and> next_pid s' = next_pid s \<and> stacks s' = stacks s \<and>
     q_view s' = (q_view s)(Free_stacks := q_view s Free_stacks @ [(0, Some (Stack st))],
       Free_pcbs := q_view s Free_pcbs @ [(0, Some (Pcb i))])"
proof -
  from k obtain st where st: "stack (pcbs s i) = Some st" "kinv H (i # F) (st # K) s"
    by (auto simp: kinv_split)
  from kinv_stack_dealloc [OF st(2)] obtain t where t: "stack_dealloc st s = Inr (STAT_SUCCESS, t)"
    "kinv H (i # F) K t" "q_frame s t"
    "q_view t = (q_view s)(Free_stacks := q_view s Free_stacks @ [(0, Some (Stack st))])" by blast
  note f = q_frame_fields [OF t(3)]
  from kinv_pcb_dealloc [OF t(2)] obtain u where u: "pcb_dealloc i t = Inr (STAT_SUCCESS, u)"
    "kinv H F K u" "k_frame t u" "pcbs u = (pcbs t)(i := (pcbs t i)\<lparr>status := PROC_FREE\<rparr>)"
    "current u = current t" "next_pid u = next_pid t" "stacks u = stacks t"
    "q_view u = (q_view t)(Free_pcbs := q_view t Free_pcbs @ [(0, Some (Pcb i))])" by blast
  have "k_frame s u" using q_frame_k_frame [OF t(3)] u(3) by (rule k_frame_trans)
  moreover have "cleanup (Some i) s = Inr u" using st(1) t(1) u(1) by (simp add: cleanup_def)
  ultimately show ?thesis using st(1) u t(4) by (simp add: f)
qed

end
