(* ===== verification/Scheduler.thy ===== *)
theory Scheduler
  imports System
begin

text \<open>
  scheduler.c: putting a process on the ready queue of its level, and choosing the next
  process to run.
\<close>

section \<open>The code\<close>

definition schedule :: "nat \<Rightarrow> u32 kop" where
  "schedule pcb s =
     (if MLQ_LEVELS \<le> unat (level (pcbs s pcb)) then Inr (STAT_BAD_LEVEL, s)
      else
        let s = set_pcb pcb (\<lambda>p. p\<lparr>status := PROC_READY\<rparr>) s
        in q_insert (Ready (unat (level (pcbs s pcb)))) (Some (Pcb pcb)) s)"

text \<open>
  The loop of \<open>_dispatch\<close>.  Every round goes to the next level or takes a PCB out of a ready
  queue.  There are three levels, and no more PCBs in queues than there are queue nodes, so
  the fuel \<open>N_QNODES + MLQ_LEVELS + 1\<close> is enough.
\<close>

fun dispatch_loop :: "nat \<Rightarrow> nat \<Rightarrow> (nat option) kop" where
  "dispatch_loop 0 lvl s = Inl Hang"
| "dispatch_loop (Suc fuel) lvl s =
     (if lvl < MLQ_LEVELS then
        if q_isempty (Ready lvl) s then dispatch_loop fuel (lvl + 1) s
        else
          case q_remove (Ready lvl) s of (p, s) \<Rightarrow>
            bindE (as_pcb p) (\<lambda>pcb. bindE (deref pcb) (\<lambda>i.
              if status (pcbs s i) = PROC_READY then Inr (Some i, s)
              else if status (pcbs s i) = PROC_ZOMBIE then
                bindE (cleanup (Some i) s) (\<lambda>s. dispatch_loop fuel lvl s)
              else kpanic ''non-ready non-zombie in dispatch''))
      else Inr (None, s))"

definition dispatch :: "kstate \<Rightarrow> kstate outcome" where
  "dispatch s =
     bindE (dispatch_loop (N_QNODES + MLQ_LEVELS + 1) 0 s) (\<lambda>(pcb, s).
       case pcb of
         None \<Rightarrow> kpanic ''null pcb in dispatch''
       | Some i \<Rightarrow>
           let s = set_pcb i (\<lambda>p. p\<lparr>status := PROC_RUNNING\<rparr>) s;
               s = set_pcb i (\<lambda>p. p\<lparr>quantum := QUANTUM_DEFAULT\<rparr>) s
           in Inr (s\<lparr>current := Some i\<rparr>))"

section \<open>Scheduling\<close>

lemma status_update_same [simp]:
  "stack (p\<lparr>status := x\<rparr>) = stack p" for p :: pcb_t by simp

text \<open>A held PCB with a valid level goes behind the others of its level.\<close>

lemma kinv_schedule:
  assumes k: "kinv (i # H) F K s"
  shows "\<exists>s'. schedule i s = Inr (STAT_SUCCESS, s') \<and> kinv H F K s' \<and> k_frame s s' \<and>
     pcbs s' = (pcbs s)(i := (pcbs s i)\<lparr>status := PROC_READY\<rparr>) \<and> current s' = current s \<and>
     next_pid s' = next_pid s \<and> stacks s' = stacks s \<and>
     q_view s' = (q_view s)(Ready (unat (level (pcbs s i))) :=
       q_view s (Ready (unat (level (pcbs s i)))) @ [(0, Some (Pcb i))])"
proof -
  let ?s = "set_pcb i (\<lambda>p. p\<lparr>status := PROC_READY\<rparr>) s" and ?q = "Ready (unat (level (pcbs s i)))"
  have live: "live_pcb (pcbs s i)" by (rule owned_held(6) [OF kinvD(4) [OF k]])
  then have lvl: "unat (level (pcbs s i)) < MLQ_LEVELS" by (simp add: live_pcb_def)
  have k': "kinv (i # H) F K ?s" using live by (intro kinv_set_held [OF k]) (simp_all add: live_pcb_def)
  have q: "?q \<in> set live_queues" using lvl by (auto simp: live_queues_def)
  have st: "status (pcbs ?s i) \<in> {PROC_READY, PROC_ZOMBIE}" by simp
  from kinv_put [OF k' q st] obtain s' where s':
    "q_insert ?q (Some (Pcb i)) ?s = Inr (STAT_SUCCESS, s')" "kinv H F K s'" "q_frame ?s s'"
    "q_view s' = (q_view s)(?q := q_view s ?q @ [(0, Some (Pcb i))])"
    by (auto simp: q_place_def)
  moreover have "schedule i s = q_insert ?q (Some (Pcb i)) ?s"
    using lvl by (simp add: schedule_def Let_def)
  moreover have "k_frame s s'" using q_frame_k_frame [OF s'(3)] by simp
  ultimately show ?thesis by (simp add: q_frame_fields [OF s'(3)])
qed

lemma schedule_bad_level:
  "MLQ_LEVELS \<le> unat (level (pcbs s i)) \<Longrightarrow> schedule i s = Inr (STAT_BAD_LEVEL, s)"
  by (simp add: schedule_def)

section \<open>Dispatching\<close>

text \<open>The ready processes from a level on, in the order in which they are looked at.\<close>

definition levels_from :: "nat \<Rightarrow> view \<Rightarrow> nat list list" where
  "levels_from l v = map (\<lambda>j. pcbs_in v (Ready j)) [l..<MLQ_LEVELS]"

definition ready_from :: "nat \<Rightarrow> view \<Rightarrow> nat list" where
  "ready_from l v = concat (map (\<lambda>j. pcbs_in v (Ready j)) [l..<MLQ_LEVELS])"

lemma ready_from_levels: "ready_from l v = concat (levels_from l v)"
  by (simp add: ready_from_def levels_from_def)

abbreviation ready_seq :: "view \<Rightarrow> nat list" where
  "ready_seq \<equiv> ready_from 0"

definition zombie :: "(nat \<Rightarrow> pcb_t) \<Rightarrow> nat \<Rightarrow> bool" where
  "zombie ps i \<longleftrightarrow> status (ps i) = PROC_ZOMBIE"

text \<open>
  What the search does to the queues of the levels: it takes the dead out up to the first process
  that is not, and this one too.
\<close>

fun pick :: "(nat \<Rightarrow> bool) \<Rightarrow> nat list list \<Rightarrow> nat option \<times> nat list \<times> nat list list" where
  "pick dead [] = (None, [], [])"
| "pick dead (q # qs) =
     (case dropWhile dead q of
        p # r \<Rightarrow> (Some p, takeWhile dead q, r # qs)
      | [] \<Rightarrow> (case pick dead qs of (p, zs, qs') \<Rightarrow> (p, q @ zs, [] # qs')))"

definition left_by_pick :: "(nat \<Rightarrow> bool) \<Rightarrow> nat list list \<Rightarrow> nat list list" where
  "left_by_pick dead qs = snd (snd (pick dead qs))"

lemma left_by_pick_simps [simp]:
  "left_by_pick dead [] = []" "left_by_pick dead ([] # qs) = [] # left_by_pick dead qs"
  "left_by_pick dead ((i # is) # qs) = (if dead i then left_by_pick dead (is # qs) else is # qs)"
proof -
  show "left_by_pick dead ((i # is) # qs) = (if dead i then left_by_pick dead (is # qs) else is # qs)"
    by (cases "dropWhile dead is"; cases "pick dead qs") (simp_all add: left_by_pick_def del: dropWhile_eq_Nil_conv)
qed (simp_all add: left_by_pick_def split: prod.splits)

lemma left_by_pick_cong:
  "(\<And>i. i \<in> set (concat qs) \<Longrightarrow> dead i = dead' i) \<Longrightarrow> left_by_pick dead qs = left_by_pick dead' qs"
proof (induction qs)
  case (Cons q qs)
  then show ?case by (induction q) auto
qed simp

lemma pick_seq:
  "pick dead qs = (p, zs, qs') \<Longrightarrow> zs = takeWhile dead (concat qs) \<and>
     (case p of None \<Rightarrow> dropWhile dead (concat qs) = [] | Some j \<Rightarrow> dropWhile dead (concat qs) = j # concat qs')"
proof (induction qs arbitrary: p zs qs')
  case (Cons q qs)
  show ?case
  proof (cases "dropWhile dead q")
    case Nil
    then have d: "\<forall>i \<in> set q. dead i" by (simp add: dropWhile_eq_Nil_conv)
    obtain r ys rs where e: "pick dead qs = (r, ys, rs)" by (cases "pick dead qs")
    from Cons.IH [OF e] Cons.prems Nil d e show ?thesis
      by (auto simp: takeWhile_append2 dropWhile_append2 split: option.splits)
  next
    case (Cons j r)
    then obtain i where "i \<in> set q" "\<not> dead i" by (metis dropWhile_eq_Nil_conv list.distinct(1))
    with Cons.prems Cons show ?thesis
      by (auto simp: takeWhile_append1 dropWhile_append1)
  qed
qed simp

text \<open>From \<open>s\<close> to \<open>s'\<close> the PCBs \<open>Z\<close> have been freed with their stacks, and ready queues emptied.\<close>

definition freed :: "nat list \<Rightarrow> kstate \<Rightarrow> kstate \<Rightarrow> bool" where
  "freed Z s s' \<longleftrightarrow>
     k_frame s s' \<and>
     pcbs s' = (\<lambda>i. if i \<in> set Z then (pcbs s i)\<lparr>status := PROC_FREE\<rparr> else pcbs s i) \<and>
     current s' = current s \<and> next_pid s' = next_pid s \<and> stacks s' = stacks s \<and>
     pcbs_in (q_view s') Free_pcbs = pcbs_in (q_view s) Free_pcbs @ Z \<and>
     stacks_in (q_view s') = stacks_in (q_view s) @ map (stack_idx (pcbs s)) Z \<and>
     (\<forall>q. q \<noteq> Free_pcbs \<and> q \<noteq> Free_stacks \<and> (\<forall>l. q \<noteq> Ready l) \<longrightarrow> q_view s' q = q_view s q)"

lemma freed_trans:
  assumes "freed Z s t" "freed Z' t u"
  shows "freed (Z @ Z') s u"
proof -
  have "stack_idx (pcbs t) = stack_idx (pcbs s)" using assms(1) by (auto simp: freed_def stack_idx_def)
  then show ?thesis using assms by (auto simp: freed_def intro: k_frame_trans)
qed

lemma freed_nil:
  assumes "q_frame s s'" "\<And>q. (\<forall>l. q \<noteq> Ready l) \<Longrightarrow> q_view s' q = q_view s q"
  shows "freed [] s s'"
proof -
  have "pcbs_in (q_view s') Free_pcbs = pcbs_in (q_view s) Free_pcbs"
    "stacks_in (q_view s') = stacks_in (q_view s)"
    by (simp_all add: pcbs_in_def stacks_in_def assms(2))
  with assms show ?thesis by (simp add: freed_def q_frame_k_frame q_frame_fields [OF assms(1)])
qed

lemma freed_refl: "freed [] s s"
  by (rule freed_nil) auto

lemma ready_from_Suc: "l < MLQ_LEVELS \<Longrightarrow> ready_from l v = pcbs_in v (Ready l) @ ready_from (Suc l) v"
  by (simp add: ready_from_def upt_conv_Cons)

lemma levels_from_Suc: "l < MLQ_LEVELS \<Longrightarrow> levels_from l v = pcbs_in v (Ready l) # levels_from (Suc l) v"
  by (simp add: levels_from_def upt_conv_Cons)

lemma levels_from_cong:
  "(\<And>j. l \<le> j \<Longrightarrow> v' (Ready j) = v (Ready j)) \<Longrightarrow> levels_from l v' = levels_from l v"
  by (auto simp: levels_from_def pcbs_in_def)

lemma levels_from_remove:
  assumes "l < MLQ_LEVELS" "pcbs_in v (Ready l) = i # is"
  shows "levels_from l (v(Ready l := tl (v (Ready l)))) = is # levels_from (Suc l) v"
proof -
  let ?v = "v(Ready l := tl (v (Ready l)))"
  have "pcbs_in ?v (Ready l) = is" using assms(2) by (auto simp: pcbs_in_def map_tl)
  moreover have "levels_from (Suc l) ?v = levels_from (Suc l) v" by (rule levels_from_cong) auto
  ultimately show ?thesis using assms by (simp add: levels_from_Suc)
qed

lemma ready_from_end: "MLQ_LEVELS \<le> l \<Longrightarrow> ready_from l v = []"
  by (simp add: ready_from_def)

lemma ready_from_cong:
  "(\<And>j. l \<le> j \<Longrightarrow> v' (Ready j) = v (Ready j)) \<Longrightarrow> ready_from l v' = ready_from l v"
  by (auto simp: ready_from_def pcbs_in_def intro!: arg_cong [where f = concat])

lemma ready_from_live: "set (ready_from l v) \<subseteq> set_mset (live v)"
  by (auto simp: ready_from_def live_def live_queues_def)
    (metis less_2_cases less_Suc_eq numeral_2_eq_2 numeral_3_eq_3 One_nat_def)

lemma ready_from_remove:
  assumes "l < MLQ_LEVELS" "pcbs_in v (Ready l) = i # is"
  shows "ready_from l (v(Ready l := tl (v (Ready l)))) = tl (ready_from l v)"
    "ready_from l v = i # tl (ready_from l v)"
proof -
  let ?v = "v(Ready l := tl (v (Ready l)))"
  have "pcbs_in ?v (Ready l) = is" using assms(2) by (auto simp: pcbs_in_def map_tl)
  moreover have "ready_from (Suc l) ?v = ready_from (Suc l) v" by (rule ready_from_cong) auto
  ultimately show "ready_from l ?v = tl (ready_from l v)" "ready_from l v = i # tl (ready_from l v)"
    using assms by (simp_all add: ready_from_Suc)
qed

lemma ready_status:
  assumes "kinv H F K s" "i \<in> set (ready_from l (q_view s))"
  shows "status (pcbs s i) \<in> {PROC_READY, PROC_ZOMBIE}"
  using assms(2) kinvD(5) [OF assms(1)] by (auto simp: ready_from_def statuses_def)


text \<open>One zombie in front of the ready queue is taken out and freed.\<close>

lemma dispatch_zombie:
  assumes k: "kinv (i # H) F K t" and fr: "q_frame s t"
    and v: "q_view t = (q_view s)(Ready l := tl (q_view s (Ready l)))"
  shows "\<exists>s'. cleanup (Some i) t = Inr s' \<and> kinv H F K s' \<and> freed [i] s s' \<and>
     (\<forall>j. q_view s' (Ready j) = q_view t (Ready j))"
proof -
  note f = q_frame_fields [OF fr]
  from kinv_cleanup [OF k] obtain st s' where s': "stack (pcbs t i) = Some st"
    "cleanup (Some i) t = Inr s'" "kinv H F K s'" "k_frame t s'"
    "pcbs s' = (pcbs t)(i := (pcbs t i)\<lparr>status := PROC_FREE\<rparr>)" "current s' = current t"
    "next_pid s' = next_pid t" "stacks s' = stacks t"
    "q_view s' = (q_view t)(Free_stacks := q_view t Free_stacks @ [(0, Some (Stack st))],
       Free_pcbs := q_view t Free_pcbs @ [(0, Some (Pcb i))])" by blast
  have "stack_idx (pcbs s) i = st" using s'(1) by (simp add: stack_idx_def f)
  then have "stacks_in (q_view s') = stacks_in (q_view s) @ [stack_idx (pcbs s) i]"
    "pcbs_in (q_view s') Free_pcbs = pcbs_in (q_view s) Free_pcbs @ [i]"
    by (simp_all add: s'(9) v stacks_in_def pcbs_in_def)
  moreover have "k_frame s s'" using q_frame_k_frame [OF fr] s'(4) by (rule k_frame_trans)
  ultimately have "freed [i] s s'"
    using s'(5-9) v by (auto simp: freed_def f)
  moreover have "\<forall>j. q_view s' (Ready j) = q_view t (Ready j)" by (simp add: s'(9))
  ultimately show ?thesis using s'(2,3) by blast
qed

lemma dispatch_loop_ok:
  assumes "kinv H F K s" "length (ready_from l (q_view s)) + (MLQ_LEVELS - l) < fuel"
    and "R = ready_from l (q_view s)"
  shows "\<exists>s'. freed (takeWhile (zombie (pcbs s)) R) s s' \<and>
     ready_from l (q_view s') = tl (dropWhile (zombie (pcbs s)) R) \<and>
     levels_from l (q_view s') = left_by_pick (zombie (pcbs s)) (levels_from l (q_view s)) \<and>
     (\<forall>j<l. q_view s' (Ready j) = q_view s (Ready j)) \<and>
     (case dropWhile (zombie (pcbs s)) R of
        [] \<Rightarrow> dispatch_loop fuel l s = Inr (None, s') \<and> kinv H F K s'
      | p # _ \<Rightarrow> dispatch_loop fuel l s = Inr (Some p, s') \<and> kinv (p # H) F K s')"
  using assms
proof (induction fuel arbitrary: l s R)
  case 0
  then show ?case by simp
next
  case (Suc fuel)
  note k = Suc.prems(1) and d = kinvD [OF Suc.prems(1)] and R = Suc.prems(3)
  show ?case
  proof (cases "l < MLQ_LEVELS")
    case False
    then have "levels_from l v = []" for v by (simp add: levels_from_def)
    then show ?thesis using k False by (auto simp: R ready_from_end intro!: exI [of _ s] freed_refl)
  next
    case l: True
    show ?thesis
    proof (cases "q_view s (Ready l)")
      case Nil
      have e: "q_isempty (Ready l) s" using Nil q_isempty_view [OF d(1)] by simp
      have Rl: "ready_from l v = ready_from (Suc l) v" if "v (Ready l) = []" for v
        using that l by (simp add: ready_from_Suc pcbs_in_def)
      have "length (ready_from (Suc l) (q_view s)) + (MLQ_LEVELS - Suc l) < fuel"
        using Suc.prems(2) l Rl [of "q_view s"] Nil by simp
      from Suc.IH [OF k this refl] obtain s' where
        "freed (takeWhile (zombie (pcbs s)) (ready_from (Suc l) (q_view s))) s s'"
        "ready_from (Suc l) (q_view s') = tl (dropWhile (zombie (pcbs s)) (ready_from (Suc l) (q_view s)))"
        "levels_from (Suc l) (q_view s') = left_by_pick (zombie (pcbs s)) (levels_from (Suc l) (q_view s))"
        "\<forall>j<Suc l. q_view s' (Ready j) = q_view s (Ready j)"
        "case dropWhile (zombie (pcbs s)) (ready_from (Suc l) (q_view s)) of
           [] \<Rightarrow> dispatch_loop fuel (Suc l) s = Inr (None, s') \<and> kinv H F K s'
         | p # _ \<Rightarrow> dispatch_loop fuel (Suc l) s = Inr (Some p, s') \<and> kinv (p # H) F K s'" by blast
      moreover have "ready_from l (q_view s') = ready_from (Suc l) (q_view s')"
        using calculation(4) Nil by (intro Rl) simp
      moreover have "levels_from l (q_view s') = left_by_pick (zombie (pcbs s)) (levels_from l (q_view s))"
        using calculation(3,4) Nil l by (simp add: levels_from_Suc pcbs_in_def)
      moreover have "R = ready_from (Suc l) (q_view s)" using R Rl [of "q_view s"] Nil by simp
      moreover have "dispatch_loop (Suc fuel) l s = dispatch_loop fuel (Suc l) s" using e l by simp
      moreover have "\<forall>j<l. q_view s' (Ready j) = q_view s (Ready j)" using calculation(4) by simp
      ultimately show ?thesis by (intro exI [of _ s']) (simp only:)
    next
      case (Cons e es)
      then have ne: "\<not> q_isempty (Ready l) s" using q_isempty_view [OF d(1)] by simp
      obtain i "is" where i: "pcbs_in (q_view s) (Ready l) = i # is"
        using Cons by (simp add: pcbs_in_def)
      have "Ready l \<in> set live_queues" using l by (auto simp: live_queues_def)
      from kinv_take [OF k this i] obtain t where t: "q_remove (Ready l) s = (Some (Pcb i), t)"
        "kinv (i # H) F K t" "q_frame s t"
        "q_view t = (q_view s)(Ready l := tl (q_view s (Ready l)))" by blast
      note rr = ready_from_remove [OF l i]
      have pt: "pcbs t = pcbs s" by (simp add: q_frame_fields [OF t(3)])
      have lt: "levels_from l (q_view t) = is # levels_from (Suc l) (q_view s)"
        unfolding t(4) by (rule levels_from_remove [OF l i])
      have ls: "levels_from l (q_view s) = (i # is) # levels_from (Suc l) (q_view s)"
        using l i by (simp add: levels_from_Suc)
      have st: "status (pcbs s i) \<in> {PROC_READY, PROC_ZOMBIE}"
        using ready_status [OF k, of i l] rr(2) by (metis list.set_intros(1))
      show ?thesis
      proof (cases "status (pcbs s i) = PROC_READY")
        case True
        have nz: "\<not> zombie (pcbs s) i" using True by (simp add: zombie_def)
        have Req: "R = i # tl R" using rr(2) R by simp
        have tw: "takeWhile (zombie (pcbs s)) R = []" "dropWhile (zombie (pcbs s)) R = i # tl R"
          by (subst Req, simp add: nz)+
        have "dispatch_loop (Suc fuel) l s = Inr (Some i, t)"
          using l ne t(1) True pt by simp
        moreover have "freed [] s t" using t(3) by (rule freed_nil) (auto simp: t(4))
        moreover have "ready_from l (q_view t) = tl R" using rr(1) t(4) R by simp
        moreover have "levels_from l (q_view t) = left_by_pick (zombie (pcbs s)) (levels_from l (q_view s))"
          using nz by (simp add: lt ls)
        moreover have "\<forall>j<l. q_view t (Ready j) = q_view s (Ready j)" by (simp add: t(4))
        ultimately show ?thesis using t(2) unfolding tw by (intro exI [of _ t]) (simp only: list.case list.sel)
      next
        case False
        then have z: "status (pcbs s i) = PROC_ZOMBIE" "zombie (pcbs s) i" using st by (auto simp: zombie_def)
        from dispatch_zombie [OF t(2-4)] obtain u where u: "cleanup (Some i) t = Inr u" "kinv H F K u"
          "freed [i] s u" "\<And>j. q_view u (Ready j) = q_view t (Ready j)" by blast
        have Ru: "ready_from l (q_view u) = tl R"
          using rr(1) u(4) t(4) R ready_from_cong [of l "q_view u" "q_view t"] by simp
        have Req: "R = i # tl R" using rr(2) R by simp
        have "length (ready_from l (q_view u)) + (MLQ_LEVELS - l) < fuel"
          using Suc.prems(2) Ru Req R by (metis add_Suc length_Cons less_Suc_eq_le not_less_eq)
        from Suc.IH [OF u(2) this refl] obtain s' where
          s': "freed (takeWhile (zombie (pcbs u)) (tl R)) u s'"
          "ready_from l (q_view s') = tl (dropWhile (zombie (pcbs u)) (tl R))"
          "levels_from l (q_view s') = left_by_pick (zombie (pcbs u)) (levels_from l (q_view u))"
          "\<forall>j<l. q_view s' (Ready j) = q_view u (Ready j)"
          "case dropWhile (zombie (pcbs u)) (tl R) of
             [] \<Rightarrow> dispatch_loop fuel l u = Inr (None, s') \<and> kinv H F K s'
           | p # _ \<Rightarrow> dispatch_loop fuel l u = Inr (Some p, s') \<and> kinv (p # H) F K s'"
          unfolding Ru by blast
        have "i \<notin> set (tl R)"
          using owned_held(2) [OF kinvD(4) [OF t(2)]] ready_from_live [of l "q_view t"] rr(1) t(4) R
          by auto
        then have zz: "zombie (pcbs u) j \<longleftrightarrow> zombie (pcbs s) j" if "j \<in> set (tl R)" for j
          using that u(3) by (auto simp: freed_def zombie_def)
        have lu: "levels_from l (q_view u) = is # levels_from (Suc l) (q_view s)"
          using lt u(4) levels_from_cong [of l "q_view u" "q_view t"] by simp
        have "concat (is # levels_from (Suc l) (q_view s)) = tl R"
          using rr(2) R ls by (simp add: ready_from_levels)
        then have lp: "left_by_pick (zombie (pcbs u)) (levels_from l (q_view u)) =
            left_by_pick (zombie (pcbs s)) (levels_from l (q_view s))"
          using zz z(2) unfolding lu ls by (simp, intro left_by_pick_cong) simp
        have tw: "takeWhile (zombie (pcbs u)) (tl R) = takeWhile (zombie (pcbs s)) (tl R)"
          "dropWhile (zombie (pcbs u)) (tl R) = dropWhile (zombie (pcbs s)) (tl R)"
          using zz by (auto intro: takeWhile_cong dropWhile_cong)
        have R': "takeWhile (zombie (pcbs s)) R = [i] @ takeWhile (zombie (pcbs s)) (tl R)"
          "dropWhile (zombie (pcbs s)) R = dropWhile (zombie (pcbs s)) (tl R)"
          by (subst Req, simp add: z)+
        have step: "dispatch_loop (Suc fuel) l s = dispatch_loop fuel l u"
          using l ne t(1) z(1) pt u(1) by simp
        have "freed (takeWhile (zombie (pcbs s)) R) s s'"
          unfolding R' using u(3) s'(1) unfolding tw by (rule freed_trans)
        moreover have "\<forall>j<l. q_view s' (Ready j) = q_view s (Ready j)"
          using s'(4) u(4) t(4) by simp
        ultimately show ?thesis
          using s'(2,3,5) unfolding R'(2) step tw lp by blast
      qed
    qed
  qed
qed


lemma ready_seq_fuel:
  assumes "kinv H F K s"
  shows "length (ready_seq (q_view s)) + (MLQ_LEVELS - 0) < N_QNODES + MLQ_LEVELS + 1"
proof -
  have "length (ready_seq (q_view s)) \<le> n_used (q_view s)"
    by (simp add: ready_from_def n_used_def live_queues_def pcbs_in_def upt_rec eval_nat_numeral)
  then show ?thesis using kinvD(6) [OF assms] by simp
qed

text \<open>
  What \<open>_dispatch\<close> does to a state with the invariant: the zombies in front of the first
  ready process \<open>p\<close> are freed with their stacks, \<open>p\<close> is running with a full quantum, and the
  rest of the ready queues is as it was.
\<close>

definition dispatched :: "nat list \<Rightarrow> nat \<Rightarrow> nat list \<Rightarrow> kstate \<Rightarrow> kstate \<Rightarrow> bool" where
  "dispatched Z p rest s s' \<longleftrightarrow>
     current s' = Some p \<and> ready_seq (q_view s') = rest \<and>
     levels_from 0 (q_view s') = left_by_pick (zombie (pcbs s)) (levels_from 0 (q_view s)) \<and>
     pcbs s' = (\<lambda>i. if i = p then (pcbs s i)\<lparr>status := PROC_RUNNING, quantum := QUANTUM_DEFAULT\<rparr>
                    else if i \<in> set Z then (pcbs s i)\<lparr>status := PROC_FREE\<rparr> else pcbs s i) \<and>
     pcbs_in (q_view s') Free_pcbs = pcbs_in (q_view s) Free_pcbs @ Z \<and>
     stacks_in (q_view s') = stacks_in (q_view s) @ map (stack_idx (pcbs s)) Z \<and>
     (\<forall>q. q \<noteq> Free_pcbs \<and> q \<noteq> Free_stacks \<and> (\<forall>l. q \<noteq> Ready l) \<longrightarrow> q_view s' q = q_view s q) \<and>
     next_pid s' = next_pid s \<and> stacks s' = stacks s \<and> k_frame s s'"

lemma dispatch_dispatched:
  assumes k: "kinv H F K s" and p: "dropWhile (zombie (pcbs s)) (ready_seq (q_view s)) = p # rest"
  shows "\<exists>s'. dispatch s = Inr s' \<and> kinv (p # H) F K s' \<and>
     dispatched (takeWhile (zombie (pcbs s)) (ready_seq (q_view s))) p rest s s'"
proof -
  let ?Z = "takeWhile (zombie (pcbs s)) (ready_seq (q_view s))"
  from dispatch_loop_ok [OF k ready_seq_fuel [OF k] refl] p obtain t where
    t: "freed ?Z s t" "ready_seq (q_view t) = rest" "kinv (p # H) F K t"
      "dispatch_loop (N_QNODES + MLQ_LEVELS + 1) 0 s = Inr (Some p, t)"
      "levels_from 0 (q_view t) = left_by_pick (zombie (pcbs s)) (levels_from 0 (q_view s))" by auto
  have np: "p \<notin> set ?Z" using p by (metis dropWhile_eq_Cons_conv set_takeWhileD)
  let ?t = "set_pcb p (\<lambda>p. p\<lparr>quantum := QUANTUM_DEFAULT\<rparr>) (set_pcb p (\<lambda>p. p\<lparr>status := PROC_RUNNING\<rparr>) t)"
  have "live_pcb (pcbs t p)" by (rule owned_held(6) [OF kinvD(4) [OF t(3)]])
  then have "kinv (p # H) F K ?t" by (intro kinv_set_held t(3)) (simp_all add: live_pcb_def)
  then have "kinv (p # H) F K (?t\<lparr>current := Some p\<rparr>)" by (subst kinv_cong) auto
  moreover have "dispatch s = Inr (?t\<lparr>current := Some p\<rparr>)"
    using t(4) by (simp add: dispatch_def Let_def)
  moreover have "dispatched ?Z p rest s (?t\<lparr>current := Some p\<rparr>)"
    using t(1,2,5) np by (auto simp: dispatched_def freed_def)
  ultimately show ?thesis by blast
qed

lemma dispatch_none:
  assumes k: "kinv H F K s" and z: "\<forall>i \<in> set (ready_seq (q_view s)). zombie (pcbs s) i"
  shows "dispatch s = Inl (Panic ''null pcb in dispatch'')"
proof -
  have "dropWhile (zombie (pcbs s)) (ready_seq (q_view s)) = []" using z by simp
  with dispatch_loop_ok [OF k ready_seq_fuel [OF k] refl] show ?thesis
    by (auto simp: dispatch_def kpanic_def)
qed

text \<open>
  The idle process: some process in the ready queues that is not a zombie is enough for
  \<open>_dispatch\<close> to succeed.
\<close>

definition some_ready :: "kstate \<Rightarrow> bool" where
  "some_ready s \<longleftrightarrow> (\<exists>i \<in> set (ready_seq (q_view s)). status (pcbs s i) = PROC_READY)"

lemma dispatch_some_ready:
  assumes "kinv H F K s" "some_ready s"
  obtains p rest s' where
    "dropWhile (zombie (pcbs s)) (ready_seq (q_view s)) = p # rest" "status (pcbs s p) = PROC_READY"
    "dispatch s = Inr s'" "kinv (p # H) F K s'"
    "dispatched (takeWhile (zombie (pcbs s)) (ready_seq (q_view s))) p rest s s'"
proof -
  obtain p rest where p: "dropWhile (zombie (pcbs s)) (ready_seq (q_view s)) = p # rest"
    using assms(2) by (cases "dropWhile (zombie (pcbs s)) (ready_seq (q_view s))")
      (auto simp: some_ready_def zombie_def)
  then have "\<not> zombie (pcbs s) p" by (auto dest: dropWhile_eq_Cons_conv [THEN iffD1])
  moreover have "p \<in> set (ready_seq (q_view s))"
    using p set_dropWhileD [of p "zombie (pcbs s)" "ready_seq (q_view s)"] by simp
  ultimately have "p \<in> set (ready_seq (q_view s))" "\<not> zombie (pcbs s) p" by blast+
  then have "status (pcbs s p) = PROC_READY"
    using ready_status [OF assms(1)] by (auto simp: zombie_def)
  with dispatch_dispatched [OF assms(1) p] p that show thesis by blast
qed

end
