(* ===== verification/Sio.thy ===== *)
theory Sio
  imports Scheduler
begin

text \<open>
  sio.c: the serial line with its buffers of characters read from and written to it.
  \<open>inlast\<close> and the like are offsets from the start of their buffer.  The code does not check
  \<open>_inlast\<close> and \<open>_outlast\<close> against the end of the buffer; an access behind it is the
  outcome \<open>Overrun\<close>.
\<close>

section \<open>The code\<close>

abbreviation (input) BUF_SIZE :: nat where "BUF_SIZE \<equiv> 1024"

abbreviation (input) UA4_RXD :: u32 where "UA4_RXD \<equiv> 0x3f8"
abbreviation (input) UA4_TXD :: u32 where "UA4_TXD \<equiv> 0x3f8"
abbreviation (input) UA4_IER :: u32 where "UA4_IER \<equiv> 0x3f9"
abbreviation (input) UA4_EIR :: u32 where "UA4_EIR \<equiv> 0x3fa"
abbreviation (input) UA4_FCR :: u32 where "UA4_FCR \<equiv> 0x3fa"
abbreviation (input) UA4_LCR :: u32 where "UA4_LCR \<equiv> 0x3fb"
abbreviation (input) UA4_MCR :: u32 where "UA4_MCR \<equiv> 0x3fc"
abbreviation (input) UA4_LBGD_L :: u32 where "UA4_LBGD_L \<equiv> 0x3f8"
abbreviation (input) UA4_LBGD_H :: u32 where "UA4_LBGD_H \<equiv> 0x3f9"
abbreviation (input) UA4_IER_RX_INT_ENABLE :: u8 where "UA4_IER_RX_INT_ENABLE \<equiv> 0x01"
abbreviation (input) UA4_IER_TX_INT_ENABLE :: u8 where "UA4_IER_TX_INT_ENABLE \<equiv> 0x02"
abbreviation (input) UA4_EIR_INT_PRI_MASK :: u32 where "UA4_EIR_INT_PRI_MASK \<equiv> 0x0f"
abbreviation (input) UA4_EIR_NO_INT :: u32 where "UA4_EIR_NO_INT \<equiv> 0x01"
abbreviation (input) UA4_EIR_TX_INT_PENDING :: u32 where "UA4_EIR_TX_INT_PENDING \<equiv> 0x02"
abbreviation (input) UA4_EIR_RX_INT_PENDING :: u32 where "UA4_EIR_RX_INT_PENDING \<equiv> 0x04"
abbreviation (input) UA5_FCR_FIFO_RESET :: u32 where "UA5_FCR_FIFO_RESET \<equiv> 0x00"
abbreviation (input) UA5_FCR_FIFO_EN :: u32 where "UA5_FCR_FIFO_EN \<equiv> 0x01"
abbreviation (input) UA5_FCR_RXSR :: u32 where "UA5_FCR_RXSR \<equiv> 0x02"
abbreviation (input) UA5_FCR_TXSR :: u32 where "UA5_FCR_TXSR \<equiv> 0x04"
abbreviation (input) UA4_LCR_BANK0 :: u32 where "UA4_LCR_BANK0 \<equiv> 0x00"
abbreviation (input) UA4_LCR_BANK1 :: u32 where "UA4_LCR_BANK1 \<equiv> 0x80"
abbreviation (input) UA4_LCR_BITS_8 :: u32 where "UA4_LCR_BITS_8 \<equiv> 0x03"
abbreviation (input) UA4_LCR_1_STOP_BIT :: u32 where "UA4_LCR_1_STOP_BIT \<equiv> 0x00"
abbreviation (input) UA4_LCR_NO_PARITY :: u32 where "UA4_LCR_NO_PARITY \<equiv> 0x00"
abbreviation (input) UA4_MCR_DTR :: u32 where "UA4_MCR_DTR \<equiv> 0x01"
abbreviation (input) UA4_MCR_RTS :: u32 where "UA4_MCR_RTS \<equiv> 0x02"
abbreviation (input) UA4_MCR_ISEN :: u32 where "UA4_MCR_ISEN \<equiv> 0x08"
abbreviation (input) BAUD_9600 :: u32 where "BAUD_9600 \<equiv> 12"

subsection \<open>The interrupt service routine\<close>

text \<open>The transmitter is ready for another character.\<close>

definition sio_tx :: "kstate \<Rightarrow> kstate outcome" where
  "sio_tx s =
     (if sending s \<and> 0 < outcount s then
        if outnext s < BUF_SIZE then
          let s = outb UA4_TXD (scast (outbuffer s (outnext s))) s;
              s = s\<lparr>outnext := outnext s + 1\<rparr>
          in Inr (s\<lparr>outcount := outcount s - 1\<rparr>)
        else Inl (Overrun ''outbuffer'')
      else
        let s = s\<lparr>outcount := 0\<rparr>;
            s = s\<lparr>outnext := 0\<rparr>;
            s = s\<lparr>outlast := 0\<rparr>
        in Inr (s\<lparr>sending := False\<rparr>))"

text \<open>A character \<open>ch\<close> has come in.\<close>

definition sio_rx :: "u32 \<Rightarrow> kstate \<Rightarrow> kstate outcome" where
  "sio_rx ch s =
     (let ch = (if ch = 13 then 10 else ch) in
      if \<not> q_isempty Reading s then
        case q_remove Reading s of (p, s) \<Rightarrow>
          bindE (as_pcb p) (\<lambda>pcb.
            case pcb of
              None \<Rightarrow> kpanic ''sio isr - serial wakeup failed''
            | Some i \<Rightarrow>
                bindE (deref (context_of (pcbs s i))) (\<lambda>c.
                  let s = ctx_set c CTX_EAX (ch AND 0xff) s
                  in bindE (schedule i s) (\<lambda>(stat, s). Inr s)))
      else if incount s < of_nat BUF_SIZE then
        if inlast s < BUF_SIZE then
          let s = s\<lparr>inbuffer := (inbuffer s)(inlast s := ucast ch)\<rparr>;
              s = s\<lparr>inlast := inlast s + 1\<rparr>
          in Inr (s\<lparr>incount := incount s + 1\<rparr>)
        else Inl (Overrun ''inbuffer'')
      else Inr s)"

text \<open>
  The loop of the routine takes at least one value from the device in every round, so one
  round more than there are values is enough to see the end of it.
\<close>

fun isr_sio_loop :: "nat \<Rightarrow> kstate \<Rightarrow> kstate outcome" where
  "isr_sio_loop 0 s = Inl Hang"
| "isr_sio_loop (Suc fuel) s =
     bindE (inb UA4_EIR s) (\<lambda>(v, s).
       let eir = v AND UA4_EIR_INT_PRI_MASK in
       if eir = UA4_EIR_TX_INT_PENDING then bindE (sio_tx s) (isr_sio_loop fuel)
       else if eir = UA4_EIR_RX_INT_PENDING then
         bindE (inb UA4_RXD s) (\<lambda>(ch, s). bindE (sio_rx ch s) (isr_sio_loop fuel))
       else if eir = UA4_EIR_NO_INT then Inr (outb PIC_MASTER_CMD_PORT PIC_EOI s)
       else kpanic ''sio isr - unknown device status'')"

definition isr_sio :: "kstate \<Rightarrow> kstate outcome" where
  "isr_sio s = isr_sio_loop (Suc (length (inq s))) s"

subsection \<open>Initialisation\<close>

definition sio_init :: "kstate \<Rightarrow> kstate" where
  "sio_init s =
     (let s = s\<lparr>inbuffer := (\<lambda>i. if i < BUF_SIZE then 0 else inbuffer s i)\<rparr>;
          s = s\<lparr>innext := 0\<rparr>;
          s = s\<lparr>inlast := 0\<rparr>;
          s = s\<lparr>incount := 0\<rparr>;
          s = s\<lparr>outbuffer := (\<lambda>i. if i < BUF_SIZE then 0 else outbuffer s i)\<rparr>;
          s = s\<lparr>outnext := 0\<rparr>;
          s = s\<lparr>outlast := 0\<rparr>;
          s = s\<lparr>outcount := 0\<rparr>;
          s = s\<lparr>sending := False\<rparr>;
          s = outb UA4_FCR 0x20 s;
          s = outb UA4_FCR UA5_FCR_FIFO_RESET s;
          s = outb UA4_FCR UA5_FCR_FIFO_EN s;
          s = outb UA4_FCR (UA5_FCR_FIFO_EN OR UA5_FCR_RXSR) s;
          s = outb UA4_FCR (UA5_FCR_FIFO_EN OR UA5_FCR_RXSR OR UA5_FCR_TXSR) s;
          s = outb UA4_IER 0 s;
          s = s\<lparr>ier := 0\<rparr>;
          s = outb UA4_LCR UA4_LCR_BANK1 s;
          s = outb UA4_LBGD_L (BAUD_9600 AND 0xff) s;
          s = outb UA4_LBGD_H (drop_bit 8 BAUD_9600) s;
          s = outb UA4_LCR (UA4_LCR_BANK0 OR UA4_LCR_BITS_8 OR UA4_LCR_1_STOP_BIT OR UA4_LCR_NO_PARITY) s;
          s = outb UA4_MCR (UA4_MCR_ISEN OR UA4_MCR_DTR OR UA4_MCR_RTS) s
      in c_puts '' sio'' s)"

definition sio_enable :: "bool \<Rightarrow> bool \<Rightarrow> kstate \<Rightarrow> u8 \<times> kstate" where
  "sio_enable xmit rcv s =
     (let old = ier s;
          s = (if xmit then s\<lparr>ier := ier s OR UA4_IER_TX_INT_ENABLE\<rparr>
               else s\<lparr>ier := ier s AND NOT UA4_IER_TX_INT_ENABLE\<rparr>);
          s = (if rcv then s\<lparr>ier := ier s OR UA4_IER_RX_INT_ENABLE\<rparr>
               else s\<lparr>ier := ier s AND NOT UA4_IER_RX_INT_ENABLE\<rparr>);
          s = (if old \<noteq> ier s then outb UA4_IER (ucast (ier s)) s else s)
      in (old, s))"

subsection \<open>The calls\<close>

text \<open>The result is an \<open>int\<close>: a character, or -1.\<close>

definition sio_read :: "u32 kop" where
  "sio_read s =
     (if 0 < incount s then
        if innext s < BUF_SIZE then
          let ch = scast (inbuffer s (innext s)) AND 0xff;
              s = s\<lparr>innext := innext s + 1\<rparr>;
              s = s\<lparr>incount := incount s - 1\<rparr>;
              s = (if incount s < 1 then s\<lparr>innext := 0, inlast := 0\<rparr> else s)
          in Inr (ch, s)
        else Inl (Overrun ''inbuffer'')
      else Inr (-1, s))"

function sio_write :: "u32 \<Rightarrow> kstate \<Rightarrow> kstate outcome" where
  "sio_write ch s =
     bindE (if ch = 10 then sio_write 13 s else Inr s) (\<lambda>s.
       if sending s then
         if outlast s < BUF_SIZE then
           let s = s\<lparr>outbuffer := (outbuffer s)(outlast s := ucast ch)\<rparr>;
               s = s\<lparr>outlast := outlast s + 1\<rparr>
           in Inr (s\<lparr>outcount := outcount s + 1\<rparr>)
         else Inl (Overrun ''outbuffer'')
       else
         let s = s\<lparr>sending := True\<rparr>
         in Inr (outb UA4_TXD ch s))"
  by pat_completeness auto
termination
  by (relation "measure (\<lambda>(ch, s). if ch = 10 then 1 else 0)") auto

declare sio_write.simps [simp del]


section \<open>Character streams\<close>

text \<open>
  Both buffers are used as a stream: what is put in comes out in order, each element
  possibly translated into several.  A stream has \<open>cap\<close> places, and places are only
  free again when the stream has run empty.
\<close>

locale char_stream =
  fixes inv :: "'s \<Rightarrow> bool"
    and data :: "'s \<Rightarrow> 'c list"
    and used :: "'s \<Rightarrow> nat"
    and cap :: nat
    and translate :: "'c \<Rightarrow> 'c list"
    and put :: "'c \<Rightarrow> 's \<Rightarrow> 's outcome"
    and get :: "'s \<Rightarrow> ('c \<times> 's) outcome"
  assumes put_ok: "inv s \<Longrightarrow> used s + length (translate c) \<le> cap \<Longrightarrow>
      \<exists>s'. put c s = Inr s' \<and> inv s' \<and> data s' = data s @ translate c \<and>
        used s' = used s + length (translate c)"
    and get_ok: "inv s \<Longrightarrow> data s = c # cs \<Longrightarrow>
      \<exists>s'. get s = Inr (c, s') \<and> inv s' \<and> data s' = cs \<and> used s' \<le> used s"

fun put_all :: "('c \<Rightarrow> 's \<Rightarrow> 's outcome) \<Rightarrow> 'c list \<Rightarrow> 's \<Rightarrow> 's outcome" where
  "put_all put [] s = Inr s"
| "put_all put (c # cs) s = bindE (put c s) (put_all put cs)"

fun get_n :: "('s \<Rightarrow> ('c \<times> 's) outcome) \<Rightarrow> nat \<Rightarrow> 's \<Rightarrow> ('c list \<times> 's) outcome" where
  "get_n get 0 s = Inr ([], s)"
| "get_n get (Suc n) s =
     bindE (get s) (\<lambda>(c, s). bindE (get_n get n s) (\<lambda>(cs, s). Inr (c # cs, s)))"

context char_stream
begin

lemma put_all_data:
  assumes "inv s" "used s + length (concat (map translate cs)) \<le> cap"
  shows "\<exists>s'. put_all put cs s = Inr s' \<and> inv s' \<and> data s' = data s @ concat (map translate cs) \<and>
     used s' = used s + length (concat (map translate cs))"
  using assms
proof (induction cs arbitrary: s)
  case Nil
  then show ?case by auto
next
  case (Cons c cs)
  then have "used s + length (translate c) \<le> cap" by simp
  from put_ok [OF Cons.prems(1) this] obtain t where t: "put c s = Inr t" "inv t"
    "data t = data s @ translate c" "used t = used s + length (translate c)" by blast
  have "used t + length (concat (map translate cs)) \<le> cap" using Cons.prems(2) t(4) by simp
  from Cons.IH [OF t(2) this] t show ?case by auto
qed

lemma get_n_data:
  assumes "inv s" "n \<le> length (data s)"
  shows "\<exists>s'. get_n get n s = Inr (take n (data s), s') \<and> inv s' \<and> data s' = drop n (data s)"
  using assms
proof (induction n arbitrary: s)
  case 0
  then show ?case by auto
next
  case (Suc n)
  then obtain c cs where d: "data s = c # cs" by (cases "data s") auto
  from get_ok [OF Suc.prems(1) d] obtain t where t: "get s = Inr (c, t)" "inv t" "data t = cs" by blast
  have "n \<le> length (data t)" using Suc.prems(2) d t(3) by simp
  from Suc.IH [OF t(2) this] t d show ?case by auto
qed

lemma stream_order:
  assumes "inv s" "used s + length (concat (map translate cs)) \<le> cap"
  shows "\<exists>t s'. put_all put cs s = Inr t \<and>
     get_n get (length (data s @ concat (map translate cs))) t = Inr (data s @ concat (map translate cs), s') \<and>
     data s' = []"
proof -
  from put_all_data [OF assms] obtain t where t: "put_all put cs s = Inr t" "inv t"
    "data t = data s @ concat (map translate cs)" by blast
  from get_n_data [OF t(2), of "length (data t)"] t show ?thesis by auto
qed

end

subsection \<open>The input buffer\<close>

definition in_data :: "kstate \<Rightarrow> u8 list" where
  "in_data s = map (inbuffer s) [innext s..<inlast s]"

definition in_ok :: "kstate \<Rightarrow> bool" where
  "in_ok s \<longleftrightarrow> innext s + unat (incount s) = inlast s \<and> inlast s \<le> BUF_SIZE \<and>
     (incount s = 0 \<longrightarrow> inlast s = 0)"

definition cr_to_lf :: "u8 \<Rightarrow> u8 list" where
  "cr_to_lf c = [if c = 13 then 10 else c]"

text \<open>\<open>_sio_read\<close> as the one who calls it sees it: a character, if it is not negative.\<close>

definition in_get :: "kstate \<Rightarrow> (u8 \<times> kstate) outcome" where
  "in_get s = bindE (sio_read s) (\<lambda>(ch, s). if ch = -1 then Inl Null_deref else Inr (ucast ch, s))"

lemma of_nat_BUF: "incount s < of_nat BUF_SIZE \<longleftrightarrow> unat (incount s) < BUF_SIZE"
  by (simp add: word_less_nat_alt)

lemma in_data_simps:
  "innext s \<le> inlast s \<Longrightarrow>
   in_data (s\<lparr>inbuffer := (inbuffer s)(inlast s := c), inlast := Suc (inlast s), incount := n\<rparr>) = in_data s @ [c]"
  by (auto simp: in_data_def)

lemma sio_rx_buffer:
  assumes "in_ok s" "q_isempty Reading s" "inlast s < BUF_SIZE"
  shows "sio_rx (ucast c) s =
     Inr (s\<lparr>inbuffer := (inbuffer s)(inlast s := hd (cr_to_lf c)), inlast := Suc (inlast s),
            incount := incount s + 1\<rparr>)"
proof -
  have "unat (incount s) < BUF_SIZE" using assms(1,3) by (auto simp: in_ok_def)
  then have "incount s < of_nat BUF_SIZE" by (simp only: of_nat_BUF)
  moreover have "(ucast c = (13 :: u32)) = (c = 13)"
    using ucast_8_32_inj [of c 13] by simp
  ultimately show ?thesis using assms(2,3) by (simp add: sio_rx_def cr_to_lf_def Let_def)
qed

lemma in_ok_rx:
  assumes "in_ok s" "inlast s < BUF_SIZE"
  shows "in_ok (s\<lparr>inbuffer := f, inlast := Suc (inlast s), incount := incount s + 1\<rparr>)"
proof -
  have "unat (incount s) < 1024" using assms by (auto simp: in_ok_def)
  then have "unat (incount s + 1) = Suc (unat (incount s))"
    by (simp add: unat_word_ariths)
  then show ?thesis using assms by (auto simp: in_ok_def)
qed

lemma sio_read_ok:
  assumes ok: "in_ok s" and d: "in_data s = c # cs"
  shows "\<exists>s'. sio_read s = Inr (ucast c, s') \<and> in_ok s' \<and> in_data s' = cs \<and> inlast s' \<le> inlast s \<and>
     q_isempty Reading s' = q_isempty Reading s"
proof -
  have lt: "innext s < inlast s" using d by (cases "innext s < inlast s") (auto simp: in_data_def)
  then have c: "c = inbuffer s (innext s)" "cs = map (inbuffer s) [Suc (innext s)..<inlast s]"
    using d by (auto simp: in_data_def upt_conv_Cons)
  have pos: "0 < unat (incount s)" using ok lt by (auto simp: in_ok_def)
  then have n0: "0 < incount s" by (simp add: word_less_nat_alt)
  have dec: "unat (incount s - 1) = unat (incount s) - 1" using pos by (simp add: unat_minus_one unat_gt_0)
  have b: "innext s < BUF_SIZE" using ok lt by (auto simp: in_ok_def)
  show ?thesis
  proof (cases "incount s = 1")
    case True
    then have "inlast s = Suc (innext s)" using ok by (auto simp: in_ok_def)
    then show ?thesis using True b c
      by (simp add: sio_read_def Let_def scast_and_ff in_ok_def in_data_def q_isempty_def)
  next
    case False
    then have "\<not> incount s - 1 < 1" using n0 by (simp add: word_less_1)
    moreover from this have "incount s - 1 \<noteq> 0" by auto
    ultimately show ?thesis using n0 b c dec ok pos
      by (simp add: sio_read_def Let_def scast_and_ff in_ok_def in_data_def q_isempty_def)
  qed
qed

lemma sio_read_empty:
  "in_ok s \<Longrightarrow> in_data s = [] \<Longrightarrow> sio_read s = Inr (-1, s)"
  by (auto simp: in_ok_def in_data_def sio_read_def word_less_nat_alt)

interpretation inp: char_stream "\<lambda>s. in_ok s \<and> q_isempty Reading s" in_data inlast BUF_SIZE cr_to_lf
  "\<lambda>c. sio_rx (ucast c)" in_get
proof (unfold_locales, goal_cases)
  case (1 s c)
  then have r: "in_ok s" "q_isempty Reading s" "inlast s < BUF_SIZE" by (auto simp: cr_to_lf_def)
  then have "innext s \<le> inlast s" by (auto simp: in_ok_def)
  then show ?case using r in_ok_rx [OF r(1,3)]
    by (auto simp: sio_rx_buffer [OF r] in_data_simps cr_to_lf_def q_isempty_def)
next
  case (2 s c cs)
  have "ucast c \<noteq> (-1 :: u32)"
  proof
    assume "ucast c = (-1 :: u32)"
    then have "unat (ucast c :: u32) = unat (-1 :: u32)" by simp
    moreover have "unat (ucast c :: u32) < 256" using unat_u8_lt [of c] by simp
    moreover have "unat (-1 :: u32) = 4294967295"
      by (simp add: unsigned_minus_1_eq_mask mask_eq_exp_minus_1)
    ultimately show False by simp
  qed
  with sio_read_ok [of s c cs] 2 show ?case by (auto simp: in_get_def)
qed

text \<open>
  The guard of the input buffer counts the characters that are in it, not the places that
  are used: when the last place is used but the first characters are read, the next
  character is stored behind the buffer.
\<close>

lemma sio_rx_overrun:
  assumes "in_ok s" "q_isempty Reading s" "inlast s = BUF_SIZE" "innext s \<noteq> 0"
  shows "sio_rx ch s = Inl (Overrun ''inbuffer'')"
proof -
  have "unat (incount s) < BUF_SIZE" using assms by (auto simp: in_ok_def)
  then have "incount s < of_nat BUF_SIZE" by (simp only: of_nat_BUF)
  then show ?thesis using assms(2,3) by (simp add: sio_rx_def Let_def)
qed

lemma sio_rx_full:
  assumes "in_ok s" "q_isempty Reading s" "inlast s = BUF_SIZE" "innext s = 0"
  shows "sio_rx ch s = Inr s"
proof -
  have "unat (incount s) = BUF_SIZE" using assms by (auto simp: in_ok_def)
  then have "\<not> incount s < of_nat BUF_SIZE" by (simp only: of_nat_BUF)
  then show ?thesis using assms(2) by (simp add: sio_rx_def Let_def)
qed


subsection \<open>The output buffer\<close>

definition out_data :: "kstate \<Rightarrow> u8 list" where
  "out_data s = map (outbuffer s) [outnext s..<outlast s]"

definition out_ok :: "kstate \<Rightarrow> bool" where
  "out_ok s \<longleftrightarrow> outnext s + unat (outcount s) = outlast s \<and> outlast s \<le> BUF_SIZE"

definition lf_to_crlf :: "u8 \<Rightarrow> u8 list" where
  "lf_to_crlf c = (if c = 10 then [13, 10] else [c])"

text \<open>A transmitter interrupt, with the character that it sends.\<close>

definition out_get :: "kstate \<Rightarrow> (u8 \<times> kstate) outcome" where
  "out_get s = bindE (sio_tx s) (\<lambda>s. case last (io s) of Out _ v \<Rightarrow> Inr (ucast v, s) | _ \<Rightarrow> Inl Wild)"

text \<open>The state with one character more in the output buffer.\<close>

definition out_add :: "u32 \<Rightarrow> kstate \<Rightarrow> kstate" where
  "out_add ch s = s\<lparr>outbuffer := (outbuffer s)(outlast s := ucast ch), outlast := Suc (outlast s),
     outcount := outcount s + 1\<rparr>"

lemma out_add_ok:
  assumes "out_ok s" "outlast s < BUF_SIZE"
  shows "out_ok (out_add ch s)" "out_data (out_add ch s) = out_data s @ [ucast ch]"
    "outlast (out_add ch s) = Suc (outlast s)" "sending (out_add ch s) = sending s"
proof -
  have "unat (outcount s) < 1024" using assms by (auto simp: out_ok_def)
  then have "unat (outcount s + 1) = Suc (unat (outcount s))" by (simp add: unat_word_ariths)
  with assms show "out_ok (out_add ch s)" by (auto simp: out_ok_def out_add_def)
  have "outnext s \<le> outlast s" using assms by (auto simp: out_ok_def)
  then show "out_data (out_add ch s) = out_data s @ [ucast ch]" by (auto simp: out_data_def out_add_def)
qed (simp_all add: out_add_def)

lemma sio_write_one:
  assumes "sending s" "ch \<noteq> 10"
  shows "sio_write ch s = (if outlast s < BUF_SIZE then Inr (out_add ch s) else Inl (Overrun ''outbuffer''))"
  using assms by (subst sio_write.simps) (simp add: Let_def out_add_def)

lemma sio_write_lf:
  assumes "sending s"
  shows "sio_write 10 s =
    (if outlast s + 1 < BUF_SIZE then Inr (out_add 10 (out_add 13 s)) else Inl (Overrun ''outbuffer''))"
proof (cases "outlast s < BUF_SIZE")
  case True
  have "sending (out_add 13 s)" "outlast (out_add 13 s) = Suc (outlast s)"
    using assms by (simp_all add: out_add_def)
  with True assms show ?thesis
    by (subst sio_write.simps) (simp add: sio_write_one Let_def, simp add: out_add_def)
next
  case False
  with assms show ?thesis by (subst sio_write.simps) (simp add: sio_write_one)
qed

text \<open>While nothing is being sent, the first character goes to the device at once.\<close>

lemma sio_write_idle:
  assumes "\<not> sending s" "ch \<noteq> 10"
  shows "sio_write ch s = Inr (outb UA4_TXD ch (s\<lparr>sending := True\<rparr>))"
  using assms by (subst sio_write.simps) (simp add: Let_def)

lemma sio_tx_send:
  assumes ok: "out_ok s" and snd: "sending s" and d: "out_data s = c # cs"
  shows "\<exists>s'. sio_tx s = Inr s' \<and> io s' = io s @ [Out UA4_TXD (scast c)] \<and> out_ok s' \<and>
     out_data s' = cs \<and> sending s' \<and> outlast s' = outlast s"
proof -
  have lt: "outnext s < outlast s" using d by (cases "outnext s < outlast s") (auto simp: out_data_def)
  then have c: "c = outbuffer s (outnext s)" "cs = map (outbuffer s) [Suc (outnext s)..<outlast s]"
    using d by (auto simp: out_data_def upt_conv_Cons)
  have pos: "0 < unat (outcount s)" using ok lt by (auto simp: out_ok_def)
  then have n0: "0 < outcount s" by (simp add: word_less_nat_alt)
  have "unat (outcount s - 1) = unat (outcount s) - 1" using pos by (simp add: unat_minus_one unat_gt_0)
  moreover have "outnext s < BUF_SIZE" using ok lt by (auto simp: out_ok_def)
  ultimately show ?thesis using ok snd c n0 lt
    by (simp add: sio_tx_def Let_def outb_def out_ok_def out_data_def)
qed

text \<open>With nothing left to send, the transmission ends and the buffer starts afresh.\<close>

lemma sio_tx_done:
  assumes "out_ok s" "out_data s = []"
  shows "\<exists>s'. sio_tx s = Inr s' \<and> io s' = io s \<and> out_ok s' \<and> out_data s' = [] \<and> outlast s' = 0 \<and> \<not> sending s'"
proof -
  have "unat (outcount s) = 0" using assms by (auto simp: out_ok_def out_data_def)
  then have "outcount s = 0" by (simp add: unsigned_eq_0_iff)
  then show ?thesis by (simp add: sio_tx_def Let_def out_ok_def out_data_def)
qed

lemma ucast_scast_8 [simp]: "ucast (scast (c :: u8) :: u32) = c"
proof (rule bit_word_eqI)
  fix n assume n: "n < LENGTH(8)"
  then have "min n 7 = n" by simp
  with n show "bit (ucast (scast c :: u32) :: u8) n = bit c n" by (simp add: bit_simps)
qed

interpretation outp: char_stream "\<lambda>s. out_ok s \<and> sending s" out_data outlast BUF_SIZE lf_to_crlf
  "\<lambda>c. sio_write (ucast c)" out_get
proof (unfold_locales, goal_cases)
  case (1 s c)
  then have ok: "out_ok s" "sending s" by auto
  have ten: "ucast c = (10 :: u32) \<longleftrightarrow> c = 10" using ucast_8_32_inj [of c 10] by simp
  show ?case
  proof (cases "c = 10")
    case True
    then have lt: "outlast s < BUF_SIZE" "outlast s + 1 < BUF_SIZE" using 1(2) by (auto simp: lf_to_crlf_def)
    note a = out_add_ok [OF ok(1) lt(1), of 13]
    have "outlast (out_add 13 s) < BUF_SIZE" using lt a(3) by simp
    note b = out_add_ok [OF a(1) this, of 10]
    have "sio_write (ucast c) s = Inr (out_add 10 (out_add 13 s))"
      using True lt by (simp add: sio_write_lf [OF ok(2)])
    then show ?thesis using True a b ok by (simp add: lf_to_crlf_def)
  next
    case False
    then have lt: "outlast s < BUF_SIZE" using 1(2) by (auto simp: lf_to_crlf_def)
    note a = out_add_ok [OF ok(1) lt, of "ucast c"]
    show ?thesis using False lt a ok ten by (simp add: lf_to_crlf_def sio_write_one)
  qed
next
  case (2 s c cs)
  with sio_tx_send [of s c cs] obtain s' where s': "sio_tx s = Inr s'"
    "io s' = io s @ [Out UA4_TXD (scast c)]" "out_ok s'" "out_data s' = cs" "sending s'"
    "outlast s' = outlast s" by blast
  have "out_get s = Inr (c, s')" using s'(1,2) by (simp add: out_get_def)
  with s' show ?case by simp
qed


section \<open>The invariant of the kernel\<close>

text \<open>What the routines of this module leave alone.\<close>

lemma kinv_sio_fields [simp]:
  "kinv H F K (s\<lparr>inbuffer := f1\<rparr>) = kinv H F K s" "kinv H F K (s\<lparr>inlast := n\<rparr>) = kinv H F K s"
  "kinv H F K (s\<lparr>innext := n\<rparr>) = kinv H F K s" "kinv H F K (s\<lparr>incount := w\<rparr>) = kinv H F K s"
  "kinv H F K (s\<lparr>outbuffer := f1\<rparr>) = kinv H F K s" "kinv H F K (s\<lparr>outlast := n\<rparr>) = kinv H F K s"
  "kinv H F K (s\<lparr>outnext := n\<rparr>) = kinv H F K s" "kinv H F K (s\<lparr>outcount := w\<rparr>) = kinv H F K s"
  "kinv H F K (s\<lparr>sending := b\<rparr>) = kinv H F K s" "kinv H F K (s\<lparr>io := es\<rparr>) = kinv H F K s"
  "kinv H F K (s\<lparr>inq := vs\<rparr>) = kinv H F K s" "kinv H F K (s\<lparr>mem := m\<rparr>) = kinv H F K s"
  "kinv H F K (outb p v s) = kinv H F K s" "kinv H F K (s\<lparr>current := c\<rparr>) = kinv H F K s"
  "kinv H F K (s\<lparr>stacks := st\<rparr>) = kinv H F K s"
  by (rule kinv_cong; simp add: outb_def)+

lemma kinv_sio_tx:
  assumes "kinv H F K s" "out_ok s"
  shows "\<exists>s'. sio_tx s = Inr s' \<and> kinv H F K s' \<and> out_ok s' \<and> in_ok s' = in_ok s \<and>
     current s' = current s \<and> pcbs s' = pcbs s \<and> q_view s' = q_view s \<and> inq s' = inq s \<and>
     inlast s' = inlast s \<and> stacks s' = stacks s"
proof -
  have v: "q_view s' = q_view s"
    if "queues s' = queues s" "qnodes s' = qnodes s" "free_qnodes s' = free_qnodes s" for s'
    using that by (rule q_repr_cong(5))
  show ?thesis
  proof (cases "sending s \<and> 0 < outcount s")
    case True
    then have pos: "0 < unat (outcount s)" by (simp add: word_less_nat_alt)
    then have "unat (outcount s - 1) = unat (outcount s) - 1" by (simp add: unat_minus_one unat_gt_0)
    moreover have "outnext s < BUF_SIZE" using assms(2) pos by (auto simp: out_ok_def)
    ultimately show ?thesis using True assms pos
      by (auto simp: sio_tx_def Let_def outb_def out_ok_def in_ok_def intro!: v)
  next
    case False
    then show ?thesis using assms
      by (auto simp: sio_tx_def Let_def out_ok_def in_ok_def intro!: v)
  qed
qed

end
