(* ===== verification/Shared_Mem.thy ===== *)
theory Shared_Mem
  imports Kernel_Inv
begin

text \<open>
  shared_mem.c: the shared memory segments, the queue of free ones, and the memory that is
  handed out to them.  A segment is a struct of 24 bytes in the byte memory, reached by its
  address; the address 0 is NULL.
\<close>

section \<open>The struct\<close>

abbreviation (input) SHM_SIZEOF :: u32 where "SHM_SIZEOF \<equiv> 24"

definition shm_address :: "u32 \<Rightarrow> kstate \<Rightarrow> u32" where
  "shm_address a s = ld32 a s"

definition set_shm_address :: "u32 \<Rightarrow> u32 \<Rightarrow> kstate \<Rightarrow> kstate" where
  "set_shm_address a v s = st32 a v s"

definition shm_num_members :: "u32 \<Rightarrow> kstate \<Rightarrow> u32" where
  "shm_num_members a s = ld32 (a + 4) s"

definition set_shm_num_members :: "u32 \<Rightarrow> u32 \<Rightarrow> kstate \<Rightarrow> kstate" where
  "set_shm_num_members a v s = st32 (a + 4) v s"

definition shm_size :: "u32 \<Rightarrow> kstate \<Rightarrow> u32" where
  "shm_size a s = ld32 (a + 8) s"

definition set_shm_size :: "u32 \<Rightarrow> u32 \<Rightarrow> kstate \<Rightarrow> kstate" where
  "set_shm_size a v s = st32 (a + 8) v s"

definition set_shm_mode :: "u32 \<Rightarrow> u32 \<Rightarrow> kstate \<Rightarrow> kstate" where
  "set_shm_mode a v s = st32 (a + 12) v s"

definition shm_id :: "u32 \<Rightarrow> kstate \<Rightarrow> u16" where
  "shm_id a s = ld16 (a + 16) s"

definition set_shm_id :: "u32 \<Rightarrow> u16 \<Rightarrow> kstate \<Rightarrow> kstate" where
  "set_shm_id a v s = st16 (a + 16) v s"

definition shm_current_pids :: "u32 \<Rightarrow> nat \<Rightarrow> kstate \<Rightarrow> u16" where
  "shm_current_pids a k s = ld16 (a + 18 + 2 * of_nat k) s"

definition set_shm_current_pids :: "u32 \<Rightarrow> nat \<Rightarrow> u16 \<Rightarrow> kstate \<Rightarrow> kstate" where
  "set_shm_current_pids a k v s = st16 (a + 18 + 2 * of_nat k) v s"

definition shm_status :: "u32 \<Rightarrow> kstate \<Rightarrow> u8" where
  "shm_status a s = ld8 (a + 22) s"

definition set_shm_status :: "u32 \<Rightarrow> u8 \<Rightarrow> kstate \<Rightarrow> kstate" where
  "set_shm_status a v s = st8 (a + 22) v s"

lemmas shm_field_defs = shm_address_def set_shm_address_def shm_num_members_def set_shm_num_members_def
  shm_size_def set_shm_size_def set_shm_mode_def shm_id_def set_shm_id_def shm_current_pids_def
  set_shm_current_pids_def shm_status_def set_shm_status_def

section \<open>The code\<close>

definition mem_init :: "linkage \<Rightarrow> kstate \<Rightarrow> kstate" where
  "mem_init lk s =
     (let s = memclr (memory_addr lk) MAX_MEM_SIZE s;
          s = s\<lparr>free_ptr := memory_addr lk\<rparr>
      in c_puts '' clearmem '' s)"

definition shm_malloc :: "linkage \<Rightarrow> u32 \<Rightarrow> kstate \<Rightarrow> u32 \<times> kstate" where
  "shm_malloc lk sz s =
     (let new_mem = free_ptr s in
      if memory_addr lk + MAX_MEM_SIZE < free_ptr s + sz then (0, s)
      else (new_mem, s\<lparr>free_ptr := free_ptr s + sz\<rparr>))"

definition shm_free :: "u32 \<Rightarrow> kstate \<Rightarrow> kstate" where
  "shm_free m s = s"

definition shm_alloc :: "u32 kop" where
  "shm_alloc s =
     (case q_remove Free_shms s of (p, s) \<Rightarrow>
       bindE (as_shm p) (\<lambda>a.
         if a \<noteq> 0 then Inr (a, set_shm_status a SHM_NEW s) else Inr (a, s)))"

definition shm_dealloc :: "u32 \<Rightarrow> u32 kop" where
  "shm_dealloc a s =
     (let s = set_shm_status a SHM_FREE s
      in q_insert Free_shms (Some (Shm a)) s)"

definition shms :: "linkage \<Rightarrow> nat \<Rightarrow> u32" where
  "shms lk i = shms_addr lk + of_nat i * SHM_SIZEOF"

definition shm_init :: "linkage \<Rightarrow> kstate \<Rightarrow> kstate outcome" where
  "shm_init lk s =
     (let s = q_reset (Some Free_shms) None s;
          s = memclr (shms_addr lk) (of_nat MAX_SHMS * SHM_SIZEOF) s
      in bindE (dealloc_loop shm_dealloc (map (shms lk) [0..<MAX_SHMS]) STAT_SUCCESS s) (\<lambda>(stat, s).
           if stat \<noteq> STAT_SUCCESS then kpanic ''shm init: insert fail''
           else
             let s = s\<lparr>current_shms := 0\<rparr>;
                 s = s\<lparr>next_shm := 0\<rparr>
             in Inr (c_puts '' sharedmem '' s)))"

section \<open>The memory of the segments\<close>

text \<open>
  For sizes that leave the addresses in the address space, \<open>_shm_malloc\<close> hands out the
  memory from its start on.  \<open>mem_used\<close> is how much of it is handed out.
\<close>

definition mem_used :: "linkage \<Rightarrow> kstate \<Rightarrow> nat" where
  "mem_used lk s = unat (free_ptr s) - unat (memory_addr lk)"

definition mem_ok :: "linkage \<Rightarrow> kstate \<Rightarrow> bool" where
  "mem_ok lk s \<longleftrightarrow> memory_addr lk \<noteq> 0 \<and> unat (memory_addr lk) + 512 < 2 ^ 32 \<and>
     unat (memory_addr lk) \<le> unat (free_ptr s) \<and> unat (free_ptr s) \<le> unat (memory_addr lk) + 512"

lemma shm_malloc_spec:
  assumes ok: "mem_ok lk s" and sz: "unat (free_ptr s) + unat sz < 2 ^ 32"
  shows "shm_malloc lk sz s =
    (if 512 < mem_used lk s + unat sz then (0, s)
     else (free_ptr s, s\<lparr>free_ptr := free_ptr s + sz\<rparr>))"
    "mem_used lk s + unat sz \<le> 512 \<Longrightarrow>
       mem_ok lk (s\<lparr>free_ptr := free_ptr s + sz\<rparr>) \<and>
       mem_used lk (s\<lparr>free_ptr := free_ptr s + sz\<rparr>) = mem_used lk s + unat sz"
proof -
  have a: "unat (free_ptr s + sz) = unat (free_ptr s) + unat sz"
    using sz unat_add_lem [of "free_ptr s" sz] by simp
  have "unat (memory_addr lk + 512) = unat (memory_addr lk) + 512"
    using ok unat_add_lem [of "memory_addr lk" 512] by (simp add: mem_ok_def)
  with a show "shm_malloc lk sz s =
    (if 512 < mem_used lk s + unat sz then (0, s)
     else (free_ptr s, s\<lparr>free_ptr := free_ptr s + sz\<rparr>))"
    using ok by (auto simp: shm_malloc_def Let_def word_less_nat_alt mem_used_def mem_ok_def)
  assume "mem_used lk s + unat sz \<le> 512"
  then show "mem_ok lk (s\<lparr>free_ptr := free_ptr s + sz\<rparr>) \<and>
       mem_used lk (s\<lparr>free_ptr := free_ptr s + sz\<rparr>) = mem_used lk s + unat sz"
    using ok a by (auto simp: mem_used_def mem_ok_def)
qed

text \<open>A run of allocations, with the address each gets.\<close>

fun malloc_all :: "linkage \<Rightarrow> u32 list \<Rightarrow> kstate \<Rightarrow> (u32 \<times> u32) list \<times> kstate" where
  "malloc_all lk [] s = ([], s)"
| "malloc_all lk (n # ns) s =
     (case shm_malloc lk n s of (a, s) \<Rightarrow>
      case malloc_all lk ns s of (bs, s) \<Rightarrow> ((a, n) # bs, s))"

text \<open>The bytes of a block that was really given out.\<close>

definition block :: "u32 \<times> u32 \<Rightarrow> nat set" where
  "block b = (if fst b = 0 then {} else {unat (fst b)..<unat (fst b) + unat (snd b)})"

lemma malloc_all_blocks:
  assumes "mem_ok lk s" "\<forall>n \<in> set ns. unat n < 2 ^ 31" "unat (memory_addr lk) + 512 < 2 ^ 31"
    and "malloc_all lk ns s = (bs, s')"
  shows "(\<forall>b \<in> set bs. block b \<subseteq> {unat (free_ptr s)..<unat (memory_addr lk) + 512}) \<and>
    (\<forall>i j. i < j \<and> j < length bs \<longrightarrow> block (bs ! i) \<inter> block (bs ! j) = {})"
  using assms
proof (induction ns arbitrary: s bs)
  case Nil
  then show ?case by auto
next
  case (Cons n ns)
  have b: "unat (free_ptr s) + unat n < 2 ^ 32" using Cons.prems by (auto simp: mem_ok_def)
  note m = shm_malloc_spec [OF Cons.prems(1) b]
  show ?case
  proof (cases "512 < mem_used lk s + unat n")
    case True
    with Cons.prems(4) m(1) obtain bs' where bs: "bs = (0, n) # bs'" "malloc_all lk ns s = (bs', s')"
      by (auto split: prod.splits)
    have e: "block (0, n) = {}" by (simp add: block_def)
    from Cons.IH [OF Cons.prems(1) _ Cons.prems(3) bs(2)] Cons.prems(2) have
      IH: "\<forall>b \<in> set bs'. block b \<subseteq> {unat (free_ptr s)..<unat (memory_addr lk) + 512}"
        "\<And>i j. i < j \<and> j < length bs' \<Longrightarrow> block (bs' ! i) \<inter> block (bs' ! j) = {}" by auto
    have "block (bs ! i) \<inter> block (bs ! j) = {}" if "i < j" "j < length bs" for i j
      using that IH(2) [of "i - 1" "j - 1"] e bs(1) by (cases i; cases j) auto
    then show ?thesis using IH(1) e bs(1) by auto
  next
    case False
    let ?t = "s\<lparr>free_ptr := free_ptr s + n\<rparr>"
    have t: "mem_ok lk ?t" "mem_used lk ?t = mem_used lk s + unat n" using m(2) False by auto
    then have fp: "unat (free_ptr s + n) = unat (free_ptr s) + unat n"
      using Cons.prems(1) by (auto simp: mem_ok_def mem_used_def)
    with Cons.prems(4) m(1) False obtain bs' where bs: "bs = (free_ptr s, n) # bs'"
      "malloc_all lk ns ?t = (bs', s')" by (auto split: prod.splits)
    from Cons.IH [OF t(1) _ Cons.prems(3) bs(2)] Cons.prems(2) have
      IH: "\<forall>b \<in> set bs'. block b \<subseteq> {unat (free_ptr s) + unat n..<unat (memory_addr lk) + 512}"
        "\<And>i j. i < j \<and> j < length bs' \<Longrightarrow> block (bs' ! i) \<inter> block (bs' ! j) = {}" by (auto simp: fp)
    have hd: "block (free_ptr s, n) \<subseteq> {unat (free_ptr s)..<unat (free_ptr s) + unat n}"
      by (simp add: block_def)
    have "unat (free_ptr s) + unat n \<le> unat (memory_addr lk) + 512"
      using t(1) fp by (simp add: mem_ok_def)
    then have "\<forall>b \<in> set bs. block b \<subseteq> {unat (free_ptr s)..<unat (memory_addr lk) + 512}"
      using IH(1) hd bs(1) by fastforce
    moreover have "block (bs ! i) \<inter> block (bs ! j) = {}" if "i < j" "j < length bs" for i j
    proof (cases i)
      case 0
      with that obtain k where k: "j = Suc k" by (cases j) auto
      then have "bs' ! k \<in> set bs'" using that(2) bs(1) by simp
      then have "block (bs' ! k) \<subseteq> {unat (free_ptr s) + unat n..<unat (memory_addr lk) + 512}"
        using IH(1) by blast
      then show ?thesis using 0 k bs(1) hd by fastforce
    next
      case (Suc i')
      then show ?thesis using that IH(2) [of i' "j - 1"] bs(1) by (cases j) auto
    qed
    ultimately show ?thesis by blast
  qed
qed


text \<open>
  A size that wraps the address around goes back instead of forward: the memory before the
  block is handed out again.
\<close>

lemma shm_malloc_wraps:
  assumes "mem_ok lk s" "unat (free_ptr s + sz) < unat (free_ptr s)"
  shows "shm_malloc lk sz s = (free_ptr s, s\<lparr>free_ptr := free_ptr s + sz\<rparr>)"
proof -
  have "unat (memory_addr lk + 512) = unat (memory_addr lk) + 512"
    using assms unat_add_lem [of "memory_addr lk" 512] by (simp add: mem_ok_def)
  then have "\<not> memory_addr lk + 512 < free_ptr s + sz"
    using assms by (auto simp: word_less_nat_alt mem_ok_def)
  then show ?thesis by (simp add: shm_malloc_def Let_def)
qed

section \<open>The pool of segments\<close>

abbreviation (input) c_shm :: "u32 \<Rightarrow> obj option" where
  "c_shm \<equiv> (\<lambda>a. Some (Shm a))"

definition shm_pool :: "kstate \<Rightarrow> bool" where
  "shm_pool s \<longleftrightarrow> typed_queue c_shm Free_shms s \<and> 0 \<notin> set (contents c_shm Free_shms s)"

definition free_shms :: "kstate \<Rightarrow> u32 list" where
  "free_shms s = contents c_shm Free_shms s"

text \<open>\<open>_shm_alloc\<close> gives back NULL when there is no segment.\<close>

definition shm_alloc' :: "kstate \<Rightarrow> (u32 option \<times> kstate) outcome" where
  "shm_alloc' s = bindE (shm_alloc s) (\<lambda>(a, s). Inr (if a = 0 then None else Some a, s))"

definition mem_frame :: "kstate \<Rightarrow> kstate \<Rightarrow> bool" where
  "mem_frame s s' \<longleftrightarrow> only_queue Free_shms (s\<lparr>mem := (\<lambda>_. 0)\<rparr>) (s'\<lparr>mem := (\<lambda>_. 0)\<rparr>)"

lemma inj_c_shm: "inj c_shm" by (simp add: inj_def)

lemma st8_simps [simp]:
  "queues (st8 a v s) = queues s" "qnodes (st8 a v s) = qnodes s" "free_qnodes (st8 a v s) = free_qnodes s"
  "pcbs (st8 a v s) = pcbs s" "current (st8 a v s) = current s" "stacks (st8 a v s) = stacks s"
  "free_ptr (st8 a v s) = free_ptr s" "next_pid (st8 a v s) = next_pid s"
  by (simp_all add: st8_def)

lemma st8_views [simp]:
  "q_view (st8 a v s) = q_view s" "n_free (st8 a v s) = n_free s" "q_wf (st8 a v s) = q_wf s"
  "kinv H F K (st8 a v s) = kinv H F K s"
  by ((rule q_repr_cong kinv_cong); simp)+

lemma q_frame_mem:
  assumes "q_frame s t"
  shows "q_frame (s\<lparr>mem := m\<rparr>) (t\<lparr>mem := m\<rparr>)"
proof -
  have "t\<lparr>queues := queues s, qnodes := qnodes s, free_qnodes := free_qnodes s\<rparr> = s"
    using assms by (simp add: q_frame_def)
  from arg_cong [OF this, of "\<lambda>x. x\<lparr>mem := m\<rparr>"]
  have "t\<lparr>mem := m, queues := queues s, qnodes := qnodes s, free_qnodes := free_qnodes s\<rparr> = s\<lparr>mem := m\<rparr>"
    by (cases t; cases s) simp
  with assms show ?thesis by (simp add: q_frame_def)
qed

lemma mem_frame_st8 [simp]: "mem_frame s (st8 a v t) \<longleftrightarrow> mem_frame s t" "mem_frame (st8 a v s) t \<longleftrightarrow> mem_frame s t"
  by (simp_all add: mem_frame_def st8_def)

lemma q_view_mem [simp]: "q_view (s\<lparr>mem := m\<rparr>) = q_view s" for s :: kstate
  by (rule q_repr_cong; simp)

lemma only_queue_mem_frame: "only_queue Free_shms s t \<Longrightarrow> mem_frame s t"
  by (auto simp: only_queue_def mem_frame_def intro: q_frame_mem)

lemma mem_frame_refl: "mem_frame s s"
  by (simp add: mem_frame_def only_queue_refl)

lemma mem_frame_trans: "mem_frame s t \<Longrightarrow> mem_frame t u \<Longrightarrow> mem_frame s u"
  unfolding mem_frame_def by (rule only_queue_trans)

interpretation shm_pool:
  resource_pool shm_alloc' shm_dealloc "\<lambda>a. a \<noteq> 0" shm_pool free_shms n_free mem_frame
proof (unfold_locales, goal_cases)
  case (1 s)
  then have "q_remove Free_shms s = (None, s)"
    by (intro typed_queue_remove_empty [of c_shm]) (auto simp: shm_pool_def free_shms_def)
  then show ?case by (simp add: shm_alloc'_def shm_alloc_def)
next
  case (2 s h hs)
  then have t: "typed_queue c_shm Free_shms s" "contents c_shm Free_shms s = h # hs"
    and nz: "h \<noteq> 0" "0 \<notin> set hs" by (auto simp: shm_pool_def free_shms_def)
  from typed_queue_remove [OF t(1) inj_c_shm t(2)] obtain s' where s':
    "q_remove Free_shms s = (c_shm h, s')" "typed_queue c_shm Free_shms s'"
    "contents c_shm Free_shms s' = hs" "n_free s' = Suc (n_free s)" "q_frame s s'"
    "q_view s' = (q_view s)(Free_shms := tl (q_view s Free_shms))" by blast
  have "only_queue Free_shms s s'" using s'(5,6) by (simp add: only_queue_def)
  then have "mem_frame s s'" by (rule only_queue_mem_frame)
  then show ?case using s' nz typed_queue_cong [of "st8 (h + 22) 1 s'" s' c_shm Free_shms]
    by (simp add: shm_alloc'_def shm_alloc_def shm_pool_def free_shms_def set_shm_status_def)
next
  case (3 s h)
  let ?s = "st8 (h + 22) 0 s"
  have t: "typed_queue c_shm Free_shms ?s" "n_free ?s \<noteq> 0"
    and c: "contents c_shm Free_shms ?s = contents c_shm Free_shms s"
    using 3 typed_queue_cong [of ?s s c_shm Free_shms] by (auto simp: shm_pool_def)
  from typed_queue_insert [OF t(1) inj_c_shm t(2), of h] obtain s' where s':
    "q_insert Free_shms (c_shm h) ?s = Inr (STAT_SUCCESS, s')" "typed_queue c_shm Free_shms s'"
    "contents c_shm Free_shms s' = contents c_shm Free_shms s @ [h]" "n_free s' = n_free s - 1"
    "q_frame ?s s'" "q_view s' = (q_view s)(Free_shms := q_view s Free_shms @ [(0, c_shm h)])"
    by (auto simp: c)
  have "only_queue Free_shms ?s s'" using s'(5,6) by (simp add: only_queue_def)
  then have "mem_frame s s'" using only_queue_mem_frame by force
  then show ?case using s' 3 by (auto simp: shm_dealloc_def shm_pool_def free_shms_def set_shm_status_def)
next
  case (4 s h)
  let ?s = "st8 (h + 22) 0 s"
  have "q_insert Free_shms (c_shm h) ?s = Inr (STAT_ALLOC_FAIL, ?s)"
    using 4 by (intro q_insert_full) (auto simp: shm_pool_def typed_queue_def)
  then show ?case using 4 typed_queue_cong [of ?s s c_shm Free_shms]
    by (auto simp: shm_dealloc_def shm_pool_def free_shms_def set_shm_status_def mem_frame_refl)
next
  case 5 show ?case by (simp add: mem_frame_def only_queue_refl)
next
  case 6 then show ?case by (rule mem_frame_trans)
qed

section \<open>Initialisation\<close>

lemma memclr_simps [simp]:
  "queues (memclr a n s) = queues s" "qnodes (memclr a n s) = qnodes s"
  "free_qnodes (memclr a n s) = free_qnodes s" "pcbs (memclr a n s) = pcbs s"
  "current (memclr a n s) = current s" "stacks (memclr a n s) = stacks s"
  "next_pid (memclr a n s) = next_pid s"
  by (induction a n s rule: memclr.induct; subst memclr.simps; simp)+


text \<open>
  With an empty queue and enough nodes, \<open>_shm_init\<close> makes every segment free, in the order
  of the array.
\<close>

lemma shm_init_ok:
  assumes wf: "q_wf s" and empty: "q_view s Free_shms = []" and room: "MAX_SHMS \<le> n_free s"
    and nz: "\<forall>i < MAX_SHMS. shms lk i \<noteq> 0"
  shows "\<exists>s'. shm_init lk s = Inr s' \<and> shm_pool s' \<and> free_shms s' = map (shms lk) [0..<MAX_SHMS] \<and>
    n_free s' = n_free s - MAX_SHMS \<and> (\<forall>q. q \<noteq> Free_shms \<longrightarrow> q_view s' q = q_view s q) \<and>
    (\<forall>q. q \<noteq> Free_shms \<longrightarrow> hashfcn (queues s' q) = hashfcn (queues s q)) \<and>
    pcbs s' = pcbs s \<and> current s' = current s \<and> next_pid s' = next_pid s \<and> stacks s' = stacks s"
proof -
  define s1 where "s1 = q_reset (Some Free_shms) None s"
  define s2 where "s2 = memclr (shms_addr lk) (of_nat MAX_SHMS * SHM_SIZEOF) s1"
  note r = q_reset_view [OF wf empty, of None, folded s1_def]
  have same: "queues s2 = queues s1" "qnodes s2 = qnodes s1" "free_qnodes s2 = free_qnodes s1"
    by (simp_all add: s2_def)
  note q2 = q_repr_cong [OF same]
  have h1: "hashfcn (queues s1 q) = (if q = Free_shms then None else hashfcn (queues s q))" for q
    by (simp add: s1_def q_reset_def)
  have inv: "shm_pool s2" and free: "free_shms s2 = []"
    using r empty by (auto simp: shm_pool_def typed_queue_def q_ordered_def q_data_def q2 h1 same
        free_shms_def contents_def)
  have "length (map (shms lk) [0..<MAX_SHMS]) \<le> n_free s2" using room by (simp add: r q2)
  moreover have "\<forall>a \<in> set (map (shms lk) [0..<MAX_SHMS]). a \<noteq> 0" using nz by auto
  ultimately obtain t where
    t: "dealloc_loop shm_dealloc (map (shms lk) [0..<MAX_SHMS]) STAT_SUCCESS s2 = Inr (STAT_SUCCESS, t)"
      "shm_pool t" "free_shms t = map (shms lk) [0..<MAX_SHMS]" "n_free t = n_free s - MAX_SHMS"
      "mem_frame s2 t"
    using shm_pool.dealloc_loop_free [OF inv, of "map (shms lk) [0..<MAX_SHMS]"] by (auto simp: free r q2)
  define u where "u = c_puts '' sharedmem '' (t\<lparr>current_shms := 0, next_shm := 0\<rparr>)"
  have same_u: "queues u = queues t" "qnodes u = qnodes t" "free_qnodes u = free_qnodes t"
    by (simp_all add: u_def c_puts_def)
  note qu = q_repr_cong [OF same_u]
  have "shm_init lk s = Inr u"
    using t(1) by (simp add: shm_init_def Let_def s2_def s1_def u_def)
  moreover have "shm_pool u" "free_shms u = map (shms lk) [0..<MAX_SHMS]" "n_free u = n_free s - MAX_SHMS"
    using t(2-4) by (simp_all add: shm_pool_def free_shms_def typed_queue_cong [OF same_u] qu)
  moreover have o: "only_queue Free_shms (s2\<lparr>mem := \<lambda>_. 0\<rparr>) (t\<lparr>mem := \<lambda>_. 0\<rparr>)"
    using t(5) by (simp add: mem_frame_def)
  moreover have "q_view u q = q_view s q" if "q \<noteq> Free_shms" for q
    using o that by (simp add: only_queue_def qu q2 r)
  moreover have fr: "q_frame (s2\<lparr>mem := \<lambda>_. 0\<rparr>) (t\<lparr>mem := \<lambda>_. 0\<rparr>)" using o by (simp add: only_queue_def)
  moreover have "hashfcn (queues u q) = hashfcn (queues s q)" if "q \<noteq> Free_shms" for q
    using q_frame_fields(1) [OF fr, of q] that by (simp add: same_u same h1)
  moreover have "pcbs u = pcbs s" "current u = current s" "next_pid u = next_pid s" "stacks u = stacks s"
    using q_frame_fields [OF fr]
    by (simp_all add: u_def c_puts_def s2_def s1_def q_reset_def set_queue_def)
  ultimately show ?thesis by blast
qed

section \<open>The invariant of the kernel\<close>

lemma kinv_shm_alloc:
  assumes k: "kinv H F K s"
  shows "\<exists>a s'. shm_alloc s = Inr (a, s') \<and> kinv H F K s' \<and> pcbs s' = pcbs s \<and> current s' = current s \<and>
    next_pid s' = next_pid s \<and> stacks s' = stacks s \<and>
    (\<forall>q. q \<noteq> Free_shms \<longrightarrow> q_view s' q = q_view s q)"
proof (cases "q_view s Free_shms")
  case Nil
  then have "q_remove Free_shms s = (None, s)" by (intro q_remove_empty kinvD(1) [OF k])
  then show ?thesis using k by (auto simp: shm_alloc_def)
next
  case (Cons e es)
  have "snd e \<in> range c_shm" using kinvD(3) [OF k] Cons by (auto simp: typed_view_def)
  then obtain ky a where e: "e = (ky, Some (Shm a))" by (cases e) auto
  have "Free_shms \<in> set other_queues" by (simp add: other_queues_def)
  from kinv_other_remove [OF k this Cons [unfolded e]] obtain t where
    "q_remove Free_shms s = (Some (Shm a), t)" "kinv H F K t" "q_frame s t"
    "q_view t = (q_view s)(Free_shms := es)" by blast
  then show ?thesis by (auto simp: shm_alloc_def set_shm_status_def q_frame_fields)
qed

lemma kinv_shm_dealloc:
  assumes k: "kinv H F K s" and n: "n_other (q_view s) < OTHER_MAX"
  shows "\<exists>s'. shm_dealloc a s = Inr (STAT_SUCCESS, s') \<and> kinv H F K s' \<and> pcbs s' = pcbs s \<and>
    current s' = current s \<and> next_pid s' = next_pid s \<and> stacks s' = stacks s \<and>
    (\<forall>q. q \<noteq> Free_shms \<longrightarrow> q_view s' q = q_view s q)"
proof -
  let ?s = "st8 (a + 22) 0 s"
  have k': "kinv H F K ?s" using k by simp
  have "Free_shms \<in> set other_queues" by (simp add: other_queues_def)
  from kinv_other_insert [OF k' this] n obtain t where
    t: "q_insert Free_shms (Some (Shm a)) ?s = Inr (STAT_SUCCESS, t)" "kinv H F K t" "q_frame ?s t"
    "q_view t = (q_view s)(Free_shms := q_view s Free_shms @ [(0, Some (Shm a))])"
    by auto
  then show ?thesis by (simp add: shm_dealloc_def set_shm_status_def q_frame_fields [OF t(3)])
qed

end
