(* ===== verification/Syscalls.thy ===== *)
theory Syscalls
  imports Sio Shared_Mem
begin

text \<open>
  syscalls.c: the handlers of the system calls and the service routine that calls them.
  A handler gets the saved context of the calling process; the arguments are on the stack
  behind it (\<open>sys_arg\<close>).
\<close>

section \<open>The code\<close>

abbreviation (input) SYS_spawn :: u32 where "SYS_spawn \<equiv> 0"
abbreviation (input) SYS_spawnl :: u32 where "SYS_spawnl \<equiv> 1"
abbreviation (input) SYS_sleep :: u32 where "SYS_sleep \<equiv> 2"
abbreviation (input) SYS_exit :: u32 where "SYS_exit \<equiv> 3"
abbreviation (input) SYS_kill :: u32 where "SYS_kill \<equiv> 4"
abbreviation (input) SYS_read :: u32 where "SYS_read \<equiv> 5"
abbreviation (input) SYS_write :: u32 where "SYS_write \<equiv> 6"
abbreviation (input) SYS_time :: u32 where "SYS_time \<equiv> 7"
abbreviation (input) SYS_getpid :: u32 where "SYS_getpid \<equiv> 8"
abbreviation (input) SYS_getppid :: u32 where "SYS_getppid \<equiv> 9"
abbreviation (input) SYS_getpidlist :: u32 where "SYS_getpidlist \<equiv> 10"
abbreviation (input) SYS_shmget :: u32 where "SYS_shmget \<equiv> 11"
abbreviation (input) SYS_shmat :: u32 where "SYS_shmat \<equiv> 12"
abbreviation (input) SYS_shmwrite :: u32 where "SYS_shmwrite \<equiv> 13"
abbreviation (input) SYS_shmread :: u32 where "SYS_shmread \<equiv> 14"
abbreviation (input) SYS_shmdt :: u32 where "SYS_shmdt \<equiv> 15"
abbreviation (input) SYS_shmrm :: u32 where "SYS_shmrm \<equiv> 16"
abbreviation (input) N_SYSCALLS :: u32 where "N_SYSCALLS \<equiv> 17"

subsection \<open>Input, output and time\<close>

definition sys_read :: "context_ptr \<Rightarrow> kstate \<Rightarrow> kstate outcome" where
  "sys_read c s =
     bindE (sio_read s) (\<lambda>(ch, s).
       if 0 \<le> sint ch then Inr (ctx_set c CTX_EAX ch s)
       else
         bindE (deref (current s)) (\<lambda>cur.
           let s = set_pcb cur (\<lambda>p. p\<lparr>status := PROC_BLOCKED\<rparr>) s in
           bindE (q_insert Reading (Some (Pcb cur)) s) (\<lambda>(ch, s).
             if ch \<noteq> STAT_SUCCESS then kpanic ''sys read: can't block current process''
             else dispatch s)))"

definition sys_write :: "context_ptr \<Rightarrow> kstate \<Rightarrow> kstate outcome" where
  "sys_write c s = (let ch = sys_arg c 0 s in sio_write ch s)"

definition sys_time :: "linkage \<Rightarrow> context_ptr \<Rightarrow> kstate \<Rightarrow> kstate outcome" where
  "sys_time lk c s = Inr (ctx_set c CTX_EAX (system_time s div timer_ticks_per_second lk) s)"

subsection \<open>Process information\<close>

definition sys_getpid :: "context_ptr \<Rightarrow> kstate \<Rightarrow> kstate outcome" where
  "sys_getpid c s =
     bindE (deref (current s)) (\<lambda>cur. Inr (ctx_set c CTX_EAX (ucast (pid (pcbs s cur))) s))"

definition sys_getppid :: "context_ptr \<Rightarrow> kstate \<Rightarrow> kstate outcome" where
  "sys_getppid c s =
     bindE (deref (current s)) (\<lambda>cur. Inr (ctx_set c CTX_EAX (ucast (ppid (pcbs s cur))) s))"

text \<open>One round of the loop over the process array, with the buffer pointer, its size and the count.\<close>

definition getpidlist_step :: "nat \<Rightarrow> u32 \<times> u32 \<times> u32 \<times> kstate \<Rightarrow> u32 \<times> u32 \<times> u32 \<times> kstate" where
  "getpidlist_step pcb = (\<lambda>(ptr, sz, num, s).
     if PROC_NEW < status (pcbs s pcb) then
       let num = num + 1 in
       if sz \<noteq> 0 then (ptr + 2, sz - 1, num, st16 ptr (pid (pcbs s pcb)) s)
       else (ptr, sz, num, s)
     else (ptr, sz, num, s))"

definition sys_getpidlist :: "context_ptr \<Rightarrow> kstate \<Rightarrow> kstate outcome" where
  "sys_getpidlist c s =
     (let ptr = sys_arg c 0 s; sz = sys_arg c 1 s; num = 0 in
      case fold getpidlist_step [0..<MAX_PROCS] (ptr, sz, num, s) of
        (ptr, sz, num, s) \<Rightarrow> Inr (ctx_set c CTX_EAX num s))"

subsection \<open>Ending processes\<close>

definition sys_kill :: "context_ptr \<Rightarrow> kstate \<Rightarrow> kstate outcome" where
  "sys_kill c s =
     (let s = ctx_set c CTX_EAX (-1) s;
          p = (ucast (sys_arg c 0 s) :: u16)
      in bindE (deref (current s)) (\<lambda>cur.
           if p = 0 then
             Inr (c_printf ''sys_kill: attempt to kill idle, pid %d\<newline>'' [ucast (pid (pcbs s cur))] s)
           else if p = pid (pcbs s cur) then bindE (cleanup (current s) s) dispatch
           else
             case find (\<lambda>i. pid (pcbs s i) = p \<and> PROC_NEW < status (pcbs s i)) [0..<MAX_PROCS] of
               None \<Rightarrow> Inr s
             | Some i \<Rightarrow>
                 let s = ctx_set c CTX_EAX (ucast (status (pcbs s i))) s
                 in Inr (set_pcb i (\<lambda>p. p\<lparr>status := PROC_ZOMBIE\<rparr>) s)))"

definition sys_exit :: "context_ptr \<Rightarrow> kstate \<Rightarrow> kstate outcome" where
  "sys_exit c s = bindE (cleanup (current s) s) dispatch"

subsection \<open>Creating processes\<close>

definition spawn :: "linkage \<Rightarrow> context_ptr \<Rightarrow> u32 \<Rightarrow> u8 \<Rightarrow> kstate \<Rightarrow> kstate outcome" where
  "spawn lk currcon fcn lvl s =
     bindE (pcb_alloc s) (\<lambda>(pcb, s).
       case pcb of
         None \<Rightarrow> Inr (ctx_set currcon CTX_EAX (-1) s)
       | Some i \<Rightarrow>
           bindE (stack_alloc s) (\<lambda>(stk, s).
             case stk of
               None \<Rightarrow>
                 bindE (pcb_dealloc i s) (\<lambda>(stat, s).
                   let s = (if stat \<noteq> STAT_SUCCESS then c_printf ''spawn: pcb dealloc failed\<newline>'' [] s else s)
                   in Inr (ctx_set currcon CTX_EAX (-1) s))
             | Some st \<Rightarrow>
                 case make_proc lk i st fcn lvl s of (newpid, s) \<Rightarrow>
                   let s = ctx_set currcon CTX_EAX (ucast newpid) s in
                   bindE (deref (current s)) (\<lambda>cur.
                     let s = set_pcb i (\<lambda>p. p\<lparr>ppid := pid (pcbs s cur)\<rparr>) s in
                     bindE (schedule i s) (\<lambda>(stat, s).
                       bindE (schedule cur s) (\<lambda>(stat, s).
                         dispatch s)))))"

definition sys_spawn :: "linkage \<Rightarrow> context_ptr \<Rightarrow> kstate \<Rightarrow> kstate outcome" where
  "sys_spawn lk c s = spawn lk c (sys_arg c 0 s) LEVEL_DEFAULT s"

definition sys_spawnl :: "linkage \<Rightarrow> context_ptr \<Rightarrow> kstate \<Rightarrow> kstate outcome" where
  "sys_spawnl lk c s = spawn lk c (sys_arg c 0 s) (ucast (sys_arg c 1 s)) s"

subsection \<open>Sleeping\<close>

definition sys_sleep :: "linkage \<Rightarrow> context_ptr \<Rightarrow> kstate \<Rightarrow> kstate outcome" where
  "sys_sleep lk c s =
     (let num = (ucast (sys_arg c 0 s) :: u16) in
      bindE (deref (current s)) (\<lambda>cur.
        bindE
          (if num \<noteq> 0 then
             let s = set_pcb cur (\<lambda>p. p\<lparr>wakeup := system_time s + ucast num * timer_ticks_per_second lk\<rparr>) s;
                 s = set_pcb cur (\<lambda>p. p\<lparr>status := PROC_SLEEPING\<rparr>) s
             in bindE (q_insert Sleeping (Some (Pcb cur)) s) (\<lambda>(stat, s).
                  if stat \<noteq> STAT_SUCCESS then kpanic ''sleep: insert failed'' else Inr s)
           else bindE (schedule cur s) (\<lambda>(stat, s). Inr s))
          dispatch))"

subsection \<open>Shared memory\<close>

definition sys_shmget :: "linkage \<Rightarrow> context_ptr \<Rightarrow> kstate \<Rightarrow> kstate outcome" where
  "sys_shmget lk c s =
     bindE (shm_alloc s) (\<lambda>(a, s).
       let s = s\<lparr>current_shms := a\<rparr> in
       if current_shms s = 0 then Inr (ctx_set c CTX_EAX (-1) s)
       else
         let s = set_shm_num_members a 0 s;
             s = set_shm_size a (sys_arg c 0 s) s;
             s = set_shm_mode a (sys_arg c 1 s) s;
             s = set_shm_id a (next_shm s) s;
             s = s\<lparr>next_shm := next_shm s + 1\<rparr>;
             s = fold (\<lambda>i. set_shm_current_pids a i 0) [0..<MAX_MEMBERS] s
         in case shm_malloc lk (shm_size a s) s of (m, s) \<Rightarrow>
              let s = set_shm_address a m s
              in Inr (ctx_set c CTX_EAX (ucast (shm_id a s)) s))"

definition sys_shmat :: "context_ptr \<Rightarrow> kstate \<Rightarrow> kstate outcome" where
  "sys_shmat c s =
     (let segid = sys_arg c 0 s; a = current_shms s in
      if segid \<noteq> ucast (shm_id a s) then kpanic ''wrong shmid: attach fail''
      else
        bindE (deref (current s)) (\<lambda>cur.
          let p = pid (pcbs s cur) in
          if shm_num_members a s = 0 then
            let s = set_shm_current_pids a 0 p s;
                s = set_shm_num_members a (shm_num_members a s + 1) s
            in Inr (ctx_set c CTX_EAX (shm_address a s) s)
          else if shm_num_members a s = 1 then
            let s = set_shm_current_pids a 1 p s;
                s = set_shm_num_members a (shm_num_members a s + 1) s
            in Inr (ctx_set c CTX_EAX (shm_address a s) s)
          else Inr (ctx_set c CTX_EAX 0 s)))"

text \<open>Room for every string that ends before the addresses start over.\<close>

definition STRCPY_FUEL :: nat where
  "STRCPY_FUEL = 2 ^ 32"

definition sys_shmwrite :: "context_ptr \<Rightarrow> kstate \<Rightarrow> kstate outcome" where
  "sys_shmwrite c s =
     bindE (deref (current s)) (\<lambda>cur.
       let p = pid (pcbs s cur); a = sys_arg c 0 s; message = sys_arg c 1 s in
       if p \<noteq> shm_current_pids a 0 s \<and> p \<noteq> shm_current_pids a 1 s then
         let s = c_printf ''Write permission denied to process %d\<newline>'' [ucast p] s
         in Inr (ctx_set c CTX_EAX (-1) s)
       else
         bindE (strcpy STRCPY_FUEL (shm_address a s) message s) (\<lambda>(r, s).
           Inr (ctx_set c CTX_EAX 1 s)))"

definition sys_shmread :: "context_ptr \<Rightarrow> kstate \<Rightarrow> kstate outcome" where
  "sys_shmread c s =
     bindE (deref (current s)) (\<lambda>cur.
       let p = pid (pcbs s cur); a = sys_arg c 0 s; message = sys_arg c 1 s in
       if p \<noteq> shm_current_pids a 0 s \<and> p \<noteq> shm_current_pids a 1 s then
         let s = c_printf ''Read permission denied to process %d\<newline>'' [ucast p] s
         in Inr (ctx_set c CTX_EAX (-1) s)
       else
         bindE (strcpy STRCPY_FUEL message (shm_address a s) s) (\<lambda>(r, s).
           Inr (ctx_set c CTX_EAX 1 s)))"

definition sys_shmdt :: "context_ptr \<Rightarrow> kstate \<Rightarrow> kstate outcome" where
  "sys_shmdt c s =
     bindE (deref (current s)) (\<lambda>cur.
       let a = sys_arg c 0 s; p = pid (pcbs s cur); b = current_shms s in
       if p \<noteq> shm_current_pids a 0 s \<and> p \<noteq> shm_current_pids a 1 s then
         let s = c_printf ''Detach permission denied to process %d\<newline>'' [ucast p] s
         in Inr (ctx_set c CTX_EAX (-1) s)
       else if shm_id a s \<noteq> shm_id b s then kpanic ''wrong shmid: detach fail''
       else if 0 < shm_num_members b s then
         if shm_current_pids b 0 s = p then
           let s = set_shm_current_pids b 0 0 s;
               s = set_shm_num_members b (shm_num_members b s - 1) s
           in Inr (ctx_set c CTX_EAX 1 s)
         else if shm_current_pids b 1 s = p then
           let s = set_shm_current_pids b 1 0 s;
               s = set_shm_num_members b (shm_num_members b s - 1) s
           in Inr (ctx_set c CTX_EAX 1 s)
         else Inr (ctx_set c CTX_EAX (-1) s)
       else Inr (ctx_set c CTX_EAX 1 s))"

definition sys_shmrm :: "context_ptr \<Rightarrow> kstate \<Rightarrow> kstate outcome" where
  "sys_shmrm c s =
     (let a = sys_arg c 0 s in
      if shm_id a s \<noteq> shm_id (current_shms s) s then kpanic ''wrong shmid: remove fail''
      else
        bindE (shm_dealloc a s) (\<lambda>(result, s).
          if result = STAT_SUCCESS then Inr (ctx_set c CTX_EAX 1 s)
          else if result = STAT_ALLOC_FAIL then Inr (ctx_set c CTX_EAX (-1) s)
          else Inr s))"

subsection \<open>The service routine\<close>

fun call_sys :: "linkage \<Rightarrow> sys_fcn \<Rightarrow> context_ptr \<Rightarrow> kstate \<Rightarrow> kstate outcome" where
  "call_sys lk Sys_spawn = sys_spawn lk"
| "call_sys lk Sys_spawnl = sys_spawnl lk"
| "call_sys lk Sys_sleep = sys_sleep lk"
| "call_sys lk Sys_exit = sys_exit"
| "call_sys lk Sys_kill = sys_kill"
| "call_sys lk Sys_read = sys_read"
| "call_sys lk Sys_write = sys_write"
| "call_sys lk Sys_time = sys_time lk"
| "call_sys lk Sys_getpid = sys_getpid"
| "call_sys lk Sys_getppid = sys_getppid"
| "call_sys lk Sys_getpidlist = sys_getpidlist"
| "call_sys lk Sys_shmget = sys_shmget lk"
| "call_sys lk Sys_shmat = sys_shmat"
| "call_sys lk Sys_shmwrite = sys_shmwrite"
| "call_sys lk Sys_shmread = sys_shmread"
| "call_sys lk Sys_shmdt = sys_shmdt"
| "call_sys lk Sys_shmrm = sys_shmrm"

definition isr_syscall :: "linkage \<Rightarrow> kstate \<Rightarrow> kstate outcome" where
  "isr_syscall lk s =
     (case current s of
        None \<Rightarrow> kpanic ''syscall: null current''
      | Some cur \<Rightarrow>
          case context_of (pcbs s cur) of
            None \<Rightarrow> kpanic ''syscall: null current context''
          | Some c \<Rightarrow>
              let num = ctx_get c CTX_EAX s in
              bindE
                (if N_SYSCALLS \<le> num then
                   Inr (SYS_exit, c_printf ''syscall: code %d, proc %d, killed\<newline>'' [num, ucast (pid (pcbs s cur))] s)
                 else Inr (num, s))
                (\<lambda>(num, s).
                  bindE (deref (syscalls s num)) (\<lambda>f.
                    bindE (call_sys lk f c s) (\<lambda>s.
                      Inr (outb PIC_MASTER_CMD_PORT PIC_EOI s)))))"

definition sys_init :: "kstate \<Rightarrow> kstate" where
  "sys_init s =
     (let s = s\<lparr>syscalls := (syscalls s)
          (SYS_spawn := Some Sys_spawn,
           SYS_spawnl := Some Sys_spawnl,
           SYS_sleep := Some Sys_sleep,
           SYS_exit := Some Sys_exit,
           SYS_kill := Some Sys_kill,
           SYS_read := Some Sys_read,
           SYS_write := Some Sys_write,
           SYS_time := Some Sys_time,
           SYS_getpid := Some Sys_getpid,
           SYS_getppid := Some Sys_getppid,
           SYS_getpidlist := Some Sys_getpidlist,
           SYS_shmget := Some Sys_shmget,
           SYS_shmat := Some Sys_shmat,
           SYS_shmwrite := Some Sys_shmwrite,
           SYS_shmread := Some Sys_shmread,
           SYS_shmdt := Some Sys_shmdt,
           SYS_shmrm := Some Sys_shmrm)\<rparr>
      in c_printf '' syscalls'' [] s)"

end
