(* ===== verification/Kernel_Rest.thy ===== *)
theory Kernel_Rest
  imports Syscalls
begin

text \<open>
  The kernel between two entries into it: \<open>running c s\<close> is the invariant with the process
  \<open>c\<close> as the one that is held, and \<open>kernel_ok i s\<close> adds what keeps \<open>_dispatch\<close> from running
  out of processes, namely that the idle process \<open>i\<close> is running or ready, and that the serial
  line's buffers are sound.
\<close>

section \<open>States at rest\<close>

definition running :: "nat \<Rightarrow> kstate \<Rightarrow> bool" where
  "running c s \<longleftrightarrow> current s = Some c \<and> kinv [c] [] [] s"

definition idle_ready :: "nat \<Rightarrow> kstate \<Rightarrow> bool" where
  "idle_ready i s \<longleftrightarrow> pid (pcbs s i) = 0 \<and> i \<in> set (ready_seq (q_view s)) \<and> status (pcbs s i) = PROC_READY"

definition idle_ok :: "nat \<Rightarrow> kstate \<Rightarrow> bool" where
  "idle_ok i s \<longleftrightarrow> pid (pcbs s i) = 0 \<and> current s = Some i \<or> idle_ready i s"

text \<open>The jump table as \<open>_sys_init\<close> leaves it: an entry for every code, a call for code 3 on the rest.\<close>

definition sys_of :: "u32 \<Rightarrow> sys_fcn" where
  "sys_of num = (if N_SYSCALLS \<le> num then Sys_exit
     else the (syscalls (sys_init boot_state) num))"

definition table_ok :: "kstate \<Rightarrow> bool" where
  "table_ok s \<longleftrightarrow> (\<forall>num < N_SYSCALLS. syscalls s num = Some (sys_of num))"


text \<open>The buffers of the serial line and the jump table are sound.\<close>

definition env_ok :: "kstate \<Rightarrow> bool" where
  "env_ok s \<longleftrightarrow> in_ok s \<and> out_ok s \<and> table_ok s"

definition kernel_ok :: "nat \<Rightarrow> kstate \<Rightarrow> bool" where
  "kernel_ok i s \<longleftrightarrow> (\<exists>c. running c s) \<and> idle_ok i s \<and> env_ok s"

lemma runningD:
  assumes "running c s"
  shows "current s = Some c" "kinv [c] [] [] s" "c < MAX_PROCS" "live_pcb (pcbs s c)"
    "c \<notin> set (ready_seq (q_view s))"
proof -
  show c: "current s = Some c" and k: "kinv [c] [] [] s" using assms by (simp_all add: running_def)
  note o = owned_held [OF kinvD(4) [OF k]]
  show "c < MAX_PROCS" "live_pcb (pcbs s c)" by (fact o)+
  show "c \<notin> set (ready_seq (q_view s))" using o(2) ready_from_live by blast
qed

lemma idle_ready_some: "idle_ready i s \<Longrightarrow> some_ready s"
  by (auto simp: idle_ready_def some_ready_def)

lemma idle_okD: "idle_ok i s \<Longrightarrow> current s \<noteq> Some i \<Longrightarrow> idle_ready i s"
  by (auto simp: idle_ok_def)

text \<open>What these predicates depend on.\<close>

definition same_procs :: "kstate \<Rightarrow> kstate \<Rightarrow> bool" where
  "same_procs s s' \<longleftrightarrow> queues s' = queues s \<and> qnodes s' = qnodes s \<and> free_qnodes s' = free_qnodes s \<and>
     pcbs s' = pcbs s \<and> current s' = current s \<and> syscalls s' = syscalls s"

definition same_sio :: "kstate \<Rightarrow> kstate \<Rightarrow> bool" where
  "same_sio s s' \<longleftrightarrow> innext s' = innext s \<and> inlast s' = inlast s \<and> incount s' = incount s \<and>
     outnext s' = outnext s \<and> outlast s' = outlast s \<and> outcount s' = outcount s \<and> sending s' = sending s \<and>
     syscalls s' = syscalls s"

lemma same_procs_cong:
  assumes "same_procs s s'"
  shows "running c s' = running c s" "idle_ok i s' = idle_ok i s" "idle_ready i s' = idle_ready i s"
    "kinv H F K s' = kinv H F K s" "q_view s' = q_view s" "pcbs s' = pcbs s" "current s' = current s"
proof -
  have e: "queues s' = queues s" "qnodes s' = qnodes s" "free_qnodes s' = free_qnodes s"
    "pcbs s' = pcbs s" "current s' = current s" using assms by (auto simp: same_procs_def)
  show v: "q_view s' = q_view s" using e by (intro q_repr_cong(5))
  show k: "kinv H F K s' = kinv H F K s" for H F K using e by (intro kinv_cong)
  show "pcbs s' = pcbs s" "current s' = current s" by (fact e)+
  show "running c s' = running c s" "idle_ok i s' = idle_ok i s" "idle_ready i s' = idle_ready i s"
    using e by (simp_all add: running_def idle_ok_def idle_ready_def v k)
qed

lemma same_procs_table: "same_procs s s' \<Longrightarrow> table_ok s' = table_ok s"
  by (simp add: same_procs_def table_ok_def)

lemma same_sio_cong: "same_sio s s' \<Longrightarrow> env_ok s' = env_ok s"
  by (simp add: same_sio_def env_ok_def in_ok_def out_ok_def table_ok_def)

lemma kernel_ok_cong: "same_procs s s' \<Longrightarrow> same_sio s s' \<Longrightarrow> kernel_ok i s' = kernel_ok i s"
  by (simp add: kernel_ok_def same_procs_cong same_sio_cong)

lemma k_frame_sio: "k_frame s s' \<Longrightarrow> same_sio s s'"
  by (simp add: same_sio_def k_frame_fields)

lemma k_frame_time: "k_frame s t \<Longrightarrow> system_time t = system_time s"
  by (simp add: k_frame_fields)

lemma same_trans:
  "same_procs s t \<Longrightarrow> same_procs t u \<Longrightarrow> same_procs s u"
  "same_sio s t \<Longrightarrow> same_sio t u \<Longrightarrow> same_sio s u"
  by (simp_all add: same_procs_def same_sio_def)

lemma same_refl [simp]: "same_procs s s" "same_sio s s"
  by (simp_all add: same_procs_def same_sio_def)

lemma same_basic [simp]:
  "same_procs s (ctx_set c w v s)" "same_sio s (ctx_set c w v s)"
  "same_procs s (outb p x s)" "same_sio s (outb p x s)"
  "same_procs s (c_printf f vs s)" "same_sio s (c_printf f vs s)"
  "same_procs s (c_puts m s)" "same_sio s (c_puts m s)"
  by (simp_all add: same_procs_def same_sio_def ctx_set_def outb_def c_printf_def c_puts_def)

section \<open>Adding to the ready queues and dispatching\<close>

lemma ready_seq_add:
  assumes "l < MLQ_LEVELS"
  shows "set (ready_seq (v(Ready l := v (Ready l) @ [(k, Some (Pcb p))]))) = insert p (set (ready_seq v))"
proof -
  have "set (pcbs_in (v(Ready l := v (Ready l) @ [(k, Some (Pcb p))])) (Ready j)) =
    (if j = l then insert p (set (pcbs_in v (Ready j))) else set (pcbs_in v (Ready j)))" for j
    by (simp add: pcbs_in_def)
  then show ?thesis using assms by (auto simp: ready_from_def split: if_splits)
qed

lemma schedule_idle:
  assumes "kinv (p # H) F K s" "schedule p s = Inr (st, s')"
  shows "idle_ready i s \<Longrightarrow> idle_ready i s'"
    "pid (pcbs s p) = 0 \<Longrightarrow> idle_ready p s'"
proof -
  note live = owned_held(6) [OF kinvD(4) [OF assms(1)]]
  then have l: "unat (level (pcbs s p)) < MLQ_LEVELS" by (simp add: live_pcb_def)
  from kinv_schedule [OF assms(1)] assms(2)
  have p: "pcbs s' = (pcbs s)(p := (pcbs s p)\<lparr>status := PROC_READY\<rparr>)"
    and v: "q_view s' = (q_view s)(Ready (unat (level (pcbs s p))) :=
       q_view s (Ready (unat (level (pcbs s p)))) @ [(0, Some (Pcb p))])" by auto
  show "idle_ready i s \<Longrightarrow> idle_ready i s'" "pid (pcbs s p) = 0 \<Longrightarrow> idle_ready p s'"
    by (auto simp: idle_ready_def p v ready_seq_add [OF l])
qed

text \<open>
  \<open>_dispatch\<close> brings the kernel to rest again when the idle process is ready.
\<close>

lemma dispatch_rest:
  assumes k: "kinv [] [] [] s" and i: "idle_ready i s"
  obtains p rest s' where
    "dropWhile (zombie (pcbs s)) (ready_seq (q_view s)) = p # rest"
    "dispatch s = Inr s'" "running p s'" "idle_ok i s'" "same_sio s s'"
    "dispatched (takeWhile (zombie (pcbs s)) (ready_seq (q_view s))) p rest s s'"
proof -
  let ?R = "ready_seq (q_view s)" and ?Z = "zombie (pcbs s)"
  from dispatch_some_ready [OF k idle_ready_some [OF i]] obtain p rest s' where
    p: "dropWhile ?Z ?R = p # rest" and s': "dispatch s = Inr s'" "kinv [p] [] [] s'"
      "dispatched (takeWhile ?Z ?R) p rest s s'" by blast
  note d = s'(3) [unfolded dispatched_def]
  have run: "running p s'" using s'(2) d by (simp add: running_def)
  have nz: "\<not> ?Z i" using i by (simp add: idle_ready_def zombie_def)
  have "i \<in> set (takeWhile ?Z ?R @ dropWhile ?Z ?R)" using i by (simp add: idle_ready_def)
  then have "i = p \<or> i \<in> set rest" "i \<notin> set (takeWhile ?Z ?R)"
    using nz p by (auto dest: set_takeWhileD)
  then have "idle_ok i s'" using d i by (auto simp: idle_ok_def idle_ready_def)
  moreover have "same_sio s s'" using d by (intro k_frame_sio) blast
  ultimately show thesis using that p s' run by blast
qed

lemma same_env_ok: "same_sio s s' \<Longrightarrow> env_ok s \<Longrightarrow> env_ok s'"
  by (simp add: same_sio_cong)

lemma dispatch_kernel_ok:
  assumes k: "kinv [] [] [] s" and i: "idle_ready i s" and sio: "env_ok s"
  shows "\<exists>s'. dispatch s = Inr s' \<and> kernel_ok i s'"
  using dispatch_rest [OF k i] same_env_ok [OF _ sio] unfolding kernel_ok_def by metis

text \<open>The running process goes to the back of its ready queue, and the next one runs.\<close>

lemma yield_kernel_ok:
  assumes r: "running c s" and i: "idle_ok i s" and sio: "env_ok s"
  shows "\<exists>t s'. schedule c s = Inr (STAT_SUCCESS, t) \<and> dispatch t = Inr s' \<and> kernel_ok i s'"
proof -
  note d = runningD [OF r]
  from kinv_schedule [OF d(2)] obtain t where t: "schedule c s = Inr (STAT_SUCCESS, t)"
    "kinv [] [] [] t" "k_frame s t" by blast
  have "idle_ready i t"
    using i schedule_idle [OF d(2) t(1)] d(1) by (auto simp: idle_ok_def)
  moreover have "env_ok t" using k_frame_sio [OF t(3)] sio by (rule same_env_ok)
  ultimately show ?thesis using dispatch_kernel_ok [OF t(2)] t(1) by blast
qed

end
