(* ===== verification/Syscall_Laws.thy ===== *)
theory Syscall_Laws
  imports Syscalls Kernel_Rest
begin

text \<open>
  What the system calls do, and that they bring the kernel to rest again.  The lemmas named
  \<open>_rest\<close> say that a handler called from a kernel at rest returns with the kernel at rest;
  their further premises are what the code relies on without a check.
\<close>

section \<open>Handlers that do not switch processes\<close>

lemma quiet_rest:
  assumes "kernel_ok i s" "same_procs s s'" "same_sio s s'"
  shows "kernel_ok i s'"
  using assms kernel_ok_cong by blast

lemma kernel_ok_basic [simp]:
  "kernel_ok i (ctx_set c w v s) = kernel_ok i s" "kernel_ok i (c_printf f vs s) = kernel_ok i s"
  "kernel_ok i (outb p x s) = kernel_ok i s"
  by (rule kernel_ok_cong; simp)+

lemma sys_time_rest: "kernel_ok i s \<Longrightarrow> \<exists>s'. sys_time lk c s = Inr s' \<and> kernel_ok i s'"
  by (auto simp: sys_time_def)

lemma kernel_ok_current: "kernel_ok i s \<Longrightarrow> \<exists>cur. current s = Some cur"
  by (auto simp: kernel_ok_def running_def)

lemma sys_getpid_rest: "kernel_ok i s \<Longrightarrow> \<exists>s'. sys_getpid c s = Inr s' \<and> kernel_ok i s'"
  using kernel_ok_current [of i s] by (auto simp: sys_getpid_def)

lemma sys_getppid_rest: "kernel_ok i s \<Longrightarrow> \<exists>s'. sys_getppid c s = Inr s' \<and> kernel_ok i s'"
  using kernel_ok_current [of i s] by (auto simp: sys_getppid_def)

subsection \<open>Writing\<close>

lemma env_okI: "same_procs s t \<Longrightarrow> env_ok s \<Longrightarrow> in_ok t \<Longrightarrow> out_ok t \<Longrightarrow> env_ok t"
  by (simp add: env_ok_def same_procs_table)

lemma out_add_same: "same_procs s (out_add x s) \<and> in_ok (out_add x s) = in_ok s"
  by (simp add: same_procs_def out_add_def in_ok_def)

lemma sio_write_rest:
  assumes ok: "env_ok s" and room: "outlast s + 2 \<le> BUF_SIZE"
  shows "\<exists>s'. sio_write ch s = Inr s' \<and> same_procs s s' \<and> env_ok s'"
proof -
  have send: "same_procs t (outb p x (t\<lparr>sending := True\<rparr>)) \<and> in_ok (outb p x (t\<lparr>sending := True\<rparr>)) = in_ok t \<and>
    out_ok (outb p x (t\<lparr>sending := True\<rparr>)) = out_ok t" for p x t
    by (simp add: same_procs_def outb_def in_ok_def out_ok_def)
  have io: "in_ok s" "out_ok s" using ok by (simp_all add: env_ok_def)
  have lt: "outlast s < BUF_SIZE" using room by simp
  consider "ch \<noteq> 10" "sending s" | "ch \<noteq> 10" "\<not> sending s" | "ch = 10" "sending s" | "ch = 10" "\<not> sending s"
    by blast
  then obtain s' where "sio_write ch s = Inr s'" "same_procs s s'" "in_ok s'" "out_ok s'"
  proof cases
    case 1
    then have "sio_write ch s = Inr (out_add ch s)" using lt by (simp add: sio_write_one)
    then show thesis using that out_add_same [of s ch] out_add_ok(1) [OF io(2) lt] io by blast
  next
    case 2
    then show thesis using that sio_write_idle [OF 2(2,1)] send [of s] io by blast
  next
    case 3
    note a = out_add_ok [OF io(2) lt, of 13]
    have "outlast (out_add 13 s) < BUF_SIZE" using room a(3) by simp
    note b = out_add_ok [OF a(1) this, of 10]
    have "sio_write ch s = Inr (out_add 10 (out_add 13 s))" using 3 room by (simp add: sio_write_lf)
    moreover have "same_procs s (out_add 10 (out_add 13 s))" "in_ok (out_add 10 (out_add 13 s))"
      using out_add_same same_trans(1) io by blast+
    ultimately show thesis using that b(1) by blast
  next
    case 4
    let ?t = "outb UA4_TXD 13 (s\<lparr>sending := True\<rparr>)"
    have t: "out_ok ?t" "in_ok ?t" "same_procs s ?t" "outlast ?t < BUF_SIZE"
      using send [of s] io lt by (auto simp: outb_def)
    have w: "sio_write 13 s = Inr ?t" using 4 by (intro sio_write_idle) simp_all
    have "sending ?t" by (simp add: outb_def)
    with t(4) have "sio_write 10 s = Inr (out_add 10 ?t)"
      by (subst sio_write.simps) (simp only: w simp_thms if_True bindE_simps Let_def, simp add: out_add_def)
    moreover have "same_procs s (out_add 10 ?t)" "in_ok (out_add 10 ?t)"
      using out_add_same t same_trans(1) by blast+
    ultimately show thesis using that out_add_ok(1) [OF t(1,4)] 4 by blast
  qed
  then show ?thesis using env_okI ok by blast
qed

lemma sys_write_rest:
  assumes ok: "kernel_ok i s" and room: "outlast s + 2 \<le> BUF_SIZE"
  shows "\<exists>s'. sys_write c s = Inr s' \<and> kernel_ok i s'"
proof -
  have "env_ok s" using ok by (simp add: kernel_ok_def)
  from sio_write_rest [OF this room] obtain s' where
    "sio_write (sys_arg c 0 s) s = Inr s'" "same_procs s s'" "env_ok s'" by blast
  then show ?thesis using ok by (auto simp: sys_write_def kernel_ok_def same_procs_cong)
qed

subsection \<open>The list of processes\<close>

text \<open>
  \<open>_sys_getpidlist\<close> counts the active processes and stores the pids of the first ones, two
  bytes each, as far as the buffer goes.
\<close>

definition active :: "kstate \<Rightarrow> nat list" where
  "active s = filter (\<lambda>i. PROC_NEW < status (pcbs s i)) [0..<MAX_PROCS]"

fun store16 :: "u32 \<Rightarrow> u16 list \<Rightarrow> kstate \<Rightarrow> kstate" where
  "store16 a [] s = s"
| "store16 a (v # vs) s = store16 (a + 2) vs (st16 a v s)"

lemma st16_simps [simp]:
  "queues (st16 a v s) = queues s" "qnodes (st16 a v s) = qnodes s" "free_qnodes (st16 a v s) = free_qnodes s"
  "pcbs (st16 a v s) = pcbs s" "current (st16 a v s) = current s" "stacks (st16 a v s) = stacks s"
  "same_sio s' (st16 a v s) = same_sio s' s"
  by (simp_all add: st16_def same_sio_def)

lemma store16_same: "same_procs s (store16 a vs s) \<and> same_sio s (store16 a vs s) \<and> stacks (store16 a vs s) = stacks s"
proof (induction vs arbitrary: a s)
  case (Cons v vs)
  then show ?case by (simp add: same_procs_def same_sio_def st16_def)
qed simp

lemma getpidlist_fold:
  fixes s :: kstate
  shows "fold getpidlist_step ps (ptr, sz, num, s) =
    (let act = filter (\<lambda>i. PROC_NEW < status (pcbs s i)) ps;
         k = min (unat sz) (length act)
     in (ptr + 2 * of_nat k, sz - of_nat k, num + of_nat (length act),
         store16 ptr (map (\<lambda>i. pid (pcbs s i)) (take k act)) s))"
proof (induction ps arbitrary: ptr sz num s)
  case (Cons p ps)
  show ?case
  proof (cases "PROC_NEW < status (pcbs s p)")
    case False
    then have "getpidlist_step p (ptr, sz, num, s) = (ptr, sz, num, s)" by (simp add: getpidlist_step_def)
    with False Cons show ?thesis by (simp add: Let_def)
  next
    case True
    show ?thesis
    proof (cases "sz = 0")
      case z: True
      then have "getpidlist_step p (ptr, sz, num, s) = (ptr, sz, num + 1, s)"
        using True by (simp add: getpidlist_step_def)
      with True z Cons.IH [where num = "num + 1" and sz = sz and ptr = ptr and s = s] show ?thesis by (simp add: Let_def add.assoc)
    next
      case nz: False
      then have step: "getpidlist_step p (ptr, sz, num, s) =
          (ptr + 2, sz - 1, num + 1, st16 ptr (pid (pcbs s p)) s)"
        using True by (simp add: getpidlist_step_def)
      obtain n where n: "unat sz = Suc n" "unat (sz - 1) = n"
        using nz by (cases "unat sz") (auto simp: unat_minus_one unsigned_eq_0_iff)
      from Cons.IH [where sz = "sz - 1" and ptr = "ptr + 2" and num = "num + 1" and s = "st16 ptr (pid (pcbs s p)) s"] True n
      show ?thesis by (simp add: step Let_def algebra_simps)
    qed
  qed
qed simp

lemma sys_getpidlist_eq:
  "sys_getpidlist c s =
    (let k = min (unat (sys_arg c 1 s)) (length (active s))
     in Inr (ctx_set c CTX_EAX (of_nat (length (active s)))
          (store16 (sys_arg c 0 s) (map (\<lambda>i. pid (pcbs s i)) (take k (active s))) s)))"
  unfolding sys_getpidlist_def Let_def
  by (simp add: getpidlist_fold active_def Let_def)

lemma sys_getpidlist_rest: "kernel_ok i s \<Longrightarrow> \<exists>s'. sys_getpidlist c s = Inr s' \<and> kernel_ok i s'"
proof -
  assume ok: "kernel_ok i s"
  let ?k = "min (unat (sys_arg c 1 s)) (length (active s))"
  let ?t = "store16 (sys_arg c 0 s) (map (\<lambda>i. pid (pcbs s i)) (take ?k (active s))) s"
  have "kernel_ok i ?t" using quiet_rest [OF ok] store16_same by blast
  then have "kernel_ok i (ctx_set c CTX_EAX (of_nat (length (active s))) ?t)" by simp
  then show ?thesis by (simp add: sys_getpidlist_eq Let_def)
qed


section \<open>Ending processes\<close>

text \<open>The zombies in front of the ready queues, and the processes from the next one to run on.\<close>

abbreviation zombies_of :: "kstate \<Rightarrow> nat list" where
  "zombies_of s \<equiv> takeWhile (zombie (pcbs s)) (ready_seq (q_view s))"

abbreviation ready_of :: "kstate \<Rightarrow> nat list" where
  "ready_of s \<equiv> dropWhile (zombie (pcbs s)) (ready_seq (q_view s))"

lemma zombies_cong:
  assumes "ready_seq (q_view t) = ready_seq (q_view s)"
    and "\<And>j. j \<in> set (ready_seq (q_view s)) \<Longrightarrow> status (pcbs t j) = status (pcbs s j)"
  shows "zombies_of t = zombies_of s" "ready_of t = ready_of s"
  using assms by (auto simp: zombie_def intro!: takeWhile_cong dropWhile_cong)

text \<open>\<open>exit\<close>, and \<open>kill\<close> of the caller itself: the caller is freed with its stack, and the next process runs.\<close>

lemma cleanup_current_dispatch:
  assumes r: "running c s" and i: "idle_ready i s" and sio: "env_ok s"
  obtains p rest s' where "ready_of s = p # rest"
    "bindE (cleanup (current s) s) dispatch = Inr s'" "running p s'" "idle_ok i s'" "env_ok s'"
    "pcbs_in (q_view s') Free_pcbs = pcbs_in (q_view s) Free_pcbs @ c # zombies_of s"
    "stacks_in (q_view s') = stacks_in (q_view s) @ map (stack_idx (pcbs s)) (c # zombies_of s)"
    "ready_seq (q_view s') = rest" "status (pcbs s' c) = PROC_FREE" "status (pcbs s' p) = PROC_RUNNING"
    "quantum (pcbs s' p) = QUANTUM_DEFAULT"
proof -
  note d = runningD [OF r]
  from kinv_cleanup [OF d(2)] obtain st t where t: "stack (pcbs s c) = Some st" "cleanup (Some c) s = Inr t"
    "kinv [] [] [] t" "k_frame s t" "pcbs t = (pcbs s)(c := (pcbs s c)\<lparr>status := PROC_FREE\<rparr>)"
    "q_view t = (q_view s)(Free_stacks := q_view s Free_stacks @ [(0, Some (Stack st))],
       Free_pcbs := q_view s Free_pcbs @ [(0, Some (Pcb c))])" by blast
  have rs: "ready_seq (q_view t) = ready_seq (q_view s)" by (rule ready_from_cong) (simp add: t(6))
  have ne: "j \<noteq> c" if "j \<in> set (ready_seq (q_view s))" for j using that d(5) by blast
  have it: "idle_ready i t" using i ne by (auto simp: idle_ready_def rs t(5))
  have z: "zombies_of t = zombies_of s" "ready_of t = ready_of s"
    by (rule zombies_cong [OF rs]; use ne in \<open>simp add: t(5)\<close>)+
  have si: "stack_idx (pcbs t) = stack_idx (pcbs s)" by (auto simp: t(5) stack_idx_def)
  from dispatch_rest [OF t(3) it] obtain p rest s' where
    s': "ready_of t = p # rest" "dispatch t = Inr s'" "running p s'" "idle_ok i s'" "same_sio t s'"
    "dispatched (zombies_of t) p rest t s'" by blast
  have pc: "p \<in> set (ready_seq (q_view s))"
    using s'(1) z(2) set_dropWhileD [of p "zombie (pcbs s)" "ready_seq (q_view s)"] by simp
  have cz: "c \<notin> set (zombies_of s)" using d(5) set_takeWhileD by fast
  have v: "pcbs_in (q_view t) Free_pcbs = pcbs_in (q_view s) Free_pcbs @ [c]"
    "stacks_in (q_view t) = stacks_in (q_view s) @ [stack_idx (pcbs s) c]"
    using t(1) by (simp_all add: t(6) pcbs_in_def stacks_in_def stack_idx_def)
  have "same_sio s s'" using k_frame_sio [OF t(4)] s'(5) by (rule same_trans)
  then have "env_ok s'" using sio by (rule same_env_ok)
  moreover have "bindE (cleanup (current s) s) dispatch = Inr s'" using t(2) s'(2) d(1) by simp
  moreover have "ready_of s = p # rest" using s'(1) z by simp
  moreover note s'(3,4)
  moreover have "pcbs_in (q_view s') Free_pcbs = pcbs_in (q_view s) Free_pcbs @ c # zombies_of s"
    "stacks_in (q_view s') = stacks_in (q_view s) @ map (stack_idx (pcbs s)) (c # zombies_of s)"
    "ready_seq (q_view s') = rest"
    using s'(6) v si z(1) by (simp_all add: dispatched_def)
  moreover have "status (pcbs s' c) = PROC_FREE" "status (pcbs s' p) = PROC_RUNNING"
    "quantum (pcbs s' p) = QUANTUM_DEFAULT"
    using s'(6) ne [OF pc] cz by (auto simp: dispatched_def t(5) z)
  ultimately show thesis using that by blast
qed

lemma kernel_okI: "running p s \<Longrightarrow> idle_ok i s \<Longrightarrow> env_ok s \<Longrightarrow> kernel_ok i s"
  by (auto simp: kernel_ok_def)

lemma sys_exit_rest:
  assumes "kernel_ok i s" "current s \<noteq> Some i"
  shows "\<exists>s'. sys_exit c s = Inr s' \<and> kernel_ok i s'"
proof -
  from assms(1) obtain cur where r: "running cur s" by (auto simp: kernel_ok_def)
  have "idle_ready i s" "env_ok s" using assms by (auto simp: kernel_ok_def dest: idle_okD)
  from cleanup_current_dispatch [OF r this] show ?thesis
    by (metis kernel_okI sys_exit_def)
qed

text \<open>
  \<open>kill\<close> of another process only marks it.  Only active processes with the pid are found, and
  the running process is not one of them.
\<close>

definition kill_target :: "u16 \<Rightarrow> kstate \<Rightarrow> nat option" where
  "kill_target p s = find (\<lambda>i. pid (pcbs s i) = p \<and> PROC_NEW < status (pcbs s i)) [0..<MAX_PROCS]"

lemma kill_target_SomeD:
  assumes "kill_target p s = Some j"
  shows "j < MAX_PROCS" "pid (pcbs s j) = p" "PROC_NEW < status (pcbs s j)"
  using assms by (auto simp: kill_target_def find_Some_iff)

lemma sys_kill_other:
  assumes r: "running cur s" and p: "p = ucast (sys_arg c 0 (ctx_set c CTX_EAX (-1) s))"
    and nz: "p \<noteq> 0" "p \<noteq> pid (pcbs s cur)"
  shows "sys_kill c s = Inr
    (case kill_target p s of
       None \<Rightarrow> ctx_set c CTX_EAX (-1) s
     | Some j \<Rightarrow> set_pcb j (\<lambda>p. p\<lparr>status := PROC_ZOMBIE\<rparr>)
         (ctx_set c CTX_EAX (ucast (status (pcbs s j))) (ctx_set c CTX_EAX (-1) s)))"
  using runningD(1) [OF r] nz p
  by (simp add: sys_kill_def Let_def kill_target_def split: option.split)

lemma kinv_kill:
  assumes k: "kinv [c] [] [] s" and st: "PROC_NEW < status (pcbs s j)"
  shows "kinv [c] [] [] (set_pcb j (\<lambda>p. p\<lparr>status := PROC_ZOMBIE\<rparr>) s)"
proof (rule kinv_set_pcb [OF k])
  show "j \<notin> set (pcbs_in (q_view s) Free_pcbs)"
    using kinvD(5) [OF k] st by (auto simp: statuses_def)
  show "stack ((pcbs s j)\<lparr>status := PROC_ZOMBIE\<rparr>) = stack (pcbs s j) \<and>
      live_pcb ((pcbs s j)\<lparr>status := PROC_ZOMBIE\<rparr>) \<or> j \<notin># live (q_view s) + mset [c]"
    using kinvD(4) [OF k] by (auto simp: owned_def live_pcb_def)
qed simp

lemma sys_kill_rest:
  assumes ok: "kernel_ok i s"
  shows "\<exists>s'. sys_kill c s = Inr s' \<and> kernel_ok i s'"
proof -
  from ok obtain cur where r: "running cur s" by (auto simp: kernel_ok_def)
  note d = runningD [OF r]
  let ?s = "ctx_set c CTX_EAX (-1) s"
  define p where "p = (ucast (sys_arg c 0 ?s) :: u16)"
  have ok': "kernel_ok i ?s" and r': "running cur ?s"
    using ok r same_procs_cong(1) [OF same_basic(1)] by simp_all
  consider "p = 0" | "p \<noteq> 0" "p = pid (pcbs s cur)" | "p \<noteq> 0" "p \<noteq> pid (pcbs s cur)" by blast
  then show ?thesis
  proof cases
    case 1
    then show ?thesis using d(1) ok by (simp add: sys_kill_def Let_def p_def)
  next
    case 2
    then have "current ?s \<noteq> Some i" using d(1) ok by (auto simp: kernel_ok_def idle_ok_def idle_ready_def)
    then have ii: "idle_ready i ?s" "env_ok ?s" using ok' by (auto simp: kernel_ok_def dest: idle_okD)
    have "sys_kill c s = bindE (cleanup (current ?s) ?s) dispatch"
      using d(1) 2 by (simp add: sys_kill_def Let_def p_def)
    with cleanup_current_dispatch [OF r' ii] show ?thesis by (metis kernel_okI)
  next
    case 3
    note e = sys_kill_other [OF r p_def 3]
    show ?thesis
    proof (cases "kill_target p s")
      case None
      then show ?thesis using e ok by simp
    next
      case (Some j)
      note j = kill_target_SomeD [OF Some]
      let ?t = "ctx_set c CTX_EAX (ucast (status (pcbs s j))) ?s"
      let ?u = "set_pcb j (\<lambda>p. p\<lparr>status := PROC_ZOMBIE\<rparr>) ?t"
      have jc: "j \<noteq> cur" using j(2) 3 by auto
      have pi: "pid (pcbs s i) = 0" using ok by (auto simp: kernel_ok_def idle_ok_def idle_ready_def)
      have ji: "j \<noteq> i" using j(2) 3(1) pi by auto
      have "kinv [cur] [] [] ?u" using kinv_kill [of cur ?t j] d(2) j(3) by simp
      then have "running cur ?u" using d(1) by (simp add: running_def)
      moreover have "idle_ok i ?u"
        using ok ji by (auto simp: kernel_ok_def idle_ok_def idle_ready_def)
      moreover have "env_ok ?u"
        using ok by (simp add: kernel_ok_def env_ok_def in_ok_def out_ok_def table_ok_def set_pcb_def ctx_set_def)
      ultimately show ?thesis using e Some by (auto intro: kernel_okI)
    qed
  qed
qed


section \<open>Waiting\<close>

text \<open>The running process goes into a queue of waiting processes, and the next one runs.\<close>

lemma block_dispatch:
  assumes r: "running c s" and i: "idle_ready i s" and sio: "env_ok s"
    and q: "q \<in> {Sleeping, Reading}"
    and f: "stack (f (pcbs s c)) = stack (pcbs s c)" "live_pcb (f (pcbs s c))"
  obtains u p rest s' where "ready_of s = p # rest"
    "q_insert q (Some (Pcb c)) (set_pcb c f s) = Inr (STAT_SUCCESS, u)"
    "dispatch u = Inr s'" "running p s'" "idle_ok i s'" "env_ok s'"
    "q_view s' q = q_place (q = Sleeping)
       (if q = Sleeping then wakeup (f (pcbs s c)) else 0, Some (Pcb c)) (q_view s q)"
    "pcbs s' c = f (pcbs s c)" "ready_seq (q_view s') = rest" "status (pcbs s' p) = PROC_RUNNING"
proof -
  note d = runningD [OF r]
  let ?t = "set_pcb c f s"
  have k: "kinv [c] [] [] ?t" using d(2) f by (rule kinv_set_held)
  have ql: "q \<in> set live_queues" and qr: "q \<noteq> Ready l" for l using q by (auto simp: live_queues_def)
  from kinv_put [OF k ql] qr obtain u where
    u: "q_insert q (Some (Pcb c)) ?t = Inr (STAT_SUCCESS, u)" "kinv [] [] [] u" "q_frame ?t u"
      "q_view u = (q_view s)(q := q_place (q = Sleeping)
       (if q = Sleeping then wakeup (f (pcbs s c)) else 0, Some (Pcb c)) (q_view s q))" by auto
  have pu: "pcbs u = (pcbs s)(c := f (pcbs s c))" by (simp add: q_frame_fields [OF u(3)])
  have rs: "ready_seq (q_view u) = ready_seq (q_view s)"
    by (rule ready_from_cong) (use qr in \<open>auto simp: u(4)\<close>)
  have ne: "j \<noteq> c" if "j \<in> set (ready_seq (q_view s))" for j using that d(5) by blast
  have iu: "idle_ready i u" using i ne by (auto simp: idle_ready_def rs pu)
  have z: "zombies_of u = zombies_of s" "ready_of u = ready_of s"
    by (rule zombies_cong [OF rs]; use ne in \<open>simp add: pu\<close>)+
  from dispatch_rest [OF u(2) iu] obtain p rest s' where
    s': "ready_of u = p # rest" "dispatch u = Inr s'" "running p s'" "idle_ok i s'" "same_sio u s'"
    "dispatched (zombies_of u) p rest u s'" by blast
  have "p \<in> set (ready_seq (q_view s))"
    using s'(1) z(2) set_dropWhileD [of p "zombie (pcbs s)" "ready_seq (q_view s)"] by simp
  then have pc: "p \<noteq> c" by (rule ne)
  have cz: "c \<notin> set (zombies_of s)" using d(5) set_takeWhileD by fast
  have "k_frame s u" using q_frame_k_frame [OF u(3)] by simp
  then have "env_ok s'" using k_frame_sio s'(5) sio same_trans(2) same_env_ok by blast
  moreover have "q_view s' q = q_view u q" using s'(6) qr q by (auto simp: dispatched_def)
  moreover have "pcbs s' c = f (pcbs s c)"
  proof -
    have "c \<notin> set (zombies_of u)" unfolding z by (rule cz)
    with s'(6) pc have "pcbs s' c = pcbs u c" unfolding dispatched_def by simp
    then show ?thesis by (simp add: pu)
  qed
  moreover have "ready_seq (q_view s') = rest" "status (pcbs s' p) = PROC_RUNNING"
    using s'(6) by (simp_all add: dispatched_def)
  moreover have "ready_of s = p # rest" using s'(1) z by simp
  ultimately show thesis using that u(1,4) s'(2-4) by simp
qed

lemma live_pcb_simps [simp]:
  "live_pcb (p\<lparr>status := x1\<rparr>) = live_pcb p" "live_pcb (p\<lparr>wakeup := x2\<rparr>) = live_pcb p"
  "live_pcb (p\<lparr>quantum := x1\<rparr>) = live_pcb p" "live_pcb (p\<lparr>ppid := x3\<rparr>) = live_pcb p"
  "live_pcb (p\<lparr>pending_request := x4\<rparr>) = live_pcb p"
  by (simp_all add: live_pcb_def)

text \<open>
  \<open>sleep\<close>: the time to wake up is the key in the queue of sleeping processes, which stays
  sorted with equal times in order.
\<close>

lemma sys_sleep_effect:
  assumes r: "running cur s" and i: "idle_ready i s" and sio: "env_ok s"
    and n: "(ucast (sys_arg c 0 s) :: u16) \<noteq> 0"
    and w: "w = system_time s + ucast (ucast (sys_arg c 0 s) :: u16) * timer_ticks_per_second lk"
  obtains p rest s' where "ready_of s = p # rest" "sys_sleep lk c s = Inr s'"
    "running p s'" "idle_ok i s'" "env_ok s'"
    "q_view s' Sleeping = insert_by fst (w, Some (Pcb cur)) (q_view s Sleeping)"
    "pcbs s' cur = (pcbs s cur)\<lparr>wakeup := w, status := PROC_SLEEPING\<rparr>"
    "ready_seq (q_view s') = rest" "status (pcbs s' p) = PROC_RUNNING"
proof -
  note d = runningD [OF r]
  let ?f = "\<lambda>p. p\<lparr>wakeup := w, status := PROC_SLEEPING\<rparr>"
  have e: "set_pcb cur (\<lambda>p. p\<lparr>status := PROC_SLEEPING\<rparr>) (set_pcb cur (\<lambda>p. p\<lparr>wakeup := w\<rparr>) s) = set_pcb cur ?f s"
    by (simp add: set_pcb_def)
  have pre: "Sleeping \<in> {Sleeping, Reading}" "stack (?f (pcbs s cur)) = stack (pcbs s cur)"
    "live_pcb (?f (pcbs s cur))" using d(4) by simp_all
  obtain u p rest s' where
    u: "ready_of s = p # rest" "q_insert Sleeping (Some (Pcb cur)) (set_pcb cur ?f s) = Inr (STAT_SUCCESS, u)"
    "dispatch u = Inr s'" "running p s'" "idle_ok i s'" "env_ok s'"
    "q_view s' Sleeping = q_place (Sleeping = Sleeping)
      (if Sleeping = Sleeping then wakeup (?f (pcbs s cur)) else 0, Some (Pcb cur)) (q_view s Sleeping)"
    "pcbs s' cur = ?f (pcbs s cur)" "ready_seq (q_view s') = rest" "status (pcbs s' p) = PROC_RUNNING"
    by (rule block_dispatch [where f = ?f, OF r i sio pre])
  have "sys_sleep lk c s = Inr s'"
    using d(1) n u(2,3) by (simp add: sys_sleep_def Let_def e flip: w)
  then show thesis using that u by (simp add: q_place_def)
qed

lemma sys_sleep_rest:
  assumes ok: "kernel_ok i s" and g: "(ucast (sys_arg c 0 s) :: u16) \<noteq> 0 \<Longrightarrow> current s \<noteq> Some i"
  shows "\<exists>s'. sys_sleep lk c s = Inr s' \<and> kernel_ok i s'"
proof -
  from ok obtain cur where r: "running cur s" by (auto simp: kernel_ok_def)
  have io: "idle_ok i s" "env_ok s" using ok by (auto simp: kernel_ok_def)
  show ?thesis
  proof (cases "(ucast (sys_arg c 0 s) :: u16) = 0")
    case True
    from yield_kernel_ok [OF r io] obtain t s' where
      "schedule cur s = Inr (STAT_SUCCESS, t)" "dispatch t = Inr s'" "kernel_ok i s'" by blast
    then show ?thesis using True runningD(1) [OF r] by (simp add: sys_sleep_def Let_def)
  next
    case False
    then have "idle_ready i s" using g io by (auto dest: idle_okD)
    from sys_sleep_effect [OF r this io(2) False refl] show ?thesis by (metis kernel_okI)
  qed
qed

text \<open>\<open>read\<close>: the next character of the input, or the caller waits behind the others.\<close>

lemma sint_ucast_8 [simp]: "0 \<le> sint (ucast (c :: u8) :: u32)"
proof -
  have "0 \<le> uint c" "uint c < 256" using unsigned_less [of c, where ?'a = int] by simp_all
  moreover from this have "- 2147483648 \<le> uint c" by linarith
  ultimately have "signed_take_bit 31 (uint c) = uint c" by (intro signed_take_bit_int_eq_self) simp_all
  then show ?thesis by (simp add: signed_ucast_eq)
qed


lemma sys_read_char:
  assumes sio: "env_ok s" and d: "in_data s = ch # chs"
  shows "\<exists>t. sys_read c s = Inr (ctx_set c CTX_EAX (ucast ch) t) \<and> same_procs s t \<and> env_ok t \<and> in_data t = chs"
proof -
  have "in_ok s" using sio by (simp add: env_ok_def)
  have lt: "innext s < inlast s" using d by (cases "innext s < inlast s") (auto simp: in_data_def)
  have pos: "0 < incount s" using \<open>in_ok s\<close> lt by (auto simp: in_ok_def word_less_nat_alt)
  from sio_read_ok [OF \<open>in_ok s\<close> d] obtain t where t: "sio_read s = Inr (ucast ch, t)" "in_ok t" "in_data t = chs"
    by blast
  have "same_procs s t \<and> out_ok t"
    using t(1) sio pos by (auto simp: sio_read_def Let_def same_procs_def env_ok_def out_ok_def split: if_splits)
  then have "env_ok t" using env_okI sio t(2) by blast
  with t \<open>same_procs s t \<and> out_ok t\<close> show ?thesis by (intro exI [of _ t]) (simp add: sys_read_def)
qed

lemma sys_read_wait:
  assumes r: "running cur s" and i: "idle_ready i s" and sio: "env_ok s" and e: "in_data s = []"
  obtains p rest s' where "ready_of s = p # rest" "sys_read c s = Inr s'"
    "running p s'" "idle_ok i s'" "env_ok s'"
    "pcbs_in (q_view s') Reading = pcbs_in (q_view s) Reading @ [cur]"
    "pcbs s' cur = (pcbs s cur)\<lparr>status := PROC_BLOCKED\<rparr>"
    "ready_seq (q_view s') = rest" "status (pcbs s' p) = PROC_RUNNING"
proof -
  note d = runningD [OF r]
  let ?f = "\<lambda>p. p\<lparr>status := PROC_BLOCKED\<rparr>"
  have pre: "Reading \<in> {Sleeping, Reading}" "stack (?f (pcbs s cur)) = stack (pcbs s cur)"
    "live_pcb (?f (pcbs s cur))" using d(4) by simp_all
  obtain u p rest s' where
    u: "ready_of s = p # rest" "q_insert Reading (Some (Pcb cur)) (set_pcb cur ?f s) = Inr (STAT_SUCCESS, u)"
    "dispatch u = Inr s'" "running p s'" "idle_ok i s'" "env_ok s'"
    "q_view s' Reading = q_place (Reading = Sleeping)
      (if Reading = Sleeping then wakeup (?f (pcbs s cur)) else 0, Some (Pcb cur)) (q_view s Reading)"
    "pcbs s' cur = ?f (pcbs s cur)" "ready_seq (q_view s') = rest" "status (pcbs s' p) = PROC_RUNNING"
    by (rule block_dispatch [where f = ?f, OF r i sio pre])
  have "sio_read s = Inr (-1, s)" using sio e by (intro sio_read_empty) (simp_all add: env_ok_def)
  then have "sys_read c s = Inr s'" using d(1) u(2,3) by (simp add: sys_read_def Let_def)
  moreover have "pcbs_in (q_view s') Reading = pcbs_in (q_view s) Reading @ [cur]"
    using u(7) by (simp add: pcbs_in_def q_place_def)
  ultimately show thesis using that u by simp
qed

lemma sys_read_rest:
  assumes ok: "kernel_ok i s" and g: "in_data s = [] \<Longrightarrow> current s \<noteq> Some i"
  shows "\<exists>s'. sys_read c s = Inr s' \<and> kernel_ok i s'"
proof (cases "in_data s")
  case Nil
  from ok obtain cur where r: "running cur s" by (auto simp: kernel_ok_def)
  have "idle_ready i s" "env_ok s" using ok g Nil by (auto simp: kernel_ok_def dest: idle_okD)
  from sys_read_wait [OF r this Nil] show ?thesis by (metis kernel_okI)
next
  case (Cons ch chs)
  have "env_ok s" using ok by (simp add: kernel_ok_def)
  from sys_read_char [OF this Cons, of c] obtain t where
    "sys_read c s = Inr (ctx_set c CTX_EAX (ucast ch) t)" "same_procs s t" "env_ok t" by blast
  then show ?thesis using ok by (auto simp: kernel_ok_def same_procs_cong same_procs_cong [OF same_basic(1)]
        same_sio_cong [OF same_basic(2)])
qed


section \<open>Creating processes\<close>

text \<open>Adding an element at the end of a queue.\<close>

definition enq :: "queue_id \<Rightarrow> nat \<Rightarrow> view \<Rightarrow> view" where
  "enq q p v = v(q := v q @ [(0, Some (Pcb p))])"

definition deq :: "queue_id \<Rightarrow> view \<Rightarrow> view" where
  "deq q v = v(q := tl (v q))"

lemma kinv_fresh_ne:
  assumes "kinv [c] [j] K s"
  shows "j \<noteq> c"
  using owned_fresh(4) [OF kinvD(4) [OF assms]] by simp

lemma idle_frame:
  assumes i: "idle_ok i s" and c: "running c s" "current t = Some c"
    and v: "ready_seq (q_view t) = ready_seq (q_view s)"
    and p: "\<And>k. k \<noteq> j \<Longrightarrow> pcbs t k = pcbs s k" and j: "j \<noteq> c" "j \<notin> set (ready_seq (q_view s))"
  shows "idle_ok i t"
  using i c runningD(1) [OF c(1)] p j by (cases "i = j") (auto simp: idle_ok_def idle_ready_def v)

lemma spawn_until_dispatch:
  assumes r: "running cur s" and i: "idle_ok i s" and sio: "env_ok s"
    and j: "pcbs_in (q_view s) Free_pcbs = j # js" and st: "stacks_in (q_view s) = stk # sts"
    and lvl: "unat lvl < MLQ_LEVELS"
  obtains t where "spawn lk c fcn lvl s = dispatch t" "kinv [] [] [] t" "idle_ready i t" "env_ok t"
    "system_time t = system_time s" "next_pid t = next_pid s + 1"
    "pcbs t = (pcbs s)
       (j := (new_pcb stk (next_pid s) lvl)\<lparr>ppid := pid (pcbs s cur), status := PROC_READY\<rparr>,
        cur := (pcbs s cur)\<lparr>status := PROC_READY\<rparr>)"
    "q_view t = enq (Ready (unat (level (pcbs s cur)))) cur (enq (Ready (unat lvl)) j
       (deq Free_stacks (deq Free_pcbs (q_view s))))"
    "stacks t = stacks (ctx_set c CTX_EAX (ucast (next_pid s)) (snd (make_proc lk j stk fcn lvl s)))"
proof -
  note d = runningD [OF r]
  from kinv_pcb_alloc [OF d(2) j] obtain s1 where s1: "pcb_alloc s = Inr (Some j, s1)"
    "kinv [cur] [j] [] s1" "k_frame s s1" "pcbs s1 = (pcbs s)(j := (pcbs s j)\<lparr>status := PROC_NEW\<rparr>)"
    "current s1 = current s" "next_pid s1 = next_pid s" "stacks s1 = stacks s"
    "q_view s1 = deq Free_pcbs (q_view s)" by (auto simp: deq_def)
  have "stacks_in (q_view s1) = stk # sts" using st by (simp add: s1(8) stacks_in_def deq_def)
  from kinv_stack_alloc [OF s1(2) this] obtain s2 where s2: "stack_alloc s1 = Inr (Some stk, s2)"
    "kinv [cur] [j] [stk] s2" "q_frame s1 s2" "q_view s2 = deq Free_stacks (q_view s1)" by (auto simp: deq_def)
  note f2 = q_frame_fields [OF s2(3)]
  define s3 where "s3 = snd (make_proc lk j stk fcn lvl s2)"
  have mp: "make_proc lk j stk fcn lvl s2 = (next_pid s, s3)"
    by (simp add: s3_def prod_eq_iff make_proc_eq f2 s1)
  note m = make_proc_eq [where lk = lk and i = j and stk = stk and fcn = fcn and lvl = lvl and s = s2, folded s3_def]
  have k3: "kinv (j # [cur]) [] [] s3" unfolding s3_def by (rule kinv_make_proc [OF s2(2) lvl])
  have ne: "j \<noteq> cur" by (rule kinv_fresh_ne [OF s1(2)])
  have cur3: "current s3 = Some cur" by (simp add: m f2 s1 d(1))
  define s4 where "s4 = set_pcb j (\<lambda>p. p\<lparr>ppid := pid (pcbs s cur)\<rparr>) (ctx_set c CTX_EAX (ucast (next_pid s)) s3)"
  have pc3: "pcbs s3 = (pcbs s)(j := new_pcb stk (next_pid s) lvl)" by (simp add: m f2 s1)
  have "live_pcb (pcbs s3 j)" by (rule owned_held(6) [OF kinvD(4) [OF k3]])
  then have k4: "kinv (j # [cur]) [] [] s4" unfolding s4_def
    by (intro kinv_set_held) (simp_all add: k3)
  have v4: "q_view s4 = deq Free_stacks (deq Free_pcbs (q_view s))"
    using s2(4) s1(8) make_proc_view [of lk j stk fcn lvl s2] by (simp add: s4_def s3_def)
  have p4: "pcbs s4 = (pcbs s)(j := (new_pcb stk (next_pid s) lvl)\<lparr>ppid := pid (pcbs s cur)\<rparr>)"
    by (simp add: s4_def pc3)
  have lj: "level (pcbs s4 j) = lvl" by (simp add: p4 new_pcb_def)
  from kinv_schedule [OF k4] lj obtain s5 where s5: "schedule j s4 = Inr (STAT_SUCCESS, s5)"
    "kinv [cur] [] [] s5" "k_frame s4 s5" "pcbs s5 = (pcbs s4)(j := (pcbs s4 j)\<lparr>status := PROC_READY\<rparr>)"
    "current s5 = current s4" "next_pid s5 = next_pid s4" "stacks s5 = stacks s4"
    "q_view s5 = enq (Ready (unat lvl)) j (q_view s4)" by (auto simp: enq_def)
  have lc: "level (pcbs s5 cur) = level (pcbs s cur)" using ne by (simp add: s5(4) p4)
  from kinv_schedule [OF s5(2)] lc obtain s6 where s6: "schedule cur s5 = Inr (STAT_SUCCESS, s6)"
    "kinv [] [] [] s6" "k_frame s5 s6" "pcbs s6 = (pcbs s5)(cur := (pcbs s5 cur)\<lparr>status := PROC_READY\<rparr>)"
    "current s6 = current s5" "next_pid s6 = next_pid s5" "stacks s6 = stacks s5"
    "q_view s6 = enq (Ready (unat (level (pcbs s cur)))) cur (q_view s5)" by (auto simp: enq_def)
  have rs4: "ready_seq (q_view s4) = ready_seq (q_view s)" by (rule ready_from_cong) (simp add: v4 deq_def)
  have "j \<notin> set (ready_seq (q_view s4))" using owned_held(2) [OF kinvD(4) [OF k4]] ready_from_live by blast
  then have i4: "idle_ok i s4"
    using i r cur3 p4 ne rs4 by (intro idle_frame [OF i r, of _ j]) (auto simp: s4_def)
  have "idle_ok i s5"
    using i4 schedule_idle(1) [OF k4 s5(1)] s5(4,5) p4 ne cur3 by (auto simp: idle_ok_def s4_def)
  then have i6: "idle_ready i s6"
    using schedule_idle [OF s5(2) s6(1)] s5(5) cur3 by (auto simp: idle_ok_def s4_def)
  have fr: "k_frame s s6"
  proof -
    have "k_frame s1 s2" by (rule q_frame_k_frame [OF s2(3)])
    moreover have "k_frame s2 s4" using m(4) by (simp add: s4_def)
    ultimately show ?thesis using s1(3) s5(3) s6(3) k_frame_trans by blast
  qed
  then have e6: "env_ok s6" using sio k_frame_sio same_env_ok by blast
  have "spawn lk c fcn lvl s = dispatch s6"
    using s1(1) s2(1) mp s5(1) s6(1) cur3 ne
    by (simp add: spawn_def Let_def pc3 flip: s4_def)
  moreover have "pcbs s6 = (pcbs s)
       (j := (new_pcb stk (next_pid s) lvl)\<lparr>ppid := pid (pcbs s cur), status := PROC_READY\<rparr>,
        cur := (pcbs s cur)\<lparr>status := PROC_READY\<rparr>)"
    using ne by (simp add: s6(4) s5(4) p4)
  moreover have "next_pid s6 = next_pid s + 1" by (simp add: s6(6) s5(6) s4_def m f2 s1)
  moreover have "stacks s6 = stacks (ctx_set c CTX_EAX (ucast (next_pid s)) (snd (make_proc lk j stk fcn lvl s)))"
    by (simp add: s6(7) s5(7) s4_def s3_def make_proc_stacks f2 s1(7) cong: if_cong)
  ultimately show thesis using that s6(2) i6 e6 k_frame_fields(7) [OF fr] s6(8) s5(8) v4 by simp
qed

lemma spawn_ok:
  assumes "running cur s" "idle_ok i s" "env_ok s"
    and "pcbs_in (q_view s) Free_pcbs = j # js" "stacks_in (q_view s) = stk # sts"
    and "unat lvl < MLQ_LEVELS"
  obtains t s' where "spawn lk c fcn lvl s = Inr s'" "dispatch t = Inr s'" "kernel_ok i s'"
    "next_pid t = next_pid s + 1"
    "pcbs t = (pcbs s)
       (j := (new_pcb stk (next_pid s) lvl)\<lparr>ppid := pid (pcbs s cur), status := PROC_READY\<rparr>,
        cur := (pcbs s cur)\<lparr>status := PROC_READY\<rparr>)"
    "q_view t = enq (Ready (unat (level (pcbs s cur)))) cur (enq (Ready (unat lvl)) j
       (deq Free_stacks (deq Free_pcbs (q_view s))))"
    "stacks t = stacks (ctx_set c CTX_EAX (ucast (next_pid s)) (snd (make_proc lk j stk fcn lvl s)))"
  using spawn_until_dispatch [OF assms, of lk c fcn] dispatch_kernel_ok by metis

text \<open>Without a free PCB nothing happens but that the caller gets -1.\<close>

lemma spawn_no_pcb:
  assumes r: "running cur s" and j: "pcbs_in (q_view s) Free_pcbs = []"
  shows "spawn lk c fcn lvl s = Inr (ctx_set c CTX_EAX (-1) s)"
  using kinv_pcb_alloc_none [OF runningD(2) [OF r] j] by (simp add: spawn_def)

text \<open>Without a free stack the PCB goes back, to the end of the queue of free PCBs.\<close>

lemma spawn_no_stack:
  assumes r: "running cur s" and i: "idle_ok i s" and sio: "env_ok s"
    and j: "pcbs_in (q_view s) Free_pcbs = j # js" and st: "stacks_in (q_view s) = []"
  shows "\<exists>t. spawn lk c fcn lvl s = Inr (ctx_set c CTX_EAX (-1) t) \<and> kernel_ok i t \<and>
    pcbs_in (q_view t) Free_pcbs = js @ [j] \<and> current t = Some cur \<and> next_pid t = next_pid s \<and>
    system_time t = system_time s \<and> pcbs t j = (pcbs s j)\<lparr>status := PROC_FREE\<rparr> \<and>
    (\<forall>k. k \<noteq> j \<longrightarrow> pcbs t k = pcbs s k) \<and> (\<forall>q. q \<noteq> Free_pcbs \<longrightarrow> q_view t q = q_view s q)"
proof -
  note d = runningD [OF r]
  from kinv_pcb_alloc [OF d(2) j] obtain s1 where s1: "pcb_alloc s = Inr (Some j, s1)"
    "kinv [cur] [j] [] s1" "k_frame s s1" "pcbs s1 = (pcbs s)(j := (pcbs s j)\<lparr>status := PROC_NEW\<rparr>)"
    "current s1 = current s" "next_pid s1 = next_pid s"
    "q_view s1 = deq Free_pcbs (q_view s)" by (auto simp: deq_def)
  have "stacks_in (q_view s1) = []" using st by (simp add: s1(7) stacks_in_def deq_def)
  note none = kinv_stack_alloc_none [OF s1(2) this]
  from kinv_pcb_dealloc [OF s1(2)] obtain t where t: "pcb_dealloc j s1 = Inr (STAT_SUCCESS, t)"
    "kinv [cur] [] [] t" "k_frame s1 t" "pcbs t = (pcbs s1)(j := (pcbs s1 j)\<lparr>status := PROC_FREE\<rparr>)"
    "current t = current s1" "next_pid t = next_pid s1"
    "q_view t = (q_view s1)(Free_pcbs := q_view s1 Free_pcbs @ [(0, Some (Pcb j))])" by blast
  have v: "q_view t q = q_view s q" if "q \<noteq> Free_pcbs" for q using that by (simp add: t(7) s1(7) deq_def)
  have ne: "j \<noteq> cur" by (rule kinv_fresh_ne [OF s1(2)])
  have cur: "current t = Some cur" by (simp add: t(5) s1(5) d(1))
  have p: "k \<noteq> j \<Longrightarrow> pcbs t k = pcbs s k" for k by (simp add: t(4) s1(4))
  have rs: "ready_seq (q_view t) = ready_seq (q_view s)" by (rule ready_from_cong) (simp add: v)
  have rs1: "ready_seq (q_view s1) = ready_seq (q_view s)" by (rule ready_from_cong) (simp add: s1(7) deq_def)
  have "j \<notin> set (ready_seq (q_view s))"
    using owned_fresh(2) [OF kinvD(4) [OF s1(2)]] ready_from_live [of 0 "q_view s1"] rs1 by auto
  then have "idle_ok i t" using idle_frame [OF i r cur rs p ne] by blast
  moreover have "running cur t" using t(2) cur by (simp add: running_def)
  moreover have "env_ok t" using k_frame_trans [OF s1(3) t(3)] k_frame_sio sio same_env_ok by blast
  ultimately have "kernel_ok i t" by (auto intro: kernel_okI)
  moreover have "pcbs_in (q_view t) Free_pcbs = js @ [j]"
    using j by (simp add: t(7) s1(7) pcbs_in_def deq_def map_tl)
  moreover have "spawn lk c fcn lvl s = Inr (ctx_set c CTX_EAX (-1) t)"
    using s1(1) none t(1) by (simp add: spawn_def)
  moreover have "pcbs t j = (pcbs s j)\<lparr>status := PROC_FREE\<rparr>" by (simp add: t(4) s1(4))
  ultimately show ?thesis using v p cur t(6) s1(6) k_frame_time [OF k_frame_trans [OF s1(3) t(3)]] by auto
qed

lemma kinv_drop_fresh: "kinv H (i # F) (st # K) s \<Longrightarrow> kinv H F K s"
  unfolding kinv_def owned_def by (auto dest!: sub_drop)

text \<open>
  With a level out of range the PCB and its stack are lost: \<open>_schedule\<close> refuses the new
  process, \<open>_spawn\<close> does not look, and the caller gets the pid of a process that is in no
  queue.
\<close>

lemma spawn_until_dispatch_bad_level:
  assumes r: "running cur s" and i: "idle_ok i s" and sio: "env_ok s"
    and j: "pcbs_in (q_view s) Free_pcbs = j # js" and st: "stacks_in (q_view s) = stk # sts"
    and lvl: "MLQ_LEVELS \<le> unat lvl"
  obtains t where "spawn lk c fcn lvl s = dispatch t" "idle_ready i t" "env_ok t" "system_time t = system_time s"
    "pcbs t = (pcbs s)
       (j := (new_pcb stk (next_pid s) lvl)\<lparr>ppid := pid (pcbs s cur)\<rparr>,
        cur := (pcbs s cur)\<lparr>status := PROC_READY\<rparr>)"
    "q_view t = enq (Ready (unat (level (pcbs s cur)))) cur
       (deq Free_stacks (deq Free_pcbs (q_view s)))"
    "kinv [] [j] [stk] t"
    "stacks t = stacks (ctx_set c CTX_EAX (ucast (next_pid s)) (snd (make_proc lk j stk fcn lvl s)))"
proof -
  note d = runningD [OF r]
  from kinv_pcb_alloc [OF d(2) j] obtain s1 where s1: "pcb_alloc s = Inr (Some j, s1)"
    "kinv [cur] [j] [] s1" "k_frame s s1" "pcbs s1 = (pcbs s)(j := (pcbs s j)\<lparr>status := PROC_NEW\<rparr>)"
    "current s1 = current s" "next_pid s1 = next_pid s" "stacks s1 = stacks s"
    "q_view s1 = deq Free_pcbs (q_view s)" by (auto simp: deq_def)
  have "stacks_in (q_view s1) = stk # sts" using st by (simp add: s1(8) stacks_in_def deq_def)
  from kinv_stack_alloc [OF s1(2) this] obtain s2 where s2: "stack_alloc s1 = Inr (Some stk, s2)"
    "kinv [cur] [j] [stk] s2" "q_frame s1 s2" "q_view s2 = deq Free_stacks (q_view s1)" by (auto simp: deq_def)
  note f2 = q_frame_fields [OF s2(3)]
  define s3 where "s3 = snd (make_proc lk j stk fcn lvl s2)"
  have mp: "make_proc lk j stk fcn lvl s2 = (next_pid s, s3)"
    by (simp add: s3_def prod_eq_iff make_proc_eq f2 s1)
  note m = make_proc_eq [where lk = lk and i = j and stk = stk and fcn = fcn and lvl = lvl and s = s2, folded s3_def]
  have ne: "j \<noteq> cur" by (rule kinv_fresh_ne [OF s1(2)])
  have cur3: "current s3 = Some cur" by (simp add: m f2 s1 d(1))
  define s4 where "s4 = set_pcb j (\<lambda>p. p\<lparr>ppid := pid (pcbs s cur)\<rparr>) (ctx_set c CTX_EAX (ucast (next_pid s)) s3)"
  have pc3: "pcbs s3 = (pcbs s)(j := new_pcb stk (next_pid s) lvl)" by (simp add: m f2 s1)
  have p4: "pcbs s4 = (pcbs s)(j := (new_pcb stk (next_pid s) lvl)\<lparr>ppid := pid (pcbs s cur)\<rparr>)"
    by (simp add: s4_def pc3)
  let ?t = "set_pcb j (\<lambda>_. (new_pcb stk (next_pid s) lvl)\<lparr>ppid := pid (pcbs s cur)\<rparr>) s2"
  have "kinv [cur] [j] [stk] s4 \<longleftrightarrow> kinv [cur] [j] [stk] ?t"
    by (rule kinv_cong) (simp_all add: s4_def m pc3 f2 s1)
  then have k4: "kinv [cur] [j] [stk] s4" using kinv_set_fresh [OF s2(2)] by simp
  have v4: "q_view s4 = deq Free_stacks (deq Free_pcbs (q_view s))"
    using s2(4) s1(8) make_proc_view [of lk j stk fcn lvl s2] by (simp add: s4_def s3_def)
  have "level (pcbs s4 j) = lvl" by (simp add: p4 new_pcb_def)
  then have sj: "schedule j s4 = Inr (STAT_BAD_LEVEL, s4)" using lvl by (intro schedule_bad_level) simp
  have lc: "level (pcbs s4 cur) = level (pcbs s cur)" using ne by (simp add: p4)
  from kinv_schedule [OF k4] lc obtain s6 where s6: "schedule cur s4 = Inr (STAT_SUCCESS, s6)"
    "kinv [] [j] [stk] s6" "k_frame s4 s6" "pcbs s6 = (pcbs s4)(cur := (pcbs s4 cur)\<lparr>status := PROC_READY\<rparr>)"
    "current s6 = current s4" "next_pid s6 = next_pid s4" "stacks s6 = stacks s4"
    "q_view s6 = enq (Ready (unat (level (pcbs s cur)))) cur (q_view s4)" by (auto simp: enq_def)
  have rs4: "ready_seq (q_view s4) = ready_seq (q_view s)" by (rule ready_from_cong) (simp add: v4 deq_def)
  have "j \<notin> set (ready_seq (q_view s4))" using owned_fresh(2) [OF kinvD(4) [OF k4]] ready_from_live by blast
  then have i4: "idle_ok i s4"
    using i r cur3 p4 ne rs4 by (intro idle_frame [OF i r, of _ j]) (auto simp: s4_def)
  then have i6: "idle_ready i s6"
    using schedule_idle [OF k4 s6(1)] cur3 by (auto simp: idle_ok_def s4_def)
  have fr: "k_frame s s6"
  proof -
    have "k_frame s1 s2" by (rule q_frame_k_frame [OF s2(3)])
    moreover have "k_frame s2 s4" using m(4) by (simp add: s4_def)
    ultimately show ?thesis using s1(3) s6(3) k_frame_trans by blast
  qed
  then have e6: "env_ok s6" using sio k_frame_sio same_env_ok by blast
  have "spawn lk c fcn lvl s = dispatch s6"
    using s1(1) s2(1) mp sj s6(1) cur3 ne
    by (simp add: spawn_def Let_def pc3 flip: s4_def)
  moreover have "stacks s6 = stacks (ctx_set c CTX_EAX (ucast (next_pid s)) (snd (make_proc lk j stk fcn lvl s)))"
    by (simp add: s6(7) s4_def s3_def make_proc_stacks f2 s1(7) cong: if_cong)
  moreover have "pcbs s6 = (pcbs s)
       (j := (new_pcb stk (next_pid s) lvl)\<lparr>ppid := pid (pcbs s cur)\<rparr>,
        cur := (pcbs s cur)\<lparr>status := PROC_READY\<rparr>)"
    using ne by (simp add: s6(4) p4)
  ultimately show thesis using that i6 e6 k_frame_fields(7) [OF fr] s6(2,8) v4 by simp
qed

lemma spawn_bad_level:
  assumes "running cur s" "idle_ok i s" "env_ok s"
    and "pcbs_in (q_view s) Free_pcbs = j # js" "stacks_in (q_view s) = stk # sts"
    and "MLQ_LEVELS \<le> unat lvl"
  obtains t s' where "spawn lk c fcn lvl s = Inr s'" "dispatch t = Inr s'" "kernel_ok i s'"
    "pcbs t = (pcbs s)
       (j := (new_pcb stk (next_pid s) lvl)\<lparr>ppid := pid (pcbs s cur)\<rparr>,
        cur := (pcbs s cur)\<lparr>status := PROC_READY\<rparr>)"
    "q_view t = enq (Ready (unat (level (pcbs s cur)))) cur
       (deq Free_stacks (deq Free_pcbs (q_view s)))"
    "kinv [] [j] [stk] t"
    "stacks t = stacks (ctx_set c CTX_EAX (ucast (next_pid s)) (snd (make_proc lk j stk fcn lvl s)))"
  using spawn_until_dispatch_bad_level [OF assms, of lk c fcn] dispatch_kernel_ok kinv_drop_fresh by metis

lemma spawn_rest:
  assumes ok: "kernel_ok i s"
  shows "\<exists>s'. spawn lk c fcn lvl s = Inr s' \<and> kernel_ok i s'"
proof -
  from ok obtain cur where r: "running cur s" by (auto simp: kernel_ok_def)
  have io: "idle_ok i s" "env_ok s" using ok by (auto simp: kernel_ok_def)
  show ?thesis
  proof (cases "pcbs_in (q_view s) Free_pcbs")
    case Nil
    then show ?thesis using spawn_no_pcb [OF r Nil] ok by simp
  next
    case j: (Cons j js)
    show ?thesis
    proof (cases "stacks_in (q_view s)")
      case Nil
      from spawn_no_stack [OF r io j this] show ?thesis by (metis kernel_ok_basic(1))
    next
      case st: (Cons stk sts)
      show ?thesis
      proof (cases "unat lvl < MLQ_LEVELS")
        case True
        from spawn_ok [OF r io j st this] show ?thesis by metis
      next
        case False
        then have "MLQ_LEVELS \<le> unat lvl" by simp
        from spawn_bad_level [OF r io j st this] show ?thesis by metis
      qed
    qed
  qed
qed


section \<open>Shared memory\<close>

lemma same_mem [simp]:
  "same_procs s (st8 a v t) = same_procs s t" "same_sio s (st8 a v t) = same_sio s t"
  "same_procs s (st16 a u t) = same_procs s t"
  "same_procs s (st32 a w t) = same_procs s t" "same_sio s (st32 a w t) = same_sio s t"
  by (simp_all add: same_procs_def same_sio_def st8_def st16_def st32_def)

lemma kernel_ok_mem [simp]:
  "kernel_ok i (st8 a v s) = kernel_ok i s" "kernel_ok i (st16 a u s) = kernel_ok i s"
  "kernel_ok i (st32 a w s) = kernel_ok i s"
  by (rule kernel_ok_cong; simp)+

lemma kernel_ok_shm_fields [simp]:
  "kernel_ok i (s\<lparr>current_shms := a\<rparr>) = kernel_ok i s" "kernel_ok i (s\<lparr>next_shm := n\<rparr>) = kernel_ok i s"
  "kernel_ok i (s\<lparr>free_ptr := a\<rparr>) = kernel_ok i s"
  by (rule kernel_ok_cong; simp add: same_procs_def same_sio_def)+

lemma strcpy_same: "strcpy fuel d a s = Inr (r, s') \<Longrightarrow> same_procs s s' \<and> same_sio s s'"
proof (induction fuel d a s rule: strcpy.induct)
  case (2 fuel d a s)
  then show ?case by (fastforce simp: Let_def same_procs_def same_sio_def st8_def split: if_splits)
qed simp

lemma shm_alloc_rest:
  assumes "kernel_ok i s"
  shows "\<exists>a s'. shm_alloc s = Inr (a, s') \<and> kernel_ok i s'"
proof -
  from assms obtain c where r: "running c s" by (auto simp: kernel_ok_def)
  from kinv_shm_alloc [OF runningD(2) [OF r]] obtain a s' where s': "shm_alloc s = Inr (a, s')"
    "kinv [c] [] [] s'" "pcbs s' = pcbs s" "current s' = current s"
    "\<And>q. q \<noteq> Free_shms \<Longrightarrow> q_view s' q = q_view s q" by blast
  have rs: "ready_seq (q_view s') = ready_seq (q_view s)" by (rule ready_from_cong) (simp add: s'(5))
  have "same_sio s s'"
    using s'(1) by (auto simp: shm_alloc_def set_shm_status_def q_remove_def Let_def qn_dealloc_def
        same_sio_def st8_def set_queue_def set_qnode_def bindE_eq_Inr split: option.splits if_splits prod.splits)
  with assms have "env_ok s'" by (auto simp: kernel_ok_def intro: same_env_ok)
  then show ?thesis using assms s' r runningD(1) [OF r]
    by (auto simp: kernel_ok_def idle_ok_def idle_ready_def running_def rs)
qed

lemma sys_shmget_rest:
  assumes ok: "kernel_ok i s"
  shows "\<exists>s'. sys_shmget lk c s = Inr s' \<and> kernel_ok i s'"
proof -
  from shm_alloc_rest [OF ok] obtain a t where t: "shm_alloc s = Inr (a, t)" "kernel_ok i t" by blast
  then show ?thesis
    by (simp add: sys_shmget_def Let_def shm_malloc_def shm_field_defs upt_rec eval_nat_numeral)
qed

lemma sys_shmat_rest:
  assumes ok: "kernel_ok i s" and g: "sys_arg c 0 s = ucast (shm_id (current_shms s) s)"
  shows "\<exists>s'. sys_shmat c s = Inr s' \<and> kernel_ok i s'"
  using g ok kernel_ok_current [OF ok] by (auto simp: sys_shmat_def Let_def shm_field_defs)

lemma sys_shmwrite_rest:
  assumes ok: "kernel_ok i s"
    and g: "\<exists>r t. strcpy STRCPY_FUEL (shm_address (sys_arg c 0 s) s) (sys_arg c 1 s) s = Inr (r, t)"
  shows "\<exists>s'. sys_shmwrite c s = Inr s' \<and> kernel_ok i s'"
  using g kernel_ok_current [OF ok] ok quiet_rest [OF ok] strcpy_same by (fastforce simp: sys_shmwrite_def Let_def)

lemma sys_shmread_rest:
  assumes ok: "kernel_ok i s"
    and g: "\<exists>r t. strcpy STRCPY_FUEL (sys_arg c 1 s) (shm_address (sys_arg c 0 s) s) s = Inr (r, t)"
  shows "\<exists>s'. sys_shmread c s = Inr s' \<and> kernel_ok i s'"
  using g kernel_ok_current [OF ok] ok quiet_rest [OF ok] strcpy_same by (fastforce simp: sys_shmread_def Let_def)

lemma sys_shmdt_rest:
  assumes ok: "kernel_ok i s" and g: "shm_id (sys_arg c 0 s) s = shm_id (current_shms s) s"
  shows "\<exists>s'. sys_shmdt c s = Inr s' \<and> kernel_ok i s'"
  using g ok kernel_ok_current [OF ok] by (auto simp: sys_shmdt_def Let_def set_shm_current_pids_def
      set_shm_num_members_def)

lemma sys_shmrm_rest:
  assumes ok: "kernel_ok i s" and g: "shm_id (sys_arg c 0 s) s = shm_id (current_shms s) s"
    and room: "n_other (q_view s) < OTHER_MAX"
  shows "\<exists>s'. sys_shmrm c s = Inr s' \<and> kernel_ok i s'"
proof -
  from ok obtain cur where r: "running cur s" by (auto simp: kernel_ok_def)
  from kinv_shm_dealloc [OF runningD(2) [OF r] room] obtain s' where s':
    "shm_dealloc (sys_arg c 0 s) s = Inr (STAT_SUCCESS, s')"
    "kinv [cur] [] [] s'" "pcbs s' = pcbs s" "current s' = current s"
    "\<And>q. q \<noteq> Free_shms \<Longrightarrow> q_view s' q = q_view s q" by blast
  have rs: "ready_seq (q_view s') = ready_seq (q_view s)" by (rule ready_from_cong) (simp add: s'(5))
  have "same_sio s s'"
  proof -
    let ?t = "st8 (sys_arg c 0 s + 22) 0 s"
    have h: "q_key ?t Free_shms p = Inr 0" for p
      using kinvD(2) [OF runningD(2) [OF r]] by (simp add: q_key_def hashes_ok_def)
    have "q_wf ?t" "n_free ?t \<noteq> 0"
      using kinvD(1) [OF runningD(2) [OF r]] kinv_room [OF runningD(2) [OF r]] by simp_all
    from q_insert_ok [OF this h [of "Some (Shm (sys_arg c 0 s))"]] have "q_frame ?t s'"
      using s'(1) by (auto simp: shm_dealloc_def set_shm_status_def)
    then have "same_sio ?t s'" by (intro k_frame_sio q_frame_k_frame)
    then show ?thesis by (simp add: same_sio_def st8_def)
  qed
  with ok have "env_ok s'" by (auto simp: kernel_ok_def intro: same_env_ok)
  then have "kernel_ok i s'" using ok s' runningD(1) [OF r]
    by (auto simp: kernel_ok_def idle_ok_def idle_ready_def running_def rs)
  then show ?thesis using s'(1) g by (simp add: sys_shmrm_def Let_def)
qed

section \<open>The service routine\<close>

text \<open>
  What a system call must keep to so that it cannot stop the kernel.  The idle process must
  not wait or end, the output buffer must have room, and the segments and strings named in
  the calls for shared memory must be what they should be.
\<close>

definition call_ok :: "nat \<Rightarrow> sys_fcn \<Rightarrow> context_ptr \<Rightarrow> kstate \<Rightarrow> bool" where
  "call_ok i f c s \<longleftrightarrow> (case f of
      Sys_sleep \<Rightarrow> (ucast (sys_arg c 0 s) :: u16) \<noteq> 0 \<longrightarrow> current s \<noteq> Some i
    | Sys_exit \<Rightarrow> current s \<noteq> Some i
    | Sys_read \<Rightarrow> in_data s = [] \<longrightarrow> current s \<noteq> Some i
    | Sys_write \<Rightarrow> outlast s + 2 \<le> BUF_SIZE
    | Sys_shmat \<Rightarrow> sys_arg c 0 s = ucast (shm_id (current_shms s) s)
    | Sys_shmwrite \<Rightarrow>
        (\<exists>r t. strcpy STRCPY_FUEL (shm_address (sys_arg c 0 s) s) (sys_arg c 1 s) s = Inr (r, t))
    | Sys_shmread \<Rightarrow>
        (\<exists>r t. strcpy STRCPY_FUEL (sys_arg c 1 s) (shm_address (sys_arg c 0 s) s) s = Inr (r, t))
    | Sys_shmdt \<Rightarrow> shm_id (sys_arg c 0 s) s = shm_id (current_shms s) s
    | Sys_shmrm \<Rightarrow> shm_id (sys_arg c 0 s) s = shm_id (current_shms s) s \<and> n_other (q_view s) < OTHER_MAX
    | _ \<Rightarrow> True)"

lemma call_sys_rest:
  assumes "kernel_ok i s" "call_ok i f c s"
  shows "\<exists>s'. call_sys lk f c s = Inr s' \<and> kernel_ok i s'"
proof (cases f)
  case Sys_spawn
  then show ?thesis using assms spawn_rest by (simp add: sys_spawn_def)
next
  case Sys_spawnl
  then show ?thesis using assms spawn_rest by (simp add: sys_spawnl_def)
next
  case Sys_sleep
  then show ?thesis using assms sys_sleep_rest by (simp add: call_ok_def)
next
  case Sys_exit
  then show ?thesis using assms sys_exit_rest by (simp add: call_ok_def)
next
  case Sys_kill
  then show ?thesis using assms sys_kill_rest by simp
next
  case Sys_read
  then show ?thesis using assms sys_read_rest by (simp add: call_ok_def)
next
  case Sys_write
  then show ?thesis using assms sys_write_rest by (simp add: call_ok_def)
next
  case Sys_time
  then show ?thesis using assms sys_time_rest by simp
next
  case Sys_getpid
  then show ?thesis using assms sys_getpid_rest by simp
next
  case Sys_getppid
  then show ?thesis using assms sys_getppid_rest by simp
next
  case Sys_getpidlist
  then show ?thesis using assms sys_getpidlist_rest by simp
next
  case Sys_shmget
  then show ?thesis using assms sys_shmget_rest by simp
next
  case Sys_shmat
  then show ?thesis using assms sys_shmat_rest by (simp add: call_ok_def)
next
  case Sys_shmwrite
  then show ?thesis using assms sys_shmwrite_rest by (simp add: call_ok_def)
next
  case Sys_shmread
  then show ?thesis using assms sys_shmread_rest by (simp add: call_ok_def)
next
  case Sys_shmdt
  then show ?thesis using assms sys_shmdt_rest by (simp add: call_ok_def)
next
  case Sys_shmrm
  then show ?thesis using assms sys_shmrm_rest by (simp add: call_ok_def)
qed

lemma table_ok_init: "table_ok (sys_init s)"
proof -
  have c: "\<exists>n \<in> {0,1,2,3,4,5,6,7,8,9,10,11,12,13,14,15,16 :: nat}. num = of_nat n" if "num < 17" for num :: u32
  proof
    have "unat num < 17" using that by (simp add: word_less_nat_alt)
    then show "unat num \<in> {0,1,2,3,4,5,6,7,8,9,10,11,12,13,14,15,16}"
      by (simp only: insert_iff empty_iff) presburger
  qed simp
  show ?thesis
    unfolding table_ok_def
  proof (intro allI impI)
    fix num :: u32 assume "num < 17"
    from c [OF this] show "syscalls (sys_init s) num = Some (sys_of num)"
      by (auto simp: sys_of_def sys_init_def Let_def c_printf_def word_le_nat_alt)
  qed
qed

text \<open>The handler that a running process asks for, and where its context is.\<close>

definition requested :: "kstate \<Rightarrow> nat \<Rightarrow> context_ptr \<Rightarrow> sys_fcn \<Rightarrow> bool" where
  "requested s cur c f \<longleftrightarrow> current s = Some cur \<and> context_of (pcbs s cur) = Some c \<and>
     f = sys_of (ctx_get c CTX_EAX s)"

lemma isr_syscall_call:
  assumes t: "table_ok s" and q: "requested s cur c f"
  shows "\<exists>s0. same_procs s s0 \<and> same_sio s s0 \<and> (f = Sys_exit \<or> s0 = s) \<and>
     system_time s0 = system_time s \<and> stacks s0 = stacks s \<and> isr_table s0 = isr_table s \<and>
     isr_syscall lk s = bindE (call_sys lk f c s0) (\<lambda>s. Inr (outb PIC_MASTER_CMD_PORT PIC_EOI s))"
proof (cases "N_SYSCALLS \<le> ctx_get c CTX_EAX s")
  case True
  let ?s0 = "c_printf ''syscall: code %d, proc %d, killed\<newline>'' [ctx_get c CTX_EAX s, ucast (pid (pcbs s cur))] s"
  have "syscalls ?s0 SYS_exit = Some Sys_exit"
    using t by (simp add: table_ok_def c_printf_def sys_of_def sys_init_def Let_def)
  then have "isr_syscall lk s = bindE (call_sys lk f c ?s0) (\<lambda>s. Inr (outb PIC_MASTER_CMD_PORT PIC_EOI s))"
    using True q by (simp add: isr_syscall_def requested_def Let_def sys_of_def)
  moreover have "f = Sys_exit" using True q by (simp add: requested_def sys_of_def)
  ultimately show ?thesis
    by (intro exI [of _ ?s0]) (simp add: c_printf_def same_procs_def same_sio_def)
next
  case False
  then have "syscalls s (ctx_get c CTX_EAX s) = Some f"
    using t q by (simp add: table_ok_def requested_def)
  then have "isr_syscall lk s = bindE (call_sys lk f c s) (\<lambda>s. Inr (outb PIC_MASTER_CMD_PORT PIC_EOI s))"
    using False q by (simp add: isr_syscall_def requested_def Let_def)
  then show ?thesis using t by (intro exI [of _ s]) simp
qed

lemma isr_syscall_rest:
  assumes ok: "kernel_ok i s" and q: "requested s cur c f" and g: "call_ok i f c s"
  shows "\<exists>s'. isr_syscall lk s = Inr s' \<and> kernel_ok i s'"
proof -
  have "table_ok s" using ok by (simp add: kernel_ok_def env_ok_def)
  from isr_syscall_call [OF this q] obtain s0 where s0: "same_procs s s0" "same_sio s s0" "f = Sys_exit \<or> s0 = s"
    "isr_syscall lk s = bindE (call_sys lk f c s0) (\<lambda>s. Inr (outb PIC_MASTER_CMD_PORT PIC_EOI s))" by blast
  have "kernel_ok i s0" using ok s0(1,2) by (rule quiet_rest)
  moreover have "call_ok i f c s0"
    using g s0(3) same_procs_cong(7) [OF s0(1)] by (auto simp: call_ok_def)
  ultimately obtain s1 where "call_sys lk f c s0 = Inr s1" "kernel_ok i s1"
    using call_sys_rest by blast
  then show ?thesis using s0(4) by simp
qed

end
