(* ===== verification/Clock.thy ===== *)
theory Clock
  imports Ramdisk Syscall_Laws
begin

text \<open>
  clock.c: the clock tick.  It counts the time, wakes the sleepers that are due, serves one
  request to the disk in memory every few ticks, and takes the processor from the running
  process at the end of its quantum.
\<close>

section \<open>The code\<close>

abbreviation (input) CLOCK_FREQUENCY :: u32 where "CLOCK_FREQUENCY \<equiv> 100"
abbreviation (input) TIMER_FREQUENCY :: u32 where "TIMER_FREQUENCY \<equiv> 1193182"

definition pinwheel_chars :: "u32 list" where
  "pinwheel_chars = map (\<lambda>c. of_nat (of_char c)) (''|/-'' @ [CHR 0x5C])"

definition spin :: "kstate \<Rightarrow> kstate" where
  "spin s =
     (let s = s\<lparr>pinwheel := pinwheel s + 1\<rparr> in
      if pinwheel s = CLOCK_FREQUENCY div 10 then
        let s = s\<lparr>pinwheel := 0\<rparr>;
            s = s\<lparr>pindex := pindex s + 1\<rparr>
        in c_putchar_at 79 0 (pinwheel_chars ! unat (pindex s AND 3)) s
      else s)"

text \<open>
  The loop over the sleepers takes an element out of the queue in every round, and no queue
  is longer than the pool of nodes.
\<close>

fun wake_loop :: "nat \<Rightarrow> kstate \<Rightarrow> kstate outcome" where
  "wake_loop 0 s = Inl Hang"
| "wake_loop (Suc fuel) s =
     (case q_remove_if_le Sleeping (system_time s) s of (p, s) \<Rightarrow>
        bindE (as_pcb p) (\<lambda>pcb.
          case pcb of
            None \<Rightarrow> Inr s
          | Some i \<Rightarrow> bindE (schedule i s) (\<lambda>(stat, s). wake_loop fuel s)))"

text \<open>
  The loop over the processes that wait for a request.  A process that waits for another
  request goes back to the end of the queue, so the loop ends only at one that waits for
  \<open>dr\<close>, or at an empty queue.  Two visits to the same process with no end are a loop for ever.
\<close>

fun blocked_scan :: "nat \<Rightarrow> nat \<Rightarrow> kstate \<Rightarrow> kstate outcome" where
  "blocked_scan 0 dr s = Inl Hang"
| "blocked_scan (Suc fuel) dr s =
     (case q_remove Blocked_requests s of (p, s) \<Rightarrow>
        bindE (as_pcb p) (\<lambda>proc.
          case proc of
            None \<Rightarrow> Inr s
          | Some i \<Rightarrow>
              if pending_request (pcbs s i) = Some dr then
                let s = set_pcb i (\<lambda>p. p\<lparr>pending_request := None\<rparr>) s;
                    s = c_puts ''CLOCK: schueduling process after successful IO operation\<newline>'' s
                in bindE (schedule i s) (\<lambda>(stat, s).
                     Inr (set_request dr (\<lambda>r. r\<lparr>dr_status := DISK_STATUS_IO_SUCCESS\<rparr>) s))
              else
                let s = c_puts ''clock: had to reinsert a processes blocked on a request\<newline>'' s
                in bindE (q_insert Blocked_requests (Some (Pcb i)) s) (\<lambda>(stat, s).
                     blocked_scan fuel dr s)))"

definition serve_request :: "nat \<Rightarrow> kstate \<Rightarrow> kstate outcome" where
  "serve_request dr s =
     (let r = pending_requests s dr in
      if dr_cmd r = DISK_CMD_READ then
        bindE (rd_read (dr_lba r) (dr_nblocks r) (dr_buffer r) s) (\<lambda>(n, s).
          bindE (blocked_scan (N_QNODES + 1) dr s) (\<lambda>s.
            if dr_status (pending_requests s dr) \<noteq> DISK_STATUS_IO_SUCCESS then
              let s = c_puts ''ERROR: clock: couldn't find a pending disk request's process\<newline>'' s
              in Inr (set_request dr (\<lambda>r. r\<lparr>dr_status := DISK_STATUS_IO_FINISHED_ERROR\<rparr>) s)
            else Inr s))
      else if dr_cmd r = DISK_CMD_WRITE then
        bindE (rd_write (dr_lba r) (dr_nblocks r) (dr_buffer r) s) (\<lambda>(n, s).
          Inr (set_request dr (\<lambda>r. r\<lparr>dr_status := DISK_STATUS_IO_SUCCESS\<rparr>) s))
      else
        let s = set_request dr (\<lambda>r. r\<lparr>dr_status := DISK_ERR_INVALID_CMD\<rparr>) s
        in Inr (c_puts ''ERROR: clock: invalid disk request\<newline>'' s))"

definition serve_ramdisk :: "kstate \<Rightarrow> kstate outcome" where
  "serve_ramdisk s =
     (if system_time s mod ramdisk_service s = 0 then
        case q_remove Ramdisk_io_pending s of (p, s) \<Rightarrow>
          bindE (as_request p) (\<lambda>dr.
            case dr of None \<Rightarrow> Inr s | Some dr \<Rightarrow> serve_request dr s)
      else Inr s)"

definition use_quantum :: "kstate \<Rightarrow> kstate outcome" where
  "use_quantum s =
     bindE (deref (current s)) (\<lambda>cur.
       if quantum (pcbs s cur) = 0 then bindE (schedule cur s) (\<lambda>(stat, s). dispatch s)
       else Inr (set_pcb cur (\<lambda>p. p\<lparr>quantum := quantum p - 1\<rparr>) s))"

definition isr_clock :: "kstate \<Rightarrow> kstate outcome" where
  "isr_clock s =
     (let s = s\<lparr>system_time := system_time s + 1\<rparr>;
          s = spin s
      in bindE (wake_loop (N_QNODES + 1) s) (\<lambda>s.
           bindE (serve_ramdisk s) (\<lambda>s.
             bindE (use_quantum s) (\<lambda>s.
               Inr (outb PIC_MASTER_CMD_PORT PIC_EOI s)))))"

definition clock_init :: "linkage \<Rightarrow> kstate \<Rightarrow> kstate" where
  "clock_init lk s =
     (let s = s\<lparr>pindex := 0\<rparr>;
          s = s\<lparr>pinwheel := 0\<rparr>;
          s = s\<lparr>system_time := 0\<rparr>;
          s = outb (timer_0 lk) ((TIMER_FREQUENCY div CLOCK_FREQUENCY) AND 0xff) s;
          s = outb (timer_1 lk) (drop_bit 8 (TIMER_FREQUENCY div CLOCK_FREQUENCY)) s
      in c_puts '' clock'' s)"

section \<open>Waking the sleepers\<close>

text \<open>
  \<open>woken W s s'\<close>: the processes \<open>W\<close> have been made ready, each behind the others of its
  level and in this order, and were taken off the front of the sleep queue.
\<close>

definition at_level :: "(nat \<Rightarrow> pcb_t) \<Rightarrow> nat \<Rightarrow> nat list \<Rightarrow> nat list" where
  "at_level ps l W = filter (\<lambda>i. unat (level (ps i)) = l) W"

definition woken :: "nat list \<Rightarrow> kstate \<Rightarrow> kstate \<Rightarrow> bool" where
  "woken W s s' \<longleftrightarrow>
     pcbs s' = (\<lambda>i. if i \<in> set W then (pcbs s i)\<lparr>status := PROC_READY\<rparr> else pcbs s i) \<and>
     q_view s' Sleeping = drop (length W) (q_view s Sleeping) \<and>
     (\<forall>l. q_view s' (Ready l) = q_view s (Ready l) @ map (\<lambda>i. (0, Some (Pcb i))) (at_level (pcbs s) l W)) \<and>
     (\<forall>q. q \<noteq> Sleeping \<and> (\<forall>l. q \<noteq> Ready l) \<longrightarrow> q_view s' q = q_view s q) \<and>
     current s' = current s \<and> next_pid s' = next_pid s \<and> stacks s' = stacks s \<and> k_frame s s'"

lemma woken_nil: "q_frame s t \<Longrightarrow> q_view t = q_view s \<Longrightarrow> woken [] s t"
  by (simp add: woken_def at_level_def q_frame_fields q_frame_k_frame)

lemma woken_refl: "woken [] s s"
  by (rule woken_nil) simp_all

text \<open>The processes whose time has come.\<close>

definition due :: "kstate \<Rightarrow> nat list" where
  "due s = map (\<lambda>e. pcb_of (snd e)) (takeWhile (\<lambda>e. fst e \<le> system_time s) (q_view s Sleeping))"

lemma sleeping_live: "Sleeping \<in> set live_queues" by (simp add: live_queues_def)

lemma wake_loop_ok:
  assumes "kinv H F K s" "length (due s) < fuel"
  shows "\<exists>s'. wake_loop fuel s = Inr s' \<and> kinv H F K s' \<and> woken (due s) s s' \<and>
     (idle_ready i s \<longrightarrow> idle_ready i s')"
  using assms
proof (induction fuel arbitrary: s)
  case 0
  then show ?case by simp
next
  case (Suc fuel)
  note wf = kinvD(1) [OF Suc.prems(1)]
  show ?case
  proof (cases "due s")
    case Nil
    then have "q_remove_if_le Sleeping (system_time s) s = (None, s)"
      by (auto simp: q_remove_if_le_eq [OF wf] due_def split: list.splits if_splits)
    then show ?thesis using Suc.prems(1) Nil woken_refl by auto
  next
    case (Cons p ps)
    then obtain k e es where v: "q_view s Sleeping = (k, e) # es" and k: "k \<le> system_time s"
      and p: "pcb_of e = p" by (cases "q_view s Sleeping") (auto simp: due_def split: if_splits)
    then have ps: "ps = map (\<lambda>e. pcb_of (snd e)) (takeWhile (\<lambda>e. fst e \<le> system_time s) es)"
      using Cons by (simp add: due_def)
    have "pcbs_in (q_view s) Sleeping = p # map (\<lambda>e. pcb_of (snd e)) es" using v p by (simp add: pcbs_in_def)
    from kinv_take [OF Suc.prems(1) sleeping_live this] v obtain t where
      t: "q_remove Sleeping s = (Some (Pcb p), t)" "kinv (p # H) F K t" "q_frame s t"
        "q_view t = (q_view s)(Sleeping := es)" by auto
    have kt: "k_frame s t" by (rule q_frame_k_frame [OF t(3)])
    have ps_t: "pcbs t = pcbs s" by (rule q_frame_fields(5) [OF t(3)])
    let ?l = "unat (level (pcbs s p))"
    from kinv_schedule [OF t(2)] ps_t t(4) obtain u where
      u: "schedule p t = Inr (STAT_SUCCESS, u)" "kinv H F K u" "k_frame t u"
        "pcbs u = (pcbs s)(p := (pcbs s p)\<lparr>status := PROC_READY\<rparr>)" "current u = current t"
        "next_pid u = next_pid t" "stacks u = stacks t"
        "q_view u = (q_view s)(Sleeping := es, Ready ?l := q_view s (Ready ?l) @ [(0, Some (Pcb p))])" by auto
    have due: "due u = ps"
      using ps k_frame_time [OF kt] k_frame_time [OF u(3)] by (simp add: due_def u(8))
    have "length (due u) < fuel" using Suc.prems(2) Cons due by simp
    from Suc.IH [OF u(2) this] obtain s' where
      s': "wake_loop fuel u = Inr s'" "kinv H F K s'" "woken ps u s'" "idle_ready i u \<longrightarrow> idle_ready i s'"
      unfolding due by blast
    have "wake_loop (Suc fuel) s = Inr s'"
      using v k t(1) u(1) s'(1) by (simp add: q_remove_if_le_eq [OF wf])
    moreover have "woken (due s) s s'"
    proof -
      have lv: "at_level (pcbs u) l ps = at_level (pcbs s) l ps" for l
        by (auto simp: at_level_def u(4) intro!: filter_cong)
      have ws: "pcbs s' = (\<lambda>i. if i \<in> set ps then (pcbs u i)\<lparr>status := PROC_READY\<rparr> else pcbs u i)"
        "q_view s' Sleeping = drop (length ps) es"
        "\<And>l. q_view s' (Ready l) = q_view u (Ready l) @ map (\<lambda>i. (0, Some (Pcb i))) (at_level (pcbs s) l ps)"
        "\<And>q. q \<noteq> Sleeping \<Longrightarrow> (\<forall>l. q \<noteq> Ready l) \<Longrightarrow> q_view s' q = q_view s q"
        "k_frame s s'" "current s' = current s" "next_pid s' = next_pid s" "stacks s' = stacks s"
        using s'(3) k_frame_trans [OF k_frame_trans [OF kt u(3)]]
        by (simp_all add: woken_def u(5-8) lv q_frame_fields [OF t(3)])
      show ?thesis
        unfolding woken_def Cons using ws(2,4-8)
        by (auto simp: ws(1,3) u(4,8) v at_level_def)
    qed
    moreover have "idle_ready i s \<longrightarrow> idle_ready i u"
    proof
      assume "idle_ready i s"
      moreover have "ready_seq (q_view t) = ready_seq (q_view s)" by (rule ready_from_cong) (simp add: t(4))
      ultimately have "idle_ready i t" by (simp add: idle_ready_def ps_t)
      then show "idle_ready i u" using schedule_idle(1) [OF t(2) u(1)] by blast
    qed
    ultimately show ?thesis using s'(2,4) by blast
  qed
qed

section \<open>The processes that wait for the disk\<close>

lemma blocked_live: "Blocked_requests \<in> set live_queues" by (simp add: live_queues_def)

lemma as_pcb_take: "as_pcb (Some (Pcb i)) = Inr (Some i)" by simp

text \<open>A process that waits for another request goes to the back.\<close>

lemma blocked_rotate:
  assumes k: "kinv H F K s" and v: "pcbs_in (q_view s) Blocked_requests = a # as"
    and p: "pending_request (pcbs s a) \<noteq> Some dr"
  obtains t where "blocked_scan (Suc fuel) dr s = blocked_scan fuel dr t" "kinv H F K t"
    "pcbs_in (q_view t) Blocked_requests = as @ [a]" "pcbs t = pcbs s" "current t = current s"
    "\<And>q. q \<noteq> Blocked_requests \<Longrightarrow> q_view t q = q_view s q" "pending_requests t = pending_requests s"
    "same_sio s t" "system_time t = system_time s"
proof -
  let ?B = "Blocked_requests" and ?m = "c_puts ''clock: had to reinsert a processes blocked on a request\<newline>''"
  from kinv_take [OF k blocked_live v] obtain u where
    u: "q_remove ?B s = (Some (Pcb a), u)" "kinv (a # H) F K u" "q_frame s u"
      "q_view u = (q_view s)(?B := tl (q_view s ?B))" by blast
  have same: "same_procs u (?m u)" by simp
  have k': "kinv (a # H) F K (?m u)" using u(2) same_procs_cong(4) [OF same] by simp
  have qB: "?B \<in> set live_queues" "\<And>l. ?B = Ready l \<Longrightarrow> status (pcbs (?m u) a) \<in> {PROC_READY, PROC_ZOMBIE}"
    by (simp_all add: live_queues_def)
  from kinv_put [OF k' qB] obtain t where
    t: "q_insert ?B (Some (Pcb a)) (?m u) = Inr (STAT_SUCCESS, t)" "kinv H F K t" "q_frame (?m u) t"
      "q_view t = (q_view u)(?B := q_view u ?B @ [(0, Some (Pcb a))])"
    by (auto simp: q_place_def same_procs_cong(5) [OF same])
  have f: "pcbs t = pcbs s" "current t = current s" "pending_requests t = pending_requests s"
    using q_frame_fields [OF t(3)] q_frame_fields [OF u(3)] by (simp_all add: c_puts_def)
  have "pcbs u a = pcbs s a" by (simp add: q_frame_fields [OF u(3)])
  then have "blocked_scan (Suc fuel) dr s = blocked_scan fuel dr t"
    using p u(1) t(1) by simp
  moreover have "pcbs_in (q_view t) ?B = as @ [a]"
  proof -
    have "map (\<lambda>e. pcb_of (snd e)) (tl (q_view s ?B)) = as" using v by (simp add: pcbs_in_def map_tl)
    then show ?thesis by (simp add: t(4) u(4) pcbs_in_def)
  qed
  moreover have "same_sio s t"
    using k_frame_sio [OF q_frame_k_frame [OF u(3)]] k_frame_sio [OF q_frame_k_frame [OF t(3)]]
    by (auto simp: same_sio_def c_puts_def)
  moreover have "system_time t = system_time s"
    using q_frame_k_frame [OF u(3)] q_frame_k_frame [OF t(3)] by (simp add: k_frame_time c_puts_def)
  ultimately show thesis using that t(2,4) u(4) f by simp
qed

text \<open>If some process waits but none for this request, the loop does not end.\<close>

lemma blocked_scan_hang:
  assumes "kinv H F K s" "pcbs_in (q_view s) Blocked_requests \<noteq> []"
    "\<forall>a \<in> set (pcbs_in (q_view s) Blocked_requests). pending_request (pcbs s a) \<noteq> Some dr"
  shows "blocked_scan fuel dr s = Inl Hang"
  using assms
proof (induction fuel arbitrary: s)
  case (Suc fuel)
  then obtain a as where v: "pcbs_in (q_view s) Blocked_requests = a # as"
    by (cases "pcbs_in (q_view s) Blocked_requests") auto
  have "pending_request (pcbs s a) \<noteq> Some dr" using Suc.prems(3) v by simp
  from blocked_rotate [OF Suc.prems(1) v this] obtain t where
    t: "blocked_scan (Suc fuel) dr s = blocked_scan fuel dr t" "kinv H F K t"
    "pcbs_in (q_view t) Blocked_requests = as @ [a]" "pcbs t = pcbs s" by metis
  have "blocked_scan fuel dr t = Inl Hang" using Suc.IH [OF t(2)] Suc.prems(3) v by (simp add: t(3,4))
  then show ?case using t(1) by simp
qed simp

text \<open>
  If one waits, the first one is made ready, and the others stay in a rotated queue.
\<close>

definition request_done :: "nat \<Rightarrow> nat \<Rightarrow> kstate \<Rightarrow> kstate \<Rightarrow> bool" where
  "request_done dr p s s' \<longleftrightarrow>
     pcbs s' = (pcbs s)(p := (pcbs s p)\<lparr>pending_request := None, status := PROC_READY\<rparr>) \<and>
     current s' = current s \<and> system_time s' = system_time s \<and> same_sio s s' \<and>
     q_view s' (Ready (unat (level (pcbs s p)))) = q_view s (Ready (unat (level (pcbs s p)))) @ [(0, Some (Pcb p))] \<and>
     (\<forall>q. q \<noteq> Blocked_requests \<and> q \<noteq> Ready (unat (level (pcbs s p))) \<longrightarrow> q_view s' q = q_view s q) \<and>
     pending_requests s' = (pending_requests s)(dr := (pending_requests s dr)\<lparr>dr_status := DISK_STATUS_IO_SUCCESS\<rparr>)"

lemma blocked_scan_ok:
  assumes "kinv H F K s" "pcbs_in (q_view s) Blocked_requests = as @ p # bs"
    "\<forall>a \<in> set as. pending_request (pcbs s a) \<noteq> Some dr" "pending_request (pcbs s p) = Some dr"
    "length as < fuel"
  shows "\<exists>s'. blocked_scan fuel dr s = Inr s' \<and> kinv H F K s' \<and>
     pcbs_in (q_view s') Blocked_requests = bs @ as \<and> request_done dr p s s'"
  using assms
proof (induction fuel arbitrary: s as bs)
  case (Suc fuel)
  note k = Suc.prems(1)
  let ?B = "Blocked_requests"
  show ?case
  proof (cases as)
    case (Cons a as')
    have v: "pcbs_in (q_view s) ?B = a # as' @ p # bs" using Suc.prems(2) Cons by simp
    have "pending_request (pcbs s a) \<noteq> Some dr" using Suc.prems(3) Cons by simp
    from blocked_rotate [OF k v this] obtain t where
      t: "blocked_scan (Suc fuel) dr s = blocked_scan fuel dr t" "kinv H F K t"
      "pcbs_in (q_view t) ?B = as' @ p # bs @ [a]" "pcbs t = pcbs s" "current t = current s"
      "\<And>q. q \<noteq> ?B \<Longrightarrow> q_view t q = q_view s q" "pending_requests t = pending_requests s" "same_sio s t"
      "system_time t = system_time s"
      by (metis append.assoc append_Cons)
    have pre: "\<forall>a \<in> set as'. pending_request (pcbs t a) \<noteq> Some dr" "pending_request (pcbs t p) = Some dr"
      "length as' < fuel" using Suc.prems(3-5) Cons by (simp_all add: t(4))
    from Suc.IH [OF t(2,3) pre] obtain s' where
      s': "blocked_scan fuel dr t = Inr s'" "kinv H F K s'" "pcbs_in (q_view s') ?B = (bs @ [a]) @ as'"
        "request_done dr p t s'" by blast
    have "request_done dr p s s'"
      using s'(4) t(4-7,9) same_trans(2) [OF t(8)] by (simp add: request_done_def)
    with s' t(1) Cons show ?thesis by simp
  next
    case Nil
    have v: "pcbs_in (q_view s) ?B = p # bs" using Suc.prems(2) Nil by simp
    from kinv_take [OF k blocked_live v] obtain u where
      u: "q_remove ?B s = (Some (Pcb p), u)" "kinv (p # H) F K u" "q_frame s u"
        "q_view u = (q_view s)(?B := tl (q_view s ?B))" by blast
    note fu = q_frame_fields [OF u(3)]
    let ?w = "set_pcb p (\<lambda>p. p\<lparr>pending_request := None\<rparr>) u"
    let ?x = "c_puts ''CLOCK: schueduling process after successful IO operation\<newline>'' ?w"
    have "live_pcb (pcbs u p)" by (rule owned_held(6) [OF kinvD(4) [OF u(2)]])
    then have kw: "kinv (p # H) F K ?w" by (intro kinv_set_held u(2)) (simp_all add: live_pcb_def)
    have same: "same_procs ?w ?x" "same_sio ?w ?x" by simp_all
    have kx: "kinv (p # H) F K ?x" using kw same_procs_cong(4) [OF same(1)] by simp
    from kinv_schedule [OF kx] obtain y where
      y: "schedule p ?x = Inr (STAT_SUCCESS, y)" "kinv H F K y" "k_frame ?x y"
        "pcbs y = (pcbs s)(p := (pcbs s p)\<lparr>pending_request := None, status := PROC_READY\<rparr>)" "current y = current s"
        "q_view y = (q_view u)(Ready (unat (level (pcbs s p))) :=
          q_view u (Ready (unat (level (pcbs s p)))) @ [(0, Some (Pcb p))])"
      using same_procs_cong(5-7) [OF same(1)] fu(5) by (auto simp: fu)
    let ?z = "set_request dr (\<lambda>r. r\<lparr>dr_status := DISK_STATUS_IO_SUCCESS\<rparr>) y"
    have z: "same_procs y ?z" "same_sio y ?z" by (simp_all add: same_procs_def same_sio_def set_request_def)
    have run: "blocked_scan (Suc fuel) dr s = Inr ?z"
      using u(1) y(1) Suc.prems(4) by (simp add: fu)
    have "same_sio s u" by (rule k_frame_sio [OF q_frame_k_frame [OF u(3)]])
    moreover have "same_sio u ?w" by (simp add: same_sio_def set_pcb_def)
    ultimately have sio: "same_sio s ?z"
      using same(2) k_frame_sio [OF y(3)] z(2) same_trans(2) by blast
    have "pcbs_in (q_view ?z) ?B = bs"
    proof -
      have "map (\<lambda>e. pcb_of (snd e)) (tl (q_view s ?B)) = bs" using v by (simp add: pcbs_in_def map_tl)
      then show ?thesis using same_procs_cong(5) [OF z(1)] by (simp add: y(6) u(4) pcbs_in_def)
    qed
    moreover have "kinv H F K ?z" using y(2) same_procs_cong(4) [OF z(1)] by simp
    moreover have "pending_requests ?z = (pending_requests s)(dr := (pending_requests s dr)\<lparr>dr_status := DISK_STATUS_IO_SUCCESS\<rparr>)"
      using k_frame_fields(17) [OF y(3)] fu by (simp add: set_request_def c_puts_def set_pcb_def)
    moreover have "system_time ?z = system_time s"
      using k_frame_time [OF y(3)] k_frame_time [OF q_frame_k_frame [OF u(3)]]
      by (simp add: set_request_def c_puts_def set_pcb_def)
    ultimately show ?thesis
      using run sio y(4-6) u(4) same_procs_cong(5-7) [OF z(1)] Nil by (simp add: request_done_def)
  qed
qed simp

section \<open>Serving a request\<close>

text \<open>What keeps the service of a request inside the disk and lets its loop end.\<close>

definition request_ok :: "nat \<Rightarrow> kstate \<Rightarrow> bool" where
  "request_ok dr s \<longleftrightarrow>
     (let r = pending_requests s dr in
      (dr_cmd r = DISK_CMD_READ \<or> dr_cmd r = DISK_CMD_WRITE \<longrightarrow> on_disk (dr_lba r) (dr_nblocks r)) \<and>
      (dr_cmd r = DISK_CMD_READ \<longrightarrow> pcbs_in (q_view s) Blocked_requests = [] \<or>
        (\<exists>p \<in> set (pcbs_in (q_view s) Blocked_requests). pending_request (pcbs s p) = Some dr)))"

definition service_ok :: "u32 \<Rightarrow> kstate \<Rightarrow> bool" where
  "service_ok now s \<longleftrightarrow> now mod ramdisk_service s = 0 \<longrightarrow>
     (case q_view s Ramdisk_io_pending of
        (_, Some (Disk_req dr)) # _ \<Rightarrow> request_ok dr s
      | _ \<Rightarrow> True)"

lemma idle_done:
  assumes k: "kinv H F K s" and d: "request_done dr p s s'" and i: "idle_ready i s"
    and l: "unat (level (pcbs s p)) < MLQ_LEVELS"
  shows "idle_ready i s'"
proof -
  let ?l = "unat (level (pcbs s p))"
  have "q_view s' (Ready j) = ((q_view s)(Ready ?l := q_view s (Ready ?l) @ [(0, Some (Pcb p))])) (Ready j)" for j
    using d by (auto simp: request_done_def)
  then have "ready_seq (q_view s') = ready_seq ((q_view s)(Ready ?l := q_view s (Ready ?l) @ [(0, Some (Pcb p))]))"
    by (rule ready_from_cong)
  then have "set (ready_seq (q_view s')) = insert p (set (ready_seq (q_view s)))"
    using ready_seq_add [OF l] by simp
  then show ?thesis using i d by (auto simp: idle_ready_def request_done_def)
qed

lemma same_mem_update: "s' = s\<lparr>mem := mem s'\<rparr> \<Longrightarrow> same_procs s s' \<and> same_sio s s'"
  by (cases s; cases s') (simp add: same_procs_def same_sio_def)

lemma same_ramdisk_update: "s' = s\<lparr>ramdisk := ramdisk s'\<rparr> \<Longrightarrow> same_procs s s' \<and> same_sio s s'"
  by (cases s; cases s') (simp add: same_procs_def same_sio_def)

lemma same_set_request [simp]:
  "same_procs s (set_request dr f t) = same_procs s t" "same_sio s (set_request dr f t) = same_sio s t"
  by (simp_all add: same_procs_def same_sio_def set_request_def)

lemma blocked_scan_empty:
  assumes "kinv H F K s" "pcbs_in (q_view s) Blocked_requests = []"
  shows "blocked_scan (Suc fuel) dr s = Inr s"
  using q_remove_empty [OF kinvD(1) [OF assms(1)], of Blocked_requests] assms(2) by (simp add: pcbs_in_def)

text \<open>
  A service keeps the invariant and the running process, and the idle process stays ready
  if it was.
\<close>

definition served :: "nat list \<Rightarrow> nat list \<Rightarrow> nat list \<Rightarrow> nat \<Rightarrow> kstate \<Rightarrow> kstate \<Rightarrow> bool" where
  "served H F K i s s' \<longleftrightarrow> kinv H F K s' \<and> current s' = current s \<and> same_sio s s' \<and>
     (idle_ready i s \<longrightarrow> idle_ready i s') \<and>
     (\<forall>j \<in> set H. pcbs s' j = pcbs s j)"

lemma served_same: "kinv H F K s \<Longrightarrow> same_procs s s' \<Longrightarrow> same_sio s s' \<Longrightarrow> served H F K i s s'"
  by (simp add: served_def same_procs_cong)

lemma blocked_scan_served:
  assumes k: "kinv H F K s"
    and w: "pcbs_in (q_view s) Blocked_requests = [] \<or>
      (\<exists>p \<in> set (pcbs_in (q_view s) Blocked_requests). pending_request (pcbs s p) = Some dr)"
  shows "\<exists>s'. blocked_scan (N_QNODES + 1) dr s = Inr s' \<and> served H F K i s s'"
proof (cases "pcbs_in (q_view s) Blocked_requests = []")
  case True
  then show ?thesis using blocked_scan_empty [OF k, of N_QNODES] k served_same [OF k] by auto
next
  case False
  let ?B = "pcbs_in (q_view s) Blocked_requests"
  from False w have "\<exists>p \<in> set ?B. pending_request (pcbs s p) = Some dr" by blast
  from split_list_first_prop [OF this] obtain as p bs where B: "?B = as @ p # bs" "pending_request (pcbs s p) = Some dr"
    "\<forall>a \<in> set as. pending_request (pcbs s a) \<noteq> Some dr"
    by blast
  have "length ?B \<le> n_used (q_view s)" by (simp add: n_used_def live_queues_def pcbs_in_def)
  then have len: "length as < N_QNODES + 1" using kinvD(6) [OF k] B(1) by simp
  from blocked_scan_ok [OF k B(1,3,2) len] obtain s' where
    s': "blocked_scan (N_QNODES + 1) dr s = Inr s'" "kinv H F K s'" "request_done dr p s s'" by blast
  have "p \<in> set ?B" using B(1) by simp
  then have live: "p \<in># live (q_view s)" using in_live [OF blocked_live] by blast
  have "live_pcb (pcbs s p)" using kinvD(4) [OF k] live by (auto simp: owned_def)
  then have "unat (level (pcbs s p)) < MLQ_LEVELS" by (simp add: live_pcb_def)
  note idle = idle_done [OF k s'(3) _ this]
  have "p \<notin> set H"
  proof
    assume "p \<in> set H"
    then obtain H1 H2 where "H = H1 @ p # H2" by (auto dest: split_list)
    then have "mset H = mset (p # H1 @ H2)" by simp
    from kinv_perm [OF this refl refl] k have "kinv (p # H1 @ H2) F K s" by blast
    from owned_held(2) [OF kinvD(4) [OF this]] live show False by blast
  qed
  then have "served H F K i s s'" using s'(2,3) idle by (auto simp: served_def request_done_def)
  with s'(1) show ?thesis by blast
qed

lemma serve_request_served:
  assumes k: "kinv H F K s" and ok: "request_ok dr s"
  shows "\<exists>s'. serve_request dr s = Inr s' \<and> served H F K i s s'"
proof -
  let ?r = "pending_requests s dr"
  consider "dr_cmd ?r = DISK_CMD_READ" | "dr_cmd ?r = DISK_CMD_WRITE"
    | "dr_cmd ?r \<noteq> DISK_CMD_READ" "dr_cmd ?r \<noteq> DISK_CMD_WRITE" by blast
  then show ?thesis
  proof cases
    case 1
    with ok have d: "on_disk (dr_lba ?r) (dr_nblocks ?r)"
      and w: "pcbs_in (q_view s) Blocked_requests = [] \<or>
        (\<exists>p \<in> set (pcbs_in (q_view s) Blocked_requests). pending_request (pcbs s p) = Some dr)"
      by (simp_all add: request_ok_def Let_def)
    from rd_read_ok [OF d, of "dr_buffer ?r" s] obtain n t where
      t: "rd_read (dr_lba ?r) (dr_nblocks ?r) (dr_buffer ?r) s = Inr (n, t)" "t = s\<lparr>mem := mem t\<rparr>" by blast
    note same = same_mem_update [OF t(2), THEN conjunct1] same_mem_update [OF t(2), THEN conjunct2]
    note c = same_procs_cong [OF same(1)]
    from blocked_scan_served [of H F K t dr i] k w obtain u where
      u: "blocked_scan (N_QNODES + 1) dr t = Inr u" "served H F K i t u" by (auto simp: c)
    have su: "served H F K i s u"
      using u(2) c same_trans(2) [OF same(2)] by (simp add: served_def)
    let ?z = "set_request dr (\<lambda>r. r\<lparr>dr_status := DISK_STATUS_IO_FINISHED_ERROR\<rparr>)
      (c_puts ''ERROR: clock: couldn't find a pending disk request's process\<newline>'' u)"
    have z: "same_procs u ?z" "same_sio u ?z" by simp_all
    have "served H F K i s ?z"
      using su same_procs_cong [OF z(1)] same_trans(2) [OF _ z(2)] by (simp add: served_def)
    then show ?thesis using 1 t(1) u(1) su by (auto simp: serve_request_def Let_def)
  next
    case 2
    with ok have d: "on_disk (dr_lba ?r) (dr_nblocks ?r)" by (simp add: request_ok_def Let_def)
    from rd_write_ok [OF d, of "dr_buffer ?r" s] obtain n t where
      t: "rd_write (dr_lba ?r) (dr_nblocks ?r) (dr_buffer ?r) s = Inr (n, t)" "t = s\<lparr>ramdisk := ramdisk t\<rparr>" by blast
    let ?z = "set_request dr (\<lambda>r. r\<lparr>dr_status := DISK_STATUS_IO_SUCCESS\<rparr>) t"
    have "same_procs s ?z" "same_sio s ?z" using same_ramdisk_update [OF t(2)] by simp_all
    from served_same [OF k this] show ?thesis using 2 t(1) by (simp add: serve_request_def Let_def)
  next
    case 3
    let ?z = "c_puts ''ERROR: clock: invalid disk request\<newline>''
      (set_request dr (\<lambda>r. r\<lparr>dr_status := DISK_ERR_INVALID_CMD\<rparr>) s)"
    have "same_procs s ?z" "same_sio s ?z" by (simp_all add: same_procs_def same_sio_def set_request_def c_puts_def)
    from served_same [OF k this] show ?thesis using 3 by (simp add: serve_request_def Let_def)
  qed
qed

lemma serve_ramdisk_served:
  assumes k: "kinv H F K s" and ok: "service_ok (system_time s) s"
  shows "\<exists>s'. serve_ramdisk s = Inr s' \<and> served H F K i s s'"
proof (cases "system_time s mod ramdisk_service s = 0")
  case False
  then show ?thesis using served_same [OF k] by (simp add: serve_ramdisk_def)
next
  case True
  let ?q = "Ramdisk_io_pending"
  have q: "?q \<in> set other_queues" by (simp add: other_queues_def)
  show ?thesis
  proof (cases "q_view s ?q")
    case Nil
    then show ?thesis
      using True q_remove_empty [OF kinvD(1) [OF k] Nil] served_same [OF k] by (simp add: serve_ramdisk_def)
  next
    case (Cons e es)
    then obtain ky dr where v: "q_view s ?q = (ky, Some (Disk_req dr)) # es"
      using kinvD(3) [OF k] by (cases e) (fastforce simp: typed_view_def)
    with ok True have r: "request_ok dr s" by (simp add: service_ok_def)
    from kinv_other_remove [OF k q v] obtain t where
      t: "q_remove ?q s = (Some (Disk_req dr), t)" "kinv H F K t" "q_frame s t" "q_view t = (q_view s)(?q := es)" by blast
    note f = q_frame_fields [OF t(3)]
    have "request_ok dr t"
      using r by (simp add: request_ok_def f t(4))
    from serve_request_served [OF t(2) this] obtain u where
      u: "serve_request dr t = Inr u" "served H F K i t u" by blast
    have "ready_seq (q_view t) = ready_seq (q_view s)" by (rule ready_from_cong) (simp add: t(4))
    then have "idle_ready i t \<longleftrightarrow> idle_ready i s" by (simp add: idle_ready_def f)
    then have "served H F K i s u"
      using u(2) same_trans(2) [OF k_frame_sio [OF q_frame_k_frame [OF t(3)]]] by (simp add: served_def f)
    then show ?thesis using True t(1) u(1) by (auto simp: serve_ramdisk_def)
  qed
qed

section \<open>The end of a quantum\<close>

lemma use_quantum_rest:
  assumes ok: "kernel_ok i s"
  shows "\<exists>s'. use_quantum s = Inr s' \<and> kernel_ok i s'"
proof -
  from ok obtain c where r: "running c s" and i: "idle_ok i s" and e: "env_ok s" by (auto simp: kernel_ok_def)
  note d = runningD [OF r]
  show ?thesis
  proof (cases "quantum (pcbs s c) = 0")
    case True
    from yield_kernel_ok [OF r i e] show ?thesis using d(1) True by (auto simp: use_quantum_def)
  next
    case False
    let ?s = "set_pcb c (\<lambda>p. p\<lparr>quantum := quantum p - 1\<rparr>) s"
    have "kinv [c] [] [] ?s" using d(2,4) by (intro kinv_set_held) simp_all
    then have "running c ?s" using d(1) by (simp add: running_def)
    moreover have "idle_ok i ?s" using i by (auto simp: idle_ok_def idle_ready_def)
    moreover have "env_ok ?s"
      using e by (simp add: env_ok_def in_ok_def out_ok_def table_ok_def set_pcb_def)
    ultimately show ?thesis using d(1) False by (auto simp: use_quantum_def intro: kernel_okI)
  qed
qed

section \<open>The tick\<close>

lemma spin_same: "same_procs s (spin s)" "same_sio s (spin s)" "system_time (spin s) = system_time s"
  "ramdisk_service (spin s) = ramdisk_service s" "pending_requests (spin s) = pending_requests s"
  by (auto simp: spin_def Let_def same_procs_def same_sio_def c_putchar_at_def)

text \<open>The state in which the sleepers are looked at.\<close>

definition ticked :: "kstate \<Rightarrow> kstate" where
  "ticked s = spin (s\<lparr>system_time := system_time s + 1\<rparr>)"

lemma ticked_same: "same_procs s (ticked s)" "same_sio s (ticked s)" "system_time (ticked s) = system_time s + 1"
  "ramdisk_service (ticked s) = ramdisk_service s" "pending_requests (ticked s) = pending_requests s"
proof -
  have "same_procs s (s\<lparr>system_time := system_time s + 1\<rparr>)" "same_sio s (s\<lparr>system_time := system_time s + 1\<rparr>)"
    by (simp_all add: same_procs_def same_sio_def)
  then show "same_procs s (ticked s)" "same_sio s (ticked s)"
    unfolding ticked_def using spin_same same_trans by blast+
qed (simp_all add: ticked_def spin_same)

lemma due_fuel:
  assumes "kinv H F K s"
  shows "length (due s) < N_QNODES + 1"
proof -
  have "length (due s) \<le> length (q_view s Sleeping)" by (simp add: due_def length_takeWhile_le)
  also have "\<dots> \<le> n_used (q_view s)" by (simp add: n_used_def live_queues_def)
  finally show ?thesis using kinvD(6) [OF assms] by simp
qed

lemma woken_frame:
  assumes "woken W s t"
  shows "ramdisk_service t = ramdisk_service s" "pending_requests t = pending_requests s"
    "q_view t Ramdisk_io_pending = q_view s Ramdisk_io_pending"
    "pcbs_in (q_view t) Blocked_requests = pcbs_in (q_view s) Blocked_requests"
    "pending_request (pcbs t j) = pending_request (pcbs s j)" "same_sio s t" "system_time t = system_time s"
    "j \<notin> set W \<Longrightarrow> pcbs t j = pcbs s j"
  using assms k_frame_fields [of s t] k_frame_sio [of s t] by (auto simp: woken_def pcbs_in_def)

lemma due_sleeping: "set (due s) \<subseteq> set (pcbs_in (q_view s) Sleeping)"
  by (auto simp: due_def pcbs_in_def dest: set_takeWhileD)

lemma due_not_held:
  assumes "kinv (c # H) F K s"
  shows "c \<notin> set (due s)"
  using owned_held(2) [OF kinvD(4) [OF assms]] in_live [OF sleeping_live] due_sleeping by blast

lemma isr_clock_rest:
  assumes ok: "kernel_ok i s" and sv: "service_ok (system_time s + 1) s"
  shows "\<exists>s'. isr_clock s = Inr s' \<and> kernel_ok i s'"
proof -
  from ok obtain c where r: "running c s" and i: "idle_ok i s" and e: "env_ok s" by (auto simp: kernel_ok_def)
  let ?t = "ticked s"
  note tc = same_procs_cong [OF ticked_same(1) [of s]]
  have kt: "kinv [c] [] [] ?t" using runningD(2) [OF r] by (simp add: tc)
  from wake_loop_ok [OF kt due_fuel [OF kt]] obtain u where
    u: "wake_loop (N_QNODES + 1) ?t = Inr u" "kinv [c] [] [] u" "woken (due ?t) ?t u"
      "idle_ready i ?t \<longrightarrow> idle_ready i u" by blast
  note wf = woken_frame [OF u(3)]
  have cu: "current u = Some c" using u(3) runningD(1) [OF r] by (simp add: woken_def tc)
  have "service_ok (system_time u) u"
    using sv unfolding service_ok_def request_ok_def wf ticked_same tc
    by (auto split: list.splits option.splits obj.splits)
  from serve_ramdisk_served [OF u(2) this] obtain v where
    v: "serve_ramdisk u = Inr v" "served [c] [] [] i u v" by blast
  have cv: "current v = Some c" "kinv [c] [] [] v" using v(2) cu by (simp_all add: served_def)
  have "pcbs v c = pcbs s c"
    using v(2) wf(8) due_not_held [OF kt] by (simp add: served_def tc)
  then have "idle_ok i v"
    using i u(4) v(2) cv(1) runningD(1) [OF r] by (auto simp: idle_ok_def served_def tc)
  moreover have "env_ok v"
    using e same_trans(2) [OF same_trans(2) [OF ticked_same(2) wf(6)]] v(2) same_env_ok by (auto simp: served_def)
  ultimately have "kernel_ok i v" using cv by (auto simp: running_def intro: kernel_okI)
  from use_quantum_rest [OF this] obtain w where w: "use_quantum v = Inr w" "kernel_ok i w" by blast
  have "isr_clock s = Inr (outb PIC_MASTER_CMD_PORT PIC_EOI w)"
    using u(1) v(1) w(1) by (simp add: isr_clock_def Let_def ticked_def)
  moreover have "kernel_ok i (outb PIC_MASTER_CMD_PORT PIC_EOI w)"
    using w(2) kernel_ok_cong [OF same_basic(3,4)] by blast
  ultimately show ?thesis by blast
qed

section \<open>What a tick does\<close>

text \<open>The sleep queue is sorted by the time to wake up, so all who are due are at its front.\<close>

lemma view_sorted:
  assumes "q_wf s" "q_ordered s q"
  shows "sorted (map fst (q_view s q))"
proof -
  from assms(1) obtain L F where r: "q_repr s L F" by (auto elim: q_wfE)
  from queue_reprD [OF q_reprD(1) [OF r, of q]] assms(2) show ?thesis
    by (simp add: q_view_of_repr [OF r] entry_def q_ordered_def comp_def)
qed

lemma sorted_takeWhile_filter:
  "sorted (map fst xs) \<Longrightarrow> takeWhile (\<lambda>e. fst e \<le> n) xs = filter (\<lambda>e. fst e \<le> n) xs \<and>
     dropWhile (\<lambda>e. fst e \<le> n) xs = filter (\<lambda>e. n < fst e) xs"
  for n :: "'k :: linorder"
proof (induction xs)
  case (Cons x xs)
  show ?case
  proof (cases "fst x \<le> n")
    case True
    then show ?thesis using Cons by auto
  next
    case False
    then have "n < fst y" if "y \<in> set xs" for y using Cons.prems that by (auto simp: not_le)
    then show ?thesis using False by (auto simp: filter_empty_conv not_le intro!: filter_True [symmetric])
  qed
qed simp

lemma due_filter:
  assumes k: "kinv H F K s"
  shows "due s = map (\<lambda>e. pcb_of (snd e)) (filter (\<lambda>e. fst e \<le> system_time s) (q_view s Sleeping))"
    "drop (length (due s)) (q_view s Sleeping) = filter (\<lambda>e. system_time s < fst e) (q_view s Sleeping)"
proof -
  have "q_ordered s Sleeping" using kinvD(2) [OF k] by (simp add: hashes_ok_def q_ordered_def)
  note f = sorted_takeWhile_filter [OF view_sorted [OF kinvD(1) [OF k] this]]
  then show "due s = map (\<lambda>e. pcb_of (snd e)) (filter (\<lambda>e. fst e \<le> system_time s) (q_view s Sleeping))"
    by (simp add: due_def)
  show "drop (length (due s)) (q_view s Sleeping) = filter (\<lambda>e. system_time s < fst e) (q_view s Sleeping)"
    unfolding due_def length_map dropWhile_eq_drop [symmetric] using f by blast
qed

definition no_service :: "kstate \<Rightarrow> bool" where
  "no_service s \<longleftrightarrow> (system_time s + 1) mod ramdisk_service s \<noteq> 0 \<or> q_view s Ramdisk_io_pending = []"

lemma clock_woken:
  assumes r: "running c s" and i: "idle_ok i s" and e: "env_ok s" and ns: "no_service s"
  obtains t where "woken (due (ticked s)) (ticked s) t" "running c t" "idle_ok i t" "env_ok t" "pcbs t c = pcbs s c"
    "isr_clock s = bindE (use_quantum t) (\<lambda>s. Inr (outb PIC_MASTER_CMD_PORT PIC_EOI s))"
proof -
  let ?t = "ticked s"
  note tc = same_procs_cong [OF ticked_same(1) [of s]]
  have kt: "kinv [c] [] [] ?t" using runningD(2) [OF r] by (simp add: tc)
  from wake_loop_ok [OF kt due_fuel [OF kt]] obtain u where
    u: "wake_loop (N_QNODES + 1) ?t = Inr u" "kinv [c] [] [] u" "woken (due ?t) ?t u"
      "idle_ready i ?t \<longrightarrow> idle_ready i u" by blast
  note wf = woken_frame [OF u(3)]
  have cu: "current u = Some c" using u(3) runningD(1) [OF r] by (simp add: woken_def tc)
  have "serve_ramdisk u = Inr u"
  proof (cases "system_time u mod ramdisk_service u = 0")
    case True
    then have "q_view u Ramdisk_io_pending = []" using ns by (simp add: no_service_def wf ticked_same tc)
    from q_remove_empty [OF kinvD(1) [OF u(2)] this] show ?thesis by (simp add: serve_ramdisk_def)
  qed (simp add: serve_ramdisk_def)
  then have "isr_clock s = bindE (use_quantum u) (\<lambda>s. Inr (outb PIC_MASTER_CMD_PORT PIC_EOI s))"
    using u(1) by (simp add: isr_clock_def Let_def ticked_def)
  moreover have p: "pcbs u c = pcbs s c" using wf(8) due_not_held [OF kt] by (simp add: tc)
  moreover have "running c u" using u(2) cu by (simp add: running_def)
  moreover have "idle_ok i u"
    using i u(4) cu runningD(1) [OF r] p by (auto simp: idle_ok_def tc)
  moreover have "env_ok u" using e same_trans(2) [OF ticked_same(2) wf(6)] by (auto intro: same_env_ok)
  ultimately show thesis using that u(3) by blast
qed

text \<open>While the quantum lasts, the running process goes on.\<close>

lemma clock_goes_on:
  assumes r: "running c s" and i: "idle_ok i s" and e: "env_ok s" and ns: "no_service s"
    and q: "quantum (pcbs s c) \<noteq> 0"
  obtains t s' where "woken (due (ticked s)) (ticked s) t" "isr_clock s = Inr s'" "running c s'"
    "q_view s' = q_view t" "pcbs s' = (pcbs t)(c := (pcbs s c)\<lparr>quantum := quantum (pcbs s c) - 1\<rparr>)"
proof -
  from clock_woken [OF r i e ns] obtain t where t: "woken (due (ticked s)) (ticked s) t" "running c t"
    "pcbs t c = pcbs s c" "isr_clock s = bindE (use_quantum t) (\<lambda>s. Inr (outb PIC_MASTER_CMD_PORT PIC_EOI s))"
    by blast
  note d = runningD [OF t(2)]
  let ?u = "set_pcb c (\<lambda>p. p\<lparr>quantum := quantum p - 1\<rparr>) t"
  let ?s = "outb PIC_MASTER_CMD_PORT PIC_EOI ?u"
  have same: "same_procs ?u ?s" by simp
  have "kinv [c] [] [] ?u" using d(2,4) by (intro kinv_set_held) simp_all
  then have "running c ?u" using d(1) by (simp add: running_def)
  then have "running c ?s" using same_procs_cong(1) [OF same] by blast
  moreover have "isr_clock s = Inr ?s" using t(3,4) d(1) q by (simp add: use_quantum_def)
  moreover have "q_view ?s = q_view t" "pcbs ?s = (pcbs t)(c := (pcbs s c)\<lparr>quantum := quantum (pcbs s c) - 1\<rparr>)"
    using same_procs_cong(5,6) [OF same] t(3) by simp_all
  ultimately show thesis using that t(1) by blast
qed

text \<open>
  At its end the running process goes behind the others of its level, the woken ones
  included, and the first ready process runs.
\<close>

lemma clock_preempts:
  assumes r: "running c s" and i: "idle_ok i s" and e: "env_ok s" and ns: "no_service s"
    and q: "quantum (pcbs s c) = 0"
  obtains t u p rest s' where "woken (due (ticked s)) (ticked s) t"
    "q_view u = enq (Ready (unat (level (pcbs s c)))) c (q_view t)"
    "pcbs u = (pcbs t)(c := (pcbs s c)\<lparr>status := PROC_READY\<rparr>)"
    "ready_of u = p # rest" "isr_clock s = Inr s'" "running p s'" "idle_ok i s'" "env_ok s'"
    "ready_seq (q_view s') = rest" "status (pcbs s' p) = PROC_RUNNING" "quantum (pcbs s' p) = QUANTUM_DEFAULT"
proof -
  from clock_woken [OF r i e ns] obtain t where t: "woken (due (ticked s)) (ticked s) t" "running c t"
    "idle_ok i t" "env_ok t" "pcbs t c = pcbs s c"
    "isr_clock s = bindE (use_quantum t) (\<lambda>s. Inr (outb PIC_MASTER_CMD_PORT PIC_EOI s))" by blast
  note d = runningD [OF t(2)]
  from kinv_schedule [OF d(2)] t(5) obtain u where u: "schedule c t = Inr (STAT_SUCCESS, u)"
    "kinv [] [] [] u" "k_frame t u" "pcbs u = (pcbs t)(c := (pcbs s c)\<lparr>status := PROC_READY\<rparr>)"
    "q_view u = enq (Ready (unat (level (pcbs s c)))) c (q_view t)" by (auto simp: enq_def)
  have "idle_ready i u" using t(3) schedule_idle [OF d(2) u(1)] d(1) by (auto simp: idle_ok_def)
  from dispatch_rest [OF u(2) this] obtain p rest v where
    v: "ready_of u = p # rest" "dispatch u = Inr v" "running p v" "idle_ok i v" "same_sio u v"
    "dispatched (zombies_of u) p rest u v" by blast
  let ?s = "outb PIC_MASTER_CMD_PORT PIC_EOI v"
  have same: "same_procs v ?s" "same_sio v ?s" by simp_all
  have "isr_clock s = Inr ?s" using t(5,6) d(1) q u(1) v(2) by (simp add: use_quantum_def)
  moreover have "env_ok ?s"
    using same_env_ok [OF _ t(4)] k_frame_sio [OF u(3)] v(5) same(2) same_trans(2) by blast
  moreover have "ready_seq (q_view ?s) = rest" "status (pcbs ?s p) = PROC_RUNNING"
    "quantum (pcbs ?s p) = QUANTUM_DEFAULT"
    using v(6) same_procs_cong(5,6) [OF same(1)] by (simp_all add: dispatched_def)
  ultimately show thesis
    using that [OF t(1) u(5,4) v(1)] v(3,4) same_procs_cong(1,2) [OF same(1)] by blast
qed

end
