(* ===== verification/Kernel_Steps.thy ===== *)
theory Kernel_Steps
  imports Clock
begin

text \<open>
  The kernel as a whole: what can happen to it between two entries, the entries themselves
  (a system call, a clock tick, an interrupt of the serial line), the states that can be
  reached, and what holds in all of them.
\<close>

section \<open>Interrupts of the serial line\<close>

text \<open>
  What the device answers during one interrupt: for every event the kind of the interrupt,
  for a received character also the character, and in the end that nothing is left to do.
\<close>

datatype uart_event = Tx | Rx u32

fun uart_reads :: "uart_event list \<Rightarrow> u32 list" where
  "uart_reads [] = [UA4_EIR_NO_INT]"
| "uart_reads (Tx # evs) = UA4_EIR_TX_INT_PENDING # uart_reads evs"
| "uart_reads (Rx ch # evs) = UA4_EIR_RX_INT_PENDING # ch # uart_reads evs"

fun received :: "uart_event list \<Rightarrow> nat" where
  "received [] = 0"
| "received (Tx # evs) = received evs"
| "received (Rx ch # evs) = Suc (received evs)"

lemma length_uart_reads: "length evs < length (uart_reads evs)"
  by (induction evs rule: received.induct) auto

lemma sio_tx_rest:
  assumes ok: "kernel_ok i s"
  shows "\<exists>s'. sio_tx s = Inr s' \<and> kernel_ok i s' \<and> inlast s' \<le> inlast s \<and> inq s' = inq s"
proof -
  from ok have e: "env_ok s" "out_ok s" "in_ok s" by (simp_all add: kernel_ok_def env_ok_def)
  from ok obtain c where "running c s" by (auto simp: kernel_ok_def)
  from kinv_sio_tx [OF runningD(2) [OF this] e(2)] obtain s' where
    s': "sio_tx s = Inr s'" "out_ok s'" "in_ok s' = in_ok s" "inq s' = inq s" "inlast s' = inlast s" by blast
  have p: "same_procs s s'"
    using s'(1) by (auto simp: sio_tx_def Let_def same_procs_def outb_def split: if_splits)
  have "env_ok s'" using env_okI [OF p e(1)] s'(2,3) e(3) by simp
  then show ?thesis using s' ok by (auto simp: kernel_ok_def same_procs_cong [OF p])
qed

text \<open>A character that comes in while a process waits for one goes to that process.\<close>

lemma reading_live: "Reading \<in> set live_queues" by (simp add: live_queues_def)

lemma sio_rx_wakes:
  assumes k: "kinv H F K s" and v: "pcbs_in (q_view s) Reading = p # ps"
  shows "\<exists>c s'. context_of (pcbs s p) = Some c \<and> sio_rx ch s = Inr s' \<and> kinv H F K s' \<and>
     q_view s' = (q_view s)(Reading := tl (q_view s Reading), Ready (unat (level (pcbs s p))) :=
       q_view s (Ready (unat (level (pcbs s p)))) @ [(0, Some (Pcb p))]) \<and>
     pcbs s' = (pcbs s)(p := (pcbs s p)\<lparr>status := PROC_READY\<rparr>) \<and>
     stacks s' = stacks (ctx_set c CTX_EAX ((if ch = 13 then 10 else ch) AND 0xff) s) \<and>
     current s' = current s \<and> k_frame s s' \<and> (idle_ready i s \<longrightarrow> idle_ready i s')"
proof -
  let ?ch = "(if ch = 13 then 10 else ch) AND 0xff :: u32"
  from kinv_take [OF k reading_live v] obtain t where
    t: "q_remove Reading s = (Some (Pcb p), t)" "kinv (p # H) F K t" "q_frame s t"
      "q_view t = (q_view s)(Reading := tl (q_view s Reading))" by blast
  note f = q_frame_fields [OF t(3)]
  have "live_pcb (pcbs t p)" by (rule owned_held(6) [OF kinvD(4) [OF t(2)]])
  then obtain c where c: "context_of (pcbs s p) = Some c" by (auto simp: live_pcb_def f)
  have "kinv (p # H) F K (ctx_set c CTX_EAX ?ch t)" using t(2) by simp
  from kinv_schedule [OF this] obtain u where
    u: "schedule p (ctx_set c CTX_EAX ?ch t) = Inr (STAT_SUCCESS, u)" "kinv H F K u" "k_frame t u"
      "pcbs u = (pcbs s)(p := (pcbs s p)\<lparr>status := PROC_READY\<rparr>)" "current u = current s"
      "stacks u = stacks (ctx_set c CTX_EAX ?ch s)"
      "q_view u = (q_view t)(Ready (unat (level (pcbs s p))) :=
         q_view t (Ready (unat (level (pcbs s p)))) @ [(0, Some (Pcb p))])"
    by (auto simp: f)
  have "\<not> q_isempty Reading s"
    using v q_isempty_view [OF kinvD(1) [OF k]] by (auto simp: pcbs_in_def)
  then have run: "sio_rx ch s = Inr u"
    using t(1) c u(1) by (simp add: sio_rx_def Let_def f)
  have "ready_seq (q_view t) = ready_seq (q_view s)" by (rule ready_from_cong) (simp add: t(4))
  then have "idle_ready i s \<longrightarrow> idle_ready i (ctx_set c CTX_EAX ?ch t)" by (simp add: idle_ready_def f)
  then have idle: "idle_ready i s \<longrightarrow> idle_ready i u"
    using schedule_idle(1) [OF _ u(1)] t(2) by simp
  have "k_frame s u" using q_frame_k_frame [OF t(3)] u(3) by (rule k_frame_trans)
  then show ?thesis using c run u idle t(4) by (intro exI [of _ c] exI [of _ u]) simp
qed

lemma sio_rx_rest:
  assumes ok: "kernel_ok i s" and room: "inlast s < BUF_SIZE"
  shows "\<exists>s'. sio_rx ch s = Inr s' \<and> kernel_ok i s' \<and> inlast s' \<le> Suc (inlast s) \<and> inq s' = inq s"
proof -
  from ok obtain c where r: "running c s" and i: "idle_ok i s" and e: "env_ok s" by (auto simp: kernel_ok_def)
  note d = runningD [OF r]
  show ?thesis
  proof (cases "pcbs_in (q_view s) Reading")
    case (Cons p ps)
    from sio_rx_wakes [OF d(2) Cons] obtain s' where
      s': "sio_rx ch s = Inr s'" "kinv [c] [] [] s'" "pcbs s' = (pcbs s)(p := (pcbs s p)\<lparr>status := PROC_READY\<rparr>)"
        "current s' = current s" "k_frame s s'" "idle_ready i s \<longrightarrow> idle_ready i s'" by blast
    have "idle_ok i s'" using i s'(3,4,6) by (auto simp: idle_ok_def)
    moreover have "env_ok s'" using k_frame_sio [OF s'(5)] e by (rule same_env_ok)
    moreover have "running c s'" using s'(2,4) d(1) by (simp add: running_def)
    ultimately show ?thesis using s'(1) k_frame_fields [OF s'(5)] by (auto intro: kernel_okI)
  next
    case Nil
    then have em: "q_isempty Reading s"
      using q_isempty_view [OF kinvD(1) [OF d(2)]] by (simp add: pcbs_in_def)
    have "in_ok s" using e by (simp add: env_ok_def)
    then have "unat (incount s) < BUF_SIZE" using room by (auto simp: in_ok_def)
    then have n: "incount s < of_nat BUF_SIZE" by (simp only: of_nat_BUF)
    let ?s = "s\<lparr>inbuffer := (inbuffer s)(inlast s := ucast (if ch = 13 then 10 else ch)), inlast := Suc (inlast s),
      incount := incount s + 1\<rparr>"
    have run: "sio_rx ch s = Inr ?s" using em n room by (simp add: sio_rx_def Let_def)
    have p: "same_procs s ?s" by (simp add: same_procs_def)
    have "in_ok ?s" using in_ok_rx [OF \<open>in_ok s\<close> room] by simp
    moreover have "out_ok ?s" using e by (simp add: env_ok_def out_ok_def)
    ultimately have "env_ok ?s" using env_okI [OF p e] by blast
    then have "kernel_ok i ?s" using ok unfolding kernel_ok_def same_procs_cong [OF p] by blast
    then show ?thesis using run by (intro exI [of _ ?s]) simp
  qed
qed

text \<open>
  An interrupt takes what the device has to say, and nothing more, as long as there is room
  for the characters.
\<close>

lemma kernel_ok_inq [simp]: "kernel_ok i (s\<lparr>inq := vs\<rparr>) = kernel_ok i s"
  by (rule kernel_ok_cong) (simp_all add: same_procs_def same_sio_def)

lemma isr_sio_loop_rest:
  assumes "kernel_ok i s" "inq s = uart_reads evs @ rest" "inlast s + received evs \<le> BUF_SIZE" "length evs < fuel"
  shows "\<exists>s'. isr_sio_loop fuel s = Inr s' \<and> kernel_ok i s' \<and> inq s' = rest"
  using assms
proof (induction evs arbitrary: s fuel rule: received.induct)
  case 1
  then obtain f where f: "fuel = Suc f" by (cases fuel) auto
  let ?s = "outb PIC_MASTER_CMD_PORT PIC_EOI (s\<lparr>inq := rest\<rparr>)"
  have "isr_sio_loop fuel s = Inr ?s" using 1 f by (simp add: inb_def)
  moreover have "kernel_ok i ?s" using 1(1) kernel_ok_cong [OF same_basic(3,4)] by simp
  ultimately show ?case by (auto simp: outb_def)
next
  case (2 evs)
  then obtain f where f: "fuel = Suc f" by (cases fuel) auto
  let ?s = "s\<lparr>inq := uart_reads evs @ rest\<rparr>"
  from sio_tx_rest [of i ?s] 2(2) obtain t where
    t: "sio_tx ?s = Inr t" "kernel_ok i t" "inlast t \<le> inlast s" "inq t = uart_reads evs @ rest" by auto
  have "isr_sio_loop fuel s = isr_sio_loop f t" using 2(3) f t(1) by (simp add: inb_def)
  then show ?case using 2(1) [OF t(2,4), of f] 2(4,5) t(3) f by auto
next
  case (3 ch evs)
  then obtain f where f: "fuel = Suc f" by (cases fuel) auto
  let ?s = "s\<lparr>inq := uart_reads evs @ rest\<rparr>"
  from sio_rx_rest [of i ?s "ch AND 0xff"] 3(2,4) obtain t where
    t: "sio_rx (ch AND 0xff) ?s = Inr t" "kernel_ok i t" "inlast t \<le> Suc (inlast s)" "inq t = uart_reads evs @ rest"
    by auto
  have "isr_sio_loop fuel s = isr_sio_loop f t" using 3(3) f t(1) by (simp add: inb_def)
  then show ?case using 3(1) [OF t(2,4), of f] 3(4,5) t(3) f by auto
qed

lemma isr_sio_rest:
  assumes "kernel_ok i s" "inq s = uart_reads evs @ rest" "inlast s + received evs \<le> BUF_SIZE"
  shows "\<exists>s'. isr_sio s = Inr s' \<and> kernel_ok i s' \<and> inq s' = rest"
proof -
  have "length evs < Suc (length (inq s))" using assms(2) length_uart_reads [of evs] by simp
  from isr_sio_loop_rest [OF assms this] show ?thesis by (simp add: isr_sio_def)
qed

section \<open>Steps\<close>

text \<open>
  A user process changes the byte memory, its stack and where its context is saved; a
  device changes what it will answer.  The kernel is entered by a system call that keeps to
  \<open>call_ok\<close>, by a tick whose disk request keeps to \<open>service_ok\<close>, and by an interrupt of the
  serial line that brings no more characters than there is room for.
\<close>

inductive kstep :: "linkage \<Rightarrow> nat \<Rightarrow> kstate \<Rightarrow> kstate \<Rightarrow> bool" for lk i where
  user: "current s = Some c \<Longrightarrow>
    kstep lk i s (set_pcb c (\<lambda>p. p\<lparr>context_of := Some ctx\<rparr>) (s\<lparr>mem := m, stacks := st\<rparr>))"
| device: "kstep lk i s (s\<lparr>inq := vs\<rparr>)"
| syscall: "requested s c ctx f \<Longrightarrow> call_ok i f ctx s \<Longrightarrow> isr_syscall lk s = Inr s' \<Longrightarrow> kstep lk i s s'"
| tick: "service_ok (system_time s + 1) s \<Longrightarrow> isr_clock s = Inr s' \<Longrightarrow> kstep lk i s s'"
| serial: "inq s = uart_reads evs @ rest \<Longrightarrow> inlast s + received evs \<le> BUF_SIZE \<Longrightarrow> isr_sio s = Inr s' \<Longrightarrow>
    kstep lk i s s'"

inductive_cases kstepE: "kstep lk i s s'"

inductive reachable :: "linkage \<Rightarrow> nat \<Rightarrow> kstate \<Rightarrow> kstate \<Rightarrow> bool" for lk i s0 where
  start: "reachable lk i s0 s0"
| step: "reachable lk i s0 s \<Longrightarrow> kstep lk i s s' \<Longrightarrow> reachable lk i s0 s'"

lemma user_rest:
  assumes ok: "kernel_ok i s" and c: "current s = Some c"
  shows "kernel_ok i (set_pcb c (\<lambda>p. p\<lparr>context_of := Some ctx\<rparr>) (s\<lparr>mem := m, stacks := st\<rparr>))"
proof -
  let ?t = "s\<lparr>mem := m, stacks := st\<rparr>" and ?f = "\<lambda>p. p\<lparr>context_of := Some ctx\<rparr>"
  have "kernel_ok i ?t"
    using ok by (subst kernel_ok_cong [of s]) (simp_all add: same_procs_def same_sio_def)
  then obtain d where r: "running d ?t" and i: "idle_ok i ?t" and e: "env_ok ?t" by (auto simp: kernel_ok_def)
  have d: "d = c" using runningD(1) [OF r] c by simp
  have "kinv [c] [] [] (set_pcb c ?f ?t)"
    using runningD(2,4) [OF r] unfolding d by (intro kinv_set_held) (simp_all add: live_pcb_def)
  then have "running c (set_pcb c ?f ?t)" using c by (simp add: running_def)
  moreover have "idle_ok i (set_pcb c ?f ?t)" using i by (auto simp: idle_ok_def idle_ready_def)
  moreover have "env_ok (set_pcb c ?f ?t)"
    using e by (simp add: env_ok_def in_ok_def out_ok_def table_ok_def set_pcb_def)
  ultimately show ?thesis by (rule kernel_okI)
qed

lemma kstep_rest:
  assumes "kstep lk i s s'" "kernel_ok i s"
  shows "kernel_ok i s'"
  using assms
proof cases
  case (user c ctx m st)
  with assms(2) show ?thesis by (simp only: user_rest)
next
  case (device vs)
  with assms(2) show ?thesis by simp
next
  case (syscall c ctx f)
  from isr_syscall_rest [where lk = lk, OF assms(2) syscall(1,2)] show ?thesis unfolding syscall(3) by auto
next
  case tick
  from isr_clock_rest [OF assms(2) tick(1)] show ?thesis unfolding tick(2) by auto
next
  case (serial evs rest)
  from isr_sio_rest [OF assms(2) serial(1,2)] show ?thesis unfolding serial(3) by auto
qed

lemma reachable_rest: "reachable lk i s0 s \<Longrightarrow> kernel_ok i s0 \<Longrightarrow> kernel_ok i s"
  by (induction rule: reachable.induct) (auto intro: kstep_rest)

end
