(* ===== verification/Sched_Spec.thy ===== *)
theory Sched_Spec
  imports Kernel_Steps
begin

text \<open>
  The scheduler without its data structures: who runs, who waits where and in which order, who
  is dead but still queued, and how much of its quantum each process has left.  Every entry into
  the kernel is an event, with its effect as a function on this state; the entries of the
  modelled code refine these functions.
\<close>

section \<open>The specification\<close>

record sched =
  sc_runs :: "nat option"
  sc_ready :: "nat list list"
  sc_asleep :: "(u32 \<times> nat) list"
  sc_reading :: "nat list"
  sc_waiting :: "nat list"
  sc_free :: "nat list"
  sc_stacks :: nat
  sc_dead :: "nat \<Rightarrow> bool"
  sc_level :: "nat \<Rightarrow> nat"
  sc_left :: "nat \<Rightarrow> u8"
  sc_now :: u32

text \<open>A process gets ready: behind the others of its level, and alive, even if it was killed.\<close>

definition spec_ready :: "nat \<Rightarrow> sched \<Rightarrow> sched" where
  "spec_ready p a = a\<lparr>sc_ready := (sc_ready a)[sc_level a p := sc_ready a ! sc_level a p @ [p]],
     sc_dead := (sc_dead a)(p := False)\<rparr>"

text \<open>The next process: the first that is not dead; the dead before it are freed.\<close>

definition spec_dispatch :: "sched \<Rightarrow> sched option" where
  "spec_dispatch a =
     (case pick (sc_dead a) (sc_ready a) of
        (Some p, zs, qs) \<Rightarrow> Some (a\<lparr>sc_runs := Some p, sc_ready := qs, sc_free := sc_free a @ zs,
          sc_stacks := sc_stacks a + length zs, sc_dead := (\<lambda>i. sc_dead a i \<and> i \<notin> set zs),
          sc_left := (sc_left a)(p := QUANTUM_DEFAULT)\<rparr>)
      | (None, zs, qs) \<Rightarrow> None)"

definition spec_wake :: "sched \<Rightarrow> sched" where
  "spec_wake a = fold spec_ready (map snd (takeWhile (\<lambda>e. fst e \<le> sc_now a) (sc_asleep a)))
     (a\<lparr>sc_asleep := dropWhile (\<lambda>e. fst e \<le> sc_now a) (sc_asleep a)\<rparr>)"

text \<open>A request of \<open>p\<close> has been served: \<open>p\<close> gets ready, those before it go to the end.\<close>

definition spec_serve :: "nat option \<Rightarrow> sched \<Rightarrow> sched" where
  "spec_serve r a =
     (case r of
        None \<Rightarrow> a
      | Some p \<Rightarrow> spec_ready p
          (a\<lparr>sc_waiting := tl (dropWhile (\<lambda>q. q \<noteq> p) (sc_waiting a)) @ takeWhile (\<lambda>q. q \<noteq> p) (sc_waiting a)\<rparr>))"

datatype sched_event =
    E_quiet
  | E_tick "nat option"
  | E_yield
  | E_sleep u32
  | E_exit
  | E_kill nat
  | E_wait
  | E_arrive
  | E_spawn nat

definition running_do :: "(nat \<Rightarrow> sched \<Rightarrow> sched option) \<Rightarrow> sched \<Rightarrow> sched option" where
  "running_do f a = (case sc_runs a of None \<Rightarrow> None | Some c \<Rightarrow> f c a)"

definition spec_tick :: "nat option \<Rightarrow> sched \<Rightarrow> sched option" where
  "spec_tick r a =
     running_do (\<lambda>c a. if sc_left a c = 0 then spec_dispatch (spec_ready c a)
                       else Some (a\<lparr>sc_left := (sc_left a)(c := sc_left a c - 1)\<rparr>))
       (spec_serve r (spec_wake (a\<lparr>sc_now := sc_now a + 1\<rparr>)))"

definition spec_spawn :: "nat \<Rightarrow> nat \<Rightarrow> sched \<Rightarrow> sched option" where
  "spec_spawn l c a =
     (case sc_free a of
        [] \<Rightarrow> Some a
      | j # js \<Rightarrow>
          if sc_stacks a = 0 then Some (a\<lparr>sc_free := js @ [j], sc_dead := (sc_dead a)(j := False)\<rparr>)
          else
            let a = a\<lparr>sc_free := js, sc_stacks := sc_stacks a - 1, sc_dead := (sc_dead a)(j := False),
                      sc_level := (sc_level a)(j := l), sc_left := (sc_left a)(j := 0)\<rparr>
            in spec_dispatch (spec_ready c (if l < MLQ_LEVELS then spec_ready j a else a)))"

fun spec :: "sched_event \<Rightarrow> sched \<Rightarrow> sched option" where
  "spec E_quiet a = Some a"
| "spec (E_tick r) a = spec_tick r a"
| "spec E_yield a = running_do (\<lambda>c a. spec_dispatch (spec_ready c a)) a"
| "spec (E_sleep k) a = running_do (\<lambda>c a. spec_dispatch
     (a\<lparr>sc_asleep := insert_by fst (k, c) (sc_asleep a), sc_dead := (sc_dead a)(c := False)\<rparr>)) a"
| "spec E_exit a = running_do (\<lambda>c a. spec_dispatch
     (a\<lparr>sc_free := sc_free a @ [c], sc_stacks := sc_stacks a + 1, sc_dead := (sc_dead a)(c := False)\<rparr>)) a"
| "spec (E_kill j) a = Some (a\<lparr>sc_dead := (sc_dead a)(j := True)\<rparr>)"
| "spec E_wait a = running_do (\<lambda>c a. spec_dispatch
     (a\<lparr>sc_reading := sc_reading a @ [c], sc_dead := (sc_dead a)(c := False)\<rparr>)) a"
| "spec E_arrive a = (case sc_reading a of [] \<Rightarrow> Some a | p # ps \<Rightarrow> Some (spec_ready p (a\<lparr>sc_reading := ps\<rparr>)))"
| "spec (E_spawn l) a = running_do (spec_spawn l) a"

fun spec_run :: "sched_event list \<Rightarrow> sched \<Rightarrow> sched option" where
  "spec_run [] a = Some a"
| "spec_run (e # es) a = (case spec e a of None \<Rightarrow> None | Some b \<Rightarrow> spec_run es b)"

lemma spec_run_append: "spec_run (es @ fs) a = (case spec_run es a of None \<Rightarrow> None | Some b \<Rightarrow> spec_run fs b)"
  by (induction es arbitrary: a) (simp_all split: option.split)

section \<open>The abstraction\<close>

definition sched_at :: "view \<Rightarrow> (nat \<Rightarrow> pcb_t) \<Rightarrow> nat option \<Rightarrow> u32 \<Rightarrow> sched" where
  "sched_at v ps cur now =
     \<lparr>sc_runs = cur, sc_ready = levels_from 0 v, sc_asleep = map (\<lambda>e. (fst e, pcb_of (snd e))) (v Sleeping),
      sc_reading = pcbs_in v Reading, sc_waiting = pcbs_in v Blocked_requests, sc_free = pcbs_in v Free_pcbs,
      sc_stacks = length (v Free_stacks), sc_dead = zombie ps, sc_level = (\<lambda>i. unat (level (ps i))),
      sc_left = (\<lambda>i. quantum (ps i)), sc_now = now\<rparr>"

definition sched_of :: "kstate \<Rightarrow> sched" where
  "sched_of s = sched_at (q_view s) (pcbs s) (current s) (system_time s)"

lemma sched_of_fields [simp]:
  "sc_runs (sched_of s) = current s" "sc_ready (sched_of s) = levels_from 0 (q_view s)"
  "sc_reading (sched_of s) = pcbs_in (q_view s) Reading"
  "sc_waiting (sched_of s) = pcbs_in (q_view s) Blocked_requests"
  "sc_free (sched_of s) = pcbs_in (q_view s) Free_pcbs" "sc_stacks (sched_of s) = length (q_view s Free_stacks)"
  "sc_dead (sched_of s) = zombie (pcbs s)" "sc_level (sched_of s) i = unat (level (pcbs s i))"
  "sc_left (sched_of s) i = quantum (pcbs s i)" "sc_now (sched_of s) = system_time s"
  by (simp_all add: sched_of_def sched_at_def)

lemma levels_other:
  "(\<And>l. q \<noteq> Ready l) \<Longrightarrow> levels_from 0 (v(q := es)) = levels_from 0 v"
  by (rule levels_from_cong) (metis fun_upd_apply)

lemma levels_add:
  assumes "l < MLQ_LEVELS"
  shows "levels_from 0 (v(Ready l := v (Ready l) @ es)) =
    (levels_from 0 v)[l := levels_from 0 v ! l @ map (\<lambda>e. pcb_of (snd e)) es]"
  using assms by - (rule nth_equalityI, simp_all add: levels_from_def pcbs_in_def nth_list_update)

text \<open>What is no part of the abstract state.\<close>

lemma sched_of_same:
  assumes "same_procs s s'" "system_time s' = system_time s"
  shows "sched_of s' = sched_of s"
  using assms by (simp add: sched_of_def same_procs_cong)

lemma sched_of_frame:
  assumes "k_frame s s'"
  shows "sc_now (sched_of s') = sc_now (sched_of s)"
  using assms by (simp add: k_frame_fields)

section \<open>Dispatching and scheduling\<close>

lemma sched_dispatch:
  assumes "kinv [] [] [] s" "idle_ready i s"
  obtains p s' where "dispatch s = Inr s'" "spec_dispatch (sched_of s) = Some (sched_of s')"
    "running p s'" "idle_ok i s'" "same_sio s s'"
proof -
  let ?D = "zombie (pcbs s)"
  from dispatch_rest [OF assms] obtain p rest s' where
    d: "dropWhile ?D (ready_seq (q_view s)) = p # rest" "dispatch s = Inr s'" "running p s'" "idle_ok i s'"
      "same_sio s s'" "dispatched (takeWhile ?D (ready_seq (q_view s))) p rest s s'" by blast
  note e = d(6) [unfolded dispatched_def]
  obtain r zs qs where pk: "pick ?D (levels_from 0 (q_view s)) = (r, zs, qs)"
    by (cases "pick ?D (levels_from 0 (q_view s))") auto
  have Z: "zs = takeWhile ?D (ready_seq (q_view s))" and r: "r = Some p"
    using pick_seq [OF pk] d(1) by (auto simp: ready_from_levels split: option.splits)
  have nz: "\<not> ?D p" using d(1) by (metis hd_dropWhile list.distinct(1) list.sel(1))
  have np: "p \<notin> set zs" using nz Z by (auto dest: set_takeWhileD)
  have qs: "levels_from 0 (q_view s') = qs" using e pk by (simp add: left_by_pick_def)
  have st: "length (q_view s' Free_stacks) = length (q_view s Free_stacks) + length zs"
  proof -
    have "stacks_in (q_view s') = stacks_in (q_view s) @ map (stack_idx (pcbs s)) zs" using e Z by blast
    from arg_cong [where f = length, OF this] show ?thesis by (simp add: stacks_in_def)
  qed
  have "spec_dispatch (sched_of s) = Some ((sched_of s)\<lparr>sc_runs := Some p, sc_ready := qs,
     sc_free := pcbs_in (q_view s) Free_pcbs @ zs, sc_stacks := length (q_view s Free_stacks) + length zs,
     sc_dead := (\<lambda>i. ?D i \<and> i \<notin> set zs), sc_left := (\<lambda>i. quantum (pcbs s i))(p := QUANTUM_DEFAULT)\<rparr>)"
    by (simp add: spec_dispatch_def pk r) (simp add: sched_of_def sched_at_def)
  also have "\<dots> = Some (sched_of s')"
    using e qs st np nz k_frame_fields(7) [of s s']
    by (auto simp: sched_of_def sched_at_def pcbs_in_def fun_eq_iff zombie_def simp flip: Z)
  finally show thesis using that d(2-5) by blast
qed

lemma sched_schedule:
  assumes k: "kinv (p # H) F K s"
  obtains s' where "schedule p s = Inr (STAT_SUCCESS, s')" "kinv H F K s'" "k_frame s s'"
    "sched_of s' = spec_ready p (sched_of s)" "current s' = current s"
    "idle_ready i s \<Longrightarrow> idle_ready i s'" "pid (pcbs s p) = 0 \<Longrightarrow> idle_ready p s'"
proof -
  from kinv_schedule [OF k] obtain s' where s': "schedule p s = Inr (STAT_SUCCESS, s')" "kinv H F K s'" "k_frame s s'"
    "pcbs s' = (pcbs s)(p := (pcbs s p)\<lparr>status := PROC_READY\<rparr>)" "current s' = current s"
    "q_view s' = (q_view s)(Ready (unat (level (pcbs s p))) :=
       q_view s (Ready (unat (level (pcbs s p)))) @ [(0, Some (Pcb p))])" by blast
  have "live_pcb (pcbs s p)" by (rule owned_held(6) [OF kinvD(4) [OF k]])
  then have l: "unat (level (pcbs s p)) < MLQ_LEVELS" by (simp add: live_pcb_def)
  have "sched_of s' = spec_ready p (sched_of s)"
    using levels_add [OF l, of "q_view s" "[(0, Some (Pcb p))]"] k_frame_fields(7) [OF s'(3)]
    by (auto simp: sched_of_def sched_at_def spec_ready_def s'(4-6) pcbs_in_def zombie_def fun_eq_iff)
  then show thesis using that s' schedule_idle [OF k s'(1)] by blast
qed

section \<open>The tick\<close>

lemma fold_spec_ready:
  "\<forall>p \<in> set W. sc_level a p < length (sc_ready a) \<Longrightarrow> fold spec_ready W a =
     a\<lparr>sc_ready := map (\<lambda>l. sc_ready a ! l @ filter (\<lambda>p. sc_level a p = l) W) [0..<length (sc_ready a)],
       sc_dead := (\<lambda>i. sc_dead a i \<and> i \<notin> set W)\<rparr>"
proof (induction W arbitrary: a)
  case Nil
  have "map ((!) (sc_ready a)) [0..<length (sc_ready a)] = sc_ready a" by (rule map_nth)
  then show ?case by simp
next
  case (Cons p W)
  let ?b = "spec_ready p a"
  have b: "sc_level ?b = sc_level a" "length (sc_ready ?b) = length (sc_ready a)"
    "sc_ready ?b = (sc_ready a)[sc_level a p := sc_ready a ! sc_level a p @ [p]]"
    "sc_dead ?b = (sc_dead a)(p := False)"
    by (simp_all add: spec_ready_def)
  have "sc_ready ?b ! l @ filter (\<lambda>p. sc_level a p = l) W = sc_ready a ! l @ filter (\<lambda>p. sc_level a p = l) (p # W)"
    if "l < length (sc_ready a)" for l
    using that Cons.prems by (auto simp: b nth_list_update)
  then have r: "map (\<lambda>l. sc_ready ?b ! l @ filter (\<lambda>p. sc_level a p = l) W) [0..<length (sc_ready a)] =
     map (\<lambda>l. sc_ready a ! l @ filter (\<lambda>p. sc_level a p = l) (p # W)) [0..<length (sc_ready a)]"
    by (intro map_cong) auto
  have "fold spec_ready (p # W) a = fold spec_ready W ?b" by simp
  also have "\<dots> = ?b\<lparr>sc_ready := map (\<lambda>l. sc_ready ?b ! l @ filter (\<lambda>p. sc_level ?b p = l) W) [0..<length (sc_ready ?b)],
       sc_dead := (\<lambda>i. sc_dead ?b i \<and> i \<notin> set W)\<rparr>"
    using Cons.prems by (intro Cons.IH) (simp add: b)
  also have "\<dots> = a\<lparr>sc_ready := map (\<lambda>l. sc_ready a ! l @ filter (\<lambda>p. sc_level a p = l) (p # W)) [0..<length (sc_ready a)],
       sc_dead := (\<lambda>i. sc_dead ?b i \<and> i \<notin> set W)\<rparr>"
    unfolding b(1,2) r by (simp add: spec_ready_def)
  also have "(\<lambda>i. sc_dead ?b i \<and> i \<notin> set W) = (\<lambda>i. sc_dead a i \<and> i \<notin> set (p # W))"
    by (auto simp: b fun_eq_iff)
  finally show ?case .
qed

lemma sched_woken:
  assumes k: "kinv H F K s" and w: "woken (due s) s t"
  shows "sched_of t = spec_wake (sched_of s)"
proof -
  let ?a = "sched_of s" and ?due = "takeWhile (\<lambda>e. fst e \<le> system_time s) (q_view s Sleeping)"
  have asleep: "sc_asleep ?a = map (\<lambda>e. (fst e, pcb_of (snd e))) (q_view s Sleeping)"
    by (simp add: sched_of_def sched_at_def)
  then have W: "map snd (takeWhile (\<lambda>e. fst e \<le> system_time s) (sc_asleep ?a)) = due s"
    by (simp add: takeWhile_map due_def comp_def)
  have D: "dropWhile (\<lambda>e. fst e \<le> system_time s) (sc_asleep ?a) =
     map (\<lambda>e. (fst e, pcb_of (snd e))) (drop (length (due s)) (q_view s Sleeping))"
    by (simp add: asleep dropWhile_map comp_def due_def flip: dropWhile_eq_drop)
  have lv: "unat (level (pcbs s p)) < MLQ_LEVELS" if "p \<in> set (due s)" for p
  proof -
    have "p \<in># live (q_view s)" using that due_sleeping in_live [OF sleeping_live] by blast
    then have "live_pcb (pcbs s p)" using kinvD(4) [OF k] by (auto simp: owned_def)
    then show ?thesis by (simp add: live_pcb_def)
  qed
  have n: "length (levels_from 0 v) = MLQ_LEVELS" for v by (simp add: levels_from_def)
  have "spec_wake ?a = ?a\<lparr>sc_asleep := map (\<lambda>e. (fst e, pcb_of (snd e))) (drop (length (due s)) (q_view s Sleeping)),
     sc_ready := map (\<lambda>l. levels_from 0 (q_view s) ! l @ filter (\<lambda>p. unat (level (pcbs s p)) = l) (due s)) [0..<MLQ_LEVELS],
     sc_dead := (\<lambda>i. zombie (pcbs s) i \<and> i \<notin> set (due s))\<rparr>"
    unfolding spec_wake_def sched_of_fields(10) W D using lv by (subst fold_spec_ready) (simp_all add: n)
  also have "map (\<lambda>l. levels_from 0 (q_view s) ! l @ filter (\<lambda>p. unat (level (pcbs s p)) = l) (due s)) [0..<MLQ_LEVELS] =
      levels_from 0 (q_view t)"
    using w by (simp add: levels_from_def woken_def pcbs_in_def at_level_def comp_def cong: map_cong)
  finally show ?thesis
    using w k_frame_fields(7) [of s t]
    by (auto simp: woken_def sched_of_def sched_at_def pcbs_in_def zombie_def fun_eq_iff)
qed

text \<open>The process whose request is served at the time \<open>now\<close>, if there is one.\<close>

definition served_at :: "u32 \<Rightarrow> kstate \<Rightarrow> nat option" where
  "served_at now s =
     (if now mod ramdisk_service s \<noteq> 0 then None
      else case q_view s Ramdisk_io_pending of
        (_, Some (Disk_req dr)) # _ \<Rightarrow>
          if dr_cmd (pending_requests s dr) = DISK_CMD_READ
          then find (\<lambda>p. pending_request (pcbs s p) = Some dr) (pcbs_in (q_view s) Blocked_requests) else None
      | _ \<Rightarrow> None)"

lemma sched_request_done:
  assumes d: "request_done dr p s s'" and w: "pcbs_in (q_view s) Blocked_requests = as @ p # bs" "p \<notin> set as"
    and w': "pcbs_in (q_view s') Blocked_requests = bs @ as" and l: "unat (level (pcbs s p)) < MLQ_LEVELS"
  shows "sched_of s' = spec_serve (Some p) (sched_of s)"
proof -
  let ?l = "unat (level (pcbs s p))"
  note d = d [unfolded request_done_def]
  have "levels_from 0 (q_view s') = levels_from 0 ((q_view s)(Ready ?l := q_view s (Ready ?l) @ [(0, Some (Pcb p))]))"
    using d by (intro levels_from_cong) auto
  then have lv: "levels_from 0 (q_view s') = (levels_from 0 (q_view s))[?l := levels_from 0 (q_view s) ! ?l @ [p]]"
    using levels_add [OF l, of "q_view s" "[(0, Some (Pcb p))]"] by simp
  have "takeWhile (\<lambda>q. q \<noteq> p) (as @ p # bs) = as" "dropWhile (\<lambda>q. q \<noteq> p) (as @ p # bs) = p # bs"
    using w(2) by (simp_all add: takeWhile_tail dropWhile_append3 takeWhile_eq_all_conv dropWhile_append2)
      (auto simp: takeWhile_append dropWhile_append)
  then show ?thesis
    using d w w' lv
    by (auto simp: spec_serve_def spec_ready_def sched_of_def sched_at_def pcbs_in_def zombie_def fun_eq_iff)
qed

lemma find_first: "find P xs = Some x \<Longrightarrow> \<exists>as bs. xs = as @ x # bs \<and> P x \<and> (\<forall>a \<in> set as. \<not> P a)"
proof (induction xs)
  case (Cons y ys)
  show ?case
  proof (cases "P y")
    case True
    then show ?thesis using Cons.prems by (intro exI [of _ "[]"] exI [of _ ys]) simp
  next
    case False
    then obtain as bs where "ys = as @ x # bs" "P x" "\<forall>a \<in> set as. \<not> P a" using Cons by auto
    then show ?thesis using False by (intro exI [of _ "y # as"] exI [of _ bs]) simp
  qed
qed simp

lemma sched_scan:
  assumes k: "kinv H F K s" and w: "pcbs_in (q_view s) Blocked_requests = [] \<or>
      (\<exists>p \<in> set (pcbs_in (q_view s) Blocked_requests). pending_request (pcbs s p) = Some dr)"
  obtains s' where "blocked_scan (N_QNODES + 1) dr s = Inr s'"
    "sched_of s' = spec_serve (find (\<lambda>p. pending_request (pcbs s p) = Some dr) (pcbs_in (q_view s) Blocked_requests)) (sched_of s)"
proof (cases "find (\<lambda>p. pending_request (pcbs s p) = Some dr) (pcbs_in (q_view s) Blocked_requests)")
  case None
  then have "pcbs_in (q_view s) Blocked_requests = []" using w by (auto simp: find_None_iff)
  then show thesis using blocked_scan_empty [OF k, of N_QNODES] None that by (auto simp: spec_serve_def)
next
  case (Some p)
  from find_first [OF Some] obtain as bs where B: "pcbs_in (q_view s) Blocked_requests = as @ p # bs"
    "pending_request (pcbs s p) = Some dr" "\<forall>a \<in> set as. pending_request (pcbs s a) \<noteq> Some dr" by blast
  have "length (pcbs_in (q_view s) Blocked_requests) \<le> n_used (q_view s)" by (simp add: n_used_def live_queues_def pcbs_in_def)
  then have "length as < N_QNODES + 1" using kinvD(6) [OF k] B(1) by simp
  from blocked_scan_ok [OF k B(1,3,2) this] obtain s' where
    s': "blocked_scan (N_QNODES + 1) dr s = Inr s'" "pcbs_in (q_view s') Blocked_requests = bs @ as" "request_done dr p s s'" by blast
  have "p \<in># live (q_view s)" using in_live [OF blocked_live, of p "q_view s"] B(1) by simp
  then have "live_pcb (pcbs s p)" using kinvD(4) [OF k] by (auto simp: owned_def)
  then have l: "unat (level (pcbs s p)) < MLQ_LEVELS" by (simp add: live_pcb_def)
  have "p \<notin> set as" using B(2,3) by blast
  from sched_request_done [OF s'(3) B(1) this s'(2) l] s'(1) Some show thesis by (intro that) simp_all
qed

lemma sched_serve_request:
  assumes k: "kinv H F K s" and ok: "request_ok dr s"
  obtains s' where "serve_request dr s = Inr s'"
    "sched_of s' = spec_serve (if dr_cmd (pending_requests s dr) = DISK_CMD_READ
       then find (\<lambda>p. pending_request (pcbs s p) = Some dr) (pcbs_in (q_view s) Blocked_requests) else None) (sched_of s)"
proof -
  let ?r = "pending_requests s dr"
  have sr: "sched_of (set_request dr f t) = sched_of t" "sched_of (c_puts m t) = sched_of t" for f m and t :: kstate
    by (rule sched_of_same, simp, simp add: set_request_def) (rule sched_of_same, simp, simp add: c_puts_def)
  consider "dr_cmd ?r = DISK_CMD_READ" | "dr_cmd ?r = DISK_CMD_WRITE"
    | "dr_cmd ?r \<noteq> DISK_CMD_READ" "dr_cmd ?r \<noteq> DISK_CMD_WRITE" by blast
  then show thesis
  proof cases
    case 1
    with ok have d: "on_disk (dr_lba ?r) (dr_nblocks ?r)"
      and w: "pcbs_in (q_view s) Blocked_requests = [] \<or>
        (\<exists>p \<in> set (pcbs_in (q_view s) Blocked_requests). pending_request (pcbs s p) = Some dr)"
      by (simp_all add: request_ok_def Let_def)
    from rd_read_ok [OF d, of "dr_buffer ?r" s] obtain n t where
      t: "rd_read (dr_lba ?r) (dr_nblocks ?r) (dr_buffer ?r) s = Inr (n, t)" "t = s\<lparr>mem := mem t\<rparr>" by blast
    have same: "same_procs s t" using same_mem_update [OF t(2)] by blast
    note c = same_procs_cong [OF same]
    have now: "system_time t = system_time s" by (subst t(2)) simp
    have kt: "kinv H F K t" using k by (simp add: c)
    from w have "pcbs_in (q_view t) Blocked_requests = [] \<or>
        (\<exists>p \<in> set (pcbs_in (q_view t) Blocked_requests). pending_request (pcbs t p) = Some dr)" by (simp only: c)
    from sched_scan [OF kt this] obtain u where
      u: "blocked_scan (N_QNODES + 1) dr t = Inr u"
        "sched_of u = spec_serve (find (\<lambda>p. pending_request (pcbs s p) = Some dr) (pcbs_in (q_view s) Blocked_requests)) (sched_of s)"
      unfolding c sched_of_same [OF same now] .
    have "\<exists>z. serve_request dr s = Inr z \<and> sched_of z = sched_of u"
      using 1 t(1) u(1) by (auto simp: serve_request_def Let_def sr)
    with u(2) 1 that show thesis by auto
  next
    case 2
    with ok have d: "on_disk (dr_lba ?r) (dr_nblocks ?r)" by (simp add: request_ok_def Let_def)
    from rd_write_ok [OF d, of "dr_buffer ?r" s] obtain n t where
      t: "rd_write (dr_lba ?r) (dr_nblocks ?r) (dr_buffer ?r) s = Inr (n, t)" "t = s\<lparr>ramdisk := ramdisk t\<rparr>" by blast
    have "same_procs s t" using same_ramdisk_update [OF t(2)] by blast
    moreover have "system_time t = system_time s" by (subst t(2)) simp
    ultimately have "sched_of t = sched_of s" by (rule sched_of_same)
    with 2 t(1) that show thesis by (simp add: serve_request_def Let_def spec_serve_def sr)
  next
    case 3
    with that show thesis by (simp add: serve_request_def Let_def spec_serve_def sr)
  qed
qed

lemma sched_serve:
  assumes k: "kinv H F K s" and ok: "service_ok (system_time s) s"
  obtains s' where "serve_ramdisk s = Inr s'" "sched_of s' = spec_serve (served_at (system_time s) s) (sched_of s)"
proof (cases "system_time s mod ramdisk_service s = 0")
  case False
  then show thesis using that by (simp add: serve_ramdisk_def served_at_def spec_serve_def)
next
  case True
  let ?q = "Ramdisk_io_pending"
  have q: "?q \<in> set other_queues" by (simp add: other_queues_def)
  show thesis
  proof (cases "q_view s ?q")
    case Nil
    then show thesis
      using True q_remove_empty [OF kinvD(1) [OF k] Nil] that
      by (simp add: serve_ramdisk_def served_at_def spec_serve_def)
  next
    case (Cons e es)
    then obtain ky dr where v: "q_view s ?q = (ky, Some (Disk_req dr)) # es"
      using kinvD(3) [OF k] by (cases e) (fastforce simp: typed_view_def)
    with ok True have r: "request_ok dr s" by (simp add: service_ok_def)
    from kinv_other_remove [OF k q v] obtain t where
      t: "q_remove ?q s = (Some (Disk_req dr), t)" "kinv H F K t" "q_frame s t" "q_view t = (q_view s)(?q := es)" by blast
    note f = q_frame_fields [OF t(3)]
    have rt: "request_ok dr t" using r by (simp add: request_ok_def f t(4))
    have B: "pcbs_in (q_view t) Blocked_requests = pcbs_in (q_view s) Blocked_requests" by (simp add: t(4) pcbs_in_def)
    have at: "sched_of t = sched_of s"
      using k_frame_time [OF q_frame_k_frame [OF t(3)]]
      by (simp add: sched_of_def sched_at_def t(4) f pcbs_in_def levels_other)
    have sa: "served_at (system_time s) s = (if dr_cmd (pending_requests t dr) = DISK_CMD_READ
       then find (\<lambda>p. pending_request (pcbs t p) = Some dr) (pcbs_in (q_view t) Blocked_requests) else None)"
      using True v by (simp add: served_at_def f B)
    from sched_serve_request [OF t(2) rt] obtain u where "serve_request dr t = Inr u"
      "sched_of u = spec_serve (served_at (system_time s) s) (sched_of s)"
      unfolding sa [symmetric] at .
    then show thesis using True t(1) that by (simp add: serve_ramdisk_def)
  qed
qed

text \<open>The tick refines its specification.\<close>

lemma sched_tick:
  assumes ok: "kernel_ok i s" and sv: "service_ok (system_time s + 1) s"
  shows "\<exists>s'. isr_clock s = Inr s' \<and>
     spec (E_tick (served_at (system_time s + 1) s)) (sched_of s) = Some (sched_of s')"
proof -
  from ok obtain c where r: "running c s" and i: "idle_ok i s" and e: "env_ok s" by (auto simp: kernel_ok_def)
  let ?t = "ticked s"
  note tc = same_procs_cong [OF ticked_same(1) [of s]]
  have at: "sched_of ?t = (sched_of s)\<lparr>sc_now := system_time s + 1\<rparr>"
    by (simp add: sched_of_def sched_at_def tc ticked_same)
  have kt: "kinv [c] [] [] ?t" using runningD(2) [OF r] by (simp add: tc)
  from wake_loop_ok [OF kt due_fuel [OF kt]] obtain u where
    u: "wake_loop (N_QNODES + 1) ?t = Inr u" "kinv [c] [] [] u" "woken (due ?t) ?t u"
      "idle_ready i ?t \<longrightarrow> idle_ready i u" by blast
  note wf = woken_frame [OF u(3)]
  have au: "sched_of u = spec_wake ((sched_of s)\<lparr>sc_now := sc_now (sched_of s) + 1\<rparr>)"
    using sched_woken [OF kt u(3)] by (simp add: at)
  have cu: "current u = Some c" using u(3) runningD(1) [OF r] by (simp add: woken_def tc)
  have sv': "service_ok (system_time u) u"
    using sv unfolding service_ok_def request_ok_def wf ticked_same tc
    by (auto split: list.splits option.splits obj.splits)
  have "served_at (system_time u) u = served_at (system_time s + 1) s"
    unfolding served_at_def wf ticked_same tc ..
  with sched_serve [OF u(2) sv'] obtain v where
    v: "serve_ramdisk u = Inr v" "sched_of v = spec_serve (served_at (system_time s + 1) s) (sched_of u)" by metis
  from serve_ramdisk_served [OF u(2) sv'] v(1) have sd: "served [c] [] [] i u v" by auto
  have cv: "current v = Some c" "kinv [c] [] [] v" using sd cu by (simp_all add: served_def)
  have "pcbs v c = pcbs s c" using sd wf(8) due_not_held [OF kt] by (simp add: served_def tc)
  then have iv: "idle_ok i v"
    using i u(4) sd cv(1) runningD(1) [OF r] by (auto simp: idle_ok_def served_def tc)
  have run: "isr_clock s = bindE (use_quantum v) (\<lambda>s. Inr (outb PIC_MASTER_CMD_PORT PIC_EOI s))"
    using u(1) v(1) by (simp add: isr_clock_def Let_def ticked_def)
  have ao: "sched_of (outb PIC_MASTER_CMD_PORT PIC_EOI x) = sched_of x" for x
    by (rule sched_of_same, simp, simp add: outb_def)
  have sp: "spec (E_tick (served_at (system_time s + 1) s)) (sched_of s) =
    (if quantum (pcbs v c) = 0 then spec_dispatch (spec_ready c (sched_of v))
     else Some ((sched_of v)\<lparr>sc_left := (sc_left (sched_of v))(c := quantum (pcbs v c) - 1)\<rparr>))"
    unfolding spec.simps spec_tick_def au [symmetric] v(2) [symmetric]
    by (simp add: running_do_def cv(1))
  show ?thesis
  proof (cases "quantum (pcbs v c) = 0")
    case False
    let ?x = "set_pcb c (\<lambda>p. p\<lparr>quantum := quantum p - 1\<rparr>) v"
    have "sched_of ?x = (sched_of v)\<lparr>sc_left := (sc_left (sched_of v))(c := quantum (pcbs v c) - 1)\<rparr>"
    proof -
      have "system_time ?x = system_time v" by (simp add: set_pcb_def)
      then show ?thesis by (auto simp: sched_of_def sched_at_def zombie_def fun_eq_iff)
    qed
    then show ?thesis using False sp run cv(1) by (simp add: use_quantum_def ao)
  next
    case True
    from sched_schedule [OF cv(2), of i] obtain w where w: "schedule c v = Inr (STAT_SUCCESS, w)" "kinv [] [] [] w"
      "sched_of w = spec_ready c (sched_of v)" "idle_ready i v \<Longrightarrow> idle_ready i w"
      "pid (pcbs v c) = 0 \<Longrightarrow> idle_ready c w" by metis
    have "idle_ready i w" using iv w(4,5) cv(1) by (auto simp: idle_ok_def)
    from sched_dispatch [OF w(2) this] obtain s' where "dispatch w = Inr s'" "spec_dispatch (sched_of w) = Some (sched_of s')"
      by blast
    then show ?thesis using True sp run cv(1) w(1,3) by (simp add: use_quantum_def ao)
  qed
qed

end
