(* ===== verification/Sched_Calls.thy ===== *)
theory Sched_Calls
  imports Sched_Spec
begin

text \<open>
  The system calls and the serial interrupt refine the scheduler's specification: which event a
  call is, and that most calls are none.
\<close>

section \<open>Calls that the scheduler does not see\<close>

lemma sched_of_basic [simp]:
  "sched_of (ctx_set c w v s) = sched_of s" "sched_of (c_printf f vs s) = sched_of s"
  "sched_of (outb p x s) = sched_of s" "sched_of (st8 a b s) = sched_of s" "sched_of (st16 a h s) = sched_of s"
  "sched_of (st32 a u s) = sched_of s" "sched_of (s\<lparr>current_shms := a\<rparr>) = sched_of s"
  "sched_of (s\<lparr>next_shm := n\<rparr>) = sched_of s" "sched_of (s\<lparr>free_ptr := a\<rparr>) = sched_of s"
  "sched_of (s\<lparr>inq := vs\<rparr>) = sched_of s"
  by (rule sched_of_same;
      simp add: same_procs_def ctx_set_def c_printf_def outb_def st8_def st16_def st32_def)+

lemma sched_store16: "sched_of (store16 a vs s) = sched_of s"
  by (induction vs arbitrary: a s) simp_all

lemma sched_strcpy: "strcpy fuel d a s = Inr (r, s') \<Longrightarrow> sched_of s' = sched_of s"
proof (induction fuel d a s rule: strcpy.induct)
  case (2 fuel d a s)
  then show ?case by (auto simp: Let_def split: if_splits)
qed simp

lemma sched_sio_put:
  "(if sending t then
      if outlast t < BUF_SIZE then
        let t = t\<lparr>outbuffer := (outbuffer t)(outlast t := ucast ch)\<rparr>; t = t\<lparr>outlast := outlast t + 1\<rparr>
        in Inr (t\<lparr>outcount := outcount t + 1\<rparr>)
      else Inl (Overrun ''outbuffer'')
    else let t = t\<lparr>sending := True\<rparr> in Inr (outb UA4_TXD ch t)) = Inr s' \<Longrightarrow> sched_of s' = sched_of t"
  by (rule sched_of_same; auto simp: Let_def same_procs_def outb_def split: if_splits)

lemma sched_sio_write: "sio_write ch s = Inr s' \<Longrightarrow> sched_of s' = sched_of s"
proof (induction ch s arbitrary: s' rule: sio_write.induct)
  case (1 ch s)
  then obtain t where t: "(if ch = 10 then sio_write 13 s else Inr s) = Inr t"
    and put: "(if sending t then
      if outlast t < BUF_SIZE then
        let t = t\<lparr>outbuffer := (outbuffer t)(outlast t := ucast ch)\<rparr>; t = t\<lparr>outlast := outlast t + 1\<rparr>
        in Inr (t\<lparr>outcount := outcount t + 1\<rparr>)
      else Inl (Overrun ''outbuffer'')
    else let t = t\<lparr>sending := True\<rparr> in Inr (outb UA4_TXD ch t)) = Inr s'"
    by (subst (asm) (2) sio_write.simps) (auto elim!: bindE_InrE)
  have "sched_of t = sched_of s" using t 1(1) by (auto split: if_splits)
  with sched_sio_put [OF put] show ?case by simp
qed

text \<open>A change of the queue of free segments alone.\<close>

lemma sched_shm_queue:
  assumes "pcbs s' = pcbs s" "current s' = current s" "\<And>q. q \<noteq> Free_shms \<Longrightarrow> q_view s' q = q_view s q"
    and "system_time s' = system_time s"
  shows "sched_of s' = sched_of s"
proof -
  have "levels_from 0 (q_view s') = levels_from 0 (q_view s)" by (rule levels_from_cong) (simp add: assms(3))
  then show ?thesis using assms by (simp add: sched_of_def sched_at_def pcbs_in_def)
qed

lemma sched_shm_alloc:
  assumes k: "kinv H F K s" and a: "shm_alloc s = Inr (a, s')"
  shows "sched_of s' = sched_of s"
proof -
  from kinv_shm_alloc [OF k] a have "pcbs s' = pcbs s" "current s' = current s"
    "\<And>q. q \<noteq> Free_shms \<Longrightarrow> q_view s' q = q_view s q" by auto
  moreover have "system_time s' = system_time s"
    using a by (auto simp: shm_alloc_def set_shm_status_def q_remove_def Let_def qn_dealloc_def
        st8_def set_queue_def set_qnode_def bindE_eq_Inr split: option.splits if_splits prod.splits)
  ultimately show ?thesis by (rule sched_shm_queue)
qed

lemma sched_shm_dealloc:
  assumes k: "kinv H F K s" and n: "n_other (q_view s) < OTHER_MAX" and a: "shm_dealloc a s = Inr (r, s')"
  shows "sched_of s' = sched_of s" "r = STAT_SUCCESS"
proof -
  from kinv_shm_dealloc [OF k n, of a] a have p: "pcbs s' = pcbs s" "current s' = current s" "r = STAT_SUCCESS"
    "\<And>q. q \<noteq> Free_shms \<Longrightarrow> q_view s' q = q_view s q" by auto
  show "r = STAT_SUCCESS" by (rule p(3))
  let ?t = "st8 (a + 22) 0 s"
  have h: "q_key ?t Free_shms (Some (Shm a)) = Inr 0"
    using kinvD(2) [OF k] by (simp add: q_key_def hashes_ok_def)
  have "q_wf ?t" "n_free ?t \<noteq> 0" using kinvD(1) [OF k] kinv_room [OF k] by simp_all
  from q_insert_ok [OF this h] a have "q_frame ?t s'" by (auto simp: shm_dealloc_def set_shm_status_def)
  then have "system_time s' = system_time s" using k_frame_time [OF q_frame_k_frame] by (simp add: st8_def)
  then show "sched_of s' = sched_of s" using p by (intro sched_shm_queue)
qed

text \<open>The calls that change neither who runs nor who waits.\<close>

definition quiet_calls :: "sys_fcn set" where
  "quiet_calls = {Sys_write, Sys_time, Sys_getpid, Sys_getppid, Sys_getpidlist, Sys_shmget, Sys_shmat, Sys_shmwrite,
     Sys_shmread, Sys_shmdt, Sys_shmrm}"

lemma sched_shmget:
  assumes "kernel_ok i s" "sys_shmget lk c s = Inr s'"
  shows "sched_of s' = sched_of s"
proof -
  from assms(1) obtain cur where "running cur s" by (auto simp: kernel_ok_def)
  note k = runningD(2) [OF this]
  from assms(2) obtain a t where t: "shm_alloc s = Inr (a, t)" by (auto simp: sys_shmget_def elim!: bindE_InrE)
  have "sched_of s' = sched_of t"
    using assms(2) unfolding sys_shmget_def t bindE_simps
    by (auto simp: Let_def shm_malloc_def shm_field_defs upt_rec eval_nat_numeral split: if_splits)
  then show ?thesis using sched_shm_alloc [OF k t] by simp
qed

lemma quiet_call:
  assumes ok: "kernel_ok i s" and g: "call_ok i f c s" and f: "f \<in> quiet_calls" and s': "call_sys lk f c s = Inr s'"
  shows "sched_of s' = sched_of s"
proof -
  from ok obtain cur where r: "running cur s" by (auto simp: kernel_ok_def)
  note k = runningD(2) [OF r] and cur = runningD(1) [OF r]
  consider "f = Sys_shmget" | "f = Sys_shmrm" | "f = Sys_write" | "f \<in> {Sys_shmwrite, Sys_shmread}"
    | "f \<in> {Sys_time, Sys_getpid, Sys_getppid, Sys_getpidlist, Sys_shmat, Sys_shmdt}"
    using f by (auto simp: quiet_calls_def)
  then show ?thesis
  proof cases
    case 1
    then show ?thesis using sched_shmget [OF ok] s' by simp
  next
    case 2
    then have n: "n_other (q_view s) < OTHER_MAX" using g by (simp add: call_ok_def)
    from s' 2 obtain x t where x: "shm_dealloc (sys_arg c 0 s) s = Inr (x, t)"
      by (auto simp: sys_shmrm_def Let_def kpanic_def split: if_splits elim!: bindE_InrE)
    note d = sched_shm_dealloc [OF k n x]
    show ?thesis using s' 2 d by (auto simp: sys_shmrm_def Let_def kpanic_def x split: if_splits)
  next
    case 3
    then show ?thesis using s' by (auto simp: sys_write_def Let_def dest: sched_sio_write)
  next
    case 4
    then show ?thesis using s' cur
      by (auto simp: sys_shmwrite_def sys_shmread_def Let_def bindE_eq_Inr split: if_splits dest!: sched_strcpy)
  next
    case 5
    then show ?thesis using s' cur
      by (auto simp: sys_time_def sys_getpid_def sys_getppid_def sys_getpidlist_eq sched_store16 sys_shmat_def sys_shmdt_def
          shm_field_defs Let_def kpanic_def split: if_splits)
  qed
qed

section \<open>Calls that the scheduler sees\<close>

definition kill_event :: "context_ptr \<Rightarrow> kstate \<Rightarrow> sched_event" where
  "kill_event c s =
     (let p = ucast (sys_arg c 0 (ctx_set c CTX_EAX (-1) s)) :: u16 in
      if p = 0 then E_quiet
      else if Some p = map_option (\<lambda>cur. pid (pcbs s cur)) (current s) then E_exit
      else case kill_target p s of None \<Rightarrow> E_quiet | Some j \<Rightarrow> E_kill j)"

definition call_event :: "linkage \<Rightarrow> sys_fcn \<Rightarrow> context_ptr \<Rightarrow> kstate \<Rightarrow> sched_event" where
  "call_event lk f c s =
     (case f of
        Sys_spawn \<Rightarrow> E_spawn (unat LEVEL_DEFAULT)
      | Sys_spawnl \<Rightarrow> E_spawn (unat (ucast (sys_arg c 1 s) :: u8))
      | Sys_sleep \<Rightarrow>
          (let n = ucast (sys_arg c 0 s) :: u16
           in if n = 0 then E_yield else E_sleep (system_time s + ucast n * timer_ticks_per_second lk))
      | Sys_exit \<Rightarrow> E_exit
      | Sys_kill \<Rightarrow> kill_event c s
      | Sys_read \<Rightarrow> if in_data s = [] then E_wait else E_quiet
      | _ \<Rightarrow> E_quiet)"

lemma sched_of_set_pcb:
  "sched_of (set_pcb p f s) = (sched_of s)
     \<lparr>sc_dead := (zombie (pcbs s))(p := status (f (pcbs s p)) = PROC_ZOMBIE),
      sc_level := (\<lambda>i. unat (level (pcbs s i)))(p := unat (level (f (pcbs s p)))),
      sc_left := (\<lambda>i. quantum (pcbs s i))(p := quantum (f (pcbs s p)))\<rparr>"
proof -
  have "system_time (set_pcb p f s) = system_time s" by (simp add: set_pcb_def)
  then show ?thesis by (auto simp: sched_of_def sched_at_def zombie_def fun_eq_iff)
qed

lemma sched_exit:
  assumes r: "running c s" and i: "idle_ready i s"
  shows "\<exists>s'. bindE (cleanup (current s) s) dispatch = Inr s' \<and> spec E_exit (sched_of s) = Some (sched_of s')"
proof -
  note d = runningD [OF r]
  from kinv_cleanup [OF d(2)] obtain st t where t: "cleanup (Some c) s = Inr t"
    "kinv [] [] [] t" "k_frame s t" "pcbs t = (pcbs s)(c := (pcbs s c)\<lparr>status := PROC_FREE\<rparr>)" "current t = current s"
    "q_view t = (q_view s)(Free_stacks := q_view s Free_stacks @ [(0, Some (Stack st))],
       Free_pcbs := q_view s Free_pcbs @ [(0, Some (Pcb c))])" by blast
  have rs: "ready_seq (q_view t) = ready_seq (q_view s)" by (rule ready_from_cong) (simp add: t(6))
  have "idle_ready i t" using i d(5) by (auto simp: idle_ready_def rs t(4))
  from sched_dispatch [OF t(2) this] obtain s' where s': "dispatch t = Inr s'" "spec_dispatch (sched_of t) = Some (sched_of s')"
    by blast
  have "sched_of t = (sched_of s)\<lparr>sc_free := sc_free (sched_of s) @ [c], sc_stacks := sc_stacks (sched_of s) + 1,
     sc_dead := (sc_dead (sched_of s))(c := False)\<rparr>"
    using k_frame_time [OF t(3)] d(1)
    by (auto simp: sched_of_def sched_at_def t(4-6) pcbs_in_def levels_other zombie_def fun_eq_iff)
  then show ?thesis using s' t(1) d(1) by (simp add: running_do_def)
qed

text \<open>The running process goes into the queue of the sleepers or of the readers.\<close>

lemma sched_block:
  assumes r: "running c s" and i: "idle_ready i s" and q: "q \<in> {Sleeping, Reading}"
    and f: "stack (f (pcbs s c)) = stack (pcbs s c)" "live_pcb (f (pcbs s c))" "level (f (pcbs s c)) = level (pcbs s c)"
      "quantum (f (pcbs s c)) = quantum (pcbs s c)" "status (f (pcbs s c)) \<noteq> PROC_ZOMBIE"
  obtains u s' where "q_insert q (Some (Pcb c)) (set_pcb c f s) = Inr (STAT_SUCCESS, u)" "dispatch u = Inr s'"
    "spec_dispatch (if q = Sleeping
       then (sched_of s)\<lparr>sc_asleep := insert_by fst (wakeup (f (pcbs s c)), c) (sc_asleep (sched_of s)),
         sc_dead := (zombie (pcbs s))(c := False)\<rparr>
       else (sched_of s)\<lparr>sc_reading := pcbs_in (q_view s) Reading @ [c], sc_dead := (zombie (pcbs s))(c := False)\<rparr>) =
     Some (sched_of s')"
proof -
  note d = runningD [OF r]
  let ?t = "set_pcb c f s"
  have k: "kinv [c] [] [] ?t" using d(2) f(1,2) by (rule kinv_set_held)
  have ql: "q \<in> set live_queues" and qr: "q \<noteq> Ready l" for l using q by (auto simp: live_queues_def)
  from kinv_put [OF k ql] qr obtain u where
    u: "q_insert q (Some (Pcb c)) ?t = Inr (STAT_SUCCESS, u)" "kinv [] [] [] u" "q_frame ?t u"
      "q_view u = (q_view s)(q := q_place (q = Sleeping)
       (if q = Sleeping then wakeup (f (pcbs s c)) else 0, Some (Pcb c)) (q_view s q))" by auto
  note fu = q_frame_fields [OF u(3)]
  have rs: "ready_seq (q_view u) = ready_seq (q_view s)"
    by (rule ready_from_cong) (use qr in \<open>auto simp: u(4)\<close>)
  have "idle_ready i u" using i d(5) by (auto simp: idle_ready_def rs fu)
  from sched_dispatch [OF u(2) this] obtain s' where s': "dispatch u = Inr s'" "spec_dispatch (sched_of u) = Some (sched_of s')"
    by blast
  have ins: "map (\<lambda>e. (fst e, pcb_of (snd e))) (insert_by fst (w, Some (Pcb c)) es) =
      insert_by fst (w, c) (map (\<lambda>e. (fst e, pcb_of (snd e))) es)" for w and es :: "(u32 \<times> obj option) list"
    by (induction es) auto
  have lv: "levels_from 0 (q_view u) = levels_from 0 (q_view s)"
    by (rule levels_from_cong) (use qr in \<open>auto simp: u(4)\<close>)
  have now: "system_time u = system_time s" using k_frame_time [OF q_frame_k_frame [OF u(3)]] by (simp add: set_pcb_def)
  have "sched_of u = (if q = Sleeping
       then (sched_of s)\<lparr>sc_asleep := insert_by fst (wakeup (f (pcbs s c)), c) (sc_asleep (sched_of s)),
         sc_dead := (zombie (pcbs s))(c := False)\<rparr>
       else (sched_of s)\<lparr>sc_reading := pcbs_in (q_view s) Reading @ [c], sc_dead := (zombie (pcbs s))(c := False)\<rparr>)"
    using q f(3-5) lv now
    by (auto simp: sched_of_def sched_at_def fu u(4) q_place_def ins pcbs_in_def zombie_def fun_eq_iff)
  with s' u(1) that show thesis by simp
qed

lemma sched_yield:
  assumes r: "running c s" and i: "idle_ok i s"
  obtains t s' where "schedule c s = Inr (STAT_SUCCESS, t)" "dispatch t = Inr s'" "spec E_yield (sched_of s) = Some (sched_of s')"
proof -
  note d = runningD [OF r]
  from sched_schedule [OF d(2), of i] obtain t where t: "schedule c s = Inr (STAT_SUCCESS, t)" "kinv [] [] [] t"
    "sched_of t = spec_ready c (sched_of s)" "idle_ready i s \<Longrightarrow> idle_ready i t" "pid (pcbs s c) = 0 \<Longrightarrow> idle_ready c t" by metis
  have "idle_ready i t" using i t(4,5) d(1) by (auto simp: idle_ok_def)
  from sched_dispatch [OF t(2) this] obtain s' where "dispatch t = Inr s'" "spec_dispatch (sched_of t) = Some (sched_of s')"
    by blast
  then show thesis using that t(1,3) d(1) by (simp add: running_do_def)
qed

section \<open>Spawning\<close>

lemma level_below: "kinv (p # H) F K s \<Longrightarrow> unat (level (pcbs s p)) < MLQ_LEVELS"
  using owned_held(6) [OF kinvD(4), of p H F K s] by (simp add: live_pcb_def)

lemma spec_dispatch_runs: "spec_dispatch (a\<lparr>sc_runs := r\<rparr>) = spec_dispatch a"
  by (auto simp: spec_dispatch_def split: prod.splits option.splits)

text \<open>The state in which the new process, or a lost one, has been made, as the specification has it.\<close>

lemma sched_spawned:
  assumes r: "running c s" and j: "pcbs_in (q_view s) Free_pcbs = j # js" and ne: "j \<noteq> c"
    and st: "q_view s Free_stacks \<noteq> []" and now: "system_time t = system_time s"
    and p: "pcbs t = (pcbs s)(j := (new_pcb stk (next_pid s) lvl)\<lparr>ppid := x, status := y\<rparr>,
        c := (pcbs s c)\<lparr>status := PROC_READY\<rparr>)" and y: "y \<noteq> PROC_ZOMBIE"
    and v: "q_view t = enq (Ready (unat (level (pcbs s c)))) c ((if unat lvl < MLQ_LEVELS then enq (Ready (unat lvl)) j else id)
       (deq Free_stacks (deq Free_pcbs (q_view s))))"
  shows "spec (E_spawn (unat lvl)) (sched_of s) = spec_dispatch (sched_of t)"
proof -
  have lc: "unat (level (pcbs s c)) < MLQ_LEVELS" by (rule level_below [OF runningD(2) [OF r]])
  have n: "length (levels_from 0 v) = MLQ_LEVELS" for v by (simp add: levels_from_def)
  let ?v = "deq Free_stacks (deq Free_pcbs (q_view s))"
  have v0: "levels_from 0 ?v = levels_from 0 (q_view s)" by (rule levels_from_cong) (simp add: deq_def)
  have enq: "levels_from 0 (enq (Ready l) p v) = (levels_from 0 v)[l := levels_from 0 v ! l @ [p]]" if "l < MLQ_LEVELS" for l p v
    using levels_add [OF that, of v "[(0, Some (Pcb p))]"] by (simp add: enq_def)
  define a where "a = (sched_of s)\<lparr>sc_free := js, sc_stacks := length (q_view s Free_stacks) - 1,
     sc_dead := (sc_dead (sched_of s))(j := False), sc_level := (sc_level (sched_of s))(j := unat lvl),
     sc_left := (sc_left (sched_of s))(j := 0)\<rparr>"
  have "spec (E_spawn (unat lvl)) (sched_of s) =
    spec_dispatch (spec_ready c (if unat lvl < MLQ_LEVELS then spec_ready j a else a))"
    using runningD(1) [OF r] st by (simp add: running_do_def spec_spawn_def j a_def)
  also have "spec_ready c (if unat lvl < MLQ_LEVELS then spec_ready j a else a) = (sched_of t)\<lparr>sc_runs := current s\<rparr>"
  proof (rule sched.equality)
    show "sc_ready (spec_ready c (if unat lvl < MLQ_LEVELS then spec_ready j a else a)) = sc_ready ((sched_of t)\<lparr>sc_runs := current s\<rparr>)"
      using lc ne by (simp add: spec_ready_def a_def v enq v0 n)
    show "sc_free (spec_ready c (if unat lvl < MLQ_LEVELS then spec_ready j a else a)) = sc_free ((sched_of t)\<lparr>sc_runs := current s\<rparr>)"
      using j by (simp add: spec_ready_def a_def v enq_def deq_def pcbs_in_def map_tl)
  qed (use y ne now in \<open>auto simp: spec_ready_def a_def sched_of_def sched_at_def v enq_def deq_def pcbs_in_def p
        zombie_def new_pcb_def zero_pcb_def fun_eq_iff\<close>)
  finally show ?thesis by (simp add: spec_dispatch_runs)
qed

lemma sched_spawn:
  assumes ok: "kernel_ok i s"
  shows "\<exists>s'. spawn lk c fcn lvl s = Inr s' \<and> spec (E_spawn (unat lvl)) (sched_of s) = Some (sched_of s')"
proof -
  from ok obtain cur where r: "running cur s" and io: "idle_ok i s" "env_ok s" by (auto simp: kernel_ok_def)
  note cur = runningD(1) [OF r]
  show ?thesis
  proof (cases "pcbs_in (q_view s) Free_pcbs")
    case Nil
    then show ?thesis using spawn_no_pcb [OF r Nil] cur by (simp add: running_do_def spec_spawn_def)
  next
    case j: (Cons j js)
    from kinv_pcb_alloc [OF runningD(2) [OF r] j] obtain s1 where "kinv [cur] [j] [] s1" by blast
    then have ne: "j \<noteq> cur" by (rule kinv_fresh_ne)
    show ?thesis
    proof (cases "stacks_in (q_view s)")
      case Nil
      from spawn_no_stack [OF r io j this] obtain t where
        t: "spawn lk c fcn lvl s = Inr (ctx_set c CTX_EAX (-1) t)" "pcbs_in (q_view t) Free_pcbs = js @ [j]"
          "current t = Some cur" "system_time t = system_time s" "pcbs t j = (pcbs s j)\<lparr>status := PROC_FREE\<rparr>"
          "\<And>k. k \<noteq> j \<Longrightarrow> pcbs t k = pcbs s k" "\<And>q. q \<noteq> Free_pcbs \<Longrightarrow> q_view t q = q_view s q" by metis
      have lv: "levels_from 0 (q_view t) = levels_from 0 (q_view s)" by (rule levels_from_cong) (simp add: t(7))
      have p: "pcbs t = (pcbs s)(j := (pcbs s j)\<lparr>status := PROC_FREE\<rparr>)" using t(5,6) by auto
      have "sched_of t = (sched_of s)\<lparr>sc_free := js @ [j], sc_dead := (sc_dead (sched_of s))(j := False)\<rparr>"
        using t(2-4,7) cur lv by (auto simp: sched_of_def sched_at_def p pcbs_in_def zombie_def fun_eq_iff)
      moreover have "q_view s Free_stacks = []" using Nil by (simp add: stacks_in_def)
      ultimately show ?thesis using t(1) j cur by (simp add: running_do_def spec_spawn_def)
    next
      case st: (Cons stk sts)
      then have free: "q_view s Free_stacks \<noteq> []" by (auto simp: stacks_in_def)
      show ?thesis
      proof (cases "unat lvl < MLQ_LEVELS")
        case True
        from spawn_until_dispatch [OF r io j st True, of lk c fcn] obtain t where
          t: "spawn lk c fcn lvl s = dispatch t" "kinv [] [] [] t" "idle_ready i t" "system_time t = system_time s"
            "pcbs t = (pcbs s)
              (j := (new_pcb stk (next_pid s) lvl)\<lparr>ppid := pid (pcbs s cur), status := PROC_READY\<rparr>,
               cur := (pcbs s cur)\<lparr>status := PROC_READY\<rparr>)"
            "q_view t = enq (Ready (unat (level (pcbs s cur)))) cur (enq (Ready (unat lvl)) j
              (deq Free_stacks (deq Free_pcbs (q_view s))))" by metis
        have "spec (E_spawn (unat lvl)) (sched_of s) = spec_dispatch (sched_of t)"
          by (rule sched_spawned [OF r j ne free t(4,5)]) (use True t(6) in simp_all)
        with sched_dispatch [OF t(2,3)] t(1) show ?thesis by metis
      next
        case False
        then have "MLQ_LEVELS \<le> unat lvl" by simp
        from spawn_until_dispatch_bad_level [OF r io j st this, of lk c fcn] obtain t where
          t: "spawn lk c fcn lvl s = dispatch t" "kinv [] [j] [stk] t" "idle_ready i t" "system_time t = system_time s"
            "pcbs t = (pcbs s)(j := (new_pcb stk (next_pid s) lvl)\<lparr>ppid := pid (pcbs s cur)\<rparr>,
               cur := (pcbs s cur)\<lparr>status := PROC_READY\<rparr>)"
            "q_view t = enq (Ready (unat (level (pcbs s cur)))) cur
              (deq Free_stacks (deq Free_pcbs (q_view s)))" by metis
        have "spec (E_spawn (unat lvl)) (sched_of s) = spec_dispatch (sched_of t)"
          by (rule sched_spawned [OF r j ne free t(4), where y = "status (new_pcb stk (next_pid s) lvl)"])
            (use False t(5,6) in \<open>simp_all add: new_pcb_def zero_pcb_def\<close>)
        with sched_dispatch [OF kinv_drop_fresh [OF t(2)] t(3)] t(1) show ?thesis by metis
      qed
    qed
  qed
qed

section \<open>Ending and waiting\<close>

lemma sched_kill:
  assumes ok: "kernel_ok i s"
  shows "\<exists>s'. sys_kill c s = Inr s' \<and> spec (kill_event c s) (sched_of s) = Some (sched_of s')"
proof -
  from ok obtain cur where r: "running cur s" by (auto simp: kernel_ok_def)
  note cur = runningD(1) [OF r]
  let ?s = "ctx_set c CTX_EAX (-1) s"
  define p where "p = (ucast (sys_arg c 0 ?s) :: u16)"
  consider "p = 0" | "p \<noteq> 0" "p = pid (pcbs s cur)" | "p \<noteq> 0" "p \<noteq> pid (pcbs s cur)" by blast
  then show ?thesis
  proof cases
    case 1
    then show ?thesis using cur by (simp add: sys_kill_def kill_event_def Let_def p_def)
  next
    case 2
    then have "current ?s \<noteq> Some i" using cur ok by (auto simp: kernel_ok_def idle_ok_def idle_ready_def)
    moreover have "kernel_ok i ?s" using ok by simp
    ultimately have i: "idle_ready i ?s" by (auto simp: kernel_ok_def dest: idle_okD)
    have r': "running cur ?s" using r same_procs_cong(1) [OF same_basic(1)] by simp
    have "sys_kill c s = bindE (cleanup (current ?s) ?s) dispatch"
      using cur 2 by (simp add: sys_kill_def Let_def p_def)
    moreover have "kill_event c s = E_exit" using cur 2 by (simp add: kill_event_def Let_def p_def)
    ultimately show ?thesis using sched_exit [OF r' i] by simp
  next
    case 3
    note e = sys_kill_other [OF r p_def 3]
    have ev: "kill_event c s = (case kill_target p s of None \<Rightarrow> E_quiet | Some j \<Rightarrow> E_kill j)"
      using cur 3 by (simp add: kill_event_def Let_def p_def)
    show ?thesis
    proof (cases "kill_target p s")
      case None
      then show ?thesis using e ev by simp
    next
      case (Some j)
      let ?t = "ctx_set c CTX_EAX (ucast (status (pcbs s j))) ?s"
      have "sched_of (set_pcb j (\<lambda>p. p\<lparr>status := PROC_ZOMBIE\<rparr>) ?t) =
          (sched_of s)\<lparr>sc_dead := (sc_dead (sched_of s))(j := True)\<rparr>"
        by (simp add: sched_of_set_pcb) (auto simp: sched_of_def sched_at_def fun_eq_iff)
      then show ?thesis using e ev Some by simp
    qed
  qed
qed

lemma sched_sleep:
  assumes ok: "kernel_ok i s" and g: "call_ok i Sys_sleep c s"
  shows "\<exists>s'. sys_sleep lk c s = Inr s' \<and> spec (call_event lk Sys_sleep c s) (sched_of s) = Some (sched_of s')"
proof -
  from ok obtain cur where r: "running cur s" and io: "idle_ok i s" by (auto simp: kernel_ok_def)
  note d = runningD [OF r]
  show ?thesis
  proof (cases "(ucast (sys_arg c 0 s) :: u16) = 0")
    case True
    from sched_yield [OF r io] obtain t s' where
      "schedule cur s = Inr (STAT_SUCCESS, t)" "dispatch t = Inr s'" "spec E_yield (sched_of s) = Some (sched_of s')" .
    then show ?thesis using True d(1) by (simp add: sys_sleep_def call_event_def Let_def)
  next
    case False
    then have i: "idle_ready i s" using g io by (auto simp: call_ok_def dest: idle_okD)
    define w where "w = system_time s + ucast (ucast (sys_arg c 0 s) :: u16) * timer_ticks_per_second lk"
    let ?f = "\<lambda>p. p\<lparr>wakeup := w, status := PROC_SLEEPING\<rparr>"
    have e: "set_pcb cur (\<lambda>p. p\<lparr>status := PROC_SLEEPING\<rparr>) (set_pcb cur (\<lambda>p. p\<lparr>wakeup := w\<rparr>) s) = set_pcb cur ?f s"
      by (simp add: set_pcb_def)
    have pre: "stack (?f (pcbs s cur)) = stack (pcbs s cur)" "live_pcb (?f (pcbs s cur))"
      "level (?f (pcbs s cur)) = level (pcbs s cur)" "quantum (?f (pcbs s cur)) = quantum (pcbs s cur)"
      "status (?f (pcbs s cur)) \<noteq> PROC_ZOMBIE" using d(4) by simp_all
    have q: "Sleeping \<in> {Sleeping, Reading}" by simp
    obtain u s' where u: "q_insert Sleeping (Some (Pcb cur)) (set_pcb cur ?f s) = Inr (STAT_SUCCESS, u)"
      "dispatch u = Inr s'" "spec_dispatch (if Sleeping = Sleeping
       then (sched_of s)\<lparr>sc_asleep := insert_by fst (wakeup (?f (pcbs s cur)), cur) (sc_asleep (sched_of s)),
         sc_dead := (zombie (pcbs s))(cur := False)\<rparr>
       else (sched_of s)\<lparr>sc_reading := pcbs_in (q_view s) Reading @ [cur], sc_dead := (zombie (pcbs s))(cur := False)\<rparr>) =
     Some (sched_of s')" by (rule sched_block [where f = ?f, OF r i q pre])
    have "sys_sleep lk c s = Inr s'" using d(1) False u(1,2) by (simp add: sys_sleep_def Let_def e flip: w_def)
    moreover have "spec (call_event lk Sys_sleep c s) (sched_of s) = Some (sched_of s')"
      using d(1) False u(3) by (simp add: call_event_def running_do_def Let_def flip: w_def)
    ultimately show ?thesis by blast
  qed
qed

lemma sched_read:
  assumes ok: "kernel_ok i s" and g: "call_ok i Sys_read c s"
  shows "\<exists>s'. sys_read c s = Inr s' \<and> spec (call_event lk Sys_read c s) (sched_of s) = Some (sched_of s')"
proof (cases "in_data s")
  case Nil
  from ok obtain cur where r: "running cur s" by (auto simp: kernel_ok_def)
  note d = runningD [OF r]
  have i: "idle_ready i s" and e: "env_ok s" using ok g Nil by (auto simp: kernel_ok_def call_ok_def dest: idle_okD)
  let ?f = "\<lambda>p. p\<lparr>status := PROC_BLOCKED\<rparr>"
  have pre: "stack (?f (pcbs s cur)) = stack (pcbs s cur)" "live_pcb (?f (pcbs s cur))"
    "level (?f (pcbs s cur)) = level (pcbs s cur)" "quantum (?f (pcbs s cur)) = quantum (pcbs s cur)"
    "status (?f (pcbs s cur)) \<noteq> PROC_ZOMBIE" using d(4) by simp_all
  have q: "Reading \<in> {Sleeping, Reading}" by simp
  obtain u s' where u: "q_insert Reading (Some (Pcb cur)) (set_pcb cur ?f s) = Inr (STAT_SUCCESS, u)"
    "dispatch u = Inr s'" "spec_dispatch (if Reading = Sleeping
       then (sched_of s)\<lparr>sc_asleep := insert_by fst (wakeup (?f (pcbs s cur)), cur) (sc_asleep (sched_of s)),
         sc_dead := (zombie (pcbs s))(cur := False)\<rparr>
       else (sched_of s)\<lparr>sc_reading := pcbs_in (q_view s) Reading @ [cur], sc_dead := (zombie (pcbs s))(cur := False)\<rparr>) =
     Some (sched_of s')" by (rule sched_block [where f = ?f, OF r i q pre])
  have "sio_read s = Inr (-1, s)" using e Nil by (intro sio_read_empty) (simp_all add: env_ok_def)
  then have "sys_read c s = Inr s'" using d(1) u(1,2) by (simp add: sys_read_def Let_def)
  then show ?thesis using d(1) Nil u(3) by (simp add: call_event_def running_do_def)
next
  case (Cons ch chs)
  have e: "env_ok s" using ok by (simp add: kernel_ok_def)
  from sys_read_char [OF e Cons, of c] obtain t where
    t: "sys_read c s = Inr (ctx_set c CTX_EAX (ucast ch) t)" "same_procs s t" by blast
  have "in_ok s" using e by (simp add: env_ok_def)
  from sio_read_ok [OF this Cons] obtain v where v: "sio_read s = Inr (ucast ch, v)" by blast
  then have "system_time v = system_time s" by (auto simp: sio_read_def Let_def split: if_splits)
  moreover have "ctx_set c CTX_EAX (ucast ch) v = ctx_set c CTX_EAX (ucast ch) t"
    using t(1) v by (simp add: sys_read_def)
  moreover have "system_time (ctx_set c w x y) = system_time y" for w x y by (simp add: ctx_set_def)
  ultimately have "system_time t = system_time s" by metis
  with t(2) have "sched_of t = sched_of s" by (rule sched_of_same)
  then show ?thesis using t(1) Cons by (simp add: call_event_def)
qed

section \<open>System calls\<close>

lemma sched_call:
  assumes ok: "kernel_ok i s" and g: "call_ok i f c s"
  shows "\<exists>s'. call_sys lk f c s = Inr s' \<and> spec (call_event lk f c s) (sched_of s) = Some (sched_of s')"
proof -
  from call_sys_rest [OF assms] obtain s' where s': "call_sys lk f c s = Inr s'" by blast
  consider "f \<in> quiet_calls" | "f = Sys_spawn" | "f = Sys_spawnl" | "f = Sys_sleep" | "f = Sys_exit" | "f = Sys_kill"
    | "f = Sys_read" by (cases f) (auto simp: quiet_calls_def)
  then show ?thesis
  proof cases
    case 1
    then have "call_event lk f c s = E_quiet" by (cases f) (auto simp: quiet_calls_def call_event_def)
    then show ?thesis using quiet_call [OF ok g 1 s'] s' by simp
  next
    case 2
    then show ?thesis using sched_spawn [OF ok, of lk c "sys_arg c 0 s" LEVEL_DEFAULT]
      by (simp add: sys_spawn_def call_event_def)
  next
    case 3
    then show ?thesis using sched_spawn [OF ok] by (simp add: sys_spawnl_def call_event_def)
  next
    case 4
    then show ?thesis using sched_sleep [OF ok] g by simp
  next
    case 5
    from ok obtain cur where r: "running cur s" by (auto simp: kernel_ok_def)
    have "idle_ready i s" using ok g 5 by (auto simp: kernel_ok_def call_ok_def dest: idle_okD)
    from sched_exit [OF r this] show ?thesis using 5 by (simp add: sys_exit_def call_event_def)
  next
    case 6
    then show ?thesis using sched_kill [OF ok] by (simp add: call_event_def)
  next
    case 7
    then show ?thesis using sched_read [OF ok] g by simp
  qed
qed

lemma sched_isr_syscall:
  assumes ok: "kernel_ok i s" and q: "requested s cur c f" and g: "call_ok i f c s"
  shows "\<exists>s'. isr_syscall lk s = Inr s' \<and> spec (call_event lk f c s) (sched_of s) = Some (sched_of s')"
proof -
  have t: "table_ok s" using ok by (simp add: kernel_ok_def env_ok_def)
  from isr_syscall_call [OF t q] obtain s0 where s0: "same_procs s s0" "same_sio s s0" "f = Sys_exit \<or> s0 = s"
    "system_time s0 = system_time s"
    "isr_syscall lk s = bindE (call_sys lk f c s0) (\<lambda>s. Inr (outb PIC_MASTER_CMD_PORT PIC_EOI s))" by blast
  have "kernel_ok i s0" using ok s0(1,2) by (rule quiet_rest)
  moreover have "call_ok i f c s0"
    using g s0(3) same_procs_cong(7) [OF s0(1)] by (auto simp: call_ok_def)
  ultimately obtain s1 where "call_sys lk f c s0 = Inr s1"
    "spec (call_event lk f c s0) (sched_of s0) = Some (sched_of s1)" using sched_call by blast
  moreover have "call_event lk f c s0 = call_event lk f c s" using s0(3) by (auto simp: call_event_def)
  ultimately show ?thesis using s0(5) sched_of_same [OF s0(1,4)] by simp
qed

end
