(* ===== verification/Sched_Steps.thy ===== *)
theory Sched_Steps
  imports Sched_Calls
begin

text \<open>
  The kernel as a whole refines the scheduler's specification: an interrupt of the serial line is
  an arrival for every received character, what happens between two entries is none of the
  scheduler's business, and every state the kernel reaches is one the specification reaches.
\<close>

section \<open>The serial line\<close>

lemma sched_sio_tx: "sio_tx s = Inr s' \<Longrightarrow> sched_of s' = sched_of s"
  by (rule sched_of_same; auto simp: sio_tx_def Let_def same_procs_def outb_def split: if_splits)

lemma sched_sio_rx:
  assumes ok: "kernel_ok i s" and s': "sio_rx ch s = Inr s'"
  shows "spec E_arrive (sched_of s) = Some (sched_of s')"
proof -
  from ok obtain c where r: "running c s" by (auto simp: kernel_ok_def)
  note k = runningD(2) [OF r]
  show ?thesis
  proof (cases "pcbs_in (q_view s) Reading")
    case Nil
    then have "q_isempty Reading s" using q_isempty_view [OF kinvD(1) [OF k]] by (simp add: pcbs_in_def)
    then have "sched_of s' = sched_of s"
      using s' by (intro sched_of_same) (auto simp: sio_rx_def Let_def same_procs_def split: if_splits)
    then show ?thesis using Nil by simp
  next
    case (Cons p ps)
    from sio_rx_wakes [OF k Cons, of ch] s' have w: "q_view s' = (q_view s)(Reading := tl (q_view s Reading),
        Ready (unat (level (pcbs s p))) := q_view s (Ready (unat (level (pcbs s p)))) @ [(0, Some (Pcb p))])"
      "pcbs s' = (pcbs s)(p := (pcbs s p)\<lparr>status := PROC_READY\<rparr>)" "current s' = current s" "k_frame s s'" by auto
    have "p \<in># live (q_view s)" using in_live [OF reading_live, of p "q_view s"] Cons by simp
    then have "live_pcb (pcbs s p)" using kinvD(4) [OF k] by (auto simp: owned_def)
    then have l: "unat (level (pcbs s p)) < MLQ_LEVELS" by (simp add: live_pcb_def)
    have ps: "map (\<lambda>e. pcb_of (snd e)) (tl (q_view s Reading)) = ps" using Cons by (simp add: pcbs_in_def map_tl)
    have lv: "levels_from 0 (q_view s') = (levels_from 0 (q_view s))
        [unat (level (pcbs s p)) := levels_from 0 (q_view s) ! unat (level (pcbs s p)) @ [p]]"
      using levels_add [OF l, of "(q_view s)(Reading := tl (q_view s Reading))" "[(0, Some (Pcb p))]"]
      by (simp add: w(1) levels_other)
    have "sched_of s' = spec_ready p ((sched_of s)\<lparr>sc_reading := ps\<rparr>)"
      using lv ps k_frame_time [OF w(4)]
      by (auto simp: sched_of_def sched_at_def spec_ready_def w(1-3) pcbs_in_def zombie_def fun_eq_iff)
    then show ?thesis using Cons by simp
  qed
qed

lemma sched_isr_sio_loop:
  assumes "kernel_ok i s" "inq s = uart_reads evs @ rest" "inlast s + received evs \<le> BUF_SIZE" "length evs < fuel"
  shows "\<exists>s'. isr_sio_loop fuel s = Inr s' \<and>
    spec_run (replicate (received evs) E_arrive) (sched_of s) = Some (sched_of s')"
  using assms
proof (induction evs arbitrary: s fuel rule: received.induct)
  case 1
  then obtain f where f: "fuel = Suc f" by (cases fuel) auto
  then show ?case using 1 by (simp add: inb_def)
next
  case (2 evs)
  then obtain f where f: "fuel = Suc f" by (cases fuel) auto
  let ?s = "s\<lparr>inq := uart_reads evs @ rest\<rparr>"
  from sio_tx_rest [of i ?s] 2(2) obtain t where
    t: "sio_tx ?s = Inr t" "kernel_ok i t" "inlast t \<le> inlast s" "inq t = uart_reads evs @ rest" by auto
  have "isr_sio_loop fuel s = isr_sio_loop f t" using 2(3) f t(1) by (simp add: inb_def)
  moreover have "sched_of t = sched_of s" using sched_sio_tx [OF t(1)] by simp
  ultimately show ?case using 2(1) [OF t(2,4), of f] 2(4,5) t(3) f by auto
next
  case (3 ch evs)
  then obtain f where f: "fuel = Suc f" by (cases fuel) auto
  let ?s = "s\<lparr>inq := uart_reads evs @ rest\<rparr>"
  have ok: "kernel_ok i ?s" using 3(2) by simp
  from sio_rx_rest [OF ok, of "ch AND 0xff"] 3(4) obtain t where
    t: "sio_rx (ch AND 0xff) ?s = Inr t" "kernel_ok i t" "inlast t \<le> Suc (inlast s)" "inq t = uart_reads evs @ rest"
    by auto
  have "isr_sio_loop fuel s = isr_sio_loop f t" using 3(3) f t(1) by (simp add: inb_def)
  moreover have "spec E_arrive (sched_of s) = Some (sched_of t)" using sched_sio_rx [OF ok t(1)] by simp
  ultimately show ?case using 3(1) [OF t(2,4), of f] 3(4,5) t(3) f by auto
qed

lemma sched_isr_sio:
  assumes "kernel_ok i s" "inq s = uart_reads evs @ rest" "inlast s + received evs \<le> BUF_SIZE"
  shows "\<exists>s'. isr_sio s = Inr s' \<and>
    spec_run (replicate (received evs) E_arrive) (sched_of s) = Some (sched_of s')"
proof -
  have "length evs < Suc (length (inq s))" using assms(2) length_uart_reads [of evs] by simp
  from sched_isr_sio_loop [OF assms this] show ?thesis by (simp add: isr_sio_def)
qed

section \<open>All steps\<close>

lemma sched_user: "sched_of (set_pcb c (\<lambda>p. p\<lparr>context_of := Some ctx\<rparr>) (s\<lparr>mem := m, stacks := st\<rparr>)) = sched_of s"
proof -
  have "sched_of (s\<lparr>mem := m, stacks := st\<rparr>) = sched_of s" by (rule sched_of_same) (simp_all add: same_procs_def)
  then show ?thesis by (simp add: sched_of_set_pcb) (auto simp: sched_of_def sched_at_def zombie_def fun_eq_iff)
qed

lemma spec_run_one: "spec_run [e] a = spec e a" by (simp split: option.split)

text \<open>
  The steps of the kernel with the events they are: a system call and a tick are one event, an
  interrupt of the serial line one for every character received, and the rest is none.
\<close>

inductive observed :: "linkage \<Rightarrow> nat \<Rightarrow> kstate \<Rightarrow> sched_event list \<Rightarrow> kstate \<Rightarrow> bool" for lk i where
  user: "current s = Some c \<Longrightarrow>
    observed lk i s [] (set_pcb c (\<lambda>p. p\<lparr>context_of := Some ctx\<rparr>) (s\<lparr>mem := m, stacks := st\<rparr>))"
| device: "observed lk i s [] (s\<lparr>inq := vs\<rparr>)"
| syscall: "requested s c ctx f \<Longrightarrow> call_ok i f ctx s \<Longrightarrow> isr_syscall lk s = Inr s' \<Longrightarrow>
    observed lk i s [call_event lk f ctx s] s'"
| tick: "service_ok (system_time s + 1) s \<Longrightarrow> isr_clock s = Inr s' \<Longrightarrow>
    observed lk i s [E_tick (served_at (system_time s + 1) s)] s'"
| serial: "inq s = uart_reads evs @ rest \<Longrightarrow> inlast s + received evs \<le> BUF_SIZE \<Longrightarrow> isr_sio s = Inr s' \<Longrightarrow>
    observed lk i s (replicate (received evs) E_arrive) s'"

inductive history :: "linkage \<Rightarrow> nat \<Rightarrow> kstate \<Rightarrow> sched_event list \<Rightarrow> kstate \<Rightarrow> bool" for lk i s0 where
  start: "history lk i s0 [] s0"
| step: "history lk i s0 es s \<Longrightarrow> observed lk i s fs s' \<Longrightarrow> history lk i s0 (es @ fs) s'"

lemma observed_step: "observed lk i s es s' \<Longrightarrow> kstep lk i s s'"
  by (induction rule: observed.induct) (auto intro: kstep.intros)

lemma step_observed: "kstep lk i s s' \<Longrightarrow> \<exists>es. observed lk i s es s'"
proof (induction rule: kstep.induct)
  case user
  then show ?case by (intro exI, rule observed.user)
next
  case device
  show ?case by (intro exI, rule observed.device)
next
  case syscall
  then show ?case by (intro exI, rule observed.syscall)
next
  case tick
  then show ?case by (intro exI, rule observed.tick)
next
  case serial
  then show ?case by (intro exI, rule observed.serial)
qed

lemma history_reachable: "history lk i s0 es s \<Longrightarrow> reachable lk i s0 s"
  by (induction rule: history.induct) (auto intro: reachable.intros observed_step)

lemma reachable_history: "reachable lk i s0 s \<Longrightarrow> \<exists>es. history lk i s0 es s"
  by (induction rule: reachable.induct) (use step_observed in \<open>blast intro: history.intros\<close>)+

lemma observed_sched:
  assumes "observed lk i s es s'" and ok: "kernel_ok i s"
  shows "spec_run es (sched_of s) = Some (sched_of s')"
  using assms(1)
proof cases
  case (user c ctx m st)
  then show ?thesis unfolding user(1,2) sched_user by simp
next
  case (device vs)
  then show ?thesis by simp
next
  case (syscall c ctx f)
  from sched_isr_syscall [where lk = lk, OF ok syscall(2,3)] syscall(4)
  show ?thesis unfolding syscall(1) spec_run_one by simp
next
  case tick
  from sched_tick [OF ok tick(2)] tick(3) show ?thesis unfolding tick(1) spec_run_one by simp
next
  case (serial evs rest)
  from sched_isr_sio [OF ok serial(2,3)] serial(4) show ?thesis unfolding serial(1) by simp
qed

lemma history_sched:
  assumes "history lk i s0 es s" "kernel_ok i s0"
  shows "spec_run es (sched_of s0) = Some (sched_of s)"
  using assms
proof (induction rule: history.induct)
  case (step es s fs s')
  have "kernel_ok i s" using reachable_rest [OF history_reachable [OF step(1)] step(4)] .
  with step observed_sched show ?case by (simp add: spec_run_append)
qed simp

section \<open>Killed sleepers\<close>

text \<open>A process that is ready and not killed runs or is still ready after a dispatch.\<close>

lemma spec_dispatch_keeps:
  assumes "spec_dispatch a = Some b" "j \<in> set (concat (sc_ready a))" "\<not> sc_dead a j"
  shows "sc_runs b = Some j \<or> j \<in> set (concat (sc_ready b))"
proof -
  let ?D = "sc_dead a" and ?L = "concat (sc_ready a)"
  obtain r zs qs where pk: "pick ?D (sc_ready a) = (r, zs, qs)" by (cases "pick ?D (sc_ready a)") auto
  then obtain p where r: "r = Some p" "sc_runs b = Some p" "sc_ready b = qs"
    using assms(1) by (auto simp: spec_dispatch_def split: option.splits)
  then have d: "dropWhile ?D ?L = p # concat qs" using pick_seq [OF pk] by simp
  have "j \<in> set (takeWhile ?D ?L @ dropWhile ?D ?L)" using assms(2) by (simp only: takeWhile_dropWhile_id)
  then have "j \<in> set (takeWhile ?D ?L) \<or> j \<in> set (dropWhile ?D ?L)" by (simp only: set_append Un_iff)
  then have "j \<in> set (dropWhile ?D ?L)" using assms(3) set_takeWhileD by metis
  then show ?thesis using r by (auto simp: d)
qed

lemma spec_ready_mem:
  "sc_level a p < length (sc_ready a) \<Longrightarrow> j = p \<or> j \<in> set (concat (sc_ready a)) \<Longrightarrow>
     j \<in> set (concat (sc_ready (spec_ready p a)))"
proof -
  assume l: "sc_level a p < length (sc_ready a)" and j: "j = p \<or> j \<in> set (concat (sc_ready a))"
  show ?thesis
  proof (cases "j = p")
    case True
    then show ?thesis using l set_update_memI [OF l, of "sc_ready a ! sc_level a p @ [p]"]
      by (auto simp: spec_ready_def intro!: bexI)
  next
    case False
    then obtain q where "q \<in> set (sc_ready a)" "j \<in> set q" using j by auto
    then obtain k where k: "k < length (sc_ready a)" "j \<in> set (sc_ready a ! k)" by (metis in_set_conv_nth)
    then have "j \<in> set (sc_ready (spec_ready p a) ! k)" "k < length (sc_ready (spec_ready p a))"
      by (simp_all add: spec_ready_def) (cases "k = sc_level a p"; simp)
    then have "sc_ready (spec_ready p a) ! k \<in> set (sc_ready (spec_ready p a))" by (intro nth_mem)
    with \<open>j \<in> set (sc_ready (spec_ready p a) ! k)\<close> show ?thesis unfolding set_concat by blast
  qed
qed

lemma spec_ready_length [simp]: "length (sc_ready (spec_ready p a)) = length (sc_ready a)"
  by (simp add: spec_ready_def)

lemma spec_ready_level [simp]: "sc_level (spec_ready p a) = sc_level a" "sc_runs (spec_ready p a) = sc_runs a"
  by (simp_all add: spec_ready_def)

lemma spec_ready_dead: "sc_dead (spec_ready p a) j \<longleftrightarrow> sc_dead a j \<and> j \<noteq> p"
  by (simp add: spec_ready_def)

text \<open>A tick brings the sleepers whose time has come back to life.\<close>

lemma fold_ready_mem:
  assumes "\<forall>p \<in> set ps. sc_level a p < length (sc_ready a)" "j \<in> set ps \<or> j \<in> set (concat (sc_ready a)) \<and> \<not> sc_dead a j"
  shows "j \<in> set (concat (sc_ready (fold spec_ready ps a))) \<and> \<not> sc_dead (fold spec_ready ps a) j"
  using assms
proof (induction ps arbitrary: a)
  case (Cons p ps)
  have "j \<in> set ps \<or> j \<in> set (concat (sc_ready (spec_ready p a))) \<and> \<not> sc_dead (spec_ready p a) j"
    using Cons.prems spec_ready_mem [of a p j] by (auto simp: spec_ready_dead simp del: set_concat)
  then show ?case using Cons.IH [of "spec_ready p a"] Cons.prems(1) by simp
qed simp

lemma spec_tick_wakes:
  assumes t: "spec_tick r a = Some b" and l: "\<forall>p. sc_level a p < length (sc_ready a) \<or> r \<noteq> Some p \<and> sc_runs a \<noteq> Some p \<and>
      p \<notin> set (map snd (sc_asleep a))"
    and j: "j \<in> set (map snd (takeWhile (\<lambda>e. fst e \<le> sc_now a + 1) (sc_asleep a)))"
  shows "(sc_runs b = Some j \<or> j \<in> set (concat (sc_ready b))) \<and> \<not> sc_dead b j"
proof -
  define u where "u = spec_wake (a\<lparr>sc_now := sc_now a + 1\<rparr>)"
  define v where "v = spec_serve r u"
  have lw: "\<forall>p \<in> set (map snd (takeWhile (\<lambda>e. fst e \<le> sc_now a + 1) (sc_asleep a))). sc_level a p < length (sc_ready a)"
    using l by (auto dest!: set_takeWhileD)
  have fl: "sc_level (fold spec_ready ps x) = sc_level x" "length (sc_ready (fold spec_ready ps x)) = length (sc_ready x)"
    "sc_runs (fold spec_ready ps x) = sc_runs x" for ps x
    by (induction ps arbitrary: x) (simp_all add: spec_ready_def)
  have u: "j \<in> set (concat (sc_ready u)) \<and> \<not> sc_dead u j"
    unfolding u_def spec_wake_def using lw j by (intro fold_ready_mem) simp_all
  have ul: "sc_level u = sc_level a" "length (sc_ready u) = length (sc_ready a)" "sc_runs u = sc_runs a"
    by (simp_all add: u_def spec_wake_def fl)
  have v: "j \<in> set (concat (sc_ready v)) \<and> \<not> sc_dead v j"
  proof (cases r)
    case (Some p)
    let ?x = "u\<lparr>sc_waiting := tl (dropWhile (\<lambda>q. q \<noteq> p) (sc_waiting u)) @ takeWhile (\<lambda>q. q \<noteq> p) (sc_waiting u)\<rparr>"
    have "sc_level ?x p < length (sc_ready ?x)" using l Some ul by auto
    from spec_ready_mem [OF this, of j] u show ?thesis by (simp add: v_def spec_serve_def Some spec_ready_dead del: set_concat)
  qed (use u in \<open>simp_all add: v_def spec_serve_def\<close>)
  have vl: "sc_level v = sc_level a" "length (sc_ready v) = length (sc_ready a)" "sc_runs v = sc_runs a"
    by (simp_all add: v_def spec_serve_def ul split: option.split)
  from t obtain c where c: "sc_runs a = Some c"
    and d: "(if sc_left v c = 0 then spec_dispatch (spec_ready c v) else Some (v\<lparr>sc_left := (sc_left v)(c := sc_left v c - 1)\<rparr>)) = Some b"
    by (auto simp: spec_tick_def running_do_def vl simp flip: u_def v_def split: option.splits)
  show ?thesis
  proof (cases "sc_left v c = 0")
    case True
    have "sc_level v c < length (sc_ready v)" using l c vl by auto
    then have m: "j \<in> set (concat (sc_ready (spec_ready c v)))" by (rule spec_ready_mem) (use v in blast)
    have nd: "\<not> sc_dead (spec_ready c v) j" using v by (simp add: spec_ready_dead)
    have e: "spec_dispatch (spec_ready c v) = Some b" using d True by simp
    then have "\<not> sc_dead b j" using nd by (auto simp: spec_dispatch_def split: prod.splits option.splits)
    with spec_dispatch_keeps [OF e m nd] show ?thesis by blast
  next
    case False
    then show ?thesis using d v by auto
  qed
qed

lemma served_waits: "served_at now s = Some p \<Longrightarrow> p \<in> set (pcbs_in (q_view s) Blocked_requests)"
  by (auto simp: served_at_def split: if_splits list.splits option.splits obj.splits dest!: find_first)

lemma killed_sleeper_lives_on:
  assumes ok: "kernel_ok i s" and p: "p = ucast (sys_arg c 0 (ctx_set c CTX_EAX (-1) s))" "p \<noteq> 0"
    "current s = Some cur" "p \<noteq> pid (pcbs s cur)" and j: "kill_target p s = Some j"
    and v: "(k, Some (Pcb j)) \<in> set (q_view s Sleeping)" and k: "k \<le> system_time s + 1"
    and sv: "service_ok (system_time s + 1) s"
  shows "\<exists>s1 s2. sys_kill c s = Inr s1 \<and> status (pcbs s1 j) = PROC_ZOMBIE \<and> q_view s1 Sleeping = q_view s Sleeping \<and>
    isr_clock s1 = Inr s2 \<and> status (pcbs s2 j) \<noteq> PROC_ZOMBIE \<and> (current s2 = Some j \<or> j \<in> set (ready_seq (q_view s2)))"
proof -
  from ok obtain x where r: "running x s" by (auto simp: kernel_ok_def)
  then have r: "running cur s" using runningD(1) [OF r] p(3) by simp
  note kv = runningD(2) [OF r]
  from sys_kill_rest [OF ok, of c] obtain s1 where s1: "sys_kill c s = Inr s1" "kernel_ok i s1" by blast
  have e: "s1 = set_pcb j (\<lambda>p. p\<lparr>status := PROC_ZOMBIE\<rparr>)
      (ctx_set c CTX_EAX (ucast (status (pcbs s j))) (ctx_set c CTX_EAX (-1) s))"
    using s1(1) sys_kill_other [OF r p(1,2,4)] j by simp
  have f: "q_view s1 = q_view s" "system_time s1 = system_time s" "ramdisk_service s1 = ramdisk_service s"
    "pending_requests s1 = pending_requests s" "current s1 = current s"
    by (simp_all add: e) (simp_all add: set_pcb_def ctx_set_def)
  have pr: "pending_request (pcbs s1 q) = pending_request (pcbs s q)" "level (pcbs s1 q) = level (pcbs s q)" for q
    by (simp_all add: e)
  have "service_ok (system_time s1 + 1) s1"
    using sv unfolding service_ok_def request_ok_def f pr .
  from sched_tick [OF s1(2) this] obtain s2 where s2: "isr_clock s1 = Inr s2"
    "spec_tick (served_at (system_time s1 + 1) s1) (sched_of s1) = Some (sched_of s2)" by auto
  have asleep: "sc_asleep (sched_of s1) = map (\<lambda>e. (fst e, pcb_of (snd e))) (q_view s Sleeping)"
    by (simp add: sched_of_def sched_at_def f)
  note tc = same_procs_cong [OF ticked_same(1) [of s]]
  have kt: "kinv [cur] [] [] (ticked s)" using kv by (simp add: tc)
  have "j \<in> set (due (ticked s))"
    unfolding due_filter(1) [OF kt] using v k by (force simp: tc ticked_same)
  then have d: "j \<in> set (map snd (takeWhile (\<lambda>e. fst e \<le> sc_now (sched_of s1) + 1) (sc_asleep (sched_of s1))))"
    by (simp add: asleep takeWhile_map due_def comp_def f tc ticked_same image_image)
  have lv: "unat (level (pcbs s q)) < MLQ_LEVELS" if "q \<in># live (q_view s)" for q
    using kinvD(4) [OF kv] that by (auto simp: owned_def live_pcb_def)
  have "sc_level (sched_of s1) q < length (sc_ready (sched_of s1)) \<or> served_at (system_time s1 + 1) s1 \<noteq> Some q \<and>
      sc_runs (sched_of s1) \<noteq> Some q \<and> q \<notin> set (map snd (sc_asleep (sched_of s1)))" for q
  proof (cases "q = cur \<or> q \<in># live (q_view s)")
    case True
    then have "unat (level (pcbs s q)) < MLQ_LEVELS" using lv level_below [OF kv] by blast
    then show ?thesis by (simp add: pr levels_from_def)
  next
    case False
    have "q \<notin> set (pcbs_in (q_view s) Blocked_requests)" "q \<notin> set (pcbs_in (q_view s) Sleeping)"
      using False in_live [OF blocked_live] in_live [OF sleeping_live] by blast+
    then show ?thesis using False served_waits [of "system_time s1 + 1" s1 q] p(3)
      by (auto simp: f asleep pcbs_in_def)
  qed
  then have "(sc_runs (sched_of s2) = Some j \<or> j \<in> set (concat (sc_ready (sched_of s2)))) \<and> \<not> sc_dead (sched_of s2) j"
    using s2(2) d by (intro spec_tick_wakes) blast+
  then have "status (pcbs s2 j) \<noteq> PROC_ZOMBIE" "current s2 = Some j \<or> j \<in> set (ready_seq (q_view s2))"
    by (simp_all add: zombie_def ready_from_levels del: set_concat)
  then show ?thesis using s1(1) s2(1) by (intro exI [of _ s1] exI [of _ s2]) (simp add: f e)
qed

end
