(* ===== verification/Examples.thy ===== *)
theory Examples
  imports Sched_Steps
begin

text \<open>
  A small running system: process 1 runs, the idle process 0 is ready, process 2 sleeps until
  tick 5, process 3 waits for a character, and PCB and stack 5 are free.  It is made by the
  operations of the kernel, and shows that what the theorems about the kernel assume can hold.
\<close>

definition demo_pcb :: "nat \<Rightarrow> pcb_t" where
  "demo_pcb i = zero_pcb\<lparr>context_of := Some (i, 1004), stack := Some i, pid := of_nat i, quantum := 2,
     level := (if i = 0 then 2 else 1), wakeup := (if i = 2 then 5 else 0),
     status := (if i = 0 then PROC_READY else if i = 1 then PROC_RUNNING else if i = 2 then PROC_SLEEPING
                else if i = 3 then PROC_BLOCKED else PROC_FREE)\<rparr>"

definition demo_base :: kstate where
  "demo_base = (sys_init (q_reset (Some Sleeping) (Some Hash_sleep) (q_init boot_state)))
     \<lparr>pcbs := demo_pcb, current := Some 1, next_pid := 4\<rparr>"

text \<open>The state after an operation that returns.\<close>

definition after :: "(u32 \<times> kstate) outcome \<Rightarrow> kstate" where
  "after m = (case m of Inr (_, s) \<Rightarrow> s | Inl _ \<Rightarrow> boot_state)"

lemma after_simps [simp]: "after (Inr (x, s)) = s" by (simp add: after_def)

definition demo_ready :: kstate where
  "demo_ready = after (schedule 0 demo_base)"

definition demo_asleep :: kstate where
  "demo_asleep = after (q_insert Sleeping (Some (Pcb 2)) demo_ready)"

definition demo_reading :: kstate where
  "demo_reading = after (q_insert Reading (Some (Pcb 3)) demo_asleep)"

definition demo :: kstate where
  "demo = after (stack_dealloc 5 (after (pcb_dealloc 5 demo_reading)))"

lemma demo_base_queues: "q_wf demo_base" "q_view demo_base = (\<lambda>_. [])" "n_free demo_base = N_QNODES"
  "hashfcn (queues demo_base q) = (if q = Sleeping then Some Hash_sleep else None)"
proof -
  let ?i = "q_init boot_state" and ?r = "q_reset (Some Sleeping) (Some Hash_sleep) (q_init boot_state)"
  have "all_empty boot_state" by (simp add: all_empty_def boot_state_def)
  note r = q_init_repr [OF this]
  have i: "q_wf ?i" "q_view ?i = (\<lambda>_. [])" "n_free ?i = N_QNODES"
    using q_wfI [OF r] q_view_of_repr [OF r] by auto
  note v = q_reset_view [OF i(1), of Sleeping "Some Hash_sleep"]
  have same: "queues demo_base = queues ?r" "qnodes demo_base = qnodes ?r" "free_qnodes demo_base = free_qnodes ?r"
    by (simp_all add: demo_base_def sys_init_def Let_def c_printf_def)
  show "q_wf demo_base" "q_view demo_base = (\<lambda>_. [])" "n_free demo_base = N_QNODES"
    using v i q_repr_cong [OF same] by auto
  have "queues ?i = queues boot_state"
    using fold_qn_dealloc [of "[0..<N_QNODES]"] by (simp add: q_init_def Let_def c_puts_def)
  then show "hashfcn (queues demo_base q) = (if q = Sleeping then Some Hash_sleep else None)"
    unfolding same by (simp add: q_reset_def boot_state_def)
qed

lemma live_demo_pcb: "live_pcb (demo_pcb i)"
  by (simp add: demo_pcb_def live_pcb_def zero_pcb_def)

lemma stack_idx_demo: "stack_idx demo_pcb = (\<lambda>i. i)"
  by (rule ext) (simp add: demo_pcb_def stack_idx_def zero_pcb_def)

lemma demo_base_pcbs [simp]: "pcbs demo_base = demo_pcb" "current demo_base = Some 1" "next_pid demo_base = 4"
  by (simp_all add: demo_base_def)

lemma few_procs: "set xs \<subseteq> {..<MAX_PROCS} \<Longrightarrow> distinct xs \<Longrightarrow> mset xs \<subseteq># mset_set {..<MAX_PROCS}"
  using subset_imp_msubset_mset_set [of "set xs" "{..<MAX_PROCS}"] by (simp add: mset_set_set)

lemma kinv_demo_base: "kinv [0, 2, 3, 1] [5] [5] demo_base"
proof -
  have "mset [5, 0, 2, 3, 1] \<subseteq># mset_set {..<MAX_PROCS}" by (rule few_procs) auto
  then have "owned [0, 2, 3, 1] [5] [5] (\<lambda>_. []) demo_pcb"
    by (simp add: owned_def live_def pcbs_in_def stacks_in_def live_queues_def stack_idx_demo live_demo_pcb)
  then show ?thesis
    by (simp add: kinv_def demo_base_queues hashes_ok_def typed_view_def statuses_def ready_levels_def
        pcbs_in_def n_used_def n_other_def live_queues_def other_queues_def)
qed

lemma demo_steps:
  "schedule 0 demo_base = Inr (STAT_SUCCESS, demo_ready)"
  "q_insert Sleeping (Some (Pcb 2)) demo_ready = Inr (STAT_SUCCESS, demo_asleep)"
  "q_insert Reading (Some (Pcb 3)) demo_asleep = Inr (STAT_SUCCESS, demo_reading)"
  "kinv [1] [] [] demo" "k_frame demo_base demo"
  "pcbs demo = demo_pcb" "current demo = Some 1" "next_pid demo = 4" "stacks demo = stacks demo_base"
  "q_view demo = (\<lambda>_. [])(Ready 2 := [(0, Some (Pcb 0))], Sleeping := [(5, Some (Pcb 2))],
     Reading := [(0, Some (Pcb 3))], Free_pcbs := [(0, Some (Pcb 5))], Free_stacks := [(0, Some (Stack 5))])"
proof -
  have lv: "unat (level (demo_pcb 0)) = 2" by (simp add: demo_pcb_def)
  have w: "wakeup (demo_pcb 2) = 5" by (simp add: demo_pcb_def)
  have p0: "demo_pcb(0 := (demo_pcb 0)\<lparr>status := PROC_READY\<rparr>) = demo_pcb"
    "demo_pcb(5 := (demo_pcb 5)\<lparr>status := PROC_FREE\<rparr>) = demo_pcb"
    by (auto simp: fun_eq_iff demo_pcb_def)
  from kinv_schedule [OF kinv_demo_base] obtain s1 where
    s1: "schedule 0 demo_base = Inr (STAT_SUCCESS, s1)" "kinv [2, 3, 1] [5] [5] s1" "k_frame demo_base s1"
      "pcbs s1 = demo_pcb" "current s1 = Some 1" "next_pid s1 = 4" "stacks s1 = stacks demo_base"
      "q_view s1 = (\<lambda>_. [])(Ready 2 := [(0, Some (Pcb 0))])"
    by (auto simp: lv p0 demo_base_queues)
  from kinv_put [OF s1(2) sleeping_live] obtain s2 where
    s2: "q_insert Sleeping (Some (Pcb 2)) s1 = Inr (STAT_SUCCESS, s2)" "kinv [3, 1] [5] [5] s2" "q_frame s1 s2"
      "q_view s2 = (q_view s1)(Sleeping := [(5, Some (Pcb 2))])"
    by (auto simp: s1(4,8) w q_place_def)
  note f2 = q_frame_fields [OF s2(3)]
  from kinv_put [OF s2(2) reading_live] obtain s3 where
    s3: "q_insert Reading (Some (Pcb 3)) s2 = Inr (STAT_SUCCESS, s3)" "kinv [1] [5] [5] s3" "q_frame s2 s3"
      "q_view s3 = (q_view s2)(Reading := [(0, Some (Pcb 3))])"
    by (auto simp: s2(4) s1(8) q_place_def)
  note f3 = q_frame_fields [OF s3(3)]
  from kinv_pcb_dealloc [OF s3(2)] obtain s4 where
    s4: "pcb_dealloc 5 s3 = Inr (STAT_SUCCESS, s4)" "kinv [1] [] [5] s4" "k_frame s3 s4"
      "pcbs s4 = demo_pcb" "current s4 = Some 1" "next_pid s4 = 4" "stacks s4 = stacks demo_base"
      "q_view s4 = (q_view s3)(Free_pcbs := [(0, Some (Pcb 5))])"
    by (auto simp: f2 f3 s1(4-7) p0 s3(4) s2(4) s1(8))
  have "q_view s4 Free_stacks = []" by (simp add: s4(8) s3(4) s2(4) s1(8))
  with kinv_stack_dealloc [OF s4(2)] obtain s5 where
    s5: "stack_dealloc 5 s4 = Inr (STAT_SUCCESS, s5)" "kinv [1] [] [] s5" "q_frame s4 s5"
      "q_view s5 = (q_view s4)(Free_stacks := [(0, Some (Stack 5))])" by (metis append_Nil)
  note f5 = q_frame_fields [OF s5(3)]
  have e1: "demo_ready = s1" by (simp add: demo_ready_def s1(1))
  have e2: "demo_asleep = s2" by (simp add: demo_asleep_def e1 s2(1))
  have e3: "demo_reading = s3" by (simp add: demo_reading_def e2 s3(1))
  have e5: "demo = s5" by (simp add: demo_def e3 s4(1) s5(1))
  show "schedule 0 demo_base = Inr (STAT_SUCCESS, demo_ready)" by (simp add: e1 s1(1))
  show "q_insert Sleeping (Some (Pcb 2)) demo_ready = Inr (STAT_SUCCESS, demo_asleep)" by (simp add: e1 e2 s2(1))
  show "q_insert Reading (Some (Pcb 3)) demo_asleep = Inr (STAT_SUCCESS, demo_reading)" by (simp add: e2 e3 s3(1))
  show "kinv [1] [] [] demo" using s5(2) by (simp add: e5)
  show "k_frame demo_base demo"
    using s1(3) q_frame_k_frame [OF s2(3)] q_frame_k_frame [OF s3(3)] s4(3) q_frame_k_frame [OF s5(3)]
      k_frame_trans unfolding e5 by metis
  show "pcbs demo = demo_pcb" "current demo = Some 1" "next_pid demo = 4" "stacks demo = stacks demo_base"
    by (simp_all add: e5 f5 s4(4-7))
  show "q_view demo = (\<lambda>_. [])(Ready 2 := [(0, Some (Pcb 0))], Sleeping := [(5, Some (Pcb 2))],
     Reading := [(0, Some (Pcb 3))], Free_pcbs := [(0, Some (Pcb 5))], Free_stacks := [(0, Some (Stack 5))])"
    by (simp add: e5 s5(4) s4(8) s3(4) s2(4) s1(8))
qed

lemmas demo_simps [simp] = demo_steps(6-8,10)

text \<open>The rest of the state is as the modules' initialisation leaves it.\<close>

lemma demo_base_fields:
  "inlast demo_base = 0" "innext demo_base = 0" "incount demo_base = 0" "outlast demo_base = 0"
  "outnext demo_base = 0" "outcount demo_base = 0" "\<not> sending demo_base" "system_time demo_base = 0"
  "ramdisk_service demo_base = 4" "inq demo_base = []" "mem demo_base = (\<lambda>_. 0)" "ramdisk demo_base = (\<lambda>_. 0)"
    "stacks demo_base = (\<lambda>_ _. 0)" "inbuffer demo_base = (\<lambda>_. 0)" "outbuffer demo_base = (\<lambda>_. 0)"
    "free_ptr demo_base = 0"
proof -
  define s0 where "s0 = boot_state\<lparr>qnodes := (\<lambda>i. if i < N_QNODES then zero_qnode else qnodes boot_state i),
    free_qnodes := None\<rparr>"
  define s1 where "s1 = fold (\<lambda>i. qn_dealloc (Some i)) [0..<N_QNODES] s0"
  have i: "q_init boot_state = c_puts '' queue'' s1" by (simp add: q_init_def s1_def s0_def)
  have "q_frame s0 s1" using fold_qn_dealloc [of "[0..<N_QNODES]" s0] by (simp add: s1_def)
  note f = q_frame_fields [OF this]
  show "inlast demo_base = 0" "innext demo_base = 0" "incount demo_base = 0" "outlast demo_base = 0"
    "outnext demo_base = 0" "outcount demo_base = 0" "\<not> sending demo_base" "system_time demo_base = 0"
    "ramdisk_service demo_base = 4" "inq demo_base = []" "mem demo_base = (\<lambda>_. 0)" "ramdisk demo_base = (\<lambda>_. 0)"
    "stacks demo_base = (\<lambda>_ _. 0)" "inbuffer demo_base = (\<lambda>_. 0)" "outbuffer demo_base = (\<lambda>_. 0)"
    "free_ptr demo_base = 0"
    unfolding demo_base_def i
    by (simp_all add: f sys_init_def q_reset_def c_puts_def c_printf_def set_queue_def Let_def)
      (simp_all add: s0_def boot_state_def)
qed

lemma demo_fields [simp]:
  "inlast demo = 0" "innext demo = 0" "incount demo = 0" "outlast demo = 0"
  "outnext demo = 0" "outcount demo = 0" "\<not> sending demo" "system_time demo = 0"
  "ramdisk_service demo = 4" "inq demo = []" "mem demo = (\<lambda>_. 0)" "ramdisk demo = (\<lambda>_. 0)"
  "stacks demo = (\<lambda>_ _. 0)" "inbuffer demo = (\<lambda>_. 0)" "outbuffer demo = (\<lambda>_. 0)" "free_ptr demo = 0"
  using k_frame_fields [OF demo_steps(5)] demo_base_fields demo_steps(9) by simp_all

lemma table_ok_demo: "table_ok demo"
proof -
  have "table_ok demo_base"
    using table_ok_init [of "q_reset (Some Sleeping) (Some Hash_sleep) (q_init boot_state)"]
    by (simp add: demo_base_def table_ok_def)
  then show ?thesis using k_frame_fields(23) [OF demo_steps(5)] by (simp add: table_ok_def)
qed

lemma env_ok_demo [simp]: "env_ok demo"
  by (simp add: env_ok_def in_ok_def out_ok_def table_ok_demo)

lemma running_demo: "running 1 demo"
  using demo_steps(4,7) by (simp add: running_def)

lemma ready_seq_demo: "ready_seq (q_view demo) = [0]"
  by (simp add: ready_from_def pcbs_in_def numeral_eq_Suc)

lemma idle_demo [simp]: "idle_ready 0 demo" "idle_ok 0 demo"
  unfolding idle_ok_def idle_ready_def ready_seq_demo by (simp_all add: demo_pcb_def zero_pcb_def)

lemma kernel_ok_demo [simp]: "kernel_ok 0 demo"
  by (rule kernel_okI [OF running_demo]) simp_all

text \<open>Some addresses for what the linker decides.\<close>

definition demo_lk :: linkage where
  "demo_lk = \<lparr>exit_addr = 0x10000, user_idle_addr = 0x10100, user_first_addr = 0x10200,
     ata_test_proc_addr = 0x10300, ramdisk_addr = 0x20000, memory_addr = 0x30000, shms_addr = 0x40000,
     timer_ticks_per_second = 100, timer_0 = 0x40, timer_1 = 0x41\<rparr>"

text \<open>What the scheduler's specification sees of it.\<close>

lemma sched_demo:
  assumes "same_procs demo s"
  shows "sched_of s = \<lparr>sc_runs = Some 1, sc_ready = [[], [], [0]], sc_asleep = [(5, 2)], sc_reading = [3],
     sc_waiting = [], sc_free = [5], sc_stacks = 1, sc_dead = (\<lambda>_. False), sc_level = (\<lambda>i. if i = 0 then 2 else 1),
     sc_left = (\<lambda>_. 2), sc_now = system_time s\<rparr>"
proof -
  have "levels_from 0 (q_view demo) = [[], [], [0]]"
    by (simp add: levels_from_def pcbs_in_def upt_rec)
  then show ?thesis
    by (auto simp: sched_of_def same_procs_cong [OF assms] sched_at_def pcbs_in_def zombie_def demo_pcb_def zero_pcb_def fun_eq_iff)
qed

end
