(* ===== verification/Loops.thy ===== *)
theory Loops
  imports Prelude "HOL-Library.While_Combinator"
begin

text \<open>
  The \<open>while\<close> and \<open>for\<close> loops of the modules whose loops may run for ever: \<open>loop b c s\<close> runs
  \<open>c\<close> while \<open>b\<close> holds and is \<open>Hang\<close> where that never ends.  A counting loop over machine
  words that ends is a fold.
\<close>

definition loop :: "('s \<Rightarrow> bool) \<Rightarrow> ('s \<Rightarrow> 's outcome) \<Rightarrow> 's \<Rightarrow> 's outcome" where
  "loop b c s =
     (case while_option (\<lambda>r. case r of Inl e \<Rightarrow> False | Inr t \<Rightarrow> b t) (\<lambda>r. bindE r c) (Inr s) of
        None \<Rightarrow> Inl Hang
      | Some r \<Rightarrow> r)"

lemma loop_unfold: "loop b c s = (if b s then bindE (c s) (loop b c) else Inr s)"
proof -
  let ?w = "while_option (\<lambda>r. case r of Inl e \<Rightarrow> False | Inr t \<Rightarrow> b t) (\<lambda>r. bindE r c)"
  have w: "?w (Inr s) = (if b s then ?w (c s) else Some (Inr s))"
    by (subst while_option_unfold) simp
  have e: "?w (Inl e) = Some (Inl e)" for e
    by (subst while_option_unfold) simp
  show ?thesis by (cases "c s") (simp_all add: loop_def w e)
qed

lemma loop_done: "\<not> b s \<Longrightarrow> loop b c s = Inr s"
  by (subst loop_unfold) simp

lemma loop_step: "b s \<Longrightarrow> c s = Inr t \<Longrightarrow> loop b c s = loop b c t"
  by (subst loop_unfold) simp

text \<open>A loop that stays in a set of states where the guard holds never ends.\<close>

lemma loop_hangs:
  assumes "I s" "\<And>t. I t \<Longrightarrow> b t \<and> (\<exists>u. c t = Inr u \<and> I u)"
  shows "loop b c s = Inl Hang"
proof -
  let ?b = "\<lambda>r. case r of Inl e \<Rightarrow> False | Inr t \<Rightarrow> b t" and ?c = "\<lambda>r. bindE r c"
  have "while_option ?b ?c (Inr s) = None"
  proof (rule ccontr)
    assume "while_option ?b ?c (Inr s) \<noteq> None"
    then obtain r where r: "while_option ?b ?c (Inr s) = Some r" by auto
    have "\<exists>u. bindE (Inr t) c = Inr u \<and> I u" if "I t" for t using assms(2) [OF that] by simp
    then have "\<exists>t. r = Inr t \<and> I t"
      using assms(1) by (intro while_option_rule [where P = "\<lambda>r. \<exists>t. r = Inr t \<and> I t", OF _ r]) blast+
    then show False using while_option_stop [OF r] assms(2) by auto
  qed
  then show ?thesis by (simp add: loop_def)
qed

section \<open>Counting loops over words\<close>

text \<open>The words from \<open>x\<close> to \<open>y\<close>.\<close>

definition wupto :: "u32 \<Rightarrow> u32 \<Rightarrow> u32 list" where
  "wupto x y = map of_nat [unat x..<Suc (unat y)]"

lemma wupto_empty: "y < x \<Longrightarrow> wupto x y = []"
  by (simp add: wupto_def word_less_nat_alt)

lemma unat_Suc_le: "unat (x + 1) = Suc (unat x)" if "x \<le> y" "y \<noteq> -1" for x y :: u32
proof -
  have "x + 1 \<noteq> 0" using that by (metis add_eq_0_iff2 word_order.extremum_uniqueI add.commute)
  then show ?thesis by (simp add: unatSuc add.commute)
qed

lemma wupto_Cons: "x \<le> y \<Longrightarrow> y \<noteq> -1 \<Longrightarrow> wupto x y = x # wupto (x + 1) y"
  by (simp add: wupto_def unat_Suc_le word_le_nat_alt upt_conv_Cons del: upt_Suc)

lemma set_wupto: "set (wupto x y) = {x..y}"
proof -
  have A: "z \<in> set (wupto x y)" if "x \<le> z" "z \<le> y" for z
  proof -
    have "z = of_nat (unat z)" "unat z \<in> set [unat x..<Suc (unat y)]"
      using that by (simp_all add: word_le_nat_alt less_Suc_eq_le del: upt_Suc)
    then show ?thesis unfolding wupto_def set_map by blast
  qed
  have B: "x \<le> z \<and> z \<le> y" if "z \<in> set (wupto x y)" for z
  proof -
    from that obtain n where n: "z = of_nat n" "unat x \<le> n" "n \<le> unat y"
      by (auto simp: wupto_def less_Suc_eq_le)
    have "n < 2 ^ LENGTH(32)" using n(3) unsigned_less [of y] by (rule le_less_trans)
    then have "unat (of_nat n :: u32) = n" by (metis of_nat_inverse)
    with n(1) have "unat z = n" by simp
    then show ?thesis using n by (simp add: word_le_nat_alt)
  qed
  show ?thesis
    by (intro set_eqI iffI) (use A B in \<open>simp_all only: atLeastAtMost_iff\<close>)
qed

text \<open>
  \<open>while( x <= limit ) { f(x); x += 1; }\<close>, with \<open>x\<close> and the rest of the state, where the body
  leaves the limit alone.
\<close>

lemma loop_upto:
  assumes lim: "\<And>x s. lim (f x s) = lim s" and m: "lim s \<noteq> -1"
  shows "loop (\<lambda>(x, s). x \<le> lim s) (\<lambda>(x, s). Inr (x + 1, f x s)) (x, s) =
     Inr (if x \<le> lim s then lim s + 1 else x, fold f (wupto x (lim s)) s)"
  using m
proof (induction "Suc (unat (lim s)) - unat x" arbitrary: x s rule: less_induct)
  case less
  note m = less.prems
  show ?case
  proof (cases "x \<le> lim s")
    case True
    have "loop (\<lambda>(x, s). x \<le> lim s) (\<lambda>(x, s). Inr (x + 1, f x s)) (x, s) =
       loop (\<lambda>(x, s). x \<le> lim s) (\<lambda>(x, s). Inr (x + 1, f x s)) (x + 1, f x s)"
      using True by (intro loop_step) simp_all
    also have "\<dots> = Inr (if x + 1 \<le> lim (f x s) then lim (f x s) + 1 else x + 1,
        fold f (wupto (x + 1) (lim (f x s))) (f x s))"
      using True m by (intro less.hyps) (simp_all add: lim unat_Suc_le [OF True m] word_le_nat_alt)
    also have "\<dots> = Inr (lim s + 1, fold f (wupto x (lim s)) s)"
    proof (cases "x + 1 \<le> lim s")
      case False
      then have eq: "x = lim s" using True unat_Suc_le [OF True m]
        by (auto simp: word_le_nat_alt word_unat_eq_iff)
      have "wupto (x + 1) (lim s) = []" using False by (simp add: wupto_empty not_le)
      then show ?thesis using True wupto_Cons [OF True m] by (simp add: lim eq)
    qed (simp add: lim wupto_Cons [OF True m])
    finally show ?thesis using True by simp
  next
    case False
    then show ?thesis by (simp add: loop_done wupto_empty)
  qed
qed

text \<open>A loop whose counter is part of the state, seen as a loop with the counter beside it.\<close>

lemma loop_view:
  assumes b: "\<And>a. b' (g a) = b a" and c: "\<And>a. c' (g a) = Inr (g (d a))"
    and r: "loop b (\<lambda>a. Inr (d a)) a = Inr r"
  shows "loop b' c' (g a) = Inr (g r)"
proof -
  let ?b = "\<lambda>r. case r of Inl e \<Rightarrow> False | Inr t \<Rightarrow> b t" and ?b' = "\<lambda>r. case r of Inl e \<Rightarrow> False | Inr t \<Rightarrow> b' t"
  have "map_option (map_sum id g) (while_option ?b (\<lambda>r. bindE r (\<lambda>a. Inr (d a))) (Inr a)) =
     while_option ?b' (\<lambda>r. bindE r c') (map_sum id g (Inr a))"
    by (rule while_option_commute) (auto simp: b c split: sum.splits)
  moreover have "while_option ?b (\<lambda>r. bindE r (\<lambda>a. Inr (d a))) (Inr a) = Some (Inr r)"
    using r by (simp add: loop_def split: option.splits)
  ultimately have "while_option ?b' (\<lambda>r. bindE r c') (Inr (g a)) = Some (Inr (g r))" by simp
  then show ?thesis by (simp add: loop_def)
qed

lemma fold_wupto: "fold f (wupto x y) s = fold (\<lambda>n. f (of_nat n)) [unat x..<Suc (unat y)] s"
  by (simp add: wupto_def fold_map comp_def del: upt_Suc)

end
