(* ===== verification/Console.thy ===== *)
theory Console
  imports Loops Machine "HOL-Library.Signed_Division"
begin

text \<open>
  c_io.c: the console.  A part of the screen is the scroll region, where the output of
  \<open>c_putchar\<close> and its kin goes to the cursor, wraps at the right edge and scrolls at the
  bottom; \<open>c_putchar_at\<close> and its kin write at fixed places.  The primed names are the routines
  themselves, where Machine has one of the same name that notes the call in \<open>io\<close>.

  A string is the list of its bytes before the null byte.  A \<open>char\<close> is signed, so that it is
  extended with its sign where an \<open>unsigned int\<close> is wanted.  The two static variables of
  \<open>__c_input_scan_code\<close> are fields of the state.
\<close>

section \<open>The state\<close>

abbreviation (input) SCREEN_MIN_X :: u32 where "SCREEN_MIN_X \<equiv> 0"
abbreviation (input) SCREEN_MIN_Y :: u32 where "SCREEN_MIN_Y \<equiv> 0"
abbreviation (input) SCREEN_X_SIZE :: u32 where "SCREEN_X_SIZE \<equiv> 80"
abbreviation (input) SCREEN_Y_SIZE :: u32 where "SCREEN_Y_SIZE \<equiv> 25"
abbreviation (input) SCREEN_MAX_X :: u32 where "SCREEN_MAX_X \<equiv> SCREEN_X_SIZE - 1"
abbreviation (input) SCREEN_MAX_Y :: u32 where "SCREEN_MAX_Y \<equiv> SCREEN_Y_SIZE - 1"
abbreviation (input) VIDEO_BASE_ADDR :: u32 where "VIDEO_BASE_ADDR \<equiv> 0xB8000"
abbreviation (input) C_BUFSIZE :: nat where "C_BUFSIZE \<equiv> 200"
abbreviation (input) KEYBOARD_DATA :: u32 where "KEYBOARD_DATA \<equiv> 0x60"
abbreviation (input) KEYBOARD_STATUS :: u32 where "KEYBOARD_STATUS \<equiv> 0x64"
abbreviation (input) READY :: u32 where "READY \<equiv> 0x1"
abbreviation (input) EOT :: u8 where "EOT \<equiv> 4"
abbreviation (input) NUL :: u8 where "NUL \<equiv> 0"
abbreviation (input) BLANK :: u16 where "BLANK \<equiv> 0x0720"

record console = machine +
  video :: "u32 \<Rightarrow> u16"
  scroll_min_x :: u32
  scroll_min_y :: u32
  scroll_max_x :: u32
  scroll_max_y :: u32
  curr_x :: u32
  curr_y :: u32
  min_x :: u32
  min_y :: u32
  max_x :: u32
  max_y :: u32
  kbd_shift :: u32
  kbd_ctrl_mask :: u32
  input_buffer :: "nat \<Rightarrow> u8"
  next_char :: nat
  next_space :: nat

definition video_addr :: "u32 \<Rightarrow> u32 \<Rightarrow> u32" where
  "video_addr x y = VIDEO_BASE_ADDR + 2 * (y * SCREEN_X_SIZE + x)"

section \<open>Support routines\<close>

definition bound :: "u32 \<Rightarrow> u32 \<Rightarrow> u32 \<Rightarrow> u32" where
  "bound mn v mx =
     (let v = (if v < mn then mn else v);
          v = (if mx < v then mx else v)
      in v)"

definition c_setcursor :: "console \<Rightarrow> console" where
  "c_setcursor s =
     (let y = curr_y s;
          y = (if scroll_max_y s < y then scroll_max_y s else y);
          addr = y * SCREEN_X_SIZE + curr_x s;
          s = outb 0x3d4 0xe s;
          s = outb 0x3d5 (drop_bit 8 addr AND 0xff) s;
          s = outb 0x3d4 0xf s
      in outb 0x3d5 (addr AND 0xff) s)"

definition c_strlen :: "u8 list \<Rightarrow> u32" where
  "c_strlen str = of_nat (length str)"

definition put_raw :: "u32 \<Rightarrow> u32 \<Rightarrow> u32 \<Rightarrow> console \<Rightarrow> console" where
  "put_raw x y c s =
     (if x \<le> max_x s \<and> y \<le> max_y s then
        let addr = video_addr x y in
        if 0xff < c then s\<lparr>video := (video s)(addr := ucast c)\<rparr>
        else s\<lparr>video := (video s)(addr := ucast c OR 0x0700)\<rparr>
      else s)"

definition c_setscroll :: "u32 \<Rightarrow> u32 \<Rightarrow> u32 \<Rightarrow> u32 \<Rightarrow> console \<Rightarrow> console" where
  "c_setscroll s_min_x s_min_y s_max_x s_max_y s =
     (let s = s\<lparr>scroll_min_x := bound (min_x s) s_min_x (max_x s)\<rparr>;
          s = s\<lparr>scroll_min_y := bound (min_y s) s_min_y (max_y s)\<rparr>;
          s = s\<lparr>scroll_max_x := bound (scroll_min_x s) s_max_x (max_x s)\<rparr>;
          s = s\<lparr>scroll_max_y := bound (scroll_min_y s) s_max_y (max_y s)\<rparr>;
          s = s\<lparr>curr_x := scroll_min_x s\<rparr>;
          s = s\<lparr>curr_y := scroll_min_y s\<rparr>
      in c_setcursor s)"

definition c_moveto :: "u32 \<Rightarrow> u32 \<Rightarrow> console \<Rightarrow> console" where
  "c_moveto x y s =
     (let s = s\<lparr>curr_x := bound (scroll_min_x s) (x + scroll_min_x s) (scroll_max_x s)\<rparr>;
          s = s\<lparr>curr_y := bound (scroll_min_y s) (y + scroll_min_y s) (scroll_max_y s)\<rparr>
      in c_setcursor s)"

section \<open>Clearing and scrolling\<close>

text \<open>Store \<open>n\<close> blanks from the address \<open>to\<close> on, and copy \<open>n\<close> cells.\<close>

definition blanks :: "u32 \<Rightarrow> nat \<Rightarrow> console \<Rightarrow> console" where
  "blanks to n s = fold (\<lambda>c s. s\<lparr>video := (video s)(to + 2 * of_nat c := 0x20 OR 0x0700)\<rparr>) [0..<n] s"

definition copy_cells :: "u32 \<Rightarrow> u32 \<Rightarrow> nat \<Rightarrow> console \<Rightarrow> console" where
  "copy_cells to from n s =
     fold (\<lambda>c s. s\<lparr>video := (video s)(to + 2 * of_nat c := video s (from + 2 * of_nat c))\<rparr>) [0..<n] s"

definition c_clearscroll :: "console \<Rightarrow> console outcome" where
  "c_clearscroll s =
     (let nchars = scroll_max_x s - scroll_min_x s + 1 in
      bindE (loop (\<lambda>(l, s). l \<le> scroll_max_y s)
               (\<lambda>(l, s). Inr (l + 1, blanks (video_addr (scroll_min_x s) l) (unat nchars) s))
               (scroll_min_y s, s))
        (\<lambda>(l, s). Inr s))"

definition c_clearscreen :: "console \<Rightarrow> console" where
  "c_clearscreen s =
     (let to = video_addr (min_x s) (min_y s);
          nchars = (max_y s - min_y s + 1) * (max_x s - min_x s + 1)
      in blanks to (unat nchars) s)"

text \<open>\<open>c_scroll\<close> counts its cells in an \<open>int\<close>: a negative number of them is none.\<close>

definition c_scroll :: "u32 \<Rightarrow> console \<Rightarrow> console outcome" where
  "c_scroll lines s =
     (let nchars = nat (sint (scroll_max_x s - scroll_min_x s + 1)) in
      if scroll_max_y s - scroll_min_y s < lines then
        bindE (c_clearscroll s) (\<lambda>s.
          let s = s\<lparr>curr_x := scroll_min_x s\<rparr>;
              s = s\<lparr>curr_y := scroll_min_y s\<rparr>
          in Inr (c_setcursor s))
      else
        bindE (loop (\<lambda>(line, s). line \<le> scroll_max_y s - lines)
                 (\<lambda>(line, s). Inr (line + 1,
                    copy_cells (video_addr (scroll_min_x s) line) (video_addr (scroll_min_x s) (line + lines)) nchars s))
                 (scroll_min_y s, s))
          (\<lambda>(line, s).
             bindE (loop (\<lambda>(line, s). line \<le> scroll_max_y s)
                      (\<lambda>(line, s). Inr (line + 1, blanks (video_addr (scroll_min_x s) line) nchars s))
                      (line, s))
               (\<lambda>(line, s). Inr s)))"

section \<open>The putchar and puts families\<close>

definition c_putchar_at' :: "u32 \<Rightarrow> u32 \<Rightarrow> u32 \<Rightarrow> console \<Rightarrow> console outcome" where
  "c_putchar_at' x y c s =
     (if c AND 0x7f = 10 then
        let limit = (if scroll_max_x s < x then max_x s
                     else if scroll_min_x s \<le> x then scroll_max_x s
                     else scroll_min_x s - 1)
        in bindE (loop (\<lambda>(x, s). x \<le> limit) (\<lambda>(x, s). Inr (x + 1, put_raw x y 0x20 s)) (x, s))
             (\<lambda>(x, s). Inr s)
      else Inr (put_raw x y c s))"

definition c_putchar :: "u32 \<Rightarrow> console \<Rightarrow> console outcome" where
  "c_putchar c s =
     bindE (if scroll_max_y s < curr_y s then
              bindE (c_scroll (curr_y s - scroll_max_y s) s) (\<lambda>s. Inr (s\<lparr>curr_y := scroll_max_y s\<rparr>))
            else Inr s)
       (\<lambda>s.
          bindE
            (if c AND 0xff = 10 then
               bindE (loop (\<lambda>s. curr_x s \<le> scroll_max_x s)
                        (\<lambda>s. let s = put_raw (curr_x s) (curr_y s) 0x20 s
                             in Inr (s\<lparr>curr_x := curr_x s + 1\<rparr>)) s)
                 (\<lambda>s. let s = s\<lparr>curr_x := scroll_min_x s\<rparr> in Inr (s\<lparr>curr_y := curr_y s + 1\<rparr>))
             else if c AND 0xff = 13 then Inr (s\<lparr>curr_x := scroll_min_x s\<rparr>)
             else
               let s = put_raw (curr_x s) (curr_y s) c s;
                   s = s\<lparr>curr_x := curr_x s + 1\<rparr>
               in if scroll_max_x s < curr_x s then
                    let s = s\<lparr>curr_x := scroll_min_x s\<rparr> in Inr (s\<lparr>curr_y := curr_y s + 1\<rparr>)
                  else Inr s)
            (\<lambda>s. Inr (c_setcursor s)))"

fun c_puts_at' :: "u32 \<Rightarrow> u32 \<Rightarrow> u8 list \<Rightarrow> console \<Rightarrow> console outcome" where
  "c_puts_at' x y [] s = Inr s"
| "c_puts_at' x y (ch # str) s =
     (if x \<le> max_x s then bindE (c_putchar_at' x y (scast ch) s) (c_puts_at' (x + 1) y str)
      else Inr s)"

fun c_puts' :: "u8 list \<Rightarrow> console \<Rightarrow> console outcome" where
  "c_puts' [] s = Inr s"
| "c_puts' (ch # str) s = bindE (c_putchar (scast ch) s) (c_puts' str)"

section \<open>Conversions\<close>

text \<open>
  The converting routines give the bytes they store in the buffer, without the null byte;
  the number of them is what the C routines return.  Division is that of C, towards zero.
\<close>

definition sdiv10 :: "u32 \<Rightarrow> u32" where
  "sdiv10 v = word_of_int (sint v sdiv 10)"

definition smod10 :: "u32 \<Rightarrow> u32" where
  "smod10 v = word_of_int (sint v smod 10)"

function cvtdec0 :: "u32 \<Rightarrow> u8 list" where
  "cvtdec0 v =
     (let quotient = sdiv10 v;
          (quotient, v) = (if quotient <s 0 then (214748364, 8) else (quotient, v))
      in (if quotient \<noteq> 0 then cvtdec0 quotient else []) @ [ucast (smod10 v + 48)])"
  by pat_completeness auto

definition cvtdec0_measure :: "u32 \<Rightarrow> nat" where
  "cvtdec0_measure v = (if sint v < 0 then 2 ^ 32 else nat (sint v))"

lemma sint_sdiv10: "sint (sdiv10 v) = sint v sdiv 10"
proof -
  have "- (2 ^ 31) \<le> sint v" "sint v < 2 ^ 31"
    using sint_range_size [of v] by (simp_all add: word_size)
  then have "- (2 ^ 31) \<le> sint v sdiv 10" "sint v sdiv 10 < 2 ^ 31"
    by (auto simp: signed_divide_int_def sgn_if)
  then show ?thesis by (simp add: sdiv10_def signed_of_int signed_take_bit_int_eq_self)
qed

termination cvtdec0
proof (relation "measure cvtdec0_measure")
  fix v q p q' v'
  assume q: "q = sdiv10 v" "p = (if q <s 0 then (214748364, 8) else (q, v))" "(q', v') = p" "q' \<noteq> 0"
  have r: "sint v < 2 ^ 31" using sint_range_size [of v] by (simp add: word_size)
  have "sint q' = sint v div 10 \<and> 0 < sint v \<or> sint v < 0 \<and> q' = 214748364"
  proof (cases "q <s 0")
    case True
    then have "sint v sdiv 10 < 0" using q(1) by (simp add: word_sless_alt sint_sdiv10)
    then show ?thesis using True q(2,3) by (auto simp: signed_divide_int_def sgn_if split: if_splits)
  next
    case False
    then have "\<not> sint v sdiv 10 < 0" "q' = q" using q(1-3) by (simp_all add: word_sless_alt sint_sdiv10)
    moreover have "sint q' \<noteq> 0" using q(4) by (metis signed_0 signed_word_eqI)
    ultimately show ?thesis using q(1) by (auto simp: sint_sdiv10 signed_divide_int_def sgn_if split: if_splits)
  qed
  then show "(q', v) \<in> measure cvtdec0_measure"
    by (auto simp: cvtdec0_measure_def)
qed simp

declare cvtdec0.simps [simp del]

definition cvtdec :: "u32 \<Rightarrow> u8 list" where
  "cvtdec v = (if v <s 0 then 45 # cvtdec0 (- v) else cvtdec0 v)"

definition hexdigits :: "u8 list" where
  "hexdigits = [48, 49, 50, 51, 52, 53, 54, 55, 56, 57, 65, 66, 67, 68, 69, 70]"

definition cvthex_step :: "nat \<Rightarrow> u32 \<times> bool \<times> u8 list \<Rightarrow> u32 \<times> bool \<times> u8 list" where
  "cvthex_step i = (\<lambda>(v, chars_stored, out).
     let val = v AND 0xf0000000 in
     if i = 7 \<or> val \<noteq> 0 \<or> chars_stored then
       let val = signed_drop_bit 28 val; val = val AND 0xf
       in (push_bit 4 v, True, out @ [hexdigits ! unat val])
     else (push_bit 4 v, chars_stored, out))"

definition cvthex :: "u32 \<Rightarrow> u8 list" where
  "cvthex v = snd (snd (fold cvthex_step [0..<8] (v, False, [])))"

definition cvtoct_step :: "nat \<Rightarrow> u32 \<times> u32 \<times> bool \<times> u8 list \<Rightarrow> u32 \<times> u32 \<times> bool \<times> u8 list" where
  "cvtoct_step i = (\<lambda>(v, val, chars_stored, out).
     let (chars_stored, val, out) =
           (if i = 10 \<or> val \<noteq> 0 \<or> chars_stored then
              let val = val AND 0x7 in (True, val, out @ [hexdigits ! unat val])
            else (chars_stored, val, out));
         v = push_bit 3 v
     in (v, signed_drop_bit 29 (v AND 0xe0000000), chars_stored, out))"

definition cvtoct :: "u32 \<Rightarrow> u8 list" where
  "cvtoct v =
     (let val = signed_drop_bit 30 (v AND 0xc0000000)
      in snd (snd (snd (fold cvtoct_step [0..<11] (v, val, False, [])))))"

section \<open>Printing with a format\<close>

text \<open>
  An argument of a \<open>printf\<close> is a number or a string.  Taking the one where the other was given,
  or one that was not given at all, is \<open>Wild\<close>.
\<close>

datatype printf_arg = Num u32 | Str "u8 list"

text \<open>
  The place in the format: the bytes before the null byte that are still to come, or
  \<open>None\<close> behind the null byte, where nothing may be read.
\<close>

type_synonym fmt_ptr = "u8 list option"

fun next_fmt :: "fmt_ptr \<Rightarrow> (u8 \<times> fmt_ptr) outcome" where
  "next_fmt None = Inl (Overrun ''format'')"
| "next_fmt (Some []) = Inr (NUL, None)"
| "next_fmt (Some (ch # fmt)) = Inr (ch, Some fmt)"

fun next_num :: "printf_arg list \<Rightarrow> (u32 \<times> printf_arg list) outcome" where
  "next_num (Num v # ap) = Inr (v, ap)"
| "next_num ap = Inl Wild"

fun next_str :: "printf_arg list \<Rightarrow> (u8 list \<times> printf_arg list) outcome" where
  "next_str (Str v # ap) = Inr (v, ap)"
| "next_str ap = Inl Wild"

fun pad :: "nat \<Rightarrow> u32 \<Rightarrow> u32 \<Rightarrow> u32 \<Rightarrow> console \<Rightarrow> (u32 \<times> console) outcome" where
  "pad 0 x y padchar s = Inr (x, s)"
| "pad (Suc extra) x y padchar s =
     (if x \<noteq> -1 \<or> y \<noteq> -1 then bindE (c_putchar_at' x y padchar s) (pad extra (x + 1) y padchar)
      else bindE (c_putchar padchar s) (pad extra x y padchar))"

definition padstr :: "u32 \<Rightarrow> u32 \<Rightarrow> u8 list \<Rightarrow> u32 \<Rightarrow> u32 \<Rightarrow> bool \<Rightarrow> u32 \<Rightarrow> console \<Rightarrow> (u32 \<times> console) outcome" where
  "padstr x y str len width leftadjust padchar s =
     (let len = (if len <s 0 then c_strlen str else len);
          extra = width - len
      in bindE (if 0 <s extra \<and> \<not> leftadjust then pad (unat extra) x y padchar s else Inr (x, s)) (\<lambda>(x, s).
           bindE (if x \<noteq> -1 \<or> y \<noteq> -1 then bindE (c_puts_at' x y str s) (\<lambda>s. Inr (x + len, s))
                  else bindE (c_puts' str s) (\<lambda>s. Inr (x, s))) (\<lambda>(x, s).
             if 0 <s extra \<and> leftadjust then pad (unat extra) x y padchar s else Inr (x, s))))"

text \<open>The digits of the width, from the character \<open>ch\<close> on.\<close>

fun fmt_width :: "u32 \<Rightarrow> u8 \<Rightarrow> u8 list \<Rightarrow> (u32 \<times> u8 \<times> fmt_ptr)" where
  "fmt_width width ch [] =
     (if 48 \<le> ch \<and> ch \<le> 57 then (width * 10 + (ucast ch - 48), NUL, None) else (width, ch, Some []))"
| "fmt_width width ch (c # fmt) =
     (if 48 \<le> ch \<and> ch \<le> 57 then fmt_width (width * 10 + (ucast ch - 48)) c fmt else (width, ch, Some (c # fmt)))"

text \<open>The options of a format code, up to its type: alignment, fill and width.\<close>

definition fmt_options :: "fmt_ptr \<Rightarrow> (bool \<times> u32 \<times> u32 \<times> u8 \<times> fmt_ptr) outcome" where
  "fmt_options fmt =
     bindE (next_fmt fmt) (\<lambda>(ch, fmt).
       bindE (if ch = 45 then bindE (next_fmt fmt) (\<lambda>(ch, fmt). Inr (True, ch, fmt)) else Inr (False, ch, fmt))
         (\<lambda>(leftadjust, ch, fmt).
            bindE (if ch = 48 then bindE (next_fmt fmt) (\<lambda>(ch, fmt). Inr (48, ch, fmt)) else Inr (32, ch, fmt))
              (\<lambda>(padchar, ch, fmt).
                 case fmt of
                   None \<Rightarrow> Inr (leftadjust, padchar, 0, ch, None)
                 | Some f \<Rightarrow> (case fmt_width 0 ch f of (width, ch, fmt) \<Rightarrow>
                     Inr (leftadjust, padchar, width, ch, fmt)))))"

text \<open>One format code, of type \<open>ch\<close>.  An unknown type prints nothing.\<close>

definition printf_conv ::
  "u8 \<Rightarrow> bool \<Rightarrow> u32 \<Rightarrow> u32 \<Rightarrow> u32 \<Rightarrow> u32 \<Rightarrow> printf_arg list \<Rightarrow> console \<Rightarrow> (u32 \<times> printf_arg list \<times> console) outcome" where
  "printf_conv ch leftadjust padchar width x y ap s =
     (let print = (\<lambda>str len ap. bindE (padstr x y str len width leftadjust padchar s) (\<lambda>(x, s). Inr (x, ap, s))) in
      if ch = 99 then bindE (next_num ap) (\<lambda>(v, ap).
        let ch = (ucast v :: u8) in print (if ch = NUL then [] else [ch]) 1 ap)
      else if ch = 100 then bindE (next_num ap) (\<lambda>(v, ap).
        let buf = cvtdec v in print buf (of_nat (length buf)) ap)
      else if ch = 115 then bindE (next_str ap) (\<lambda>(str, ap). print str (-1) ap)
      else if ch = 120 then bindE (next_num ap) (\<lambda>(v, ap).
        let buf = cvthex v in print buf (of_nat (length buf)) ap)
      else if ch = 111 then bindE (next_num ap) (\<lambda>(v, ap).
        let buf = cvtoct v in print buf (of_nat (length buf)) ap)
      else Inr (x, ap, s))"

text \<open>
  Every round takes at least one byte of the format, so one round more than there are bytes
  is enough.
\<close>

fun do_printf :: "nat \<Rightarrow> u32 \<Rightarrow> u32 \<Rightarrow> fmt_ptr \<Rightarrow> printf_arg list \<Rightarrow> console \<Rightarrow> console outcome" where
  "do_printf 0 x y fmt ap s = Inl Hang"
| "do_printf (Suc fuel) x y fmt ap s =
     bindE (next_fmt fmt) (\<lambda>(ch, fmt).
       if ch = NUL then Inr s
       else if ch = 37 then
         bindE (fmt_options fmt) (\<lambda>(leftadjust, padchar, width, ch, fmt).
           bindE (printf_conv ch leftadjust padchar width x y ap s) (\<lambda>(x, ap, s).
             do_printf fuel x y fmt ap s))
       else if x \<noteq> -1 \<or> y \<noteq> -1 then
         bindE (c_putchar_at' x y (scast ch) s) (\<lambda>s.
           if ch = 10 then do_printf fuel (scroll_min_x s) (y + 1) fmt ap s
           else if ch = 13 then do_printf fuel (scroll_min_x s) y fmt ap s
           else do_printf fuel (x + 1) y fmt ap s)
       else bindE (c_putchar (scast ch) s) (do_printf fuel x y fmt ap))"

definition c_printf_at :: "u32 \<Rightarrow> u32 \<Rightarrow> u8 list \<Rightarrow> printf_arg list \<Rightarrow> console \<Rightarrow> console outcome" where
  "c_printf_at x y fmt ap s = do_printf (length fmt + 1) x y (Some fmt) ap s"

definition c_printf' :: "u8 list \<Rightarrow> printf_arg list \<Rightarrow> console \<Rightarrow> console outcome" where
  "c_printf' fmt ap s = do_printf (length fmt + 1) (-1) (-1) (Some fmt) ap s"

section \<open>The keyboard\<close>

definition scan_code :: "u8 list list" where
  "scan_code =
     [[255, 27, 49, 50, 51, 52, 53, 54, 55, 56, 57, 48, 45, 61, 8, 9, 113, 119, 101, 114,
      116, 121, 117, 105, 111, 112, 91, 93, 10, 255, 97, 115, 100, 102, 103, 104, 106,
      107, 108, 59, 39, 96, 255, 92, 122, 120, 99, 118, 98, 110, 109, 44, 46, 47, 255, 42,
      255, 32, 255, 255, 255, 255, 255, 255, 255, 255, 255, 255, 255, 255, 255, 55, 56,
      57, 45, 52, 53, 54, 43, 49, 50, 51, 48, 46] @ replicate 44 255,
      [255, 27, 33, 64, 35, 36, 37, 94, 38, 42, 40, 41, 95, 43, 8, 9, 81, 87, 69, 82, 84,
      89, 85, 73, 79, 80, 123, 125, 10, 255, 65, 83, 68, 70, 71, 72, 74, 75, 76, 58, 34,
      126, 255, 124, 90, 88, 67, 86, 66, 78, 77, 60, 62, 63, 255, 42, 255, 32, 255, 255,
      255, 255, 255, 255, 255, 255, 255, 255, 255, 255, 255, 55, 56, 57, 45, 52, 53, 54,
      43, 49, 50, 51, 48, 46] @ replicate 44 255]"

text \<open>
  The pointers into the circular buffer are indices.  The constant \<open>'\377'\<close> is -1, because a
  \<open>char\<close> is signed, and the entries of the table are not.
\<close>

definition c_increment :: "nat \<Rightarrow> nat" where
  "c_increment pointer = (let pointer = pointer + 1 in if C_BUFSIZE \<le> pointer then 0 else pointer)"

definition input_scan_code :: "u32 \<Rightarrow> console \<Rightarrow> console" where
  "input_scan_code code s =
     (let code = code AND 0xff in
      if code = 0x2a \<or> code = 0x36 then s\<lparr>kbd_shift := 1\<rparr>
      else if code = 0xaa \<or> code = 0xb6 then s\<lparr>kbd_shift := 0\<rparr>
      else if code = 0x1d then s\<lparr>kbd_ctrl_mask := 0x1f\<rparr>
      else if code = 0x9d then s\<lparr>kbd_ctrl_mask := 0xff\<rparr>
      else if code AND 0x80 = 0 then
        let code = (ucast (scan_code ! unat (kbd_shift s) ! unat code) :: u32) in
        if code \<noteq> -1 then
          let nxt = c_increment (next_space s) in
          if nxt \<noteq> next_char s then
            let s = s\<lparr>input_buffer := (input_buffer s)(next_space s := ucast (code AND kbd_ctrl_mask s))\<rparr>
            in s\<lparr>next_space := nxt\<rparr>
          else s
        else s
      else s)"

definition keyboard_isr :: "console \<Rightarrow> console outcome" where
  "keyboard_isr s =
     bindE (inb KEYBOARD_DATA s) (\<lambda>(code, s).
       Inr (outb PIC_MASTER_CMD_PORT PIC_EOI (input_scan_code code s)))"

text \<open>
  Waiting for a keystroke.  With the interrupts on, the loop of \<open>c_getchar\<close> does nothing, and
  what changes the buffer is the keyboard's interrupt; with the interrupts off the loop polls
  the keyboard.
\<close>

definition poll_keyboard :: "console \<Rightarrow> console outcome" where
  "poll_keyboard s =
     bindE (bindE (inb KEYBOARD_STATUS s) (loop (\<lambda>(v, s). v AND READY = 0) (\<lambda>(v, s). inb KEYBOARD_STATUS s)))
       (\<lambda>(v, s). bindE (inb KEYBOARD_DATA s) (\<lambda>(code, s). Inr (input_scan_code code s)))"

definition c_getchar :: "bool \<Rightarrow> console \<Rightarrow> (u8 \<times> console) outcome" where
  "c_getchar interrupts_enabled s =
     bindE (loop (\<lambda>s. next_char s = next_space s)
              (\<lambda>s. if \<not> interrupts_enabled then poll_keyboard s else keyboard_isr s) s)
       (\<lambda>s.
          let c = input_buffer s (next_char s);
              s = s\<lparr>next_char := c_increment (next_char s)\<rparr>
          in bindE (if c \<noteq> EOT then c_putchar (scast c) s else Inr s) (\<lambda>s. Inr (c, s)))"

text \<open>The characters of a line, at most \<open>size - 1\<close> of them, stored from \<open>buffer\<close> on.\<close>

fun c_gets_loop :: "nat \<Rightarrow> bool \<Rightarrow> u32 \<Rightarrow> u32 \<Rightarrow> console \<Rightarrow> (u32 \<times> u32 \<times> console) outcome" where
  "c_gets_loop 0 ie buffer cnt s = Inr (buffer, cnt, s)"
| "c_gets_loop (Suc n) ie buffer cnt s =
     bindE (c_getchar ie s) (\<lambda>(ch, s).
       if ch = EOT then Inr (buffer, cnt, s)
       else
         let s = st8 buffer ch s in
         if ch = 10 then Inr (buffer + 1, cnt + 1, s)
         else c_gets_loop n ie (buffer + 1) (cnt + 1) s)"

definition c_gets :: "bool \<Rightarrow> u32 \<Rightarrow> u32 \<Rightarrow> console \<Rightarrow> (u32 \<times> console) outcome" where
  "c_gets ie buffer sz s =
     bindE (c_gets_loop (unat sz - 1) ie buffer 0 s) (\<lambda>(buffer, cnt, s).
       Inr (cnt, st8 buffer 0 s))"

definition c_input_queue :: "console \<Rightarrow> int" where
  "c_input_queue s =
     (let n_chars = int (next_space s) - int (next_char s)
      in if n_chars < 0 then n_chars + int C_BUFSIZE else n_chars)"

section \<open>Initialisation\<close>

text \<open>The keyboard's handler is put into the table of support.c by \<open>_init\<close>'s model.\<close>

definition c_io_init :: "console \<Rightarrow> console" where
  "c_io_init s =
     (let s = s\<lparr>min_x := SCREEN_MIN_X\<rparr>;
          s = s\<lparr>min_y := SCREEN_MIN_Y\<rparr>;
          s = s\<lparr>max_x := SCREEN_MAX_X\<rparr>;
          s = s\<lparr>max_y := SCREEN_MAX_Y\<rparr>;
          s = s\<lparr>scroll_min_x := SCREEN_MIN_X\<rparr>;
          s = s\<lparr>scroll_min_y := SCREEN_MIN_Y\<rparr>;
          s = s\<lparr>scroll_max_x := SCREEN_MAX_X\<rparr>;
          s = s\<lparr>scroll_max_y := SCREEN_MAX_Y\<rparr>;
          s = s\<lparr>curr_y := min_y s\<rparr>;
          s = s\<lparr>curr_x := min_x s\<rparr>
      in c_setcursor s)"

end
