(* ===== verification/Screen.thy ===== *)
theory Screen
  imports Console
begin

text \<open>
  What the routines of the console do to the cells of the screen, and the terminal they
  present: a window of rows, a place in it, and rows that move up when the place has gone past
  the last one.
\<close>

section \<open>Cells\<close>

definition vaddr :: "nat \<Rightarrow> nat \<Rightarrow> u32" where
  "vaddr i j = of_nat (0xB8000 + 2 * (j * 80 + i))"

lemma video_addr_vaddr: "video_addr x y + 2 * of_nat c = vaddr (unat x + c) (unat y)"
  by (simp add: video_addr_def vaddr_def algebra_simps)

lemma video_addr_vaddr0: "video_addr x y = vaddr (unat x) (unat y)"
  using video_addr_vaddr [of x y 0] by simp

lemma vaddr_step: "vaddr i j + 2 * of_nat c = vaddr (i + c) j"
  by (simp add: vaddr_def algebra_simps)

lemma vaddr_eq_iff:
  assumes "i < 80" "i' < 80" "j < 25" "j' < 25"
  shows "vaddr i j = vaddr i' j' \<longleftrightarrow> i = i' \<and> j = j'"
proof -
  let ?n = "\<lambda>i j. 0xB8000 + 2 * (j * 80 + i) :: nat"
  have "unat (vaddr i j) = ?n i j" "unat (vaddr i' j') = ?n i' j'"
    using assms unfolding vaddr_def by (intro of_nat_inverse [OF refl]; simp)+
  then have "vaddr i j = vaddr i' j' \<longleftrightarrow> ?n i j = ?n i' j'"
    unfolding word_unat_eq_iff by simp
  also have "\<dots> \<longleftrightarrow> j * 80 + i = j' * 80 + i'" by (simp only: add_left_cancel mult_cancel1) simp
  also have "\<dots> \<longleftrightarrow> i = i' \<and> j = j'"
  proof
    assume e: "j * 80 + i = j' * 80 + i'"
    have "(j * 80 + i) div 80 = j" "(j' * 80 + i') div 80 = j'" using assms(1,2) by simp_all
    with e have "j = j'" by simp
    with e show "i = i' \<and> j = j'" by simp
  qed simp
  finally show ?thesis .
qed

definition cell :: "console \<Rightarrow> nat \<Rightarrow> nat \<Rightarrow> u16" where
  "cell s i j = video s (vaddr i j)"

text \<open>Only the video memory has changed.\<close>

definition only_video :: "console \<Rightarrow> console \<Rightarrow> bool" where
  "only_video s t \<longleftrightarrow> t\<lparr>video := video s\<rparr> = s"

lemma only_videoE:
  assumes "only_video s t"
  obtains v where "t = s\<lparr>video := v\<rparr>"
proof -
  have "t = (t\<lparr>video := video s\<rparr>)\<lparr>video := video t\<rparr>" by simp
  with assms have "t = s\<lparr>video := video t\<rparr>" unfolding only_video_def by metis
  then show thesis ..
qed

lemma only_video_update [simp]: "only_video s (s\<lparr>video := v\<rparr>)"
  by (simp add: only_video_def)

lemma only_video_refl [simp]: "only_video s s"
  by (simp add: only_video_def)

lemma only_video_trans: "only_video s t \<Longrightarrow> only_video t u \<Longrightarrow> only_video s u"
  by (elim only_videoE) simp

lemma only_video_fields:
  assumes "only_video s t"
  shows "scroll_min_x t = scroll_min_x s" "scroll_min_y t = scroll_min_y s"
    "scroll_max_x t = scroll_max_x s" "scroll_max_y t = scroll_max_y s"
    "curr_x t = curr_x s" "curr_y t = curr_y s" "min_x t = min_x s" "min_y t = min_y s"
    "max_x t = max_x s" "max_y t = max_y s" "inq t = inq s" "io t = io s" "mem t = mem s"
    "input_buffer t = input_buffer s" "next_char t = next_char s" "next_space t = next_space s"
    "kbd_shift t = kbd_shift s" "kbd_ctrl_mask t = kbd_ctrl_mask s"
  using assms by (auto elim: only_videoE)

definition glyph :: "u32 \<Rightarrow> u16" where
  "glyph c = (if 0xff < c then ucast c else ucast c OR 0x0700)"

text \<open>Storing one cell.\<close>

lemma cell_store:
  assumes "i < 80" "i' < 80" "j < 25" "j' < 25"
  shows "cell (s\<lparr>video := (video s)(vaddr i' j' := v)\<rparr>) i j = (if i = i' \<and> j = j' then v else cell s i j)"
  using vaddr_eq_iff [OF assms] by (simp add: cell_def)

definition screen_ok :: "console \<Rightarrow> bool" where
  "screen_ok s \<longleftrightarrow> min_x s = 0 \<and> min_y s = 0 \<and> max_x s = 79 \<and> max_y s = 24"

lemma screen_ok_only: "only_video s t \<Longrightarrow> screen_ok t = screen_ok s"
  by (simp add: screen_ok_def only_video_fields)

lemma only_video_put_raw [simp]: "only_video s (put_raw x y c s)"
  by (simp add: put_raw_def Let_def)

lemma cell_put_raw:
  assumes "screen_ok s" "i < 80" "j < 25"
  shows "cell (put_raw x y c s) i j = (if i = unat x \<and> j = unat y then glyph c else cell s i j)"
proof (cases "x \<le> 79 \<and> y \<le> 24")
  case True
  then have "unat x < 80" "unat y < 25" by (simp_all add: word_le_nat_alt)
  with True assms show ?thesis
    by (simp add: put_raw_def screen_ok_def Let_def glyph_def video_addr_vaddr0 cell_store)
next
  case False
  then have "\<not> (i = unat x \<and> j = unat y)" using assms(2,3) by (auto simp: word_le_nat_alt)
  with False assms(1) show ?thesis by (auto simp: put_raw_def screen_ok_def)
qed

lemma only_video_blanks [simp]: "only_video s (blanks to n s)"
  unfolding blanks_def by (induction n) (auto intro: only_video_trans)

lemma cell_blanks:
  assumes "i0 + n \<le> 80" "j0 < 25" "i < 80" "j < 25"
  shows "cell (blanks (vaddr i0 j0) n s) i j = (if i0 \<le> i \<and> i < i0 + n \<and> j = j0 then BLANK else cell s i j)"
  using assms(1)
proof (induction n)
  case (Suc n)
  have b: "blanks (vaddr i0 j0) (Suc n) s =
     (blanks (vaddr i0 j0) n s)\<lparr>video := (video (blanks (vaddr i0 j0) n s))(vaddr (i0 + n) j0 := BLANK)\<rparr>"
    by (simp add: blanks_def vaddr_step)
  show ?case
    unfolding b using Suc assms(2-4) by (subst cell_store) auto
qed (auto simp: blanks_def)

lemma only_video_copy_cells [simp]: "only_video s (copy_cells to from n s)"
  unfolding copy_cells_def by (induction n) (auto intro: only_video_trans)

lemma cell_copy_cells:
  assumes "i0 + n \<le> 80" "j0 < 25" "j1 < 25" "i < 80" "j < 25"
  shows "cell (copy_cells (vaddr i0 j0) (vaddr i0 j1) n s) i j =
    (if i0 \<le> i \<and> i < i0 + n \<and> j = j0 then cell s i j1 else cell s i j)"
  using assms(1,4,5)
proof (induction n arbitrary: i j)
  case (Suc n)
  let ?t = "copy_cells (vaddr i0 j0) (vaddr i0 j1) n s"
  have b: "copy_cells (vaddr i0 j0) (vaddr i0 j1) (Suc n) s =
     ?t\<lparr>video := (video ?t)(vaddr (i0 + n) j0 := cell ?t (i0 + n) j1)\<rparr>"
    by (simp add: copy_cells_def vaddr_step cell_def)
  have "cell ?t (i0 + n) j1 = cell s (i0 + n) j1" using Suc assms(3) by simp
  then show ?case
    unfolding b using Suc assms(2,3) by (subst cell_store) auto
qed (auto simp: copy_cells_def)

text \<open>Painting cells one after the other.\<close>

lemma fold_paint:
  assumes "\<And>x t. x \<in> set xs \<Longrightarrow> only_video s t \<Longrightarrow> only_video t (f x t) \<and>
     (\<forall>i < 80. \<forall>j < 25. cell (f x t) i j = (if P x i j then v else cell t i j))"
  shows "only_video s (fold f xs s) \<and>
     (\<forall>i < 80. \<forall>j < 25. cell (fold f xs s) i j = (if \<exists>x \<in> set xs. P x i j then v else cell s i j))"
  using assms
proof (induction xs rule: rev_induct)
  case (snoc x xs)
  let ?t = "fold f xs s"
  have t: "only_video s ?t" "\<forall>i < 80. \<forall>j < 25. cell ?t i j = (if \<exists>x \<in> set xs. P x i j then v else cell s i j)"
    using snoc.IH snoc.prems by simp_all
  have "only_video ?t (f x ?t)"
    "\<forall>i < 80. \<forall>j < 25. cell (f x ?t) i j = (if P x i j then v else cell ?t i j)"
    using snoc.prems [of x ?t] t(1) by simp_all
  with t show ?case by (auto intro: only_video_trans)
qed simp

section \<open>The scroll region\<close>

lemma not_minus_one: "x \<noteq> -1" if "unat x < 80" for x :: u32
proof
  assume "x = -1"
  then have "unat (x + 1) = 0" by simp
  moreover have "unat (x + 1) = (unat x + 1) mod 2 ^ 32" by (simp add: unat_word_ariths)
  ultimately show False using that by simp
qed

lemma unat_of_nat_small: "n < 2 ^ 32 \<Longrightarrow> unat (of_nat n :: u32) = n"
  by (intro of_nat_inverse [OF refl]) simp

lemma wupto_unat:
  "unat y < 80 \<Longrightarrow> (\<exists>z \<in> set (wupto x y). i = unat z \<and> b) \<longleftrightarrow> unat x \<le> i \<and> i \<le> unat y \<and> b"
proof
  assume y: "unat y < 80" and i: "unat x \<le> i \<and> i \<le> unat y \<and> b"
  then have "unat (of_nat i :: u32) = i" by (intro unat_of_nat_small) simp
  with i show "\<exists>z \<in> set (wupto x y). i = unat z \<and> b"
    by (intro bexI [of _ "of_nat i"]) (simp_all add: set_wupto word_le_nat_alt)
qed (auto simp: set_wupto word_le_nat_alt)

definition con_ok :: "console \<Rightarrow> bool" where
  "con_ok s \<longleftrightarrow> screen_ok s \<and>
     scroll_min_x s \<le> scroll_max_x s \<and> scroll_max_x s \<le> 79 \<and>
     scroll_min_y s \<le> scroll_max_y s \<and> scroll_max_y s \<le> 24 \<and>
     scroll_min_x s \<le> curr_x s \<and> curr_x s \<le> scroll_max_x s \<and>
     scroll_min_y s \<le> curr_y s \<and> curr_y s \<le> scroll_max_y s + 1 \<and>
     (scroll_max_y s < curr_y s \<longrightarrow> curr_x s = scroll_min_x s)"

lemma con_okD:
  assumes "con_ok s"
  shows "screen_ok s"
    "unat (scroll_min_x s) \<le> unat (scroll_max_x s)" "unat (scroll_max_x s) < 80"
    "unat (scroll_min_y s) \<le> unat (scroll_max_y s)" "unat (scroll_max_y s) < 25"
    "unat (scroll_min_x s) \<le> unat (curr_x s)" "unat (curr_x s) \<le> unat (scroll_max_x s)"
    "unat (scroll_min_y s) \<le> unat (curr_y s)" "unat (curr_y s) \<le> Suc (unat (scroll_max_y s))"
    "unat (scroll_max_y s) < unat (curr_y s) \<Longrightarrow> curr_x s = scroll_min_x s"
    "scroll_max_x s \<noteq> -1" "scroll_max_y s \<noteq> -1"
proof -
  have "unat (scroll_max_y s + 1) = Suc (unat (scroll_max_y s))"
    using assms by (intro unat_Suc_le [of _ 24]) (simp_all add: con_ok_def)
  then show "unat (curr_y s) \<le> Suc (unat (scroll_max_y s))"
    using assms by (simp add: con_ok_def word_le_nat_alt)
  show "scroll_max_x s \<noteq> -1" "scroll_max_y s \<noteq> -1"
    using assms by (intro not_minus_one, simp add: con_ok_def word_le_nat_alt)+
qed (use assms in \<open>simp_all add: con_ok_def word_le_nat_alt word_less_nat_alt\<close>)

definition in_region :: "console \<Rightarrow> nat \<Rightarrow> nat \<Rightarrow> bool" where
  "in_region s i j \<longleftrightarrow> unat (scroll_min_x s) \<le> i \<and> i \<le> unat (scroll_max_x s) \<and>
     unat (scroll_min_y s) \<le> j \<and> j \<le> unat (scroll_max_y s)"

definition in_row :: "console \<Rightarrow> nat \<Rightarrow> bool" where
  "in_row s i \<longleftrightarrow> unat (scroll_min_x s) \<le> i \<and> i \<le> unat (scroll_max_x s)"

lemma in_row_only [simp]: "only_video s t \<Longrightarrow> in_row t = in_row s"
  by (simp add: in_row_def fun_eq_iff only_video_fields)

definition region_w :: "console \<Rightarrow> nat" where
  "region_w s = Suc (unat (scroll_max_x s)) - unat (scroll_min_x s)"

lemma region_w_only: "only_video s t \<Longrightarrow> region_w t = region_w s"
  by (simp add: region_w_def only_video_fields)

definition region_h :: "console \<Rightarrow> nat" where
  "region_h s = Suc (unat (scroll_max_y s)) - unat (scroll_min_y s)"

text \<open>The number of cells of a row of the region, as both routines compute it.\<close>

lemma nchars:
  assumes "con_ok s"
  shows "unat (scroll_max_x s - scroll_min_x s + 1) = region_w s"
    "nat (sint (scroll_max_x s - scroll_min_x s + 1)) = region_w s"
proof -
  note d = con_okD [OF assms]
  have "unat (scroll_max_x s - scroll_min_x s) = unat (scroll_max_x s) - unat (scroll_min_x s)"
    using d(2) by (simp add: unat_sub word_le_nat_alt)
  moreover have "scroll_max_x s - scroll_min_x s \<le> 79"
    using calculation d(3) by (simp add: word_le_nat_alt)
  ultimately show u: "unat (scroll_max_x s - scroll_min_x s + 1) = region_w s"
    using d(2) unfolding region_w_def
    using unat_Suc_le [of "scroll_max_x s - scroll_min_x s" 79] by simp
  have "int (unat (scroll_max_x s - scroll_min_x s + 1)) < 2 ^ 31" using u d(3) by (simp add: region_w_def)
  then have "sint (scroll_max_x s - scroll_min_x s + 1) = int (unat (scroll_max_x s - scroll_min_x s + 1))"
    unfolding sint_uint by (subst signed_take_bit_int_eq_self) (auto intro: order_trans [OF _ uint_ge_0])
  then show "nat (sint (scroll_max_x s - scroll_min_x s + 1)) = region_w s"
    using u by simp
qed

text \<open>Blanking the rows from \<open>a\<close> to the last one of the region.\<close>

lemma blank_rows:
  assumes "con_ok s" and n: "n = region_w s"
  shows "\<exists>a' t. loop (\<lambda>(l, s). l \<le> scroll_max_y s) (\<lambda>(l, s). Inr (l + 1, blanks (video_addr (scroll_min_x s) l) n s)) (a, s)
       = Inr (a', t) \<and> only_video s t \<and>
     (\<forall>i < 80. \<forall>j < 25. cell t i j =
        (if in_row s i \<and> unat a \<le> j \<and> j \<le> unat (scroll_max_y s) then BLANK else cell s i j))"
proof -
  note d = con_okD [OF assms(1)]
  let ?f = "\<lambda>l s. blanks (video_addr (scroll_min_x s) l) n s"
  let ?xs = "wupto a (scroll_max_y s)"
  have "loop (\<lambda>(l, s). l \<le> scroll_max_y s) (\<lambda>(l, s). Inr (l + 1, ?f l s)) (a, s) =
     Inr (if a \<le> scroll_max_y s then scroll_max_y s + 1 else a, fold ?f ?xs s)"
    by (rule loop_upto) (simp_all add: d only_video_fields [OF only_video_blanks])
  moreover have "only_video s (fold ?f ?xs s) \<and> (\<forall>i < 80. \<forall>j < 25. cell (fold ?f ?xs s) i j =
     (if \<exists>l \<in> set ?xs. in_row s i \<and> j = unat l then BLANK else cell s i j))"
  proof (rule fold_paint)
    fix l t assume l: "l \<in> set ?xs" and t: "only_video s t"
    have "l \<le> scroll_max_y s" using l by (simp add: set_wupto)
    then have "unat l < 25" using d(5) by (simp add: word_le_nat_alt)
    then show "only_video t (?f l t) \<and> (\<forall>i < 80. \<forall>j < 25. cell (?f l t) i j =
       (if in_row s i \<and> j = unat l then BLANK else cell t i j))"
      using d n by (auto simp: region_w_def video_addr_vaddr0 cell_blanks only_video_fields [OF t] in_row_def)
  qed
  moreover have "(\<exists>l \<in> set ?xs. in_row s i \<and> j = unat l) \<longleftrightarrow> in_row s i \<and> unat a \<le> j \<and> j \<le> unat (scroll_max_y s)"
    for i j
  proof -
    have "\<exists>l \<in> set ?xs. j = unat l" if "unat a \<le> j" "j \<le> unat (scroll_max_y s)"
    proof -
      have "j < 2 ^ LENGTH(32)" using that(2) d(5) by simp
      then have "unat (of_nat j :: u32) = j" by (metis of_nat_inverse)
      then show ?thesis using that by (intro bexI [of _ "of_nat j"]) (simp_all add: set_wupto word_le_nat_alt)
    qed
    then show ?thesis by (auto simp: set_wupto word_le_nat_alt)
  qed
  ultimately show ?thesis by auto
qed

lemma c_clearscroll_ok:
  assumes "con_ok s"
  obtains t where "c_clearscroll s = Inr t" "only_video s t"
    "\<And>i j. i < 80 \<Longrightarrow> j < 25 \<Longrightarrow> cell t i j = (if in_region s i j then BLANK else cell s i j)"
proof -
  define n where "n = region_w s"
  from blank_rows [OF assms n_def, of "scroll_min_y s"] obtain a' t where
    "loop (\<lambda>(l, s). l \<le> scroll_max_y s) (\<lambda>(l, s). Inr (l + 1, blanks (video_addr (scroll_min_x s) l) n s))
        (scroll_min_y s, s) = Inr (a', t)" "only_video s t"
    "\<forall>i < 80. \<forall>j < 25. cell t i j =
        (if in_row s i \<and> unat (scroll_min_y s) \<le> j \<and> j \<le> unat (scroll_max_y s) then BLANK else cell s i j)"
    by (elim exE conjE)
  then show thesis
    by (intro that [of t])
      (simp_all add: c_clearscroll_def nchars [OF assms] n_def [symmetric] in_region_def in_row_def)
qed

text \<open>Copying rows upwards, from the top: a row is read before it is overwritten.\<close>

lemma copy_rows:
  assumes "con_ok s" "n = region_w s" "m + unat lines \<le> 25" "a \<le> m"
  shows "only_video s (fold (\<lambda>l t. copy_cells (video_addr (scroll_min_x t) (of_nat l))
             (video_addr (scroll_min_x t) (of_nat l + lines)) n t) [a..<m] s) \<and>
     (\<forall>i < 80. \<forall>j < 25. cell (fold (\<lambda>l t. copy_cells (video_addr (scroll_min_x t) (of_nat l))
             (video_addr (scroll_min_x t) (of_nat l + lines)) n t) [a..<m] s) i j =
        (if in_row s i \<and> a \<le> j \<and> j < m then cell s i (j + unat lines) else cell s i j))"
  using assms(4,3)
proof (induction m rule: dec_induct)
  case (step m)
  let ?f = "\<lambda>l t. copy_cells (video_addr (scroll_min_x t) (of_nat l)) (video_addr (scroll_min_x t) (of_nat l + lines)) n t"
  let ?t = "fold ?f [a..<m] s"
  note d = con_okD [OF assms(1)]
  have t: "only_video s ?t" "\<forall>i < 80. \<forall>j < 25. cell ?t i j =
        (if in_row s i \<and> a \<le> j \<and> j < m then cell s i (j + unat lines) else cell s i j)"
    using step.IH step.prems by simp_all
  have m: "unat (of_nat m :: u32) = m" "unat (of_nat m + lines) = m + unat lines"
    using step.prems unat_of_nat_small [of "m + unat lines"] by (simp_all add: unat_of_nat_small)
  have e: "?f m ?t = copy_cells (vaddr (unat (scroll_min_x s)) m) (vaddr (unat (scroll_min_x s)) (m + unat lines)) n ?t"
    by (simp only: video_addr_vaddr0 [of "scroll_min_x s"] m only_video_fields(1) [OF t(1)])
  have c: "unat (scroll_min_x s) + n \<le> 80" "m < 25" "m + unat lines < 25"
    using d(2,3) assms(2) step.prems by (simp_all add: region_w_def)
  have w: "unat (scroll_min_x s) \<le> i \<and> i < unat (scroll_min_x s) + n \<longleftrightarrow> in_row s i" for i
    using d(2) assms(2) by (auto simp: in_row_def region_w_def)
  have "cell (?f m ?t) i j = (if in_row s i \<and> a \<le> j \<and> j < Suc m then cell s i (j + unat lines) else cell s i j)"
    if "i < 80" "j < 25" for i j
    unfolding e using cell_copy_cells [OF c that, of ?t] t(2) that c(3) step.hyps(1) w [of i]
    by (auto simp: less_Suc_eq)
  moreover have "only_video s (?f m ?t)"
    using only_video_trans [OF t(1) only_video_copy_cells] .
  ultimately show ?case using step.hyps(1) by simp
qed (simp, meson linorder_not_less)

lemma c_scroll_ok:
  assumes "con_ok s" "lines \<le> scroll_max_y s - scroll_min_y s"
  obtains t where "c_scroll lines s = Inr t" "only_video s t"
    "\<And>i j. i < 80 \<Longrightarrow> j < 25 \<Longrightarrow> cell t i j =
       (if in_region s i j then
          if j + unat lines \<le> unat (scroll_max_y s) then cell s i (j + unat lines) else BLANK
        else cell s i j)"
proof -
  note d = con_okD [OF assms(1)]
  define n where "n = region_w s"
  have sub: "unat (scroll_max_y s - scroll_min_y s) = unat (scroll_max_y s) - unat (scroll_min_y s)"
    using d(4) by (simp add: unat_sub word_le_nat_alt)
  then have l: "unat lines \<le> unat (scroll_max_y s) - unat (scroll_min_y s)"
    using assms(2) by (simp add: word_le_nat_alt)
  have lim: "unat (scroll_max_y s - lines) = unat (scroll_max_y s) - unat lines"
    using l by (simp add: unat_sub word_le_nat_alt)
  let ?f = "\<lambda>l t. copy_cells (video_addr (scroll_min_x t) l) (video_addr (scroll_min_x t) (l + lines)) n t"
  let ?t = "fold ?f (wupto (scroll_min_y s) (scroll_max_y s - lines)) s"
  have lim_neq: "scroll_max_y s - lines \<noteq> -1"
    using d(5) lim by (intro not_minus_one) simp
  have ge: "scroll_min_y s \<le> scroll_max_y s - lines"
    using l d(4) lim by (simp add: word_le_nat_alt)
  have lp: "loop (\<lambda>(l, s). l \<le> scroll_max_y s - lines) (\<lambda>(l, s). Inr (l + 1, ?f l s)) (scroll_min_y s, s)
      = Inr (scroll_max_y s - lines + 1, ?t)"
    using ge lim_neq by (subst loop_upto) (simp_all add: only_video_fields [OF only_video_copy_cells])
  have t: "only_video s ?t" "\<And>i j. i < 80 \<Longrightarrow> j < 25 \<Longrightarrow> cell ?t i j =
      (if in_row s i \<and> unat (scroll_min_y s) \<le> j \<and> j \<le> unat (scroll_max_y s) - unat lines
       then cell s i (j + unat lines) else cell s i j)"
    using copy_rows [OF assms(1) n_def, of "Suc (unat (scroll_max_y s) - unat lines)" lines "unat (scroll_min_y s)"] l d(4,5)
    by (simp_all add: fold_wupto lim less_Suc_eq_le del: upt_Suc)
  have ok: "con_ok ?t" using assms(1) screen_ok_only [OF t(1)] by (simp add: con_ok_def only_video_fields [OF t(1)])
  have n: "n = region_w ?t" by (rule trans [OF n_def region_w_only [OF t(1), symmetric]])
  from blank_rows [OF ok n, of "scroll_max_y s - lines + 1"] obtain l' u where
    u: "loop (\<lambda>(l, s). l \<le> scroll_max_y s) (\<lambda>(l, s). Inr (l + 1, blanks (video_addr (scroll_min_x s) l) n s))
        (scroll_max_y s - lines + 1, ?t) = Inr (l', u)" "only_video ?t u"
    "\<forall>i < 80. \<forall>j < 25. cell u i j =
        (if in_row ?t i \<and> unat (scroll_max_y s - lines + 1) \<le> j \<and> j \<le> unat (scroll_max_y ?t)
         then BLANK else cell ?t i j)"
    by (elim exE conjE)
  have l1: "unat (scroll_max_y s - lines + 1) = Suc (unat (scroll_max_y s) - unat lines)"
    using unat_Suc_le [OF order_refl lim_neq] lim by simp
  show thesis
  proof (rule that [of u])
    show "c_scroll lines s = Inr u"
      using assms(2) lp u(1) by (simp add: c_scroll_def nchars [OF assms(1)] n_def [symmetric] not_less [symmetric])
    show "only_video s u" using t(1) u(2) by (rule only_video_trans)
    show "cell u i j = (if in_region s i j then
          if j + unat lines \<le> unat (scroll_max_y s) then cell s i (j + unat lines) else BLANK
        else cell s i j)" if "i < 80" "j < 25" for i j
    proof -
      have "cell u i j = (if in_row s i \<and> Suc (unat (scroll_max_y s) - unat lines) \<le> j \<and> j \<le> unat (scroll_max_y s)
         then BLANK else cell ?t i j)"
        using u(3) that unfolding l1 in_row_only [OF t(1)] only_video_fields(4) [OF t(1)] by blast
      then show ?thesis using t(2) [OF that] l d(4)
        by (cases "in_row s i") (auto simp only: in_region_def in_row_def split: if_splits)
    qed
  qed
qed

end
