(* ===== verification/Terminal.thy ===== *)
theory Terminal
  imports Screen
begin

text \<open>
  The terminal that the scroll region presents, and the proof that \<open>c_putchar\<close> is its
  operation: the region shows the rows of the terminal, and nothing outside it changes.
\<close>

section \<open>The terminal\<close>

record terminal =
  t_rows :: "u16 list list"
  t_col :: nat
  t_row :: nat

text \<open>The top row goes, a blank one comes in at the bottom.\<close>

definition term_scroll :: "terminal \<Rightarrow> terminal" where
  "term_scroll t = t\<lparr>t_rows := tl (t_rows t) @ [replicate (length (hd (t_rows t))) BLANK], t_row := t_row t - 1\<rparr>"

definition term_put :: "u32 \<Rightarrow> terminal \<Rightarrow> terminal" where
  "term_put c t =
     (let t = (if t_row t < length (t_rows t) then t else term_scroll t);
          line = t_rows t ! t_row t
      in if c AND 0xff = 10 then
           t\<lparr>t_rows := (t_rows t)[t_row t := take (t_col t) line @ replicate (length line - t_col t) BLANK],
             t_col := 0, t_row := Suc (t_row t)\<rparr>
         else if c AND 0xff = 13 then t\<lparr>t_col := 0\<rparr>
         else
           let t = t\<lparr>t_rows := (t_rows t)[t_row t := line[t_col t := glyph c]]\<rparr>
           in if Suc (t_col t) < length line then t\<lparr>t_col := Suc (t_col t)\<rparr>
              else t\<lparr>t_col := 0, t_row := Suc (t_row t)\<rparr>)"

section \<open>The terminal of a console\<close>

definition region_rows :: "console \<Rightarrow> u16 list list" where
  "region_rows s =
     map (\<lambda>j. map (\<lambda>i. cell s (unat (scroll_min_x s) + i) (unat (scroll_min_y s) + j)) [0..<region_w s])
       [0..<region_h s]"

definition term_of :: "console \<Rightarrow> terminal" where
  "term_of s = \<lparr>t_rows = region_rows s, t_col = unat (curr_x s) - unat (scroll_min_x s),
     t_row = unat (curr_y s) - unat (scroll_min_y s)\<rparr>"

text \<open>Only what belongs to the screen has changed, and not the regions.\<close>

definition con_frame :: "console \<Rightarrow> console \<Rightarrow> bool" where
  "con_frame s t \<longleftrightarrow> t\<lparr>video := video s, io := io s, curr_x := curr_x s, curr_y := curr_y s\<rparr> = s"

lemma con_frameE:
  assumes "con_frame s t"
  obtains v e x y where "t = s\<lparr>video := v, io := e, curr_x := x, curr_y := y\<rparr>"
proof -
  have "t = (t\<lparr>video := video s, io := io s, curr_x := curr_x s, curr_y := curr_y s\<rparr>)
      \<lparr>video := video t, io := io t, curr_x := curr_x t, curr_y := curr_y t\<rparr>" by simp
  with assms have "t = s\<lparr>video := video t, io := io t, curr_x := curr_x t, curr_y := curr_y t\<rparr>"
    unfolding con_frame_def by metis
  then show thesis ..
qed

lemma con_frameI: "con_frame s (s\<lparr>video := v, io := e, curr_x := x, curr_y := y\<rparr>)"
  by (simp add: con_frame_def)

lemma con_frame_trans: "con_frame s t \<Longrightarrow> con_frame t u \<Longrightarrow> con_frame s u"
  by (elim con_frameE) (simp add: con_frame_def)

lemma con_frame_only: "only_video s t \<Longrightarrow> con_frame s t"
  by (elim only_videoE) (simp add: con_frame_def)

lemma con_frame_updates [simp]:
  "con_frame s (s\<lparr>curr_x := x\<rparr>)" "con_frame s (s\<lparr>curr_y := y\<rparr>)" "con_frame s (c_setcursor s)"
  "con_frame s (s\<lparr>curr_x := x, curr_y := y\<rparr>)" "con_frame s s"
  by (simp_all add: con_frame_def c_setcursor_def outb_def Let_def)

lemma con_frame_fields:
  assumes "con_frame s t"
  shows "scroll_min_x t = scroll_min_x s" "scroll_min_y t = scroll_min_y s"
    "scroll_max_x t = scroll_max_x s" "scroll_max_y t = scroll_max_y s"
    "min_x t = min_x s" "min_y t = min_y s" "max_x t = max_x s" "max_y t = max_y s"
    "inq t = inq s" "mem t = mem s" "input_buffer t = input_buffer s"
    "next_char t = next_char s" "next_space t = next_space s"
    "kbd_shift t = kbd_shift s" "kbd_ctrl_mask t = kbd_ctrl_mask s"
    "region_w t = region_w s" "region_h t = region_h s" "in_region t = in_region s"
    "in_row t = in_row s" "screen_ok t = screen_ok s"
  using assms
  by (auto elim!: con_frameE simp: region_w_def region_h_def in_region_def in_row_def screen_ok_def fun_eq_iff)

lemma setcursor_simps [simp]:
  "video (c_setcursor s) = video s" "curr_x (c_setcursor s) = curr_x s" "curr_y (c_setcursor s) = curr_y s"
  "scroll_max_x (c_setcursor s) = scroll_max_x s" "scroll_max_y (c_setcursor s) = scroll_max_y s"
  "scroll_min_x (c_setcursor s) = scroll_min_x s" "scroll_min_y (c_setcursor s) = scroll_min_y s"
  "min_x (c_setcursor s) = min_x s" "min_y (c_setcursor s) = min_y s"
  "max_x (c_setcursor s) = max_x s" "max_y (c_setcursor s) = max_y s"
  by (simp_all add: c_setcursor_def outb_def Let_def)

lemma cell_updates [simp]:
  "cell (c_setcursor s) = cell s" "cell (s\<lparr>curr_x := x\<rparr>) = cell s" "cell (s\<lparr>curr_y := y\<rparr>) = cell s"
  by (simp_all add: cell_def fun_eq_iff)

section \<open>Rows and cells\<close>

lemma region_dims:
  assumes "con_ok s"
  shows "0 < region_w s" "0 < region_h s" "unat (scroll_min_x s) + region_w s \<le> 80"
    "unat (scroll_min_y s) + region_h s \<le> 25"
    "unat (scroll_max_x s) + 1 = unat (scroll_min_x s) + region_w s"
    "unat (scroll_max_y s) + 1 = unat (scroll_min_y s) + region_h s"
  using con_okD(2-5) [OF assms] by (simp_all add: region_w_def region_h_def)

lemma length_region_rows [simp]: "length (region_rows s) = region_h s"
  by (simp add: region_rows_def)

lemma length_region_row [simp]: "j < region_h s \<Longrightarrow> length (region_rows s ! j) = region_w s"
  by (simp add: region_rows_def)

lemma region_rows_nth:
  "j < region_h s \<Longrightarrow> i < region_w s \<Longrightarrow>
     region_rows s ! j ! i = cell s (unat (scroll_min_x s) + i) (unat (scroll_min_y s) + j)"
  by (simp add: region_rows_def)

lemma region_rows_eqI:
  assumes "con_frame s t" "length R = region_h s" "\<And>j. j < region_h s \<Longrightarrow> length (R ! j) = region_w s"
    "\<And>i j. i < region_w s \<Longrightarrow> j < region_h s \<Longrightarrow>
       cell t (unat (scroll_min_x s) + i) (unat (scroll_min_y s) + j) = R ! j ! i"
  shows "region_rows t = R"
proof (rule nth_equalityI)
  fix j assume "j < length (region_rows t)"
  then have j: "j < region_h s" using assms(1) by (simp add: con_frame_fields)
  show "region_rows t ! j = R ! j"
    by (rule nth_equalityI)
      (use assms j in \<open>simp_all add: con_frame_fields [OF assms(1)] region_rows_nth\<close>)
qed (use assms in \<open>simp add: con_frame_fields\<close>)

text \<open>The cells of the region have moved up by one row.\<close>

lemma region_rows_scrolled:
  assumes "con_ok s" "con_frame s t"
    "\<And>i j. i < 80 \<Longrightarrow> j < 25 \<Longrightarrow> in_region s i j \<Longrightarrow>
       cell t i j = (if Suc j \<le> unat (scroll_max_y s) then cell s i (Suc j) else BLANK)"
  shows "region_rows t = tl (region_rows s) @ [replicate (region_w s) BLANK]"
proof (rule region_rows_eqI [OF assms(2)])
  note r = region_dims [OF assms(1)]
  show "length (tl (region_rows s) @ [replicate (region_w s) BLANK]) = region_h s" using r by simp
  show "length ((tl (region_rows s) @ [replicate (region_w s) BLANK]) ! j) = region_w s" if "j < region_h s" for j
    using that by (auto simp: nth_append nth_tl)
  fix i j assume ij: "i < region_w s" "j < region_h s"
  have "in_region s (unat (scroll_min_x s) + i) (unat (scroll_min_y s) + j)"
    using ij r by (simp add: in_region_def)
  from assms(3) [OF _ _ this] ij r
  show "cell t (unat (scroll_min_x s) + i) (unat (scroll_min_y s) + j) =
      (tl (region_rows s) @ [replicate (region_w s) BLANK]) ! j ! i"
    by (auto simp: nth_append nth_tl region_rows_nth)
qed

text \<open>Cells of one row of the region have changed.\<close>

lemma region_rows_line:
  assumes "con_ok s" "con_frame s t" "j0 < region_h s" "length line = region_w s"
    "\<And>i j. i < 80 \<Longrightarrow> j < 25 \<Longrightarrow> in_region s i j \<Longrightarrow>
       cell t i j = (if j = unat (scroll_min_y s) + j0 then line ! (i - unat (scroll_min_x s)) else cell s i j)"
  shows "region_rows t = (region_rows s)[j0 := line]"
proof (rule region_rows_eqI [OF assms(2)])
  note r = region_dims [OF assms(1)]
  show "length ((region_rows s)[j0 := line]) = region_h s" by simp
  show "length ((region_rows s)[j0 := line] ! j) = region_w s" if "j < region_h s" for j
    using that assms(4) by (cases "j = j0") simp_all
  fix i j assume ij: "i < region_w s" "j < region_h s"
  have "in_region s (unat (scroll_min_x s) + i) (unat (scroll_min_y s) + j)"
    using ij r by (simp add: in_region_def)
  from assms(5) [OF _ _ this] ij r assms(3)
  show "cell t (unat (scroll_min_x s) + i) (unat (scroll_min_y s) + j) = (region_rows s)[j0 := line] ! j ! i"
    by (cases "j = j0") (simp_all add: region_rows_nth)
qed

section \<open>The routine\<close>

text \<open>The cells outside the region are as before.\<close>

definition outside :: "console \<Rightarrow> console \<Rightarrow> bool" where
  "outside s t \<longleftrightarrow> (\<forall>i < 80. \<forall>j < 25. \<not> in_region s i j \<longrightarrow> cell t i j = cell s i j)"

lemma outside_refl [simp]: "outside s s"
  by (simp add: outside_def)

lemma outside_trans: "outside s t \<Longrightarrow> con_frame s t \<Longrightarrow> outside t u \<Longrightarrow> outside s u"
  by (simp add: outside_def con_frame_fields)

lemma con_okI:
  assumes "con_ok s" "con_frame s t" "scroll_min_x s \<le> curr_x t" "curr_x t \<le> scroll_max_x s"
    "scroll_min_y s \<le> curr_y t" "curr_y t \<le> scroll_max_y s + 1"
    "scroll_max_y s < curr_y t \<Longrightarrow> curr_x t = scroll_min_x s"
  shows "con_ok t"
  using assms by (simp add: con_ok_def con_frame_fields)

lemma term_of_simps [simp]:
  "t_rows (term_of s) = region_rows s"
  "t_col (term_of s) = unat (curr_x s) - unat (scroll_min_x s)"
  "t_row (term_of s) = unat (curr_y s) - unat (scroll_min_y s)"
  by (simp_all add: term_of_def)

lemma in_rows_iff:
  "con_ok s \<Longrightarrow> t_row (term_of s) < length (t_rows (term_of s)) \<longleftrightarrow> curr_y s \<le> scroll_max_y s"
  using con_okD(4,8) [of s] by (auto simp: region_h_def word_le_nat_alt)

lemma below_rows:
  assumes "con_ok s" "scroll_max_y s < curr_y s"
  shows "unat (curr_y s) = Suc (unat (scroll_max_y s))" "curr_y s - scroll_max_y s = 1"
    "curr_x s = scroll_min_x s"
proof -
  show u: "unat (curr_y s) = Suc (unat (scroll_max_y s))"
    using con_okD(9) [OF assms(1)] assms(2) by (simp add: word_less_nat_alt)
  have "unat (curr_y s - scroll_max_y s) = unat (1 :: u32)"
    using u by (subst unat_sub) (simp_all add: word_le_nat_alt)
  then show "curr_y s - scroll_max_y s = 1" by (simp only: word_unat_eq_iff)
  show "curr_x s = scroll_min_x s" using con_okD(10) [OF assms(1)] u by simp
qed

lemma scroll_one:
  assumes "con_ok s" "scroll_max_y s < curr_y s"
  shows "\<exists>t. c_scroll 1 s = Inr t \<and> con_frame s t \<and> curr_x t = curr_x s \<and>
     (\<forall>i < 80. \<forall>j < 25. cell t i j =
       (if in_region s i j then if Suc j \<le> unat (scroll_max_y s) then cell s i (Suc j) else BLANK else cell s i j))"
proof (cases "scroll_max_y s - scroll_min_y s < 1")
  case True
  then have e: "scroll_max_y s = scroll_min_y s" by (simp add: word_less_nat_alt unat_eq_0)
  obtain t where t: "c_clearscroll s = Inr t" "only_video s t"
    "\<And>i j. i < 80 \<Longrightarrow> j < 25 \<Longrightarrow> cell t i j = (if in_region s i j then BLANK else cell s i j)"
    using c_clearscroll_ok [OF assms(1)] by metis
  let ?u = "c_setcursor (t\<lparr>curr_x := scroll_min_x t, curr_y := scroll_min_y t\<rparr>)"
  have "c_scroll 1 s = Inr ?u" using True t(1) by (simp add: c_scroll_def)
  moreover have "con_frame s ?u"
    by (rule con_frame_trans [OF con_frame_only [OF t(2)] con_frame_trans]) (rule con_frame_updates)+
  moreover have "curr_x ?u = curr_x s"
    using below_rows(3) [OF assms] by (simp add: only_video_fields [OF t(2)])
  moreover have "cell ?u = cell t" by (simp add: cell_def fun_eq_iff)
  ultimately show ?thesis using t(3) e by (auto simp: in_region_def)
next
  case False
  then have "1 \<le> scroll_max_y s - scroll_min_y s" by (simp only: not_less)
  then obtain t where t: "c_scroll 1 s = Inr t" "only_video s t"
    "\<And>i j. i < 80 \<Longrightarrow> j < 25 \<Longrightarrow> cell t i j =
       (if in_region s i j then
          if j + unat (1 :: u32) \<le> unat (scroll_max_y s) then cell s i (j + unat (1 :: u32)) else BLANK
        else cell s i j)"
    using c_scroll_ok [OF assms(1), of 1] by metis
  then show ?thesis by (intro exI [of _ t]) (simp add: con_frame_only only_video_fields [OF t(2)])
qed

lemma scroll_step:
  assumes "con_ok s"
  obtains t where
    "(if scroll_max_y s < curr_y s then
        bindE (c_scroll (curr_y s - scroll_max_y s) s) (\<lambda>s. Inr (s\<lparr>curr_y := scroll_max_y s\<rparr>))
      else Inr s) = Inr t"
    "con_frame s t" "con_ok t" "curr_y t \<le> scroll_max_y t" "outside s t"
    "term_of t = (if t_row (term_of s) < length (t_rows (term_of s)) then term_of s else term_scroll (term_of s))"
proof (cases "scroll_max_y s < curr_y s")
  case True
  note b = below_rows [OF assms True]
  from scroll_one [OF assms True] obtain t where t: "c_scroll 1 s = Inr t" "con_frame s t" "curr_x t = curr_x s"
    "\<forall>i < 80. \<forall>j < 25. cell t i j =
       (if in_region s i j then if Suc j \<le> unat (scroll_max_y s) then cell s i (Suc j) else BLANK else cell s i j)"
    by blast
  let ?t = "t\<lparr>curr_y := scroll_max_y t\<rparr>"
  have f: "con_frame s ?t" by (rule con_frame_trans [OF t(2)]) simp
  note d = con_okD [OF assms] and w = region_dims [OF assms]
  have le: "scroll_max_y s \<le> scroll_max_y s + 1"
    using unat_Suc_le [OF order_refl d(12)] by (simp add: word_le_nat_alt)
  have ok: "con_ok ?t"
    using assms t(3) le
    by (intro con_okI [OF assms f]) (auto simp: con_frame_fields [OF t(2)] con_ok_def)
  have "region_rows ?t = tl (region_rows s) @ [replicate (region_w s) BLANK]"
    by (rule region_rows_scrolled [OF assms f]) (use t(4) in simp)
  moreover have "length (hd (region_rows s)) = region_w s"
    using w(2) length_region_row [of 0 s] by (simp add: hd_conv_nth flip: length_greater_0_conv)
  moreover have "\<not> t_row (term_of s) < length (t_rows (term_of s))" using in_rows_iff [OF assms] True by simp
  ultimately have "term_of ?t = term_scroll (term_of s)"
    using b(1,3) t(3) by (simp add: term_scroll_def term_of_def con_frame_fields [OF t(2)])
  with \<open>\<not> t_row _ < _\<close> show thesis
    using t f ok True by (intro that [of ?t]) (simp_all add: b outside_def)
next
  case False
  then show thesis
    using assms in_rows_iff [OF assms] by (intro that [of s]) (simp_all add: leD)
qed

text \<open>The newline: the rest of the row is erased.\<close>

lemma erase_line:
  assumes "con_ok s"
  obtains t x where
    "loop (\<lambda>s. curr_x s \<le> scroll_max_x s)
       (\<lambda>s. let s = put_raw (curr_x s) (curr_y s) 0x20 s in Inr (s\<lparr>curr_x := curr_x s + 1\<rparr>)) s = Inr (t\<lparr>curr_x := x\<rparr>)"
    "only_video s t"
    "\<And>i j. i < 80 \<Longrightarrow> j < 25 \<Longrightarrow> cell t i j =
       (if unat (curr_x s) \<le> i \<and> i \<le> unat (scroll_max_x s) \<and> j = unat (curr_y s) then BLANK else cell s i j)"
proof -
  note d = con_okD [OF assms]
  let ?f = "\<lambda>x t. put_raw x (curr_y t) 0x20 t" and ?xs = "wupto (curr_x s) (scroll_max_x s)"
  let ?g = "\<lambda>(x, t). t\<lparr>curr_x := x\<rparr> :: console" and ?t = "fold ?f ?xs s"
  have "loop (\<lambda>(x, t). x \<le> scroll_max_x t) (\<lambda>(x, t). Inr (x + 1, ?f x t)) (curr_x s, s) =
      Inr (if curr_x s \<le> scroll_max_x s then scroll_max_x s + 1 else curr_x s, ?t)"
    by (rule loop_upto) (simp_all add: d(11) only_video_fields [OF only_video_put_raw])
  then obtain x where x: "loop (\<lambda>(x, t). x \<le> scroll_max_x t) (\<lambda>a. Inr (case a of (x, t) \<Rightarrow> (x + 1, ?f x t))) (curr_x s, s)
      = Inr (x, ?t)"
    by (auto simp: case_prod_unfold)
  have "loop (\<lambda>s. curr_x s \<le> scroll_max_x s)
       (\<lambda>s. let s = put_raw (curr_x s) (curr_y s) 0x20 s in Inr (s\<lparr>curr_x := curr_x s + 1\<rparr>)) (?g (curr_x s, s)) =
     Inr (?g (x, ?t))"
    by (rule loop_view [OF _ _ x]) (auto simp: Let_def put_raw_def)
  moreover have "only_video s ?t \<and> (\<forall>i < 80. \<forall>j < 25. cell ?t i j =
      (if \<exists>x \<in> set ?xs. i = unat x \<and> j = unat (curr_y s) then glyph 0x20 else cell s i j))"
  proof (rule fold_paint)
    fix x t assume t: "only_video s t"
    show "only_video t (?f x t) \<and> (\<forall>i < 80. \<forall>j < 25. cell (?f x t) i j =
      (if i = unat x \<and> j = unat (curr_y s) then glyph 0x20 else cell t i j))"
      using d(1) by (simp add: cell_put_raw screen_ok_only [OF t] only_video_fields [OF t])
  qed
  moreover have "glyph 0x20 = BLANK" by code_simp
  ultimately show thesis
    using wupto_unat [OF d(3), of "curr_x s"] by (intro that [where t = ?t and x = x]) simp_all
qed

lemma setcursor_frame: "con_frame s t \<Longrightarrow> con_frame s (c_setcursor t)"
  by (erule con_frame_trans) (rule con_frame_updates)

lemma setcursor_ok: "con_ok s \<Longrightarrow> con_ok (c_setcursor s)"
  by (simp add: con_ok_def con_frame_fields [OF con_frame_updates(3)])

lemma setcursor_term [simp]: "term_of (c_setcursor s) = term_of s"
  by (simp add: term_of_def region_rows_def region_w_def region_h_def)

lemma setcursor_outside [simp]: "outside s (c_setcursor t) = outside s t"
  by (simp add: outside_def)

text \<open>The three cases of the character, with the cursor inside the region.\<close>

definition put_char :: "u32 \<Rightarrow> console \<Rightarrow> console outcome" where
  "put_char c s =
     (if c AND 0xff = 10 then
        bindE (loop (\<lambda>s. curr_x s \<le> scroll_max_x s)
                 (\<lambda>s. let s = put_raw (curr_x s) (curr_y s) 0x20 s in Inr (s\<lparr>curr_x := curr_x s + 1\<rparr>)) s)
          (\<lambda>s. let s = s\<lparr>curr_x := scroll_min_x s\<rparr> in Inr (s\<lparr>curr_y := curr_y s + 1\<rparr>))
      else if c AND 0xff = 13 then Inr (s\<lparr>curr_x := scroll_min_x s\<rparr>)
      else
        let s = put_raw (curr_x s) (curr_y s) c s;
            s = s\<lparr>curr_x := curr_x s + 1\<rparr>
        in if scroll_max_x s < curr_x s then
             let s = s\<lparr>curr_x := scroll_min_x s\<rparr> in Inr (s\<lparr>curr_y := curr_y s + 1\<rparr>)
           else Inr s)"

lemma c_putchar_put_char:
  "c_putchar c s =
     bindE (if scroll_max_y s < curr_y s then
              bindE (c_scroll (curr_y s - scroll_max_y s) s) (\<lambda>s. Inr (s\<lparr>curr_y := scroll_max_y s\<rparr>))
            else Inr s) (\<lambda>s. bindE (put_char c s) (\<lambda>s. Inr (c_setcursor s)))"
  by (simp add: c_putchar_def put_char_def)

definition put_spec :: "u32 \<Rightarrow> console \<Rightarrow> console \<Rightarrow> bool" where
  "put_spec c s t \<longleftrightarrow> con_ok t \<and> con_frame s t \<and> outside s t \<and> term_of t = term_put c (term_of s)"

lemma next_row:
  assumes "con_ok s" "curr_y s \<le> scroll_max_y s"
  shows "unat (curr_y s + 1) = Suc (unat (curr_y s))" "curr_y s + 1 \<le> scroll_max_y s + 1"
    "scroll_min_y s \<le> curr_y s + 1"
proof -
  note d = con_okD [OF assms(1)]
  show u: "unat (curr_y s + 1) = Suc (unat (curr_y s))" using assms(2) d(12) by (rule unat_Suc_le)
  have "unat (scroll_max_y s + 1) = Suc (unat (scroll_max_y s))" by (rule unat_Suc_le [OF order_refl d(12)])
  then show "curr_y s + 1 \<le> scroll_max_y s + 1" "scroll_min_y s \<le> curr_y s + 1"
    using u assms(2) d(8) by (simp_all add: word_le_nat_alt)
qed

lemma put_newline:
  assumes "con_ok s" "curr_y s \<le> scroll_max_y s" "c AND 0xff = 10"
  shows "\<exists>t. put_char c s = Inr t \<and> put_spec c s t"
proof -
  note d = con_okD [OF assms(1)] and w = region_dims [OF assms(1)] and n = next_row [OF assms(1,2)]
  obtain t x where l: "loop (\<lambda>s. curr_x s \<le> scroll_max_x s)
       (\<lambda>s. let s = put_raw (curr_x s) (curr_y s) 0x20 s in Inr (s\<lparr>curr_x := curr_x s + 1\<rparr>)) s = Inr (t\<lparr>curr_x := x\<rparr>)"
    and t: "only_video s t" and c: "\<And>i j. i < 80 \<Longrightarrow> j < 25 \<Longrightarrow> cell t i j =
       (if unat (curr_x s) \<le> i \<and> i \<le> unat (scroll_max_x s) \<and> j = unat (curr_y s) then BLANK else cell s i j)"
    by (rule erase_line [OF assms(1)]) (rule that)
  let ?u = "t\<lparr>curr_x := scroll_min_x t, curr_y := curr_y t + 1\<rparr>"
  let ?j = "unat (curr_y s) - unat (scroll_min_y s)" and ?k = "unat (curr_x s) - unat (scroll_min_x s)"
  let ?line = "take ?k (region_rows s ! ?j) @ replicate (region_w s - ?k) BLANK"
  have cy: "unat (curr_y s) \<le> unat (scroll_max_y s)" using assms(2) by (simp add: word_le_nat_alt)
  have j: "?j < region_h s" "unat (scroll_min_y s) + ?j = unat (curr_y s)"
    using assms(2) d(4,8) by (auto simp: region_h_def word_le_nat_alt)
  have k: "?k < region_w s" "unat (scroll_min_x s) + ?k = unat (curr_x s)"
    using d(6,7) by (auto simp: region_w_def)
  have f: "con_frame s ?u" using con_frame_trans [OF con_frame_only [OF t] con_frame_updates(4)] .
  have cu: "cell ?u = cell t" by (simp add: cell_def fun_eq_iff)
  have "region_rows ?u = (region_rows s)[?j := ?line]"
  proof (rule region_rows_line [OF assms(1) f j(1)])
    show "length ?line = region_w s" using j k by simp
    fix i j' assume a: "i < 80" "j' < 25" "in_region s i j'"
    show "cell ?u i j' = (if j' = unat (scroll_min_y s) + ?j then ?line ! (i - unat (scroll_min_x s)) else cell s i j')"
      using a c [OF a(1,2)] j k w by (auto simp: cu in_region_def nth_append region_rows_nth)
  qed
  then have "term_of ?u = term_put c (term_of s)"
    using assms(2,3) in_rows_iff [OF assms(1)] j(1) n(1) d(8)
    by (simp add: term_put_def term_of_def Let_def only_video_fields [OF t])
  moreover have "outside s ?u" using c j(2) d(6,8) cy by (auto simp: outside_def cu in_region_def)
  moreover have "con_ok ?u"
    using assms(1) n by (intro con_okI [OF assms(1) f]) (auto simp: only_video_fields [OF t] con_ok_def)
  ultimately show ?thesis using l f assms(3) by (simp add: put_char_def put_spec_def Let_def)
qed

lemma put_return:
  assumes "con_ok s" "curr_y s \<le> scroll_max_y s" "c AND 0xff = 13"
  shows "\<exists>t. put_char c s = Inr t \<and> put_spec c s t"
proof -
  let ?t = "s\<lparr>curr_x := scroll_min_x s\<rparr>"
  have "con_ok ?t"
    by (rule con_okI [OF assms(1) con_frame_updates(1)]) (use assms(1) in \<open>auto simp: con_ok_def\<close>)
  moreover have "region_rows ?t = region_rows s"
    by (simp add: region_rows_def con_frame_fields [OF con_frame_updates(1)])
  ultimately have "put_spec c s ?t"
    using assms(2,3) in_rows_iff [OF assms(1)]
    by (simp add: put_spec_def outside_def term_put_def term_of_def Let_def)
  then show ?thesis using assms(3) by (simp add: put_char_def)
qed

lemma put_plain:
  assumes "con_ok s" "curr_y s \<le> scroll_max_y s" "c AND 0xff \<noteq> 10" "c AND 0xff \<noteq> 13"
  shows "\<exists>t. put_char c s = Inr t \<and> put_spec c s t"
proof -
  note d = con_okD [OF assms(1)] and w = region_dims [OF assms(1)] and n = next_row [OF assms(1,2)]
  let ?t = "put_raw (curr_x s) (curr_y s) c s"
  note t = only_video_put_raw [of s "curr_x s" "curr_y s" c]
  note fl = only_video_fields [OF t]
  let ?j = "unat (curr_y s) - unat (scroll_min_y s)" and ?k = "unat (curr_x s) - unat (scroll_min_x s)"
  let ?line = "(region_rows s ! ?j)[?k := glyph c]"
  have cy: "unat (curr_y s) \<le> unat (scroll_max_y s)" using assms(2) by (simp add: word_le_nat_alt)
  have j: "?j < region_h s" "unat (scroll_min_y s) + ?j = unat (curr_y s)"
    using cy d(8) by (auto simp: region_h_def)
  have k: "?k < region_w s" "unat (scroll_min_x s) + ?k = unat (curr_x s)"
    using d(6,7) by (auto simp: region_w_def)
  have x1: "unat (curr_x s + 1) = Suc (unat (curr_x s))"
    using assms(1) d(11) by (intro unat_Suc_le [of _ "scroll_max_x s"]) (simp_all add: con_ok_def)
  have cl: "cell ?t i j' = (if i = unat (curr_x s) \<and> j' = unat (curr_y s) then glyph c else cell s i j')"
    if "i < 80" "j' < 25" for i j' using cell_put_raw [OF d(1) that] .
  have rows: "region_rows ?t = (region_rows s)[?j := ?line]"
  proof (rule region_rows_line [OF assms(1) con_frame_only [OF t] j(1)])
    show "length ?line = region_w s" using j by simp
    fix i j' assume a: "i < 80" "j' < 25" "in_region s i j'"
    show "cell ?t i j' = (if j' = unat (scroll_min_y s) + ?j then ?line ! (i - unat (scroll_min_x s)) else cell s i j')"
      using a cl [OF a(1,2)] j k w by (auto simp: in_region_def region_rows_nth nth_list_update)
  qed
  have out: "outside s ?t" using cl d(6,7,8) cy by (auto simp: outside_def in_region_def)
  have last: "scroll_max_x s < curr_x s + 1 \<longleftrightarrow> \<not> Suc ?k < region_w s"
    using x1 d(6,7) by (auto simp: word_less_nat_alt region_w_def)
  let ?u = "if scroll_max_x s < curr_x s + 1 then ?t\<lparr>curr_x := scroll_min_x s, curr_y := curr_y s + 1\<rparr>
     else ?t\<lparr>curr_x := curr_x s + 1\<rparr>"
  have u: "con_frame ?t ?u" "cell ?u = cell ?t" by (simp_all add: cell_def fun_eq_iff)
  have f: "con_frame s ?u" using con_frame_trans [OF con_frame_only [OF t] u(1)] .
  have "region_rows ?u = region_rows ?t"
    by (simp only: region_rows_def con_frame_fields [OF u(1)] u(2))
  then have "term_of ?u = term_put c (term_of s)"
    using assms(2-4) in_rows_iff [OF assms(1)] j k n(1) d(8) x1
    by (cases "scroll_max_x s < curr_x s + 1") (simp_all add: term_put_def term_of_def Let_def fl last rows)
  moreover have "outside s ?u" using out u(2) by (simp add: outside_def)
  moreover have "con_ok ?u"
  proof (rule con_okI [OF assms(1) f])
    have "curr_x s + 1 \<le> scroll_max_x s" if "\<not> scroll_max_x s < curr_x s + 1" using that by simp
    then show "curr_x ?u \<le> scroll_max_x s" using assms(1) by (simp add: con_ok_def)
    show "scroll_min_x s \<le> curr_x ?u" using d(6) x1 by (simp add: word_le_nat_alt)
    show "scroll_min_y s \<le> curr_y ?u" "curr_y ?u \<le> scroll_max_y s + 1"
      using n assms(1) by (simp_all add: con_ok_def fl)
    show "curr_x ?u = scroll_min_x s" if "scroll_max_y s < curr_y ?u"
      using that assms(2) by (simp add: fl split: if_splits)
  qed
  ultimately have "put_spec c s ?u" using f by (simp add: put_spec_def)
  moreover have "put_char c s = Inr ?u"
    using assms(3,4) by (simp add: put_char_def Let_def fl)
  ultimately show ?thesis by blast
qed

lemma c_putchar_ok:
  assumes "con_ok s"
  obtains t where "c_putchar c s = Inr t" "con_ok t" "con_frame s t" "outside s t"
    "term_of t = term_put c (term_of s)"
proof (rule scroll_step [OF assms])
  fix t
  assume t: "(if scroll_max_y s < curr_y s then
        bindE (c_scroll (curr_y s - scroll_max_y s) s) (\<lambda>s. Inr (s\<lparr>curr_y := scroll_max_y s\<rparr>))
      else Inr s) = Inr t" "con_frame s t" "con_ok t" "curr_y t \<le> scroll_max_y t" "outside s t"
    "term_of t = (if t_row (term_of s) < length (t_rows (term_of s)) then term_of s else term_scroll (term_of s))"
  have "\<exists>u. put_char c t = Inr u \<and> put_spec c t u"
    using put_newline put_return put_plain t(3,4) by blast
  then obtain u where u: "put_char c t = Inr u" "con_ok u" "con_frame t u" "outside t u"
    "term_of u = term_put c (term_of t)" by (auto simp: put_spec_def)
  have "t_row (term_of t) < length (t_rows (term_of t))" using in_rows_iff [OF t(3)] t(4) by blast
  then have "term_put c (term_of t) = term_put c (term_of s)"
    unfolding term_put_def t(6) [symmetric] by simp
  then show thesis
    using u t(1,2,5) con_frame_trans [OF t(2) u(3)] outside_trans [OF t(5) t(2) u(4)]
    by (intro that [of "c_setcursor u"])
      (simp_all add: c_putchar_put_char setcursor_frame setcursor_ok del: con_frame_updates)
qed

section \<open>Strings\<close>

lemma c_puts_ok:
  assumes "con_ok s"
  shows "\<exists>t. c_puts' str s = Inr t \<and> con_ok t \<and> con_frame s t \<and> outside s t \<and>
     term_of t = fold (\<lambda>ch. term_put (scast ch)) str (term_of s)"
  using assms
proof (induction str arbitrary: s)
  case (Cons ch str)
  obtain t where t: "c_putchar (scast ch) s = Inr t" "con_ok t" "con_frame s t" "outside s t"
    "term_of t = term_put (scast ch) (term_of s)" using c_putchar_ok [OF Cons.prems] .
  from Cons.IH [OF t(2)] obtain u where u: "c_puts' str t = Inr u" "con_ok u" "con_frame t u" "outside t u"
    "term_of u = fold (\<lambda>ch. term_put (scast ch)) str (term_of t)" by blast
  then show ?case
    using t con_frame_trans [OF t(3) u(3)] outside_trans [OF t(4,3) u(4)] by simp
qed simp

section \<open>Regions and fixed places\<close>

lemma bound_in: "mn \<le> mx \<Longrightarrow> mn \<le> bound mn v mx \<and> bound mn v mx \<le> mx"
  by (auto simp: bound_def Let_def)

lemma bound_id: "mn \<le> v \<Longrightarrow> v \<le> mx \<Longrightarrow> bound mn v mx = v"
  by (auto simp: bound_def Let_def)

lemma le_max_plus: "x \<le> y \<Longrightarrow> unat y < 80 \<Longrightarrow> x \<le> y + 1" for x y :: u32
  using unat_Suc_le [OF order_refl not_minus_one, of y] by (simp add: word_le_nat_alt)

lemma c_setscroll_ok:
  assumes "screen_ok s"
  shows "con_ok (c_setscroll a b c d s)"
proof -
  let ?t = "s\<lparr>scroll_min_x := bound 0 a 79, scroll_min_y := bound 0 b 24,
     scroll_max_x := bound (bound 0 a 79) c 79, scroll_max_y := bound (bound 0 b 24) d 24,
     curr_x := bound 0 a 79, curr_y := bound 0 b 24\<rparr>"
  have e: "c_setscroll a b c d s = c_setcursor ?t"
    using assms by (simp add: c_setscroll_def screen_ok_def Let_def)
  have x: "bound 0 a 79 \<le> 79" "bound 0 b 24 \<le> 24" using bound_in by simp_all
  note m = bound_in [OF x(1), of c] bound_in [OF x(2), of d]
  have "unat (bound (bound 0 b 24) d 24) < 80" using m by (simp add: word_le_nat_alt)
  then have "con_ok ?t"
    using assms x m le_max_plus [of "bound 0 b 24" "bound (bound 0 b 24) d 24"]
    by (simp add: con_ok_def screen_ok_def leD)
  then show ?thesis unfolding e by (rule setcursor_ok)
qed

lemma c_moveto_ok:
  assumes "con_ok s"
  shows "con_ok (c_moveto x y s)" "con_frame s (c_moveto x y s)" "video (c_moveto x y s) = video s"
proof -
  let ?t = "s\<lparr>curr_x := bound (scroll_min_x s) (x + scroll_min_x s) (scroll_max_x s),
     curr_y := bound (scroll_min_y s) (y + scroll_min_y s) (scroll_max_y s)\<rparr>"
  have e: "c_moveto x y s = c_setcursor ?t" by (simp add: c_moveto_def Let_def)
  have r: "scroll_min_x s \<le> scroll_max_x s" "scroll_min_y s \<le> scroll_max_y s" using assms by (simp_all add: con_ok_def)
  note m = bound_in [OF r(1), of "x + scroll_min_x s"] bound_in [OF r(2), of "y + scroll_min_y s"]
  have "con_ok ?t"
    using assms m le_max_plus [of "curr_y ?t" "scroll_max_y s"] con_okD(5) [OF assms]
    by (simp add: con_ok_def screen_ok_def leD)
  then show "con_ok (c_moveto x y s)" unfolding e by (rule setcursor_ok)
  show "con_frame s (c_moveto x y s)" unfolding e by (rule setcursor_frame) simp
  show "video (c_moveto x y s) = video s" unfolding e by simp
qed

lemma c_io_init_ok: "con_ok (c_io_init s)"
proof -
  have "c_io_init s = c_setcursor (s\<lparr>min_x := 0, min_y := 0, max_x := 79, max_y := 24,
     scroll_min_x := 0, scroll_min_y := 0, scroll_max_x := 79, scroll_max_y := 24, curr_y := 0, curr_x := 0\<rparr>)"
    by (simp add: c_io_init_def Let_def)
  then show ?thesis by (simp add: con_ok_def screen_ok_def setcursor_ok)
qed

text \<open>
  A newline at a fixed place blanks the rest of the row, up to the region, the end of the
  region or the edge of the screen; anything else is stored in one cell.
\<close>

definition line_end :: "console \<Rightarrow> u32 \<Rightarrow> u32" where
  "line_end s x = (if scroll_max_x s < x then 79 else if scroll_min_x s \<le> x then scroll_max_x s else scroll_min_x s - 1)"

lemma c_putchar_at_ok:
  assumes "con_ok s"
  obtains t where "c_putchar_at' x y c s = Inr t" "only_video s t" "con_ok t"
    "\<And>i j. i < 80 \<Longrightarrow> j < 25 \<Longrightarrow> cell t i j =
       (if c AND 0x7f = 10 then
          if unat x \<le> i \<and> i \<le> unat (line_end s x) \<and> j = unat y then BLANK else cell s i j
        else if i = unat x \<and> j = unat y then glyph c else cell s i j)"
proof -
  note d = con_okD [OF assms]
  have ok: "con_ok t" if "only_video s t" for t
    using assms screen_ok_only [OF that] by (simp add: con_ok_def only_video_fields [OF that])
  show thesis
  proof (cases "c AND 0x7f = 10")
    case True
    have m: "max_x s = 79" using d(1) by (simp add: screen_ok_def)
    have lim: "unat (line_end s x) < 80"
    proof (cases "scroll_max_x s < x \<or> scroll_min_x s \<le> x")
      case False
      then have "0 < unat (scroll_min_x s)" by (simp add: word_le_nat_alt not_le)
      then have "unat (scroll_min_x s - 1) = unat (scroll_min_x s) - 1" by (simp add: unat_minus_one unat_gt_0)
      then show ?thesis using False d(2,3) by (simp add: line_end_def)
    qed (use d(3) in \<open>auto simp: line_end_def\<close>)
    let ?f = "\<lambda>x s. put_raw x y 0x20 s" and ?xs = "wupto x (line_end s x)"
    have l: "loop (\<lambda>(x', s'). x' \<le> line_end s x) (\<lambda>(x, s). Inr (x + 1, ?f x s)) (x, s) =
        Inr (if x \<le> line_end s x then line_end s x + 1 else x, fold ?f ?xs s)"
      using not_minus_one [OF lim] by (intro loop_upto [where lim = "\<lambda>_. line_end s x"]) simp_all
    have "c_putchar_at' x y c s = Inr (fold ?f ?xs s)"
      using True l m by (simp add: c_putchar_at'_def Let_def line_end_def [symmetric] cong: if_cong)
    moreover have p: "only_video s (fold ?f ?xs s) \<and> (\<forall>i < 80. \<forall>j < 25. cell (fold ?f ?xs s) i j =
        (if \<exists>x \<in> set ?xs. i = unat x \<and> j = unat y then glyph 0x20 else cell s i j))"
    proof (rule fold_paint)
      fix x t assume t: "only_video s t"
      show "only_video t (?f x t) \<and> (\<forall>i < 80. \<forall>j < 25. cell (?f x t) i j =
        (if i = unat x \<and> j = unat y then glyph 0x20 else cell t i j))"
        using d(1) by (simp add: cell_put_raw screen_ok_only [OF t])
    qed
    moreover have "glyph 0x20 = BLANK" by code_simp
    ultimately show ?thesis
      using True p ok wupto_unat [OF lim, of x] by (intro that [of "fold ?f ?xs s"]) auto
  next
    case False
    then show ?thesis
      using ok [OF only_video_put_raw] d(1)
      by (intro that [of "put_raw x y c s"]) (simp_all add: c_putchar_at'_def cell_put_raw)
  qed
qed

lemma c_puts_at_ok:
  assumes "con_ok s"
  shows "\<exists>t. c_puts_at' x y str s = Inr t \<and> only_video s t \<and> con_ok t"
  using assms
proof (induction str arbitrary: x s)
  case (Cons ch str)
  obtain t where t: "c_putchar_at' x y (scast ch) s = Inr t" "only_video s t" "con_ok t"
    using c_putchar_at_ok [OF Cons.prems] by metis
  from Cons.IH [OF t(3), of "x + 1"] t Cons.prems show ?case
    by (cases "x \<le> max_x s") (auto intro: only_video_trans)
qed simp

end
