(* ===== verification/Keyboard.thy ===== *)
theory Keyboard
  imports Terminal
begin

text \<open>
  The keyboard side of c_io.c: the circular buffer is a queue of at most 199 characters, what a
  scan code adds to it, and what \<open>c_getchar\<close> and \<open>c_gets\<close> take from it.
\<close>

section \<open>The circular buffer\<close>

definition ring :: "nat \<Rightarrow> nat \<Rightarrow> nat list" where
  "ring a b = (if a \<le> b then [a..<b] else [a..<C_BUFSIZE] @ [0..<b])"

lemma c_increment_less: "a < C_BUFSIZE \<Longrightarrow> c_increment a < C_BUFSIZE"
  by (simp add: c_increment_def Let_def)

lemma ring_empty: "ring a b = [] \<longleftrightarrow> a = b" if "a < C_BUFSIZE"
  using that by (auto simp: ring_def)

lemma ring_snoc:
  assumes "a < C_BUFSIZE" "b < C_BUFSIZE" "c_increment b \<noteq> a"
  shows "ring a (c_increment b) = ring a b @ [b]"
proof (cases "b = 199")
  case True
  then show ?thesis using assms upt_Suc_append [of a 199] by (simp add: ring_def c_increment_def)
next
  case False
  then show ?thesis using assms by (auto simp: ring_def c_increment_def Let_def)
qed

lemma ring_Cons:
  assumes "a < C_BUFSIZE" "b < C_BUFSIZE" "a \<noteq> b"
  shows "ring a b = a # ring (c_increment a) b"
proof (cases "a = 199")
  case True
  then show ?thesis using assms upt_conv_Cons [of 199 200] by (simp add: ring_def c_increment_def)
next
  case False
  then show ?thesis using assms upt_conv_Cons [of a 200] upt_conv_Cons [of a b]
    by (auto simp: ring_def c_increment_def Let_def)
qed

lemma ring_fresh: "a < C_BUFSIZE \<Longrightarrow> b < C_BUFSIZE \<Longrightarrow> b \<notin> set (ring a b)"
  by (auto simp: ring_def)

lemma length_ring: "a < C_BUFSIZE \<Longrightarrow> length (ring a b) = (if a \<le> b then b - a else C_BUFSIZE - a + b)"
  by (simp add: ring_def)

lemma ring_full:
  "a < C_BUFSIZE \<Longrightarrow> b < C_BUFSIZE \<Longrightarrow> c_increment b = a \<longleftrightarrow> length (ring a b) = 199"
  by (auto simp: ring_def c_increment_def Let_def)

section \<open>Keystrokes\<close>

definition kbd_ok :: "console \<Rightarrow> bool" where
  "kbd_ok s \<longleftrightarrow> next_char s < C_BUFSIZE \<and> next_space s < C_BUFSIZE \<and> kbd_shift s \<le> 1"

definition kbd_data :: "console \<Rightarrow> u8 list" where
  "kbd_data s = map (input_buffer s) (ring (next_char s) (next_space s))"

text \<open>The character of a scan code, and the state of the shift and control keys after it.\<close>

definition modifier :: "u32 \<Rightarrow> bool" where
  "modifier code \<longleftrightarrow> code \<in> {0x2a, 0x36, 0xaa, 0xb6, 0x1d, 0x9d}"

definition key_char :: "u32 \<Rightarrow> console \<Rightarrow> u8 list" where
  "key_char code s =
     (let code = code AND 0xff in
      if modifier code \<or> code AND 0x80 \<noteq> 0 then []
      else [ucast ((ucast (scan_code ! unat (kbd_shift s) ! unat code) :: u32) AND kbd_ctrl_mask s)])"

definition key_mode :: "u32 \<Rightarrow> u32 \<times> u32 \<Rightarrow> u32 \<times> u32" where
  "key_mode code = (\<lambda>(sh, ctrl).
     let code = code AND 0xff in
     (if code = 0x2a \<or> code = 0x36 then 1 else if code = 0xaa \<or> code = 0xb6 then 0 else sh,
      if code = 0x1d then 0x1f else if code = 0x9d then 0xff else ctrl))"

lemma scan_code_signed: "(ucast (b :: u8) :: u32) \<noteq> -1"
proof
  assume e: "(ucast b :: u32) = -1"
  have "bit (-1 :: u32) 31" by simp
  then have "bit b 31" unfolding e [symmetric] by (simp add: bit_simps)
  then show False using bit_imp_le_length [of b 31] by simp
qed

text \<open>Everything but the keyboard's part of the state.\<close>

definition kbd_frame :: "console \<Rightarrow> console \<Rightarrow> bool" where
  "kbd_frame s t \<longleftrightarrow> t\<lparr>input_buffer := input_buffer s, next_char := next_char s, next_space := next_space s,
     kbd_shift := kbd_shift s, kbd_ctrl_mask := kbd_ctrl_mask s, inq := inq s, io := io s\<rparr> = s"

lemma input_scan_code_ok:
  assumes "kbd_ok s"
  shows "kbd_ok (input_scan_code code s)" "kbd_frame s (input_scan_code code s)"
    "inq (input_scan_code code s) = inq s"
    "(kbd_shift (input_scan_code code s), kbd_ctrl_mask (input_scan_code code s)) =
       key_mode code (kbd_shift s, kbd_ctrl_mask s)"
    "kbd_data (input_scan_code code s) =
       kbd_data s @ (if length (kbd_data s) < 199 then key_char code s else [])"
proof -
  have b: "next_char s < C_BUFSIZE" "next_space s < C_BUFSIZE" using assms by (simp_all add: kbd_ok_def)
  let ?c = "code AND 0xff"
  have d: "kbd_data (t\<lparr>kbd_shift := x\<rparr>) = kbd_data t" "kbd_data (t\<lparr>kbd_ctrl_mask := x\<rparr>) = kbd_data t" for t x
    by (simp_all add: kbd_data_def)
  have full: "length (kbd_data s) < 199 \<longleftrightarrow> c_increment (next_space s) \<noteq> next_char s"
  proof -
    have "length (kbd_data s) \<le> 199" using b by (auto simp: kbd_data_def length_ring)
    then show ?thesis using ring_full [OF b] by (auto simp: kbd_data_def)
  qed
  have ins: "map ((input_buffer s)(next_space s := v)) (ring (next_char s) (c_increment (next_space s))) = kbd_data s @ [v]"
    if "c_increment (next_space s) \<noteq> next_char s" for v
    using ring_snoc [OF b that] ring_fresh [OF b] by (simp add: kbd_data_def)
  consider "modifier ?c" | "\<not> modifier ?c" "?c AND 0x80 \<noteq> 0" | "\<not> modifier ?c" "?c AND 0x80 = 0" by blast
  then have "kbd_ok (input_scan_code code s) \<and> kbd_frame s (input_scan_code code s) \<and>
    inq (input_scan_code code s) = inq s \<and>
    (kbd_shift (input_scan_code code s), kbd_ctrl_mask (input_scan_code code s)) =
       key_mode code (kbd_shift s, kbd_ctrl_mask s) \<and>
    kbd_data (input_scan_code code s) =
       kbd_data s @ (if length (kbd_data s) < 199 then key_char code s else [])"
  proof cases
    case 1
    then show ?thesis using assms
      by (auto simp: modifier_def input_scan_code_def key_mode_def key_char_def Let_def d kbd_ok_def kbd_frame_def)
  next
    case 2
    then show ?thesis using assms
      by (simp add: modifier_def input_scan_code_def key_mode_def key_char_def Let_def kbd_frame_def)
  next
    case 3
    then show ?thesis using assms full ins c_increment_less [OF b(2)] scan_code_signed
      by (simp add: modifier_def input_scan_code_def key_mode_def key_char_def Let_def kbd_frame_def kbd_ok_def)
        (auto simp: kbd_data_def)
  qed
  then show "kbd_ok (input_scan_code code s)" "kbd_frame s (input_scan_code code s)"
    "inq (input_scan_code code s) = inq s"
    "(kbd_shift (input_scan_code code s), kbd_ctrl_mask (input_scan_code code s)) =
       key_mode code (kbd_shift s, kbd_ctrl_mask s)"
    "kbd_data (input_scan_code code s) =
       kbd_data s @ (if length (kbd_data s) < 199 then key_char code s else [])" by blast+
qed

lemma c_input_queue_length: "kbd_ok s \<Longrightarrow> c_input_queue s = int (length (kbd_data s))"
  by (auto simp: c_input_queue_def kbd_ok_def kbd_data_def length_ring Let_def)

text \<open>
  The characters of a sequence of scan codes: each stands for at most one, by the state the
  shift and control keys are in when it comes.
\<close>

fun typed :: "u32 list \<Rightarrow> console \<Rightarrow> u8 list" where
  "typed [] s = []"
| "typed (code # codes) s = key_char code s @ typed codes (input_scan_code code s)"

lemma length_key_char: "length (key_char code s) \<le> 1"
  by (simp add: key_char_def Let_def)

lemma keys_queued:
  assumes "kbd_ok s"
  shows "kbd_ok (fold input_scan_code codes s)"
    "kbd_data (fold input_scan_code codes s) = take 199 (kbd_data s @ typed codes s)"
    "kbd_frame s (fold input_scan_code codes s)"
proof -
  have "kbd_ok (fold input_scan_code codes s) \<and> kbd_frame s (fold input_scan_code codes s) \<and>
    kbd_data (fold input_scan_code codes s) = take 199 (kbd_data s @ typed codes s)" using assms
  proof (induction codes arbitrary: s)
    case Nil
    then have "length (kbd_data s) \<le> 199" by (auto simp: kbd_ok_def kbd_data_def length_ring)
    then show ?case using Nil by (simp add: kbd_frame_def)
  next
    case (Cons code codes)
    let ?t = "input_scan_code code s"
    note i = input_scan_code_ok [OF Cons.prems, of code]
    have "length (kbd_data s) \<le> 199" using Cons.prems by (auto simp: kbd_ok_def kbd_data_def length_ring)
    then have "take 199 (kbd_data ?t @ typed codes ?t) = take 199 (kbd_data s @ key_char code s @ typed codes ?t)"
      using i(5) by (cases "length (kbd_data s) < 199") simp_all
    moreover have "kbd_frame s u" if "kbd_frame ?t u" for u
      using i(2) that by (cases s; cases ?t; cases u) (simp add: kbd_frame_def)
    ultimately show ?case using Cons.IH [OF i(1)] by simp
  qed
  then show "kbd_ok (fold input_scan_code codes s)"
    "kbd_data (fold input_scan_code codes s) = take 199 (kbd_data s @ typed codes s)"
    "kbd_frame s (fold input_scan_code codes s)" by blast+
qed

lemma kbd_frame_screen:
  assumes "kbd_frame s t"
  shows "con_ok t = con_ok s" "term_of t = term_of s" "mem t = mem s"
  using assms
  by (cases s; cases t; simp add: kbd_frame_def con_ok_def screen_ok_def term_of_def region_rows_def
        region_w_def region_h_def cell_def)+

section \<open>Taking characters\<close>

lemma con_frame_kbd:
  assumes "con_frame s t"
  shows "kbd_data t = kbd_data s" "kbd_ok t = kbd_ok s"
  by (simp_all add: kbd_data_def kbd_ok_def con_frame_fields [OF assms])

text \<open>The character at the front, with the echo that all but EOT have.\<close>

definition echo :: "u8 \<Rightarrow> terminal \<Rightarrow> terminal" where
  "echo c t = (if c = EOT then t else term_put (scast c) t)"

lemma c_getchar_ok:
  assumes "con_ok s" "kbd_ok s" "kbd_data s = c # cs"
  obtains t where "c_getchar ie s = Inr (c, t)" "con_ok t" "kbd_ok t" "kbd_data t = cs"
    "term_of t = echo c (term_of s)" "inq t = inq s" "mem t = mem s"
proof -
  have b: "next_char s < C_BUFSIZE" "next_space s < C_BUFSIZE" using assms(2) by (simp_all add: kbd_ok_def)
  have ne: "next_char s \<noteq> next_space s"
  proof
    assume "next_char s = next_space s"
    then have "kbd_data s = []" using ring_empty [OF b(1)] by (simp add: kbd_data_def)
    then show False using assms(3) by simp
  qed
  note r = ring_Cons [OF b ne]
  let ?t = "s\<lparr>next_char := c_increment (next_char s)\<rparr>"
  have c: "c = input_buffer s (next_char s)" "kbd_data ?t = cs"
    using assms(3) by (simp_all add: kbd_data_def r)
  have ok: "con_ok ?t" "kbd_ok ?t" using assms(1,2) c_increment_less [OF b(1)]
    by (simp_all add: con_ok_def screen_ok_def kbd_ok_def)
  have tm: "term_of ?t = term_of s"
    by (simp add: term_of_def region_rows_def region_w_def region_h_def cell_def)
  have g: "c_getchar ie s = bindE (if c \<noteq> EOT then c_putchar (scast c) ?t else Inr ?t) (\<lambda>s. Inr (c, s))"
    using ne c(1) by (simp add: c_getchar_def loop_done Let_def)
  show thesis
  proof (cases "c = EOT")
    case True
    then show ?thesis using that [of ?t] g ok c(2) tm by (simp add: echo_def)
  next
    case False
    obtain u where u: "c_putchar (scast c) ?t = Inr u" "con_ok u" "con_frame ?t u"
      "term_of u = term_put (scast c) (term_of ?t)" using c_putchar_ok [OF ok(1)] by metis
    show ?thesis
      using that [of u] False u g c(2) ok(2) tm con_frame_kbd [OF u(3)] con_frame_fields(9,10) [OF u(3)]
      by (simp add: echo_def)
  qed
qed

text \<open>With an empty buffer, the interrupts that follow fill it.\<close>

lemma getchar_after_isr:
  assumes "kbd_ok s" "kbd_data s = []" "inq s = code # rest" "key_char code s = []"
  shows "\<exists>t. c_getchar True s = c_getchar True t \<and> kbd_ok t \<and> kbd_data t = [] \<and> inq t = rest \<and>
     (kbd_shift t, kbd_ctrl_mask t) = key_mode code (kbd_shift s, kbd_ctrl_mask s)"
proof -
  let ?s = "s\<lparr>inq := rest\<rparr>"
  let ?t = "outb PIC_MASTER_CMD_PORT PIC_EOI (input_scan_code (code AND 0xff) ?s)"
  have ok: "kbd_ok ?s" using assms(1) by (simp add: kbd_ok_def)
  note i = input_scan_code_ok [OF ok, of "code AND 0xff"]
  have k: "key_char (code AND 0xff) ?s = key_char code s" by (simp add: key_char_def Let_def)
  have e: "next_char s = next_space s"
    using assms(1,2) ring_empty [of "next_char s" "next_space s"] by (simp add: kbd_ok_def kbd_data_def)
  have o: "kbd_ok ?t = kbd_ok (input_scan_code (code AND 0xff) ?s)"
    "kbd_data ?t = kbd_data (input_scan_code (code AND 0xff) ?s)" "inq ?t = inq (input_scan_code (code AND 0xff) ?s)"
    "kbd_shift ?t = kbd_shift (input_scan_code (code AND 0xff) ?s)"
    "kbd_ctrl_mask ?t = kbd_ctrl_mask (input_scan_code (code AND 0xff) ?s)"
    by (simp_all add: outb_def kbd_ok_def kbd_data_def)
  have "keyboard_isr s = Inr ?t" using assms(3) by (simp add: keyboard_isr_def inb_def)
  then have "c_getchar True s = c_getchar True ?t"
    using e by (simp add: c_getchar_def) (subst loop_step, auto)
  moreover have "kbd_data ?s = kbd_data s" by (simp add: kbd_data_def)
  ultimately show ?thesis
    using i assms(2,4) by (intro exI [of _ ?t]) (simp add: o k key_mode_def)
qed

section \<open>Reading a line\<close>

lemma write_bytes_snoc: "write_bytes a (bs @ [b]) m = (write_bytes a bs m)(a + of_nat (length bs) := b)"
  by (induction bs arbitrary: a m) (simp_all add: add.assoc)

lemma st8_console [simp]:
  "term_of (st8 a c t) = term_of t" "con_ok (st8 a c t) = con_ok t" "kbd_ok (st8 a c t) = kbd_ok t"
  "kbd_data (st8 a c t) = kbd_data t" "inq (st8 a c t) = inq t" "mem (st8 a c t) = (mem t)(a := c)"
  for t :: console
  by (simp_all add: st8_def term_of_def region_rows_def region_w_def region_h_def cell_def con_ok_def
        screen_ok_def kbd_ok_def kbd_data_def)

lemma c_gets_loop_ok:
  assumes "con_ok s" "kbd_ok s" "kbd_data s = line @ 10 # rest" "10 \<notin> set line" "EOT \<notin> set line"
    "length line < n"
  shows "\<exists>t. c_gets_loop n ie buffer k s = Inr (buffer + of_nat (length line) + 1, k + of_nat (length line) + 1, t) \<and>
     con_ok t \<and> kbd_ok t \<and> kbd_data t = rest \<and> mem t = write_bytes buffer (line @ [10]) (mem s) \<and>
     term_of t = fold echo (line @ [10]) (term_of s) \<and> inq t = inq s"
  using assms
proof (induction line arbitrary: n buffer k s)
  case Nil
  then obtain m where n: "n = Suc m" by (cases n) simp_all
  from Nil obtain t where t: "c_getchar ie s = Inr (10, t)" "con_ok t" "kbd_ok t" "kbd_data t = rest"
    "term_of t = echo 10 (term_of s)" "inq t = inq s" "mem t = mem s"
    using c_getchar_ok [of s 10 rest ie] by auto
  then show ?case using n by (simp add: fun_eq_iff)
next
  case (Cons c line)
  then obtain m where n: "n = Suc m" by (cases n) simp_all
  from Cons.prems obtain t where t: "c_getchar ie s = Inr (c, t)" "con_ok t" "kbd_ok t" "kbd_data t = line @ 10 # rest"
    "term_of t = echo c (term_of s)" "inq t = inq s" "mem t = mem s"
    using c_getchar_ok [of s c "line @ 10 # rest" ie] by auto
  let ?u = "st8 buffer c t"
  have "\<exists>v. c_gets_loop m ie (buffer + 1) (k + 1) ?u =
        Inr (buffer + 1 + of_nat (length line) + 1, k + 1 + of_nat (length line) + 1, v) \<and>
     con_ok v \<and> kbd_ok v \<and> kbd_data v = rest \<and> mem v = write_bytes (buffer + 1) (line @ [10]) (mem ?u) \<and>
     term_of v = fold echo (line @ [10]) (term_of ?u) \<and> inq v = inq ?u"
    using Cons.prems t n by (intro Cons.IH) simp_all
  then show ?case using t n Cons.prems by (simp add: add_ac)
qed

lemma c_gets_ok:
  assumes "con_ok s" "kbd_ok s" "kbd_data s = line @ 10 # rest" "10 \<notin> set line" "EOT \<notin> set line"
    "length line + 1 < unat sz"
  shows "\<exists>t. c_gets ie buffer sz s = Inr (of_nat (length line) + 1, t) \<and>
     kbd_data t = rest \<and> mem t = write_bytes buffer (line @ [10, 0]) (mem s) \<and>
     term_of t = fold echo (line @ [10]) (term_of s)"
proof -
  from c_gets_loop_ok [OF assms(1-5), of "unat sz - 1" ie buffer 0] assms(6)
  obtain t where t: "c_gets_loop (unat sz - 1) ie buffer 0 s =
      Inr (buffer + of_nat (length line) + 1, of_nat (length line) + 1, t)"
    "kbd_data t = rest" "mem t = write_bytes buffer (line @ [10]) (mem s)" "term_of t = fold echo (line @ [10]) (term_of s)"
    by (auto simp: less_diff_conv)
  have "write_bytes buffer (line @ [10, 0]) (mem s) =
      (write_bytes buffer (line @ [10]) (mem s))(buffer + of_nat (length line) + 1 := 0)"
    using write_bytes_snoc [of buffer "line @ [10]" 0 "mem s"] by (simp add: add_ac)
  then show ?thesis using t by (simp add: c_gets_def)
qed

end
