(* ===== verification/Numbers.thy ===== *)
theory Numbers
  imports Console
begin

text \<open>
  What the number conversions of c_io.c store: digits that read back as the number.
\<close>

section \<open>Reading digits\<close>

definition digit_val :: "u8 \<Rightarrow> nat" where
  "digit_val b = (if b \<le> 57 then unat b - 48 else unat b - 55)"

definition digits_val :: "nat \<Rightarrow> u8 list \<Rightarrow> nat" where
  "digits_val base ds = foldl (\<lambda>n b. base * n + digit_val b) 0 ds"

lemma digits_val_snoc [simp]: "digits_val base (ds @ [d]) = base * digits_val base ds + digit_val d"
  by (simp add: digits_val_def)

lemma digits_val_Nil [simp]: "digits_val base [] = 0"
  by (simp add: digits_val_def)

lemma digits_val_Cons:
  "digits_val base (d # ds) = base ^ length ds * digit_val d + digits_val base ds"
  by (induction ds rule: rev_induct)
    (simp_all add: digits_val_def algebra_simps)

definition read_dec :: "u8 list \<Rightarrow> int" where
  "read_dec str = (if str \<noteq> [] \<and> hd str = 45 then - int (digits_val 10 (tl str)) else int (digits_val 10 str))"

section \<open>Decimal\<close>

fun dec_digits :: "nat \<Rightarrow> u8 list" where
  "dec_digits n = (if n < 10 then [] else dec_digits (n div 10)) @ [of_nat (48 + n mod 10)]"

declare dec_digits.simps [simp del]

lemma unat_digit: "d < 10 \<Longrightarrow> unat (of_nat (48 + d) :: u8) = 48 + d"
  by (intro of_nat_inverse [OF refl]) simp

lemma digit_val_dec [simp]: "d < 10 \<Longrightarrow> digit_val (of_nat (48 + d)) = d"
  using unat_digit [of d] by (simp add: digit_val_def word_le_nat_alt del: of_nat_add)

lemma digits_val_dec [simp]: "digits_val 10 (dec_digits n) = n"
  by (induction n rule: dec_digits.induct) (subst dec_digits.simps, auto simp del: of_nat_add)

lemma dec_digits_range: "d \<in> set (dec_digits n) \<Longrightarrow> 48 \<le> d \<and> d \<le> 57"
proof (induction n rule: dec_digits.induct)
  case (1 n)
  have "48 \<le> (of_nat (48 + n mod 10) :: u8) \<and> (of_nat (48 + n mod 10) :: u8) \<le> 57"
    using unat_digit [of "n mod 10"] by (simp add: word_le_nat_alt del: of_nat_add)
  moreover have "d \<in> set (if n < 10 then [] else dec_digits (n div 10)) \<or> d = of_nat (48 + n mod 10)"
    using 1 (2) by (subst (asm) dec_digits.simps) auto
  ultimately show ?case using 1 (1) by (auto split: if_splits simp del: of_nat_add)
qed

lemma length_dec_digits: "n < 10 ^ k \<Longrightarrow> 0 < k \<Longrightarrow> length (dec_digits n) \<le> k"
proof (induction k arbitrary: n)
  case (Suc k)
  show ?case
  proof (cases "n < 10")
    case False
    then have "0 < k" using Suc.prems by (cases k) auto
    moreover have "n div 10 < 10 ^ k" using Suc.prems by (simp add: less_mult_imp_div_less mult.commute)
    ultimately have "length (dec_digits (n div 10)) \<le> k" by (intro Suc.IH)
    then show ?thesis by (subst dec_digits.simps) simp
  qed (subst dec_digits.simps, simp)
qed simp

lemma dec_digits_nonempty [simp]: "dec_digits n \<noteq> []"
  by (subst dec_digits.simps) simp

lemma dec_digits_canonical: "0 < n \<Longrightarrow> hd (dec_digits n) \<noteq> 48"
proof (induction n rule: dec_digits.induct)
  case (1 n)
  show ?case
  proof (cases "n < 10")
    case True
    have "unat (of_nat (48 + n) :: u8) \<noteq> unat (48 :: u8)"
      using unat_digit [OF True] 1 (2) by simp
    then show ?thesis using True by (subst dec_digits.simps) (auto simp del: of_nat_add)
  next
    case False
    then show ?thesis using 1 by (subst dec_digits.simps) simp
  qed
qed

lemma smod10_digit: "0 \<le> sint v \<Longrightarrow> ucast (smod10 v + 48) = (of_nat (48 + nat (sint v) mod 10) :: u8)"
proof -
  assume v: "0 \<le> sint v"
  then obtain n where n: "sint v = int n" using nonneg_int_cases by blast
  have "smod10 v = of_nat (n mod 10)"
  proof -
    have "sint v smod 10 = int (n mod 10)"
      using n by (cases "n = 0") (simp_all add: signed_modulo_int_def signed_divide_int_def zmod_int minus_mult_div_eq_mod)
    then show ?thesis unfolding smod10_def by simp
  qed
  then have e: "smod10 v + 48 = of_nat (48 + n mod 10)" by (simp add: add.commute)
  have "take_bit 32 (48 + n mod 10) = 48 + n mod 10" by (intro take_bit_nat_eq_self) simp
  then have "ucast (of_nat (48 + n mod 10) :: u32) = (of_nat (48 + n mod 10) :: u8)"
    by (simp add: unsigned_of_nat del: of_nat_add)
  then show ?thesis unfolding e n by (simp del: of_nat_add)
qed

lemma cvtdec0_pos: "0 \<le> sint v \<Longrightarrow> cvtdec0 v = dec_digits (nat (sint v))"
proof (induction v rule: cvtdec0.induct)
  case (1 v)
  have s: "sint (sdiv10 v) = sint v div 10"
    using 1 (2) by (simp add: sint_sdiv10 signed_divide_int_def sgn_if)
  have nl: "\<not> sdiv10 v <s 0" using 1 (2) by (simp add: word_sless_alt s)
  have z: "sdiv10 v \<noteq> 0 \<longleftrightarrow> \<not> nat (sint v) < 10"
  proof -
    have "sdiv10 v = 0 \<longleftrightarrow> sint (sdiv10 v) = 0" by (metis signed_0 signed_word_eqI)
    then show ?thesis using 1 (2) unfolding s by auto
  qed
  have "cvtdec0 (sdiv10 v) = dec_digits (nat (sint v) div 10)" if "sdiv10 v \<noteq> 0"
    using 1 (1) [of "sdiv10 v" "(sdiv10 v, v)" "sdiv10 v" v] that nl 1 (2) by (simp add: s nat_div_distrib)
  then show ?case
    using nl z 1 (2) by (subst cvtdec0.simps, subst dec_digits.simps) (simp add: smod10_digit del: of_nat_add)
qed

lemma sint_of_int_small: "- (2 ^ 31) \<le> k \<Longrightarrow> k < 2 ^ 31 \<Longrightarrow> sint (word_of_int k :: u32) = k"
  by (simp add: signed_of_int signed_take_bit_int_eq_self)

lemma sint_least: "sint (0x80000000 :: u32) = - (2 ^ 31)"
  by simp

lemma cvtdec0_least: "cvtdec0 0x80000000 = dec_digits 2147483648"
proof -
  have "sdiv10 0x80000000 <s 0"
    unfolding word_sless_alt sint_sdiv10 sint_least by (simp add: signed_divide_int_def)
  then have "cvtdec0 0x80000000 = cvtdec0 214748364 @ [ucast (smod10 8 + 48)]"
    by (subst cvtdec0.simps) simp
  also have "(214748364 :: u32) = of_nat 214748364" by simp
  also have "cvtdec0 (of_nat 214748364) = dec_digits 214748364"
    by (subst cvtdec0_pos) simp_all
  also have "(ucast (smod10 8 + 48) :: u8) = of_nat (48 + 2147483648 mod 10)"
    by (simp add: smod10_def signed_modulo_int_def signed_divide_int_def)
  finally show ?thesis by (subst dec_digits.simps) simp
qed

lemma cvtdec_digits:
  "cvtdec v = (if sint v < 0 then 45 # dec_digits (nat (- sint v)) else dec_digits (nat (sint v)))"
proof (cases "v <s 0")
  case True
  then have n: "sint v < 0" by (simp add: word_sless_alt)
  show ?thesis
  proof (cases "v = 0x80000000")
    case True
    then have "- v = 0x80000000" "nat (- sint v) = 2147483648" unfolding True sint_least by simp_all
    then show ?thesis using n \<open>v <s 0\<close> cvtdec0_least by (simp add: cvtdec_def)
  next
    case False
    have "sint v \<noteq> - (2 ^ 31)"
    proof
      assume "sint v = - (2 ^ 31)"
      then have "sint v = sint (0x80000000 :: u32)" unfolding sint_least .
      then show False using False by (simp add: signed_word_eqI)
    qed
    then have "- (2 ^ 31) \<le> - sint v" "- sint v < 2 ^ 31"
      using sint_range_size [of v] n by (simp_all add: word_size)
    then have "sint (word_of_int (- sint v) :: u32) = - sint v" by (rule sint_of_int_small)
    then have "sint (- v) = - sint v" by simp
    then show ?thesis using True n cvtdec0_pos [of "- v"] by (simp add: cvtdec_def)
  qed
next
  case False
  then show ?thesis using cvtdec0_pos [of v] by (simp add: cvtdec_def word_sless_alt)
qed

lemma hd_dec_digits: "hd (dec_digits n) \<noteq> 45"
proof -
  have "48 \<le> hd (dec_digits n)" using dec_digits_range [of "hd (dec_digits n)" n] by simp
  then show ?thesis by (auto simp: word_le_nat_alt)
qed

lemma read_cvtdec: "read_dec (cvtdec v) = sint v"
  using hd_dec_digits by (simp add: cvtdec_digits read_dec_def)

lemma length_cvtdec: "length (cvtdec v) \<le> 11"
proof -
  have "- (2 ^ 31) \<le> sint v" "sint v < 2 ^ 31"
    using sint_range_size [of v] by (simp_all add: word_size)
  then have "nat (- sint v) < 10 ^ 10" "nat (sint v) < 10 ^ 10" by auto
  from this [THEN length_dec_digits] show ?thesis by (simp add: cvtdec_digits)
qed

section \<open>Powers of two\<close>

lemma unat_drop: "unat (drop_bit n v) = unat v div 2 ^ n" for v :: u32
  by (simp only: unat_drop_bit_eq) (rule drop_bit_eq_div)

text \<open>The \<open>k\<close> digits of \<open>b\<close> bits at the top of a word.\<close>

fun top_digits :: "nat \<Rightarrow> nat \<Rightarrow> u32 \<Rightarrow> u8 list" where
  "top_digits b 0 v = []"
| "top_digits b (Suc k) v = hexdigits ! unat (drop_bit (32 - b) v) # top_digits b k (push_bit b v)"

lemma length_top_digits [simp]: "length (top_digits b k v) = k"
  by (induction k arbitrary: v) simp_all

lemma digit_val_hex: "n < 16 \<Longrightarrow> digit_val (hexdigits ! n) = n"
proof -
  have "\<forall>n \<in> set [0..<16]. digit_val (hexdigits ! n) = n" by code_simp
  then show "n < 16 \<Longrightarrow> digit_val (hexdigits ! n) = n" by simp
qed

lemma hexdigits_zero: "n < 16 \<Longrightarrow> hexdigits ! n = 48 \<longleftrightarrow> n = 0"
proof -
  have "\<forall>n \<in> set [0..<16]. hexdigits ! n = 48 \<longleftrightarrow> n = 0" by code_simp
  then show "n < 16 \<Longrightarrow> hexdigits ! n = 48 \<longleftrightarrow> n = 0" by simp
qed

lemma drop_bit_less: "b \<le> 4 \<Longrightarrow> unat (drop_bit (32 - b) v) < 16" for v :: u32
proof -
  assume "b \<le> 4"
  have "unat v < 2 ^ 32" using unsigned_less [of v] by simp
  then have "unat v div 2 ^ (32 - b) < 2 ^ b"
    using \<open>b \<le> 4\<close> by (subst div_less_iff_less_mult) (simp_all flip: power_add)
  also have "(2 :: nat) ^ b \<le> 2 ^ 4" using \<open>b \<le> 4\<close> by (intro power_increasing) simp_all
  finally show ?thesis by (simp add: unat_drop)
qed

lemma div_power_split: "n div 2 ^ m = 2 ^ p * (n div 2 ^ (m + p)) + (n mod 2 ^ (m + p)) div 2 ^ m" for n :: nat
proof -
  have "n mod 2 ^ (m + p) = 2 ^ m * (n div 2 ^ m mod 2 ^ p) + n mod 2 ^ m"
    by (simp add: power_add mod_mult2_eq)
  then have "(n mod 2 ^ (m + p)) div 2 ^ m = n div 2 ^ m mod 2 ^ p" by simp
  moreover have "n div 2 ^ (m + p) = n div 2 ^ m div 2 ^ p" by (simp add: power_add div_mult2_eq)
  ultimately show ?thesis by simp
qed

lemma digits_val_top:
  "0 < b \<Longrightarrow> b \<le> 4 \<Longrightarrow> b * k \<le> 32 \<Longrightarrow> digits_val (2 ^ b) (top_digits b k v) = unat (drop_bit (32 - b * k) v)"
proof (induction k arbitrary: v)
  case 0
  have "unat v < 2 ^ 32" using unsigned_less [of v] by simp
  then show ?case by (simp add: unat_drop)
next
  case (Suc k)
  let ?n = "unat v" and ?m = "32 - b * Suc k"
  have n: "?n < 2 ^ 32" using unsigned_less [of v] by simp
  have e: "32 - b = ?m + b * k" "32 - b * k = ?m + b" using Suc.prems by simp_all
  have p: "unat (push_bit b v) = 2 ^ b * (?n mod 2 ^ (32 - b))"
  proof -
    have "unat (push_bit b v) = (?n * 2 ^ b) mod 2 ^ 32"
      by (simp only: unsigned_push_bit_eq) (simp add: push_bit_eq_mult take_bit_eq_mod)
    also have "(2 :: nat) ^ 32 = 2 ^ (32 - b) * 2 ^ b" using Suc.prems by (simp flip: power_add)
    finally show ?thesis by (simp add: mult_mod_left mult.commute)
  qed
  have "unat (drop_bit (32 - b * k) (push_bit b v)) = (?n mod 2 ^ (?m + b * k)) div 2 ^ ?m"
    unfolding unat_drop p e by (simp add: power_add)
  moreover have "unat (drop_bit (32 - b) v) = ?n div 2 ^ (?m + b * k)"
    unfolding unat_drop e by simp
  moreover have "unat (drop_bit ?m v) = ?n div 2 ^ ?m"
    by (simp add: unat_drop)
  moreover have "digits_val (2 ^ b) (top_digits b k (push_bit b v)) = unat (drop_bit (32 - b * k) (push_bit b v))"
    using Suc.prems by (intro Suc.IH) simp_all
  ultimately show ?case
    using Suc.prems drop_bit_less [of b v] div_power_split [of ?n ?m "b * k"]
    by (simp add: digits_val_Cons digit_val_hex power_mult flip: power_mult)
qed

section \<open>Hexadecimal and octal\<close>

text \<open>The digits without the leading zeros; the last one stays.\<close>

fun strip_zeros :: "u8 list \<Rightarrow> u8 list" where
  "strip_zeros (d # e # ds) = (if d = 48 then strip_zeros (e # ds) else d # e # ds)"
| "strip_zeros ds = ds"

lemma digits_val_strip [simp]: "digits_val base (strip_zeros ds) = digits_val base ds"
  by (induction ds rule: strip_zeros.induct) (auto simp: digits_val_Cons [of base 48] digit_val_def)

lemma strip_zeros_canonical: "1 < length (strip_zeros ds) \<Longrightarrow> hd (strip_zeros ds) \<noteq> 48"
  by (induction ds rule: strip_zeros.induct) (auto split: if_splits)

lemma length_strip_zeros: "length (strip_zeros ds) \<le> length ds"
  by (induction ds rule: strip_zeros.induct) auto

lemma strip_zeros_nonempty: "strip_zeros ds = [] \<longleftrightarrow> ds = []"
  by (induction ds rule: strip_zeros.induct) auto

lemma strip_zeros_Cons: "ds \<noteq> [] \<Longrightarrow> strip_zeros (d # ds) = (if d = 48 then strip_zeros ds else d # ds)"
  by (cases ds) auto

lemma high_bit: "32 \<le> n \<Longrightarrow> \<not> bit v n" for v :: u32
  using bit_imp_le_length [of v n] by auto

lemma top_mask:
  "v AND 0xf0000000 = 0 \<longleftrightarrow> drop_bit 28 v = 0"
  "signed_drop_bit 28 (v AND 0xf0000000) AND 0xf = drop_bit 28 v" for v :: u32
proof -
  have m: "(0xf0000000 :: u32) = push_bit 28 (mask 4)" "(0xf :: u32) = mask 4" by code_simp+
  have "v AND 0xf0000000 = push_bit 28 (drop_bit 28 v)"
    unfolding m by (rule bit_word_eqI) (auto simp: bit_simps high_bit)
  moreover have "drop_bit 28 (push_bit 28 (drop_bit 28 v)) = drop_bit 28 v"
  proof (rule bit_word_eqI)
    show "bit (drop_bit 28 (push_bit 28 (drop_bit 28 v))) n = bit (drop_bit 28 v) n" for n
      using bit_imp_le_length [of v "28 + n"] by (auto simp: bit_simps)
  qed
  then have "push_bit 28 (drop_bit 28 v) = 0 \<longleftrightarrow> drop_bit 28 v = 0"
    by (metis drop_bit_of_0 push_bit_of_0)
  ultimately show "v AND 0xf0000000 = 0 \<longleftrightarrow> drop_bit 28 v = 0" by simp
  show "signed_drop_bit 28 (v AND 0xf0000000) AND 0xf = drop_bit 28 v"
    unfolding m by (rule bit_word_eqI) (auto simp: bit_simps high_bit)
qed

lemma cvthex_fold:
  assumes "0 < k" "k \<le> 8"
  shows "snd (snd (fold cvthex_step [8 - k..<8] (v, b, out))) =
     out @ (if b then top_digits 4 k v else strip_zeros (top_digits 4 k v))"
  using assms
proof (induction k arbitrary: v b out)
  case (Suc k)
  have l: "[8 - Suc k..<8] = (8 - Suc k) # [8 - k..<8]"
  proof -
    have "8 - Suc k < 8" "Suc (8 - Suc k) = 8 - k" using Suc.prems by linarith+
    then show ?thesis by (simp only: upt_conv_Cons)
  qed
  let ?d = "hexdigits ! unat (drop_bit 28 v)"
  have z: "?d = 48 \<longleftrightarrow> drop_bit 28 v = 0"
    using drop_bit_less [of 4 v] hexdigits_zero [of "unat (drop_bit 28 v)"] by (simp add: unat_eq_0)
  have step: "cvthex_step (8 - Suc k) (v, b, out) =
     (if k = 0 \<or> drop_bit 28 v \<noteq> 0 \<or> b then (push_bit 4 v, True, out @ [?d]) else (push_bit 4 v, b, out))"
    using Suc.prems by (simp add: cvthex_step_def Let_def top_mask) auto
  show ?case
  proof (cases "k = 0")
    case True
    then show ?thesis using step by (simp add: l)
  next
    case False
    then have "top_digits 4 k (push_bit 4 v) \<noteq> []" by (cases k) simp_all
    then show ?thesis
      using Suc.IH [of "push_bit 4 v"] Suc.prems False z by (simp only: l fold_simps(2) step) (simp add: strip_zeros_Cons)
  qed
qed simp

lemma cvthex_digits: "cvthex v = strip_zeros (top_digits 4 8 v)"
  using cvthex_fold [of 8 v False "[]"] by (simp add: cvthex_def)

lemma cvthex_val: "digits_val 16 (cvthex v) = unat v"
  using digits_val_top [of 4 8 v] by (simp add: cvthex_digits)

lemma cvthex_shape: "1 \<le> length (cvthex v)" "length (cvthex v) \<le> 8"
  "1 < length (cvthex v) \<Longrightarrow> hd (cvthex v) \<noteq> 48"
proof -
  show "length (cvthex v) \<le> 8" using length_strip_zeros [of "top_digits 4 8 v"] by (simp add: cvthex_digits)
  have "top_digits 4 8 v \<noteq> []" using length_top_digits [of 4 8 v] by (metis length_0_conv zero_neq_numeral)
  then show "1 \<le> length (cvthex v)"
    by (simp add: cvthex_digits strip_zeros_nonempty Suc_le_eq)
  show "1 < length (cvthex v) \<Longrightarrow> hd (cvthex v) \<noteq> 48"
    unfolding cvthex_digits by (rule strip_zeros_canonical)
qed

text \<open>
  The octal conversion takes two bits first and then drops three from the top, so that from
  then on each digit stands one bit too low: what is printed is the double of the number.
\<close>

lemma oct_mask: "signed_drop_bit 29 (v AND 0xe0000000) AND 0x7 = drop_bit 29 v"
  "signed_drop_bit 29 (v AND 0xe0000000) = 0 \<longleftrightarrow> drop_bit 29 v = 0" for v :: u32
proof -
  have m: "(0xe0000000 :: u32) = push_bit 29 (mask 3)" "(0x7 :: u32) = mask 3" by code_simp+
  show e: "signed_drop_bit 29 (v AND 0xe0000000) AND 0x7 = drop_bit 29 v"
    unfolding m by (rule bit_word_eqI) (auto simp: bit_simps high_bit)
  have "drop_bit 29 v = 0" if "signed_drop_bit 29 (v AND 0xe0000000) = 0" using e that by simp
  moreover have "v AND 0xe0000000 = push_bit 29 (drop_bit 29 v)"
    unfolding m by (rule bit_word_eqI) (auto simp: bit_simps high_bit)
  ultimately show "signed_drop_bit 29 (v AND 0xe0000000) = 0 \<longleftrightarrow> drop_bit 29 v = 0" by auto
qed

lemma cvtoct_fold:
  assumes "0 < k" "k \<le> 10"
  shows "snd (snd (snd (fold cvtoct_step [11 - k..<11] (v, signed_drop_bit 29 (v AND 0xe0000000), b, out)))) =
     out @ (if b then top_digits 3 k v else strip_zeros (top_digits 3 k v))"
  using assms
proof (induction k arbitrary: v b out)
  case (Suc k)
  have l: "[11 - Suc k..<11] = (11 - Suc k) # [11 - k..<11]"
  proof -
    have "11 - Suc k < 11" "Suc (11 - Suc k) = 11 - k" using Suc.prems by linarith+
    then show ?thesis by (simp only: upt_conv_Cons)
  qed
  let ?d = "hexdigits ! unat (drop_bit 29 v)" and ?n = "\<lambda>v :: u32. signed_drop_bit 29 (v AND 0xe0000000)"
  have z: "?d = 48 \<longleftrightarrow> drop_bit 29 v = 0"
    using drop_bit_less [of 3 v] hexdigits_zero [of "unat (drop_bit 29 v)"] by (simp add: unat_eq_0)
  have step: "cvtoct_step (11 - Suc k) (v, ?n v, b, out) =
     (let w = push_bit 3 v in
      if k = 0 \<or> drop_bit 29 v \<noteq> 0 \<or> b then (w, ?n w, True, out @ [?d]) else (w, ?n w, b, out))"
    using Suc.prems by (simp add: cvtoct_step_def Let_def oct_mask) auto
  show ?case
  proof (cases "k = 0")
    case True
    then show ?thesis using step by (simp add: l Let_def)
  next
    case False
    then have "top_digits 3 k (push_bit 3 v) \<noteq> []" by (cases k) simp_all
    then show ?thesis
      using Suc.IH [of "push_bit 3 v"] Suc.prems False z by (simp only: l fold_simps(2) step) (simp add: strip_zeros_Cons Let_def)
  qed
qed simp

text \<open>
  What \<open>%o\<close> prints in full: the double of the low twenty-nine bits, behind a digit for the two high bits
  that is 6 or 7 for a negative number; bit 29 is lost.
\<close>

lemma oct_top:
  "unat (signed_drop_bit 30 (v AND 0xc0000000) AND 7) = [0, 1, 6, 7] ! (unat v div 2 ^ 30)"
  "signed_drop_bit 30 (v AND 0xc0000000) = 0 \<longleftrightarrow> unat v div 2 ^ 30 = 0" for v :: u32
proof -
  have m: "(0xc0000000 :: u32) = push_bit 30 (mask 2)" by code_simp
  have a: "v AND 0xc0000000 = push_bit 30 (drop_bit 30 v)"
    unfolding m by (rule bit_word_eqI) (auto simp: bit_simps)
  have d: "unat (drop_bit 30 v) = unat v div 2 ^ 30" by (simp add: unat_drop)
  have "unat v < 2 ^ 32" using unsigned_less [of v] by simp
  then have "unat v div 2 ^ 30 < 4" by (simp add: less_mult_imp_div_less)
  then consider "drop_bit 30 v = 0" | "drop_bit 30 v = 1" | "drop_bit 30 v = 2" | "drop_bit 30 v = 3"
    unfolding d [symmetric] word_unat_eq_iff by fastforce
  then have "unat (signed_drop_bit 30 (v AND 0xc0000000) AND 7) = [0, 1, 6, 7] ! unat (drop_bit 30 v) \<and>
    (signed_drop_bit 30 (v AND 0xc0000000) = 0 \<longleftrightarrow> drop_bit 30 v = 0)"
    unfolding a by cases (simp_all only:, code_simp+)
  then show "unat (signed_drop_bit 30 (v AND 0xc0000000) AND 7) = [0, 1, 6, 7] ! (unat v div 2 ^ 30)"
    "signed_drop_bit 30 (v AND 0xc0000000) = 0 \<longleftrightarrow> unat v div 2 ^ 30 = 0"
    unfolding d [symmetric] by (simp_all add: unat_eq_0)
qed

lemma cvtoct_val:
  "digits_val 8 (cvtoct v) = [0, 1, 6, 7] ! (unat v div 2 ^ 30) * 2 ^ 30 + 2 * (unat v mod 2 ^ 29)"
proof -
  let ?n = "signed_drop_bit 30 (v AND 0xc0000000)" and ?T = "top_digits 3 10 (push_bit 3 v)"
  let ?d = "hexdigits ! unat (?n AND 7)"
  have l: "[0..<11] = 0 # [11 - 10..<11]" by (simp add: upt_conv_Cons)
  have c: "cvtoct v = (if ?n = 0 then strip_zeros ?T else ?d # ?T)"
    using cvtoct_fold [of 10 "push_bit 3 v" False "[]"] cvtoct_fold [of 10 "push_bit 3 v" True "[?d]"]
    by (simp add: l cvtoct_def cvtoct_step_def [of 0] Let_def del: upt_Suc)
  have "digit_val ?d = unat (?n AND 7)"
  proof (rule digit_val_hex)
    have "?n AND 7 \<le> 7" by (rule word_and_le1)
    then show "unat (?n AND 7) < 16" by (simp add: word_le_nat_alt)
  qed
  moreover have "digits_val 8 ?T = unat (drop_bit 2 (push_bit 3 v))"
    using digits_val_top [of 3 10 "push_bit 3 v"] by simp
  ultimately have "digits_val 8 (cvtoct v) = unat (?n AND 7) * 8 ^ 10 + unat (drop_bit 2 (push_bit 3 v))"
    by (simp add: c digits_val_Cons [of 8 ?d])
  moreover have "unat (push_bit 3 v) = unat v * 8 mod 2 ^ 32"
    by (simp only: unsigned_push_bit_eq) (simp add: push_bit_eq_mult take_bit_eq_mod)
  then have "unat (drop_bit 2 (push_bit 3 v)) = 2 * (unat v mod 2 ^ 29)"
    using mult_mod_right [of 8 "unat v" "2 ^ 29"] by (simp add: unat_drop mult.commute)
  ultimately show ?thesis using oct_top(1) [of v] by simp
qed

lemma length_cvtoct: "length (cvtoct v) \<le> 11"
proof -
  have "length (snd (snd (snd (fold cvtoct_step xs x)))) \<le> length (snd (snd (snd x))) + length xs" for xs x
  proof (induction xs arbitrary: x)
    case (Cons i xs)
    have "length (snd (snd (snd (cvtoct_step i x)))) \<le> Suc (length (snd (snd (snd x))))"
      by (cases x) (simp add: cvtoct_step_def Let_def)
    then show ?case using Cons [of "cvtoct_step i x"] by simp
  qed simp
  from this [of "[0..<11]" "(v, signed_drop_bit 30 (v AND 0xc0000000), False, [])"]
  show ?thesis by (simp add: cvtoct_def)
qed

end
