(* ===== verification/Printf.thy ===== *)
theory Printf
  imports Numbers
begin

text \<open>
  The format language of \<open>c_printf\<close>, as c_io.h describes it, and the text that a format and its
  arguments stand for.
\<close>

section \<open>Formats\<close>

datatype conversion = Conv_c | Conv_s | Conv_d | Conv_x | Conv_o

text \<open>A plain character, or a code with its alignment, fill and minimum width.\<close>

datatype directive = Lit u8 | Code bool bool nat conversion

fun conv_byte :: "conversion \<Rightarrow> u8" where
  "conv_byte Conv_c = 99"
| "conv_byte Conv_s = 115"
| "conv_byte Conv_d = 100"
| "conv_byte Conv_x = 120"
| "conv_byte Conv_o = 111"

fun fmt_bytes :: "directive \<Rightarrow> u8 list" where
  "fmt_bytes (Lit b) = [b]"
| "fmt_bytes (Code left zero w c) =
     37 # (if left then [45] else []) @ (if zero then [48] else []) @ (if w = 0 then [] else dec_digits w) @ [conv_byte c]"

fun directive_ok :: "directive \<Rightarrow> bool" where
  "directive_ok (Lit b) \<longleftrightarrow> b \<noteq> NUL \<and> b \<noteq> 37"
| "directive_ok (Code left zero w c) \<longleftrightarrow> w < 2 ^ 31"

section \<open>The text\<close>

fun conv_text :: "conversion \<Rightarrow> printf_arg \<Rightarrow> u8 list option" where
  "conv_text Conv_c (Num v) = (if (ucast v :: u8) = NUL then None else Some [ucast v])"
| "conv_text Conv_s (Str str) = (if length str < 2 ^ 31 then Some str else None)"
| "conv_text Conv_d (Num v) = Some (cvtdec v)"
| "conv_text Conv_x (Num v) = Some (cvthex v)"
| "conv_text Conv_o (Num v) = Some (cvtoct v)"
| "conv_text _ _ = None"

definition fill :: "bool \<Rightarrow> bool \<Rightarrow> nat \<Rightarrow> u8 list \<Rightarrow> u8 list" where
  "fill left zero w str =
     (let p = replicate (w - length str) (if zero then 48 else 32) in if left then str @ p else p @ str)"

fun render :: "directive list \<Rightarrow> printf_arg list \<Rightarrow> u8 list option" where
  "render [] ap = Some []"
| "render (Lit b # ds) ap = map_option ((#) b) (render ds ap)"
| "render (Code left zero w c # ds) [] = None"
| "render (Code left zero w c # ds) (a # ap) =
     (case conv_text c a of
        None \<Rightarrow> None
      | Some str \<Rightarrow> map_option ((@) (fill left zero w str)) (render ds ap))"

section \<open>Reading a code\<close>

lemma digit_word:
  assumes "48 \<le> d" "d \<le> 57"
  shows "(ucast d - 48 :: u32) = of_nat (digit_val d)"
proof -
  have "48 \<le> unat d" using assms(1) by (simp add: word_le_nat_alt)
  then have "of_nat (digit_val d) = (of_nat (unat d) - of_nat 48 :: u32)"
    using assms(2) by (simp only: digit_val_def if_True of_nat_diff)
  then show ?thesis by simp
qed

lemma fmt_width_digits:
  assumes "\<forall>d \<in> set (d # ds). 48 \<le> d \<and> d \<le> 57" "\<not> (48 \<le> t \<and> t \<le> 57)"
  shows "fmt_width (of_nat n) d (ds @ t # rest) =
     (of_nat (foldl (\<lambda>n d. 10 * n + digit_val d) n (d # ds)), t, Some rest)"
  using assms(1)
proof (induction ds arbitrary: d n)
  case Nil
  then show ?case using assms(2) digit_word [of d]
    by (cases rest) (auto simp: mult.commute)
next
  case (Cons e ds)
  have "of_nat n * 10 + (ucast d - 48) = (of_nat (10 * n + digit_val d) :: u32)"
    using Cons.prems digit_word [of d] by (simp add: mult.commute)
  then show ?case using Cons.prems Cons.IH [of e "10 * n + digit_val d"] by (simp add: mult.commute)
qed

lemma fmt_width_none: "\<not> (48 \<le> t \<and> t \<le> 57) \<Longrightarrow> fmt_width w t rest = (w, t, Some rest)"
  by (cases rest) auto

lemma fmt_width_code:
  assumes "0 < w" "\<not> (48 \<le> t \<and> t \<le> 57)"
  shows "fmt_width 0 (hd (dec_digits w)) (tl (dec_digits w) @ t # rest) = (of_nat w, t, Some rest)"
proof -
  have "hd (dec_digits w) # tl (dec_digits w) = dec_digits w" by simp
  moreover have "foldl (\<lambda>n d. 10 * n + digit_val d) 0 (dec_digits w) = w"
    using digits_val_dec [of w] by (simp only: digits_val_def)
  ultimately show ?thesis
    using fmt_width_digits [of "hd (dec_digits w)" "tl (dec_digits w)" t 0 rest] dec_digits_range assms(2) by simp
qed

lemma conv_byte_simps [simp]:
  "conv_byte c \<noteq> 45" "conv_byte c \<noteq> 48" "\<not> (48 \<le> conv_byte c \<and> conv_byte c \<le> 57)"
  by (cases c; simp)+

lemma fmt_options_code:
  "fmt_options (Some (tl (fmt_bytes (Code left zero w c)) @ rest)) =
     Inr (left, if zero then 48 else 32, of_nat w, conv_byte c, Some rest)"
proof -
  have d: "hd (dec_digits w) \<noteq> 45" "0 < w \<Longrightarrow> hd (dec_digits w) \<noteq> 48"
    using hd_dec_digits dec_digits_canonical by auto
  obtain e es where e: "dec_digits w = e # es" by (cases "dec_digits w") simp_all
  show ?thesis
    using d fmt_width_code [of w "conv_byte c" rest] fmt_width_none [of "conv_byte c" 0 rest]
    by (cases "w = 0"; cases left; cases zero) (simp_all add: fmt_options_def e)
qed

section \<open>Printing a field\<close>

lemma bindE_ext: "m = n \<Longrightarrow> (\<And>x. f x = g x) \<Longrightarrow> bindE m f = bindE n g"
  by (cases n) simp_all

lemma c_puts_append: "c_puts' (a @ b) s = bindE (c_puts' a s) (c_puts' b)"
  by (induction a arbitrary: s) (simp_all add: bindE_assoc cong: bindE_ext)

lemma pad_puts:
  "pad n (-1) (-1) (if zero then 48 else 32) s =
     bindE (c_puts' (replicate n (if zero then 48 else 32)) s) (\<lambda>s. Inr (-1, s))"
proof (induction n arbitrary: s)
  case (Suc n)
  have "scast (48 :: u8) = (48 :: u32)" "scast (32 :: u8) = (32 :: u32)" by code_simp+
  then show ?case using Suc by (cases zero) (simp_all add: bindE_assoc cong: bindE_ext)
qed simp

lemma extra_words:
  assumes "w < 2 ^ 31" "n < 2 ^ 31"
  shows "0 <s (of_nat w - of_nat n :: u32) \<longleftrightarrow> n < w"
    "n < w \<Longrightarrow> unat (of_nat w - of_nat n :: u32) = w - n"
proof -
  have e: "(of_nat w - of_nat n :: u32) = word_of_int (int w - int n)" by simp
  have "sint (of_nat w - of_nat n :: u32) = int w - int n"
    unfolding e by (rule sint_of_int_small) (use assms in simp_all)
  then show "0 <s (of_nat w - of_nat n :: u32) \<longleftrightarrow> n < w" by (simp add: word_sless_alt)
  assume "n < w"
  then have "(of_nat w - of_nat n :: u32) = of_nat (w - n)" by (simp add: of_nat_diff)
  moreover have "unat (of_nat (w - n) :: u32) = w - n"
    using assms by (intro of_nat_inverse [OF refl]) simp
  ultimately show "unat (of_nat w - of_nat n :: u32) = w - n" by (simp only:)
qed

lemma padstr_puts:
  assumes "w < 2 ^ 31" "length str < 2 ^ 31" "len = of_nat (length str) \<or> len = -1"
  shows "padstr (-1) (-1) str len (of_nat w) left (if zero then 48 else 32) s =
     bindE (c_puts' (fill left zero w str) s) (\<lambda>s. Inr (-1, s))"
proof -
  have n: "\<not> (of_nat (length str) :: u32) <s 0"
    using sint_of_int_small [of "int (length str)"] assms(2) by (simp add: word_sless_alt)
  have m: "(-1 :: u32) <s 0" by code_simp
  have l: "(if len <s 0 then c_strlen str else len) = of_nat (length str)"
    using assms(3) n m by (auto simp: c_strlen_def)
  note x = extra_words [OF assms(1,2)]
  show ?thesis
    unfolding padstr_def l Let_def
    using x by (cases "length str < w"; cases left) (simp_all add: pad_puts fill_def c_puts_append bindE_assoc)
qed

section \<open>The whole format\<close>

lemma conv_text_length:
  assumes "conv_text c a = Some str"
  shows "length str < 2 ^ 31"
proof -
  have "length (cvtdec v) < 2 ^ 31" "length (cvthex v) < 2 ^ 31" "length (cvtoct v) < 2 ^ 31" for v
    using length_cvtdec [of v] cvthex_shape(2) [of v] length_cvtoct [of v] by simp_all
  then show ?thesis using assms by (cases "(c, a)" rule: conv_text.cases) (auto split: if_splits)
qed

lemma printf_conv_code:
  assumes "w < 2 ^ 31" "conv_text c a = Some str"
  shows "printf_conv (conv_byte c) left (if zero then 48 else 32) (of_nat w) (-1) (-1) (a # ap) s =
     bindE (c_puts' (fill left zero w str) s) (\<lambda>s. Inr (-1, ap, s))"
proof -
  note p = padstr_puts [OF assms(1) conv_text_length [OF assms(2)], where left = left and zero = zero and s = s]
  show ?thesis using assms(2) p [of "of_nat (length str)"] p [of "-1"]
    by (cases "(c, a)" rule: conv_text.cases)
      (auto simp: printf_conv_def Let_def bindE_assoc split: if_splits)
qed

lemma do_printf_render:
  assumes "list_all directive_ok ds" "render ds ap = Some tx" "length (concat (map fmt_bytes ds)) < fuel"
  shows "do_printf fuel (-1) (-1) (Some (concat (map fmt_bytes ds))) ap s = c_puts' tx s"
  using assms
proof (induction ds ap arbitrary: fuel tx s rule: render.induct)
  case (1 ap)
  then show ?case by (cases fuel) simp_all
next
  case (2 b ds ap)
  then obtain f where f: "fuel = Suc f" by (cases fuel) simp_all
  obtain t where t: "render ds ap = Some t" "tx = b # t" using "2.prems"(2) by auto
  have "do_printf f (-1) (-1) (Some (concat (map fmt_bytes ds))) ap s = c_puts' t s" for s
    using "2.prems" t(1) f by (intro "2.IH") simp_all
  then show ?case using "2.prems"(1) t(2) f by (simp cong: bindE_ext)
next
  case (4 left zero w c ds a ap)
  then obtain f where f: "fuel = Suc f" by (cases fuel) simp_all
  obtain str t where t: "conv_text c a = Some str" "render ds ap = Some t" "tx = fill left zero w str @ t"
    using "4.prems"(2) by (auto split: option.splits)
  let ?rest = "concat (map fmt_bytes ds)"
  have b: "fmt_bytes (Code left zero w c) @ ?rest = 37 # tl (fmt_bytes (Code left zero w c)) @ ?rest" by simp
  have IH: "do_printf f (-1) (-1) (Some ?rest) ap s = c_puts' t s" for s
    using "4.prems"(1,3) t f by (intro "4.IH") simp_all
  have "do_printf fuel (-1) (-1) (Some (37 # tl (fmt_bytes (Code left zero w c)) @ ?rest)) (a # ap) s =
     bindE (printf_conv (conv_byte c) left (if zero then 48 else 32) (of_nat w) (-1) (-1) (a # ap) s)
       (\<lambda>(x, ap, s). do_printf f x (-1) (Some ?rest) ap s)"
    unfolding f do_printf.simps next_fmt.simps bindE_simps case_prod_conv fmt_options_code by simp
  also have "\<dots> = c_puts' tx s"
    using "4.prems"(1) t by (subst printf_conv_code [OF _ t(1)]) (simp_all add: bindE_assoc IH c_puts_append cong: bindE_ext)
  finally show ?case by (simp only: list.map concat.simps b)
qed simp

lemma printf_renders:
  assumes "list_all directive_ok ds" "render ds ap = Some tx"
  shows "c_printf' (concat (map fmt_bytes ds)) ap s = c_puts' tx s"
  using do_printf_render [OF assms, of "length (concat (map fmt_bytes ds)) + 1"]
  by (simp add: c_printf'_def)

end
