(* ===== verification/Console_Examples.thy ===== *)
theory Console_Examples
  imports Keyboard Printf
begin

text \<open>
  A console as it is after its module's start, with an empty keyboard buffer, to show that what
  the theorems about the console assume can hold.
\<close>

definition demo_con :: console where
  "demo_con = c_io_init \<lparr>inq = [], io = [], mem = (\<lambda>_. 0), video = (\<lambda>_. 0x0720),
     scroll_min_x = 0, scroll_min_y = 0, scroll_max_x = 0, scroll_max_y = 0, curr_x = 0, curr_y = 0,
     min_x = 0, min_y = 0, max_x = 0, max_y = 0, kbd_shift = 0, kbd_ctrl_mask = 0xff,
     input_buffer = (\<lambda>_. 0), next_char = 198, next_space = 198\<rparr>"

lemma con_ok_demo [simp]: "con_ok demo_con"
  by (simp add: demo_con_def c_io_init_ok)

lemma demo_con_fields:
  "next_char demo_con = 198" "next_space demo_con = 198" "kbd_shift demo_con = 0" "kbd_ctrl_mask demo_con = 0xff"
  "mem demo_con = (\<lambda>_. 0)" "curr_x demo_con = 0" "curr_y demo_con = 0" "scroll_min_x demo_con = 0" "scroll_min_y demo_con = 0"
  by (simp_all add: demo_con_def c_io_init_def c_setcursor_def outb_def Let_def)

lemma kbd_demo: "kbd_ok demo_con" "kbd_data demo_con = []"
  by (simp_all add: kbd_ok_def kbd_data_def ring_def demo_con_fields)

end
