(* ===== verification/Ata.thy ===== *)
theory Ata
  imports Ramdisk Loops
begin

text \<open>
  ata.c: the driver of the disk on the primary channel.  A transfer is set up through the
  registers of the drive and then goes on in the interrupt handler, a block at a time.

  Where the driver waits for a variable that only an interrupt changes, the loop runs the
  interrupt handler.  \<open>sleep\<close> is the system call stub of ulibs.S, which the driver calls from
  within the kernel; what happens until it comes back is the argument \<open>slp\<close>.  The
  instructions that switch the interrupts off and on have no effect on the state here.
\<close>

section \<open>Registers\<close>

abbreviation (input) DEV_IDE_PRI :: u8 where "DEV_IDE_PRI \<equiv> 2"
abbreviation (input) DEV_IDE_SEC :: u8 where "DEV_IDE_SEC \<equiv> 3"
abbreviation (input) DISK_REQUEST_USER :: u8 where "DISK_REQUEST_USER \<equiv> 0x02"
abbreviation (input) ATA_PRI_CMD_BLOCK_REG :: u16 where "ATA_PRI_CMD_BLOCK_REG \<equiv> 0x01f0"
abbreviation (input) ATA_PRI_CTRL_BLOCK_REG :: u16 where "ATA_PRI_CTRL_BLOCK_REG \<equiv> 0x03f4"
abbreviation (input) ATA_CMD_BR_DATA :: u32 where "ATA_CMD_BR_DATA \<equiv> 0x00"
abbreviation (input) ATA_CMD_BR_ERROR :: u32 where "ATA_CMD_BR_ERROR \<equiv> 0x01"
abbreviation (input) ATA_CMD_BR_SEC_COUNT :: u32 where "ATA_CMD_BR_SEC_COUNT \<equiv> 0x02"
abbreviation (input) ATA_CMD_BR_CYL_LOW :: u32 where "ATA_CMD_BR_CYL_LOW \<equiv> 0x03"
abbreviation (input) ATA_CMD_BR_CYL_MID :: u32 where "ATA_CMD_BR_CYL_MID \<equiv> 0x04"
abbreviation (input) ATA_CMD_BR_CYL_HIGH :: u32 where "ATA_CMD_BR_CYL_HIGH \<equiv> 0x05"
abbreviation (input) ATA_CMD_BR_DRIVE_SELECT :: u32 where "ATA_CMD_BR_DRIVE_SELECT \<equiv> 0x06"
abbreviation (input) ATA_CMD_BR_STATUS :: u32 where "ATA_CMD_BR_STATUS \<equiv> 0x07"
abbreviation (input) ATA_CMD_BR_COMMAND :: u32 where "ATA_CMD_BR_COMMAND \<equiv> 0x07"
abbreviation (input) ATA_CMD_DATA :: u32 where "ATA_CMD_DATA \<equiv> 0x00"
abbreviation (input) ATA_CMD_COMMAND :: u32 where "ATA_CMD_COMMAND \<equiv> 0x07"
abbreviation (input) ATA_CMD_BR_R_STS_BUSY :: u8 where "ATA_CMD_BR_R_STS_BUSY \<equiv> 0x80"
abbreviation (input) ATA_CMD_BR_R_STS_DRDY :: u8 where "ATA_CMD_BR_R_STS_DRDY \<equiv> 0x40"
abbreviation (input) ATA_CMD_BR_R_STS_ERR :: u8 where "ATA_CMD_BR_R_STS_ERR \<equiv> 0x01"
abbreviation (input) ATA_DEV_REG_SELECT_LBA :: u32 where "ATA_DEV_REG_SELECT_LBA \<equiv> 0x40"
abbreviation (input) ATA_DEV_REG_SELECT_1 :: u32 where "ATA_DEV_REG_SELECT_1 \<equiv> 0x10"
abbreviation (input) ATA_CTRL_ALT_STATUS :: u32 where "ATA_CTRL_ALT_STATUS \<equiv> 0x06"
abbreviation (input) ATA_CTRL_DEV_CONTROL :: u32 where "ATA_CTRL_DEV_CONTROL \<equiv> 0x06"
abbreviation (input) ATA_CTRL_DEV_CONTROL_NIEN :: u32 where "ATA_CTRL_DEV_CONTROL_NIEN \<equiv> 0x02"
abbreviation (input) ATA_STATUS_BSY :: u8 where "ATA_STATUS_BSY \<equiv> 0x80"
abbreviation (input) ATA_STATUS_DRDY :: u8 where "ATA_STATUS_DRDY \<equiv> 0x40"
abbreviation (input) ATA_STATUS_DRQ :: u8 where "ATA_STATUS_DRQ \<equiv> 0x08"
abbreviation (input) ATA_STATUS_ERR :: u8 where "ATA_STATUS_ERR \<equiv> 0x01"

abbreviation (input) ATA7_READ_SECTORS :: u32 where "ATA7_READ_SECTORS \<equiv> 0x20"
abbreviation (input) ATA7_WRITE_SECTORS :: u32 where "ATA7_WRITE_SECTORS \<equiv> 0x30"
abbreviation (input) ATA7_IDENTIFY_DEVICE :: u32 where "ATA7_IDENTIFY_DEVICE \<equiv> 0xec"
abbreviation (input) ATA7_FLUSH_CACHE :: u32 where "ATA7_FLUSH_CACHE \<equiv> 0xe7"
abbreviation (input) ATA_INT_VEC_PRI_PATA :: u32 where "ATA_INT_VEC_PRI_PATA \<equiv> 0x2e"
abbreviation (input) IDE_CTRL_BLK_REG_DEVICE_CONTROL :: u32 where "IDE_CTRL_BLK_REG_DEVICE_CONTROL \<equiv> 0x0006"

text \<open>A port of the command block and of the control block.\<close>

definition cmd_port :: "u32 \<Rightarrow> kstate \<Rightarrow> u32" where
  "cmd_port r s = ucast (ata_cmd_blk_reg s) OR r"

definition ctrl_port :: "u32 \<Rightarrow> kstate \<Rightarrow> u32" where
  "ctrl_port r s = ucast (ata_ctrl_blk_reg s) OR r"

text \<open>The word-wide ports.\<close>

definition inw :: "u32 \<Rightarrow> kstate \<Rightarrow> (u16 \<times> kstate) outcome" where
  "inw port s = (case inq s of
       [] \<Rightarrow> Inl Hang
     | v # vs \<Rightarrow> Inr (ucast v, s\<lparr>inq := vs\<rparr>))"

definition outw :: "u32 \<Rightarrow> u16 \<Rightarrow> kstate \<Rightarrow> kstate" where
  "outw port v s = s\<lparr>io := io s @ [Out port (ucast v)]\<rparr>"

section \<open>Status\<close>

fun read_status :: "nat \<Rightarrow> u8 \<Rightarrow> u8 kop" where
  "read_status 0 st s = Inr (st, s)"
| "read_status (Suc n) st s =
     bindE (inb (ctrl_port ATA_CTRL_ALT_STATUS s) s) (\<lambda>(v, s). read_status n (ucast v) s)"

definition ata_check_alt_status :: "u8 kop" where
  "ata_check_alt_status s =
     bindE (inb (ctrl_port ATA_CTRL_ALT_STATUS s) s) (\<lambda>(v, s). read_status 5 (ucast v) s)"

definition ata_flush_cache :: "kstate \<Rightarrow> kstate outcome" where
  "ata_flush_cache s =
     bindE (ata_check_alt_status s) (\<lambda>(alt_status, s).
       let s = (if alt_status AND ATA_STATUS_DRDY \<noteq> 0 then outb (cmd_port ATA_CMD_COMMAND s) ATA7_FLUSH_CACHE s else s) in
       bindE (ata_check_alt_status s) (\<lambda>r.
         bindE (loop (\<lambda>(alt_status, s). alt_status AND ATA_STATUS_BSY \<noteq> 0) (\<lambda>(alt_status, s). ata_check_alt_status s) r)
           (\<lambda>(alt_status, s).
              let s = c_puts ''\<newline>'' s in
              bindE (ata_check_alt_status s) (\<lambda>(alt_status, s).
                if alt_status AND ATA_STATUS_ERR \<noteq> 0 then Inr (c_printf ''ERROR: ATA: flush cache error\<newline>'' [] s)
                else Inr s))))"

section \<open>Transfers\<close>

text \<open>The transfer is \<open>_ata_transfer\<close>, or there is none.\<close>

definition set_transfer :: "(ata_pending_transfer_t \<Rightarrow> ata_pending_transfer_t) \<Rightarrow> kstate \<Rightarrow> kstate" where
  "set_transfer f s = s\<lparr>ata_transfer := f (ata_transfer s)\<rparr>"

definition pending_transfer :: "kstate \<Rightarrow> ata_pending_transfer_t outcome" where
  "pending_transfer s = (if current_pending_transfer s then Inr (ata_transfer s) else Inl Null_deref)"

text \<open>After a block: one less to go, and the transfer ends with the last one.\<close>

definition block_done :: "kstate \<Rightarrow> kstate outcome" where
  "block_done s =
     bindE (pending_transfer s) (\<lambda>t.
       let s = set_transfer (\<lambda>t. t\<lparr>at_blocks_remaining := at_blocks_remaining t - 1\<rparr>) s in
       if at_blocks_remaining (ata_transfer s) \<noteq> 0 then
         Inr (set_transfer (\<lambda>t. t\<lparr>at_current_block_addr := at_current_block_addr t + 1\<rparr>) s)
       else Inr (s\<lparr>current_pending_transfer := False\<rparr>))"

fun read_words :: "nat \<Rightarrow> u32 \<Rightarrow> kstate \<Rightarrow> kstate outcome" where
  "read_words 0 buf_p s = Inr s"
| "read_words (Suc n) buf_p s =
     bindE (inw (cmd_port ATA_CMD_DATA s) s) (\<lambda>(w, s). read_words n (buf_p + 2) (st16 buf_p w s))"

fun write_words :: "nat \<Rightarrow> u32 \<Rightarrow> kstate \<Rightarrow> kstate" where
  "write_words 0 buf_p s = s"
| "write_words (Suc n) buf_p s =
     (let w = ld16 buf_p s in write_words n (buf_p + 2) (outw (cmd_port ATA_CMD_BR_DATA s) w s))"

definition ata_read_block :: "u32 \<Rightarrow> kstate \<Rightarrow> kstate outcome" where
  "ata_read_block buffer s = bindE (read_words 256 buffer s) block_done"

definition ata_write_block :: "u32 \<Rightarrow> kstate \<Rightarrow> kstate outcome" where
  "ata_write_block buffer s = block_done (write_words 256 buffer s)"

text \<open>The cast to \<open>uint8_t\<close> comes before the shift: the upper bytes of the address are 0.\<close>

definition ata_do_pio_data :: "nat \<Rightarrow> kstate \<Rightarrow> kstate outcome" where
  "ata_do_pio_data dr s =
     bindE (ata_check_alt_status s) (\<lambda>r.
       bindE (loop (\<lambda>(status, s). status AND ATA_STATUS_BSY \<noteq> 0 \<or> status AND ATA_STATUS_DRDY = 0)
                (\<lambda>(status, s). ata_check_alt_status s) r) (\<lambda>(status, s).
         let r = pending_requests s dr;
             lba_low = (ucast (dr_lba r) :: u8);
             lba_mid = drop_bit 8 (ucast (dr_lba r) :: u8);
             lba_high = drop_bit 16 (ucast (dr_lba r) :: u8);
             s = outb (cmd_port ATA_CMD_BR_DRIVE_SELECT s)
                   (ATA_DEV_REG_SELECT_1 OR ATA_DEV_REG_SELECT_LBA OR (drop_bit 24 (dr_lba r) AND 0x0f)) s;
             s = outb (cmd_port ATA_CMD_BR_CYL_LOW s) (ucast lba_low) s;
             s = outb (cmd_port ATA_CMD_BR_CYL_MID s) (ucast lba_mid) s;
             s = outb (cmd_port ATA_CMD_BR_CYL_HIGH s) (ucast lba_high) s;
             s = outb (cmd_port ATA_CMD_BR_SEC_COUNT s) 0x01 s;
             s = (if dr_cmd r = DISK_CMD_READ then outb (cmd_port ATA_CMD_BR_COMMAND s) ATA7_READ_SECTORS s
                  else outb (cmd_port ATA_CMD_BR_COMMAND s) ATA7_WRITE_SECTORS s);
             s = set_transfer (\<lambda>t. t\<lparr>at_request := Some dr\<rparr>) s;
             s = set_transfer (\<lambda>t. t\<lparr>at_current_block_addr := dr_lba r\<rparr>) s;
             s = set_transfer (\<lambda>t. t\<lparr>at_blocks_remaining := dr_nblocks r\<rparr>) s;
             s = s\<lparr>current_pending_request := Some dr\<rparr>;
             s = s\<lparr>current_pending_transfer := True\<rparr>
         in bindE (ata_check_alt_status s) (\<lambda>(status, s). Inr s)))"

section \<open>The interrupt handler\<close>

text \<open>No request is going on.\<close>

definition isr_no_request :: "kstate \<Rightarrow> kstate outcome" where
  "isr_no_request s =
     bindE (inb (ctrl_port ATA_CTRL_ALT_STATUS s) s) (\<lambda>(v, s).
       let status = (ucast v :: u8) in
       bindE
         (if status AND ATA_CMD_BR_R_STS_ERR \<noteq> 0 then
            let s = c_printf ''ERROR: ATA: IDE status [ 0x%08x ]\<newline>'' [ucast status] s in
            bindE (inb (cmd_port ATA_CMD_BR_ERROR s) s) (\<lambda>(error_reg, s).
              Inr (c_printf ''ERROR: ATA: IDE error  [ 0x%02x ]\<newline>'' [error_reg] s))
          else Inr s)
         (\<lambda>s.
            let s = outb (ucast ATA_PRI_CTRL_BLOCK_REG OR IDE_CTRL_BLK_REG_DEVICE_CONTROL) 0x00 s in
            bindE (loop (\<lambda>(status, s). status AND ATA_CMD_BR_R_STS_BUSY \<noteq> 0)
                     (\<lambda>(status, s). bindE (inb (cmd_port ATA_CMD_BR_STATUS s) s) (\<lambda>(v, s). Inr (ucast v, s)))
                     (status, s))
              (\<lambda>(status, s).
                 if status AND ATA_CMD_BR_R_STS_DRDY \<noteq> 0 then
                   case q_remove Ata_io_pending s of (p, s) \<Rightarrow>
                     bindE (as_request p) (\<lambda>dr.
                       case dr of
                         None \<Rightarrow> Inr (outb (ctrl_port ATA_CTRL_DEV_CONTROL s) ATA_CTRL_DEV_CONTROL_NIEN s)
                       | Some dr \<Rightarrow> Inr s)
                 else Inr (c_puts ''\<newline>ATA: command block status is not ready\<newline>'' s))))"

text \<open>The block that the drive has ready, or wants, for the request \<open>dr\<close>.\<close>

definition isr_transfer :: "nat \<Rightarrow> kstate \<Rightarrow> kstate outcome" where
  "isr_transfer dr s =
     (let finish = (\<lambda>s.
        bindE (ata_check_alt_status s) (\<lambda>(status, s).
          if \<not> current_pending_transfer s then
            bindE (deref (current_pending_request s)) (\<lambda>dr.
              Inr (set_request dr (\<lambda>r. r\<lparr>dr_status := DISK_STATUS_IO_SUCCESS\<rparr>) s))
          else Inr s)) in
      if dr_cmd (pending_requests s dr) = DISK_CMD_READ then
        bindE (pending_transfer s) (\<lambda>t. bindE (deref (at_request t)) (\<lambda>r.
          bindE (ata_read_block (dr_buffer (pending_requests s r)) s) finish))
      else if dr_cmd (pending_requests s dr) = DISK_CMD_WRITE then
        bindE (pending_transfer s) (\<lambda>t. bindE (deref (at_request t)) (\<lambda>r.
          bindE (ata_write_block (dr_buffer (pending_requests s r)) s) finish))
      else Inr (c_puts ''ERROR: ATA: reached default case\<newline>'' s))"

text \<open>The request \<open>dr\<close> is going on.\<close>

definition isr_request :: "nat \<Rightarrow> kstate \<Rightarrow> kstate outcome" where
  "isr_request dr s =
     bindE
       (if dr_cmd (pending_requests s dr) = DISK_CMD_WRITE \<and> \<not> current_pending_transfer s then
          let s = set_request dr (\<lambda>r. r\<lparr>dr_status := DISK_STATUS_IO_SUCCESS\<rparr>) s
          in Inr (s\<lparr>current_pending_request := None\<rparr>)
        else
          bindE (ata_check_alt_status s) (\<lambda>(status, s).
            bindE
              (if status AND ATA_CMD_BR_R_STS_ERR \<noteq> 0 then
                 let s = c_printf ''ERROR: ATA: IDE status [ 0x%08x ]\<newline>'' [ucast status] s in
                 bindE (inb (cmd_port ATA_CMD_BR_ERROR s) s) (\<lambda>(error_reg, s).
                   Inr (c_printf ''ERROR: ATA: IDE error  [ 0x%02x ]\<newline>'' [error_reg] s))
               else Inr s)
              (\<lambda>s. if status AND ATA_STATUS_DRQ \<noteq> 0 then isr_transfer dr s else Inr s)))
       (\<lambda>s. if \<not> current_pending_transfer s then Inr (s\<lparr>current_pending_request := None\<rparr>) else Inr s)"

definition ata_isr :: "u32 \<Rightarrow> kstate \<Rightarrow> kstate outcome" where
  "ata_isr vector s =
     bindE (case current_pending_request s of None \<Rightarrow> isr_no_request s | Some dr \<Rightarrow> isr_request dr s) (\<lambda>s.
       if 0x20 \<le> vector \<and> vector < 0x30 then
         let s = outb PIC_MASTER_CMD_PORT PIC_EOI s
         in Inr (if 0x28 < vector then outb PIC_SLAVE_CMD_PORT PIC_EOI s else s)
       else Inr s)"

section \<open>Requests\<close>

definition ata_open :: "nat option \<Rightarrow> kstate \<Rightarrow> u8 \<times> kstate" where
  "ata_open dev s =
     (case dev of
        None \<Rightarrow> (-1, c_puts ''ERROR: ata: open called with null device pointer\<newline>'' s)
      | Some d \<Rightarrow>
          let s = set_device d (\<lambda>h. h\<lparr>dev_type := DEV_TYPE_BLOCK\<rparr>) s;
              s = set_device d (\<lambda>h. h\<lparr>dev_identifier := DEV_IDE_PRI\<rparr>) s;
              s = set_device d (\<lambda>h. h\<lparr>dev_read := Some Ata_read_placeholder\<rparr>) s;
              s = set_device d (\<lambda>h. h\<lparr>dev_write := Some Ata_write_placeholder\<rparr>) s;
              s = set_device d (\<lambda>h. h\<lparr>dev_ctrl := Some Ata_ctrl\<rparr>) s
          in (0, s))"

definition ata_close :: "nat \<Rightarrow> kstate \<Rightarrow> kstate" where
  "ata_close dev s = dev_dealloc_handle (Some dev) (set_device dev (\<lambda>_. zero_device) s)"

definition ata_read_placeholder :: "u32 \<Rightarrow> u32 \<Rightarrow> kstate \<Rightarrow> u32 \<times> kstate" where
  "ata_read_placeholder buf sz s =
     (-1, c_puts ''ERROR: ata: must use request interface for reads\<newline>'' s)"

definition ata_write_placeholder :: "u32 \<Rightarrow> u32 \<Rightarrow> kstate \<Rightarrow> u32 \<times> kstate" where
  "ata_write_placeholder buf sz s =
     (-1, c_puts ''ERROR: ata: must use request interface for writes\<newline>'' s)"

text \<open>Putting a request into the queue of the drive, as both commands do.\<close>

definition ata_enqueue :: "nat \<Rightarrow> u8 \<Rightarrow> kstate \<Rightarrow> kstate outcome" where
  "ata_enqueue dr pending s =
     (let s = set_request dr (\<lambda>r. r\<lparr>dr_status := pending\<rparr>) s in
      bindE (deref (current s)) (\<lambda>cur.
        let s = set_pcb cur (\<lambda>p. p\<lparr>pending_request := Some dr\<rparr>) s in
        bindE (q_insert Ata_io_pending (Some (Disk_req dr)) s) (\<lambda>(stat, s).
          if stat = STAT_ALLOC_FAIL then
            let s = set_request dr (\<lambda>r. r\<lparr>dr_status := DISK_ERR_IO_QUEUE_INSERT\<rparr>) s
            in Inr (c_puts ''ERROR: ata: failed insertion into disk io queue\<newline>'' s)
          else Inr s)))"

text \<open>The block of a write, which the request transfers itself.\<close>

definition ata_first_write :: "u8 \<Rightarrow> kstate \<Rightarrow> kstate outcome" where
  "ata_first_write alt_status s =
     bindE (loop (\<lambda>(a, s). a AND ATA_STATUS_BSY \<noteq> 0) (\<lambda>(a, s). ata_check_alt_status s) (alt_status, s))
       (\<lambda>(alt_status, s).
          if alt_status AND ATA_STATUS_DRQ \<noteq> 0 then
            bindE (pending_transfer s) (\<lambda>t. bindE (deref (at_request t)) (\<lambda>r.
              bindE (ata_write_block (dr_buffer (pending_requests s r)) s) (\<lambda>s.
                bindE (ata_check_alt_status s) (\<lambda>(alt_status, s).
                  if \<not> current_pending_transfer s then
                    bindE (deref (current_pending_request s)) (\<lambda>dr.
                      let s = set_request dr (\<lambda>r. r\<lparr>dr_status := DISK_STATUS_IO_SUCCESS\<rparr>) s
                      in Inr (s\<lparr>current_pending_request := None\<rparr>))
                  else Inr s))))
          else Inr s)"

text \<open>Waiting until the interrupt handler has finished the request.\<close>

definition ata_wait :: "nat \<Rightarrow> kstate \<Rightarrow> kstate outcome" where
  "ata_wait dr =
     loop (\<lambda>s. dr_status (pending_requests s dr) \<noteq> DISK_STATUS_IO_SUCCESS) (ata_isr ATA_INT_VEC_PRI_PATA)"

definition ata_request :: "(u32 \<Rightarrow> kstate \<Rightarrow> kstate outcome) \<Rightarrow> nat option \<Rightarrow> u8 kop" where
  "ata_request slp request s =
     (case request of
        None \<Rightarrow> Inr (-1, c_puts ''ERROR: ata: null disk request pointer\<newline>'' s)
      | Some dr \<Rightarrow>
          let s = set_request dr (\<lambda>r. r\<lparr>dr_source := DISK_REQUEST_USER\<rparr>) s;
              cmd = dr_cmd (pending_requests s dr)
          in if cmd \<noteq> DISK_CMD_READ \<and> cmd \<noteq> DISK_CMD_WRITE then
               let s = set_request dr (\<lambda>r. r\<lparr>dr_status := DISK_ERR_INVALID_CMD\<rparr>) s;
                   s = c_puts ''ERROR: ata: invalid command\<newline>'' s
               in Inr (dr_status (pending_requests s dr), s)
             else
               bindE (ata_enqueue dr (if cmd = DISK_CMD_READ then DISK_STATUS_READ_PENDING else DISK_STATUS_WRITE_PENDING) s)
                 (\<lambda>s.
                   let s = outb (ctrl_port ATA_CTRL_DEV_CONTROL s) 0x00 s in
                   bindE (ata_do_pio_data dr s) (\<lambda>s.
                     bindE (ata_check_alt_status s) (\<lambda>(alt_status, s).
                       bindE (if dr_cmd (pending_requests s dr) = DISK_CMD_WRITE
                              then bindE (slp 2 s) (ata_first_write alt_status) else Inr s) (\<lambda>s.
                         bindE (ata_wait dr s) (\<lambda>s.
                           bindE (if dr_cmd (pending_requests s dr) = DISK_CMD_WRITE then ata_flush_cache s else Inr s)
                             (\<lambda>s. Inr (dr_status (pending_requests s dr), s))))))))"

definition ata_ctrl :: "(u32 \<Rightarrow> kstate \<Rightarrow> kstate outcome) \<Rightarrow> u32 \<Rightarrow> nat option \<Rightarrow> u32 kop" where
  "ata_ctrl slp cmd arg s =
     (if cmd = DISK_CMD_REQUEST then
        case arg of
          None \<Rightarrow> Inr (-1, c_puts ''ERROR: ata: ctrl called with a null argument\<newline>'' s)
        | Some dr \<Rightarrow> bindE (ata_request slp (Some dr) s) (\<lambda>(r, s). Inr (scast r, s))
      else Inr (-1, c_puts ''ERROR: ata: invalid ctrl command\<newline>'' s))"

text \<open>Reads and writes of several blocks, one request after the other, with one request struct.\<close>

fun ata_data_loop ::
  "(u32 \<Rightarrow> nat option \<Rightarrow> u32 kop) \<Rightarrow> u8 \<Rightarrow> nat \<Rightarrow> u32 \<Rightarrow> u32 \<Rightarrow> nat \<Rightarrow> u32 \<Rightarrow> kstate \<Rightarrow> kstate outcome" where
  "ata_data_loop ctrl cmd dr lba buffer 0 i s = Inr s"
| "ata_data_loop ctrl cmd dr lba buffer (Suc n) i s =
     (let s = set_request dr (\<lambda>r. r\<lparr>dr_cmd := cmd\<rparr>) s;
          s = set_request dr (\<lambda>r. r\<lparr>dr_lba := lba + i\<rparr>) s;
          s = set_request dr (\<lambda>r. r\<lparr>dr_nblocks := 1\<rparr>) s;
          s = set_request dr (\<lambda>r. r\<lparr>dr_buffer := buffer + DISK_BLOCK_SIZE * i\<rparr>) s
      in bindE (ctrl DISK_CMD_REQUEST (Some dr) s) (\<lambda>(stat, s). ata_data_loop ctrl cmd dr lba buffer n (i + 1) s))"

definition ata_write_data :: "(u32 \<Rightarrow> nat option \<Rightarrow> u32 kop) \<Rightarrow> u32 \<Rightarrow> u32 \<Rightarrow> u32 \<Rightarrow> kstate \<Rightarrow> kstate outcome" where
  "ata_write_data ctrl lba blocks buffer s =
     (case disk_alloc_request s of (dr, s) \<Rightarrow>
        if blocks = 0 then Inr (disk_dealloc_request dr s)
        else bindE (deref dr) (\<lambda>d.
          bindE (ata_data_loop ctrl DISK_CMD_WRITE d lba buffer (unat blocks) 0 s) (\<lambda>s.
            Inr (disk_dealloc_request (Some d) s))))"

definition ata_read_data :: "(u32 \<Rightarrow> nat option \<Rightarrow> u32 kop) \<Rightarrow> u32 \<Rightarrow> u32 \<Rightarrow> u32 \<Rightarrow> kstate \<Rightarrow> kstate outcome" where
  "ata_read_data ctrl lba blocks buffer s =
     (case disk_alloc_request s of (dr, s) \<Rightarrow>
        if blocks = 0 then Inr (disk_dealloc_request dr s)
        else bindE (deref dr) (\<lambda>d.
          bindE (ata_data_loop ctrl DISK_CMD_READ d lba buffer (unat blocks) 0 s) (\<lambda>s.
            Inr (disk_dealloc_request (Some d) s))))"

section \<open>Initialisation\<close>

definition ata_init :: "u8 \<Rightarrow> kstate \<Rightarrow> kstate" where
  "ata_init dev s =
     (let s =
        (if dev = DEV_IDE_PRI then
           let s = s\<lparr>ata_device := DEV_IDE_PRI\<rparr>;
               s = s\<lparr>ata_cmd_blk_reg := ATA_PRI_CMD_BLOCK_REG\<rparr>;
               s = s\<lparr>ata_ctrl_blk_reg := ATA_PRI_CTRL_BLOCK_REG\<rparr>;
               s = outb (cmd_port ATA_CMD_BR_DRIVE_SELECT s) (ATA_DEV_REG_SELECT_LBA OR ATA_DEV_REG_SELECT_1) s
           in outb (ctrl_port IDE_CTRL_BLK_REG_DEVICE_CONTROL s) 0x00 s
         else if dev = DEV_IDE_SEC then s
         else c_printf ''\<newline>ERROR: ATA: invalid ATA device [ 0x%02x ]\<newline>'' [ucast dev] s)
      in c_puts '' ata'' s)"

end
