(* ===== verification/Ata_Laws.thy ===== *)
theory Ata_Laws
  imports Ata Syscall_Laws
begin

text \<open>
  What the driver does with a drive that answers: the status reads, the blocks that come in with
  the interrupts, and a whole request to read.
\<close>

section \<open>Half words in memory\<close>

fun halfwords :: "u32 \<Rightarrow> u16 list \<Rightarrow> (u32 \<Rightarrow> u8) \<Rightarrow> u32 \<Rightarrow> u8" where
  "halfwords a [] m = m"
| "halfwords a (v # vs) m = halfwords (a + 2) vs (m(a := ucast v, a + 1 := ucast (drop_bit 8 v)))"

text \<open>Byte \<open>k\<close> of a list of half words.\<close>

definition half_byte :: "u16 list \<Rightarrow> nat \<Rightarrow> u8" where
  "half_byte vs k = ucast (drop_bit (if even k then 0 else 8) (vs ! (k div 2)))"

lemma unat_pred2:
  fixes y :: u32
  assumes "2 \<le> unat y"
  shows "unat (y - 2) = unat y - 2"
  using assms by (subst unat_sub) (simp_all add: word_le_nat_alt)

lemma halfwords_byte:
  assumes "2 * length vs \<le> 2 ^ 32"
  shows "halfwords a vs m x = (if unat (x - a) < 2 * length vs then half_byte vs (unat (x - a)) else m x)"
  using assms
proof (induction vs arbitrary: a m)
  case (Cons v vs)
  let ?k = "unat (x - a)" and ?m = "m(a := ucast v, a + 1 := ucast (drop_bit 8 v))"
  have IH: "halfwords a (v # vs) m x =
     (if unat (x - (a + 2)) < 2 * length vs then half_byte vs (unat (x - (a + 2))) else ?m x)"
    using Cons by simp
  consider (z) "?k = 0" | (o) "?k = 1" | (t) "2 \<le> ?k" by linarith
  then show ?case
  proof cases
    case z
    then have x: "x = a" by (simp add: unat_eq_0)
    have "unat (x - (a + 2)) = 2 ^ 32 - 2" unfolding x by simp
    then have "\<not> unat (x - (a + 2)) < 2 * length vs" using Cons.prems by simp
    then show ?thesis unfolding IH by (simp add: z half_byte_def) (simp add: x)
  next
    case o
    then have "x - a = 1" by (metis unat_1 word_unat_eq_iff)
    then have x: "x = a + 1" by (simp add: diff_eq_eq add.commute)
    have "(-1 :: u32) = 0xffffffff" by simp
    then have "unat (-1 :: u32) = 2 ^ 32 - 1" by (simp only:) simp
    then have "unat (x - (a + 2)) = 2 ^ 32 - 1" unfolding x by simp
    then have "\<not> unat (x - (a + 2)) < 2 * length vs" using Cons.prems by simp
    then show ?thesis unfolding IH by (simp add: o half_byte_def) (simp add: x)
  next
    case t
    have "x - (a + 2) = (x - a) - 2" by (simp add: algebra_simps)
    then have k: "unat (x - (a + 2)) = ?k - 2" using unat_pred2 [OF t] by (simp only:)
    have n: "x \<noteq> a" "x \<noteq> a + 1" using t by auto
    have "half_byte vs (?k - 2) = half_byte (v # vs) ?k"
      using t by (auto simp: half_byte_def nth_Cons' div_if)
    then show ?thesis unfolding IH k using n t by auto
  qed
qed simp

lemma halfwords_twice:
  assumes "length vs = length ws" "2 * length ws \<le> 2 ^ 32"
  shows "halfwords a ws (halfwords a vs m) = halfwords a ws m"
  by (rule ext) (use assms in \<open>simp add: halfwords_byte\<close>)

section \<open>Reading from the drive\<close>

lemma inb_Cons: "inq s = v # vs \<Longrightarrow> inb p s = Inr (v AND 0xff, s\<lparr>inq := vs\<rparr>)"
  by (simp add: inb_def)

lemma ucast_mask: "(ucast (v AND 0xff :: u32) :: u8) = ucast v"
proof -
  have m: "(0xff :: u32) = mask 8" by code_simp
  show ?thesis unfolding m by (rule bit_word_eqI) (simp add: bit_simps)
qed

lemma read_status_ok:
  "inq s = xs @ rest \<Longrightarrow> length xs = n \<Longrightarrow>
     read_status n st s = Inr (if xs = [] then st else ucast (last xs), s\<lparr>inq := rest\<rparr>)"
proof (induction n arbitrary: xs st s)
  case (Suc n)
  then obtain x ys where x: "xs = x # ys" by (cases xs) auto
  then show ?case
    using Suc.IH [of "s\<lparr>inq := ys @ rest\<rparr>" ys "ucast x"] Suc.prems by (simp add: inb_Cons ucast_mask)
qed simp

lemma check_alt_status_ok:
  assumes "inq s = xs @ rest" "length xs = 6"
  shows "ata_check_alt_status s = Inr (ucast (last xs), s\<lparr>inq := rest\<rparr>)"
proof -
  obtain x ys where x: "xs = x # ys" using assms(2) by (cases xs) auto
  then have "length ys = 5" using assms(2) by simp
  then show ?thesis
    using read_status_ok [of "s\<lparr>inq := ys @ rest\<rparr>" ys rest 5 "ucast x"] assms(1) x
    by (auto simp: ata_check_alt_status_def inb_Cons ucast_mask)
qed

lemma read_words_ok:
  "inq s = map ucast ws @ rest \<Longrightarrow>
     read_words (length ws) buf s = Inr (s\<lparr>inq := rest, mem := halfwords buf ws (mem s)\<rparr>)"
proof (induction ws arbitrary: buf s)
  case (Cons w ws)
  have w: "(ucast (ucast w :: u32) :: u16) = w" by (rule bit_word_eqI) (simp add: bit_simps)
  let ?t = "st16 buf w (s\<lparr>inq := map ucast ws @ rest\<rparr>)"
  have "read_words (length ws) (buf + 2) ?t = Inr (?t\<lparr>inq := rest, mem := halfwords (buf + 2) ws (mem ?t)\<rparr>)"
    by (rule Cons.IH) (simp add: st16_def)
  then show ?case using Cons.prems by (simp add: inw_def w) (simp add: st16_def)
qed (simp add: )

text \<open>The half words that are in memory, and what the driver sends of them.\<close>

fun words_at :: "nat \<Rightarrow> u32 \<Rightarrow> (u32 \<Rightarrow> u8) \<Rightarrow> u16 list" where
  "words_at 0 a m = []"
| "words_at (Suc n) a m = word_cat (m (a + 1)) (m a) # words_at n (a + 2) m"

lemma length_words_at [simp]: "length (words_at n a m) = n"
  by (induction n arbitrary: a) simp_all

lemma words_at_byte: "k < 2 * n \<Longrightarrow> half_byte (words_at n a m) k = m (a + of_nat k)"
proof (induction n arbitrary: a k)
  case (Suc n)
  have w: "(ucast (word_cat x y :: u16) :: u8) = y" "(ucast (drop_bit 8 (word_cat x y :: u16)) :: u8) = x"
    for x y :: u8
    by (rule bit_word_eqI, auto simp: bit_simps)+
  consider "k = 0" | "k = 1" | j where "k = j + 2" by (metis One_nat_def Suc_1 add_2_eq_Suc' not0_implies_Suc)
  then show ?case
  proof cases
    case 3
    then have "half_byte (words_at (Suc n) a m) k = half_byte (words_at n (a + 2) m) j"
      by (simp add: half_byte_def)
    also have "\<dots> = m (a + of_nat k)" using Suc 3 by (simp add: add_ac)
    finally show ?thesis .
  qed (simp_all add: half_byte_def w)
qed simp

definition data_out :: "u32 \<Rightarrow> u16 list \<Rightarrow> io_event list" where
  "data_out p ws = map (\<lambda>w. Out p (ucast w)) ws"

lemma write_words_ok:
  "write_words n a s = s\<lparr>io := io s @ data_out (cmd_port ATA_CMD_BR_DATA s) (words_at n a (mem s))\<rparr>"
proof (induction n arbitrary: a s)
  case (Suc n)
  let ?t = "outw (cmd_port ATA_CMD_BR_DATA s) (ld16 a s) s"
  have "cmd_port ATA_CMD_BR_DATA ?t = cmd_port ATA_CMD_BR_DATA s" "mem ?t = mem s" by (simp_all add: outw_def cmd_port_def)
  then show ?case using Suc [of "a + 2" ?t] by (simp add: Let_def) (simp add: outw_def ld16_def data_out_def)
qed (simp add: data_out_def)

text \<open>What is sent from one place and stored at another is the same there.\<close>

lemma words_move:
  assumes "k < 2 * n" "2 * n \<le> 2 ^ 32"
  shows "halfwords b (words_at n a m) m' (b + of_nat k) = m (a + of_nat k)"
proof -
  have "unat (of_nat k :: u32) = k" using assms by (simp add: unat_of_nat take_bit_nat_eq_self)
  then show ?thesis using assms by (simp add: halfwords_byte words_at_byte)
qed

section \<open>The interrupts of a transfer\<close>

text \<open>
  What the drive gives in one interrupt of a transfer: the status, six times, with the request for
  data and no error in the last of them; the 256 words, if it is a read; the status again.
\<close>

type_synonym ata_block = "u32 list \<times> u16 list \<times> u32 list"

fun block_values :: "ata_block \<Rightarrow> u32 list" where
  "block_values (st, ws, st') = st @ map ucast ws @ st'"

fun block_words :: "ata_block \<Rightarrow> u16 list" where
  "block_words (st, ws, st') = ws"

fun block_ok :: "u8 \<Rightarrow> ata_block \<Rightarrow> bool" where
  "block_ok cmd (st, ws, st') \<longleftrightarrow> length st = 6 \<and> length st' = 6 \<and>
     length ws = (if cmd = DISK_CMD_READ then 256 else 0) \<and>
     (ucast (last st) :: u8) AND ATA_STATUS_DRQ \<noteq> 0 \<and> (ucast (last st) :: u8) AND ATA_STATUS_ERR = 0"

text \<open>Only the drive's part of the state, the memory and the requests have changed.\<close>

definition ata_frame :: "kstate \<Rightarrow> kstate \<Rightarrow> bool" where
  "ata_frame s t \<longleftrightarrow> t\<lparr>inq := inq s, io := io s, mem := mem s, pending_requests := pending_requests s,
     current_pending_request := current_pending_request s,
     current_pending_transfer := current_pending_transfer s, ata_transfer := ata_transfer s\<rparr> = s"

lemma ata_frame_trans: "ata_frame s t \<Longrightarrow> ata_frame t u \<Longrightarrow> ata_frame s u"
  by (cases s; cases t; cases u) (simp add: ata_frame_def)

lemma ata_frame_refl: "ata_frame s s"
  by (simp add: ata_frame_def)

lemma ata_frame_fields:
  assumes "ata_frame s t"
  shows "queues t = queues s" "qnodes t = qnodes s" "free_qnodes t = free_qnodes s" "pcbs t = pcbs s"
    "current t = current s" "ata_cmd_blk_reg t = ata_cmd_blk_reg s" "ata_ctrl_blk_reg t = ata_ctrl_blk_reg s"
    "free_disk_requests t = free_disk_requests s" "ramdisk t = ramdisk s"
  using assms by (cases s; cases t; simp add: ata_frame_def)+

text \<open>What the handler tells the two interrupt controllers.\<close>

definition ata_eoi :: "io_event list" where
  "ata_eoi = [Out PIC_MASTER_CMD_PORT PIC_EOI, Out PIC_SLAVE_CMD_PORT PIC_EOI]"

text \<open>The driver is in the middle of the request \<open>dr\<close>, or it is through with it.\<close>

definition transferring :: "u8 \<Rightarrow> nat \<Rightarrow> kstate \<Rightarrow> bool" where
  "transferring cmd dr s \<longleftrightarrow> current_pending_request s = Some dr \<and> dr_cmd (pending_requests s dr) = cmd \<and>
     current_pending_transfer s \<and> at_request (ata_transfer s) = Some dr"

definition transferred :: "u8 \<Rightarrow> nat \<Rightarrow> kstate \<Rightarrow> bool" where
  "transferred cmd dr s \<longleftrightarrow> current_pending_request s = None \<and> \<not> current_pending_transfer s \<and>
     dr_cmd (pending_requests s dr) = cmd \<and> dr_status (pending_requests s dr) = DISK_STATUS_IO_SUCCESS"

text \<open>A block goes from the drive to memory or from memory to the drive.\<close>

definition block_out :: "u8 \<Rightarrow> u32 \<Rightarrow> kstate \<Rightarrow> io_event list" where
  "block_out cmd a s = (if cmd = DISK_CMD_READ then []
     else data_out (cmd_port ATA_CMD_BR_DATA s) (words_at 256 a (mem s)))"

definition block_in :: "u8 \<Rightarrow> u32 \<Rightarrow> u16 list \<Rightarrow> (u32 \<Rightarrow> u8) \<Rightarrow> u32 \<Rightarrow> u8" where
  "block_in cmd a ws m = (if cmd = DISK_CMD_READ then halfwords a ws m else m)"

definition block_moved :: "u8 \<Rightarrow> u32 \<Rightarrow> u16 list \<Rightarrow> kstate \<Rightarrow> kstate" where
  "block_moved cmd a ws s = s\<lparr>io := io s @ block_out cmd a s, mem := block_in cmd a ws (mem s)\<rparr>"

text \<open>The state after a block, when the driver has looked whether it was the last one.\<close>

definition block_over :: "nat \<Rightarrow> kstate \<Rightarrow> kstate" where
  "block_over dr s =
     (if at_blocks_remaining (ata_transfer s) = 1
      then (set_request dr (\<lambda>r. r\<lparr>dr_status := DISK_STATUS_IO_SUCCESS\<rparr>) s)
        \<lparr>ata_transfer := (ata_transfer s)\<lparr>at_blocks_remaining := 0\<rparr>, current_pending_transfer := False,
         current_pending_request := None\<rparr>
      else s\<lparr>ata_transfer := (ata_transfer s)
        \<lparr>at_blocks_remaining := at_blocks_remaining (ata_transfer s) - 1,
         at_current_block_addr := at_current_block_addr (ata_transfer s) + 1\<rparr>\<rparr>)"

lemma block_done_ok:
  assumes "current_pending_transfer s" "at_blocks_remaining (ata_transfer s) \<noteq> 1"
  shows "block_done s = Inr (block_over dr s)"
  using assms by (simp add: block_done_def pending_transfer_def set_transfer_def block_over_def)

lemma block_done_last:
  assumes "current_pending_transfer s" "at_blocks_remaining (ata_transfer s) = 1"
  shows "block_done s = Inr (s\<lparr>ata_transfer := (ata_transfer s)\<lparr>at_blocks_remaining := 0\<rparr>,
     current_pending_transfer := False\<rparr>)"
  using assms by (simp add: block_done_def pending_transfer_def set_transfer_def)

lemma block_over_ok:
  assumes "transferring cmd dr s" "t = block_over dr (block_moved cmd a ws s)"
  shows "ata_frame s (t\<lparr>inq := i, io := o'\<rparr>)" "io t = io s @ block_out cmd a s" "mem t = block_in cmd a ws (mem s)"
    "at_blocks_remaining (ata_transfer s) = 1 \<Longrightarrow> transferred cmd dr t"
    "at_blocks_remaining (ata_transfer s) \<noteq> 1 \<Longrightarrow> transferring cmd dr t \<and> pending_requests t = pending_requests s \<and>
       at_blocks_remaining (ata_transfer t) = at_blocks_remaining (ata_transfer s) - 1"
  using assms
  by (auto simp: block_over_def block_moved_def ata_frame_def set_request_def transferring_def transferred_def)

lemma move_block:
  assumes "inq s = map ucast ws @ rest" "length ws = (if cmd = DISK_CMD_READ then 256 else 0)"
  shows "(if cmd = DISK_CMD_READ then ata_read_block a s else ata_write_block a s) =
     block_done ((block_moved cmd a ws s)\<lparr>inq := rest\<rparr>)"
proof (cases "cmd = DISK_CMD_READ")
  case True
  then show ?thesis using read_words_ok [OF assms(1), of a] assms(2)
    by (simp add: ata_read_block_def block_moved_def block_out_def block_in_def)
      (rule arg_cong [where f = block_done], simp)
next
  case False
  then show ?thesis using assms
    by (simp add: ata_write_block_def write_words_ok block_moved_def block_out_def block_in_def)
      (rule arg_cong [where f = block_done], simp)
qed

text \<open>The interrupt of a block.\<close>

lemma isr_block:
  assumes "transferring cmd dr s" "cmd = DISK_CMD_READ \<or> cmd = DISK_CMD_WRITE" "block_ok cmd b"
    and "inq s = block_values b @ rest" "t = block_over dr (block_moved cmd (dr_buffer (pending_requests s dr)) (block_words b) s)"
  shows "ata_isr ATA_INT_VEC_PRI_PATA s = Inr (t\<lparr>inq := rest, io := io t @ ata_eoi\<rparr>)"
proof -
  obtain st ws st' where b: "b = (st, ws, st')" by (cases b)
  note r = assms(1) [unfolded transferring_def]
  define a where "a = dr_buffer (pending_requests s dr)"
  define s1 where "s1 = s\<lparr>inq := map ucast ws @ st' @ rest\<rparr>"
  define s2 where "s2 = (block_moved cmd a ws s1)\<lparr>inq := st' @ rest\<rparr>"
  have c1: "ata_check_alt_status s = Inr (ucast (last st), s1)"
    unfolding s1_def using assms(3,4) by (intro check_alt_status_ok) (simp_all add: b)
  have w: "(if cmd = DISK_CMD_READ then ata_read_block a s1 else ata_write_block a s1) = block_done s2"
    unfolding s2_def using assms(3) by (intro move_block) (simp_all add: b s1_def)
  have c3: "ata_check_alt_status t = Inr (ucast (last st'), t\<lparr>inq := rest\<rparr>)" if "inq t = st' @ rest" for t
    using that assms(3) by (intro check_alt_status_ok) (simp_all add: b)
  have f: "pending_transfer s1 = Inr (ata_transfer s)" "at_request (ata_transfer s) = Some dr"
    "dr_cmd (pending_requests s1 dr) = cmd" "dr_buffer (pending_requests s1 dr) = a" "pending_requests s1 = pending_requests s"
    using r by (simp_all add: s1_def pending_transfer_def a_def)
  let ?finish = "\<lambda>s. bindE (ata_check_alt_status s) (\<lambda>(status, s).
     if \<not> current_pending_transfer s then
       bindE (deref (current_pending_request s)) (\<lambda>dr.
         Inr (set_request dr (\<lambda>r. r\<lparr>dr_status := DISK_STATUS_IO_SUCCESS\<rparr>) s))
     else Inr s)"
  have tr: "isr_transfer dr s1 = bindE (block_done s2) ?finish"
    using assms(2) w f by (cases "cmd = DISK_CMD_READ") (simp_all add: isr_transfer_def Let_def)
  let ?eoi = "\<lambda>s. outb PIC_SLAVE_CMD_PORT PIC_EOI (outb PIC_MASTER_CMD_PORT PIC_EOI s)"
  have isr: "ata_isr ATA_INT_VEC_PRI_PATA s =
     bindE (bindE (isr_transfer dr s1)
       (\<lambda>s. if \<not> current_pending_transfer s then Inr (s\<lparr>current_pending_request := None\<rparr>) else Inr s)) (\<lambda>s. Inr (?eoi s))"
    using r assms(3) c1 by (simp add: ata_isr_def isr_request_def b Let_def)
  have s2f: "current_pending_transfer s2" "current_pending_request s2 = Some dr" "inq s2 = st' @ rest"
    "ata_transfer s2 = ata_transfer s"
    using r by (simp_all add: s2_def s1_def block_moved_def)
  have s2e: "s2 = (block_moved cmd a ws s)\<lparr>inq := st' @ rest\<rparr>"
    by (simp add: s2_def s1_def block_moved_def block_out_def cmd_port_def)
  have "bindE (isr_transfer dr s1)
       (\<lambda>s. if \<not> current_pending_transfer s then Inr (s\<lparr>current_pending_request := None\<rparr>) else Inr s) =
     Inr ((block_over dr s2)\<lparr>inq := rest\<rparr>)"
  proof (cases "at_blocks_remaining (ata_transfer s) = 1")
    case True
    then show ?thesis
      using s2f unfolding tr block_done_last [OF s2f(1) True [folded s2f(4)]]
      by (simp add: c3 block_over_def set_request_def)
  next
    case False
    then show ?thesis
      using s2f unfolding tr block_done_ok [OF s2f(1) False [folded s2f(4)], of dr]
      by (simp add: c3 block_over_def)
  qed
  then show ?thesis unfolding isr assms(5) s2e
    by (simp add: b a_def ata_eoi_def outb_def block_over_def set_request_def)
qed

text \<open>All blocks of a transfer, one interrupt after the other.\<close>

lemma all_blocks:
  assumes "transferring cmd dr s" "cmd = DISK_CMD_READ \<or> cmd = DISK_CMD_WRITE"
    and "dr_status (pending_requests s dr) \<noteq> DISK_STATUS_IO_SUCCESS"
    and "bs \<noteq> []" "list_all (block_ok cmd) bs" "length bs = unat (at_blocks_remaining (ata_transfer s))"
    and "inq s = concat (map block_values bs) @ rest" "a = dr_buffer (pending_requests s dr)"
  shows "\<exists>s'. ata_wait dr s = Inr s' \<and> inq s' = rest \<and> ata_frame s s' \<and> transferred cmd dr s' \<and>
     io s' = io s @ concat (replicate (length bs) (block_out cmd a s @ ata_eoi)) \<and>
     mem s' = fold (\<lambda>b. block_in cmd a (block_words b)) bs (mem s)"
  using assms
proof (induction bs arbitrary: s)
  case (Cons b bs)
  let ?n = "at_blocks_remaining (ata_transfer s)"
  have one: "?n = 1 \<longleftrightarrow> bs = []" using Cons.prems(6) by (auto simp: word_unat_eq_iff)
  define t where "t = block_over dr (block_moved cmd a (block_words b) s)"
  define s1 where "s1 = t\<lparr>inq := concat (map block_values bs) @ rest, io := io t @ ata_eoi\<rparr>"
  have i: "ata_isr ATA_INT_VEC_PRI_PATA s = Inr s1"
    unfolding s1_def using Cons.prems by (intro isr_block) (simp_all add: t_def)
  note o = block_over_ok [OF Cons.prems(1) t_def]
  have s1: "inq s1 = concat (map block_values bs) @ rest" "ata_frame s s1"
    "io s1 = io s @ block_out cmd a s @ ata_eoi" "mem s1 = block_in cmd a (block_words b) (mem s)"
    unfolding s1_def by (simp_all add: o)
  have w: "ata_wait dr s = ata_wait dr s1"
    unfolding ata_wait_def using Cons.prems(3) i by (rule loop_step)
  show ?case
  proof (cases "bs = []")
    case True
    then have d: "transferred cmd dr s1" using o(4) one by (simp add: s1_def transferred_def)
    then have "ata_wait dr s1 = Inr s1" unfolding ata_wait_def by (intro loop_done) (simp add: transferred_def)
    then show ?thesis using d s1 True w by simp
  next
    case False
    then have n: "?n \<noteq> 1" using one by blast
    have t: "transferring cmd dr s1" "pending_requests s1 = pending_requests s" "at_blocks_remaining (ata_transfer s1) = ?n - 1"
      using o(5) [OF n] Cons.prems(1) by (auto simp: s1_def transferring_def)
    have "?n \<noteq> 0" using Cons.prems(6) by (metis Zero_not_Suc length_Cons unat_0)
    then have l: "length bs = unat (at_blocks_remaining (ata_transfer s1))"
      using Cons.prems(6) t(3) by (simp add: unat_minus_one)
    have out: "block_out cmd a s1 = block_out cmd a s"
      unfolding block_out_def cmd_port_def ata_frame_fields [OF s1(2)] s1(4) by (simp add: block_in_def)
    have "\<exists>s'. ata_wait dr s1 = Inr s' \<and> inq s' = rest \<and> ata_frame s1 s' \<and> transferred cmd dr s' \<and>
       io s' = io s1 @ concat (replicate (length bs) (block_out cmd a s1 @ ata_eoi)) \<and>
       mem s' = fold (\<lambda>b. block_in cmd a (block_words b)) bs (mem s1)"
      using Cons.prems t False by (intro Cons.IH l s1(1)) simp_all
    then obtain s' where
      s': "ata_wait dr s1 = Inr s'" "inq s' = rest" "ata_frame s1 s'" "transferred cmd dr s'"
        "io s' = io s1 @ concat (replicate (length bs) (block_out cmd a s1 @ ata_eoi))"
        "mem s' = fold (\<lambda>b. block_in cmd a (block_words b)) bs (mem s1)" by blast
    show ?thesis
      using s' w s1(3,4) ata_frame_trans [OF s1(2) s'(3)] unfolding out by (intro exI [of _ s']) simp
  qed
qed simp

text \<open>Every block of a transfer is stored at the same address: what stays is the last one.\<close>

lemma fold_halfwords:
  "bs \<noteq> [] \<Longrightarrow> list_all (block_ok DISK_CMD_READ) bs \<Longrightarrow>
     fold (\<lambda>b. halfwords a (block_words b)) bs m = halfwords a (block_words (last bs)) m"
proof (induction bs rule: rev_induct)
  case (snoc b bs)
  have "length (block_words x) = 256" if "block_ok DISK_CMD_READ x" for x using that by (cases x) simp
  then have l: "length (block_words (last bs)) = 256" if "bs \<noteq> []" and "length (block_words b) = 256"
    using snoc.prems(2) that by (auto simp: list_all_iff)
  show ?case
  proof (cases "bs = []")
    case False
    have b: "length (block_words b) = 256" using snoc.prems(2) by (cases b) simp
    have "fold (\<lambda>b. halfwords a (block_words b)) bs m = halfwords a (block_words (last bs)) m"
      using snoc False by simp
    then show ?thesis using l [OF False b] b by (simp add: halfwords_twice)
  qed simp
qed simp

lemma block_in_read: "block_in DISK_CMD_READ a = halfwords a"
  by (simp add: block_in_def fun_eq_iff)

lemma blocks_written: "fold (\<lambda>b. block_in DISK_CMD_WRITE a (block_words b)) bs m = m"
  by (induction bs) (simp_all add: block_in_def)

section \<open>Waiting for the drive\<close>

text \<open>Readings of the status, six reads at a time.\<close>

definition reads :: "(u8 \<Rightarrow> bool) \<Rightarrow> u32 list \<Rightarrow> bool" where
  "reads P xs \<longleftrightarrow> length xs = 6 \<and> P (ucast (last xs))"

abbreviation status_loop :: "(u8 \<Rightarrow> bool) \<Rightarrow> u8 \<times> kstate \<Rightarrow> (u8 \<times> kstate) outcome" where
  "status_loop P \<equiv> loop (\<lambda>(a, s). P a) (\<lambda>(a, s). ata_check_alt_status s)"

lemma wait_while:
  assumes "list_all (reads P) xs" "reads (\<lambda>a. \<not> P a) y" "inq s = concat xs @ y @ rest"
  shows "bindE (ata_check_alt_status s) (status_loop P) = Inr (ucast (last y), s\<lparr>inq := rest\<rparr>)"
  using assms(1,3)
proof (induction xs arbitrary: s)
  case Nil
  then show ?case using assms(2) by (simp add: check_alt_status_ok [of s y rest] loop_done reads_def)
next
  case (Cons x xs)
  let ?t = "s\<lparr>inq := concat xs @ y @ rest\<rparr>"
  have x: "ata_check_alt_status s = Inr (ucast (last x), ?t)"
    using Cons.prems by (intro check_alt_status_ok) (simp_all add: reads_def)
  have "bindE (ata_check_alt_status ?t) (status_loop P) = Inr (ucast (last y), ?t\<lparr>inq := rest\<rparr>)"
    using Cons.prems by (intro Cons.IH) simp_all
  then show ?case using Cons.prems(1)
    by (simp add: x) (subst loop_unfold, simp add: reads_def)
qed

text \<open>Before a command the drive is busy or not ready, and then it is ready.\<close>

abbreviation not_ready :: "u8 \<Rightarrow> bool" where
  "not_ready a \<equiv> a AND ATA_STATUS_BSY \<noteq> 0 \<or> a AND ATA_STATUS_DRDY = 0"

abbreviation busy :: "u8 \<Rightarrow> bool" where
  "busy a \<equiv> a AND ATA_STATUS_BSY \<noteq> 0"

definition drive_busy :: "u32 list \<Rightarrow> bool" where
  "drive_busy = reads not_ready"

definition drive_ready :: "u32 list \<Rightarrow> bool" where
  "drive_ready = reads (\<lambda>a. \<not> not_ready a)"

text \<open>
  What the driver writes to the registers of the drive for a request: the address, of which only
  the bits 0 to 7 and 24 to 27 arrive, a sector count of one, and the command.
\<close>

definition request_registers :: "u8 \<Rightarrow> u32 \<Rightarrow> kstate \<Rightarrow> io_event list" where
  "request_registers cmd lba s =
     [Out (cmd_port ATA_CMD_BR_DRIVE_SELECT s) (0x50 OR (drop_bit 24 lba AND 0x0f)),
      Out (cmd_port ATA_CMD_BR_CYL_LOW s) (lba AND 0xff), Out (cmd_port ATA_CMD_BR_CYL_MID s) 0,
      Out (cmd_port ATA_CMD_BR_CYL_HIGH s) 0, Out (cmd_port ATA_CMD_BR_SEC_COUNT s) 1,
      Out (cmd_port ATA_CMD_BR_COMMAND s) (if cmd = DISK_CMD_READ then ATA7_READ_SECTORS else ATA7_WRITE_SECTORS)]"

lemma byte_of_word: "ucast (ucast x :: u8) = x AND 0xff" for x :: u32
proof -
  have m: "(0xff :: u32) = mask 8" by code_simp
  show ?thesis unfolding m by (rule bit_word_eqI) (auto simp: bit_simps)
qed

lemma byte_shifted_out: "8 \<le> n \<Longrightarrow> drop_bit n x = 0" for x :: u8
  by (rule bit_word_eqI) (auto simp: bit_simps dest: bit_imp_le_length)

definition started :: "nat \<Rightarrow> kstate \<Rightarrow> kstate" where
  "started dr s = (let r = pending_requests s dr in
     s\<lparr>io := io s @ request_registers (dr_cmd r) (dr_lba r) s,
       ata_transfer := \<lparr>at_request = Some dr, at_current_block_addr = dr_lba r, at_blocks_remaining = dr_nblocks r\<rparr>,
       current_pending_request := Some dr, current_pending_transfer := True\<rparr>)"

lemma started_fields [simp]:
  "transferring cmd dr (started dr s) \<longleftrightarrow> dr_cmd (pending_requests s dr) = cmd"
  "transferring cmd dr ((started dr s)\<lparr>inq := i\<rparr>) \<longleftrightarrow> dr_cmd (pending_requests s dr) = cmd"
  "at_blocks_remaining (ata_transfer (started dr s)) = dr_nblocks (pending_requests s dr)"
  "pending_requests (started dr s) = pending_requests s" "inq (started dr s) = inq s" "mem (started dr s) = mem s"
  "ata_frame s ((started dr s)\<lparr>inq := i\<rparr>)"
  by (simp_all add: started_def Let_def transferring_def ata_frame_def)

lemma pio_ok:
  assumes "list_all drive_busy ps" "drive_ready rd" "length st = 6" "inq s = concat ps @ rd @ st @ rest"
    and "dr_cmd (pending_requests s dr) = DISK_CMD_READ \<or> dr_cmd (pending_requests s dr) = DISK_CMD_WRITE"
  shows "ata_do_pio_data dr s = Inr ((started dr s)\<lparr>inq := rest\<rparr>)"
proof -
  have "bindE (ata_check_alt_status s) (status_loop not_ready) = Inr (ucast (last rd), s\<lparr>inq := st @ rest\<rparr>)"
    using assms(1,2,4) by (intro wait_while) (simp_all add: drive_busy_def drive_ready_def)
  then obtain x where x: "ata_check_alt_status s = Inr x"
    "status_loop not_ready x = Inr (ucast (last rd), s\<lparr>inq := st @ rest\<rparr>)"
    by (rule bindE_InrE)
  have c: "ata_check_alt_status t = Inr (ucast (last st), t\<lparr>inq := rest\<rparr>)" if "inq t = st @ rest" for t
    using that assms(3) by (rule check_alt_status_ok)
  show ?thesis
    unfolding ata_do_pio_data_def x bindE_simps
    using assms(5)
    by (simp add: x(2) c set_transfer_def outb_def cmd_port_def request_registers_def started_def
        byte_of_word byte_shifted_out or.assoc [symmetric] cong: if_cong)
      (auto simp: Let_def)
qed

section \<open>From the call to the start of the transfer\<close>

lemma q_frame_ports:
  assumes "q_frame s t"
  shows "ata_cmd_blk_reg t = ata_cmd_blk_reg s" "ata_ctrl_blk_reg t = ata_ctrl_blk_reg s"
proof -
  have eq: "t\<lparr>queues := queues s, qnodes := qnodes s, free_qnodes := free_qnodes s\<rparr> = s"
    using assms by (simp add: q_frame_def)
  show "ata_cmd_blk_reg t = ata_cmd_blk_reg s" using arg_cong [OF eq, of ata_cmd_blk_reg] by simp
  show "ata_ctrl_blk_reg t = ata_ctrl_blk_reg s" using arg_cong [OF eq, of ata_ctrl_blk_reg] by simp
qed

lemma enqueue_ok:
  assumes "q_wf s" "n_free s \<noteq> 0" "hashfcn (queues s Ata_io_pending) = None" "current s = Some c"
  obtains s' where "ata_enqueue dr st s = Inr s'"
    "q_frame (set_pcb c (\<lambda>p. p\<lparr>pending_request := Some dr\<rparr>) (set_request dr (\<lambda>r. r\<lparr>dr_status := st\<rparr>) s)) s'"
    "q_view s' = (q_view s)(Ata_io_pending := q_view s Ata_io_pending @ [(0, Some (Disk_req dr))])"
proof -
  let ?t = "set_pcb c (\<lambda>p. p\<lparr>pending_request := Some dr\<rparr>) (set_request dr (\<lambda>r. r\<lparr>dr_status := st\<rparr>) s)"
  have same: "queues ?t = queues s" "qnodes ?t = qnodes s" "free_qnodes ?t = free_qnodes s"
    by (simp_all add: set_pcb_def set_request_def)
  note q = q_repr_cong [OF same]
  have "q_wf ?t" "n_free ?t \<noteq> 0" "q_key ?t Ata_io_pending (Some (Disk_req dr)) = Inr 0"
    using assms by (simp_all only: q, simp_all add: q_key_def set_pcb_def set_request_def)
  from q_insert_ok [OF this] obtain s' where s': "q_insert Ata_io_pending (Some (Disk_req dr)) ?t = Inr (STAT_SUCCESS, s')"
    "q_frame ?t s'" "q_view s' = (q_view ?t)(Ata_io_pending :=
       q_place (q_ordered ?t Ata_io_pending) (0, Some (Disk_req dr)) (q_view ?t Ata_io_pending))" by blast
  have o: "\<not> q_ordered ?t Ata_io_pending" using assms(3) by (simp add: q_ordered_def set_pcb_def set_request_def)
  have "ata_enqueue dr st s = Inr s'"
    using assms(4) s'(1) by (simp add: ata_enqueue_def set_request_def)
  then show thesis using s'(2)
    by (rule that) (use s'(3) o in \<open>simp only: q(5) q_place_def if_False\<close>)
qed

text \<open>A request that can be made: for a command and a number of blocks, by a process.\<close>

definition can_request :: "u8 \<Rightarrow> nat \<Rightarrow> nat \<Rightarrow> nat \<Rightarrow> kstate \<Rightarrow> bool" where
  "can_request cmd n dr c s \<longleftrightarrow> q_wf s \<and> n_free s \<noteq> 0 \<and> hashfcn (queues s Ata_io_pending) = None \<and> current s = Some c \<and>
     dr_cmd (pending_requests s dr) = cmd \<and> unat (dr_nblocks (pending_requests s dr)) = n"

text \<open>
  What both kinds of requests do to the queue and to the caller, and what is left of the call when
  the drive has been given the command.
\<close>

definition request_effect :: "nat \<Rightarrow> nat \<Rightarrow> kstate \<Rightarrow> kstate \<Rightarrow> bool" where
  "request_effect dr c s s' \<longleftrightarrow>
     q_view s' = (q_view s)(Ata_io_pending := q_view s Ata_io_pending @ [(0, Some (Disk_req dr))]) \<and>
     pcbs s' = (pcbs s)(c := (pcbs s c)\<lparr>pending_request := Some dr\<rparr>)"

lemma request_effect_frame: "request_effect dr c s t \<Longrightarrow> ata_frame t u \<Longrightarrow> request_effect dr c s u"
  using q_repr_cong(5) [of u t] by (simp add: request_effect_def ata_frame_fields)

definition rest_of_request :: "(u32 \<Rightarrow> kstate \<Rightarrow> kstate outcome) \<Rightarrow> nat \<Rightarrow> u8 \<Rightarrow> u8 kop" where
  "rest_of_request slp dr alt_status s =
     bindE (if dr_cmd (pending_requests s dr) = DISK_CMD_WRITE
            then bindE (slp 2 s) (ata_first_write alt_status) else Inr s) (\<lambda>s.
       bindE (ata_wait dr s) (\<lambda>s.
         bindE (if dr_cmd (pending_requests s dr) = DISK_CMD_WRITE then ata_flush_cache s else Inr s)
           (\<lambda>s. Inr (dr_status (pending_requests s dr), s))))"

lemma request_starts:
  assumes q: "can_request cmd n dr c s" and cmd: "cmd = DISK_CMD_READ \<or> cmd = DISK_CMD_WRITE"
    and ps: "list_all drive_busy ps" and rd: "drive_ready rd" "length st = 6" "length st' = 6"
    and i: "inq s = concat ps @ rd @ st @ st' @ rest"
  obtains t where "ata_request slp (Some dr) s = rest_of_request slp dr (ucast (last st')) t"
    "transferring cmd dr t" "unat (at_blocks_remaining (ata_transfer t)) = n" "inq t = rest" "mem t = mem s"
    "dr_status (pending_requests t dr) \<noteq> DISK_STATUS_IO_SUCCESS"
    "dr_buffer (pending_requests t dr) = dr_buffer (pending_requests s dr)"
    "io t = io s @ Out (ctrl_port ATA_CTRL_DEV_CONTROL s) 0 # request_registers cmd (dr_lba (pending_requests s dr)) s"
    "ata_cmd_blk_reg t = ata_cmd_blk_reg s" "request_effect dr c s t"
proof -
  note q = q [unfolded can_request_def]
  let ?R = "pending_requests s dr" and ?st = "if cmd = DISK_CMD_READ then DISK_STATUS_READ_PENDING else DISK_STATUS_WRITE_PENDING"
  let ?t = "set_request dr (\<lambda>r. r\<lparr>dr_source := DISK_REQUEST_USER\<rparr>) s"
  have same: "queues ?t = queues s" "qnodes ?t = qnodes s" "free_qnodes ?t = free_qnodes s"
    by (simp_all add: set_request_def)
  note qc = q_repr_cong [OF same]
  have "q_wf ?t" "n_free ?t \<noteq> 0" "hashfcn (queues ?t Ata_io_pending) = None" "current ?t = Some c"
    using q by (simp_all only: qc same, simp_all add: set_request_def)
  from enqueue_ok [OF this, where dr = dr and st = "?st"] obtain u where
    u: "ata_enqueue dr ?st ?t = Inr u"
      "q_frame (set_pcb c (\<lambda>p. p\<lparr>pending_request := Some dr\<rparr>) (set_request dr (\<lambda>r. r\<lparr>dr_status := ?st\<rparr>) ?t)) u"
      "q_view u = (q_view ?t)(Ata_io_pending := q_view ?t Ata_io_pending @ [(0, Some (Disk_req dr))])" .
  note uf = q_frame_fields [OF u(2)]
  have us: "inq u = inq s" "io u = io s" "mem u = mem s" "pending_requests u dr = ?R\<lparr>dr_source := DISK_REQUEST_USER, dr_status := ?st\<rparr>"
    "pcbs u = (pcbs s)(c := (pcbs s c)\<lparr>pending_request := Some dr\<rparr>)"
    "ata_cmd_blk_reg u = ata_cmd_blk_reg s" "ata_ctrl_blk_reg u = ata_ctrl_blk_reg s"
    by (simp_all add: uf q_frame_ports [OF u(2)] set_pcb_def set_request_def)
  define w where "w = outb (ctrl_port ATA_CTRL_DEV_CONTROL u) 0x00 u"
  have w: "pending_requests w = pending_requests u" "inq w = inq s" "mem w = mem s" "io w = io s @ [Out (ctrl_port ATA_CTRL_DEV_CONTROL s) 0]"
    "ata_cmd_blk_reg w = ata_cmd_blk_reg s"
    by (simp_all add: w_def outb_def us ctrl_port_def)
  have wc: "dr_cmd (pending_requests w dr) = cmd" using q by (simp add: w us)
  have x: "ata_do_pio_data dr w = Inr ((started dr w)\<lparr>inq := st' @ rest\<rparr>)"
    using i cmd wc by (intro pio_ok [OF ps rd(1,2)]) (simp_all only: w append_assoc)
  define t where "t = (started dr w)\<lparr>inq := rest\<rparr>"
  have y: "ata_check_alt_status ((started dr w)\<lparr>inq := st' @ rest\<rparr>) = Inr (ucast (last st'), t)"
    using check_alt_status_ok [of "(started dr w)\<lparr>inq := st' @ rest\<rparr>" st' rest] rd(3) by (simp add: t_def)
  have t_cmd: "dr_cmd (pending_requests ?t dr) = cmd" using q by (simp add: set_request_def)
  have known: "(cmd \<noteq> DISK_CMD_READ \<and> cmd \<noteq> DISK_CMD_WRITE) = False" using cmd by blast
  show thesis
  proof
    show "ata_request slp (Some dr) s = rest_of_request slp dr (ucast (last st')) t"
      unfolding ata_request_def rest_of_request_def
      by (simp add: t_cmd known u(1) Let_def x y flip: w_def del: de_Morgan_conj)
    show "transferring cmd dr t" using wc by (simp add: t_def)
    show "unat (at_blocks_remaining (ata_transfer t)) = n" using q by (simp add: t_def w us)
    show "dr_status (pending_requests t dr) \<noteq> DISK_STATUS_IO_SUCCESS" by (simp add: t_def w us)
    show "io t = io s @ Out (ctrl_port ATA_CTRL_DEV_CONTROL s) 0 # request_registers cmd (dr_lba (pending_requests s dr)) s"
      using wc by (simp add: t_def started_def Let_def w us request_registers_def cmd_port_def)
    have "q_view w = q_view u" by (rule q_repr_cong(5)) (simp_all add: w_def outb_def)
    moreover have "pcbs w = pcbs u" by (simp add: w_def outb_def)
    ultimately have "request_effect dr c s w" by (simp add: request_effect_def u(3) us(5) qc)
    then show "request_effect dr c s t" by (rule request_effect_frame) (simp add: t_def)
    show "ata_cmd_blk_reg t = ata_cmd_blk_reg s" by (simp add: t_def started_def Let_def w)
  qed (simp_all add: t_def w us)
qed

section \<open>A request to read\<close>

definition read_values :: "u32 list list \<Rightarrow> u32 list \<Rightarrow> u32 list \<Rightarrow> u32 list \<Rightarrow> ata_block list \<Rightarrow> u32 list" where
  "read_values ps rd st st' bs = concat ps @ rd @ st @ st' @ concat (map block_values bs)"

lemma read_request:
  assumes q: "can_request DISK_CMD_READ (length bs) dr c s"
    and ps: "list_all drive_busy ps" "drive_ready rd" "length st = 6" "length st' = 6"
    and bs: "bs \<noteq> []" "list_all (block_ok DISK_CMD_READ) bs"
    and i: "inq s = read_values ps rd st st' bs @ rest"
  shows "\<exists>s'. ata_request slp (Some dr) s = Inr (DISK_STATUS_IO_SUCCESS, s') \<and> inq s' = rest \<and>
     transferred DISK_CMD_READ dr s' \<and>
     mem s' = halfwords (dr_buffer (pending_requests s dr)) (block_words (last bs)) (mem s) \<and>
     io s' = io s @ Out (ctrl_port ATA_CTRL_DEV_CONTROL s) 0 #
       request_registers DISK_CMD_READ (dr_lba (pending_requests s dr)) s @ concat (replicate (length bs) ata_eoi) \<and>
     request_effect dr c s s'"
proof -
  have "inq s = concat ps @ rd @ st @ st' @ concat (map block_values bs) @ rest"
    using i by (simp add: read_values_def)
  from request_starts [OF q _ ps this, of slp] obtain t where
    t: "ata_request slp (Some dr) s = rest_of_request slp dr (ucast (last st')) t"
    "transferring DISK_CMD_READ dr t" "unat (at_blocks_remaining (ata_transfer t)) = length bs"
    "inq t = concat (map block_values bs) @ rest" "mem t = mem s"
    "dr_status (pending_requests t dr) \<noteq> DISK_STATUS_IO_SUCCESS"
    "dr_buffer (pending_requests t dr) = dr_buffer (pending_requests s dr)"
    "io t = io s @ Out (ctrl_port ATA_CTRL_DEV_CONTROL s) 0 # request_registers DISK_CMD_READ (dr_lba (pending_requests s dr)) s"
    "request_effect dr c s t" by blast
  from all_blocks [OF t(2) _ t(6) bs t(3) [symmetric] t(4) refl] obtain s' where
    s': "ata_wait dr t = Inr s'" "inq s' = rest" "ata_frame t s'" "transferred DISK_CMD_READ dr s'"
      "io s' = io t @ concat (replicate (length bs) ata_eoi)"
      "mem s' = halfwords (dr_buffer (pending_requests s dr)) (block_words (last bs)) (mem s)"
    using fold_halfwords [OF bs] by (auto simp: block_in_read block_out_def t(5,7))
  have "rest_of_request slp dr (ucast (last st')) t = Inr (DISK_STATUS_IO_SUCCESS, s')"
    using t(2) s'(1,4) by (simp add: rest_of_request_def transferring_def transferred_def)
  then show ?thesis using s' t(1,8) request_effect_frame [OF t(9) s'(3)] by (intro exI [of _ s']) simp
qed

section \<open>A request to write\<close>

lemma wait_from:
  assumes "list_all (reads P) xs" "reads (\<lambda>a. \<not> P a) y" "inq s = concat (tl (xs @ [y])) @ rest"
  shows "status_loop P (ucast (last (hd (xs @ [y]))), s) = Inr (ucast (last y), s\<lparr>inq := rest\<rparr>)"
proof (cases xs)
  case Nil
  then have "inq s = rest" "\<not> P (ucast (last y))" using assms(2,3) by (simp_all add: reads_def)
  moreover from this(1) have "s\<lparr>inq := rest\<rparr> = s" by (cases s) simp
  ultimately show ?thesis using Nil by (simp add: loop_done)
next
  case (Cons x ys)
  then have "bindE (ata_check_alt_status s) (status_loop P) = Inr (ucast (last y), s\<lparr>inq := rest\<rparr>)"
    using assms by (intro wait_while) simp_all
  then show ?thesis using Cons assms(1) by (subst loop_unfold) (simp add: reads_def)
qed

text \<open>The first block goes out from within the call, when the drive asks for it.\<close>

definition wants_data :: "u32 list \<Rightarrow> bool" where
  "wants_data y \<longleftrightarrow> reads (\<lambda>a. \<not> busy a) y \<and> (ucast (last y) :: u8) AND ATA_STATUS_DRQ \<noteq> 0"

lemma first_write:
  assumes "transferring DISK_CMD_WRITE dr s" "list_all (reads busy) xs" "wants_data y" "length st = 6"
    and "inq s = concat (tl (xs @ [y])) @ st @ rest"
    and "t = block_over dr (block_moved DISK_CMD_WRITE (dr_buffer (pending_requests s dr)) [] s)"
  shows "ata_first_write (ucast (last (hd (xs @ [y])))) s = Inr (t\<lparr>inq := rest\<rparr>)"
proof -
  note r = assms(1) [unfolded transferring_def]
  define a where "a = dr_buffer (pending_requests s dr)"
  define s1 where "s1 = s\<lparr>inq := st @ rest\<rparr>"
  define s2 where "s2 = block_moved DISK_CMD_WRITE a [] s1"
  have y: "reads (\<lambda>a. \<not> busy a) y" "(ucast (last y) :: u8) AND ATA_STATUS_DRQ \<noteq> 0"
    using assms(3) by (simp_all add: wants_data_def)
  have l: "status_loop busy (ucast (last (hd (xs @ [y]))), s) = Inr (ucast (last y), s1)"
    unfolding s1_def using assms(2,5) y(1) by (intro wait_from) simp_all
  have w: "ata_write_block a s1 = block_done s2"
    by (simp add: ata_write_block_def write_words_ok s2_def block_moved_def block_out_def block_in_def)
  have c: "ata_check_alt_status t = Inr (ucast (last st), t\<lparr>inq := rest\<rparr>)" if "inq t = st @ rest" for t
    using that assms(4) by (rule check_alt_status_ok)
  have f: "pending_transfer s1 = Inr (ata_transfer s)" "at_request (ata_transfer s) = Some dr"
    "dr_buffer (pending_requests s1 dr) = a"
    using r by (simp_all add: s1_def pending_transfer_def a_def)
  have s2f: "current_pending_transfer s2" "current_pending_request s2 = Some dr" "inq s2 = st @ rest"
    "ata_transfer s2 = ata_transfer s"
    using r by (simp_all add: s2_def s1_def block_moved_def)
  have s2e: "s2 = (block_moved DISK_CMD_WRITE a [] s)\<lparr>inq := st @ rest\<rparr>"
    by (simp add: s2_def s1_def block_moved_def block_out_def cmd_port_def)
  have "ata_first_write (ucast (last (hd (xs @ [y])))) s = Inr ((block_over dr s2)\<lparr>inq := rest\<rparr>)"
  proof (cases "at_blocks_remaining (ata_transfer s) = 1")
    case True
    then show ?thesis
      using s2f y(2) block_done_last [OF s2f(1) True [folded s2f(4)]] unfolding ata_first_write_def l bindE_simps
      by (simp add: f w c block_over_def set_request_def)
  next
    case False
    then show ?thesis
      using s2f y(2) block_done_ok [OF s2f(1) False [folded s2f(4)], of dr] unfolding ata_first_write_def l bindE_simps
      by (simp add: f w c block_over_def)
  qed
  then show ?thesis unfolding assms(6) s2e by (simp add: a_def block_over_def set_request_def)
qed

text \<open>After the last block the driver has the drive flush its cache.\<close>

lemma flush_ok:
  assumes "reads (\<lambda>a. a AND ATA_STATUS_DRDY \<noteq> 0) f" "list_all (reads busy) fs" "reads (\<lambda>a. \<not> busy a) g"
    and "reads (\<lambda>a. a AND ATA_STATUS_ERR = 0) h" "inq s = f @ concat fs @ g @ h @ rest"
  shows "ata_flush_cache s =
     Inr (s\<lparr>inq := rest, io := io s @ [Out (cmd_port ATA_CMD_COMMAND s) ATA7_FLUSH_CACHE, Puts ''\<newline>'']\<rparr>)"
proof -
  define s1 where "s1 = outb (cmd_port ATA_CMD_COMMAND s) ATA7_FLUSH_CACHE (s\<lparr>inq := concat fs @ g @ h @ rest\<rparr>)"
  have a: "ata_check_alt_status s = Inr (ucast (last f), s\<lparr>inq := concat fs @ g @ h @ rest\<rparr>)"
    using assms(1,5) by (intro check_alt_status_ok) (simp_all add: reads_def)
  have "bindE (ata_check_alt_status s1) (status_loop busy) = Inr (ucast (last g), s1\<lparr>inq := h @ rest\<rparr>)"
    using assms(2,3) by (intro wait_while) (simp_all add: s1_def outb_def)
  then obtain x where x: "ata_check_alt_status s1 = Inr x" "status_loop busy x = Inr (ucast (last g), s1\<lparr>inq := h @ rest\<rparr>)"
    by (rule bindE_InrE)
  have c: "ata_check_alt_status t = Inr (ucast (last h), t\<lparr>inq := rest\<rparr>)" if "inq t = h @ rest" for t
    using that assms(4) by (intro check_alt_status_ok) (simp_all add: reads_def)
  have p: "cmd_port r (s\<lparr>inq := i\<rparr>) = cmd_port r s" for r i by (simp add: cmd_port_def)
  have d: "(ucast (last f) :: u8) AND ATA_STATUS_DRDY \<noteq> 0" "(ucast (last h) :: u8) AND ATA_STATUS_ERR = 0"
    using assms(1,4) by (simp_all add: reads_def)
  have "ata_flush_cache s = Inr ((c_puts ''\<newline>'' s1)\<lparr>inq := rest\<rparr>)"
    unfolding ata_flush_cache_def a bindE_simps using d
    by (simp add: p x c c_puts_def flip: s1_def)
  then show ?thesis by (simp add: s1_def outb_def c_puts_def)
qed

text \<open>
  What the call of \<open>sleep\<close> within a request may do: it returns, and leaves the drive, its requests
  and the memory alone.
\<close>

definition sleeps_quietly :: "(u32 \<Rightarrow> kstate \<Rightarrow> kstate outcome) \<Rightarrow> bool" where
  "sleeps_quietly slp \<longleftrightarrow> (\<forall>u. \<exists>v e. slp 2 u = Inr v \<and> io v = io u @ e \<and> inq v = inq u \<and> mem v = mem u \<and>
     pending_requests v = pending_requests u \<and> current_pending_request v = current_pending_request u \<and>
     current_pending_transfer v = current_pending_transfer u \<and> ata_transfer v = ata_transfer u \<and>
     ata_cmd_blk_reg v = ata_cmd_blk_reg u)"

text \<open>
  What the drive answers to a write: the readings while it gets ready and while it takes the
  command, of which the last asks for data; those around each block; those around the flush.
\<close>

record write_answers =
  wa_not_ready :: "u32 list list"
  wa_ready :: "u32 list"
  wa_taken :: "u32 list"
  wa_busy :: "u32 list list"
  wa_wants :: "u32 list"
  wa_sent :: "u32 list"
  wa_blocks :: "ata_block list"
  wa_flush :: "u32 list"
  wa_flushing :: "u32 list list"
  wa_flushed :: "u32 list"
  wa_end :: "u32 list"

definition write_values :: "write_answers \<Rightarrow> u32 list" where
  "write_values w = concat (wa_not_ready w) @ wa_ready w @ wa_taken w @ concat (wa_busy w @ [wa_wants w]) @ wa_sent w @
     concat (map block_values (wa_blocks w)) @ wa_flush w @ concat (wa_flushing w) @ wa_flushed w @ wa_end w"

definition write_answers_ok :: "write_answers \<Rightarrow> bool" where
  "write_answers_ok w \<longleftrightarrow> list_all drive_busy (wa_not_ready w) \<and> drive_ready (wa_ready w) \<and> length (wa_taken w) = 6 \<and>
     list_all (reads busy) (wa_busy w) \<and> wants_data (wa_wants w) \<and> length (wa_sent w) = 6 \<and>
     list_all (block_ok DISK_CMD_WRITE) (wa_blocks w) \<and> reads (\<lambda>a. a AND ATA_STATUS_DRDY \<noteq> 0) (wa_flush w) \<and>
     list_all (reads busy) (wa_flushing w) \<and> reads (\<lambda>a. \<not> busy a) (wa_flushed w) \<and>
     reads (\<lambda>a. a AND ATA_STATUS_ERR = 0) (wa_end w)"

text \<open>After the first block the interrupts bring the others, if there are any.\<close>

lemma other_blocks:
  assumes "transferring DISK_CMD_WRITE dr s" "dr_status (pending_requests s dr) \<noteq> DISK_STATUS_IO_SUCCESS"
    and "a = dr_buffer (pending_requests s dr)" "inq u = concat (map block_values bs) @ rest"
    and u: "u = (block_over dr (block_moved DISK_CMD_WRITE a [] s))\<lparr>inq := i\<rparr>"
    and n: "unat (at_blocks_remaining (ata_transfer s)) = Suc (length bs)" and bs: "list_all (block_ok DISK_CMD_WRITE) bs"
  defines "data \<equiv> block_out DISK_CMD_WRITE a s"
  obtains x where "ata_wait dr u = Inr x" "inq x = rest" "ata_frame s x" "transferred DISK_CMD_WRITE dr x"
    "io x = io s @ data @ concat (replicate (length bs) (data @ ata_eoi))" "mem x = mem s"
proof -
  let ?x = "block_over dr (block_moved DISK_CMD_WRITE a [] s)" and ?n = "at_blocks_remaining (ata_transfer s)"
  note o = block_over_ok [OF assms(1) refl [of ?x]]
  have "ata_frame s (?x\<lparr>inq := i, io := io ?x\<rparr>)" by (rule o(1))
  then have f: "ata_frame s u" by (simp add: u)
  have uf: "io u = io s @ data" "mem u = mem s" "block_out DISK_CMD_WRITE a u = data"
    using o(2,3) ata_frame_fields(6) [OF f] by (simp_all add: u data_def block_in_def block_out_def cmd_port_def)
  show thesis
  proof (cases "bs = []")
    case True
    then have "?n = 1" using n by (simp add: word_unat_eq_iff)
    then have d: "transferred DISK_CMD_WRITE dr u" using o(4) by (simp add: u transferred_def)
    then have "ata_wait dr u = Inr u" unfolding ata_wait_def by (intro loop_done) (simp add: transferred_def)
    with d True show thesis using assms(4) f by (intro that [of u]) (simp_all add: uf)
  next
    case False
    then have "unat ?n \<noteq> 1" "unat ?n \<noteq> 0" using n by simp_all
    then have "?n \<noteq> 1" "?n \<noteq> 0" by auto
    then have m: "transferring DISK_CMD_WRITE dr u" "pending_requests u = pending_requests s"
      "length bs = unat (at_blocks_remaining (ata_transfer u))"
      using o(5) assms(1) n by (auto simp: u transferring_def unat_minus_one)
    have "dr_status (pending_requests u dr) \<noteq> DISK_STATUS_IO_SUCCESS" "a = dr_buffer (pending_requests u dr)"
      using assms(2,3) m(2) by simp_all
    from all_blocks [OF m(1) disjI2 [OF refl] this(1) False bs m(3) assms(4) this(2)] obtain x where
      "ata_wait dr u = Inr x" "inq x = rest" "ata_frame u x" "transferred DISK_CMD_WRITE dr x"
      "io x = io u @ concat (replicate (length bs) (data @ ata_eoi))" "mem x = mem u"
      unfolding uf(3) blocks_written by blast
    with that show thesis using ata_frame_trans [OF f] uf by auto
  qed
qed

text \<open>What is left of the call when the drive has the command.\<close>

lemma rest_of_write:
  assumes s: "transferring DISK_CMD_WRITE dr s" "dr_status (pending_requests s dr) \<noteq> DISK_STATUS_IO_SUCCESS"
    "a = dr_buffer (pending_requests s dr)" "unat (at_blocks_remaining (ata_transfer s)) = Suc (length (wa_blocks w))"
    and w: "write_answers_ok w" and slp: "sleeps_quietly slp"
    and i: "inq s = concat (tl (wa_busy w @ [wa_wants w])) @ wa_sent w @ concat (map block_values (wa_blocks w)) @
      wa_flush w @ concat (wa_flushing w) @ wa_flushed w @ wa_end w @ rest"
  defines "data \<equiv> block_out DISK_CMD_WRITE a s"
  shows "\<exists>z e. rest_of_request slp dr (ucast (last (hd (wa_busy w @ [wa_wants w])))) s = Inr (DISK_STATUS_IO_SUCCESS, z) \<and>
     inq z = rest \<and> transferred DISK_CMD_WRITE dr z \<and> mem z = mem s \<and>
     io z = io s @ e @ data @ concat (replicate (length (wa_blocks w)) (data @ ata_eoi)) @
       [Out (cmd_port ATA_CMD_COMMAND s) ATA7_FLUSH_CACHE, Puts ''\<newline>''] \<and> (\<exists>u v. slp 2 u = Inr v \<and> io v = io u @ e)"
proof -
  note w = w [unfolded write_answers_ok_def]
  define tail where "tail = wa_flush w @ concat (wa_flushing w) @ wa_flushed w @ wa_end w @ rest"
  define more where "more = concat (map block_values (wa_blocks w)) @ tail"
  from slp obtain v e where v: "slp 2 s = Inr v" "io v = io s @ e" "inq v = inq s" "mem v = mem s"
     "pending_requests v = pending_requests s" "current_pending_request v = current_pending_request s"
     "current_pending_transfer v = current_pending_transfer s" "ata_transfer v = ata_transfer s"
     "ata_cmd_blk_reg v = ata_cmd_blk_reg s"
    unfolding sleeps_quietly_def by blast
  have vs: "transferring DISK_CMD_WRITE dr v" "dr_status (pending_requests v dr) \<noteq> DISK_STATUS_IO_SUCCESS"
    "a = dr_buffer (pending_requests v dr)" "unat (at_blocks_remaining (ata_transfer v)) = Suc (length (wa_blocks w))"
    "inq v = concat (tl (wa_busy w @ [wa_wants w])) @ wa_sent w @ more"
    using s i by (simp_all add: transferring_def v more_def tail_def)
  have data: "block_out DISK_CMD_WRITE a v = data" by (simp add: data_def block_out_def cmd_port_def v)
  define u where "u = (block_over dr (block_moved DISK_CMD_WRITE a [] v))\<lparr>inq := more\<rparr>"
  have f: "ata_first_write (ucast (last (hd (wa_busy w @ [wa_wants w])))) v = Inr u"
    unfolding u_def vs(3) using w vs by (intro first_write refl) simp_all
  have "inq u = concat (map block_values (wa_blocks w)) @ tail" by (simp add: u_def more_def)
  from other_blocks [OF vs(1-3) this u_def vs(4)] w obtain x where
    x: "ata_wait dr u = Inr x" "inq x = tail" "ata_frame v x" "transferred DISK_CMD_WRITE dr x"
      "io x = io v @ data @ concat (replicate (length (wa_blocks w)) (data @ ata_eoi))" "mem x = mem v"
    unfolding data by metis
  define z where "z = x\<lparr>inq := rest, io := io x @ [Out (cmd_port ATA_CMD_COMMAND x) ATA7_FLUSH_CACHE, Puts ''\<newline>'']\<rparr>"
  have fl: "ata_flush_cache x = Inr z"
    unfolding z_def using w x(2) by (intro flush_ok) (simp_all add: tail_def)
  have "rest_of_request slp dr (ucast (last (hd (wa_busy w @ [wa_wants w])))) s = Inr (DISK_STATUS_IO_SUCCESS, z)"
    using s(1) x(4) by (simp add: rest_of_request_def transferring_def transferred_def v(1) f x(1) fl) (simp add: z_def)
  moreover have "cmd_port r x = cmd_port r s" for r
    using ata_frame_fields(6) [OF x(3)] v(9) by (simp add: cmd_port_def)
  ultimately show ?thesis
    using x(4-6) v(1,2) by (intro exI [of _ z] exI [of _ e] conjI exI [of _ s] exI [of _ v]) (simp_all add: z_def transferred_def v)
qed

lemma write_request:
  assumes q: "can_request DISK_CMD_WRITE (Suc (length (wa_blocks w))) dr c s" and w: "write_answers_ok w"
    and slp: "sleeps_quietly slp" and i: "inq s = write_values w @ rest"
  defines "data \<equiv> data_out (cmd_port ATA_CMD_BR_DATA s) (words_at 256 (dr_buffer (pending_requests s dr)) (mem s))"
  shows "\<exists>s' e. ata_request slp (Some dr) s = Inr (DISK_STATUS_IO_SUCCESS, s') \<and> inq s' = rest \<and>
     transferred DISK_CMD_WRITE dr s' \<and> mem s' = mem s \<and>
     io s' = io s @ Out (ctrl_port ATA_CTRL_DEV_CONTROL s) 0 #
       request_registers DISK_CMD_WRITE (dr_lba (pending_requests s dr)) s @ e @ data @
       concat (replicate (length (wa_blocks w)) (data @ ata_eoi)) @
       [Out (cmd_port ATA_CMD_COMMAND s) ATA7_FLUSH_CACHE, Puts ''\<newline>''] \<and> (\<exists>u v. slp 2 u = Inr v \<and> io v = io u @ e)"
proof -
  note a = w [unfolded write_answers_ok_def]
  define y where "y = hd (wa_busy w @ [wa_wants w])"
  define tail where "tail = concat (tl (wa_busy w @ [wa_wants w])) @ wa_sent w @ concat (map block_values (wa_blocks w)) @
      wa_flush w @ concat (wa_flushing w) @ wa_flushed w @ wa_end w @ rest"
  have y: "concat (wa_busy w @ [wa_wants w]) = y @ concat (tl (wa_busy w @ [wa_wants w]))"
    unfolding y_def by (cases "wa_busy w") simp_all
  have "length y = 6" using a by (cases "wa_busy w") (simp_all add: y_def reads_def wants_data_def)
  moreover have "inq s = concat (wa_not_ready w) @ wa_ready w @ wa_taken w @ y @ tail"
    using i unfolding write_values_def y by (simp add: tail_def)
  ultimately obtain t where
    t: "ata_request slp (Some dr) s = rest_of_request slp dr (ucast (last y)) t"
    "transferring DISK_CMD_WRITE dr t" "unat (at_blocks_remaining (ata_transfer t)) = Suc (length (wa_blocks w))"
    "inq t = tail" "mem t = mem s" "dr_status (pending_requests t dr) \<noteq> DISK_STATUS_IO_SUCCESS"
    "dr_buffer (pending_requests t dr) = dr_buffer (pending_requests s dr)"
    "io t = io s @ Out (ctrl_port ATA_CTRL_DEV_CONTROL s) 0 # request_registers DISK_CMD_WRITE (dr_lba (pending_requests s dr)) s"
    "ata_cmd_blk_reg t = ata_cmd_blk_reg s"
    using request_starts [OF q _ _ _ _ \<open>length y = 6\<close>, of "wa_not_ready w" "wa_ready w" "wa_taken w" tail slp] a
    by metis
  have "block_out DISK_CMD_WRITE (dr_buffer (pending_requests s dr)) t = data" "cmd_port r t = cmd_port r s" for r
    by (simp_all add: block_out_def data_def cmd_port_def t(5,9))
  then show ?thesis
    using rest_of_write [OF t(2,6) refl t(3) w slp t(4) [unfolded tail_def]] t(5,8)
    unfolding t(1,7) y_def by fastforce
qed

end
