(* ===== verification/Ata_Drive.thy ===== *)
theory Ata_Drive
  imports Ata_Laws
begin

text \<open>
  A drive at the other end of the ports: what it understands of the driver's writes, and so what it
  stores and what it sends back.
\<close>

section \<open>The drive\<close>

text \<open>
  The registers that address a sector, the words it has taken of a sector that is being written, the
  words it has to send, and its sectors.
\<close>

record drive =
  d_select :: u32
  d_low :: u32
  d_mid :: u32
  d_high :: u32
  d_taken :: "(u32 \<times> u16 list) option"
  d_sends :: "u16 list"
  d_store :: "u32 \<Rightarrow> u16 list"

text \<open>The address of 28 bits that is in the registers.\<close>

definition addressed :: "drive \<Rightarrow> u32" where
  "addressed d = push_bit 24 (d_select d AND 0x0f) OR push_bit 16 (d_high d AND 0xff) OR push_bit 8 (d_mid d AND 0xff) OR (d_low d AND 0xff)"

definition take_word :: "u16 \<Rightarrow> drive \<Rightarrow> drive" where
  "take_word w d = (case d_taken d of
     None \<Rightarrow> d
   | Some (a, ws) \<Rightarrow> if length ws = 255 then d\<lparr>d_taken := None, d_store := (d_store d)(a := ws @ [w])\<rparr>
                     else d\<lparr>d_taken := Some (a, ws @ [w])\<rparr>)"

definition take_command :: "u32 \<Rightarrow> drive \<Rightarrow> drive" where
  "take_command v d =
     (if v = ATA7_READ_SECTORS then d\<lparr>d_sends := d_store d (addressed d), d_taken := None\<rparr>
      else if v = ATA7_WRITE_SECTORS then d\<lparr>d_taken := Some (addressed d, [])\<rparr>
      else d)"

fun drive_hears :: "io_event \<Rightarrow> drive \<Rightarrow> drive" where
  "drive_hears (Out p v) d =
     (if p = 0x1f0 then take_word (ucast v) d
      else if p = 0x1f3 then d\<lparr>d_low := v\<rparr>
      else if p = 0x1f4 then d\<lparr>d_mid := v\<rparr>
      else if p = 0x1f5 then d\<lparr>d_high := v\<rparr>
      else if p = 0x1f6 then d\<lparr>d_select := v\<rparr>
      else if p = 0x1f7 then take_command v d
      else d)"
| "drive_hears e d = d"

abbreviation drive_run :: "io_event list \<Rightarrow> drive \<Rightarrow> drive" where
  "drive_run \<equiv> fold drive_hears"

text \<open>Events that are none of the drive's business.\<close>

fun off_drive :: "io_event \<Rightarrow> bool" where
  "off_drive (Out p v) \<longleftrightarrow> p \<notin> {0x1f0, 0x1f3, 0x1f4, 0x1f5, 0x1f6, 0x1f7}"
| "off_drive e \<longleftrightarrow> True"

lemma drive_hears_off: "off_drive e \<Longrightarrow> drive_hears e d = d"
  by (cases e) auto

lemma drive_run_off [simp]: "list_all off_drive es \<Longrightarrow> drive_run es d = d"
  by (induction es arbitrary: d) (simp_all add: drive_hears_off)

section \<open>What it takes\<close>

lemma drive_takes:
  "d_taken d = Some (a, ws) \<Longrightarrow> length ws + length vs = 256 \<Longrightarrow> vs \<noteq> [] \<Longrightarrow>
     drive_run (data_out 0x1f0 vs) d = d\<lparr>d_taken := None, d_store := (d_store d)(a := ws @ vs)\<rparr>"
proof (induction vs arbitrary: d ws)
  case (Cons v vs)
  have w: "(ucast (ucast v :: u32) :: u16) = v" by (rule bit_word_eqI) (simp add: bit_simps)
  show ?case
  proof (cases "vs = []")
    case True
    then show ?thesis using Cons.prems by (simp add: data_out_def w take_word_def fun_upd_def)
  next
    case False
    let ?d = "d\<lparr>d_taken := Some (a, ws @ [v])\<rparr>"
    have "length ws \<noteq> 255" using Cons.prems False by (cases vs) auto
    then have "drive_run (data_out 0x1f0 (v # vs)) d = drive_run (data_out 0x1f0 vs) ?d"
      using Cons.prems by (simp add: data_out_def w take_word_def)
    also have "\<dots> = d\<lparr>d_taken := None, d_store := (d_store d)(a := ws @ v # vs)\<rparr>"
      using Cons.IH [of ?d "ws @ [v]"] Cons.prems False by (simp add: fun_upd_def)
    finally show ?thesis .
  qed
qed simp

text \<open>The sector that the driver addresses for a block number: it leaves out the bits 8 to 23.\<close>

definition sector_of :: "u32 \<Rightarrow> u32" where
  "sector_of lba = lba AND 0x0f0000ff"

definition on_primary :: "kstate \<Rightarrow> bool" where
  "on_primary s \<longleftrightarrow> ata_cmd_blk_reg s = ATA_PRI_CMD_BLOCK_REG \<and> ata_ctrl_blk_reg s = ATA_PRI_CTRL_BLOCK_REG"

lemma primary_ports:
  assumes "on_primary s"
  shows "cmd_port 0 s = 0x1f0" "cmd_port 2 s = 0x1f2" "cmd_port 3 s = 0x1f3" "cmd_port 4 s = 0x1f4"
    "cmd_port 5 s = 0x1f5" "cmd_port 6 s = 0x1f6" "cmd_port 7 s = 0x1f7" "ctrl_port 6 s = 0x3f6"
  using assms by (simp_all add: on_primary_def cmd_port_def ctrl_port_def)

lemma sector_bits:
  "push_bit 24 ((0x50 OR (drop_bit 24 lba AND 0x0f)) AND 0x0f) OR (lba AND 0xff) = sector_of lba" for lba :: u32
proof -
  have e: "(0x50 OR (x AND 0x0f)) AND 0x0f = x AND 0x0f" for x :: u32
    by (simp add: bit.conj_disj_distrib2 and.assoc)
  have m: "(0x0f :: u32) = mask 4" "(0xff :: u32) = mask 8" "(0x0f0000ff :: u32) = push_bit 24 (mask 4) OR mask 8"
    by code_simp+
  show ?thesis unfolding sector_of_def e unfolding m by (rule bit_word_eqI) (auto simp: bit_simps)
qed

lemma drive_addressed:
  assumes "on_primary s"
  shows "\<exists>d'. drive_run (Out (ctrl_port ATA_CTRL_DEV_CONTROL s) 0 # request_registers cmd lba s) d =
      take_command (if cmd = DISK_CMD_READ then ATA7_READ_SECTORS else ATA7_WRITE_SECTORS) d' \<and>
      addressed d' = sector_of lba \<and> d_store d' = d_store d"
proof -
  let ?d = "d\<lparr>d_select := 0x50 OR (drop_bit 24 lba AND 0x0f), d_low := lba AND 0xff, d_mid := 0, d_high := 0\<rparr>"
  have "addressed ?d = sector_of lba"
    using sector_bits [of lba] by (simp add: addressed_def and.assoc)
  then show ?thesis
    by (intro exI [of _ ?d]) (simp add: request_registers_def primary_ports [OF assms])
qed

section \<open>A block that is written and read again\<close>

text \<open>The stub that the driver calls while it waits does not write to the drive.\<close>

definition spares_drive :: "(u32 \<Rightarrow> kstate \<Rightarrow> kstate outcome) \<Rightarrow> bool" where
  "spares_drive slp \<longleftrightarrow> (\<forall>u v e. slp 2 u = Inr v \<and> io v = io u @ e \<longrightarrow> list_all off_drive e)"

lemma drive_writes:
  assumes "on_primary s" "list_all off_drive e" "length ws = 256"
  shows "d_store (drive_run (Out (ctrl_port ATA_CTRL_DEV_CONTROL s) 0 # request_registers DISK_CMD_WRITE lba s @ e @
      data_out (cmd_port ATA_CMD_BR_DATA s) ws @ [Out (cmd_port ATA_CMD_COMMAND s) ATA7_FLUSH_CACHE, Puts m]) d) =
    (d_store d)(sector_of lba := ws)"
proof -
  from drive_addressed [OF assms(1), of DISK_CMD_WRITE lba d] obtain d' where
    d': "drive_run (request_registers DISK_CMD_WRITE lba s) (drive_hears (Out (ctrl_port ATA_CTRL_DEV_CONTROL s) 0) d) =
        d'\<lparr>d_taken := Some (sector_of lba, [])\<rparr>" "d_store d' = d_store d"
    by (auto simp: take_command_def)
  have "ws \<noteq> []" using assms(3) by auto
  then show ?thesis using d' assms
    by (simp add: primary_ports [OF assms(1)] drive_takes [of _ "sector_of lba" "[]" ws] take_command_def)
qed

lemma drive_reads:
  assumes "on_primary s"
  shows "d_sends (drive_run (Out (ctrl_port ATA_CTRL_DEV_CONTROL s) 0 # request_registers DISK_CMD_READ lba s @ ata_eoi) d) =
    d_store d (sector_of lba)"
proof -
  from drive_addressed [OF assms, of DISK_CMD_READ lba d] obtain d' where
    d': "drive_run (request_registers DISK_CMD_READ lba s) (drive_hears (Out (ctrl_port ATA_CTRL_DEV_CONTROL s) 0) d) =
        d'\<lparr>d_sends := d_store d' (sector_of lba), d_taken := None\<rparr>" "d_store d' = d_store d"
    by (auto simp: take_command_def)
  then show ?thesis by (simp add: ata_eoi_def)
qed

lemma block_comes_back:
  assumes w: "can_request DISK_CMD_WRITE 1 dr c s" "write_answers_ok w" "wa_blocks w = []"
    "sleeps_quietly slp" "spares_drive slp" "inq s = write_values w @ rest" "on_primary s"
    and r: "can_request DISK_CMD_READ 1 dr' c' t" "list_all drive_busy ps" "drive_ready rd" "length st = 6" "length st' = 6"
    "block_ok DISK_CMD_READ (b, sent, b')" "inq t = read_values ps rd st st' [(b, sent, b')] @ rest'" "on_primary t"
  defines "a \<equiv> dr_buffer (pending_requests s dr)" and "a' \<equiv> dr_buffer (pending_requests t dr')"
    and "n \<equiv> sector_of (dr_lba (pending_requests s dr))" and "n' \<equiv> sector_of (dr_lba (pending_requests t dr'))"
  shows "\<exists>s' t' W R. ata_request slp (Some dr) s = Inr (DISK_STATUS_IO_SUCCESS, s') \<and> io s' = io s @ W \<and>
     ata_request slp (Some dr') t = Inr (DISK_STATUS_IO_SUCCESS, t') \<and> io t' = io t @ R \<and>
     (\<forall>d. d_store (drive_run W d) = (d_store d)(n := words_at 256 a (mem s)) \<and>
        d_sends (drive_run R (drive_run W d)) = (if n' = n then words_at 256 a (mem s) else d_store d n') \<and>
        (n' = n \<and> sent = d_sends (drive_run R (drive_run W d)) \<longrightarrow>
           (\<forall>k < 512. mem t' (a' + of_nat k) = mem s (a + of_nat k))))"
proof -
  have "can_request DISK_CMD_WRITE (Suc (length (wa_blocks w))) dr c s" using w(1,3) by simp
  from write_request [OF this w(2,4,6)] w(3) obtain s' e where
    s': "ata_request slp (Some dr) s = Inr (DISK_STATUS_IO_SUCCESS, s')"
      "io s' = io s @ (Out (ctrl_port ATA_CTRL_DEV_CONTROL s) 0 #
         request_registers DISK_CMD_WRITE (dr_lba (pending_requests s dr)) s @ e @
         data_out (cmd_port ATA_CMD_BR_DATA s) (words_at 256 a (mem s)) @
         [Out (cmd_port ATA_CMD_COMMAND s) ATA7_FLUSH_CACHE, Puts ''\<newline>''])"
      "\<exists>u v. slp 2 u = Inr v \<and> io v = io u @ e"
    unfolding a_def by auto
  have e: "list_all off_drive e" using s'(3) w(5) unfolding spares_drive_def by blast
  obtain t' where t': "ata_request slp (Some dr') t = Inr (DISK_STATUS_IO_SUCCESS, t')" "mem t' = halfwords a' sent (mem t)"
    "io t' = io t @ (Out (ctrl_port ATA_CTRL_DEV_CONTROL t) 0 #
       request_registers DISK_CMD_READ (dr_lba (pending_requests t dr')) t @ ata_eoi)"
    using read_request [of "[(b, sent, b')]" dr' c' t ps rd st st' rest' slp] r(1-7) unfolding a'_def by auto
  let ?W = "Out (ctrl_port ATA_CTRL_DEV_CONTROL s) 0 # request_registers DISK_CMD_WRITE (dr_lba (pending_requests s dr)) s @ e @
     data_out (cmd_port ATA_CMD_BR_DATA s) (words_at 256 a (mem s)) @
     [Out (cmd_port ATA_CMD_COMMAND s) ATA7_FLUSH_CACHE, Puts ''\<newline>'']"
  let ?R = "Out (ctrl_port ATA_CTRL_DEV_CONTROL t) 0 # request_registers DISK_CMD_READ (dr_lba (pending_requests t dr')) t @ ata_eoi"
  have W: "d_store (drive_run ?W d) = (d_store d)(n := words_at 256 a (mem s))" for d
    unfolding n_def by (rule drive_writes [OF w(7) e]) simp
  have R: "d_sends (drive_run ?R (drive_run ?W d)) = (if n' = n then words_at 256 a (mem s) else d_store d n')" for d
    unfolding drive_reads [OF r(8)] W by (simp add: n'_def)
  have "mem t' (a' + of_nat k) = mem s (a + of_nat k)"
    if "n' = n \<and> sent = d_sends (drive_run ?R (drive_run ?W d))" "k < 512" for d k
  proof -
    have "sent = words_at 256 a (mem s)" using that(1) unfolding R by simp
    then show ?thesis unfolding t'(2) using that(2) by (simp only:) (rule words_move; simp)
  qed
  then show ?thesis using s'(1,2) t'(1,3) W R by (intro exI [of _ s'] exI [of _ t'] exI [of _ ?W] exI [of _ ?R] conjI) blast+
qed

end
