(* ===== verification/Ata_Examples.thy ===== *)
theory Ata_Examples
  imports Examples Ata_Laws
begin

text \<open>
  A process with a request for the disk, and a drive that is busy once before each answer: what
  the theorems about the driver assume can hold.
\<close>

definition demo_disk :: "u8 \<Rightarrow> u32 \<Rightarrow> u32 list \<Rightarrow> kstate" where
  "demo_disk cmd n vs = demo_base
     \<lparr>pending_requests := (\<lambda>_. zero_request\<lparr>dr_cmd := cmd, dr_nblocks := n, dr_buffer := 0x5000\<rparr>),
      inq := vs, mem := ucast\<rparr>"

lemma demo_can_request: "unat n = m \<Longrightarrow> can_request cmd m dr 1 (demo_disk cmd n vs)"
proof -
  assume n: "unat n = m"
  have same: "queues (demo_disk cmd n vs) = queues demo_base" "qnodes (demo_disk cmd n vs) = qnodes demo_base"
    "free_qnodes (demo_disk cmd n vs) = free_qnodes demo_base"
    by (simp_all add: demo_disk_def)
  note q = q_repr_cong [OF same]
  show ?thesis using n unfolding can_request_def q same
    by (simp add: demo_base_queues N_QNODES_def) (simp add: demo_disk_def)
qed

definition drive_status :: "u32 list" where
  "drive_status = replicate 6 0x48"

lemma drive_status_ok [simp]:
  "length drive_status = 6" "drive_ready drive_status" "wants_data drive_status"
  "block_ok DISK_CMD_READ (drive_status, ws, drive_status) \<longleftrightarrow> length ws = 256"
  "block_ok DISK_CMD_WRITE (drive_status, ws, drive_status) \<longleftrightarrow> ws = []"
  "last drive_status = 0x48" "reads P drive_status \<longleftrightarrow> P 0x48"
  by (simp_all add: drive_status_def drive_ready_def wants_data_def reads_def)

lemma demo_busy_ok [simp]: "drive_busy (replicate 6 0x80)" "reads busy (replicate 6 0x80)"
  by (simp_all add: drive_busy_def reads_def)

text \<open>The answers to a write of \<open>Suc k\<close> blocks.\<close>

definition demo_answers :: "nat \<Rightarrow> write_answers" where
  "demo_answers k =
     \<lparr>wa_not_ready = [replicate 6 0x80], wa_ready = drive_status, wa_taken = drive_status,
      wa_busy = [replicate 6 0x80], wa_wants = drive_status, wa_sent = drive_status,
      wa_blocks = replicate k (drive_status, [], drive_status), wa_flush = drive_status,
      wa_flushing = [replicate 6 0x80], wa_flushed = drive_status, wa_end = drive_status\<rparr>"

lemma demo_answers_ok: "write_answers_ok (demo_answers k)"
  by (simp add: write_answers_ok_def demo_answers_def list_all_iff)

lemma sleeps_quietly_skip: "sleeps_quietly (\<lambda>_. Inr)"
  by (simp add: sleeps_quietly_def)

end
