(* ===== verification/Pci.thy ===== *)
theory Pci
  imports Ata
begin

text \<open>
  pci.c: the configuration space of the PCI bus through its two ports, the search for a
  device, and the search for a BIOS32 service directory in the memory.
\<close>

section \<open>Constants\<close>

abbreviation (input) PCI_CONFIG_ADDR_REGISTER :: u32 where "PCI_CONFIG_ADDR_REGISTER \<equiv> 0x0cf8"
abbreviation (input) PCI_CONFIG_DATA_REGISTER :: u32 where "PCI_CONFIG_DATA_REGISTER \<equiv> 0x0cfc"
abbreviation (input) PCI_READ_CONFIG_BYTE :: u8 where "PCI_READ_CONFIG_BYTE \<equiv> 0x08"
abbreviation (input) PCI_READ_CONFIG_WORD :: u8 where "PCI_READ_CONFIG_WORD \<equiv> 0x09"
abbreviation (input) PCI_READ_CONFIG_DWORD :: u8 where "PCI_READ_CONFIG_DWORD \<equiv> 0x0a"
abbreviation (input) PCI_WRITE_CONFIG_BYTE :: u8 where "PCI_WRITE_CONFIG_BYTE \<equiv> 0x0b"
abbreviation (input) PCI_WRITE_CONFIG_WORD :: u8 where "PCI_WRITE_CONFIG_WORD \<equiv> 0x0c"
abbreviation (input) PCI_WRITE_CONFIG_DWORD :: u8 where "PCI_WRITE_CONFIG_DWORD \<equiv> 0x0d"

text \<open>The ports that are a word of 32 bits wide.\<close>

definition outl :: "u32 \<Rightarrow> u32 \<Rightarrow> kstate \<Rightarrow> kstate" where
  "outl port v s = s\<lparr>io := io s @ [Out port v]\<rparr>"

definition inl :: "u32 \<Rightarrow> u32 kop" where
  "inl port s = (case inq s of
       [] \<Rightarrow> Inl Hang
     | v # vs \<Rightarrow> Inr (v, s\<lparr>inq := vs\<rparr>))"

section \<open>The configuration space\<close>

text \<open>The shifts of the bus, device and function numbers are in \<open>int\<close> and are not masked.\<close>

definition config_address :: "u16 \<Rightarrow> u16 \<Rightarrow> u16 \<Rightarrow> u16 \<Rightarrow> u32" where
  "config_address bus device function reg_offset =
     0x80000000 OR (push_bit 16 (ucast bus) OR push_bit 11 (ucast device) OR push_bit 8 (ucast function)) OR
     ucast (reg_offset AND 0xfc)"

definition pci_set_config_addr_state :: "u16 \<Rightarrow> u16 \<Rightarrow> u16 \<Rightarrow> u16 \<Rightarrow> kstate \<Rightarrow> u32 \<times> kstate" where
  "pci_set_config_addr_state bus device function reg_offset s =
     (let config_addr = config_address bus device function reg_offset;
          s = s\<lparr>config_addr_reg_state := config_addr\<rparr>;
          s = outl PCI_CONFIG_ADDR_REGISTER config_addr s
      in (config_addr, s))"

text \<open>The cases for the remainder 4 are never taken, and for 3 the result was never set.\<close>

definition pci_read_config_data :: "u16 \<Rightarrow> u16 \<Rightarrow> u16 \<Rightarrow> u16 \<Rightarrow> u8 \<Rightarrow> u32 kop" where
  "pci_read_config_data bus device function reg_offset read_mode s =
     (case pci_set_config_addr_state bus device function reg_offset s of (config_addr, s) \<Rightarrow>
        bindE (inl PCI_CONFIG_DATA_REGISTER s) (\<lambda>(config_data, s).
          if read_mode = PCI_READ_CONFIG_BYTE then
            if reg_offset mod 4 = 0 then Inr (ucast (ucast (drop_bit 24 config_data AND 0xff) :: u8), s)
            else if reg_offset mod 4 = 1 then Inr (ucast (ucast (drop_bit 16 config_data AND 0xff) :: u8), s)
            else if reg_offset mod 4 = 2 then Inr (ucast (ucast (drop_bit 8 config_data AND 0xff) :: u8), s)
            else if reg_offset mod 4 = 4 then Inr (ucast (ucast (config_data AND 0xff) :: u8), s)
            else Inl (Unset ''config_data_byte'')
          else if read_mode = PCI_READ_CONFIG_WORD then
            if reg_offset mod 4 = 0 then Inr (ucast (ucast (drop_bit 16 config_data AND 0xffff) :: u16), s)
            else if reg_offset mod 4 = 1 then Inr (ucast (ucast (drop_bit 8 config_data AND 0xffff) :: u16), s)
            else if reg_offset mod 4 = 2 then Inr (ucast (ucast (config_data AND 0xffff) :: u16), s)
            else if reg_offset mod 4 = 4 then
              Inr (ucast (0xffff :: u16), c_puts ''ERROR: PCI: invalid configuration read\<newline>'' s)
            else Inl (Unset ''config_data_word'')
          else if read_mode = PCI_READ_CONFIG_DWORD then
            if reg_offset mod 4 \<noteq> 0 then
              Inr (0, c_printf ''ERROR: PCI: invalid configuration read offset [ 0x%02x ]\<newline>'' [ucast reg_offset] s)
            else Inr (config_data, s)
          else Inr (0, c_printf ''ERROR: PCI: invalid configuration read mode [ 0x%02x ]\<newline>'' [ucast read_mode] s)))"

definition pci_write_config_data :: "u16 \<Rightarrow> u16 \<Rightarrow> u16 \<Rightarrow> u16 \<Rightarrow> u8 \<Rightarrow> u32 \<Rightarrow> kstate \<Rightarrow> kstate" where
  "pci_write_config_data bus device function reg_offset write_mode data s =
     (case pci_set_config_addr_state bus device function reg_offset s of (config_addr, s) \<Rightarrow>
        if write_mode = PCI_WRITE_CONFIG_BYTE then outb PCI_CONFIG_DATA_REGISTER (data AND 0xff) s
        else if write_mode = PCI_WRITE_CONFIG_WORD then outw PCI_CONFIG_DATA_REGISTER (ucast (data AND 0xffff)) s
        else if write_mode = PCI_WRITE_CONFIG_DWORD then outl PCI_CONFIG_DATA_REGISTER data s
        else c_printf ''ERROR: PCI: invalid configuration write mode [ 0x%02x ]\<newline>'' [ucast write_mode] s)"

section \<open>Finding a device\<close>

text \<open>The three loops, each with the number of rounds it has left.\<close>

fun find_function :: "nat \<Rightarrow> u16 \<Rightarrow> u16 \<Rightarrow> u16 \<Rightarrow> u16 \<Rightarrow> u8 \<Rightarrow> (pci_dev_t option) kop" where
  "find_function 0 vendor device bus slot func s = Inr (None, s)"
| "find_function (Suc n) vendor device bus slot func s =
     bindE (pci_read_config_data bus slot (ucast func) 0x00 PCI_READ_CONFIG_WORD s) (\<lambda>(dev_id, s).
       bindE (pci_read_config_data bus slot (ucast func) 0x02 PCI_READ_CONFIG_WORD s) (\<lambda>(vend_id, s).
         if vendor = ucast vend_id \<and> device = ucast dev_id then
           Inr (Some \<lparr>pci_bus = ucast bus, pci_device = ucast slot, pci_function = ucast func\<rparr>, s)
         else find_function n vendor device bus slot (func + 1) s))"

fun find_slot :: "nat \<Rightarrow> u16 \<Rightarrow> u16 \<Rightarrow> u16 \<Rightarrow> u16 \<Rightarrow> (pci_dev_t option) kop" where
  "find_slot 0 vendor device bus slot s = Inr (None, s)"
| "find_slot (Suc n) vendor device bus slot s =
     bindE (find_function 0xff vendor device bus slot 0 s) (\<lambda>(dev, s).
       case dev of Some d \<Rightarrow> Inr (Some d, s) | None \<Rightarrow> find_slot n vendor device bus (slot + 1) s)"

fun find_bus :: "nat \<Rightarrow> u16 \<Rightarrow> u16 \<Rightarrow> u16 \<Rightarrow> (pci_dev_t option) kop" where
  "find_bus 0 vendor device bus s = Inr (None, s)"
| "find_bus (Suc n) vendor device bus s =
     bindE (find_slot 0xffff vendor device bus 0 s) (\<lambda>(dev, s).
       case dev of Some d \<Rightarrow> Inr (Some d, s) | None \<Rightarrow> find_bus n vendor device (bus + 1) s)"

definition pci_find_device :: "u16 \<Rightarrow> u16 \<Rightarrow> pci_dev_t kop" where
  "pci_find_device vendor device s =
     bindE (find_bus 0xffff vendor device 0 s) (\<lambda>(dev, s).
       case dev of
         Some d \<Rightarrow> Inr (d, s)
       | None \<Rightarrow> Inr (\<lparr>pci_bus = 0xffffffff, pci_device = 0xffffffff, pci_function = 0xffffffff\<rparr>, s))"

section \<open>The BIOS32 service directory\<close>

text \<open>The check sum adds words of 32 bits, \<open>i\<close> of them from \<open>a\<close> on.\<close>

fun bios_crc :: "nat \<Rightarrow> u32 \<Rightarrow> u32 \<Rightarrow> kstate \<Rightarrow> u32" where
  "bios_crc 0 a crc s = crc"
| "bios_crc (Suc n) a crc s = bios_crc n (a + 4) (crc + ld32 a s) s"

text \<open>There are 8192 paragraphs from e0000h to fffffh, and one more round to see the end.\<close>

fun find_bios_loop :: "nat \<Rightarrow> u32 \<Rightarrow> u32 \<Rightarrow> u32 kop" where
  "find_bios_loop 0 signature loc s = Inl Hang"
| "find_bios_loop (Suc fuel) signature loc s =
     (if loc \<le> 0xfffff then
        if signature = ld32 loc s then
          let s = c_printf ''\<newline>PCI: BIOS32 service directory found at 0x%06x\<newline>'' [loc] s;
              crc = bios_crc (unat (ld8 (loc + 9) s) * 16) loc 0 s;
              s = (if crc \<noteq> 0 then c_puts ''\<newline>ERROR: PCI: failed BIOS service directory CRC\<newline>'' s else s)
          in Inr (loc, s)
        else find_bios_loop fuel signature (loc + 0x10) s
      else
        Inr (0, c_printf ''\<newline>ERROR: PCI: BIOS32 service [ 0x%8x ] directory NOT found\<newline>'' [signature] s))"

definition find_bios_sd :: "u32 \<Rightarrow> u32 kop" where
  "find_bios_sd signature = find_bios_loop 8193 signature 0xe0000"

section \<open>What the search finds\<close>

text \<open>
  The search starts with the functions 0 to 254 of device 0 on bus 0.  The hardware has only
  eight functions in a device, and what goes beyond runs into the bits of the device number.
\<close>

lemma config_address_function:
  assumes "func < 256"
  shows "config_address 0 0 func reg = config_address 0 (drop_bit 3 func) (func AND 7) reg"
proof -
  have m: "(7 :: u16) = mask 3" by code_simp
  have "push_bit 8 (ucast func) = push_bit 11 (ucast (drop_bit 3 func)) OR push_bit 8 (ucast (func AND 7) :: u32)"
    unfolding m
  proof (rule bit_word_eqI)
    fix n assume "n < LENGTH(32)"
    then show "bit (push_bit 8 (ucast func) :: u32) n =
      bit (push_bit 11 (ucast (drop_bit 3 func)) OR push_bit 8 (ucast (func AND mask 3) :: u32)) n"
      using bit_imp_le_length [of func "n - 8"]
      by (cases "n < 11") (auto simp: bit_simps)
  qed
  then show ?thesis by (simp add: config_address_def)
qed

text \<open>The words that the two reads of a probe get.\<close>

definition probe_matches :: "u16 \<Rightarrow> u16 \<Rightarrow> u32 \<times> u32 \<Rightarrow> bool" where
  "probe_matches vendor device = (\<lambda>(a, b). device = ucast (drop_bit 16 a) \<and> vendor = ucast b)"

fun probe_values :: "(u32 \<times> u32) list \<Rightarrow> u32 list" where
  "probe_values [] = []"
| "probe_values ((a, b) # ps) = a # b # probe_values ps"

text \<open>Only the ports and the copy of the address register have changed.\<close>

definition pci_frame :: "kstate \<Rightarrow> kstate \<Rightarrow> bool" where
  "pci_frame s t \<longleftrightarrow> t\<lparr>inq := inq s, io := io s, config_addr_reg_state := config_addr_reg_state s\<rparr> = s"

lemma pci_read_word:
  assumes "inq s = v # vs"
  shows "\<exists>t. pci_read_config_data bus device function 0 PCI_READ_CONFIG_WORD s = Inr (ucast (ucast (drop_bit 16 v) :: u16), t) \<and>
       inq t = vs \<and> pci_frame s t"
    "\<exists>t. pci_read_config_data bus device function 2 PCI_READ_CONFIG_WORD s = Inr (ucast (ucast v :: u16), t) \<and>
       inq t = vs \<and> pci_frame s t"
proof -
  have m: "(0xffff :: u32) = mask 16" by code_simp
  have h: "(ucast (x AND 0xffff) :: u16) = ucast x" for x :: u32
    unfolding m by (rule bit_word_eqI) (auto simp: bit_simps)
  show "\<exists>t. pci_read_config_data bus device function 0 PCI_READ_CONFIG_WORD s = Inr (ucast (ucast (drop_bit 16 v) :: u16), t) \<and>
       inq t = vs \<and> pci_frame s t"
    "\<exists>t. pci_read_config_data bus device function 2 PCI_READ_CONFIG_WORD s = Inr (ucast (ucast v :: u16), t) \<and>
       inq t = vs \<and> pci_frame s t"
    using assms
    by (simp_all add: pci_read_config_data_def pci_set_config_addr_state_def Let_def inl_def outl_def h pci_frame_def)
qed

lemma pci_frame_trans: "pci_frame s t \<Longrightarrow> pci_frame t u \<Longrightarrow> pci_frame s u"
  by (cases s; cases t; cases u) (simp add: pci_frame_def)

lemma pci_frameE:
  assumes "pci_frame s t"
  obtains i e c where "t = s\<lparr>inq := i, io := e, config_addr_reg_state := c\<rparr>"
proof -
  have "t = (t\<lparr>inq := inq s, io := io s, config_addr_reg_state := config_addr_reg_state s\<rparr>)
      \<lparr>inq := inq t, io := io t, config_addr_reg_state := config_addr_reg_state t\<rparr>" by simp
  with assms show thesis using that unfolding pci_frame_def by metis
qed

lemma find_function_ok:
  assumes "\<forall>p \<in> set ps. \<not> probe_matches vendor device p" "probe_matches vendor device m" "length ps < n"
    and "inq s = probe_values (ps @ [m]) @ rest"
  shows "\<exists>t. find_function n vendor device bus slot func s =
      Inr (Some \<lparr>pci_bus = ucast bus, pci_device = ucast slot, pci_function = ucast (func + of_nat (length ps))\<rparr>, t) \<and>
     inq t = rest \<and> pci_frame s t"
  using assms
proof (induction ps arbitrary: n func s)
  case Nil
  obtain a b where m: "m = (a, b)" by (cases m)
  obtain k where n: "n = Suc k" using Nil.prems(3) by (cases n) auto
  have u: "(ucast (ucast (w :: u16) :: u32) :: u16) = w" for w by (rule bit_word_eqI) (simp add: bit_simps)
  from Nil.prems(4) have i: "inq s = a # b # rest" by (simp add: m)
  from pci_read_word(1) [OF i, of bus slot "ucast func"] obtain t where
    t: "pci_read_config_data bus slot (ucast func) 0 PCI_READ_CONFIG_WORD s = Inr (ucast (ucast (drop_bit 16 a) :: u16), t)"
      "inq t = b # rest" "pci_frame s t" by blast
  from pci_read_word(2) [OF t(2), of bus slot "ucast func"] obtain v where
    v: "pci_read_config_data bus slot (ucast func) 2 PCI_READ_CONFIG_WORD t = Inr (ucast (ucast b :: u16), v)"
      "inq v = rest" "pci_frame t v" by blast
  show ?case using Nil.prems(2) t v pci_frame_trans [OF t(3) v(3)] by (auto simp: n m probe_matches_def u)
next
  case (Cons p ps)
  obtain a b where p: "p = (a, b)" by (cases p)
  obtain k where n: "n = Suc k" using Cons.prems(3) by (cases n) auto
  have u: "(ucast (ucast (w :: u16) :: u32) :: u16) = w" for w by (rule bit_word_eqI) (simp add: bit_simps)
  from Cons.prems(4) have i: "inq s = a # b # probe_values (ps @ [m]) @ rest" by (simp add: p)
  from pci_read_word(1) [OF i, of bus slot "ucast func"] obtain t where
    t: "pci_read_config_data bus slot (ucast func) 0 PCI_READ_CONFIG_WORD s = Inr (ucast (ucast (drop_bit 16 a) :: u16), t)"
      "inq t = b # probe_values (ps @ [m]) @ rest" "pci_frame s t" by blast
  from pci_read_word(2) [OF t(2), of bus slot "ucast func"] obtain v where
    v: "pci_read_config_data bus slot (ucast func) 2 PCI_READ_CONFIG_WORD t = Inr (ucast (ucast b :: u16), v)"
      "inq v = probe_values (ps @ [m]) @ rest" "pci_frame t v" by blast
  have s: "find_function n vendor device bus slot func s = find_function k vendor device bus slot (func + 1) v"
    using Cons.prems(1) t(1) v(1) by (auto simp: n p probe_matches_def u)
  have "length ps < k" using Cons.prems(3) n by simp
  from Cons.IH [OF _ Cons.prems(2) this v(2), of "func + 1"] Cons.prems(1) obtain w where
    w: "find_function k vendor device bus slot (func + 1) v =
      Inr (Some \<lparr>pci_bus = ucast bus, pci_device = ucast slot, pci_function = ucast (func + 1 + of_nat (length ps))\<rparr>, w)"
      "inq w = rest" "pci_frame v w" by auto
  show ?case unfolding s using w pci_frame_trans [OF pci_frame_trans [OF t(3) v(3)] w(3)] by (simp add: add_ac)
qed

lemma pci_find_device_ok:
  assumes "\<forall>p \<in> set ps. \<not> probe_matches vendor device p" "probe_matches vendor device m" "length ps < 255"
    and "inq s = probe_values (ps @ [m]) @ rest"
  obtains t where "pci_find_device vendor device s =
      Inr (\<lparr>pci_bus = 0, pci_device = 0, pci_function = of_nat (length ps)\<rparr>, t)" "inq t = rest" "pci_frame s t"
proof -
  from find_function_ok [OF assms, of 0 0 0] obtain t where
    t: "find_function 255 vendor device 0 0 0 s =
      Inr (Some \<lparr>pci_bus = 0, pci_device = 0, pci_function = ucast (of_nat (length ps) :: u8)\<rparr>, t)"
      "inq t = rest" "pci_frame s t" by auto
  have "(ucast (of_nat (length ps) :: u8) :: u32) = of_nat (length ps)"
    using assms(3) by (simp add: word_unat_eq_iff unsigned_ucast_eq unsigned_of_nat take_bit_nat_eq_self)
  moreover have "find_slot (Suc k) vendor device 0 0 s = Inr (Some \<lparr>pci_bus = 0, pci_device = 0,
      pci_function = ucast (of_nat (length ps) :: u8)\<rparr>, t)" for k using t(1) by simp
  then have "find_slot 0xffff vendor device 0 0 s = Inr (Some \<lparr>pci_bus = 0, pci_device = 0,
      pci_function = ucast (of_nat (length ps) :: u8)\<rparr>, t)" by (metis numeral_eq_Suc)
  then have "find_bus (Suc k) vendor device 0 s = Inr (Some \<lparr>pci_bus = 0, pci_device = 0,
      pci_function = ucast (of_nat (length ps) :: u8)\<rparr>, t)" for k by simp
  then have "find_bus 0xffff vendor device 0 s = Inr (Some \<lparr>pci_bus = 0, pci_device = 0,
      pci_function = ucast (of_nat (length ps) :: u8)\<rparr>, t)" by (metis numeral_eq_Suc)
  ultimately show thesis using that t(2,3) by (simp add: pci_find_device_def)
qed

text \<open>The search for the service directory always ends.\<close>

lemma find_bios_loop_ends:
  "unat loc + 16 * n = 0x100000 \<Longrightarrow> \<exists>r t. find_bios_loop (Suc n) signature loc s = Inr (r, t)"
proof (induction n arbitrary: loc)
  case 0
  then have "\<not> loc \<le> 0xfffff" by (simp add: word_le_nat_alt)
  then show ?case by simp
next
  case (Suc n)
  have "unat (loc + 0x10) = unat loc + 16" using Suc.prems by (subst unat_add_lem [THEN iffD1]) simp_all
  then have "unat (loc + 0x10) + 16 * n = 0x100000" using Suc.prems by simp
  from Suc.IH [OF this] obtain r t where "find_bios_loop (Suc n) signature (loc + 0x10) s = Inr (r, t)" by blast
  then show ?case by (subst find_bios_loop.simps) (simp add: Let_def del: find_bios_loop.simps)
qed

lemma find_bios_sd_ends: "\<exists>r t. find_bios_sd signature s = Inr (r, t)"
proof -
  have n: "(8193 :: nat) = Suc 8192" by simp
  show ?thesis unfolding find_bios_sd_def n by (rule find_bios_loop_ends) simp
qed

end
