(* ===== verification/Devices.thy ===== *)
theory Devices
  imports Pci
begin

text \<open>
  device.c, ide.c and the start of disk.c: the handles through which a process reaches a disk,
  and the initialisation of the devices, which goes from \<open>_dev_init\<close> through the PCI and the
  IDE module to the disk module and the driver.
\<close>

section \<open>Constants\<close>

abbreviation (input) DEV_MAX_DEVICES :: nat where "DEV_MAX_DEVICES \<equiv> 256"
abbreviation (input) ICH5_IDE_CTRL_VENDOR_ID :: u16 where "ICH5_IDE_CTRL_VENDOR_ID \<equiv> 0x8086"
abbreviation (input) ICH5_IDE_CTRL_DEVICE_ID :: u16 where "ICH5_IDE_CTRL_DEVICE_ID \<equiv> 0x24db"

section \<open>Initialisation\<close>

definition disk_init :: "pci_dev_t \<Rightarrow> kstate \<Rightarrow> kstate" where
  "disk_init ide_ctrl s =
     (let s = s\<lparr>ide_controller := (ide_controller s)\<lparr>pci_bus := pci_bus ide_ctrl\<rparr>\<rparr>;
          s = s\<lparr>ide_controller := (ide_controller s)\<lparr>pci_device := pci_device ide_ctrl\<rparr>\<rparr>;
          s = s\<lparr>ide_controller := (ide_controller s)\<lparr>pci_function := pci_function ide_ctrl\<rparr>\<rparr>;
          s = q_reset (Some Ramdisk_io_pending) None s;
          s = q_reset (Some Ata_io_pending) None s;
          s = s\<lparr>pending_requests := (\<lambda>i. if i < DISK_MAX_REQUESTS then zero_request else pending_requests s i)\<rparr>;
          s = s\<lparr>free_disk_requests := None\<rparr>;
          s = fold (\<lambda>i. disk_dealloc_request (Some i)) [0..<DISK_MAX_REQUESTS] s;
          s = c_puts '' disk:'' s
      in ata_init DEV_IDE_PRI s)"

text \<open>The command word that \<open>_ide_init\<close> puts together is not used.\<close>

definition ide_init :: "kstate \<Rightarrow> kstate outcome" where
  "ide_init s =
     bindE (pci_find_device ICH5_IDE_CTRL_VENDOR_ID ICH5_IDE_CTRL_DEVICE_ID s) (\<lambda>(ide_controller, s).
       Inr (c_puts '' ide'' (disk_init ide_controller s)))"

definition pci_init :: "kstate \<Rightarrow> kstate outcome" where
  "pci_init s = bindE (ide_init s) (\<lambda>s. Inr (c_puts '' pci'' s))"

definition dev_init :: "kstate \<Rightarrow> kstate outcome" where
  "dev_init s =
     (let s = s\<lparr>device_handles := (\<lambda>i. if i < DEV_MAX_DEVICES then zero_device else device_handles s i)\<rparr>;
          s = s\<lparr>free_device_handles := None\<rparr>;
          s = fold (\<lambda>i. dev_dealloc_handle (Some i)) [0..<DEV_MAX_DEVICES] s;
          s = c_puts '' device'' s
      in pci_init s)"

section \<open>Handles\<close>

definition dev_open :: "u8 \<Rightarrow> kstate \<Rightarrow> nat option \<times> kstate" where
  "dev_open device_num s =
     (case dev_alloc_handle s of
        (None, s) \<Rightarrow> (None, c_puts ''ERROR: device: unable to allocate a device handle\<newline>'' s)
      | (Some dev, s) \<Rightarrow>
          if device_num = DEV_RAMDISK then (Some dev, snd (rd_open (Some dev) s))
          else if device_num = DEV_IDE_PRI then (Some dev, snd (ata_open (Some dev) s))
          else if device_num = DEV_IDE_SEC then
            (Some dev, c_puts ''ERROR: DEVICE: secondary IDE channel unavailable\<newline>'' s)
          else (Some dev, c_printf ''ERROR: device: invalid device number %d\<newline>'' [ucast device_num] s))"

text \<open>Both closing functions give the handle back, and \<open>_dev_close\<close> does so again.\<close>

definition dev_close :: "nat option \<Rightarrow> kstate \<Rightarrow> kstate outcome" where
  "dev_close dev s =
     (case dev of
        None \<Rightarrow> Inr s
      | Some d \<Rightarrow>
          let ident = dev_identifier (device_handles s d) in
          bindE
            (if ident = DEV_RAMDISK then rd_close (Some d) s
             else if ident = DEV_IDE_PRI then Inr (ata_close d s)
             else if ident = DEV_IDE_SEC then Inr s
             else Inr (c_printf ''ERROR: device: unable to close invalid device %d\<newline>'' [ucast ident] s))
            (\<lambda>s. Inr (dev_dealloc_handle (Some d) s)))"

section \<open>The start of the modules\<close>

lemma fold_requests:
  "\<exists>r f. fold (\<lambda>i. disk_dealloc_request (Some i)) is s = s\<lparr>pending_requests := r, free_disk_requests := f\<rparr>"
proof (induction "is" arbitrary: s)
  case Nil
  have "s = s\<lparr>pending_requests := pending_requests s, free_disk_requests := free_disk_requests s\<rparr>" by simp
  then show ?case unfolding fold.simps id_apply by blast
next
  case (Cons i "is")
  from Cons.IH [of "disk_dealloc_request (Some i) s"] show ?case
    by (auto simp: disk_dealloc_request_def set_request_def Let_def)
qed

lemma fold_handles:
  "\<exists>r f. fold (\<lambda>i. dev_dealloc_handle (Some i)) is s = s\<lparr>device_handles := r, free_device_handles := f\<rparr>"
proof (induction "is" arbitrary: s)
  case Nil
  have "s = s\<lparr>device_handles := device_handles s, free_device_handles := free_device_handles s\<rparr>" by simp
  then show ?case unfolding fold.simps id_apply by blast
next
  case (Cons i "is")
  from Cons.IH [of "dev_dealloc_handle (Some i) s"] show ?case
    by (auto simp: dev_dealloc_handle_def set_device_def Let_def)
qed

text \<open>
  \<open>_dev_init\<close> with a controller among the first 255 functions: the controller is reported as a
  function of device 0, and all handles and requests are free.
\<close>

lemma dev_init_ok:
  assumes "\<forall>p \<in> set ps. \<not> probe_matches ICH5_IDE_CTRL_VENDOR_ID ICH5_IDE_CTRL_DEVICE_ID p"
    and "probe_matches ICH5_IDE_CTRL_VENDOR_ID ICH5_IDE_CTRL_DEVICE_ID m" "length ps < 255"
    and "inq s = probe_values (ps @ [m]) @ rest"
  obtains e c r f h g where
    "dev_init s = Inr ((q_reset (Some Ata_io_pending) None (q_reset (Some Ramdisk_io_pending) None s))
       \<lparr>inq := rest, io := e, config_addr_reg_state := c,
        ide_controller := \<lparr>pci_bus = 0, pci_device = 0, pci_function = of_nat (length ps)\<rparr>,
        pending_requests := r, free_disk_requests := f, device_handles := h, free_device_handles := g,
        ata_device := DEV_IDE_PRI, ata_cmd_blk_reg := ATA_PRI_CMD_BLOCK_REG, ata_ctrl_blk_reg := ATA_PRI_CTRL_BLOCK_REG\<rparr>)"
    "path (\<lambda>i. dr_next (r i)) f (rev [0..<DISK_MAX_REQUESTS])"
    "path (\<lambda>i. dev_next (h i)) g (rev [0..<DEV_MAX_DEVICES])"
proof -
  define s0 where "s0 = s\<lparr>device_handles := (\<lambda>i. if i < DEV_MAX_DEVICES then zero_device else device_handles s i),
     free_device_handles := None\<rparr>"
  obtain h g where s1: "fold (\<lambda>i. dev_dealloc_handle (Some i)) [0..<DEV_MAX_DEVICES] s0 =
      s0\<lparr>device_handles := h, free_device_handles := g\<rparr>" using fold_handles by blast
  have "path (handle_links s0) (free_device_handles s0) []" by (simp add: s0_def)
  from dev.path_put_all [OF this, of "[0..<DEV_MAX_DEVICES]"]
  have hp: "path (\<lambda>i. dev_next (h i)) g (rev [0..<DEV_MAX_DEVICES])" by (simp add: s1 handle_links_def)
  define s2 where "s2 = c_puts '' device'' (s0\<lparr>device_handles := h, free_device_handles := g\<rparr>)"
  have "inq s2 = probe_values (ps @ [m]) @ rest" using assms(4) by (simp add: s2_def s0_def c_puts_def)
  from pci_find_device_ok [OF assms(1-3) this] obtain t0 where
    t0: "pci_find_device ICH5_IDE_CTRL_VENDOR_ID ICH5_IDE_CTRL_DEVICE_ID s2 =
       Inr (\<lparr>pci_bus = 0, pci_device = 0, pci_function = of_nat (length ps)\<rparr>, t0)" "inq t0 = rest" "pci_frame s2 t0" .
  from t0(3) obtain i e c where t: "t0 = s2\<lparr>inq := i, io := e, config_addr_reg_state := c\<rparr>" by (rule pci_frameE)
  have i: "i = rest" using t0(2) by (simp add: t)
  define d0 where "d0 = (q_reset (Some Ata_io_pending) None (q_reset (Some Ramdisk_io_pending) None
     (t0\<lparr>ide_controller := \<lparr>pci_bus = 0, pci_device = 0, pci_function = of_nat (length ps)\<rparr>\<rparr>)))
     \<lparr>pending_requests := (\<lambda>i. if i < DISK_MAX_REQUESTS then zero_request else pending_requests t0 i), free_disk_requests := None\<rparr>"
  obtain r f where d1: "fold (\<lambda>i. disk_dealloc_request (Some i)) [0..<DISK_MAX_REQUESTS] d0 =
      d0\<lparr>pending_requests := r, free_disk_requests := f\<rparr>" using fold_requests by blast
  have "path (request_links d0) (free_disk_requests d0) []" by (simp add: d0_def)
  from req.path_put_all [OF this, of "[0..<DISK_MAX_REQUESTS]"]
  have rp: "path (\<lambda>i. dr_next (r i)) f (rev [0..<DISK_MAX_REQUESTS])" by (simp add: d1 request_links_def)
  define v where "v = c_puts '' pci'' (c_puts '' ide'' (ata_init DEV_IDE_PRI (c_puts '' disk:''
     (d0\<lparr>pending_requests := r, free_disk_requests := f\<rparr>))))"
  have rs: "q_reset (Some q) k (x\<lparr>ide_controller := y\<rparr>) = (q_reset (Some q) k x)\<lparr>ide_controller := y\<rparr>"
    "pending_requests (q_reset (Some q) k x) = pending_requests x"
    "q_reset (Some q) k (x\<lparr>inq := a\<rparr>) = (q_reset (Some q) k x)\<lparr>inq := a\<rparr>"
    "q_reset (Some q) k (x\<lparr>io := e\<rparr>) = (q_reset (Some q) k x)\<lparr>io := e\<rparr>"
    "q_reset (Some q) k (x\<lparr>config_addr_reg_state := c\<rparr>) = (q_reset (Some q) k x)\<lparr>config_addr_reg_state := c\<rparr>"
    "q_reset (Some q) k (x\<lparr>device_handles := h\<rparr>) = (q_reset (Some q) k x)\<lparr>device_handles := h\<rparr>"
    "q_reset (Some q) k (x\<lparr>free_device_handles := g\<rparr>) = (q_reset (Some q) k x)\<lparr>free_device_handles := g\<rparr>"
    for q k x y a e c h g by (simp_all add: q_reset_def set_queue_def)
  have di: "disk_init \<lparr>pci_bus = 0, pci_device = 0, pci_function = of_nat (length ps)\<rparr> t0 =
     ata_init DEV_IDE_PRI (c_puts '' disk:'' (d0\<lparr>pending_requests := r, free_disk_requests := f\<rparr>))"
    unfolding d1 [symmetric]
    by (cases "ide_controller t0") (simp add: disk_init_def d0_def Let_def rs cong: if_cong)
  have "dev_init s = pci_init s2"
    using s1 by (simp add: dev_init_def Let_def s2_def s0_def cong: if_cong)
  then have "dev_init s = Inr v" by (simp add: pci_init_def ide_init_def t0(1) di v_def)
  moreover have "v = (q_reset (Some Ata_io_pending) None (q_reset (Some Ramdisk_io_pending) None s))
       \<lparr>inq := rest, io := io v, config_addr_reg_state := c,
        ide_controller := \<lparr>pci_bus = 0, pci_device = 0, pci_function = of_nat (length ps)\<rparr>,
        pending_requests := r, free_disk_requests := f, device_handles := h, free_device_handles := g,
        ata_device := DEV_IDE_PRI, ata_cmd_blk_reg := ATA_PRI_CMD_BLOCK_REG, ata_ctrl_blk_reg := ATA_PRI_CTRL_BLOCK_REG\<rparr>"
    by (simp add: v_def c_puts_def ata_init_def outb_def Let_def d0_def t i s2_def s0_def rs)
  ultimately show thesis using that rp hp by metis
qed

section \<open>Closing a handle\<close>

lemma open_allocs:
  "fst (dev_open n s) = fst (dev_alloc_handle s)"
  "free_device_handles (snd (dev_open n s)) = free_device_handles (snd (dev_alloc_handle s))"
  "handle_links (snd (dev_open n s)) = handle_links (snd (dev_alloc_handle s))"
  by (auto simp: dev_open_def dev_alloc_handle_def rd_open_def ata_open_def handle_links_def set_device_def c_puts_def
      c_printf_def Let_def split: option.splits)

lemma alloc_cong:
  assumes "free_device_handles t = free_device_handles s" "handle_links t = handle_links s"
  shows "fst (dev_alloc_handle t) = fst (dev_alloc_handle s)"
    "free_device_handles (snd (dev_alloc_handle t)) = free_device_handles (snd (dev_alloc_handle s))"
proof -
  have "dev_next (device_handles t i) = dev_next (device_handles s i)" for i
    using fun_cong [OF assms(2)] by (simp add: handle_links_def)
  then show "fst (dev_alloc_handle t) = fst (dev_alloc_handle s)"
    "free_device_handles (snd (dev_alloc_handle t)) = free_device_handles (snd (dev_alloc_handle s))"
    using assms(1) by (simp_all add: dev_alloc_handle_def set_device_def split: option.splits)
qed

lemma close_puts_twice:
  assumes "dev_identifier (device_handles s d) \<in> {DEV_RAMDISK, DEV_IDE_PRI}"
  shows "\<exists>u. dev_close (Some d) s = Inr (dev_dealloc_handle (Some d) (dev_dealloc_handle (Some d) u))"
  using assms by (auto simp: dev_close_def rd_close_def ata_close_def Let_def)

lemma close_then_open:
  assumes "dev_identifier (device_handles s d) \<in> {DEV_RAMDISK, DEV_IDE_PRI}"
  obtains t u v where "dev_close (Some d) s = Inr t" "dev_open a t = (Some d, u)" "dev_open b u = (Some d, v)"
    "fst (dev_open c v) = None"
proof -
  from close_puts_twice [OF assms] obtain w where
    w: "dev_close (Some d) s = Inr (dev_dealloc_handle (Some d) (dev_dealloc_handle (Some d) w))" by blast
  let ?t = "dev_dealloc_handle (Some d) (dev_dealloc_handle (Some d) w)"
  let ?u = "snd (dev_open a ?t)" and ?v = "snd (dev_open b (snd (dev_open a ?t)))"
  note g = dev.double_put_get_twice [of d w] and x = dev.double_put_exhausts [of d w]
  note o = open_allocs
  have u: "fst (dev_open b ?u) = Some d"
    unfolding o(1) using alloc_cong(1) [OF o(2,3)] g(2) by simp
  have "free_device_handles ?v = None"
    unfolding o(2) using alloc_cong(2) [OF o(2,3)] x by simp
  then have "fst (dev_open c ?v) = None" by (simp add: o(1) dev_alloc_handle_def)
  moreover have "dev_open a ?t = (Some d, ?u)" "dev_open b ?u = (Some d, ?v)"
    using g(1) u by (simp_all add: prod_eq_iff o(1))
  ultimately show thesis using that w by blast
qed

end
