(* ===== verification/Support.thy ===== *)
theory Support
  imports Machine
begin

text \<open>
  support.c: the interrupt controllers, the interrupt descriptor table and the table of the
  handlers in C.  The descriptor table lies in the byte memory, where the code addresses it.
  \<open>__panic\<close> halts, which is the outcome \<open>Panic\<close>.  The addresses of the stubs of isr_stubs.S
  are the argument \<open>stubs\<close>.
\<close>

abbreviation (input) PIC_MASTER_IMR_PORT :: u32 where "PIC_MASTER_IMR_PORT \<equiv> 0x21"
abbreviation (input) PIC_SLAVE_IMR_PORT :: u32 where "PIC_SLAVE_IMR_PORT \<equiv> 0xA1"
abbreviation (input) PIC_NEEDICW4 :: u32 where "PIC_NEEDICW4 \<equiv> 0x01"
abbreviation (input) PIC_ICW1BASE :: u32 where "PIC_ICW1BASE \<equiv> 0x10"
abbreviation (input) PIC_86MODE :: u32 where "PIC_86MODE \<equiv> 0x01"
abbreviation (input) PIC_MASTER_SLAVE_LINE :: u32 where "PIC_MASTER_SLAVE_LINE \<equiv> 0x04"
abbreviation (input) PIC_SLAVE_ID :: u32 where "PIC_SLAVE_ID \<equiv> 0x02"
abbreviation (input) IDT_ADDRESS :: u32 where "IDT_ADDRESS \<equiv> 0x00002500"
abbreviation (input) IDT_PRESENT :: u16 where "IDT_PRESENT \<equiv> 0x8000"
abbreviation (input) IDT_DPL_0 :: u16 where "IDT_DPL_0 \<equiv> 0x0000"
abbreviation (input) IDT_INT32_GATE :: u16 where "IDT_INT32_GATE \<equiv> 0x0e00"
abbreviation (input) INT_VEC_KEYBOARD :: u32 where "INT_VEC_KEYBOARD \<equiv> 0x21"
abbreviation (input) INT_VEC_TIMER :: u32 where "INT_VEC_TIMER \<equiv> 0x20"

section \<open>Handlers\<close>

definition panic :: "string \<Rightarrow> 'a outcome" where
  "panic reason = Inl (Panic reason)"

text \<open>The table has 256 entries.\<close>

definition install_isr :: "u32 \<Rightarrow> isr_fcn \<Rightarrow> (isr_fcn option) kop" where
  "install_isr vector handler s =
     (if vector < 256 then
        let old_handler = isr_table s vector;
            s = s\<lparr>isr_table := (isr_table s)(vector := Some handler)\<rparr>
        in Inr (old_handler, s)
      else Inl (Overrun ''__isr_table''))"

definition default_unexpected_handler :: "u32 \<Rightarrow> u32 \<Rightarrow> kstate \<Rightarrow> kstate outcome" where
  "default_unexpected_handler vector code s =
     (let s = c_printf ''\<newline>Vector=0x%02x, code=%d\<newline>'' [vector, code] s in panic ''Unhandled interrupt'')"

definition default_expected_handler :: "u32 \<Rightarrow> u32 \<Rightarrow> kstate \<Rightarrow> kstate outcome" where
  "default_expected_handler vector code s =
     (if 0x20 \<le> vector \<and> vector < 0x30 then
        let s = outb PIC_MASTER_CMD_PORT PIC_EOI s
        in Inr (if 0x28 < vector then outb PIC_SLAVE_CMD_PORT PIC_EOI s else s)
      else panic ''Unexpected \"expected\" interrupt!'')"

section \<open>Initialisation\<close>

definition init_pic :: "kstate \<Rightarrow> kstate" where
  "init_pic s =
     (let s = outb PIC_MASTER_CMD_PORT (PIC_ICW1BASE OR PIC_NEEDICW4) s;
          s = outb PIC_SLAVE_CMD_PORT (PIC_ICW1BASE OR PIC_NEEDICW4) s;
          s = outb PIC_MASTER_IMR_PORT 0x20 s;
          s = outb PIC_SLAVE_IMR_PORT 0x28 s;
          s = outb PIC_MASTER_IMR_PORT PIC_MASTER_SLAVE_LINE s;
          s = outb PIC_SLAVE_IMR_PORT PIC_SLAVE_ID s;
          s = outb PIC_MASTER_IMR_PORT PIC_86MODE s;
          s = outb PIC_SLAVE_IMR_PORT PIC_86MODE s;
          s = outb PIC_MASTER_IMR_PORT 0x00 s
      in outb PIC_SLAVE_IMR_PORT 0x00 s)"

text \<open>A gate is four half words: the two halves of the address with the selector and the flags between.\<close>

definition set_idt_entry :: "u32 \<Rightarrow> u32 \<Rightarrow> kstate \<Rightarrow> kstate" where
  "set_idt_entry entry handler s =
     (let g = IDT_ADDRESS + 8 * entry;
          s = st16 g (ucast (handler AND 0xffff)) s;
          s = st16 (g + 2) 0x0010 s;
          s = st16 (g + 4) (IDT_PRESENT OR IDT_DPL_0 OR IDT_INT32_GATE) s
      in st16 (g + 6) (ucast (drop_bit 16 handler AND 0xffff)) s)"

fun init_idt_loop :: "(u32 \<Rightarrow> u32) \<Rightarrow> nat \<Rightarrow> u32 \<Rightarrow> kstate \<Rightarrow> kstate outcome" where
  "init_idt_loop stubs 0 i s = Inr s"
| "init_idt_loop stubs (Suc n) i s =
     (let s = set_idt_entry i (stubs i) s in
      bindE (install_isr i Default_unexpected_handler s) (\<lambda>(old, s). init_idt_loop stubs n (i + 1) s))"

definition init_idt :: "(u32 \<Rightarrow> u32) \<Rightarrow> kstate \<Rightarrow> kstate outcome" where
  "init_idt stubs s =
     bindE (init_idt_loop stubs 256 0 s) (\<lambda>s.
       bindE (install_isr INT_VEC_KEYBOARD Default_expected_handler s) (\<lambda>(old, s).
         bindE (install_isr INT_VEC_TIMER Default_expected_handler s) (\<lambda>(old, s). Inr s)))"

definition init_interrupts :: "(u32 \<Rightarrow> u32) \<Rightarrow> kstate \<Rightarrow> kstate outcome" where
  "init_interrupts stubs s = bindE (init_idt stubs s) (\<lambda>s. Inr (init_pic s))"

section \<open>The tables after the initialisation\<close>

lemma ld16_st16: "a \<noteq> b \<Longrightarrow> a \<noteq> b + 1 \<Longrightarrow> a + 1 \<noteq> b \<Longrightarrow> ld16 a (st16 b v s) = ld16 a s"
  by (simp add: ld16_def st16_def)

text \<open>Every entry of the descriptor table leads to its stub, and every vector has a handler.\<close>

definition gate_ok :: "u32 \<Rightarrow> u32 \<Rightarrow> kstate \<Rightarrow> bool" where
  "gate_ok entry handler s \<longleftrightarrow>
     ld16 (IDT_ADDRESS + 8 * entry) s = ucast handler \<and> ld16 (IDT_ADDRESS + 8 * entry + 2) s = 0x10 \<and>
     ld16 (IDT_ADDRESS + 8 * entry + 4) s = 0x8e00 \<and>
     ld16 (IDT_ADDRESS + 8 * entry + 6) s = ucast (drop_bit 16 handler)"

lemma ld16_far:
  assumes "unat a < 12000" "unat b < 12000" "unat a + 2 \<le> unat b \<or> unat b + 2 \<le> unat a"
  shows "ld16 a (st16 b v s) = ld16 a s"
proof -
  have p: "unat (x + 1) = unat x + 1" if "unat x < 12000" for x :: u32
    using that by (subst unat_add_lem [THEN iffD1]) simp_all
  have "unat a \<noteq> unat b" "unat a \<noteq> unat (b + 1)" "unat (a + 1) \<noteq> unat b"
    using assms by (auto simp: p)
  then show ?thesis by (intro ld16_st16) metis+
qed

lemma gate_addr:
  fixes e :: u32
  assumes "e < 256"
  shows "unat (0x2500 + 8 * e) = 0x2500 + 8 * unat e" "unat (0x2502 + 8 * e) = 0x2502 + 8 * unat e"
    "unat (0x2504 + 8 * e) = 0x2504 + 8 * unat e" "unat (0x2506 + 8 * e) = 0x2506 + 8 * unat e" "unat e < 256"
proof -
  show b: "unat e < 256" using assms by (simp add: word_less_nat_alt)
  then have m: "unat (8 * e) = 8 * unat e" by (subst unat_mult_lem [THEN iffD1]) simp_all
  show "unat (0x2500 + 8 * e) = 0x2500 + 8 * unat e" "unat (0x2502 + 8 * e) = 0x2502 + 8 * unat e"
    "unat (0x2504 + 8 * e) = 0x2504 + 8 * unat e" "unat (0x2506 + 8 * e) = 0x2506 + 8 * unat e"
    using b by (subst unat_add_lem [THEN iffD1]; simp add: m)+
qed

lemma gate_same:
  assumes "e < 256"
  shows "gate_ok e h (set_idt_entry e h s)"
proof -
  have m: "(0xffff :: u32) = mask 16" by code_simp
  have h: "(ucast (x AND 0xffff) :: u16) = ucast x" for x :: u32
    unfolding m by (rule bit_word_eqI) (auto simp: bit_simps)
  show ?thesis
    using gate_addr [OF assms] by (simp add: gate_ok_def set_idt_entry_def Let_def ld16_far h)
qed

lemma gate_other:
  assumes "e < 256" "e' < 256" "e \<noteq> e'"
  shows "gate_ok e' h' (set_idt_entry e h s) = gate_ok e' h' s"
proof -
  have "unat e \<noteq> unat e'" using assms(3) by (simp add: word_unat_eq_iff)
  then have d: "8 * unat e + 8 \<le> 8 * unat e' \<or> 8 * unat e' + 8 \<le> 8 * unat e" by linarith
  then show ?thesis
    using gate_addr [OF assms(1)] gate_addr [OF assms(2)]
    by (elim disjE) (simp_all add: gate_ok_def set_idt_entry_def Let_def ld16_far)
qed

lemma set_idt_entry_frame: "set_idt_entry e h s = s\<lparr>mem := mem (set_idt_entry e h s)\<rparr>"
  by (simp add: set_idt_entry_def st16_def Let_def)

lemma gate_isr_table [simp]: "gate_ok e h (s\<lparr>isr_table := x\<rparr>) = gate_ok e h s"
  by (simp add: gate_ok_def ld16_def)

lemma gate_outb [simp]: "gate_ok e h (outb p v s) = gate_ok e h s"
  by (simp add: gate_ok_def ld16_def outb_def)

lemma init_idt_loop_ok:
  assumes "unat i + n \<le> 256"
  shows "\<exists>t. init_idt_loop stubs n i s = Inr t \<and> t = s\<lparr>mem := mem t, isr_table := isr_table t\<rparr> \<and>
     (\<forall>e. unat i \<le> unat e \<and> unat e < unat i + n \<longrightarrow>
        gate_ok e (stubs e) t \<and> isr_table t e = Some Default_unexpected_handler) \<and>
     (\<forall>e h. unat e < unat i \<longrightarrow> gate_ok e h t = gate_ok e h s \<and> isr_table t e = isr_table s e)"
  using assms
proof (induction n arbitrary: i s)
  case 0
  then show ?case by auto
next
  case (Suc n)
  have i: "i < 256" "unat i < 256" using Suc.prems by (simp_all add: word_less_nat_alt)
  have i1: "unat (i + 1) = Suc (unat i)" using i(2) by (subst unat_add_lem [THEN iffD1]) simp_all
  let ?s = "set_idt_entry i (stubs i) s"
  let ?u = "?s\<lparr>isr_table := (isr_table ?s)(i := Some Default_unexpected_handler)\<rparr>"
  have tb: "isr_table ?s = isr_table s" by (subst set_idt_entry_frame) simp
  have "unat (i + 1) + n \<le> 256" using Suc.prems i1 by simp
  from Suc.IH [OF this, of ?u] obtain t where t: "init_idt_loop stubs n (i + 1) ?u = Inr t"
    "t = ?u\<lparr>mem := mem t, isr_table := isr_table t\<rparr>"
    "\<And>e. unat (i + 1) \<le> unat e \<Longrightarrow> unat e < unat (i + 1) + n \<Longrightarrow>
       gate_ok e (stubs e) t \<and> isr_table t e = Some Default_unexpected_handler"
    "\<And>e h. unat e < unat (i + 1) \<Longrightarrow> gate_ok e h t = gate_ok e h ?u \<and> isr_table t e = isr_table ?u e" by blast
  have "init_idt_loop stubs (Suc n) i s = Inr t"
    using t(1) i(1) by (simp add: install_isr_def)
  moreover have "t = s\<lparr>mem := mem t, isr_table := isr_table t\<rparr>"
    by (subst t(2), subst set_idt_entry_frame) simp
  moreover have "gate_ok e (stubs e) t \<and> isr_table t e = Some Default_unexpected_handler"
    if e: "unat i \<le> unat e" "unat e < unat i + Suc n" for e
  proof (cases "e = i")
    case True
    then show ?thesis using t(4) [of i] i1 gate_same [OF i(1)] by simp
  next
    case False
    then have "unat i \<noteq> unat e" by (simp add: word_unat_eq_iff)
    then show ?thesis using t(3) [of e] e i1 by simp
  qed
  moreover have "gate_ok e h t = gate_ok e h s \<and> isr_table t e = isr_table s e" if e: "unat e < unat i" for e h
  proof -
    have "e < 256" "e \<noteq> i" using e i(2) by (auto simp: word_less_nat_alt)
    then show ?thesis using t(4) [of e h] e i1 i(1) gate_other [of i e h "stubs i" s] by (simp add: tb)
  qed
  ultimately show ?case by blast
qed

lemma init_interrupts_ok:
  obtains t where "init_interrupts stubs s = Inr t" "t = s\<lparr>io := io t, mem := mem t, isr_table := isr_table t\<rparr>"
    "\<And>e. e < 256 \<Longrightarrow> gate_ok e (stubs e) t"
    "\<And>e. e < 256 \<Longrightarrow> isr_table t e = Some (if e = INT_VEC_KEYBOARD \<or> e = INT_VEC_TIMER
       then Default_expected_handler else Default_unexpected_handler)"
proof -
  from init_idt_loop_ok [of 0 256 stubs s] obtain t where t: "init_idt_loop stubs 256 0 s = Inr t"
    "t = s\<lparr>mem := mem t, isr_table := isr_table t\<rparr>"
    "\<And>e. unat e < 256 \<Longrightarrow> gate_ok e (stubs e) t \<and> isr_table t e = Some Default_unexpected_handler" by auto
  let ?t = "t\<lparr>isr_table := (isr_table t)(INT_VEC_KEYBOARD := Some Default_expected_handler, INT_VEC_TIMER := Some Default_expected_handler)\<rparr>"
  have i: "init_interrupts stubs s = Inr (init_pic ?t)"
    using t(1) by (simp add: init_interrupts_def init_idt_def install_isr_def)
  obtain e where f: "init_pic ?t = ?t\<lparr>io := e\<rparr>" by (simp add: init_pic_def outb_def Let_def)
  obtain m r where u: "t = s\<lparr>mem := m, isr_table := r\<rparr>" using t(2) by blast
  show thesis
  proof (rule that [OF i])
    show "init_pic ?t = s\<lparr>io := io (init_pic ?t), mem := mem (init_pic ?t), isr_table := isr_table (init_pic ?t)\<rparr>"
      unfolding f by (simp add: u)
    show "gate_ok e (stubs e) (init_pic ?t)" if "e < 256" for e
      using t(3) [of e] that by (simp add: init_pic_def Let_def word_less_nat_alt)
    show "isr_table (init_pic ?t) e = Some (if e = INT_VEC_KEYBOARD \<or> e = INT_VEC_TIMER
       then Default_expected_handler else Default_unexpected_handler)" if "e < 256" for e
      using t(3) [of e] that unfolding f by (simp add: word_less_nat_alt)
  qed
qed

end
