(* ===== verification/Boot.thy ===== *)
theory Boot
  imports Devices Support Clock
begin

text \<open>
  \<open>_init\<close> of system.c: the modules are initialised one after the other, the handlers are
  installed, and the first three processes are made and the first of them dispatched.

  The calls of the console are entries of the log, as everywhere in the kernel modules.
\<close>

abbreviation (input) INT_VEC_SYSCALL :: u32 where "INT_VEC_SYSCALL \<equiv> 0x80"
abbreviation (input) INT_VEC_SERIAL_PORT_1 :: u32 where "INT_VEC_SERIAL_PORT_1 \<equiv> 0x24"

section \<open>The code\<close>

definition c_setscroll_log :: "u32 \<Rightarrow> u32 \<Rightarrow> u32 \<Rightarrow> u32 \<Rightarrow> kstate \<Rightarrow> kstate" where
  "c_setscroll_log a b c d s = s\<lparr>io := io s @ [Set_scroll a b c d]\<rparr>"

definition c_puts_at_log :: "u32 \<Rightarrow> u32 \<Rightarrow> string \<Rightarrow> kstate \<Rightarrow> kstate" where
  "c_puts_at_log x y str s = s\<lparr>io := io s @ [Puts_at x y str]\<rparr>"

text \<open>\<open>c_io_init\<close> also installs the handler of the keyboard.\<close>

definition start_console :: "kstate \<Rightarrow> kstate outcome" where
  "start_console s =
     (let s = s\<lparr>io := io s @ [Console_init]\<rparr> in
      bindE (install_isr INT_VEC_KEYBOARD Keyboard_isr s) (\<lambda>(old, s). Inr s))"

text \<open>A first process: the three are made in the same way, and their pids are ignored.\<close>

definition first_process :: "linkage \<Rightarrow> u32 \<Rightarrow> u8 \<Rightarrow> string \<Rightarrow> string \<Rightarrow> kstate \<Rightarrow> kstate outcome" where
  "first_process lk fcn lvl no_pcb no_stack s =
     bindE (pcb_alloc s) (\<lambda>(pcb, s).
       case pcb of
         None \<Rightarrow> kpanic no_pcb
       | Some p \<Rightarrow>
           bindE (stack_alloc s) (\<lambda>(stk, s).
             case stk of
               None \<Rightarrow> kpanic no_stack
             | Some st \<Rightarrow>
                 (case make_proc lk p st fcn lvl s of (_, s) \<Rightarrow>
                    bindE (schedule p s) (\<lambda>(stat, s). Inr s))))"

definition init_modules :: "linkage \<Rightarrow> (u32 \<Rightarrow> u32) \<Rightarrow> kstate \<Rightarrow> kstate outcome" where
  "init_modules lk stubs s =
     bindE (init_interrupts stubs s) (\<lambda>s.
     bindE (start_console s) (\<lambda>s.
       let s = c_setscroll_log 0 7 99 99 s;
           s = c_puts_at_log 0 6 (replicate 80 (CHR ''='')) s;
           s = c_puts ''Module init: '' s;
           s = q_init s in
     bindE (pcb_init s) (\<lambda>s.
     bindE (stack_init s) (\<lambda>s.
       let s = sio_init s;
           s = clock_init lk s;
           s = sys_init s;
           s = mem_init lk s in
     bindE (shm_init lk s) (\<lambda>s.
     bindE (install_isr ATA_INT_VEC_PRI_PATA Ata_isr s) (\<lambda>(old, s).
     bindE (dev_init s) (\<lambda>s. Inr (c_puts '' done.\<newline>'' s))))))))"

definition kernel_init :: "linkage \<Rightarrow> (u32 \<Rightarrow> u32) \<Rightarrow> kstate \<Rightarrow> kstate outcome" where
  "kernel_init lk stubs s =
     bindE (init_modules lk stubs s) (\<lambda>s.
     bindE (install_isr INT_VEC_TIMER Isr_clock s) (\<lambda>(old, s).
     bindE (install_isr INT_VEC_SYSCALL Isr_syscall s) (\<lambda>(old, s).
     bindE (install_isr INT_VEC_SERIAL_PORT_1 Isr_sio s) (\<lambda>(old, s).
     bindE (first_process lk (user_idle_addr lk) LEVEL_LOW
       ''_init: idle pcb alloc failed'' ''_init: idle stack alloc failed'' s) (\<lambda>s.
     bindE (first_process lk (user_first_addr lk) LEVEL_DEFAULT
       ''_init: first pcb alloc failed'' ''_init: first stack alloc failed'' s) (\<lambda>s.
     bindE (first_process lk (ata_test_proc_addr lk) LEVEL_DEFAULT
       ''_init: first pcb alloc failed'' ''_init: first stack alloc failed'' s) (\<lambda>s.
     bindE (dispatch s) (\<lambda>s.
       case sio_enable True True s of (_, s) \<Rightarrow>
         Inr (c_puts ''System initialization complete.\<newline>'' s)))))))))"

section \<open>The pools are filled\<close>

lemma kinv_empty:
  assumes "q_wf s" "q_view s = (\<lambda>_. [])" "hashes_ok (queues s)" "n_free s = N_QNODES"
  shows "kinv [] [0..<MAX_PROCS] [0..<MAX_PROCS] s"
  using assms by (simp add: kinv_def typed_view_def owned_def live_def pcbs_in_def stacks_in_def statuses_def
      ready_levels_def n_used_def n_other_def live_queues_def other_queues_def lessThan_atLeast0)

lemma pcb_loop:
  assumes "kinv H (is @ F) K s"
  shows "\<exists>t. dealloc_loop pcb_dealloc is STAT_SUCCESS s = Inr (STAT_SUCCESS, t) \<and> kinv H F K t \<and> k_frame s t \<and>
     q_view t = (q_view s)(Free_pcbs := q_view s Free_pcbs @ map (\<lambda>i. (0, Some (Pcb i))) is) \<and>
     (\<forall>p. context_of (pcbs t p) = context_of (pcbs s p))"
  using assms
proof (induction "is" arbitrary: s)
  case (Cons i "is")
  then have "kinv H (i # is @ F) K s" by simp
  from kinv_pcb_dealloc [OF this] obtain t where t: "pcb_dealloc i s = Inr (STAT_SUCCESS, t)" "kinv H (is @ F) K t"
    "k_frame s t" "q_view t = (q_view s)(Free_pcbs := q_view s Free_pcbs @ [(0, Some (Pcb i))])"
    "pcbs t = (pcbs s)(i := (pcbs s i)\<lparr>status := PROC_FREE\<rparr>)" by blast
  from Cons.IH [OF t(2)] obtain u where "dealloc_loop pcb_dealloc is STAT_SUCCESS t = Inr (STAT_SUCCESS, u)"
    "kinv H F K u" "k_frame t u"
    "q_view u = (q_view t)(Free_pcbs := q_view t Free_pcbs @ map (\<lambda>i. (0, Some (Pcb i))) is)"
    "\<forall>p. context_of (pcbs u p) = context_of (pcbs t p)" by blast
  then show ?case using t k_frame_trans by (intro exI [of _ u]) auto
qed auto

lemma stack_loop:
  assumes "kinv H F (is @ K) s"
  shows "\<exists>t. dealloc_loop stack_dealloc is STAT_SUCCESS s = Inr (STAT_SUCCESS, t) \<and> kinv H F K t \<and> q_frame s t \<and>
     q_view t = (q_view s)(Free_stacks := q_view s Free_stacks @ map (\<lambda>i. (0, Some (Stack i))) is)"
  using assms
proof (induction "is" arbitrary: s)
  case (Cons i "is")
  then have "kinv H F (i # is @ K) s" by simp
  from kinv_stack_dealloc [OF this] obtain t where t: "stack_dealloc i s = Inr (STAT_SUCCESS, t)" "kinv H F (is @ K) t"
    "q_frame s t" "q_view t = (q_view s)(Free_stacks := q_view s Free_stacks @ [(0, Some (Stack i))])" by blast
  from Cons.IH [OF t(2)] obtain u where "dealloc_loop stack_dealloc is STAT_SUCCESS t = Inr (STAT_SUCCESS, u)"
    "kinv H F K u" "q_frame t u"
    "q_view u = (q_view t)(Free_stacks := q_view t Free_stacks @ map (\<lambda>i. (0, Some (Stack i))) is)" by blast
  then show ?case using t q_frame_trans by (intro exI [of _ u]) auto
qed auto

text \<open>Resetting an empty queue that is not the one of the sleepers changes nothing.\<close>

lemma kinv_reset:
  assumes "kinv H F K s" "q_view s q = []" "q \<noteq> Sleeping"
  shows "kinv H F K (q_reset (Some q) None s)" "q_view (q_reset (Some q) None s) = q_view s"
proof -
  note d = kinvD [OF assms(1)]
  note r = q_reset_view [OF d(1) assms(2), of None]
  have p: "pcbs (q_reset (Some q) None s) = pcbs s" by (simp add: q_reset_def set_queue_def)
  have "hashes_ok (queues (q_reset (Some q) None s))"
    using d(2) assms(3) by (auto simp: hashes_ok_def q_reset_def)
  then show "kinv H F K (q_reset (Some q) None s)" using assms(1) r by (simp add: kinv_def p)
  show "q_view (q_reset (Some q) None s) = q_view s" by (rule r)
qed

section \<open>One module after the other\<close>

text \<open>What the initialisation of the pools leaves alone.\<close>

definition boot_same :: "kstate \<Rightarrow> kstate \<Rightarrow> bool" where
  "boot_same s t \<longleftrightarrow> inq t = inq s \<and> isr_table t = isr_table s \<and> same_sio s t"

lemma boot_same_trans [trans]: "boot_same s t \<Longrightarrow> boot_same t u \<Longrightarrow> boot_same s u"
  using same_trans(2) by (auto simp: boot_same_def)

lemma boot_same_frame: "k_frame s t \<Longrightarrow> boot_same s t"
  using k_frame_sio by (simp add: boot_same_def k_frame_fields)

lemma boot_same_updates [simp]:
  "boot_same s (c_puts m t) = boot_same s t" "boot_same s (c_puts_at_log x y m t) = boot_same s t"
  "boot_same s (c_setscroll_log a b c d t) = boot_same s t" "boot_same s (q_reset (Some q) h t) = boot_same s t"
  "boot_same s (t\<lparr>pcbs := ps\<rparr>) = boot_same s t" "boot_same s (t\<lparr>current := k\<rparr>) = boot_same s t"
  "boot_same s (t\<lparr>next_pid := n\<rparr>) = boot_same s t" "boot_same s (t\<lparr>mem := y'\<rparr>) = boot_same s t"
  "boot_same s (outb p v t) = boot_same s t" "boot_same s (t\<lparr>io := e\<rparr>) = boot_same s t"
  "boot_same s (t\<lparr>stacks := sk\<rparr>) = boot_same s t" "boot_same s (t\<lparr>system_stack := sy\<rparr>) = boot_same s t"
  "boot_same s (t\<lparr>system_esp := es\<rparr>) = boot_same s t" "boot_same s s"
  by (simp_all add: boot_same_def same_sio_def c_puts_def c_puts_at_log_def c_setscroll_log_def q_reset_def
      set_queue_def outb_def)

lemma same_procs_io [simp]:
  "same_procs s (c_puts_at_log x y m s)" "same_procs s (c_setscroll_log a b c d s)"
  by (simp_all add: same_procs_def c_puts_at_log_def c_setscroll_log_def)

lemma q_reset_simps [simp]:
  "pcbs (q_reset (Some q) h s) = pcbs s" "qnodes (q_reset (Some q) h s) = qnodes s"
  "free_qnodes (q_reset (Some q) h s) = free_qnodes s" "current (q_reset (Some q) h s) = current s"
  "next_pid (q_reset (Some q) h s) = next_pid s"
  "hashfcn (queues (q_reset (Some q) h s) r) = (if r = q then h else hashfcn (queues s r))"
  by (simp_all add: q_reset_def set_queue_def)

text \<open>\<open>_q_init\<close> and the PCBs.\<close>

lemma pcb_init_ok:
  assumes "q_wf s" "q_view s = (\<lambda>_. [])" "n_free s = N_QNODES" "\<forall>q. hashfcn (queues s q) = None"
  obtains t where "pcb_init s = Inr t" "kinv [] [] [0..<MAX_PROCS] t" "boot_same s t"
    "q_view t = (\<lambda>_. [])(Free_pcbs := map (\<lambda>i. (0, Some (Pcb i))) [0..<MAX_PROCS])"
    "current t = None" "next_pid t = 0" "\<forall>p < MAX_PROCS. context_of (pcbs t p) = None"
proof -
  define s1 where "s1 = fold (\<lambda>i. q_reset (Some (Ready i)) None) [0..<MLQ_LEVELS] s"
  define s2 where "s2 = q_reset (Some Free_pcbs) None (q_reset (Some Reading) None (q_reset (Some Sleeping) (Some Hash_sleep) s1))"
  define s3 where "s3 = s2\<lparr>pcbs := (\<lambda>i. if i < MAX_PROCS then zero_pcb else pcbs s2 i)\<rparr>"
  have r: "q_wf (q_reset (Some q) h x) \<and> q_view (q_reset (Some q) h x) = (\<lambda>_. []) \<and> n_free (q_reset (Some q) h x) = N_QNODES"
    if "q_wf x \<and> q_view x = (\<lambda>_. []) \<and> n_free x = N_QNODES" for q h x
    using q_reset_view [of x q h] that by simp
  have e1: "s1 = q_reset (Some (Ready 2)) None (q_reset (Some (Ready 1)) None (q_reset (Some (Ready 0)) None s))"
    by (simp add: s1_def upt_rec eval_nat_numeral)
  have q2: "q_wf s2 \<and> q_view s2 = (\<lambda>_. []) \<and> n_free s2 = N_QNODES"
    unfolding s2_def e1 using assms by (intro r) simp
  have same: "queues s3 = queues s2" "qnodes s3 = qnodes s2" "free_qnodes s3 = free_qnodes s2" by (simp_all add: s3_def)
  have h: "hashes_ok (queues s3)" using assms(4) by (simp add: hashes_ok_def same s2_def e1)
  have b: "boot_same s s3" by (simp add: s3_def s2_def e1)
  have "kinv [] ([0..<MAX_PROCS] @ []) [0..<MAX_PROCS] s3"
    using kinv_empty [OF _ _ h] q2 q_repr_cong [OF same] by simp
  from pcb_loop [OF this] obtain t where t: "dealloc_loop pcb_dealloc [0..<MAX_PROCS] STAT_SUCCESS s3 = Inr (STAT_SUCCESS, t)"
    "kinv [] [] [0..<MAX_PROCS] t" "k_frame s3 t"
    "q_view t = (q_view s3)(Free_pcbs := q_view s3 Free_pcbs @ map (\<lambda>i. (0, Some (Pcb i))) [0..<MAX_PROCS])"
    "\<forall>p. context_of (pcbs t p) = context_of (pcbs s3 p)" by blast
  let ?u = "c_puts '' process'' (t\<lparr>current := None, next_pid := 0\<rparr>)"
  have su: "queues ?u = queues t" "qnodes ?u = qnodes t" "free_qnodes ?u = free_qnodes t" "pcbs ?u = pcbs t"
    by (simp_all add: c_puts_def)
  show thesis
  proof (rule that)
    show "pcb_init s = Inr ?u"
      using t(1) by (simp add: pcb_init_def Let_def s3_def s2_def s1_def cong: if_cong)
    show "kinv [] [] [0..<MAX_PROCS] ?u" using t(2) kinv_cong [OF su] by blast
    show "boot_same s ?u"
      using boot_same_trans [OF b boot_same_frame [OF t(3)]] by simp
    show "q_view ?u = (\<lambda>_. [])(Free_pcbs := map (\<lambda>i. (0, Some (Pcb i))) [0..<MAX_PROCS])"
      using t(4) q2 q_repr_cong(5) [OF same] q_repr_cong(5) [OF su(1-3)] by simp
    show "\<forall>p < MAX_PROCS. context_of (pcbs ?u p) = None" using t(5) by (simp add: su(4) s3_def zero_pcb_def)
  qed (simp_all add: c_puts_def)
qed

text \<open>The stacks.\<close>

lemma stack_init_kinv:
  assumes "kinv [] [] [0..<MAX_PROCS] s" "q_view s Free_stacks = []"
  obtains t where "stack_init s = Inr t" "kinv [] [] [] t" "boot_same s t"
    "q_view t = (q_view s)(Free_stacks := map (\<lambda>i. (0, Some (Stack i))) [0..<MAX_PROCS])"
    "current t = current s" "next_pid t = next_pid s" "pcbs t = pcbs s"
proof -
  define s2 where "s2 = s\<lparr>stacks := (\<lambda>i. if i < MAX_PROCS then (\<lambda>w. if w < STACK_SIZE then 0 else stacks s i w)
      else stacks s i), system_stack := (\<lambda>w. if w < STACK_SIZE then 0 else system_stack s w)\<rparr>"
  define s3 where "s3 = q_reset (Some Free_stacks) None s2"
  have same: "queues s2 = queues s" "qnodes s2 = qnodes s" "free_qnodes s2 = free_qnodes s" "pcbs s2 = pcbs s"
    by (simp_all add: s2_def)
  have k2: "kinv [] [] [0..<MAX_PROCS] s2" "q_view s2 = q_view s"
    using assms(1) kinv_cong [OF same] q_repr_cong(5) [OF same(1-3)] by auto
  note k3 = kinv_reset [OF k2(1), of Free_stacks, folded s3_def]
  have "kinv [] [] ([0..<MAX_PROCS] @ []) s3" using k3(1) assms(2) k2(2) by simp
  from stack_loop [OF this] obtain t where t: "dealloc_loop stack_dealloc [0..<MAX_PROCS] STAT_SUCCESS s3 = Inr (STAT_SUCCESS, t)"
    "kinv [] [] [] t" "q_frame s3 t"
    "q_view t = (q_view s3)(Free_stacks := q_view s3 Free_stacks @ map (\<lambda>i. (0, Some (Stack i))) [0..<MAX_PROCS])" by blast
  let ?u = "c_puts '' stack'' (t\<lparr>system_esp := Some (STACK_SIZE - 2)\<rparr>)"
  have su: "queues ?u = queues t" "qnodes ?u = qnodes t" "free_qnodes ?u = free_qnodes t" "pcbs ?u = pcbs t"
    by (simp_all add: c_puts_def)
  show thesis
  proof (rule that)
    show "stack_init s = Inr ?u"
      using t(1) by (simp add: stack_init_def Let_def s3_def s2_def cong: if_cong)
    show "kinv [] [] [] ?u" using t(2) kinv_cong [OF su] by blast
    have "boot_same s s3" by (simp add: s3_def s2_def)
    from boot_same_trans [OF this boot_same_frame [OF q_frame_k_frame [OF t(3)]]]
    show "boot_same s ?u" by simp
    show "q_view ?u = (q_view s)(Free_stacks := map (\<lambda>i. (0, Some (Stack i))) [0..<MAX_PROCS])"
      using t(4) k3(2) k2(2) assms(2) q_repr_cong(5) [OF su(1-3)] by simp
  qed (simp_all add: c_puts_def q_frame_fields [OF t(3)] s3_def s2_def)
qed

text \<open>The segments.\<close>

lemma shm_loop:
  assumes "kinv H F K s" "n_other (q_view s) + length as \<le> OTHER_MAX"
  shows "\<exists>t. dealloc_loop shm_dealloc as STAT_SUCCESS s = Inr (STAT_SUCCESS, t) \<and> kinv H F K t \<and> boot_same s t \<and>
     q_view t = (q_view s)(Free_shms := q_view s Free_shms @ map (\<lambda>a. (0, Some (Shm a))) as) \<and>
     current t = current s \<and> next_pid t = next_pid s \<and> pcbs t = pcbs s"
  using assms
proof (induction as arbitrary: s)
  case Nil
  then show ?case by auto
next
  case (Cons a as)
  let ?s = "st8 (a + 22) 0 s"
  have q: "Free_shms \<in> set other_queues" by (simp add: other_queues_def)
  have v: "q_view ?s = q_view s" by (simp add: st8_def)
  have k: "kinv H F K ?s" using Cons.prems(1) by simp
  have room: "n_other (q_view ?s) < OTHER_MAX" using Cons.prems(2) v by simp
  from kinv_other_insert [OF k q room, of "Some (Shm a)"] obtain t where
    t: "q_insert Free_shms (Some (Shm a)) ?s = Inr (STAT_SUCCESS, t)" "kinv H F K t" "q_frame ?s t"
      "q_view t = (q_view s)(Free_shms := q_view s Free_shms @ [(0, Some (Shm a))])" by (auto simp: v)
  have d: "shm_dealloc a s = Inr (STAT_SUCCESS, t)" using t(1) by (simp add: shm_dealloc_def set_shm_status_def)
  have "boot_same s ?s" by (simp add: st8_def)
  from boot_same_trans [OF this boot_same_frame [OF q_frame_k_frame [OF t(3)]]] have b: "boot_same s t" .
  have "n_other (q_view t) + length as \<le> OTHER_MAX"
    using Cons.prems(2) other_upd(3) [OF q, of "q_view s" "q_view s Free_shms @ [(0, Some (Shm a))]"]
    by (simp add: t(4))
  from Cons.IH [OF t(2) this] obtain u where u: "dealloc_loop shm_dealloc as STAT_SUCCESS t = Inr (STAT_SUCCESS, u)"
    "kinv H F K u" "boot_same t u"
    "q_view u = (q_view t)(Free_shms := q_view t Free_shms @ map (\<lambda>a. (0, Some (Shm a))) as)"
    "current u = current t" "next_pid u = next_pid t" "pcbs u = pcbs t" by blast
  show ?case
    using d u t(4) boot_same_trans [OF b u(3)] q_frame_fields [OF t(3)] by (intro exI [of _ u]) (simp add: st8_def)
qed

lemma memclr_only_mem: "memclr a n s = s\<lparr>mem := mem (memclr a n s)\<rparr>"
proof (induction a n s rule: memclr.induct)
  case (1 a n s)
  show ?case
  proof (cases "n = 0")
    case True
    then show ?thesis by (simp add: memclr.simps)
  next
    case False
    have e: "memclr a n s = memclr (a + 1) (n - 1) (st8 a 0 s)" using False by (subst memclr.simps) simp
    show ?thesis unfolding e by (subst 1 [OF False]) (simp add: st8_def)
  qed
qed

lemma boot_same_memclr [simp]: "boot_same s (memclr a n t) = boot_same s t"
  by (subst memclr_only_mem) simp

lemma shm_init_kinv:
  assumes "kinv H F K s" "q_view s Free_shms = []" "n_other (q_view s) = 0"
  obtains t where "shm_init lk s = Inr t" "kinv H F K t" "boot_same s t"
    "q_view t = (q_view s)(Free_shms := map (\<lambda>a. (0, Some (Shm a))) (map (shms lk) [0..<MAX_SHMS]))"
    "current t = current s" "next_pid t = next_pid s" "pcbs t = pcbs s"
proof -
  define s1 where "s1 = memclr (shms_addr lk) (of_nat MAX_SHMS * SHM_SIZEOF) (q_reset (Some Free_shms) None s)"
  have same: "queues s1 = queues (q_reset (Some Free_shms) None s)" "qnodes s1 = qnodes (q_reset (Some Free_shms) None s)"
    "free_qnodes s1 = free_qnodes (q_reset (Some Free_shms) None s)" "pcbs s1 = pcbs (q_reset (Some Free_shms) None s)"
    by (simp_all add: s1_def)
  have "Free_shms \<noteq> Sleeping" by simp
  note k = kinv_reset [OF assms(1,2) this]
  have k1: "kinv H F K s1" "q_view s1 = q_view s" using k kinv_cong [OF same] q_repr_cong(5) [OF same(1-3)] by auto
  have "n_other (q_view s1) + length (map (shms lk) [0..<MAX_SHMS]) \<le> OTHER_MAX" using assms(3) k1(2) by simp
  from shm_loop [OF k1(1) this] obtain t where
    t: "dealloc_loop shm_dealloc (map (shms lk) [0..<MAX_SHMS]) STAT_SUCCESS s1 = Inr (STAT_SUCCESS, t)" "kinv H F K t"
      "boot_same s1 t" "q_view t = (q_view s1)(Free_shms := q_view s1 Free_shms @ map (\<lambda>a. (0, Some (Shm a))) (map (shms lk) [0..<MAX_SHMS]))"
      "current t = current s1" "next_pid t = next_pid s1" "pcbs t = pcbs s1" by blast
  let ?u = "c_puts '' sharedmem '' (t\<lparr>current_shms := 0, next_shm := 0\<rparr>)"
  have su: "queues ?u = queues t" "qnodes ?u = qnodes t" "free_qnodes ?u = free_qnodes t" "pcbs ?u = pcbs t"
    by (simp_all add: c_puts_def)
  show thesis
  proof (rule that)
    show "shm_init lk s = Inr ?u" using t(1) by (simp add: shm_init_def Let_def s1_def)
    show "kinv H F K ?u" using t(2) kinv_cong [OF su] by blast
    have "boot_same s s1" by (simp add: s1_def)
    moreover have "boot_same t (t\<lparr>current_shms := 0, next_shm := 0\<rparr>)" by (simp add: boot_same_def same_sio_def)
    ultimately show "boot_same s ?u" using boot_same_trans [OF _ t(3)] boot_same_trans by auto
    show "q_view ?u = (q_view s)(Free_shms := map (\<lambda>a. (0, Some (Shm a))) (map (shms lk) [0..<MAX_SHMS]))"
      using t(4) k1(2) assms(2) q_repr_cong(5) [OF su(1-3)] by simp
  qed (simp_all add: c_puts_def t(5-7) s1_def)
qed

text \<open>The serial line, the clock, the system calls and the memory of the segments.\<close>

definition middle_init :: "linkage \<Rightarrow> kstate \<Rightarrow> kstate" where
  "middle_init lk s = mem_init lk (sys_init (clock_init lk (sio_init s)))"

lemma middle_init_ok:
  "queues (middle_init lk s) = queues s" "qnodes (middle_init lk s) = qnodes s"
  "free_qnodes (middle_init lk s) = free_qnodes s" "pcbs (middle_init lk s) = pcbs s"
  "current (middle_init lk s) = current s" "next_pid (middle_init lk s) = next_pid s"
  "inq (middle_init lk s) = inq s" "isr_table (middle_init lk s) = isr_table s" "env_ok (middle_init lk s)"
proof -
  define a where "a = sio_init s"
  define b where "b = clock_init lk a"
  define c where "c = sys_init b"
  have a: "queues a = queues s" "qnodes a = qnodes s" "free_qnodes a = free_qnodes s" "pcbs a = pcbs s"
    "current a = current s" "next_pid a = next_pid s" "inq a = inq s" "isr_table a = isr_table s"
    "innext a = 0" "inlast a = 0" "incount a = 0" "outnext a = 0" "outlast a = 0" "outcount a = 0"
    by (simp_all add: a_def sio_init_def Let_def outb_def c_puts_def)
  have b: "queues b = queues s" "qnodes b = qnodes s" "free_qnodes b = free_qnodes s" "pcbs b = pcbs s"
    "current b = current s" "next_pid b = next_pid s" "inq b = inq s" "isr_table b = isr_table s"
    "innext b = 0" "inlast b = 0" "incount b = 0" "outnext b = 0" "outlast b = 0" "outcount b = 0"
    by (simp_all add: b_def clock_init_def Let_def outb_def c_puts_def a)
  have c: "queues c = queues s" "qnodes c = qnodes s" "free_qnodes c = free_qnodes s" "pcbs c = pcbs s"
    "current c = current s" "next_pid c = next_pid s" "inq c = inq s" "isr_table c = isr_table s"
    "innext c = 0" "inlast c = 0" "incount c = 0" "outnext c = 0" "outlast c = 0" "outcount c = 0" "table_ok c"
    using table_ok_init [of b]
    by (simp_all add: c_def b) (simp_all add: sys_init_def Let_def c_printf_def b)
  obtain x where x: "memclr (memory_addr lk) MAX_MEM_SIZE c = c\<lparr>mem := x\<rparr>" using memclr_only_mem by blast
  have m: "middle_init lk s = c\<lparr>mem := x, free_ptr := memory_addr lk, io := io c @ [Puts '' clearmem '']\<rparr>"
    unfolding middle_init_def mem_init_def Let_def a_def [symmetric] b_def [symmetric] c_def [symmetric] x
    by (simp add: c_puts_def)
  show "queues (middle_init lk s) = queues s" "qnodes (middle_init lk s) = qnodes s"
    "free_qnodes (middle_init lk s) = free_qnodes s" "pcbs (middle_init lk s) = pcbs s"
    "current (middle_init lk s) = current s" "next_pid (middle_init lk s) = next_pid s"
    "inq (middle_init lk s) = inq s" "isr_table (middle_init lk s) = isr_table s"
    unfolding m by (simp_all add: c)
  show "env_ok (middle_init lk s)"
    unfolding m using c by (simp add: env_ok_def in_ok_def out_ok_def table_ok_def)
qed

lemma q_init_same:
  "queues (q_init s) = queues s" "inq (q_init s) = inq s" "isr_table (q_init s) = isr_table s"
proof -
  define u where "u = s\<lparr>qnodes := (\<lambda>i. if i < N_QNODES then zero_qnode else qnodes s i), free_qnodes := None\<rparr>"
  have "q_init s = c_puts '' queue'' (fold (\<lambda>i. qn_dealloc (Some i)) [0..<N_QNODES] u)" by (simp add: q_init_def u_def)
  moreover have "queues (fold (\<lambda>n. qn_dealloc (Some n)) [0..<N_QNODES] u) = queues u"
    "q_frame u (fold (\<lambda>n. qn_dealloc (Some n)) [0..<N_QNODES] u)" using fold_qn_dealloc by blast+
  ultimately show "queues (q_init s) = queues s" "inq (q_init s) = inq s" "isr_table (q_init s) = isr_table s"
    by (simp_all add: c_puts_def q_frame_fields) (simp_all add: u_def)
qed

text \<open>
  All modules, with the IDE controller as the match \<open>m\<close> behind the probes \<open>ps\<close>.
\<close>

definition fresh_pools :: "linkage \<Rightarrow> queue_id \<Rightarrow> (u32 \<times> obj option) list" where
  "fresh_pools lk = (\<lambda>_. [])(Free_pcbs := map (\<lambda>i. (0, Some (Pcb i))) [0..<MAX_PROCS],
     Free_stacks := map (\<lambda>i. (0, Some (Stack i))) [0..<MAX_PROCS],
     Free_shms := map (\<lambda>a. (0, Some (Shm a))) (map (shms lk) [0..<MAX_SHMS]))"

definition ide_found :: "(u32 \<times> u32) list \<Rightarrow> u32 \<times> u32 \<Rightarrow> bool" where
  "ide_found ps m \<longleftrightarrow> (\<forall>p \<in> set ps. \<not> probe_matches ICH5_IDE_CTRL_VENDOR_ID ICH5_IDE_CTRL_DEVICE_ID p) \<and>
     probe_matches ICH5_IDE_CTRL_VENDOR_ID ICH5_IDE_CTRL_DEVICE_ID m \<and> length ps < 255"

definition module_handler :: "u32 \<Rightarrow> isr_fcn" where
  "module_handler e = (if e = INT_VEC_KEYBOARD then Keyboard_isr else if e = INT_VEC_TIMER then Default_expected_handler
     else if e = ATA_INT_VEC_PRI_PATA then Ata_isr else Default_unexpected_handler)"

lemma init_modules_ok:
  assumes "all_empty s" "\<forall>q. hashfcn (queues s q) = None" "ide_found ps m" "inq s = probe_values (ps @ [m]) @ rest"
  obtains t where "init_modules lk stubs s = Inr t" "kinv [] [] [] t" "env_ok t" "q_view t = fresh_pools lk"
    "current t = None" "next_pid t = 0" "inq t = rest"
    "ide_controller t = \<lparr>pci_bus = 0, pci_device = 0, pci_function = of_nat (length ps)\<rparr>"
    "\<And>e. e < 256 \<Longrightarrow> isr_table t e = Some (module_handler e)"
    "\<forall>p < MAX_PROCS. context_of (pcbs t p) = None"
proof -
  obtain s1 where s1: "init_interrupts stubs s = Inr s1" "s1 = s\<lparr>io := io s1, mem := mem s1, isr_table := isr_table s1\<rparr>"
    "\<And>e. e < 256 \<Longrightarrow> isr_table s1 e = Some (if e = INT_VEC_KEYBOARD \<or> e = INT_VEC_TIMER
       then Default_expected_handler else Default_unexpected_handler)" using init_interrupts_ok [of stubs s] by metis
  define s2 where "s2 = s1\<lparr>io := io s1 @ [Console_init], isr_table := (isr_table s1)(INT_VEC_KEYBOARD := Some Keyboard_isr)\<rparr>"
  have c2: "start_console s1 = Inr s2" by (simp add: start_console_def install_isr_def s2_def)
  define s3 where "s3 = c_puts ''Module init: '' (c_puts_at_log 0 6 (replicate 80 (CHR ''='')) (c_setscroll_log 0 7 99 99 s2))"
  have q3: "queues s3 = queues s" "inq s3 = inq s" "isr_table s3 = isr_table s2"
    by (simp_all add: s3_def c_puts_def c_puts_at_log_def c_setscroll_log_def) (simp_all add: s2_def, (subst s1(2), simp)+)
  have "all_empty s3" using assms(1) by (simp add: all_empty_def q3)
  note r = q_init_repr [OF this]
  define s4 where "s4 = q_init s3"
  have q4: "q_wf s4" "q_view s4 = (\<lambda>_. [])" "n_free s4 = N_QNODES"
    using q_wfI [OF r] q_view_of_repr [OF r] by (auto simp: s4_def)
  have f4: "queues s4 = queues s3" "inq s4 = inq s3" "isr_table s4 = isr_table s3"
    by (simp_all add: s4_def q_init_same)
  obtain s5 where s5: "pcb_init s4 = Inr s5" "kinv [] [] [0..<MAX_PROCS] s5" "boot_same s4 s5"
    "q_view s5 = (\<lambda>_. [])(Free_pcbs := map (\<lambda>i. (0, Some (Pcb i))) [0..<MAX_PROCS])" "current s5 = None" "next_pid s5 = 0"
    "\<forall>p < MAX_PROCS. context_of (pcbs s5 p) = None"
    using pcb_init_ok [OF q4] assms(2) f4(1) q3(1) by metis
  have "q_view s5 Free_stacks = []" by (simp add: s5(4))
  from stack_init_kinv [OF s5(2) this] obtain s6 where s6: "stack_init s5 = Inr s6" "kinv [] [] [] s6" "boot_same s5 s6"
    "q_view s6 = (q_view s5)(Free_stacks := map (\<lambda>i. (0, Some (Stack i))) [0..<MAX_PROCS])"
    "current s6 = current s5" "next_pid s6 = next_pid s5" "pcbs s6 = pcbs s5" .
  define s7 where "s7 = middle_init lk s6"
  note m7 = middle_init_ok [of lk s6, folded s7_def]
  have k7: "kinv [] [] [] s7" "q_view s7 = q_view s6" using s6(2) kinv_cong [OF m7(1-4)] q_repr_cong(5) [OF m7(1-3)] by auto
  have "q_view s7 Free_shms = []" "n_other (q_view s7) = 0"
    by (simp_all add: k7(2) s6(4) s5(4) n_other_def other_queues_def)
  from shm_init_kinv [OF k7(1) this] obtain s8 where s8: "shm_init lk s7 = Inr s8" "kinv [] [] [] s8" "boot_same s7 s8"
    "q_view s8 = (q_view s7)(Free_shms := map (\<lambda>a. (0, Some (Shm a))) (map (shms lk) [0..<MAX_SHMS]))"
    "current s8 = current s7" "next_pid s8 = next_pid s7" "pcbs s8 = pcbs s7" .
  define s9 where "s9 = s8\<lparr>isr_table := (isr_table s8)(ATA_INT_VEC_PRI_PATA := Some Ata_isr)\<rparr>"
  have c9: "install_isr ATA_INT_VEC_PRI_PATA Ata_isr s8 = Inr (isr_table s8 ATA_INT_VEC_PRI_PATA, s9)"
    by (simp add: install_isr_def s9_def)
  have k9: "kinv [] [] [] s9" "q_view s9 = fresh_pools lk"
  proof -
    have e: "queues s9 = queues s8" "qnodes s9 = qnodes s8" "free_qnodes s9 = free_qnodes s8" "pcbs s9 = pcbs s8"
      by (simp_all add: s9_def)
    show "kinv [] [] [] s9" using s8(2) kinv_cong [OF e] by blast
    show "q_view s9 = fresh_pools lk" using q_repr_cong(5) [OF e(1-3)] by (simp add: s8(4) k7(2) s6(4) s5(4) fresh_pools_def)
  qed
  have i9: "inq s9 = probe_values (ps @ [m]) @ rest"
    using s8(3) m7(7) s6(3) s5(3) f4(2) q3(2) assms(4) by (simp add: s9_def boot_same_def)
  from assms(3) have "\<forall>p \<in> set ps. \<not> probe_matches ICH5_IDE_CTRL_VENDOR_ID ICH5_IDE_CTRL_DEVICE_ID p"
    "probe_matches ICH5_IDE_CTRL_VENDOR_ID ICH5_IDE_CTRL_DEVICE_ID m" "length ps < 255" by (auto simp: ide_found_def)
  from dev_init_ok [OF this i9] obtain t where t: "dev_init s9 = Inr t"
    "\<exists>e c r f h g. t = (q_reset (Some Ata_io_pending) None (q_reset (Some Ramdisk_io_pending) None s9))
       \<lparr>inq := rest, io := e, config_addr_reg_state := c,
        ide_controller := \<lparr>pci_bus = 0, pci_device = 0, pci_function = of_nat (length ps)\<rparr>,
        pending_requests := r, free_disk_requests := f, device_handles := h, free_device_handles := g,
        ata_device := DEV_IDE_PRI, ata_cmd_blk_reg := ATA_PRI_CMD_BLOCK_REG, ata_ctrl_blk_reg := ATA_PRI_CTRL_BLOCK_REG\<rparr>" by metis
  define r9 where "r9 = q_reset (Some Ata_io_pending) None (q_reset (Some Ramdisk_io_pending) None s9)"
  have kr: "kinv [] [] [] r9 \<and> q_view r9 = fresh_pools lk"
  proof -
    have "q_view s9 Ramdisk_io_pending = []" "Ramdisk_io_pending \<noteq> Sleeping" by (simp_all add: k9 fresh_pools_def)
    note a = kinv_reset [OF k9(1) this]
    have "q_view (q_reset (Some Ramdisk_io_pending) None s9) Ata_io_pending = []" "Ata_io_pending \<noteq> Sleeping"
      by (simp_all add: a k9 fresh_pools_def)
    note b = kinv_reset [OF a(1) this]
    show ?thesis using b a(2) k9(2) by (simp add: r9_def)
  qed
  have b69: "boot_same s9 r9" by (simp add: r9_def)
  have "env_ok s9" using s8(3) m7(9) same_env_ok
    by (auto simp: boot_same_def s9_def env_ok_def in_ok_def out_ok_def table_ok_def same_sio_def)
  then have er: "env_ok r9" using b69 same_env_ok by (auto simp: boot_same_def)
  have ir: "isr_table r9 = (isr_table s2)(ATA_INT_VEC_PRI_PATA := Some Ata_isr)"
    using b69 s8(3) m7(8) s6(3) s5(3) f4(3) q3(3) by (simp add: boot_same_def s9_def)
  have cr: "current r9 = None" "next_pid r9 = 0"
    using s8(5,6) m7(5,6) s6(5,6) s5(5,6) by (simp_all add: r9_def s9_def)
  obtain e c r f h g where u: "t = r9\<lparr>inq := rest, io := e, config_addr_reg_state := c,
        ide_controller := \<lparr>pci_bus = 0, pci_device = 0, pci_function = of_nat (length ps)\<rparr>,
        pending_requests := r, free_disk_requests := f, device_handles := h, free_device_handles := g,
        ata_device := DEV_IDE_PRI, ata_cmd_blk_reg := ATA_PRI_CMD_BLOCK_REG, ata_ctrl_blk_reg := ATA_PRI_CTRL_BLOCK_REG\<rparr>"
    using t(2) unfolding r9_def by blast
  let ?t = "c_puts '' done.\<newline>'' t"
  have et: "queues ?t = queues r9" "qnodes ?t = qnodes r9" "free_qnodes ?t = free_qnodes r9" "pcbs ?t = pcbs r9"
    by (simp_all add: u c_puts_def)
  show thesis
  proof (rule that)
    show "init_modules lk stubs s = Inr ?t"
      using s1(1) c2 s5(1) s6(1) s8(1) c9 t(1)
      by (simp add: init_modules_def Let_def flip: s3_def s4_def middle_init_def s7_def)
    show "kinv [] [] [] ?t" using kr kinv_cong [OF et] by blast
    show "q_view ?t = fresh_pools lk" using kr q_repr_cong(5) [OF et(1-3)] by simp
    show "env_ok ?t" using er by (simp add: u env_ok_def in_ok_def out_ok_def table_ok_def c_puts_def)
    show "\<forall>p < MAX_PROCS. context_of (pcbs ?t p) = None"
      using s5(7) by (simp add: et(4) r9_def s9_def s8(7) m7(4) s6(7))
    show "isr_table ?t e = Some (module_handler e)" if "e < 256" for e
      using s1(3) [OF that] by (simp add: u c_puts_def ir s2_def module_handler_def)
  qed (simp_all add: u c_puts_def cr)
qed

section \<open>The first processes\<close>

lemma first_process_ok:
  assumes k: "kinv [] [] [] s" and j: "pcbs_in (q_view s) Free_pcbs = j # js" and st: "stacks_in (q_view s) = stk # sts"
    and lvl: "unat lvl < MLQ_LEVELS"
  obtains t where "first_process lk fcn lvl m1 m2 s = Inr t" "kinv [] [] [] t" "k_frame s t"
    "pcbs t = (pcbs s)(j := (new_pcb stk (next_pid s) lvl)\<lparr>status := PROC_READY\<rparr>)"
    "current t = current s" "next_pid t = next_pid s + 1"
    "q_view t = enq (Ready (unat lvl)) j (deq Free_stacks (deq Free_pcbs (q_view s)))"
    "stacks t = stacks (snd (make_proc lk j stk fcn lvl s))"
proof -
  from kinv_pcb_alloc [OF k j] obtain s1 where s1: "pcb_alloc s = Inr (Some j, s1)"
    "kinv [] [j] [] s1" "k_frame s s1" "pcbs s1 = (pcbs s)(j := (pcbs s j)\<lparr>status := PROC_NEW\<rparr>)"
    "current s1 = current s" "next_pid s1 = next_pid s" "stacks s1 = stacks s"
    "q_view s1 = deq Free_pcbs (q_view s)" by (auto simp: deq_def)
  have "stacks_in (q_view s1) = stk # sts" using st by (simp add: s1(8) stacks_in_def deq_def)
  from kinv_stack_alloc [OF s1(2) this] obtain s2 where s2: "stack_alloc s1 = Inr (Some stk, s2)"
    "kinv [] [j] [stk] s2" "q_frame s1 s2" "q_view s2 = deq Free_stacks (q_view s1)" by (auto simp: deq_def)
  note f2 = q_frame_fields [OF s2(3)]
  define s3 where "s3 = snd (make_proc lk j stk fcn lvl s2)"
  have mp: "make_proc lk j stk fcn lvl s2 = (next_pid s, s3)"
    by (simp add: s3_def prod_eq_iff make_proc_eq f2 s1)
  note m = make_proc_eq [where lk = lk and i = j and stk = stk and fcn = fcn and lvl = lvl and s = s2, folded s3_def]
  have k3: "kinv (j # []) [] [] s3" unfolding s3_def by (rule kinv_make_proc [OF s2(2) lvl])
  have pc3: "pcbs s3 = (pcbs s)(j := new_pcb stk (next_pid s) lvl)" by (simp add: m f2 s1)
  have lj: "level (pcbs s3 j) = lvl" by (simp add: pc3 new_pcb_def)
  have v3: "q_view s3 = deq Free_stacks (deq Free_pcbs (q_view s))"
    using s2(4) s1(8) make_proc_view [of lk j stk fcn lvl s2] by (simp add: s3_def)
  from kinv_schedule [OF k3] lj obtain t where t: "schedule j s3 = Inr (STAT_SUCCESS, t)"
    "kinv [] [] [] t" "k_frame s3 t" "pcbs t = (pcbs s3)(j := (pcbs s3 j)\<lparr>status := PROC_READY\<rparr>)"
    "current t = current s3" "next_pid t = next_pid s3" "stacks t = stacks s3"
    "q_view t = enq (Ready (unat lvl)) j (q_view s3)" by (auto simp: enq_def)
  show thesis
  proof (rule that)
    show "first_process lk fcn lvl m1 m2 s = Inr t"
      using s1(1) s2(1) mp t(1) by (simp add: first_process_def)
    show "k_frame s t"
      using s1(3) q_frame_k_frame [OF s2(3)] m(4) t(3) k_frame_trans by blast
    show "stacks t = stacks (snd (make_proc lk j stk fcn lvl s))"
      by (simp add: t(7) s3_def make_proc_stacks f2 s1(7) cong: if_cong)
  qed (use t in \<open>simp_all add: pc3 v3 m f2 s1\<close>)
qed

text \<open>The handlers when \<open>_init\<close> returns.\<close>

definition boot_handler :: "u32 \<Rightarrow> isr_fcn" where
  "boot_handler e = (if e = INT_VEC_TIMER then Isr_clock else if e = INT_VEC_SYSCALL then Isr_syscall
     else if e = INT_VEC_SERIAL_PORT_1 then Isr_sio else module_handler e)"

lemma fresh_views:
  "pcbs_in (fresh_pools lk) Free_pcbs = [0..<MAX_PROCS]" "stacks_in (fresh_pools lk) = [0..<MAX_PROCS]"
  "fresh_pools lk (Ready l) = []"
  by (simp_all add: fresh_pools_def pcbs_in_def stacks_in_def comp_def)

lemma views_enq:
  "pcbs_in (enq q p v) Free_pcbs = (if q = Free_pcbs then pcbs_in v Free_pcbs @ [p] else pcbs_in v Free_pcbs)"
  "q \<noteq> Free_stacks \<Longrightarrow> stacks_in (enq q p v) = stacks_in v"
  "pcbs_in (deq q v) r = (if r = q then tl (pcbs_in v q) else pcbs_in v r)"
  "stacks_in (deq q v) = (if q = Free_stacks then tl (stacks_in v) else stacks_in v)"
  "pcbs_in (enq q p v) (Ready l) = pcbs_in v (Ready l) @ (if q = Ready l then [p] else [])"
  by (simp_all add: pcbs_in_def enq_def deq_def stacks_in_def map_tl)

lemma make_proc_other: "k \<noteq> stk \<Longrightarrow> stacks (snd (make_proc lk i stk fcn lvl s)) k = stacks s k"
  by (subst make_proc_stacks) simp

lemma k_frame_ide: "k_frame s t \<Longrightarrow> ide_controller t = ide_controller s"
proof -
  assume "k_frame s t"
  then have eq: "(core t)\<lparr>queues := queues (core s), qnodes := qnodes (core s), free_qnodes := free_qnodes (core s)\<rparr> = core s"
    by (simp add: k_frame_def q_frame_def)
  show ?thesis using arg_cong [OF eq, of ide_controller] by (simp add: core_def)
qed

lemma kernel_init_ok:
  assumes "all_empty s" "\<forall>q. hashfcn (queues s q) = None" "ide_found ps m" "inq s = probe_values (ps @ [m]) @ rest"
  obtains t where "kernel_init lk stubs s = Inr t" "kernel_ok 0 t" "current t = Some 1"
    "ready_seq (q_view t) = [2, 0]" "map (\<lambda>i. pid (pcbs t i)) [0, 1, 2] = [0, 1, 2]" "next_pid t = 3"
    "stacks t 0 1019 = user_idle_addr lk" "stacks t 1 1019 = user_first_addr lk" "stacks t 2 1019 = ata_test_proc_addr lk"
    "\<And>e. e < 256 \<Longrightarrow> isr_table t e = Some (boot_handler e)" "inq t = rest"
    "ide_controller t = \<lparr>pci_bus = 0, pci_device = 0, pci_function = of_nat (length ps)\<rparr>"
    "\<And>p. p < MAX_PROCS \<Longrightarrow> context_of (pcbs t p) = (if p < 3 then Some (p, STACK_SIZE - 2 - CTX_WORDS) else None)"
    "\<And>p. p < 3 \<Longrightarrow> stack (pcbs t p) = Some p"
    "\<And>p w. p < 3 \<Longrightarrow> w < STACK_SIZE \<Longrightarrow> stacks t p w =
       new_stack lk ([user_idle_addr lk, user_first_addr lk, ata_test_proc_addr lk] ! p) w"
proof -
  from init_modules_ok [OF assms] obtain s0 where s0: "init_modules lk stubs s = Inr s0" "kinv [] [] [] s0" "env_ok s0"
    "q_view s0 = fresh_pools lk" "current s0 = None" "next_pid s0 = 0" "inq s0 = rest"
    "ide_controller s0 = \<lparr>pci_bus = 0, pci_device = 0, pci_function = of_nat (length ps)\<rparr>"
    "\<And>e. e < 256 \<Longrightarrow> isr_table s0 e = Some (module_handler e)"
    "\<forall>p < MAX_PROCS. context_of (pcbs s0 p) = None" by metis
  define s1 where "s1 = s0\<lparr>isr_table := (isr_table s0)(INT_VEC_TIMER := Some Isr_clock, INT_VEC_SYSCALL := Some Isr_syscall,
     INT_VEC_SERIAL_PORT_1 := Some Isr_sio)\<rparr>"
  have e1: "queues s1 = queues s0" "qnodes s1 = qnodes s0" "free_qnodes s1 = free_qnodes s0" "pcbs s1 = pcbs s0"
    by (simp_all add: s1_def)
  have k1: "kinv [] [] [] s1" "q_view s1 = fresh_pools lk"
    using s0(2,4) kinv_cong [OF e1] q_repr_cong(5) [OF e1(1-3)] by auto
  have c24: "[0..<MAX_PROCS] = 0 # 1 # 2 # [3..<MAX_PROCS]" by (simp add: upt_rec)
  have "pcbs_in (q_view s1) Free_pcbs = 0 # 1 # 2 # [3..<MAX_PROCS]" "stacks_in (q_view s1) = 0 # 1 # 2 # [3..<MAX_PROCS]"
    unfolding k1(2) fresh_views c24 by simp_all
  note p1 = this
  have l: "unat LEVEL_LOW < MLQ_LEVELS" "unat LEVEL_DEFAULT < MLQ_LEVELS" by simp_all
  obtain s2 where s2: "first_process lk (user_idle_addr lk) LEVEL_LOW
       ''_init: idle pcb alloc failed'' ''_init: idle stack alloc failed'' s1 = Inr s2" "kinv [] [] [] s2" "k_frame s1 s2"
    "pcbs s2 = (pcbs s1)(0 := (new_pcb 0 (next_pid s1) LEVEL_LOW)\<lparr>status := PROC_READY\<rparr>)"
    "current s2 = current s1" "next_pid s2 = next_pid s1 + 1"
    "q_view s2 = enq (Ready (unat LEVEL_LOW)) 0 (deq Free_stacks (deq Free_pcbs (q_view s1)))"
    "stacks s2 = stacks (snd (make_proc lk 0 0 (user_idle_addr lk) LEVEL_LOW s1))"
    by (rule first_process_ok [OF k1(1) p1 l(1)])
  have p2: "pcbs_in (q_view s2) Free_pcbs = 1 # 2 # [3..<MAX_PROCS]" "stacks_in (q_view s2) = 1 # 2 # [3..<MAX_PROCS]"
    unfolding s2(7) by (simp_all add: views_enq p1)
  obtain s3 where s3: "first_process lk (user_first_addr lk) LEVEL_DEFAULT
       ''_init: first pcb alloc failed'' ''_init: first stack alloc failed'' s2 = Inr s3" "kinv [] [] [] s3" "k_frame s2 s3"
    "pcbs s3 = (pcbs s2)(1 := (new_pcb 1 (next_pid s2) LEVEL_DEFAULT)\<lparr>status := PROC_READY\<rparr>)"
    "current s3 = current s2" "next_pid s3 = next_pid s2 + 1"
    "q_view s3 = enq (Ready (unat LEVEL_DEFAULT)) 1 (deq Free_stacks (deq Free_pcbs (q_view s2)))"
    "stacks s3 = stacks (snd (make_proc lk 1 1 (user_first_addr lk) LEVEL_DEFAULT s2))"
    by (rule first_process_ok [OF s2(2) p2 l(2)])
  have p3: "pcbs_in (q_view s3) Free_pcbs = 2 # [3..<MAX_PROCS]" "stacks_in (q_view s3) = 2 # [3..<MAX_PROCS]"
    unfolding s3(7) by (simp_all add: views_enq p2)
  obtain s4 where s4: "first_process lk (ata_test_proc_addr lk) LEVEL_DEFAULT
       ''_init: first pcb alloc failed'' ''_init: first stack alloc failed'' s3 = Inr s4" "kinv [] [] [] s4" "k_frame s3 s4"
    "pcbs s4 = (pcbs s3)(2 := (new_pcb 2 (next_pid s3) LEVEL_DEFAULT)\<lparr>status := PROC_READY\<rparr>)"
    "current s4 = current s3" "next_pid s4 = next_pid s3 + 1"
    "q_view s4 = enq (Ready (unat LEVEL_DEFAULT)) 2 (deq Free_stacks (deq Free_pcbs (q_view s3)))"
    "stacks s4 = stacks (snd (make_proc lk 2 2 (ata_test_proc_addr lk) LEVEL_DEFAULT s3))"
    by (rule first_process_ok [OF s3(2) p3 l(2)])
  have lv: "unat LEVEL_LOW = 2" "unat LEVEL_DEFAULT = 1" "[0..<MLQ_LEVELS] = [0, 1, 2]"
    by (simp_all add: upt_rec)
  have seq: "ready_seq (q_view s4) = [1, 2, 0]"
    unfolding s4(7) s3(7) s2(7) k1(2) lv ready_from_def
    by (simp add: views_enq fresh_views) (simp add: pcbs_in_def fresh_pools_def)
  have pid: "pid (pcbs s4 0) = 0" "pid (pcbs s4 1) = 1" "pid (pcbs s4 2) = 2" "next_pid s4 = 3"
    "status (pcbs s4 0) = PROC_READY" "status (pcbs s4 1) = PROC_READY"
    by (simp_all add: s4(4,6) s3(4,6) s2(4,6) s1_def s0(6) new_pcb_def)
  have "k_frame s1 s4" using s2(3) s3(3) s4(3) k_frame_trans by blast
  note f = k_frame_fields [OF this]
  have idle: "idle_ready 0 s4" using pid by (simp add: idle_ready_def seq)
  have "dropWhile (zombie (pcbs s4)) (ready_seq (q_view s4)) = 1 # [2, 0]"
    "takeWhile (zombie (pcbs s4)) (ready_seq (q_view s4)) = []"
    using pid(6) by (simp_all add: seq zombie_def)
  with dispatch_rest [OF s4(2) idle] obtain s5 where s5: "dispatch s4 = Inr s5" "running 1 s5" "idle_ok 0 s5"
    "same_sio s4 s5" "dispatched [] 1 [2, 0] s4 s5" by (metis list.inject)
  define t where "t = c_puts ''System initialization complete.\<newline>'' (snd (sio_enable True True s5))"
  have t1: "same_procs s5 t" "same_sio s5 t" "stacks t = stacks s5" "isr_table t = isr_table s5" "inq t = inq s5"
    "next_pid t = next_pid s5" "ide_controller t = ide_controller s5"
    by (simp_all add: t_def sio_enable_def Let_def same_procs_def same_sio_def outb_def c_puts_def)
  note d = s5(5) [unfolded dispatched_def]
  have g: "k_frame s1 s5" using \<open>k_frame s1 s4\<close> d k_frame_trans by blast
  note g5 = k_frame_fields [OF g] k_frame_ide [OF g]
  have "same_sio s0 s1" by (simp add: same_sio_def s1_def)
  then have "same_sio s0 s5" using k_frame_sio [OF g] same_trans(2) by blast
  then have env: "env_ok s5" using s0(3) same_sio_cong by blast
  note p5 = same_procs_cong [OF t1(1)]
  show thesis
  proof (rule that)
    have "install_isr INT_VEC_TIMER Isr_clock s0 = Inr (isr_table s0 INT_VEC_TIMER, s0\<lparr>isr_table := (isr_table s0)(INT_VEC_TIMER := Some Isr_clock)\<rparr>)"
      by (simp add: install_isr_def)
    then show "kernel_init lk stubs s = Inr t"
      using s0(1) s2(1) s3(1) s4(1) s5(1)
      by (simp add: kernel_init_def install_isr_def t_def split_beta s1_def)
    show "kernel_ok 0 t"
      using kernel_okI [OF s5(2,3) env] kernel_ok_cong [OF t1(1,2)] by blast
    show "current t = Some 1" "ready_seq (q_view t) = [2, 0]" using d p5 by auto
    show "map (\<lambda>i. pid (pcbs t i)) [0, 1, 2] = [0, 1, 2]" "next_pid t = 3"
      using d pid by (simp_all add: p5 t1)
    show "stacks t 0 1019 = user_idle_addr lk" "stacks t 1 1019 = user_first_addr lk" "stacks t 2 1019 = ata_test_proc_addr lk"
      using d by (simp_all add: t1 s4(8) s3(8) s2(8) make_proc_stacks)
    show "isr_table t e = Some (boot_handler e)" if "e < 256" for e
      using s0(9) [OF that] by (simp add: t1 g5 s1_def boot_handler_def)
    show "context_of (pcbs t p) = (if p < 3 then Some (p, STACK_SIZE - 2 - CTX_WORDS) else None)" if "p < MAX_PROCS" for p
      using d s0(10) that by (auto simp: p5 s4(4) s3(4) s2(4) e1(4) new_pcb_def)
    show "stack (pcbs t p) = Some p" if "p < 3" for p
      using d that by (auto simp: p5 s4(4) s3(4) s2(4) e1(4) new_pcb_def)
    show "stacks t p w = new_stack lk ([user_idle_addr lk, user_first_addr lk, ata_test_proc_addr lk] ! p) w"
      if "p < 3" "w < STACK_SIZE" for p w
    proof -
      have st: "stacks t = stacks s4" using d by (simp add: t1)
      from that(1) consider "p = 0" | "p = 1" | "p = 2" by linarith
      then show ?thesis
        by cases (simp_all add: st s4(8) s3(8) s2(8) make_proc_stack [OF that(2)] make_proc_other)
    qed
  qed (simp_all add: t1 g5 s1_def s0)
qed

end
