(* ===== verification/Shm_Laws.thy ===== *)
theory Shm_Laws
  imports Klibc Syscall_Laws
begin

text \<open>
  The calls for shared memory seen from their users: what the structs and the memory of a segment
  hold after each of them.
\<close>

section \<open>Structs that do not overlap\<close>

definition apart :: "u32 \<Rightarrow> u32 \<Rightarrow> bool" where
  "apart a b \<longleftrightarrow> SHM_SIZEOF \<le> b - a \<and> SHM_SIZEOF \<le> a - b"

lemma apart_bytes:
  assumes "apart a b" "i < SHM_SIZEOF" "j < SHM_SIZEOF"
  shows "a + i \<noteq> b + j" "b + j \<noteq> a + i"
  using words_apart [of SHM_SIZEOF b a SHM_SIZEOF i j] assms by (auto simp: apart_def)

text \<open>What a store to a field of the struct at \<open>a\<close> leaves of the struct at \<open>b\<close>.\<close>

lemma apart_word:
  assumes "apart a b" "i < SHM_SIZEOF - 1" "j < SHM_SIZEOF - 1"
  shows "ld16 (b + j) (st16 (a + i) v s) = ld16 (b + j) s"
proof -
  have s: "i < SHM_SIZEOF" "j < SHM_SIZEOF" "i + 1 < SHM_SIZEOF" "j + 1 < SHM_SIZEOF"
    using assms(2,3) by unat_arith+
  show ?thesis
    using apart_bytes [OF assms(1) s(1) s(2)] apart_bytes [OF assms(1) s(3) s(2)]
      apart_bytes [OF assms(1) s(1) s(4)] apart_bytes [OF assms(1) s(3) s(4)]
    by (simp add: ld16_def st16_def add.assoc)
qed

lemma apart_long:
  assumes "apart a b" "i < SHM_SIZEOF - 3" "j < SHM_SIZEOF - 1"
  shows "ld16 (b + j) (st32 (a + i) v s) = ld16 (b + j) s"
proof -
  have "i < SHM_SIZEOF - 1" "i + 2 < SHM_SIZEOF - 1" using assms(2) by unat_arith+
  then show ?thesis using apart_word [OF assms(1) _ assms(3)] by (simp add: st32_def add.assoc)
qed

lemma apart_pids:
  assumes "apart a b" "k < 2" "j < 2"
  shows "shm_current_pids b j (set_shm_current_pids a k v s) = shm_current_pids b j s"
    "shm_current_pids b j (set_shm_num_members a w s) = shm_current_pids b j s"
proof -
  have "of_nat k * 2 + 18 < (23 :: u32)" "of_nat j * 2 + 18 < (23 :: u32)"
    using assms(2,3) by (auto simp: less_2_cases_iff)
  then have b: "18 + 2 * of_nat k < SHM_SIZEOF - 1" "18 + 2 * of_nat j < SHM_SIZEOF - 1"
    by (simp_all add: mult.commute add.commute)
  show "shm_current_pids b j (set_shm_current_pids a k v s) = shm_current_pids b j s"
    using apart_word [OF assms(1) b] by (simp add: shm_current_pids_def set_shm_current_pids_def add.assoc)
  show "shm_current_pids b j (set_shm_num_members a w s) = shm_current_pids b j s"
    using apart_long [OF assms(1) _ b(2), of 4] by (simp add: shm_current_pids_def set_shm_num_members_def add.assoc)
qed

lemma shm_fields_simps [simp]:
  "pcbs (set_shm_current_pids a k v s) = pcbs s" "pcbs (set_shm_num_members a w s) = pcbs s"
  "current (set_shm_current_pids a k v s) = current s" "current (set_shm_num_members a w s) = current s"
  "current_shms (set_shm_current_pids a k v s) = current_shms s" "current_shms (set_shm_num_members a w s) = current_shms s"
  "shm_current_pids b j (ctx_set c i x s) = shm_current_pids b j s"
  "mem (ctx_set c i x s) = mem s"
  by (simp_all add: set_shm_current_pids_def set_shm_num_members_def st32_def st16_def ctx_set_def
      shm_current_pids_def ld16_def)

lemma own_address:
  "shm_address a (set_shm_current_pids a k v s) = shm_address a s" if "k < 2"
  using that by (auto simp: shm_address_def set_shm_current_pids_def ld32_def ld16_def st16_def less_2_cases_iff add.assoc)

lemma own_address_num: "shm_address a (set_shm_num_members a w s) = shm_address a s"
  by (simp add: shm_address_def set_shm_num_members_def ld32_def ld16_def st32_def st16_def add.assoc)

lemma pids_cong: "mem t = mem s \<Longrightarrow> shm_current_pids b j t = shm_current_pids b j s"
  by (simp add: shm_current_pids_def ld16_def)

section \<open>Attaching and the other calls\<close>

lemma ctx_get_set [simp]: "ctx_get c w (ctx_set c w v s) = v"
  by (simp add: ctx_get_def)

lemma own_pid: "shm_current_pids b k (set_shm_num_members b w (set_shm_current_pids b k v s)) = v" if "k < 2"
  using that by (auto simp: shm_current_pids_def set_shm_num_members_def set_shm_current_pids_def st32_def st16_def
      ld16_def cat_split_16 less_2_cases_iff add.assoc)

definition denied :: "(context_ptr \<Rightarrow> kstate \<Rightarrow> kstate outcome) \<Rightarrow> context_ptr \<Rightarrow> kstate \<Rightarrow> bool" where
  "denied call d u \<longleftrightarrow> (\<exists>w. call d u = Inr w \<and> ctx_get d CTX_EAX w = -1 \<and> mem w = mem u)"

lemma not_member_denied:
  assumes "current u = Some cur" "sys_arg d 0 u = m" "pid (pcbs u cur) \<notin> {shm_current_pids m 0 u, shm_current_pids m 1 u}"
  shows "denied sys_shmwrite d u" "denied sys_shmread d u" "denied sys_shmdt d u"
  using assms by (simp_all add: denied_def sys_shmwrite_def sys_shmread_def sys_shmdt_def Let_def c_printf_def)

lemma shmat_joins:
  assumes cur: "current s = Some cur" and seg: "sys_arg c 0 s = ucast (shm_id (current_shms s) s)"
    and room: "shm_num_members (current_shms s) s < 2"
  obtains t k where "sys_shmat c s = Inr t" "k < 2" "ctx_get c CTX_EAX t = shm_address (current_shms s) s"
    "shm_current_pids (current_shms s) k t = pid (pcbs s cur)" "current t = current s" "pcbs t = pcbs s"
    "mem t = mem (set_shm_num_members (current_shms s) (of_nat k + 1)
       (set_shm_current_pids (current_shms s) k (pid (pcbs s cur)) s))"
proof -
  define a where "a = current_shms s"
  define p where "p = pid (pcbs s cur)"
  have n: "shm_num_members a (set_shm_current_pids a k v u) = shm_num_members a u" if "k < 2" for k v u
    using that by (auto simp: shm_num_members_def set_shm_current_pids_def ld32_def ld16_def st16_def
        less_2_cases_iff add.assoc)
  from room have "shm_num_members a s = of_nat 0 \<or> shm_num_members a s = of_nat 1"
    unfolding a_def by (simp add: unat_arith_simps) linarith
  moreover have "(0 :: nat) < 2" "(1 :: nat) < 2" by simp_all
  ultimately obtain k where k: "k < 2" "shm_num_members a s = of_nat k" by blast
  let ?u = "set_shm_num_members a (of_nat k + 1) (set_shm_current_pids a k p s)"
  let ?t = "ctx_set c CTX_EAX (shm_address a ?u) ?u"
  show thesis
  proof (rule that)
    show "sys_shmat c s = Inr ?t"
      using cur seg k by (auto simp: sys_shmat_def Let_def n less_2_cases_iff simp flip: a_def p_def)
    show "ctx_get c CTX_EAX ?t = shm_address (current_shms s) s"
      by (simp add: own_address [OF k(1)] own_address_num flip: a_def)
    show "shm_current_pids (current_shms s) k ?t = pid (pcbs s cur)"
      by (simp add: own_pid [OF k(1)] flip: a_def p_def)
    show "mem ?t = mem (set_shm_num_members (current_shms s) (of_nat k + 1)
       (set_shm_current_pids (current_shms s) k (pid (pcbs s cur)) s))"
      by (simp flip: a_def p_def)
  qed (use k(1) in simp_all)
qed

text \<open>
  \<open>_sys_shmat\<close> returns the address of the memory of the segment and not that of its struct, and the
  other calls take what they are given for a struct.
\<close>

lemma shmat_then_denied:
  assumes cur: "current s = Some cur" and seg: "sys_arg c 0 s = ucast (shm_id (current_shms s) s)"
    and room: "shm_num_members (current_shms s) s < 2"
    and ap: "apart (current_shms s) (shm_address (current_shms s) s)"
    and m: "pid (pcbs s cur) \<notin> {shm_current_pids (shm_address (current_shms s) s) 0 s,
              shm_current_pids (shm_address (current_shms s) s) 1 s}"
  obtains t k where "sys_shmat c s = Inr t" "k < 2" "ctx_get c CTX_EAX t = shm_address (current_shms s) s"
    "shm_current_pids (current_shms s) k t = pid (pcbs s cur)" "current t = current s" "pcbs t = pcbs s"
    "\<And>call d u. call \<in> {sys_shmwrite, sys_shmread, sys_shmdt} \<Longrightarrow> mem u = mem t \<Longrightarrow> current u = Some cur \<Longrightarrow>
       pid (pcbs u cur) = pid (pcbs s cur) \<Longrightarrow> sys_arg d 0 u = ctx_get c CTX_EAX t \<Longrightarrow> denied call d u"
proof -
  from shmat_joins [OF cur seg room] obtain t k where t: "sys_shmat c s = Inr t" "k < 2"
    "ctx_get c CTX_EAX t = shm_address (current_shms s) s"
    "shm_current_pids (current_shms s) k t = pid (pcbs s cur)" "current t = current s" "pcbs t = pcbs s"
    "mem t = mem (set_shm_num_members (current_shms s) (of_nat k + 1)
       (set_shm_current_pids (current_shms s) k (pid (pcbs s cur)) s))" .
  let ?m = "shm_address (current_shms s) s"
  have same: "shm_current_pids ?m j u = shm_current_pids ?m j s" if "mem u = mem t" "j < 2" for u j
    using pids_cong [of u "set_shm_num_members (current_shms s) (of_nat k + 1)
       (set_shm_current_pids (current_shms s) k (pid (pcbs s cur)) s)" ?m j] that t(7)
    by (simp add: apart_pids [OF ap t(2) that(2)])
  show thesis
  proof (rule that [OF t(1-6)])
    fix call d u assume c: "call \<in> {sys_shmwrite, sys_shmread, sys_shmdt}" and u: "mem u = mem t" "current u = Some cur"
      "pid (pcbs u cur) = pid (pcbs s cur)" "sys_arg d 0 u = ctx_get c CTX_EAX t"
    have "pid (pcbs u cur) \<notin> {shm_current_pids ?m 0 u, shm_current_pids ?m 1 u}"
      using m u(3) same [OF u(1), of 0] same [OF u(1), of 1] by simp
    moreover have "sys_arg d 0 u = ?m" using u(4) t(3) by simp
    ultimately show "denied call d u" using c not_member_denied [OF u(2)] by blast
  qed
qed

section \<open>A message through a segment\<close>

lemma shmwrite_ok:
  assumes cur: "current s = Some cur" and a: "sys_arg c 0 s = a" "sys_arg c 1 s = src"
    and mem: "pid (pcbs s cur) \<in> {shm_current_pids a 0 s, shm_current_pids a 1 s}"
    and str: "cstring src msg s" "Suc (length msg) < 2 ^ 32" "disjoint_blocks (shm_address a s) src (of_nat (Suc (length msg)))"
  obtains t where "sys_shmwrite c s = Inr t" "ctx_get c CTX_EAX t = 1" "cstring (shm_address a s) msg t"
    "\<And>x. \<not> unat (x - shm_address a s) < Suc (length msg) \<Longrightarrow> mem t x = mem s x"
proof -
  have len: "length msg < STRCPY_FUEL" "length msg < 2 ^ 32" using str(2) by (simp_all add: STRCPY_FUEL_def)
  from strcpy_ok [OF str(1) len str(3,2)] obtain u where
    u: "strcpy STRCPY_FUEL (shm_address a s) src s = Inr (shm_address a s + of_nat (length msg) + 1, u)"
      "cstring (shm_address a s) msg u" "\<forall>x. \<not> unat (x - shm_address a s) < Suc (length msg) \<longrightarrow> mem u x = mem s x" by blast
  show thesis
  proof (rule that)
    show "sys_shmwrite c s = Inr (ctx_set c CTX_EAX 1 u)" using cur a mem u(1) by (auto simp: sys_shmwrite_def)
    show "cstring (shm_address a s) msg (ctx_set c CTX_EAX 1 u)" using u(2) by (simp add: cstring_def)
  qed (use u(3) in simp_all)
qed

lemma shmread_ok:
  assumes cur: "current s = Some cur" and a: "sys_arg c 0 s = a" "sys_arg c 1 s = dst"
    and mem: "pid (pcbs s cur) \<in> {shm_current_pids a 0 s, shm_current_pids a 1 s}"
    and str: "cstring (shm_address a s) msg s" "Suc (length msg) < 2 ^ 32"
      "disjoint_blocks dst (shm_address a s) (of_nat (Suc (length msg)))"
  obtains t where "sys_shmread c s = Inr t" "ctx_get c CTX_EAX t = 1" "cstring dst msg t"
    "\<And>x. \<not> unat (x - dst) < Suc (length msg) \<Longrightarrow> mem t x = mem s x"
proof -
  have len: "length msg < STRCPY_FUEL" "length msg < 2 ^ 32" using str(2) by (simp_all add: STRCPY_FUEL_def)
  from strcpy_ok [OF str(1) len str(3,2)] obtain u where
    u: "strcpy STRCPY_FUEL dst (shm_address a s) s = Inr (dst + of_nat (length msg) + 1, u)"
      "cstring dst msg u" "\<forall>x. \<not> unat (x - dst) < Suc (length msg) \<longrightarrow> mem u x = mem s x" by blast
  show thesis
  proof (rule that)
    show "sys_shmread c s = Inr (ctx_set c CTX_EAX 1 u)" using cur a mem u(1) by (auto simp: sys_shmread_def)
    show "cstring dst msg (ctx_set c CTX_EAX 1 u)" using u(2) by (simp add: cstring_def)
  qed (use u(3) in simp_all)
qed

text \<open>The struct is kept where its bytes are.\<close>

lemma struct_kept:
  assumes "\<And>x. \<not> unat (x - m) < n \<Longrightarrow> mem t x = mem s x"
    and "SHM_SIZEOF \<le> m - a" "of_nat n \<le> a - m" "n < 2 ^ 32"
  shows "shm_address a t = shm_address a s" "j < 2 \<Longrightarrow> shm_current_pids a j t = shm_current_pids a j s"
proof -
  have b: "mem t (a + k) = mem s (a + k)" if "k < SHM_SIZEOF" for k
  proof (rule assms(1), rule notI)
    assume "unat (a + k - m) < n"
    then have "a + k - m < of_nat n" using assms(4) by (simp add: word_less_nat_alt unat_of_nat_32)
    from words_apart [OF assms(2,3) that this] show False by simp
  qed
  show "shm_address a t = shm_address a s"
    using b [of 0] b [of 1] b [of 2] b [of 3] by (simp add: shm_address_def ld32_def ld16_def add.assoc)
  show "shm_current_pids a j t = shm_current_pids a j s" if "j < 2"
    using that b [of 18] b [of 19] b [of 20] b [of 21]
    by (auto simp: shm_current_pids_def ld16_def add.assoc less_2_cases_iff)
qed

lemma message_passes:
  assumes len: "Suc (length msg) < 2 ^ 32" and str: "cstring src msg s"
    and cur: "current s = Some p" and a: "sys_arg c 0 s = a" "sys_arg c 1 s = src"
    and mem: "pid (pcbs s p) \<in> {shm_current_pids a 0 s, shm_current_pids a 1 s}"
    and m: "shm_address a s = m" and n: "n = of_nat (Suc (length msg))"
    and dj: "disjoint_blocks m src n" "disjoint_blocks dst m n" "SHM_SIZEOF \<le> m - a" "n \<le> a - m"
  obtains t where "sys_shmwrite c s = Inr t" "ctx_get c CTX_EAX t = 1"
    "\<And>u d q. mem u = mem t \<Longrightarrow> current u = Some q \<Longrightarrow> sys_arg d 0 u = a \<Longrightarrow> sys_arg d 1 u = dst \<Longrightarrow>
       pid (pcbs u q) \<in> {shm_current_pids a 0 s, shm_current_pids a 1 s} \<Longrightarrow>
       \<exists>v. sys_shmread d u = Inr v \<and> ctx_get d CTX_EAX v = 1 \<and> cstring dst msg v"
proof -
  have "disjoint_blocks (shm_address a s) src (of_nat (Suc (length msg)))" using dj(1) m n by simp
  from shmwrite_ok [OF cur a mem str len this] obtain t where t: "sys_shmwrite c s = Inr t" "ctx_get c CTX_EAX t = 1"
    "cstring m msg t" "\<And>x. \<not> unat (x - m) < Suc (length msg) \<Longrightarrow> mem t x = mem s x" unfolding m by metis
  show thesis
  proof (rule that [OF t(1,2)])
    fix u d q assume u: "mem u = mem t" "current u = Some q" "sys_arg d 0 u = a" "sys_arg d 1 u = dst"
      "pid (pcbs u q) \<in> {shm_current_pids a 0 s, shm_current_pids a 1 s}"
    have k: "shm_address a u = m" "shm_current_pids a 0 u = shm_current_pids a 0 s" "shm_current_pids a 1 u = shm_current_pids a 1 s"
      using struct_kept [of m "Suc (length msg)" u s a] t(4) u(1) dj(3,4) len m n by auto
    have "pid (pcbs u q) \<in> {shm_current_pids a 0 u, shm_current_pids a 1 u}" using u(5) k by simp
    moreover have "cstring (shm_address a u) msg u" using t(3) u(1) k(1) by (simp add: cstring_def)
    moreover have "disjoint_blocks dst (shm_address a u) (of_nat (Suc (length msg)))" using dj(2) k(1) n by simp
    ultimately show "\<exists>v. sys_shmread d u = Inr v \<and> ctx_get d CTX_EAX v = 1 \<and> cstring dst msg v"
      using shmread_ok [OF u(2-4)] len by metis
  qed
qed

end
