(* ===== verification/Build_Image.thy ===== *)
theory Build_Image
  imports Prelude
begin

text \<open>
  BuildImage.c: the tool that makes the disk image from the bootstrap and the programs, on the
  host.  The table of the programs grows down from the end of the bootstrap image, and the
  loader of bootstrap.S reads it from there.

  A file is the list of its bytes, and the files that can be opened are a map.  When the tool
  ends with an error it removes the output, so that an error has no image.  The files are small
  enough for their sizes to be an \<open>int\<close>, and \<open>short\<close>, \<open>int\<close> and \<open>long\<close> are those of the i386.
\<close>

abbreviation (input) N_INFO :: nat where "N_INFO \<equiv> 256"

section \<open>Numbers of the C library\<close>

text \<open>
  \<open>strtol\<close>: white space, a sign, a prefix, digits.  It returns the number, cut to the range of a
  \<open>long\<close>, and the string from the first character on that it did not take.
\<close>

definition c_isspace :: "char \<Rightarrow> bool" where
  "c_isspace c \<longleftrightarrow> (let n = (of_char c :: nat) in n = 32 \<or> 9 \<le> n \<and> n \<le> 13)"

definition c_digit :: "char \<Rightarrow> nat option" where
  "c_digit c =
     (let n = (of_char c :: nat) in
      if 48 \<le> n \<and> n \<le> 57 then Some (n - 48)
      else if 65 \<le> n \<and> n \<le> 90 then Some (n - 55)
      else if 97 \<le> n \<and> n \<le> 122 then Some (n - 87)
      else None)"

definition is_digit :: "nat \<Rightarrow> char \<Rightarrow> bool" where
  "is_digit base c \<longleftrightarrow> (case c_digit c of None \<Rightarrow> False | Some d \<Rightarrow> d < base)"

definition starts_digit :: "nat \<Rightarrow> string \<Rightarrow> bool" where
  "starts_digit base str \<longleftrightarrow> (case str of [] \<Rightarrow> False | c # cs \<Rightarrow> is_digit base c)"

definition digits_value :: "nat \<Rightarrow> string \<Rightarrow> int" where
  "digits_value base ds = foldl (\<lambda>v c. v * int base + int (the (c_digit c))) 0 ds"

definition strtol_sign :: "string \<Rightarrow> bool \<times> string" where
  "strtol_sign str =
     (case str of
        [] \<Rightarrow> (False, [])
      | c # cs \<Rightarrow> if c = CHR ''-'' then (True, cs) else if c = CHR ''+'' then (False, cs) else (False, c # cs))"

definition strtol_prefix :: "nat \<Rightarrow> string \<Rightarrow> nat \<times> string" where
  "strtol_prefix base str =
     (if (base = 16 \<or> base = 0) \<and> take 1 str = ''0'' \<and> take 1 (drop 1 str) \<in> {''x'', ''X''} \<and>
         starts_digit 16 (drop 2 str) then (16, drop 2 str)
      else if base = 0 then (if take 1 str = ''0'' then 8 else 10, str)
      else (base, str))"

definition strtol :: "string \<Rightarrow> nat \<Rightarrow> int \<times> string" where
  "strtol str base =
     (case strtol_sign (dropWhile c_isspace str) of (neg, t) \<Rightarrow>
      case strtol_prefix base t of (b, t) \<Rightarrow>
        if starts_digit b t then
          let v = digits_value b (takeWhile (is_digit b) t);
              v = (if neg then - v else v)
          in (max (- (2 ^ 31)) (min (2 ^ 31 - 1) v), dropWhile (is_digit b) t)
        else (0, str))"

section \<open>The code\<close>

datatype build_error = Usage_error | Perror string | Message string | Invalid_address string | Too_large string int

text \<open>Whole sectors, the last one filled up with null bytes; also the number of sectors.\<close>

function copy_file :: "u8 list \<Rightarrow> nat \<times> u8 list" where
  "copy_file bs =
     (if bs = [] then (0, [])
      else
        let buf = take 512 bs;
            buf = buf @ replicate (512 - length buf) 0
        in case copy_file (drop 512 bs) of (n_sectors, rest) \<Rightarrow> (n_sectors + 1, buf @ rest))"
  by auto
termination by (relation "measure length") auto

declare copy_file.simps [simp del]

text \<open>The segment, the offset and the address, where the address is a valid one.\<close>

definition decode_address :: "string \<Rightarrow> (u16 \<times> u16 \<times> int) option" where
  "decode_address addr =
     (if CHR '':'' \<in> set addr then
        if length addr = 9 \<and> length (takeWhile (\<lambda>c. c \<noteq> CHR '':'') addr) = 4 then
          case strtol addr 16 of (a1, u1) \<Rightarrow>
          case strtol (drop 5 addr) 16 of (a2, u2) \<Rightarrow>
            let segment = word_of_int a1; offset = word_of_int a2;
                address = sint segment * 16 + sint offset
            in if u1 = [] \<and> u2 = [] then Some (segment, offset, address) else None
        else None
      else
        case strtol addr 0 of (address, unused) \<Rightarrow>
          let segment = word_of_int (address div 16); offset = word_of_int (address mod 16)
          in if unused = [] \<and> address \<le> 0x0009ffff then Some (segment, offset, address) else None)"

text \<open>
  The output so far, and what is stored of the array \<open>info\<close>, from \<open>info[n_info]\<close> on.
\<close>

definition process_file ::
  "(string \<Rightarrow> u8 list option) \<Rightarrow> string \<Rightarrow> string \<Rightarrow> u8 list \<times> u16 list \<Rightarrow> build_error + u8 list \<times> u16 list" where
  "process_file files name addr = (\<lambda>(out, info).
     case files name of
       None \<Rightarrow> Inl (Perror name)
     | Some f \<Rightarrow>
         case copy_file f of (n_sectors, data) \<Rightarrow>
           let out = out @ data in
           case decode_address addr of
             None \<Rightarrow> Inl (Invalid_address addr)
           | Some (segment, offset, address) \<Rightarrow>
               if 0x0009ffff < address + int n_sectors * 512 then Inl (Too_large name address)
               else if N_INFO - length info < 3 then Inl (Message ''Too many programs!'')
               else Inr (out, offset # segment # of_nat n_sectors # info))"

text \<open>The programs one by one; an argument may be left over.\<close>

fun process_files ::
  "(string \<Rightarrow> u8 list option) \<Rightarrow> string list \<Rightarrow> u8 list \<times> u16 list \<Rightarrow> build_error + string list \<times> u8 list \<times> u16 list" where
  "process_files files (name # addr # av) st =
     (case process_file files name addr st of
        Inl e \<Rightarrow> Inl e
      | Inr st \<Rightarrow> process_files files av st)"
| "process_files files av st = Inr (av, st)"

definition short_bytes :: "u16 list \<Rightarrow> u8 list" where
  "short_bytes ws = concat (map (\<lambda>w. [ucast w, ucast (drop_bit 8 w)]) ws)"

text \<open>
  A \<open>fseek\<close> to a place before the start of the file fails and leaves the file at its end,
  where there is nothing to read.
\<close>

definition patch_image :: "nat \<Rightarrow> u8 list \<times> u16 list \<Rightarrow> build_error + u8 list" where
  "patch_image bootimage_size = (\<lambda>(out, info).
     let n_bytes = 2 * length info in
     if bootimage_size < n_bytes \<and> info \<noteq> [] then Inl (Message ''Read from boot image failed or was too short'')
     else if \<exists>b \<in> set (take n_bytes (drop (bootimage_size - n_bytes) out)). b \<noteq> 0 then
       Inl (Message ''Too many programs to load!'')
     else Inr (take (bootimage_size - n_bytes) out @ short_bytes info @ drop bootimage_size out))"

text \<open>The arguments without the name of the tool; \<open>creat\<close> says whether the output can be made.\<close>

definition build_main :: "(string \<Rightarrow> bool) \<Rightarrow> (string \<Rightarrow> u8 list option) \<Rightarrow> string list \<Rightarrow> build_error + u8 list" where
  "build_main creat files av =
     (if length av < 5 then Inl Usage_error
      else if av ! 0 \<noteq> ''-o'' then Inl Usage_error
      else if \<not> creat (av ! 1) then Inl (Perror (av ! 1))
      else
        let files = files(av ! 1 := Some []) in
        case files (av ! 2) of
          None \<Rightarrow> Inl (Perror (av ! 2))
        | Some f \<Rightarrow>
            case copy_file f of (n_sectors, data) \<Rightarrow>
              let bootimage_size = n_sectors * 512 in
              case process_files files (drop 3 av) (data, []) of
                Inl e \<Rightarrow> Inl e
              | Inr (left, out, info) \<Rightarrow>
                  if left \<noteq> [] then Inl Usage_error else patch_image bootimage_size (out, info))"

section \<open>The loader\<close>

text \<open>
  What the comment at the end of bootstrap.S promises the loader: from the place \<open>e\<close> downwards the
  number of sectors, the segment and the offset of each program, up to a number of 0.  The
  programs follow each other from the place \<open>d\<close> on.
\<close>

definition word_at :: "nat \<Rightarrow> u8 list \<Rightarrow> u16" where
  "word_at i img = word_cat (img ! (i + 1)) (img ! i)"

function loader :: "nat \<Rightarrow> nat \<Rightarrow> u8 list \<Rightarrow> (int \<times> u8 list) list" where
  "loader e d img =
     (if e < 2 \<or> word_at (e - 2) img = 0 then []
      else if e < 6 then []
      else
        let n = unat (word_at (e - 2) img); segment = word_at (e - 4) img; offset = word_at (e - 6) img
        in (16 * uint segment + uint offset, take (512 * n) (drop d img)) # loader (e - 6) (d + 512 * n) img)"
  by auto
termination by (relation "measure fst") auto

declare loader.simps [simp del]

section \<open>Padding\<close>

lemma copy_file_spec:
  "length (snd (copy_file f)) = 512 * fst (copy_file f) \<and> fst (copy_file f) = (length f + 511) div 512 \<and>
   snd (copy_file f) = f @ replicate (512 * fst (copy_file f) - length f) 0"
proof (induction f rule: copy_file.induct)
  case (1 bs)
  show ?case
  proof (cases "bs = []")
    case True
    then show ?thesis by (simp add: copy_file.simps)
  next
    case False
    obtain n rest where r: "copy_file (drop 512 bs) = (n, rest)" by (cases "copy_file (drop 512 bs)")
    note IH = 1 [OF False refl refl, unfolded r, simplified]
    have c: "copy_file bs = (n + 1, take 512 bs @ replicate (512 - length (take 512 bs)) 0 @ rest)"
      using False r by (subst copy_file.simps) (simp add: Let_def)
    show ?thesis
    proof (cases "length bs \<le> 512")
      case True
      then have "n = 0" "rest = []" using IH by auto
      moreover have "(length bs + 511) div 512 = 1"
        using True False by (intro div_nat_eqI) (simp_all add: Suc_le_eq)
      ultimately show ?thesis using True by (simp add: c)
    next
      case False
      then have c': "copy_file bs = (n + 1, take 512 bs @ rest)" by (simp add: c)
      have len: "length rest = 512 * n" and n: "n = (length bs - 512 + 511) div 512"
        and rest: "rest = drop 512 bs @ replicate (512 * n - (length bs - 512)) 0"
        using IH by simp_all
      have "length bs + 511 = (length bs - 512 + 511) + 512" using False by simp
      then have n1: "(length bs + 511) div 512 = n + 1" unfolding n by (metis div_add_self2 zero_neq_numeral)
      have "512 * n - (length bs - 512) = 512 * (n + 1) - length bs" using False by simp
      then have "take 512 bs @ rest = bs @ replicate (512 * (n + 1) - length bs) 0"
        unfolding rest by (metis append.assoc append_take_drop_id)
      then show ?thesis using len n1 False by (simp add: c')
    qed
  qed
qed

lemma copy_file_nonempty: "f \<noteq> [] \<Longrightarrow> 0 < fst (copy_file f)"
  using copy_file_spec [of f] by (cases f) simp_all

section \<open>The loader finds what was stored\<close>

text \<open>The three words of a program.\<close>

definition entry :: "u16 \<times> u16 \<times> u8 list \<Rightarrow> u16 list" where
  "entry p = (case p of (segment, offset, data) \<Rightarrow> [offset, segment, of_nat (length data div 512)])"

definition table :: "(u16 \<times> u16 \<times> u8 list) list \<Rightarrow> u16 list" where
  "table ps = concat (map entry (rev ps))"

definition sectors_ok :: "u16 \<times> u16 \<times> u8 list \<Rightarrow> bool" where
  "sectors_ok p = (case p of (segment, offset, data) \<Rightarrow>
     data \<noteq> [] \<and> length data < 512 * 2 ^ 16 \<and> length data mod 512 = 0)"

lemma short_bytes_simps [simp]:
  "short_bytes [] = []" "short_bytes (w # ws) = ucast w # ucast (drop_bit 8 w) # short_bytes ws"
  "short_bytes (ws @ vs) = short_bytes ws @ short_bytes vs"
  by (simp_all add: short_bytes_def)

lemma length_short_bytes [simp]: "length (short_bytes ws) = 2 * length ws"
  by (induction ws) simp_all

lemma length_table [simp]: "length (table ps) = 3 * length ps"
  by (induction ps) (simp_all add: table_def entry_def split: prod.split)

lemma table_Cons: "table (p # ps) = table ps @ entry p"
  by (simp add: table_def)

lemma word_at_bytes: "word_at (length xs) (xs @ ucast w # ucast (drop_bit 8 w) # ys) = w"
proof -
  have "(xs @ ucast w # ucast (drop_bit 8 w) # ys) ! (length xs + 1) = (ucast (drop_bit 8 w) :: u8)"
    by (simp add: nth_append)
  moreover have "(xs @ ucast w # ucast (drop_bit 8 w) # ys) ! length xs = (ucast w :: u8)" by simp
  moreover have "word_cat (ucast (drop_bit 8 w) :: u8) (ucast w :: u8) = w"
    by (rule bit_word_eqI) (auto simp: bit_word_cat_iff bit_simps)
  ultimately show ?thesis by (simp add: word_at_def)
qed

lemma loader_table:
  assumes "\<forall>p \<in> set ps. sectors_ok p" "2 \<le> length pre" "word_at (length pre - 2) pre = 0"
    and "img = pre @ short_bytes (table ps) @ mid @ concat (map (\<lambda>p. snd (snd p)) ps) @ post"
  shows "loader (length pre + 6 * length ps) (length pre + 6 * length ps + length mid) img =
    map (\<lambda>(segment, offset, data). (16 * uint segment + uint offset, data)) ps"
  using assms
proof (induction ps arbitrary: mid)
  case Nil
  have "word_at (length pre - 2) (pre @ zs) = 0" for zs
    using Nil.prems(2,3) by (cases "Suc (length pre - 2) < length pre") (simp_all add: word_at_def nth_append)
  then show ?case using Nil.prems(2,4) by (simp add: loader.simps)
next
  case (Cons p ps)
  obtain segment offset data where p: "p = (segment, offset, data)" by (cases p)
  let ?n = "of_nat (length data div 512) :: u16"
  let ?t = "pre @ short_bytes (table ps)"
  let ?rest = "mid @ data @ concat (map (\<lambda>p. snd (snd p)) ps) @ post"
  have ok: "data \<noteq> []" "length data < 512 * 2 ^ 16" "length data mod 512 = 0"
    using Cons.prems(1) by (simp_all add: p sectors_ok_def)
  define k where "k = length data div 512"
  have k: "length data = 512 * k" "0 < k" "k < 2 ^ 16"
    using ok by (auto simp: k_def elim!: dvdE intro: gr0I)
  have n: "unat ?n = k" using k by (simp add: unat_of_nat take_bit_nat_eq_self)
  then have n0: "?n \<noteq> 0" using k(2) by auto
  have img: "img = ?t @ short_bytes [offset, segment, ?n] @ ?rest"
    using Cons.prems(4) by (simp add: table_Cons entry_def p)
  let ?e = "length pre + 6 * length (p # ps)"
  have l: "?e - 6 = length ?t" "?e - 4 = length (?t @ short_bytes [offset])" "?e - 2 = length (?t @ short_bytes [offset, segment])"
    by simp_all
  have w: "word_at (?e - 2) img = ?n" "word_at (?e - 4) img = segment" "word_at (?e - 6) img = offset"
    unfolding img l
    using word_at_bytes [of "?t @ short_bytes [offset, segment]" ?n ?rest]
      word_at_bytes [of "?t @ short_bytes [offset]" segment "short_bytes [?n] @ ?rest"]
      word_at_bytes [of ?t offset "short_bytes [segment, ?n] @ ?rest"]
    by simp_all
  have d: "take (512 * k) (drop (?e + length mid) img) = data"
  proof -
    define x where "x = ?t @ short_bytes [offset, segment, ?n] @ mid"
    have "img = x @ data @ concat (map (\<lambda>p. snd (snd p)) ps) @ post" unfolding img x_def append.assoc ..
    moreover have "?e + length mid = length x" unfolding x_def length_append length_short_bytes length_table by simp
    ultimately have "drop (?e + length mid) img = data @ concat (map (\<lambda>p. snd (snd p)) ps) @ post"
      by (simp del: length_append)
    then show ?thesis using k(1) by simp
  qed
  have "loader ?e (?e + length mid) img =
      (16 * uint segment + uint offset, data) # loader (?e - 6) (?e + length mid + 512 * k) img"
    using w n n0 d by (subst loader.simps) (simp add: Let_def)
  moreover have "loader (length pre + 6 * length ps) (length pre + 6 * length ps + length (short_bytes (entry p) @ mid @ data)) img =
      map (\<lambda>(segment, offset, data). (16 * uint segment + uint offset, data)) ps"
    using Cons.prems(1,4) by (intro Cons.IH [OF _ Cons.prems(2,3)]) (simp_all add: table_Cons p)
  moreover have "length pre + 6 * length ps + length (short_bytes (entry p) @ mid @ data) = ?e + length mid + 512 * k"
    "length pre + 6 * length ps = ?e - 6" using k(1) by (simp_all add: p entry_def)
  ultimately show ?case by (simp only: p list.map prod.case)
qed

section \<open>Addresses\<close>

lemma colon_no_digit: "\<not> is_digit b (CHR '':'')" "\<not> c_isspace (CHR '':'')"
  by (simp_all add: is_digit_def c_digit_def c_isspace_def)

lemma strtol_prefix_set: "strtol_prefix base t = (b, u) \<Longrightarrow> CHR '':'' \<in> set t \<Longrightarrow> CHR '':'' \<in> set u"
proof (cases t)
  case (Cons c cs)
  assume p: "strtol_prefix base t = (b, u)" and m: "CHR '':'' \<in> set t"
  then show ?thesis
    by (cases cs) (auto simp: strtol_prefix_def Cons numeral_2_eq_2 split: if_splits)
qed simp

lemma strtol_sign_set: "strtol_sign t = (n, u) \<Longrightarrow> CHR '':'' \<in> set t \<Longrightarrow> CHR '':'' \<in> set u"
  by (auto simp: strtol_sign_def split: list.splits if_splits)

text \<open>A colon is never taken for a part of a number.\<close>

lemma strtol_colon: "CHR '':'' \<in> set str \<Longrightarrow> snd (strtol str base) \<noteq> []"
proof -
  have drop: "CHR '':'' \<in> set (dropWhile P t)" if "CHR '':'' \<in> set t" "\<not> P (CHR '':'')" for P t
    using that by (induction t) auto
  assume m: "CHR '':'' \<in> set str"
  obtain n t where t: "strtol_sign (dropWhile c_isspace str) = (n, t)" by (cases "strtol_sign (dropWhile c_isspace str)")
  obtain b u where u: "strtol_prefix base t = (b, u)" by (cases "strtol_prefix base t")
  have "CHR '':'' \<in> set u"
    using strtol_prefix_set [OF u] strtol_sign_set [OF t] drop [OF m] colon_no_digit(2) by blast
  from drop [OF this] colon_no_digit(1) have "CHR '':'' \<in> set (dropWhile (is_digit b) u)" by blast
  then have "dropWhile (is_digit b) u \<noteq> []" by (metis empty_iff empty_set)
  moreover have "str \<noteq> []" using m by auto
  ultimately show ?thesis by (simp add: strtol_def t u Let_def)
qed

lemma decode_colon:
  assumes "CHR '':'' \<in> set addr"
  shows "decode_address addr = None"
proof -
  have "snd (strtol addr 16) \<noteq> []" using assms by (rule strtol_colon)
  then show ?thesis using assms by (auto simp: decode_address_def Let_def split: prod.split)
qed

lemma decode_address_ok:
  assumes "decode_address addr = Some (segment, offset, address)"
  shows "CHR '':'' \<notin> set addr" "address = fst (strtol addr 0)" "0 \<le> address \<Longrightarrow> 16 * uint segment + uint offset = address"
proof -
  show c: "CHR '':'' \<notin> set addr" using assms decode_colon by fastforce
  then have d: "address = fst (strtol addr 0)" "segment = word_of_int (address div 16)" "offset = word_of_int (address mod 16)"
    "address \<le> 0x9ffff"
    using assms by (auto simp: decode_address_def Let_def split: prod.splits if_splits)
  show "address = fst (strtol addr 0)" by (fact d)
  assume a: "0 \<le> address"
  have "address div 16 < 2 ^ 16" "0 \<le> address div 16" using a d(4) by simp_all
  then have "uint segment = address div 16" unfolding d(2) by (simp add: uint_word_of_int take_bit_int_eq_self)
  moreover have "0 \<le> address mod 16" "address mod 16 < 2 ^ 16"
    by (simp_all add: order.strict_trans [OF pos_mod_bound])
  then have "uint offset = address mod 16" unfolding d(3) by (simp add: uint_word_of_int take_bit_int_eq_self)
  ultimately show "16 * uint segment + uint offset = address" by simp
qed

section \<open>The image\<close>

definition stored_as :: "(string \<Rightarrow> u8 list option) \<Rightarrow> string \<times> string \<Rightarrow> u16 \<times> u16 \<times> u8 list \<Rightarrow> bool" where
  "stored_as files p q = (case (p, q) of ((name, addr), (segment, offset, data)) \<Rightarrow>
     \<exists>f address. files name = Some f \<and> data = snd (copy_file f) \<and>
       decode_address addr = Some (segment, offset, address) \<and> address + int (length data) \<le> 0x9ffff)"

abbreviation pair_args :: "(string \<times> string) list \<Rightarrow> string list" where
  "pair_args ps \<equiv> concat (map (\<lambda>(name, addr). [name, addr]) ps)"

lemma process_file_stored:
  assumes "process_file files name addr (out, info) = Inr st"
  obtains q where "stored_as files (name, addr) q" "st = (out @ snd (snd q), entry q @ info)"
proof -
  from assms obtain f n data segment offset address where f: "files name = Some f" "copy_file f = (n, data)"
    "decode_address addr = Some (segment, offset, address)" "address + int n * 512 \<le> 0x9ffff"
    "st = (out @ data, offset # segment # of_nat n # info)"
    by (auto simp: process_file_def Let_def split: option.splits prod.splits if_splits)
  have l: "length data = 512 * n" using copy_file_spec [of f] f(2) by simp
  show thesis
  proof (rule that [of "(segment, offset, data)"])
    show "stored_as files (name, addr) (segment, offset, data)" using f l by (auto simp: stored_as_def)
    show "st = (out @ snd (snd (segment, offset, data)), entry (segment, offset, data) @ info)"
      using f(5) l by (simp add: entry_def)
  qed
qed

lemma process_files_stored:
  assumes "process_files files (pair_args ps) (out, info) = Inr (av, out', info')"
  obtains qs where "list_all2 (stored_as files) ps qs" "out' = out @ concat (map (\<lambda>q. snd (snd q)) qs)"
    "info' = table qs @ info" "av = []"
  using assms
proof (induction ps arbitrary: out info thesis)
  case Nil
  show ?case using Nil(2) by (intro Nil(1) [of "[]"]) (simp_all add: table_def)
next
  case (Cons p ps)
  obtain name addr where p: "p = (name, addr)" by (cases p)
  from Cons.prems(2) obtain st where st: "process_file files name addr (out, info) = Inr st"
    "process_files files (pair_args ps) st = Inr (av, out', info')"
    by (auto simp: p split: sum.splits)
  from process_file_stored [OF st(1)] obtain q where q: "stored_as files (name, addr) q"
    "st = (out @ snd (snd q), entry q @ info)" by blast
  from Cons.IH [OF _ st(2) [unfolded q(2)]] obtain qs where qs: "list_all2 (stored_as files) ps qs"
    "out' = (out @ snd (snd q)) @ concat (map (\<lambda>q. snd (snd q)) qs)" "info' = table qs @ entry q @ info" "av = []" by blast
  show ?case
    by (rule Cons.prems(1) [of "q # qs"]) (use qs q(1) p in \<open>simp_all add: table_Cons\<close>)
qed

lemma stored_sectors:
  assumes "stored_as files (name, addr) q" "files name \<noteq> Some []" "0 \<le> fst (strtol addr 0)"
  shows "sectors_ok q" "(\<lambda>(segment, offset, data). (16 * uint segment + uint offset, data)) q =
    (fst (strtol addr 0), snd (copy_file (the (files name))))"
proof -
  obtain segment offset data f address where q: "q = (segment, offset, data)" "files name = Some f" "data = snd (copy_file f)"
    "decode_address addr = Some (segment, offset, address)" "address + int (length data) \<le> 0x9ffff"
    using assms(1) by (auto simp: stored_as_def)
  note d = decode_address_ok [OF q(4)]
  have "f \<noteq> []" using assms(2) q(2) by auto
  then have "data \<noteq> []" "length data mod 512 = 0" using copy_file_spec [of f] q(3) by auto
  moreover have "length data < 512 * 2 ^ 16" using q(5) d(2) assms(3) by simp
  ultimately show "sectors_ok q" by (simp add: q(1) sectors_ok_def)
  show "(\<lambda>(segment, offset, data). (16 * uint segment + uint offset, data)) q =
    (fst (strtol addr 0), snd (copy_file (the (files name))))"
    using d assms(3) q by simp
qed

lemma patched_image:
  assumes "patch_image sz (out, info) = Inr img" "info \<noteq> []"
  shows "2 * length info \<le> sz" "img = take (sz - 2 * length info) out @ short_bytes info @ drop sz out"
  using assms by (auto simp: patch_image_def Let_def split: if_splits)

lemma map_eq_stored:
  assumes "length qs = length ps" "\<And>k. k < length ps \<Longrightarrow> f (qs ! k) = g (ps ! k)"
  shows "map f qs = map g ps"
  using assms by (intro nth_equalityI) simp_all

lemma build_loads:
  assumes run: "build_main creat files (''-o'' # out # boot # pair_args ps) = Inr img"
    and ps: "\<forall>(name, addr) \<in> set ps. name \<noteq> out \<and> files name \<noteq> Some [] \<and> 0 \<le> fst (strtol addr 0)"
    and boot: "boot \<noteq> out" "files boot = Some b" "b' = snd (copy_file b)"
    and room: "6 * length ps + 2 \<le> length b'" "word_at (length b' - 6 * length ps - 2) b' = 0"
  shows "loader (length b') (length b') img =
      map (\<lambda>(name, addr). (fst (strtol addr 0), snd (copy_file (the (files name))))) ps"
    "take (length b' - 6 * length ps) img = take (length b' - 6 * length ps) b'"
    "length img = length b' + length (concat (map (\<lambda>(name, addr). snd (copy_file (the (files name)))) ps))"
proof -
  define fs where "fs = files(out := Some [])"
  obtain n where n: "copy_file b = (n, b')" using boot(3) by (metis prod.collapse)
  have sz: "length b' = n * 512" using copy_file_spec [of b] n by simp
  have "fs boot = Some b" using boot by (simp add: fs_def)
  with run n obtain outp info where r: "process_files fs (pair_args ps) (b', []) = Inr ([], outp, info)"
    "patch_image (length b') (outp, info) = Inr img" "2 \<le> length (pair_args ps)"
    by (auto simp: build_main_def Let_def sz simp flip: fs_def split: if_splits sum.splits)
  from process_files_stored [OF r(1)] obtain qs where qs: "list_all2 (stored_as fs) ps qs"
    "outp = b' @ concat (map (\<lambda>q. snd (snd q)) qs)" "info = table qs" by auto
  have len: "length qs = length ps" using qs(1) by (simp add: list_all2_lengthD)
  have "ps \<noteq> []" using r(3) by auto
  moreover have "length info = 3 * length ps" using len by (simp add: qs(3))
  ultimately have "info \<noteq> []" by (cases info) simp_all
  note i = patched_image(2) [OF r(2) this]
  have el: "sectors_ok q \<and> (\<lambda>(segment, offset, data). (16 * uint segment + uint offset, data)) q =
      (\<lambda>(name, addr). (fst (strtol addr 0), snd (copy_file (the (files name))))) p"
    if "stored_as fs p q" "p \<in> set ps" for p q
  proof -
    obtain name addr where p: "p = (name, addr)" by (cases p)
    have "fs name = files name" "files name \<noteq> Some []" "0 \<le> fst (strtol addr 0)"
      using ps that(2) by (auto simp: p fs_def)
    then show ?thesis using stored_sectors [of fs name addr q] that(1) by (simp add: p)
  qed
  have qs_ok: "\<forall>q \<in> set qs. sectors_ok q"
    using el list_all2_nthD2 [OF qs(1)] len by (metis in_set_conv_nth)
  have m: "map (\<lambda>(segment, offset, data). (16 * uint segment + uint offset, data)) qs =
      map (\<lambda>(name, addr). (fst (strtol addr 0), snd (copy_file (the (files name))))) ps"
    using el list_all2_nthD [OF qs(1)] by (intro map_eq_stored [OF len]) (metis nth_mem)
  define pre where "pre = take (length b' - 6 * length ps) b'"
  have pre: "length pre + 6 * length qs = length b'" "2 \<le> length pre" using room(1) len by (simp_all add: pre_def)
  have img: "img = pre @ short_bytes (table qs) @ [] @ concat (map (\<lambda>p. snd (snd p)) qs) @ []"
    using i room(1) len by (simp add: qs(2,3) pre_def)
  have "word_at (length pre - 2) pre = 0"
    using room pre(2) by (simp add: word_at_def pre_def)
  from loader_table [OF qs_ok pre(2) this img] show "loader (length b') (length b') img =
      map (\<lambda>(name, addr). (fst (strtol addr 0), snd (copy_file (the (files name))))) ps"
    using pre(1) by (simp add: m)
  show "take (length b' - 6 * length ps) img = take (length b' - 6 * length ps) b'"
    using img pre room(1) len by (simp add: pre_def)
  have "map (\<lambda>q. snd (snd q)) qs = map (\<lambda>(name, addr). snd (copy_file (the (files name)))) ps"
    using arg_cong [OF m, of "map snd"] by (simp add: comp_def split_beta)
  then show "length img = length b' + length (concat (map (\<lambda>(name, addr). snd (copy_file (the (files name)))) ps))"
    using img pre(1) by simp
qed

lemma build_no_colon:
  assumes "build_main creat files (''-o'' # out # boot # pair_args ps) = Inr img" "(name, addr) \<in> set ps"
  shows "CHR '':'' \<notin> set addr"
proof -
  obtain fs b' n outp info where "process_files fs (pair_args ps) (b', []) = Inr ([], outp, info)"
    using assms(1) by (auto simp: build_main_def Let_def split: if_splits sum.splits option.splits prod.splits)
  from process_files_stored [OF this] obtain qs where "list_all2 (stored_as fs) ps qs" by blast
  then obtain q where "stored_as fs (name, addr) q"
    using assms(2) by (metis in_set_conv_nth list_all2_conv_all_nth)
  then show ?thesis using decode_address_ok(1) by (auto simp: stored_as_def)
qed

end
