(* ===== verification/Ata_Info.thy ===== *)
theory Ata_Info
  imports Ata_Laws
begin

text \<open>
  The rest of ata.c but for its test process: identifying a drive by polling, which nothing calls
  yet, and the routines of the test process that read, write and print sectors.

  The characters that a routine prints with \<open>c_putchar\<close>, and the string of a \<open>%s\<close>, are a \<open>Puts\<close> in
  the log.  A local array is a list, or a block of memory whose address is an argument.
\<close>

section \<open>Identifying a drive\<close>

definition byte_string :: "u8 list \<Rightarrow> string" where
  "byte_string bs = map (\<lambda>b. char_of (unat b)) (takeWhile (\<lambda>b. b \<noteq> 0) bs)"

definition word_bytes :: "u16 list \<Rightarrow> u8 list" where
  "word_bytes ws = concat (map (\<lambda>w. [ucast w, ucast (drop_bit 8 w)]) ws)"

definition ata_print_device_info :: "u16 list \<Rightarrow> kstate \<Rightarrow> kstate" where
  "ata_print_device_info dev_data s =
     (let s = c_puts ''ATA IDENTIFY DEVICE:\<newline>\<newline>'' s;
          model_num = take 40 (word_bytes (drop 27 dev_data)) @ [0];
          s = c_printf ''MODEL: (%c%c) '' [scast (model_num ! 0), scast (model_num ! 1)] s;
          s = c_puts (byte_string model_num) s;
          s = c_puts ''\<newline>'' s;
          user_addressable_sectors = (word_cat (dev_data ! 61) (dev_data ! 60) :: u32);
          s = c_printf ''Total number of user addressable sectors (maximum LBA + 1): 0x%08x\<newline>'' [user_addressable_sectors] s;
          dma_modes = dev_data ! 63;
          s = c_printf ''DMA modes 0x%04x\<newline>'' [ucast dma_modes] s;
          s = (if dma_modes AND 0x0004 \<noteq> 0 then c_puts ''Multiword DMA mode 2 and below are supported\<newline>'' s
               else if dma_modes AND 0x0002 \<noteq> 0 then c_puts ''Multiword DMA mode 1 and below are supported\<newline>'' s
               else if dma_modes AND 0x0001 \<noteq> 0 then c_puts ''Multiword DMA mode 0 is supported\<newline>'' s
               else s);
          ultra_dma_modes = dev_data ! 88;
          s = c_printf ''Ultra DMA modes 0x%04x\<newline>'' [ucast ultra_dma_modes] s
      in if ultra_dma_modes AND 0x0030 \<noteq> 0 then c_puts ''Ultra DMA mode 6 and below are supported\<newline>'' s
         else if ultra_dma_modes AND 0x0020 \<noteq> 0 then c_puts ''Ultra DMA mode 5 and below are supported\<newline>'' s
         else if ultra_dma_modes AND 0x0010 \<noteq> 0 then c_puts ''Ultra DMA mode 4 and below are supported\<newline>'' s
         else if ultra_dma_modes AND 0x0008 \<noteq> 0 then c_puts ''Ultra DMA mode 3 and below are supported\<newline>'' s
         else if ultra_dma_modes AND 0x0004 \<noteq> 0 then c_puts ''Ultra DMA mode 2 and below are supported\<newline>'' s
         else if ultra_dma_modes AND 0x0002 \<noteq> 0 then c_puts ''Ultra DMA mode 1 and below are supported\<newline>'' s
         else if ultra_dma_modes AND 0x0001 \<noteq> 0 then c_puts ''Ultra DMA mode 0 is supported\<newline>'' s
         else s)"

definition read_alt_status :: "u8 kop" where
  "read_alt_status s = bindE (inb (ctrl_port ATA_CTRL_ALT_STATUS s) s) (\<lambda>(v, s). Inr (ucast v, s))"

text \<open>The words of the answer, each after the drive has shown that it has one.\<close>

fun identify_words :: "nat \<Rightarrow> u8 \<Rightarrow> (u16 list \<times> u8) kop" where
  "identify_words 0 st s = Inr (([], st), s)"
| "identify_words (Suc n) st s =
     bindE (loop (\<lambda>(st, s). st AND ATA_STATUS_BSY \<noteq> 0 \<or> st AND ATA_STATUS_DRQ = 0) (\<lambda>(st, s). read_alt_status s) (st, s))
       (\<lambda>(st, s).
         bindE (inw (cmd_port ATA_CMD_DATA s) s) (\<lambda>(w, s).
           let s = c_puts ''.'' s in
           bindE (identify_words n st s) (\<lambda>((ws, st), s). Inr ((w # ws, st), s))))"

definition ata_identify_device :: "kstate \<Rightarrow> kstate outcome" where
  "ata_identify_device s =
     (let s = outb (ctrl_port ATA_CTRL_DEV_CONTROL s) ATA_CTRL_DEV_CONTROL_NIEN s in
      bindE (ata_check_alt_status s) (\<lambda>(st, s).
        let s = c_puts ''ATA: identify device: waiting for DRDY...\<newline>'' s in
        bindE (loop (\<lambda>(st, s). st AND ATA_STATUS_DRDY = 0) (\<lambda>(st, s). read_alt_status s) (st, s)) (\<lambda>(st, s).
          let s = c_puts ''ATA: identify device: sending command byte\<newline>'' s;
              s = outb (cmd_port ATA_CMD_BR_COMMAND s) ATA7_IDENTIFY_DEVICE s;
              s = c_puts ''ATA: identify device: reading coniguration data'' s in
          bindE (identify_words 256 st s) (\<lambda>((ata_id_device_data, st), s).
            let s = c_puts ''\<newline>'' s in
            bindE (ata_check_alt_status s) (\<lambda>(st, s).
              let s = ata_print_device_info ata_id_device_data s
              in Inr (outb (ctrl_port ATA_CTRL_DEV_CONTROL s) 0x00 s))))))"

section \<open>Sectors for the test process\<close>

text \<open>The number of blocks that a length takes is the quotient and the remainder added up.\<close>

definition test_blocks :: "u32 \<Rightarrow> u32" where
  "test_blocks len = len div DISK_BLOCK_SIZE + len mod DISK_BLOCK_SIZE"

text \<open>Setting up a request and handing it to the driver.\<close>

definition test_request ::
  "(u32 \<Rightarrow> nat option \<Rightarrow> u32 kop) \<Rightarrow> u8 \<Rightarrow> u32 \<Rightarrow> u32 \<Rightarrow> u32 \<Rightarrow> nat \<Rightarrow> kstate \<Rightarrow> kstate outcome" where
  "test_request ctrl cmd lba nblocks buffer dr s =
     (let s = set_request dr (\<lambda>r. r\<lparr>dr_cmd := cmd\<rparr>) s;
          s = set_request dr (\<lambda>r. r\<lparr>dr_lba := lba\<rparr>) s;
          s = set_request dr (\<lambda>r. r\<lparr>dr_nblocks := nblocks\<rparr>) s;
          s = set_request dr (\<lambda>r. r\<lparr>dr_buffer := buffer\<rparr>) s
      in bindE (ctrl DISK_CMD_REQUEST (Some dr) s) (\<lambda>(stat, s). Inr s))"

definition ata_test_write_data :: "(u32 \<Rightarrow> nat option \<Rightarrow> u32 kop) \<Rightarrow> u32 \<Rightarrow> u32 \<Rightarrow> u32 \<Rightarrow> kstate \<Rightarrow> kstate outcome" where
  "ata_test_write_data ctrl lba buffer len s =
     (let blocks = test_blocks len in
      case disk_alloc_request s of (dr, s) \<Rightarrow>
        bindE (deref dr) (\<lambda>d.
          bindE (test_request ctrl DISK_CMD_WRITE lba blocks buffer d s) (\<lambda>s. Inr (disk_dealloc_request (Some d) s))))"

definition ata_test_read_data :: "(u32 \<Rightarrow> nat option \<Rightarrow> u32 kop) \<Rightarrow> u32 \<Rightarrow> u32 \<Rightarrow> u32 \<Rightarrow> kstate \<Rightarrow> kstate outcome" where
  "ata_test_read_data ctrl lba buffer len s =
     (let blocks = test_blocks len; s = memclr buffer len s in
      case disk_alloc_request s of (dr, s) \<Rightarrow>
        bindE (deref dr) (\<lambda>d.
          bindE (test_request ctrl DISK_CMD_READ lba blocks buffer d s) (\<lambda>s. Inr (disk_dealloc_request (Some d) s))))"

text \<open>A line of 32 bytes; a \<open>char\<close> is extended with its sign where it is printed as a number.\<close>

fun print_bytes :: "(u8 \<Rightarrow> u32) \<Rightarrow> nat \<Rightarrow> u32 \<Rightarrow> kstate \<Rightarrow> kstate" where
  "print_bytes ext 0 ch s = s"
| "print_bytes ext (Suc n) ch s = print_bytes ext n (ch + 1) (c_printf ''%02x'' [ext (ld8 ch s)] s)"

fun print_lines :: "(u8 \<Rightarrow> u32) \<Rightarrow> nat \<Rightarrow> u32 \<Rightarrow> kstate \<Rightarrow> kstate" where
  "print_lines ext 0 ch s = s"
| "print_lines ext (Suc n) ch s = print_lines ext n (ch + 32) (c_puts ''\<newline>'' (print_bytes ext 32 ch s))"

definition ata_print_sectors :: "u32 \<Rightarrow> u32 \<Rightarrow> kstate \<Rightarrow> kstate" where
  "ata_print_sectors buffer len s =
     (let blocks = test_blocks len
      in print_lines scast (unat ((DISK_BLOCK_SIZE * blocks) div 32)) buffer s)"

definition ata_test_read_mbr :: "(u32 \<Rightarrow> nat option \<Rightarrow> u32 kop) \<Rightarrow> u32 \<Rightarrow> kstate \<Rightarrow> kstate outcome" where
  "ata_test_read_mbr ctrl mbr s =
     (let s = memclr mbr DISK_BLOCK_SIZE s in
      case disk_alloc_request s of (dr, s) \<Rightarrow>
        bindE (deref dr) (\<lambda>d.
          bindE (test_request ctrl DISK_CMD_READ 0 1 mbr d s) (\<lambda>s.
            let s = print_lines ucast 16 mbr s
            in Inr (disk_dealloc_request (Some d) s))))"

end
