(* ===== verification/Test_Procs.thy ===== *)
theory Test_Procs
  imports Ata_Info Devices Clock
begin

text \<open>
  The two test programs that are linked into the kernel and run as processes: \<open>ramdisk_test\<close> of
  device.c and \<open>_ata_test_proc\<close> of ata.c, which \<open>_init\<close> starts.

  A process of the kernel calls its modules directly and the system through the stubs of ulibs.S:
  \<open>slp\<close> is what happens until \<open>sleep\<close> comes back, \<open>ext\<close> what \<open>exit\<close> does.  \<open>gets\<close> is \<open>c_gets\<close>, which
  stores a line at an address.  The addresses of the local arrays are arguments.
\<close>

section \<open>Calls through a handle\<close>

definition call_ctrl ::
  "linkage \<Rightarrow> (u32 \<Rightarrow> kstate \<Rightarrow> kstate outcome) \<Rightarrow> nat option \<Rightarrow> u32 \<Rightarrow> nat option \<Rightarrow> u32 kop" where
  "call_ctrl lk slp dev cmd arg s =
     bindE (deref dev) (\<lambda>d.
       bindE (deref (dev_ctrl (device_handles s d))) (\<lambda>f.
         if f = Rd_ctrl then rd_ctrl lk cmd arg s
         else if f = Ata_ctrl then ata_ctrl slp cmd arg s
         else Inl Wild))"

text \<open>The string at an address, up to its null byte.\<close>

fun string_at :: "nat \<Rightarrow> u32 \<Rightarrow> kstate \<Rightarrow> u8 list" where
  "string_at 0 a s = []"
| "string_at (Suc fuel) a s = (if ld8 a s = 0 then [] else ld8 a s # string_at fuel (a + 1) s)"

definition puts_at :: "u32 \<Rightarrow> kstate \<Rightarrow> kstate" where
  "puts_at a s = c_puts (byte_string (string_at STRCPY_FUEL a s)) s"

section \<open>The test of the RAM disk\<close>

definition rd_test_string :: string where
  "rd_test_string =
     ''this is a 512 byte test string that will be separated by a macro for testing purposes in '' @
     ''the systems programming 2 team 5 operating system project '' @
     replicate 233 (CHR ''-'') @ replicate 92 (CHR ''='') @ replicate 39 (CHR ''+'')"

text \<open>One transfer: a request is set up and handed over, and the process sleeps until it is served.\<close>

definition rd_test_transfer ::
  "linkage \<Rightarrow> (u32 \<Rightarrow> kstate \<Rightarrow> kstate outcome) \<Rightarrow> nat option \<Rightarrow> u8 \<Rightarrow> u32 \<Rightarrow> string \<Rightarrow> nat kop" where
  "rd_test_transfer lk slp disk cmd buffer msg s =
     (case disk_alloc_request s of (dr, s) \<Rightarrow>
        bindE (deref dr) (\<lambda>d.
          bindE (test_request (call_ctrl lk slp disk) cmd 0 1 buffer d s) (\<lambda>s.
            let s = c_puts msg s in
            bindE (loop (\<lambda>s. DISK_STATUS_IO_SUCCESS \<noteq> dr_status (pending_requests s d)) (\<lambda>s. slp 1 (c_puts ''.'' s)) s)
              (\<lambda>s. Inr (d, s)))))"

definition ramdisk_test ::
  "linkage \<Rightarrow> (u32 \<Rightarrow> kstate \<Rightarrow> kstate outcome) \<Rightarrow> (kstate \<Rightarrow> kstate outcome) \<Rightarrow> u32 \<Rightarrow> u32 \<Rightarrow>
     kstate \<Rightarrow> kstate outcome" where
  "ramdisk_test lk slp ext buffer test_string s =
     (let s = s\<lparr>mem := write_bytes test_string (map of_char rd_test_string @ [0]) (mem s)\<rparr>;
          s = c_puts ''RAMDISK test process\<newline>'' s
      in case dev_open DEV_RAMDISK s of (disk, s) \<Rightarrow>
        bindE (rd_test_transfer lk slp disk DISK_CMD_WRITE test_string ''Waiting for ramdisk write to complete\<newline>'' s) (\<lambda>(d, s).
          let s = disk_dealloc_request (Some d) (c_puts ''\<newline>'' s) in
          bindE (rd_test_transfer lk slp disk DISK_CMD_READ buffer ''Waiting for ramdisk read to complete'' s) (\<lambda>(d, s).
            let s = c_puts ''\<newline>'' (puts_at buffer (c_puts ''\<newline>'' s));
                s = disk_dealloc_request (Some d) s
            in bindE (dev_close disk s) ext)))"

section \<open>The test of the IDE disk\<close>

definition ata_test_proc ::
  "linkage \<Rightarrow> (u32 \<Rightarrow> kstate \<Rightarrow> kstate outcome) \<Rightarrow> (kstate \<Rightarrow> kstate outcome) \<Rightarrow>
     (u32 \<Rightarrow> u32 \<Rightarrow> kstate \<Rightarrow> kstate outcome) \<Rightarrow> u32 \<Rightarrow> u32 \<Rightarrow> u32 \<Rightarrow> kstate \<Rightarrow> kstate outcome" where
  "ata_test_proc lk slp ext gets recv_buf inp mbr s =
     bindE (ata_check_alt_status s) (\<lambda>(st, s).
     bindE (slp 2 s) (\<lambda>s.
       let s = memclr recv_buf (DISK_BLOCK_SIZE * 2) s in
       case dev_open DEV_IDE_PRI s of (hdd, s) \<Rightarrow>
       let s = c_puts ''\<newline>Enter 'MBR' to print the master boot record of drive 1\<newline>'' s in
       bindE (gets inp DISK_BLOCK_SIZE s) (\<lambda>s.
         let s = c_puts ''\<newline>'' s in
         bindE (if ld8 inp s = 77 \<and> ld8 (inp + 1) s = 66 \<and> ld8 (inp + 2) s = 82
                then ata_test_read_mbr (call_ctrl lk slp hdd) mbr s else Inr s) (\<lambda>s.
           let s = c_puts ''\<newline>\<newline>Enter a 512 byte input string to write to LBA 1 (! to read sector)\<newline>'' s in
           bindE (gets inp DISK_BLOCK_SIZE s) (\<lambda>s.
             let s = c_puts ''\<newline>'' s in
             bindE (if ld8 inp s = 33 then ata_read_data (call_ctrl lk slp hdd) 1 1 recv_buf s
                    else
                      let s = c_puts ''Writing input string to hdd\<newline>'' s in
                      bindE (ata_write_data (call_ctrl lk slp hdd) 1 1 inp s)
                        (ata_read_data (call_ctrl lk slp hdd) 1 1 recv_buf)) (\<lambda>s.
               let s = c_puts ''Reading back input string from hdd\<newline>'' s;
                   s = c_puts ''\<newline>'' (puts_at recv_buf (c_puts ''\<newline>==> '' s))
               in bindE (dev_close hdd s) (\<lambda>s.
                    ext (c_puts ''ATA TEST PROCESS: exiting ATA test process\<newline>'' s))))))))"

end
