(* ===== verification/Round_Robin.thy ===== *)
theory Round_Robin
  imports Kernel_Steps Examples
begin

text \<open>
  What the quantum and the ready queues are for: the processes of one level take turns.  While
  they compute and no sleeper and no disk request is due, the clock interrupt hands the processor
  round the processes of the highest level that has any, in a fixed order, each for
  \<open>QUANTUM_DEFAULT + 1\<close> ticks, and the processes below them do not move.
\<close>

section \<open>Dispatching when nobody is dead\<close>

lemma dispatch_loop_skip:
  assumes "q_wf s" "\<forall>j. k \<le> j \<and> j < k + m \<longrightarrow> q_view s (Ready j) = []" "k + m \<le> MLQ_LEVELS"
  shows "dispatch_loop (fuel + m) k s = dispatch_loop fuel (k + m) s"
  using assms(2,3)
proof (induction m arbitrary: k)
  case (Suc m)
  have "q_isempty (Ready k) s" using Suc.prems(1) q_isempty_view [OF assms(1)] by simp
  then have "dispatch_loop (fuel + Suc m) k s = dispatch_loop (fuel + m) (Suc k) s"
    using Suc.prems(2) by simp
  also have "\<dots> = dispatch_loop fuel (Suc k + m) s" using Suc.prems by (intro Suc.IH) auto
  finally show ?case by simp
qed simp

lemma dispatch_first:
  assumes k: "kinv H F K s" and l: "l < MLQ_LEVELS" and e: "\<forall>j < l. q_view s (Ready j) = []"
    and p: "pcbs_in (q_view s) (Ready l) = p # ps" and r: "status (pcbs s p) = PROC_READY"
  obtains s' where "dispatch s = Inr s'" "k_frame s s'" "current s' = Some p"
    "pcbs s' = (pcbs s)(p := (pcbs s p)\<lparr>status := PROC_RUNNING, quantum := QUANTUM_DEFAULT\<rparr>)"
    "q_view s' = (q_view s)(Ready l := tl (q_view s (Ready l)))"
proof -
  note d = kinvD [OF k]
  have ne: "\<not> q_isempty (Ready l) s" using p q_isempty_view [OF d(1)] by (auto simp: pcbs_in_def)
  have "Ready l \<in> set live_queues" using l by (auto simp: live_queues_def)
  from kinv_take [OF k this p] obtain t where t: "q_remove (Ready l) s = (Some (Pcb p), t)"
    "q_frame s t" "q_view t = (q_view s)(Ready l := tl (q_view s (Ready l)))" by blast
  note f = q_frame_fields [OF t(2)]
  obtain fuel where fu: "N_QNODES + MLQ_LEVELS + 1 = Suc fuel + l"
  proof
    show "N_QNODES + MLQ_LEVELS + 1 = Suc (N_QNODES + MLQ_LEVELS - l) + l" using l by simp
  qed
  have "dispatch_loop (Suc fuel + l) 0 s = dispatch_loop (Suc fuel) (0 + l) s"
    using e l by (intro dispatch_loop_skip d(1)) auto
  also have "\<dots> = Inr (Some p, t)" using l ne t(1) r by (simp add: f)
  finally have dl: "dispatch_loop (N_QNODES + MLQ_LEVELS + 1) 0 s = Inr (Some p, t)" unfolding fu .
  let ?u = "set_pcb p (\<lambda>p. p\<lparr>quantum := QUANTUM_DEFAULT\<rparr>) (set_pcb p (\<lambda>p. p\<lparr>status := PROC_RUNNING\<rparr>) t)"
  have "dispatch s = Inr (?u\<lparr>current := Some p\<rparr>)"
    unfolding dispatch_def dl by (simp add: Let_def)
  moreover have "k_frame s (?u\<lparr>current := Some p\<rparr>)"
    using q_frame_k_frame [OF t(2)] by (rule k_frame_trans) simp
  ultimately show thesis using that t(3) f by simp
qed

section \<open>Ticks on which nothing is due\<close>

text \<open>No sleeper wakes during the next \<open>n\<close> ticks, whether or not the time wraps around.\<close>

definition undisturbed :: "nat \<Rightarrow> kstate \<Rightarrow> bool" where
  "undisturbed n s \<longleftrightarrow> q_view s Ramdisk_io_pending = [] \<and>
     (\<forall>e \<in> set (q_view s Sleeping). \<forall>m \<le> n. system_time s + of_nat m < fst e)"

lemma quiet_tick:
  assumes r: "running c s" "idle_ok i s" "env_ok s" and n: "undisturbed (Suc n) s"
  obtains t where "running c t" "q_view t = q_view s" "pcbs t = pcbs s" "system_time t = system_time s + 1"
    "isr_clock s = bindE (use_quantum t) (\<lambda>s. Inr (outb PIC_MASTER_CMD_PORT PIC_EOI s))"
proof -
  note tc = same_procs_cong [OF ticked_same(1) [of s]]
  have "no_service s" using n by (simp add: no_service_def undisturbed_def)
  from clock_woken [OF r this] obtain t where t: "woken (due (ticked s)) (ticked s) t" "running c t"
    "isr_clock s = bindE (use_quantum t) (\<lambda>s. Inr (outb PIC_MASTER_CMD_PORT PIC_EOI s))" by blast
  have "\<not> fst e \<le> system_time s + 1" if "e \<in> set (q_view s Sleeping)" for e
    using n that by (force simp: undisturbed_def not_le)
  then have "due (ticked s) = []"
    unfolding due_def tc ticked_same by (metis list.set_sel(1) list.simps(8) takeWhile_eq_Nil_iff)
  then have w: "woken [] (ticked s) t" using t(1) by simp
  have "q_view t q = q_view s q" for q
    using w by (cases q) (simp_all add: woken_def tc at_level_def)
  moreover have "pcbs t = pcbs s" "system_time t = system_time s + 1"
    using w k_frame_fields [of "ticked s" t] by (simp_all add: woken_def tc ticked_same)
  ultimately show thesis using that t(2,3) by blast
qed

section \<open>The turns\<close>

text \<open>
  The turns of level \<open>l\<close> are \<open>C\<close>: the first of \<open>C\<close> runs, the others wait in the queue of the
  level in this order, and the levels above are empty.
\<close>

definition turns :: "nat \<Rightarrow> nat list \<Rightarrow> kstate \<Rightarrow> bool" where
  "turns l C s \<longleftrightarrow> C \<noteq> [] \<and> current s = Some (hd C) \<and> pcbs_in (q_view s) (Ready l) = tl C \<and>
     (\<forall>j < l. q_view s (Ready j) = []) \<and> (\<forall>p \<in> set C. unat (level (pcbs s p)) = l) \<and>
     (\<forall>p \<in> set (tl C). status (pcbs s p) = PROC_READY)"

lemma turns_running:
  assumes "kernel_ok i s" "turns l C s"
  shows "running (hd C) s" "idle_ok i s" "env_ok s"
  using assms runningD(1) by (fastforce simp: kernel_ok_def turns_def)+

text \<open>What a tick leaves alone in the queues of the other levels and of the sleepers.\<close>

definition others_stay :: "nat \<Rightarrow> kstate \<Rightarrow> kstate \<Rightarrow> bool" where
  "others_stay l s s' \<longleftrightarrow> (\<forall>q. q \<noteq> Ready l \<longrightarrow> q_view s' q = q_view s q)"

lemma undisturbed_tick:
  assumes "undisturbed (Suc n) s" "others_stay l s s'" "system_time s' = system_time s + 1"
  shows "undisturbed n s'"
proof -
  have "system_time s' + of_nat m < fst e" if "e \<in> set (q_view s Sleeping)" "m \<le> n" for e m
  proof -
    from that have "system_time s + of_nat (Suc m) < fst e" using assms(1) unfolding undisturbed_def by blast
    then show ?thesis by (simp add: assms(3) add.assoc)
  qed
  then show ?thesis using assms(1,2) by (simp add: undisturbed_def others_stay_def)
qed

lemma level_distinct:
  assumes "kinv H F K s" "l < MLQ_LEVELS"
  shows "distinct (pcbs_in (q_view s) (Ready l))"
proof -
  have "Ready l \<in> set (Free_pcbs # live_queues)" using assms(2) by (auto simp: live_queues_def)
  from owned_part(1) [OF kinvD(4) [OF assms(1)] this] show ?thesis by (rule sub_mset_distinct)
qed

text \<open>A tick takes one from the quantum, or passes the turn on when nothing is left of it.\<close>

lemma tick_turns:
  assumes ok: "kernel_ok i s" and T: "turns l (c # ps) s" and n: "undisturbed (Suc n) s"
    and s': "isr_clock s = Inr s'"
  shows "system_time s' = system_time s + 1 \<and> others_stay l s s' \<and>
     (if quantum (pcbs s c) = 0
      then turns l (ps @ [c]) s' \<and> quantum (pcbs s' (hd (ps @ [c]))) = QUANTUM_DEFAULT
      else turns l (c # ps) s' \<and> quantum (pcbs s' c) = quantum (pcbs s c) - 1)"
proof -
  from turns_running [OF ok T] have r: "running c s" "idle_ok i s" "env_ok s" by simp_all
  from quiet_tick [OF r n] obtain t where t: "running c t" "q_view t = q_view s" "pcbs t = pcbs s"
    "system_time t = system_time s + 1"
    "isr_clock s = bindE (use_quantum t) (\<lambda>s. Inr (outb PIC_MASTER_CMD_PORT PIC_EOI s))" by blast
  note d = runningD [OF t(1)]
  have same: "same_procs u (outb PIC_MASTER_CMD_PORT PIC_EOI u)" for u by simp
  note sc = same_procs_cong [OF same]
  have st: "system_time (outb PIC_MASTER_CMD_PORT PIC_EOI u) = system_time u" for u by (simp add: outb_def)
  have lv: "unat (level (pcbs s c)) = l" using T by (simp add: turns_def)
  then have l: "l < MLQ_LEVELS" using d(4) t(3) by (simp add: live_pcb_def)
  show ?thesis
  proof (cases "quantum (pcbs s c) = 0")
    case False
    then have e: "s' = outb PIC_MASTER_CMD_PORT PIC_EOI (set_pcb c (\<lambda>p. p\<lparr>quantum := quantum p - 1\<rparr>) t)"
      using s' t(5) d(1) t(3) by (simp add: use_quantum_def)
    have "turns l (c # ps) s'"
      using T d(1) unfolding e turns_def sc by (auto simp: t(2,3))
    moreover have "others_stay l s s'" by (simp add: others_stay_def e sc t(2))
    moreover have "system_time s' = system_time s + 1" by (simp add: e st set_pcb_def t(4))
    moreover have "quantum (pcbs s' c) = quantum (pcbs s c) - 1" unfolding e sc by (simp add: t(3))
    ultimately show ?thesis using False by simp
  next
    case True
    from kinv_schedule [OF d(2)] obtain u where u: "schedule c t = Inr (STAT_SUCCESS, u)"
      "kinv [] [] [] u" "k_frame t u" "pcbs u = (pcbs s)(c := (pcbs s c)\<lparr>status := PROC_READY\<rparr>)"
      "q_view u = (q_view s)(Ready l := q_view s (Ready l) @ [(0, Some (Pcb c))])"
      unfolding t(2,3) lv by blast
    obtain p qs where pq: "ps @ [c] = p # qs" by (cases ps) auto
    have ru: "pcbs_in (q_view u) (Ready l) = p # qs" using T pq by (simp add: u(5) turns_def pcbs_in_def)
    have eu: "\<forall>j < l. q_view u (Ready j) = []" using T by (simp add: u(5) turns_def)
    have rp: "\<forall>j \<in> set (p # qs). status (pcbs u j) = PROC_READY \<and> unat (level (pcbs u j)) = l"
      using T unfolding pq [symmetric] by (auto simp: u(4) turns_def)
    have sp: "status (pcbs u p) = PROC_READY" using rp by simp
    from dispatch_first [OF u(2) l eu ru sp] obtain v where
      v: "dispatch u = Inr v" "k_frame u v" "current v = Some p"
        "pcbs v = (pcbs u)(p := (pcbs u p)\<lparr>status := PROC_RUNNING, quantum := QUANTUM_DEFAULT\<rparr>)"
        "q_view v = (q_view u)(Ready l := tl (q_view u (Ready l)))" by blast
    have e: "s' = outb PIC_MASTER_CMD_PORT PIC_EOI v"
      using s' t(3,5) d(1) True u(1) v(1) by (simp add: use_quantum_def)
    have "distinct (p # qs)" unfolding ru [symmetric]
      using u(2) l by (rule level_distinct)
    then have "turns l (p # qs) s'"
      using rp eu ru unfolding e turns_def sc
      by (auto simp: v(3-5) pcbs_in_def map_tl)
    moreover have "others_stay l s s'" by (simp add: others_stay_def e sc v(5) u(5))
    moreover have "system_time s' = system_time s + 1"
      using k_frame_fields(7) [OF v(2)] k_frame_fields(7) [OF u(3)] by (simp add: e st t(4))
    moreover have "quantum (pcbs s' p) = QUANTUM_DEFAULT" unfolding e sc by (simp add: v(4))
    ultimately show ?thesis using True pq by simp
  qed
qed

lemma user_quiet: "q_view (s\<lparr>mem := m, stacks := st\<rparr>) = q_view s"
  by (rule same_procs_cong(5)) (simp add: same_procs_def)

lemma user_turns:
  assumes "turns l C s" "current s = Some c"
  shows "turns l C (set_pcb c (\<lambda>p. p\<lparr>context_of := Some ctx\<rparr>) (s\<lparr>mem := m, stacks := st\<rparr>))"
  using assms by (auto simp: turns_def user_quiet)

text \<open>
  The processes compute: the clock ticks \<open>n\<close> times, and between the ticks the running process
  changes its memory, its stack and its context as it likes, but makes no system call.
\<close>

inductive computes :: "kstate \<Rightarrow> nat \<Rightarrow> kstate \<Rightarrow> bool" for s where
  start: "computes s 0 s"
| user: "computes s n t \<Longrightarrow> current t = Some c \<Longrightarrow>
    computes s n (set_pcb c (\<lambda>p. p\<lparr>context_of := Some ctx\<rparr>) (t\<lparr>mem := m, stacks := st\<rparr>))"
| tick: "computes s n t \<Longrightarrow> isr_clock t = Inr u \<Longrightarrow> computes s (Suc n) u"

text \<open>
  Of the ticks of all turns since the running process got the processor, \<open>e\<close> have gone by: \<open>e div 3\<close>
  turns are over and \<open>e mod 3\<close> ticks of the present one are used.
\<close>

definition elapsed :: "nat \<Rightarrow> u8 \<Rightarrow> nat" where
  "elapsed n q = n + (unat QUANTUM_DEFAULT - unat q)"

lemma round_step:
  assumes "rotate (e div 3) C = c # ps"
  shows "e mod 3 = 2 \<Longrightarrow> rotate (Suc e div 3) C = ps @ [c] \<and> Suc e mod 3 = 0"
    "e mod 3 \<noteq> 2 \<Longrightarrow> rotate (Suc e div 3) C = c # ps \<and> Suc e mod 3 = Suc (e mod 3)"
proof -
  assume "e mod 3 = 2"
  then have "Suc e div 3 = Suc (e div 3)" "Suc e mod 3 = 0" by presburger+
  then show "rotate (Suc e div 3) C = ps @ [c] \<and> Suc e mod 3 = 0" using assms by simp
next
  assume "e mod 3 \<noteq> 2"
  then have "Suc e div 3 = e div 3" "Suc e mod 3 = Suc (e mod 3)" by presburger+
  then show "rotate (Suc e div 3) C = c # ps \<and> Suc e mod 3 = Suc (e mod 3)" using assms by simp
qed

lemma clock_returns:
  assumes "kernel_ok i s" "undisturbed n s"
  shows "\<exists>s'. isr_clock s = Inr s' \<and> kernel_ok i s'"
  using assms by (intro isr_clock_rest) (simp_all add: service_ok_def undisturbed_def)

lemma turns_taken:
  assumes "computes s n s'" and ok: "kernel_ok i s" and T: "turns l C s" and N: "undisturbed N s" "n \<le> N"
    and q: "quantum (pcbs s (hd C)) \<le> QUANTUM_DEFAULT"
  defines "e \<equiv> \<lambda>n. elapsed n (quantum (pcbs s (hd C)))"
  shows "kernel_ok i s' \<and> turns l (rotate (e n div 3) C) s' \<and> others_stay l s s' \<and> undisturbed (N - n) s' \<and>
     unat (quantum (pcbs s' (hd (rotate (e n div 3) C)))) + e n mod 3 = 2"
  using assms(1) N(2)
proof (induction rule: computes.induct)
  case start
  have "unat (quantum (pcbs s (hd C))) \<le> 2" using q by (simp add: word_le_nat_alt)
  then have "e 0 div 3 = 0" "unat (quantum (pcbs s (hd C))) + e 0 mod 3 = 2" by (auto simp: e_def elapsed_def)
  then show ?case using ok T N(1) by (simp add: others_stay_def)
next
  case (user n t c ctx m st)
  have st: "system_time (set_pcb c f (t\<lparr>mem := m, stacks := st\<rparr>)) = system_time t" for f m st
    by (simp add: set_pcb_def)
  from user show ?case
    using user_rest user_turns by (auto simp: user_quiet others_stay_def undisturbed_def st)
next
  case (tick n t u)
  then have n: "n \<le> N" "N - n = Suc (N - Suc n)" by simp_all
  note IH = tick.IH [OF n(1), unfolded n(2)]
  define c ps where "c = hd (rotate (e n div 3) C)" and "ps = tl (rotate (e n div 3) C)"
  have cp: "rotate (e n div 3) C = c # ps" using IH by (simp add: turns_def c_def ps_def)
  have eS: "e (Suc n) = Suc (e n)" by (simp add: e_def elapsed_def)
  note rs = round_step [OF cp, folded eS]
  from IH cp have qc: "unat (quantum (pcbs t c)) + e n mod 3 = 2" by simp
  from IH cp have p: "kernel_ok i t" "turns l (c # ps) t" "undisturbed (Suc (N - Suc n)) t" by simp_all
  note k = tick_turns [OF p tick.hyps(2)]
  have "kernel_ok i u" using clock_returns [OF p(1,3)] tick.hyps(2) by simp
  moreover have "others_stay l s u" using IH k by (simp add: others_stay_def)
  moreover have "undisturbed (N - Suc n) u" using undisturbed_tick [OF p(3)] k by blast
  moreover have "turns l (rotate (e (Suc n) div 3) C) u \<and>
      unat (quantum (pcbs u (hd (rotate (e (Suc n) div 3) C)))) + e (Suc n) mod 3 = 2"
  proof (cases "quantum (pcbs t c) = 0")
    case True
    then show ?thesis using k rs(1) qc by simp
  next
    case False
    then have z: "unat (quantum (pcbs t c)) \<noteq> 0" by (simp add: unat_eq_0)
    have "unat (quantum (pcbs t c) - 1) = unat (quantum (pcbs t c)) - 1"
      using False by (simp add: unat_minus_one)
    then show ?thesis using False z k rs(2) qc by simp
  qed
  ultimately show ?case by blast
qed

text \<open>No tick of a turn fails, so the turns go on as long as nothing is due.\<close>

lemma turns_go_on:
  assumes "kernel_ok i s" "turns l C s" "undisturbed N s" "quantum (pcbs s (hd C)) \<le> QUANTUM_DEFAULT"
  shows "n \<le> N \<Longrightarrow> \<exists>s'. computes s n s'"
proof (induction n)
  case 0
  show ?case using computes.start by blast
next
  case (Suc n)
  then obtain t where t: "computes s n t" by auto
  have "kernel_ok i t" "undisturbed (N - n) t"
    using turns_taken [OF t assms(1-3) _ assms(4)] Suc.prems by simp_all
  from clock_returns [OF this] show ?case using t computes.tick by blast
qed

text \<open>The example: processes 1 and 0 share the lowest level, and process 2 sleeps until tick 5.\<close>

definition demo_turns :: kstate where
  "demo_turns = set_pcb 1 (\<lambda>p. p\<lparr>level := 2\<rparr>) demo"

lemma demo_turns_ok:
  "kernel_ok 0 demo_turns" "turns 2 [1, 0] demo_turns"
  "quantum (pcbs demo_turns (hd [1, 0])) \<le> QUANTUM_DEFAULT" "undisturbed 3 demo_turns"
  "quantum (pcbs demo_turns 1) = 2"
proof -
  have "kinv [1] [] [] demo_turns"
    using live_demo_pcb [of 1] unfolding demo_turns_def by (intro kinv_set_held demo_steps(4)) (simp_all add: live_pcb_def)
  then have "running 1 demo_turns" by (simp add: running_def demo_turns_def)
  moreover have "idle_ok 0 demo_turns" using idle_demo(1) by (simp add: idle_ok_def idle_ready_def demo_turns_def)
  moreover have "env_ok demo_turns"
    using env_ok_demo by (simp add: env_ok_def in_ok_def out_ok_def table_ok_def set_pcb_def demo_turns_def)
  ultimately show "kernel_ok 0 demo_turns" by (rule kernel_okI)
  show "turns 2 [1, 0] demo_turns"
    by (auto simp: turns_def demo_turns_def pcbs_in_def demo_pcb_def)
  show "quantum (pcbs demo_turns (hd [1, 0])) \<le> QUANTUM_DEFAULT" "quantum (pcbs demo_turns 1) = 2"
    by (simp_all add: demo_turns_def demo_pcb_def zero_pcb_def)
  have "system_time demo_turns = 0" by (simp add: demo_turns_def set_pcb_def)
  then show "undisturbed 3 demo_turns"
    by (auto simp: undisturbed_def demo_turns_def le_Suc_eq numeral_3_eq_3)
qed

end
