(* ===== verification/Cpu.thy ===== *)
theory Cpu
  imports Kernel_Steps Boot
begin

text \<open>
  The processor around the kernel: the registers, the stubs of isr_stubs.S that save them on the
  stack of the interrupted process, call the handler of the interrupt and load the registers of
  the process that runs next, and the stubs of the system calls of ulibs.S.

  A stack pointer is a stack with the index of a word in it, as for the saved contexts.  The two
  arguments that the stub leaves on the system stack for the handler, and whatever else the C code
  has there, are the arguments of the definitions.  The hardware's part of an interrupt is as
  the processor's manual has it for a handler at the same privilege level.
\<close>

section \<open>Registers\<close>

datatype reg = EAX | ECX | EDX | EBX | EBP | ESI | EDI

datatype seg = SS | DS | ES | FS | GS

record cpu =
  gp_regs :: "reg \<Rightarrow> u32"
  seg_regs :: "seg \<Rightarrow> u16"
  r_esp :: context_ptr
  r_eip :: u32
  r_cs :: u16
  r_eflags :: u32

text \<open>The processor with the memory.\<close>

type_synonym pc = "cpu \<times> kstate"

section \<open>Instructions\<close>

datatype instr =
    Pushl_imm u32
  | Pushl_seg seg
  | Popl_seg seg
  | Pusha
  | Popa
  | Addl_esp nat
  | Movl_imm u32 reg
  | Ret
  | Iret

text \<open>A stack has its bounds here; the hardware would go on into the memory before or behind it.\<close>

definition push :: "u32 \<Rightarrow> pc \<Rightarrow> pc outcome" where
  "push v = (\<lambda>(c, s). case r_esp c of (i, w) \<Rightarrow>
     if w = 0 then Inl (Overrun ''stack'')
     else Inr (c\<lparr>r_esp := (i, w - 1)\<rparr>, ctx_set (i, w - 1) 0 v s))"

definition pop :: "pc \<Rightarrow> (u32 \<times> pc) outcome" where
  "pop = (\<lambda>(c, s). case r_esp c of (i, w) \<Rightarrow>
     if STACK_SIZE \<le> w then Inl (Overrun ''stack'')
     else Inr (ctx_get (i, w) 0 s, (c\<lparr>r_esp := (i, w + 1)\<rparr>, s)))"

fun push_all :: "u32 list \<Rightarrow> pc \<Rightarrow> pc outcome" where
  "push_all [] m = Inr m"
| "push_all (v # vs) m = bindE (push v m) (push_all vs)"

text \<open>\<open>pop_to fs\<close> pops one longword for each of the destinations \<open>fs\<close>.\<close>

fun pop_to :: "(u32 \<Rightarrow> cpu \<Rightarrow> cpu) list \<Rightarrow> pc \<Rightarrow> pc outcome" where
  "pop_to [] m = Inr m"
| "pop_to (f # fs) m = bindE (pop m) (\<lambda>(v, (c, s)). pop_to fs (f v c, s))"

definition to_reg :: "reg \<Rightarrow> u32 \<Rightarrow> cpu \<Rightarrow> cpu" where
  "to_reg r v c = c\<lparr>gp_regs := (gp_regs c)(r := v)\<rparr>"

definition to_seg :: "seg \<Rightarrow> u32 \<Rightarrow> cpu \<Rightarrow> cpu" where
  "to_seg r v c = c\<lparr>seg_regs := (seg_regs c)(r := ucast v)\<rparr>"

text \<open>
  \<open>pusha\<close> stores the stack pointer that it found, as an address, and \<open>popa\<close> skips it.  The address
  of a word of a stack is the parameter \<open>adr\<close>, as the linker decides it.
\<close>

definition exec1 :: "(context_ptr \<Rightarrow> u32) \<Rightarrow> instr \<Rightarrow> pc \<Rightarrow> pc outcome" where
  "exec1 adr ins m =
     (case m of (c, s) \<Rightarrow>
      case ins of
        Pushl_imm v \<Rightarrow> push v m
      | Pushl_seg r \<Rightarrow> push (ucast (seg_regs c r)) m
      | Popl_seg r \<Rightarrow> pop_to [to_seg r] m
      | Pusha \<Rightarrow> push_all [gp_regs c EAX, gp_regs c ECX, gp_regs c EDX, gp_regs c EBX, adr (r_esp c),
          gp_regs c EBP, gp_regs c ESI, gp_regs c EDI] m
      | Popa \<Rightarrow> pop_to [to_reg EDI, to_reg ESI, to_reg EBP, \<lambda>_ c. c, to_reg EBX, to_reg EDX, to_reg ECX, to_reg EAX] m
      | Addl_esp n \<Rightarrow> Inr (c\<lparr>r_esp := (fst (r_esp c), snd (r_esp c) + n div 4)\<rparr>, s)
      | Movl_imm v r \<Rightarrow> Inr (to_reg r v c, s)
      | Ret \<Rightarrow> pop_to [\<lambda>v c. c\<lparr>r_eip := v\<rparr>] m
      | Iret \<Rightarrow> pop_to [\<lambda>v c. c\<lparr>r_eip := v\<rparr>, \<lambda>v c. c\<lparr>r_cs := ucast v\<rparr>, \<lambda>v c. c\<lparr>r_eflags := v\<rparr>] m)"

fun exec :: "(context_ptr \<Rightarrow> u32) \<Rightarrow> instr list \<Rightarrow> pc \<Rightarrow> pc outcome" where
  "exec adr [] m = Inr m"
| "exec adr (ins # code) m = bindE (exec1 adr ins m) (exec adr code)"

section \<open>The stubs of the interrupts\<close>

text \<open>
  The macros \<open>ISR\<close> and \<open>ERR_ISR\<close>: for some vectors the hardware has pushed an error code, and for the
  others the stub pushes a 0 in its place.
\<close>

definition err_isr :: "u32 \<Rightarrow> bool" where
  "err_isr v \<longleftrightarrow> v \<in> {0x08, 0x0a, 0x0b, 0x0c, 0x0d, 0x0e, 0x11}"

definition isr_stub :: "u32 \<Rightarrow> instr list" where
  "isr_stub v = (if err_isr v then [Pushl_imm v] else [Pushl_imm 0, Pushl_imm v])"

definition save_code :: "instr list" where
  "save_code = [Pusha, Pushl_seg DS, Pushl_seg ES, Pushl_seg FS, Pushl_seg GS, Pushl_seg SS]"

definition restore_code :: "instr list" where
  "restore_code = [Popl_seg SS, Popl_seg GS, Popl_seg FS, Popl_seg ES, Popl_seg DS, Popa, Addl_esp 8, Iret]"

text \<open>The context pointer is the first field of the PCB, so that the stub stores to the PCB's address.\<close>

definition isr_save :: "(context_ptr \<Rightarrow> u32) \<Rightarrow> pc \<Rightarrow> (u32 \<times> u32 \<times> pc) outcome" where
  "isr_save adr m =
     bindE (exec adr save_code m) (\<lambda>(c, s).
       bindE (deref (current s)) (\<lambda>p.
         let s = set_pcb p (\<lambda>p. p\<lparr>context_of := Some (r_esp c)\<rparr>) s;
             vector = ctx_get (r_esp c) 13 s;
             code = ctx_get (r_esp c) 14 s
         in Inr (vector, code, (to_reg EBX code (to_reg EAX vector c), s))))"

definition isr_restore :: "(context_ptr \<Rightarrow> u32) \<Rightarrow> pc \<Rightarrow> pc outcome" where
  "isr_restore adr = (\<lambda>(c, s).
     bindE (deref (current s)) (\<lambda>p.
       bindE (deref (context_of (pcbs s p))) (\<lambda>ctx.
         exec adr restore_code (c\<lparr>r_esp := ctx\<rparr>, s))))"

text \<open>
  The handlers of the table.  The one of the keyboard works on the console, which is not part
  of this state, and the one of the disk sleeps with the function \<open>slp\<close>; both are a parameter.
\<close>

fun run_isr :: "linkage \<Rightarrow> (isr_fcn \<Rightarrow> kstate \<Rightarrow> kstate outcome) \<Rightarrow> isr_fcn \<Rightarrow> u32 \<Rightarrow> u32 \<Rightarrow> kstate \<Rightarrow> kstate outcome" where
  "run_isr lk dev Default_unexpected_handler v e s = default_unexpected_handler v e s"
| "run_isr lk dev Default_expected_handler v e s = default_expected_handler v e s"
| "run_isr lk dev Isr_clock v e s = isr_clock s"
| "run_isr lk dev Isr_syscall v e s = isr_syscall lk s"
| "run_isr lk dev Isr_sio v e s = isr_sio s"
| "run_isr lk dev h v e s = dev h s"

text \<open>\<open>isr_save\<close> of isr_stubs.S up to the end: save, call the handler, restore.\<close>

definition isr_common :: "linkage \<Rightarrow> (context_ptr \<Rightarrow> u32) \<Rightarrow> (isr_fcn \<Rightarrow> kstate \<Rightarrow> kstate outcome) \<Rightarrow> pc \<Rightarrow> pc outcome" where
  "isr_common lk adr dev m =
     bindE (isr_save adr m) (\<lambda>(vector, code, (c, s)).
       bindE (deref (isr_table s vector)) (\<lambda>h.
         bindE (run_isr lk dev h vector code s) (\<lambda>s. isr_restore adr (c, s))))"

text \<open>The exceptions for which the hardware pushes an error code.\<close>

definition has_error_code :: "u32 \<Rightarrow> bool" where
  "has_error_code v \<longleftrightarrow> v \<in> {8, 10, 11, 12, 13, 14, 17}"

text \<open>
  An interrupt: the hardware pushes the flags and the place to go back to, masks the
  interrupts, pushes the error code \<open>e\<close> if there is one for the vector, and goes to the stub that
  the descriptor table has for it.
\<close>

definition int_entry :: "(context_ptr \<Rightarrow> u32) \<Rightarrow> u32 \<Rightarrow> u32 \<Rightarrow> pc \<Rightarrow> pc outcome" where
  "int_entry adr v e = (\<lambda>(c, s).
     bindE (push_all ([r_eflags c, ucast (r_cs c), r_eip c] @ (if has_error_code v then [e] else []))
         (c\<lparr>r_eflags := r_eflags c AND NOT EFLAGS_IF\<rparr>, s))
       (exec adr (isr_stub v)))"

definition interrupt :: "linkage \<Rightarrow> (context_ptr \<Rightarrow> u32) \<Rightarrow> (isr_fcn \<Rightarrow> kstate \<Rightarrow> kstate outcome) \<Rightarrow>
    u32 \<Rightarrow> u32 \<Rightarrow> pc \<Rightarrow> pc outcome" where
  "interrupt lk adr dev v e m = bindE (int_entry adr v e m) (isr_common lk adr dev)"

text \<open>The end of \<open>_start\<close>: the kernel is initialized, and the first process entered as from an interrupt.\<close>

definition startup :: "linkage \<Rightarrow> (u32 \<Rightarrow> u32) \<Rightarrow> (context_ptr \<Rightarrow> u32) \<Rightarrow> pc \<Rightarrow> pc outcome" where
  "startup lk stubs adr = (\<lambda>(c, s). bindE (kernel_init lk stubs s) (\<lambda>s. isr_restore adr (c, s)))"

section \<open>The stubs of the system calls\<close>

text \<open>
  \<open>SYSCALL(name)\<close>: the number into EAX, the interrupt, and the return to the caller.  \<open>ret_at\<close> is
  the address of the instruction behind the interrupt.  The caller goes on when it runs again, so
  that the return is a part of its own.
\<close>

definition syscall_stub :: "linkage \<Rightarrow> (context_ptr \<Rightarrow> u32) \<Rightarrow> (isr_fcn \<Rightarrow> kstate \<Rightarrow> kstate outcome) \<Rightarrow>
    u32 \<Rightarrow> u32 \<Rightarrow> pc \<Rightarrow> pc outcome" where
  "syscall_stub lk adr dev ret_at num m =
     bindE (exec adr [Movl_imm num EAX] m) (\<lambda>(c, s).
       interrupt lk adr dev INT_VEC_SYSCALL 0 (c\<lparr>r_eip := ret_at\<rparr>, s))"

definition stub_return :: "(context_ptr \<Rightarrow> u32) \<Rightarrow> pc \<Rightarrow> pc outcome" where
  "stub_return adr m = exec adr [Ret] m"

text \<open>The stubs that ulibs.S makes with the macro, each with its number.\<close>

abbreviation (input) SYS_bogus :: u32 where "SYS_bogus \<equiv> 0xfeedface"

definition user_stubs :: "(string \<times> u32) list" where
  "user_stubs =
     [(''spawn'', SYS_spawn), (''spawnl'', SYS_spawnl), (''sleep'', SYS_sleep), (''exit'', SYS_exit), (''kill'', SYS_kill),
      (''read'', SYS_read), (''write'', SYS_write), (''time'', SYS_time), (''getpid'', SYS_getpid),
      (''getppid'', SYS_getppid), (''getpidlist'', SYS_getpidlist), (''shmget'', SYS_shmget), (''shmat'', SYS_shmat),
      (''shmwrite'', SYS_shmwrite), (''shmread'', SYS_shmread), (''shmdt'', SYS_shmdt), (''shmrm'', SYS_shmrm),
      (''bogus'', SYS_bogus)]"

end
