(* ===== verification/Cpu_Laws.thy ===== *)
theory Cpu_Laws
  imports Cpu
begin

text \<open>
  What the stubs do: a saved context is a \<open>context_t\<close> with every register in its field, loading it
  gives the registers back, and a new process is a context as well.
\<close>

section \<open>Pushing and popping\<close>

definition put_words :: "nat \<Rightarrow> nat \<Rightarrow> u32 list \<Rightarrow> kstate \<Rightarrow> kstate" where
  "put_words i w vs s = s\<lparr>stacks := (stacks s)(i := (\<lambda>k. if w \<le> k \<and> k < w + length vs then vs ! (k - w) else stacks s i k))\<rparr>"

lemma put_words_nil [simp]: "put_words i w [] s = s"
  by (rule kstate.equality) (auto simp: put_words_def fun_eq_iff)

lemma put_words_put_words:
  "v = w + length us \<Longrightarrow> put_words i w us (put_words i v vs s) = put_words i w (us @ vs) s"
  by (rule kstate.equality) (auto simp: put_words_def fun_eq_iff nth_append)

lemma put_words_one: "put_words i w [v] s = ctx_set (i, w) 0 v s"
  by (rule kstate.equality) (auto simp: put_words_def ctx_set_def fun_eq_iff)

lemma put_words_fields [simp]:
  "current (put_words i w vs s) = current s" "pcbs (put_words i w vs s) = pcbs s"
  "isr_table (put_words i w vs s) = isr_table s" "set_pcb p f (put_words i w vs s) = put_words i w vs (set_pcb p f s)"
  by (simp_all add: put_words_def set_pcb_def cong: if_cong)

lemma push_all:
  assumes "r_esp c = (i, w)" "length vs \<le> w"
  shows "push_all vs (c, s) = Inr (c\<lparr>r_esp := (i, w - length vs)\<rparr>, put_words i (w - length vs) (rev vs) s)"
  using assms
proof (induction vs arbitrary: c s w)
  case (Cons v vs)
  let ?c = "c\<lparr>r_esp := (i, w - 1)\<rparr>" and ?s = "ctx_set (i, w - 1) 0 v s"
  have "push v (c, s) = Inr (?c, ?s)" using Cons.prems by (auto simp: push_def)
  moreover have "push_all vs (?c, ?s) = Inr (?c\<lparr>r_esp := (i, w - 1 - length vs)\<rparr>, put_words i (w - 1 - length vs) (rev vs) ?s)"
    using Cons.prems by (intro Cons.IH) auto
  moreover have "put_words i (w - 1 - length vs) (rev vs) ?s = put_words i (w - length (v # vs)) (rev (v # vs)) s"
    using Cons.prems by (subst put_words_one [symmetric], subst put_words_put_words) auto
  ultimately show ?case by simp
qed (simp add: prod_eq_iff)

lemma push_all_esp: "length vs \<le> w \<Longrightarrow>
   push_all vs (c\<lparr>r_esp := (i, w)\<rparr>, s) = Inr (c\<lparr>r_esp := (i, w - length vs)\<rparr>, put_words i (w - length vs) (rev vs) s)"
  by (subst push_all [where i = i and w = w]) simp_all

lemma push_push_all: "push v m = push_all [v] m"
  by (cases "push v m") simp_all

section \<open>Saving\<close>

text \<open>The longwords of a context, in the order of \<open>context_t\<close>.\<close>

definition context_words :: "(context_ptr \<Rightarrow> u32) \<Rightarrow> cpu \<Rightarrow> u32 \<Rightarrow> u32 \<Rightarrow> context_ptr \<Rightarrow> u32 list" where
  "context_words adr c v e sp =
     [ucast (seg_regs c SS), ucast (seg_regs c GS), ucast (seg_regs c FS), ucast (seg_regs c ES), ucast (seg_regs c DS),
      gp_regs c EDI, gp_regs c ESI, gp_regs c EBP, adr sp, gp_regs c EBX, gp_regs c EDX, gp_regs c ECX, gp_regs c EAX,
      v, e, r_eip c, ucast (r_cs c), r_eflags c]"

lemma length_context_words [simp]: "length (context_words adr c v e sp) = CTX_WORDS"
  by (simp add: context_words_def)

text \<open>The stub pushes a 0 for just those vectors for which the hardware has not pushed a code.\<close>

lemma err_isr_hw: "err_isr v = has_error_code v"
  by (simp add: err_isr_def has_error_code_def)

lemma int_entry:
  assumes "r_esp c = (i, w + 18)"
  shows "int_entry adr v e (c, s) = Inr (c\<lparr>r_eflags := r_eflags c AND NOT EFLAGS_IF, r_esp := (i, w + 13)\<rparr>,
     put_words i (w + 13) [v, if err_isr v then e else 0, r_eip c, ucast (r_cs c), r_eflags c] s)"
  using assms
  by (simp add: int_entry_def err_isr_hw [symmetric] push_all [where i = i and w = "w + 18"] isr_stub_def exec1_def push_push_all
      push_all [where i = i and w = "w + 15"] push_all [where i = i and w = "w + 14"] put_words_put_words
      add.commute [of 13] del: push_all.simps)

lemma isr_save:
  assumes "r_esp c = (i, w + 13)" "current s = Some p"
    and "ctx_get (i, w + 13) 0 s = v" "ctx_get (i, w + 14) 0 s = e"
  shows "isr_save adr (c, s) = Inr (v, e, to_reg EBX e (to_reg EAX v (c\<lparr>r_esp := (i, w)\<rparr>)), set_pcb p (\<lambda>p. p\<lparr>context_of := Some (i, w)\<rparr>)
     (put_words i w [ucast (seg_regs c SS), ucast (seg_regs c GS), ucast (seg_regs c FS), ucast (seg_regs c ES),
        ucast (seg_regs c DS), gp_regs c EDI, gp_regs c ESI, gp_regs c EBP, adr (i, w + 13), gp_regs c EBX,
        gp_regs c EDX, gp_regs c ECX, gp_regs c EAX] s))"
proof -
  define vs where "vs = [ucast (seg_regs c SS), ucast (seg_regs c GS),
     ucast (seg_regs c FS), ucast (seg_regs c ES), ucast (seg_regs c DS), gp_regs c EDI, gp_regs c ESI, gp_regs c EBP,
     adr (i, w + 13), gp_regs c EBX, gp_regs c EDX, gp_regs c ECX, gp_regs c EAX]"
  have "exec adr save_code (c, s) = Inr (c\<lparr>r_esp := (i, w)\<rparr>, put_words i w vs s)"
    using assms(1) unfolding vs_def
    by (simp add: save_code_def exec1_def push_push_all push_all [where i = i and w = "w + 13"] push_all_esp
        put_words_put_words del: push_all.simps)
  moreover have "ctx_get (i, w) 13 (set_pcb p f (put_words i w vs s)) = v" "ctx_get (i, w) 14 (set_pcb p f (put_words i w vs s)) = e" for f
    using assms(3,4) by (simp_all add: vs_def ctx_get_def put_words_def set_pcb_def)
  ultimately show ?thesis using assms(2)
    by (simp add: isr_save_def Let_def flip: vs_def del: put_words_fields(4))
qed

section \<open>Restoring\<close>

text \<open>The registers that a context holds.\<close>

definition load_context :: "context_ptr \<Rightarrow> kstate \<Rightarrow> cpu" where
  "load_context x s =
     \<lparr>gp_regs = (\<lambda>r. ctx_get x (case r of EAX \<Rightarrow> 12 | ECX \<Rightarrow> 11 | EDX \<Rightarrow> 10 | EBX \<Rightarrow> 9 | EBP \<Rightarrow> 7 | ESI \<Rightarrow> 6 | EDI \<Rightarrow> 5) s),
      seg_regs = (\<lambda>r. ucast (ctx_get x (case r of SS \<Rightarrow> 0 | GS \<Rightarrow> 1 | FS \<Rightarrow> 2 | ES \<Rightarrow> 3 | DS \<Rightarrow> 4) s)),
      r_esp = (fst x, snd x + CTX_WORDS), r_eip = ctx_get x CTX_EIP s, r_cs = ucast (ctx_get x CTX_CS s),
      r_eflags = ctx_get x CTX_EFLAGS s\<rparr>"

lemma pop_at: "w < STACK_SIZE \<Longrightarrow> pop (c\<lparr>r_esp := (i, w)\<rparr>, s) = Inr (stacks s i w, (c\<lparr>r_esp := (i, w + 1)\<rparr>, s))"
  by (simp add: pop_def ctx_get_def)

lemma isr_restore:
  assumes "current s = Some p" "context_of (pcbs s p) = Some x" "snd x + CTX_WORDS \<le> STACK_SIZE"
  shows "isr_restore adr (c, s) = Inr (load_context x s, s)"
proof -
  obtain i w where x: "x = (i, w)" by (cases x)
  have "\<exists>c'. isr_restore adr (c, s) = Inr (c', s) \<and> c' = load_context x s"
    using assms unfolding x
    by (simp add: isr_restore_def restore_code_def exec1_def pop_def to_seg_def to_reg_def ctx_get_def)
      (rule cpu.equality, simp_all add: load_context_def ctx_get_def fun_eq_iff eval_nat_numeral split: reg.split seg.split)
  then show ?thesis by blast
qed

text \<open>A context that holds the words of the registers gives them back.\<close>

lemma load_saved:
  assumes "\<And>k. k < CTX_WORDS \<Longrightarrow> ctx_get x k s = context_words adr c v e sp ! k"
    and "r_esp c = (fst x, snd x + CTX_WORDS)"
  shows "load_context x s = c"
proof -
  have g: "gp_regs c r = context_words adr c v e sp ! (case r of EAX \<Rightarrow> 12 | ECX \<Rightarrow> 11 | EDX \<Rightarrow> 10 | EBX \<Rightarrow> 9 | EBP \<Rightarrow> 7
      | ESI \<Rightarrow> 6 | EDI \<Rightarrow> 5)" for r
    by (cases r) (simp_all add: context_words_def)
  have k: "ucast (ucast (u :: u16) :: u32) = u" for u by (rule bit_word_eqI) (simp add: bit_simps)
  have t: "seg_regs c r = ucast (context_words adr c v e sp ! (case r of SS \<Rightarrow> 0 | GS \<Rightarrow> 1 | FS \<Rightarrow> 2 | ES \<Rightarrow> 3 | DS \<Rightarrow> 4))" for r
    by (cases r) (simp_all add: context_words_def k)
  show ?thesis
  proof (rule cpu.equality)
    show "gp_regs (load_context x s) = gp_regs c"
      by (rule ext, subst g) (simp add: load_context_def assms(1) split: reg.split)
    show "seg_regs (load_context x s) = seg_regs c"
      by (rule ext, subst t) (simp add: load_context_def assms(1) split: seg.split)
  qed (simp_all add: load_context_def assms context_words_def k)
qed

section \<open>Interrupts\<close>

text \<open>The state in which the handler is called: the registers are on the stack, and the PCB knows where.\<close>

definition saved_state :: "(context_ptr \<Rightarrow> u32) \<Rightarrow> nat \<Rightarrow> cpu \<Rightarrow> u32 \<Rightarrow> u32 \<Rightarrow> kstate \<Rightarrow> kstate" where
  "saved_state adr p c v e s =
     (case r_esp c of (i, n) \<Rightarrow>
        set_pcb p (\<lambda>p. p\<lparr>context_of := Some (i, n - CTX_WORDS)\<rparr>)
          (put_words i (n - CTX_WORDS) (context_words adr c v (if err_isr v then e else 0) (i, n - 5)) s))"

text \<open>Room for a context on the stack of the interrupted process.\<close>

abbreviation (input) room :: "cpu \<Rightarrow> bool" where
  "room c \<equiv> CTX_WORDS \<le> snd (r_esp c)"

lemma interrupt_saved:
  assumes "room c" "current s = Some p"
  shows "\<exists>c1. interrupt lk adr dev v e (c, s) =
    bindE (deref (isr_table s v)) (\<lambda>h.
      bindE (run_isr lk dev h v (if err_isr v then e else 0) (saved_state adr p c v e s)) (\<lambda>s. isr_restore adr (c1, s)))"
proof -
  obtain i n where n: "r_esp c = (i, n)" by (cases "r_esp c")
  define w where "w = n - 18"
  have e: "r_esp c = (i, w + 18)" using assms(1) n by (simp add: w_def)
  let ?c = "c\<lparr>r_eflags := r_eflags c AND NOT EFLAGS_IF, r_esp := (i, w + 13)\<rparr>"
  let ?d = "to_reg EBX (if err_isr v then e else 0) (to_reg EAX v (?c\<lparr>r_esp := (i, w)\<rparr>))"
  let ?s = "put_words i (w + 13) [v, if err_isr v then e else 0, r_eip c, ucast (r_cs c), r_eflags c] s"
  have g: "ctx_get (i, w + 13) 0 ?s = v" "ctx_get (i, w + 14) 0 ?s = (if err_isr v then e else 0)"
    by (simp_all add: ctx_get_def put_words_def)
  have "isr_save adr (?c, ?s) = Inr (v, if err_isr v then e else 0, ?d, saved_state adr p c v e s)"
    using isr_save [of ?c i w ?s p v "if err_isr v then e else 0" adr] g assms(2) e
    by (simp add: saved_state_def put_words_put_words context_words_def add.commute [of 13])
  then show ?thesis using int_entry [OF e, of adr v e s]
    by (intro exI [of _ ?d])
      (simp add: interrupt_def isr_common_def saved_state_def set_pcb_def put_words_def split: prod.split)
qed

lemma saved_words:
  assumes "k < CTX_WORDS"
  shows "ctx_get (fst (r_esp c), snd (r_esp c) - CTX_WORDS) k (saved_state adr p c v e s) =
    context_words adr c v (if err_isr v then e else 0) (fst (r_esp c), snd (r_esp c) - 5) ! k"
  using assms by (simp add: saved_state_def ctx_get_def put_words_def set_pcb_def split: prod.split)

lemma load_saved_state:
  assumes "room c"
  shows "load_context (fst (r_esp c), snd (r_esp c) - CTX_WORDS) (saved_state adr p c v e s) = c"
  by (rule load_saved [OF saved_words]) (use assms in \<open>simp_all add: prod_eq_iff\<close>)

text \<open>The frame that every stub leaves, and what restoring makes of it.\<close>

lemma save_restore:
  assumes e: "r_esp c = (i, w + CTX_WORDS)" and w: "w + CTX_WORDS \<le> STACK_SIZE" and p: "current s = Some p"
  shows "\<exists>c1 s1. bindE (int_entry adr v e (c, s)) (isr_save adr) = Inr (v, if has_error_code v then e else 0, (c1, s1)) \<and>
     context_of (pcbs s1 p) = Some (i, w) \<and>
     map (\<lambda>k. ctx_get (i, w) k s1) [0..<CTX_WORDS] =
       [ucast (seg_regs c SS), ucast (seg_regs c GS), ucast (seg_regs c FS), ucast (seg_regs c ES), ucast (seg_regs c DS),
        gp_regs c EDI, gp_regs c ESI, gp_regs c EBP, adr (i, w + 13), gp_regs c EBX, gp_regs c EDX, gp_regs c ECX,
        gp_regs c EAX, v, if has_error_code v then e else 0, r_eip c, ucast (r_cs c), r_eflags c] \<and>
     (\<forall>c2. isr_restore adr (c2, s1) = Inr (c, s1))"
proof -
  let ?c = "c\<lparr>r_eflags := r_eflags c AND NOT EFLAGS_IF, r_esp := (i, w + 13)\<rparr>"
  let ?d = "to_reg EBX (if err_isr v then e else 0) (to_reg EAX v (?c\<lparr>r_esp := (i, w)\<rparr>))"
  let ?s = "put_words i (w + 13) [v, if err_isr v then e else 0, r_eip c, ucast (r_cs c), r_eflags c] s"
  let ?s1 = "saved_state adr p c v e s"
  have g: "ctx_get (i, w + 13) 0 ?s = v" "ctx_get (i, w + 14) 0 ?s = (if err_isr v then e else 0)"
    by (simp_all add: ctx_get_def put_words_def)
  have sv: "isr_save adr (?c, ?s) = Inr (v, if err_isr v then e else 0, ?d, ?s1)"
    using isr_save [of ?c i w ?s p v "if err_isr v then e else 0" adr] g p e
    by (simp add: saved_state_def put_words_put_words context_words_def add.commute [of 13])
  have ws: "map (\<lambda>k. ctx_get (i, w) k ?s1) [0..<CTX_WORDS] = context_words adr c v (if err_isr v then e else 0) (i, w + 13)"
    using saved_words [of _ c adr p v e s] e by (intro nth_equalityI) (simp_all add: add.commute [of 13])
  have cur: "current ?s1 = Some p" "context_of (pcbs ?s1 p) = Some (i, w)"
    using e p by (simp_all add: saved_state_def set_pcb_def put_words_def)
  have "load_context (i, w) ?s1 = c" using load_saved_state [of c adr p v e s] e by simp
  then have "isr_restore adr (c2, ?s1) = Inr (c, ?s1)" for c2
    using isr_restore [OF cur] w by simp
  with sv ws cur(2) int_entry [OF e, of adr v e s] show ?thesis
    by (intro exI [of _ ?d] exI [of _ ?s1]) (simp add: context_words_def err_isr_hw)
qed

end
