(* ===== verification/Saved_Contexts.thy ===== *)
theory Saved_Contexts
  imports Cpu_Laws
begin

text \<open>
  What the kernel does to the saved contexts, one routine after the other: it writes into them
  only where it gives a process the result of its call, and moves none of them.
\<close>

section \<open>The part of the state that the contexts depend on\<close>

definition ctx_part :: "kstate \<Rightarrow> (nat \<Rightarrow> nat \<Rightarrow> u32) \<times> (u32 \<Rightarrow> isr_fcn option) \<times> (nat \<Rightarrow> context_ptr option \<times> nat option)" where
  "ctx_part s = (stacks s, isr_table s, \<lambda>p. (context_of (pcbs s p), stack (pcbs s p)))"

lemma ctx_part_fields:
  assumes "ctx_part s' = ctx_part s"
  shows "stacks s' = stacks s" "isr_table s' = isr_table s" "context_of (pcbs s' p) = context_of (pcbs s p)"
    "stack (pcbs s' p) = stack (pcbs s p)" "ctx_get x k s' = ctx_get x k s"
  using assms by (auto simp: ctx_part_def ctx_get_def dest: fun_cong [where x = p])

lemma ctx_part_set_pcb:
  "(\<And>q. context_of (f q) = context_of q) \<Longrightarrow> (\<And>q. stack (f q) = stack q) \<Longrightarrow> ctx_part (set_pcb p f s) = ctx_part s"
  by (auto simp: ctx_part_def set_pcb_def fun_eq_iff)

lemma ctx_part_basic [simp]:
  "ctx_part (set_qnode n g s) = ctx_part s" "ctx_part (set_queue q h s) = ctx_part s"
  "ctx_part (set_request r k s) = ctx_part s" "ctx_part (outb port v s) = ctx_part s"
  "ctx_part (c_puts m s) = ctx_part s" "ctx_part (c_printf m vs s) = ctx_part s"
  "ctx_part (c_putchar_at x y ch s) = ctx_part s" "ctx_part (st8 a b s) = ctx_part s" "ctx_part (st16 a c s) = ctx_part s"
  "ctx_part (st32 a d s) = ctx_part s" "ctx_part (s\<lparr>free_qnodes := n'\<rparr>) = ctx_part s"
  "ctx_part (s\<lparr>current := j\<rparr>) = ctx_part s" "ctx_part (s\<lparr>inq := ws\<rparr>) = ctx_part s" "ctx_part (s\<lparr>ramdisk := d'\<rparr>) = ctx_part s"
  "ctx_part (s\<lparr>free_ptr := d\<rparr>) = ctx_part s" "ctx_part (s\<lparr>current_shms := d\<rparr>) = ctx_part s"
  "ctx_part (s\<lparr>next_shm := c\<rparr>) = ctx_part s" "ctx_part (s\<lparr>mem := mm\<rparr>) = ctx_part s"
  by (simp_all add: ctx_part_def set_qnode_def set_queue_def set_request_def outb_def c_puts_def c_printf_def
      c_putchar_at_def st8_def st16_def st32_def)

lemma ctx_part_status [simp]:
  "ctx_part (set_pcb p (\<lambda>q. q\<lparr>status := x\<rparr>) s) = ctx_part s" "ctx_part (set_pcb p (\<lambda>q. q\<lparr>quantum := x\<rparr>) s) = ctx_part s"
  "ctx_part (set_pcb p (\<lambda>q. q\<lparr>quantum := quantum q - 1\<rparr>) s) = ctx_part s"
  "ctx_part (set_pcb p (\<lambda>q. q\<lparr>wakeup := w\<rparr>) s) = ctx_part s" "ctx_part (set_pcb p (\<lambda>q. q\<lparr>ppid := y\<rparr>) s) = ctx_part s"
  "ctx_part (set_pcb p (\<lambda>q. q\<lparr>pending_request := d\<rparr>) s) = ctx_part s"
  by (rule ctx_part_set_pcb; simp)+

section \<open>Queues\<close>

lemma ctx_q_insert: "q_insert q p s = Inr (r, s') \<Longrightarrow> ctx_part s' = ctx_part s"
  by (auto simp: q_insert_def qn_alloc_def q_link_def Let_def bindE_eq_Inr split: option.splits if_splits)

lemma ctx_q_remove: "q_remove q s = (p, s') \<Longrightarrow> ctx_part s' = ctx_part s"
  by (auto simp: q_remove_def qn_dealloc_def Let_def split: option.splits if_splits)

lemma ctx_q_remove_if_le: "q_remove_if_le q k s = (p, s') \<Longrightarrow> ctx_part s' = ctx_part s"
  by (auto simp: q_remove_if_le_def dest: ctx_q_remove split: option.splits if_splits)

section \<open>The scheduler\<close>

lemma ctx_schedule: "schedule p s = Inr (r, s') \<Longrightarrow> ctx_part s' = ctx_part s"
  by (auto simp: schedule_def Let_def dest!: ctx_q_insert split: if_splits)

lemma ctx_pcb_dealloc: "pcb_dealloc p s = Inr (r, s') \<Longrightarrow> ctx_part s' = ctx_part s"
  by (auto simp: pcb_dealloc_def Let_def dest!: ctx_q_insert)

lemma ctx_stack_dealloc: "stack_dealloc k s = Inr (r, s') \<Longrightarrow> ctx_part s' = ctx_part s"
  by (auto simp: stack_dealloc_def dest!: ctx_q_insert)

lemma ctx_cleanup: "cleanup p s = Inr s' \<Longrightarrow> ctx_part s' = ctx_part s"
  by (auto simp: cleanup_def bindE_eq_Inr dest!: ctx_pcb_dealloc ctx_stack_dealloc split: option.splits)

lemma ctx_dispatch_loop: "dispatch_loop fuel lvl s = Inr (r, s') \<Longrightarrow> ctx_part s' = ctx_part s"
proof (induction fuel lvl s rule: dispatch_loop.induct)
  case (2 fuel lvl s)
  consider "\<not> lvl < MLQ_LEVELS" | "lvl < MLQ_LEVELS" "q_isempty (Ready lvl) s" | "lvl < MLQ_LEVELS" "\<not> q_isempty (Ready lvl) s"
    by blast
  then show ?case
  proof cases
    case 3
    obtain p t where t: "q_remove (Ready lvl) s = (p, t)" by (cases "q_remove (Ready lvl) s")
    from 2(3) 3 t obtain x i where i: "as_pcb p = Inr x" "deref x = Inr i"
      and run: "(if status (pcbs t i) = PROC_READY then Inr (Some i, t)
        else if status (pcbs t i) = PROC_ZOMBIE then bindE (cleanup (Some i) t) (\<lambda>s. dispatch_loop fuel lvl s)
        else kpanic ''non-ready non-zombie in dispatch'') = Inr (r, s')" by (auto simp: bindE_eq_Inr)
    show ?thesis using run ctx_q_remove [OF t] 2(2) [OF 3 t [symmetric]]
      by (auto simp: kpanic_def bindE_eq_Inr split: if_splits dest!: ctx_cleanup)
  qed (use 2 in auto)
qed simp

lemma ctx_dispatch: "dispatch s = Inr s' \<Longrightarrow> ctx_part s' = ctx_part s"
  by (auto simp: dispatch_def bindE_eq_Inr kpanic_def Let_def dest!: ctx_dispatch_loop split: option.splits)

section \<open>The tick\<close>

lemma ctx_wake_loop: "wake_loop fuel s = Inr s' \<Longrightarrow> ctx_part s' = ctx_part s"
proof (induction fuel arbitrary: s)
  case (Suc fuel)
  obtain p t where t: "q_remove_if_le Sleeping (system_time s) s = (p, t)" by fastforce
  with Suc(2) show ?case
    by (auto simp: bindE_eq_Inr split: option.splits dest!: ctx_q_remove_if_le ctx_schedule Suc(1))
qed simp

lemma ctx_blocked_scan: "blocked_scan fuel dr s = Inr s' \<Longrightarrow> ctx_part s' = ctx_part s"
proof (induction fuel arbitrary: s)
  case (Suc fuel)
  obtain p t where t: "q_remove Blocked_requests s = (p, t)" by fastforce
  with Suc(2) show ?case
    by (auto simp: bindE_eq_Inr Let_def split: option.splits if_splits
        dest!: ctx_q_remove ctx_schedule ctx_q_insert Suc(1))
qed simp

lemma ctx_ramdisk_out: "ramdisk_out n dst i s = Inr s' \<Longrightarrow> ctx_part s' = ctx_part s"
  by (induction n dst i s rule: ramdisk_out.induct) (auto split: if_splits)

lemma ctx_ramdisk_in: "ramdisk_in n i src s = Inr s' \<Longrightarrow> ctx_part s' = ctx_part s"
  by (induction n i src s rule: ramdisk_in.induct) (auto split: if_splits)

lemma ctx_rd_read_loop: "rd_read_loop fuel b lba n buf s = Inr (r, s') \<Longrightarrow> ctx_part s' = ctx_part s"
  by (induction fuel b lba n buf s rule: rd_read_loop.induct)
    (auto simp: bindE_eq_Inr split: if_splits dest!: ctx_ramdisk_out)

lemma ctx_rd_write_loop: "rd_write_loop fuel b lba n buf s = Inr (r, s') \<Longrightarrow> ctx_part s' = ctx_part s"
  by (induction fuel b lba n buf s rule: rd_write_loop.induct)
    (auto simp: bindE_eq_Inr split: if_splits dest!: ctx_ramdisk_in)

lemma ctx_serve_request: "serve_request dr s = Inr s' \<Longrightarrow> ctx_part s' = ctx_part s"
  by (auto simp: serve_request_def Let_def rd_read_def rd_write_def bindE_eq_Inr simp del: blocked_scan.simps
      rd_read_loop.simps rd_write_loop.simps split: if_splits dest!: ctx_rd_read_loop ctx_rd_write_loop ctx_blocked_scan)

lemma ctx_serve_ramdisk: "serve_ramdisk s = Inr s' \<Longrightarrow> ctx_part s' = ctx_part s"
  by (auto simp: serve_ramdisk_def bindE_eq_Inr split: if_splits prod.splits option.splits
      dest!: ctx_serve_request ctx_q_remove)

lemma ctx_use_quantum: "use_quantum s = Inr s' \<Longrightarrow> ctx_part s' = ctx_part s"
  by (auto simp: use_quantum_def bindE_eq_Inr split: if_splits dest!: ctx_schedule ctx_dispatch)

lemma ctx_spin [simp]: "ctx_part (spin s) = ctx_part s"
  by (simp add: spin_def Let_def) (simp add: ctx_part_def)

lemma ctx_isr_clock: "isr_clock s = Inr s' \<Longrightarrow> ctx_part s' = ctx_part s"
proof -
  have "ctx_part (s\<lparr>system_time := n\<rparr>) = ctx_part s" for n by (simp add: ctx_part_def)
  then show "isr_clock s = Inr s' \<Longrightarrow> ctx_part s' = ctx_part s"
    by (auto simp: isr_clock_def bindE_eq_Inr Let_def simp del: wake_loop.simps dest!: ctx_wake_loop ctx_serve_ramdisk ctx_use_quantum)
qed

section \<open>What an entry may do to the contexts\<close>

text \<open>
  \<open>keeps A J K s s'\<close>: of the stacks outside \<open>K\<close> only the results of the contexts \<open>A\<close> have changed, and
  the PCBs outside \<open>J\<close> have the stack and the context that they had; the others may have a new
  context at the end of a stack of \<open>K\<close>.
\<close>

definition keeps :: "context_ptr set \<Rightarrow> nat set \<Rightarrow> nat set \<Rightarrow> kstate \<Rightarrow> kstate \<Rightarrow> bool" where
  "keeps A J K s s' \<longleftrightarrow> isr_table s' = isr_table s \<and>
     (\<forall>p. context_of (pcbs s' p) = context_of (pcbs s p) \<and> stack (pcbs s' p) = stack (pcbs s p) \<or>
        p \<in> J \<and> (\<exists>k \<in> K. stack (pcbs s' p) = Some k \<and> context_of (pcbs s' p) = Some (k, STACK_SIZE - 2 - CTX_WORDS))) \<and>
     (\<forall>i w. i \<notin> K \<and> (\<forall>n. (i, n) \<in> A \<longrightarrow> w \<noteq> n + CTX_EAX) \<longrightarrow> stacks s' i w = stacks s i w)"

lemma keeps_part: "ctx_part s' = ctx_part s \<Longrightarrow> keeps A J K s s'"
  using ctx_part_fields [of s' s] by (auto simp: keeps_def)

lemma keeps_refl [simp]: "keeps A J K s s"
  by (rule keeps_part) simp

lemma keeps_trans [trans]:
  assumes "keeps A J K s t" "keeps A J K t u"
  shows "keeps A J K s u"
  using assms unfolding keeps_def by (metis (no_types, lifting))

lemma keeps_mono: "keeps A J K s t \<Longrightarrow> A \<subseteq> B \<Longrightarrow> keeps B J K s t"
  unfolding keeps_def by blast

lemma keeps_result [simp]: "keeps A J K s (ctx_set x CTX_EAX v t) = keeps A J K s t" if "x \<in> A"
proof -
  have "isr_table (ctx_set x CTX_EAX v t) = isr_table t" by (simp add: ctx_set_def)
  moreover have "i = fst x \<and> w = snd x + CTX_EAX \<Longrightarrow> \<not> (\<forall>n. (i, n) \<in> A \<longrightarrow> w \<noteq> n + CTX_EAX)" for i w
    using that by (cases x) auto
  ultimately show ?thesis unfolding keeps_def by (auto simp: fun_upd_apply)
qed

text \<open>A change of the result in one context, and of nothing else that the contexts depend on.\<close>

definition set_part :: "context_ptr \<Rightarrow> nat \<Rightarrow> u32 \<Rightarrow> (nat \<Rightarrow> nat \<Rightarrow> u32) \<times> 'a \<Rightarrow> (nat \<Rightarrow> nat \<Rightarrow> u32) \<times> 'a" where
  "set_part x k v P = ((fst P)(fst x := (fst P (fst x))(snd x + k := v)), snd P)"

lemma ctx_part_ctx_set [simp]: "ctx_part (ctx_set x k v s) = set_part x k v (ctx_part s)"
  by (simp add: ctx_part_def set_part_def) (simp add: ctx_set_def)

lemma set_part_twice [simp]: "set_part x k v (set_part x k w P) = set_part x k v P"
  by (simp add: set_part_def)

definition result_at :: "context_ptr \<Rightarrow> kstate \<Rightarrow> kstate \<Rightarrow> bool" where
  "result_at x s s' \<longleftrightarrow> ctx_part s' = ctx_part s \<or> (\<exists>v. ctx_part s' = set_part x CTX_EAX v (ctx_part s))"

lemma result_at_same: "ctx_part s' = ctx_part s \<Longrightarrow> result_at x s s'"
  by (simp add: result_at_def)

lemma result_at_set: "ctx_part s' = set_part x CTX_EAX v (ctx_part s) \<Longrightarrow> result_at x s s'"
  by (auto simp: result_at_def)

lemmas result_atI = result_at_same result_at_set

lemma result_at_keeps:
  assumes "result_at x s s'"
  shows "keeps {x} J K s s'"
  using assms
  by (auto simp: result_at_def intro: keeps_part)
    (auto simp: keeps_def ctx_part_def set_part_def prod_eq_iff fun_eq_iff)

section \<open>System calls\<close>

lemma ctx_sio_read: "sio_read s = Inr (ch, s') \<Longrightarrow> ctx_part s' = ctx_part s"
  by (auto simp: sio_read_def Let_def ctx_part_def split: if_splits)

lemma ctx_sio_write: "sio_write ch s = Inr s' \<Longrightarrow> ctx_part s' = ctx_part s"
proof (induction ch s arbitrary: s' rule: sio_write.induct)
  case (1 ch s)
  then obtain t where t: "(if ch = 10 then sio_write 13 s else Inr s) = Inr t"
    and put: "(if sending t then
      if outlast t < BUF_SIZE then
        let t = t\<lparr>outbuffer := (outbuffer t)(outlast t := ucast ch)\<rparr>; t = t\<lparr>outlast := outlast t + 1\<rparr>
        in Inr (t\<lparr>outcount := outcount t + 1\<rparr>)
      else Inl (Overrun ''outbuffer'')
    else let t = t\<lparr>sending := True\<rparr> in Inr (outb UA4_TXD ch t)) = Inr s'"
    by (subst (asm) (2) sio_write.simps) (auto elim!: bindE_InrE)
  have "ctx_part t = ctx_part s" using t 1(1) by (auto split: if_splits)
  moreover have "ctx_part s' = ctx_part t"
    using put by (auto simp: Let_def ctx_part_def outb_def split: if_splits)
  ultimately show ?case by simp
qed

lemma ctx_strcpy: "strcpy fuel d a s = Inr (r, s') \<Longrightarrow> ctx_part s' = ctx_part s"
  by (induction fuel d a s rule: strcpy.induct) (auto simp: Let_def split: if_splits)

lemma ctx_shm_alloc: "shm_alloc s = Inr (a, s') \<Longrightarrow> ctx_part s' = ctx_part s"
  by (auto simp: shm_alloc_def set_shm_status_def bindE_eq_Inr split: prod.splits if_splits dest!: ctx_q_remove)

lemma ctx_shm_dealloc: "shm_dealloc a s = Inr (r, s') \<Longrightarrow> ctx_part s' = ctx_part s"
  by (auto simp: shm_dealloc_def set_shm_status_def dest!: ctx_q_insert)

lemma ctx_pids [simp]: "ctx_part (fold (\<lambda>i. set_shm_current_pids a i 0) is s) = ctx_part s"
  by (induction "is" arbitrary: s) (simp_all add: set_shm_current_pids_def)

lemma ctx_shm_malloc: "shm_malloc lk n s = (m, s') \<Longrightarrow> ctx_part s' = ctx_part s"
  by (auto simp: shm_malloc_def Let_def split: if_splits)

lemma ctx_store16: "ctx_part (store16 a vs s) = ctx_part s"
  by (induction vs arbitrary: a s) simp_all

lemmas ctx_calls = ctx_sio_read ctx_sio_write ctx_strcpy ctx_shm_alloc ctx_shm_dealloc ctx_shm_malloc
  ctx_q_insert ctx_schedule ctx_dispatch ctx_cleanup

lemma result_sys_read: "sys_read c s = Inr s' \<Longrightarrow> result_at c s s'"
  by (auto simp: sys_read_def bindE_eq_Inr Let_def kpanic_def
      split: if_splits option.splits prod.splits dest!: ctx_calls intro: result_atI)

lemma result_sys_write: "sys_write c s = Inr s' \<Longrightarrow> result_at c s s'"
  by (auto simp: sys_write_def bindE_eq_Inr Let_def kpanic_def
      split: if_splits option.splits prod.splits dest!: ctx_calls intro: result_atI)

lemma result_sys_time: "sys_time lk c s = Inr s' \<Longrightarrow> result_at c s s'"
  by (auto simp: sys_time_def bindE_eq_Inr Let_def kpanic_def
      split: if_splits option.splits prod.splits dest!: ctx_calls intro: result_atI)

lemma result_sys_getpid: "sys_getpid c s = Inr s' \<Longrightarrow> result_at c s s'"
  by (auto simp: sys_getpid_def bindE_eq_Inr Let_def kpanic_def
      split: if_splits option.splits prod.splits dest!: ctx_calls intro: result_atI)

lemma result_sys_getppid: "sys_getppid c s = Inr s' \<Longrightarrow> result_at c s s'"
  by (auto simp: sys_getppid_def bindE_eq_Inr Let_def kpanic_def
      split: if_splits option.splits prod.splits dest!: ctx_calls intro: result_atI)

lemma result_sys_kill: "sys_kill c s = Inr s' \<Longrightarrow> result_at c s s'"
  by (auto simp: sys_kill_def bindE_eq_Inr Let_def kpanic_def
      split: if_splits option.splits prod.splits dest!: ctx_calls intro: result_atI)

lemma result_sys_exit: "sys_exit c s = Inr s' \<Longrightarrow> result_at c s s'"
  by (auto simp: sys_exit_def bindE_eq_Inr Let_def kpanic_def
      split: if_splits option.splits prod.splits dest!: ctx_calls intro: result_atI)

lemma result_sys_sleep: "sys_sleep lk c s = Inr s' \<Longrightarrow> result_at c s s'"
  by (auto simp: sys_sleep_def bindE_eq_Inr Let_def kpanic_def
      split: if_splits option.splits prod.splits dest!: ctx_calls intro: result_atI)

lemma result_sys_shmget: "sys_shmget lk c s = Inr s' \<Longrightarrow> result_at c s s'"
  by (auto simp: sys_shmget_def bindE_eq_Inr Let_def kpanic_def shm_field_defs
      split: if_splits option.splits prod.splits dest!: ctx_calls intro: result_atI)

lemma result_sys_shmat: "sys_shmat c s = Inr s' \<Longrightarrow> result_at c s s'"
  by (auto simp: sys_shmat_def bindE_eq_Inr Let_def kpanic_def shm_field_defs
      split: if_splits option.splits prod.splits dest!: ctx_calls intro: result_atI)

lemma result_sys_shmwrite: "sys_shmwrite c s = Inr s' \<Longrightarrow> result_at c s s'"
  by (auto simp: sys_shmwrite_def bindE_eq_Inr Let_def kpanic_def shm_field_defs
      split: if_splits option.splits prod.splits dest!: ctx_calls intro: result_atI)

lemma result_sys_shmread: "sys_shmread c s = Inr s' \<Longrightarrow> result_at c s s'"
  by (auto simp: sys_shmread_def bindE_eq_Inr Let_def kpanic_def shm_field_defs
      split: if_splits option.splits prod.splits dest!: ctx_calls intro: result_atI)

lemma result_sys_shmdt: "sys_shmdt c s = Inr s' \<Longrightarrow> result_at c s s'"
  by (auto simp: sys_shmdt_def bindE_eq_Inr Let_def kpanic_def shm_field_defs
      split: if_splits option.splits prod.splits dest!: ctx_calls intro: result_atI)

lemma result_sys_shmrm: "sys_shmrm c s = Inr s' \<Longrightarrow> result_at c s s'"
  by (auto simp: sys_shmrm_def bindE_eq_Inr Let_def kpanic_def shm_field_defs
      split: if_splits option.splits prod.splits dest!: ctx_calls intro: result_atI)

lemma result_sys_getpidlist: "sys_getpidlist c s = Inr s' \<Longrightarrow> result_at c s s'"
  by (auto simp: sys_getpidlist_eq ctx_store16 Let_def intro: result_atI)

lemma call_result:
  assumes "call_sys lk f c s = Inr s'" "f \<notin> {Sys_spawn, Sys_spawnl}"
  shows "result_at c s s'"
  using assms by (cases f) (auto intro: result_sys_read result_sys_write result_sys_time result_sys_getpid result_sys_getppid
    result_sys_getpidlist result_sys_kill result_sys_exit result_sys_sleep result_sys_shmget result_sys_shmat
    result_sys_shmwrite result_sys_shmread result_sys_shmdt result_sys_shmrm)

section \<open>Creating processes\<close>

lemma ctx_pcb_alloc: "pcb_alloc s = Inr (p, s') \<Longrightarrow> ctx_part s' = ctx_part s"
  by (auto simp: pcb_alloc_def bindE_eq_Inr split: prod.splits option.splits dest!: ctx_q_remove)

lemma ctx_stack_alloc: "stack_alloc s = Inr (k, s') \<Longrightarrow> ctx_part s' = ctx_part s"
  by (auto simp: stack_alloc_def bindE_eq_Inr split: prod.splits dest!: ctx_q_remove)

lemma keeps_make_proc:
  assumes "j \<in> J" "k \<in> K"
  shows "keeps A J K s (snd (make_proc lk j k fcn lvl s))"
proof -
  let ?t = "snd (make_proc lk j k fcn lvl s)"
  have "isr_table ?t = isr_table s" by (rule k_frame_fields) (rule make_proc_eq)
  moreover have "stacks ?t i = stacks s i" if "i \<notin> K" for i
    using that assms(2) by (subst make_proc_stacks) auto
  moreover have "context_of (pcbs ?t p) = context_of (pcbs s p) \<and> stack (pcbs ?t p) = stack (pcbs s p) \<or>
     p \<in> J \<and> (\<exists>k \<in> K. stack (pcbs ?t p) = Some k \<and> context_of (pcbs ?t p) = Some (k, STACK_SIZE - 2 - CTX_WORDS))" for p
    using assms by (auto simp: make_proc_eq new_pcb_def)
  ultimately show ?thesis by (simp add: keeps_def)
qed

text \<open>The fresh PCB and the fresh stack are free ones.\<close>

lemma spawn_keeps:
  assumes ok: "kernel_ok i s" and run: "spawn lk c fcn lvl s = Inr s'"
  shows "keeps {c} (set (pcbs_in (q_view s) Free_pcbs)) (set (stacks_in (q_view s))) s s'"
    (is "keeps ?A ?J ?K s s'")
proof -
  from ok obtain cur where "running cur s" by (auto simp: kernel_ok_def)
  note kv = runningD(2) [OF this]
  show ?thesis
  proof (cases "pcbs_in (q_view s) Free_pcbs")
    case Nil
    have "result_at c s s'" using run kinv_pcb_alloc_none [OF kv Nil] by (auto simp: spawn_def intro: result_atI)
    then show ?thesis by (rule result_at_keeps)
  next
    case j: (Cons j js)
    from kinv_pcb_alloc [OF kv j] obtain s1 where s1: "pcb_alloc s = Inr (Some j, s1)" "kinv [cur] [j] [] s1"
      "q_view s1 = (q_view s)(Free_pcbs := tl (q_view s Free_pcbs))" by blast
    have st: "stacks_in (q_view s1) = stacks_in (q_view s)" by (simp add: stacks_in_def s1(3))
    note c1 = ctx_pcb_alloc [OF s1(1)]
    show ?thesis
    proof (cases "stacks_in (q_view s1)")
      case Nil
      have "result_at c s s'"
        using run s1(1) kinv_stack_alloc_none [OF s1(2) Nil] c1
        by (auto simp: spawn_def bindE_eq_Inr Let_def split: if_splits dest!: ctx_pcb_dealloc intro: result_atI)
      then show ?thesis by (rule result_at_keeps)
    next
      case k: (Cons k ks)
      from kinv_stack_alloc [OF s1(2) k] obtain s2 where s2: "stack_alloc s1 = Inr (Some k, s2)" by blast
      note c2 = ctx_stack_alloc [OF s2]
      let ?t = "snd (make_proc lk j k fcn lvl s2)" and ?n = "ucast (fst (make_proc lk j k fcn lvl s2)) :: u32"
      have "ctx_part s' = ctx_part (ctx_set c CTX_EAX ?n ?t)"
        using run s1(1) s2 by (auto simp: spawn_def bindE_eq_Inr Let_def split: prod.splits dest!: ctx_calls)
      moreover have "keeps ?A ?J ?K s2 ?t" using j k st by (intro keeps_make_proc) auto
      moreover have "keeps ?A ?J ?K s s2" using c1 c2 by (intro keeps_part) simp
      ultimately show ?thesis
        using keeps_trans [of ?A ?J ?K s s2 ?t] keeps_trans [of ?A ?J ?K s "ctx_set c CTX_EAX ?n ?t" s']
          keeps_part [of s' "ctx_set c CTX_EAX ?n ?t"] by simp
    qed
  qed
qed

section \<open>The serial line\<close>

definition reader_ctxs :: "kstate \<Rightarrow> context_ptr set" where
  "reader_ctxs s = {x. \<exists>p \<in> set (pcbs_in (q_view s) Reading). context_of (pcbs s p) = Some x}"

lemma ctx_sio_tx: "sio_tx s = Inr s' \<Longrightarrow> ctx_part s' = ctx_part s \<and> pcbs_in (q_view s') Reading = pcbs_in (q_view s) Reading"
proof -
  assume run: "sio_tx s = Inr s'"
  then have "same_procs s s'" by (auto simp: sio_tx_def Let_def same_procs_def outb_def split: if_splits)
  moreover have "ctx_part s' = ctx_part s"
    using run by (auto simp: sio_tx_def Let_def ctx_part_def outb_def split: if_splits)
  ultimately show ?thesis by (simp add: same_procs_cong)
qed

lemma sio_rx_keeps:
  assumes ok: "kernel_ok i s" and s': "sio_rx ch s = Inr s'"
  shows "keeps (reader_ctxs s) {} {} s s'" "reader_ctxs s' \<subseteq> reader_ctxs s"
proof -
  from ok obtain c where r: "running c s" by (auto simp: kernel_ok_def)
  note k = runningD(2) [OF r]
  have "keeps (reader_ctxs s) {} {} s s' \<and> reader_ctxs s' \<subseteq> reader_ctxs s"
  proof (cases "pcbs_in (q_view s) Reading")
    case Nil
    then have e: "q_isempty Reading s" using q_isempty_view [OF kinvD(1) [OF k]] by (simp add: pcbs_in_def)
    then have "same_procs s s'" "ctx_part s' = ctx_part s"
      using s' by (auto simp: sio_rx_def Let_def same_procs_def ctx_part_def split: if_splits)
    then show ?thesis by (simp add: keeps_part reader_ctxs_def same_procs_cong)
  next
    case (Cons p ps)
    from sio_rx_wakes [OF k Cons, where ch = ch and i = i] obtain x t where "sio_rx ch s = Inr t" "context_of (pcbs s p) = Some x"
      "q_view t = (q_view s)(Reading := tl (q_view s Reading),
        Ready (unat (level (pcbs s p))) := q_view s (Ready (unat (level (pcbs s p)))) @ [(0, Some (Pcb p))])"
      "pcbs t = (pcbs s)(p := (pcbs s p)\<lparr>status := PROC_READY\<rparr>)"
      "stacks t = stacks (ctx_set x CTX_EAX ((if ch = 13 then 10 else ch) AND 0xff) s)" "k_frame s t" by blast
    with s' have w: "context_of (pcbs s p) = Some x"
      "q_view s' = (q_view s)(Reading := tl (q_view s Reading),
        Ready (unat (level (pcbs s p))) := q_view s (Ready (unat (level (pcbs s p)))) @ [(0, Some (Pcb p))])"
      "pcbs s' = (pcbs s)(p := (pcbs s p)\<lparr>status := PROC_READY\<rparr>)"
      "stacks s' = stacks (ctx_set x CTX_EAX ((if ch = 13 then 10 else ch) AND 0xff) s)" "k_frame s s'" by simp_all
    have "isr_table s' = isr_table s" using w(5) by (rule k_frame_fields)
    then have "ctx_part s' = ctx_part (ctx_set x CTX_EAX ((if ch = 13 then 10 else ch) AND 0xff) s)"
      using w(3,4) by (auto simp: ctx_part_def fun_eq_iff) (auto simp: ctx_set_def)
    then have "result_at x s s'" by (intro result_at_set) simp
    moreover have "x \<in> reader_ctxs s" using w(1) Cons by (auto simp: reader_ctxs_def)
    moreover have "pcbs_in (q_view s') Reading = ps" using Cons by (simp add: w(2) pcbs_in_def map_tl)
    then have "reader_ctxs s' \<subseteq> reader_ctxs s" using Cons by (auto simp: reader_ctxs_def w(3) split: if_splits)
    ultimately show ?thesis using result_at_keeps keeps_mono by (metis empty_subsetI insert_subset)
  qed
  then show "keeps (reader_ctxs s) {} {} s s'" "reader_ctxs s' \<subseteq> reader_ctxs s" by auto
qed

lemma isr_sio_loop_keeps:
  assumes "kernel_ok i s" "inq s = uart_reads evs @ rest" "inlast s + received evs \<le> BUF_SIZE" "length evs < fuel"
    and "isr_sio_loop fuel s = Inr s'"
  shows "keeps (reader_ctxs s) {} {} s s'"
  using assms
proof (induction evs arbitrary: s fuel rule: received.induct)
  case 1
  then obtain f where f: "fuel = Suc f" by (cases fuel) auto
  show ?case using 1 f by (intro keeps_part) (auto simp: inb_def)
next
  case (2 evs)
  then obtain f where f: "fuel = Suc f" by (cases fuel) auto
  let ?s = "s\<lparr>inq := uart_reads evs @ rest\<rparr>"
  from sio_tx_rest [of i ?s] 2(2) obtain t where
    t: "sio_tx ?s = Inr t" "kernel_ok i t" "inlast t \<le> inlast s" "inq t = uart_reads evs @ rest" by auto
  have "isr_sio_loop fuel s = isr_sio_loop f t" using 2(3) f t(1) by (simp add: inb_def)
  then have "keeps (reader_ctxs t) {} {} t s'" using 2(1) [OF t(2,4), of f] 2(4-6) t(3) f by auto
  moreover have p: "ctx_part t = ctx_part s" using ctx_sio_tx [OF t(1)] by simp
  have "same_procs s ?s" by (simp add: same_procs_def)
  then have "pcbs_in (q_view t) Reading = pcbs_in (q_view s) Reading"
    using ctx_sio_tx [OF t(1)] by (simp add: same_procs_cong)
  then have "reader_ctxs t = reader_ctxs s" by (simp add: reader_ctxs_def ctx_part_fields(3) [OF p])
  ultimately show ?case using keeps_trans [OF keeps_part [OF p]] by simp
next
  case (3 ch evs)
  then obtain f where f: "fuel = Suc f" by (cases fuel) auto
  let ?s = "s\<lparr>inq := uart_reads evs @ rest\<rparr>"
  have ok: "kernel_ok i ?s" using 3(2) by simp
  from sio_rx_rest [OF ok, of "ch AND 0xff"] 3(4) obtain t where
    t: "sio_rx (ch AND 0xff) ?s = Inr t" "kernel_ok i t" "inlast t \<le> Suc (inlast s)" "inq t = uart_reads evs @ rest"
    by auto
  have "isr_sio_loop fuel s = isr_sio_loop f t" using 3(3) f t(1) by (simp add: inb_def)
  then have u: "keeps (reader_ctxs t) {} {} t s'" using 3(1) [OF t(2,4), of f] 3(4-6) t(3) f by auto
  have "same_procs s ?s" by (simp add: same_procs_def)
  then have r: "reader_ctxs ?s = reader_ctxs s" by (simp add: reader_ctxs_def same_procs_cong)
  have "keeps (reader_ctxs s) {} {} s ?s" by (rule keeps_part) simp
  moreover have "keeps (reader_ctxs s) {} {} ?s t" using sio_rx_keeps(1) [OF ok t(1)] r by simp
  moreover have "keeps (reader_ctxs s) {} {} t s'" using keeps_mono [OF u] sio_rx_keeps(2) [OF ok t(1)] r by simp
  ultimately show ?case using keeps_trans by blast
qed

lemma isr_sio_keeps:
  assumes "kernel_ok i s" "inq s = uart_reads evs @ rest" "inlast s + received evs \<le> BUF_SIZE" "isr_sio s = Inr s'"
  shows "keeps (reader_ctxs s) {} {} s s'"
proof -
  have "length evs < Suc (length (inq s))" using assms(2) length_uart_reads [of evs] by simp
  from isr_sio_loop_keeps [OF assms(1-3) this] assms(4) show ?thesis by (simp add: isr_sio_def)
qed

lemma isr_clock_keeps: "isr_clock s = Inr s' \<Longrightarrow> keeps {} {} {} s s'"
  by (rule keeps_part) (rule ctx_isr_clock)

lemma isr_syscall_keeps:
  assumes ok: "kernel_ok i s" and q: "requested s cur c f" and run: "isr_syscall lk s = Inr s'"
  shows "keeps {c} (set (pcbs_in (q_view s) Free_pcbs)) (set (stacks_in (q_view s))) s s'"
    (is "keeps ?A ?J ?K s s'")
proof -
  have t: "table_ok s" using ok by (simp add: kernel_ok_def env_ok_def)
  from isr_syscall_call [OF t q] obtain s0 where s0: "f = Sys_exit \<or> s0 = s"
    "isr_syscall lk s = bindE (call_sys lk f c s0) (\<lambda>s. Inr (outb PIC_MASTER_CMD_PORT PIC_EOI s))"
    "same_procs s s0" "same_sio s s0" "stacks s0 = stacks s" "isr_table s0 = isr_table s" by blast
  have part: "ctx_part s0 = ctx_part s" using s0 by (simp add: ctx_part_def same_procs_cong)
  have ok0: "kernel_ok i s0" using ok s0(3,4) by (rule quiet_rest)
  from run s0(2) obtain s1 where s1: "call_sys lk f c s0 = Inr s1" "ctx_part s' = ctx_part s1"
    by (auto simp: bindE_eq_Inr)
  have "keeps ?A ?J ?K s0 s1"
  proof (cases "f \<in> {Sys_spawn, Sys_spawnl}")
    case True
    then have "s0 = s" using s0(1) by auto
    then obtain fcn lvl where "spawn lk c fcn lvl s = Inr s1"
      using True s1(1) by (auto simp: sys_spawn_def sys_spawnl_def)
    from spawn_keeps [OF ok this] \<open>s0 = s\<close> show ?thesis by simp
  next
    case False
    with call_result [OF s1(1)] show ?thesis by (intro result_at_keeps)
  qed
  from keeps_trans [OF keeps_trans [OF keeps_part [OF part] this] keeps_part [OF s1(2)]] show ?thesis .
qed

end
