(* ===== verification/Cpu_Steps.thy ===== *)
theory Cpu_Steps
  imports Saved_Contexts
begin

text \<open>
  The processor and the kernel together: user code runs with its registers on its own stack, and
  every interrupt saves them, runs the kernel and goes on with the registers of the process that
  the kernel has chosen.
\<close>

section \<open>Sound states\<close>

text \<open>Every context lies within the stack of its process.\<close>

definition ctx_ok :: "kstate \<Rightarrow> bool" where
  "ctx_ok s \<longleftrightarrow> (\<forall>p < MAX_PROCS. \<forall>x. context_of (pcbs s p) = Some x \<longrightarrow>
     stack (pcbs s p) = Some (fst x) \<and> snd x + CTX_WORDS \<le> STACK_SIZE)"

lemma ctx_okD:
  "ctx_ok s \<Longrightarrow> p < MAX_PROCS \<Longrightarrow> context_of (pcbs s p) = Some x \<Longrightarrow>
     stack (pcbs s p) = Some (fst x) \<and> snd x + CTX_WORDS \<le> STACK_SIZE"
  unfolding ctx_ok_def by blast

definition vectors_ok :: "kstate \<Rightarrow> bool" where
  "vectors_ok s \<longleftrightarrow> isr_table s INT_VEC_SYSCALL = Some Isr_syscall \<and> isr_table s INT_VEC_TIMER = Some Isr_clock \<and>
     isr_table s INT_VEC_SERIAL_PORT_1 = Some Isr_sio"

text \<open>The stack pointer is on the stack of the running process, with room for a context below it.\<close>

definition on_stack :: "cpu \<Rightarrow> nat \<Rightarrow> kstate \<Rightarrow> bool" where
  "on_stack c p s \<longleftrightarrow> stack (pcbs s p) = Some (fst (r_esp c)) \<and> room c \<and> snd (r_esp c) \<le> STACK_SIZE"

definition pc_ok :: "nat \<Rightarrow> pc \<Rightarrow> bool" where
  "pc_ok i = (\<lambda>(c, s). kernel_ok i s \<and> ctx_ok s \<and> vectors_ok s \<and> (\<forall>p. current s = Some p \<longrightarrow> on_stack c p s))"

section \<open>The kernel is entered with the registers on the stack\<close>

definition saved_at :: "cpu \<Rightarrow> context_ptr" where
  "saved_at c = (fst (r_esp c), snd (r_esp c) - CTX_WORDS)"

lemma saved_state_user:
  "\<exists>st. saved_state adr p c v e s = set_pcb p (\<lambda>p. p\<lparr>context_of := Some (saved_at c)\<rparr>) (s\<lparr>stacks := st\<rparr>) \<and>
     (\<forall>k. k \<noteq> fst (r_esp c) \<longrightarrow> st k = stacks s k)"
proof -
  obtain k n where e: "r_esp c = (k, n)" by (cases "r_esp c")
  let ?st = "stacks (put_words k (n - CTX_WORDS) (context_words adr c v (if err_isr v then e else 0) (k, n - 5)) s)"
  have "put_words k (n - CTX_WORDS) (context_words adr c v (if err_isr v then e else 0) (k, n - 5)) s = s\<lparr>stacks := ?st\<rparr>"
    by (rule kstate.equality) (simp_all add: put_words_def)
  moreover have "j \<noteq> k \<longrightarrow> ?st j = stacks s j" for j by (simp add: put_words_def)
  ultimately show ?thesis unfolding saved_state_def e saved_at_def prod.case fst_conv snd_conv by (intro exI [of _ ?st]) metis
qed

lemma saved_state_ok:
  assumes "kernel_ok i s" "current s = Some p"
  shows "kernel_ok i (saved_state adr p c v e s)"
proof -
  from saved_state_user [of adr p c v e s] obtain st where
    "saved_state adr p c v e s = set_pcb p (\<lambda>p. p\<lparr>context_of := Some (saved_at c)\<rparr>) (s\<lparr>stacks := st\<rparr>)" by blast
  then show ?thesis using user_rest [OF assms, where ctx = "saved_at c" and m = "mem s" and st = st] by simp
qed

lemma saved_state_fields [simp]:
  "current (saved_state adr p c v e s) = current s" "isr_table (saved_state adr p c v e s) = isr_table s"
  "inq (saved_state adr p c v e s) = inq s" "inlast (saved_state adr p c v e s) = inlast s"
  "system_time (saved_state adr p c v e s) = system_time s" "q_view (saved_state adr p c v e s) = q_view s"
  "pcbs (saved_state adr p c v e s) = (pcbs s)(p := (pcbs s p)\<lparr>context_of := Some (saved_at c)\<rparr>)"
proof -
  from saved_state_user [of adr p c v e s] obtain st where
    u: "saved_state adr p c v e s = set_pcb p (\<lambda>p. p\<lparr>context_of := Some (saved_at c)\<rparr>) (s\<lparr>stacks := st\<rparr>)" by blast
  show "current (saved_state adr p c v e s) = current s" "isr_table (saved_state adr p c v e s) = isr_table s"
    "inq (saved_state adr p c v e s) = inq s" "inlast (saved_state adr p c v e s) = inlast s"
    "system_time (saved_state adr p c v e s) = system_time s"
    "pcbs (saved_state adr p c v e s) = (pcbs s)(p := (pcbs s p)\<lparr>context_of := Some (saved_at c)\<rparr>)"
    by (simp_all add: u set_pcb_def)
  have "same_procs s (s\<lparr>stacks := st\<rparr>)" by (simp add: same_procs_def)
  then have "q_view (s\<lparr>stacks := st\<rparr>) = q_view s" by (rule same_procs_cong)
  then show "q_view (saved_state adr p c v e s) = q_view s" by (simp add: u)
qed

lemma saved_state_service: "service_ok now (saved_state adr p c v e s) = service_ok now s"
proof -
  from saved_state_user [of adr p c v e s] obtain st where
    u: "saved_state adr p c v e s = set_pcb p (\<lambda>p. p\<lparr>context_of := Some (saved_at c)\<rparr>) (s\<lparr>stacks := st\<rparr>)" by blast
  have f: "ramdisk_service (saved_state adr p c v e s) = ramdisk_service s"
    "pending_requests (saved_state adr p c v e s) = pending_requests s" by (simp_all add: u set_pcb_def)
  have pr: "pending_request (pcbs (saved_state adr p c v e s) q) = pending_request (pcbs s q)" for q by simp
  show ?thesis unfolding service_ok_def request_ok_def saved_state_fields(6) f pr ..
qed

lemma saved_state_requested:
  assumes "current s = Some p" "room c"
  shows "requested (saved_state adr p c v e s) p (saved_at c) (sys_of (gp_regs c EAX))"
proof -
  have "ctx_get (saved_at c) CTX_EAX (saved_state adr p c v e s) = gp_regs c EAX"
    unfolding saved_at_def by (subst saved_words) (simp_all add: context_words_def)
  then show ?thesis using assms(1) by (simp add: requested_def)
qed

lemma saved_state_ctx:
  assumes "ctx_ok s" "on_stack c p s"
  shows "ctx_ok (saved_state adr p c v e s)"
  using assms by (auto simp: ctx_ok_def on_stack_def saved_at_def)

section \<open>The kernel is left with the registers of the process it has chosen\<close>

lemma ctx_ok_keeps:
  assumes "ctx_ok s" "keeps A J K s s'"
  shows "ctx_ok s'"
  unfolding ctx_ok_def
proof (intro allI impI)
  fix p x
  assume p: "p < MAX_PROCS" and x: "context_of (pcbs s' p) = Some x"
  from assms(2) consider "context_of (pcbs s' p) = context_of (pcbs s p)" "stack (pcbs s' p) = stack (pcbs s p)"
    | k where "stack (pcbs s' p) = Some k" "context_of (pcbs s' p) = Some (k, STACK_SIZE - 2 - CTX_WORDS)"
    unfolding keeps_def by blast
  then show "stack (pcbs s' p) = Some (fst x) \<and> snd x + CTX_WORDS \<le> STACK_SIZE"
    using ctx_okD [OF assms(1) p] x by cases auto
qed

lemma load_context_esp [simp]: "r_esp (load_context x s) = (fst x, snd x + CTX_WORDS)"
  by (simp add: load_context_def)

lemma isr_restore_ok:
  assumes ok: "kernel_ok i s" and x: "ctx_ok s" and v: "vectors_ok s"
  obtains q y where "isr_restore adr (c, s) = Inr (load_context y s, s)" "current s = Some q"
    "context_of (pcbs s q) = Some y" "pc_ok i (load_context y s, s)"
proof -
  from ok obtain q where "running q s" by (auto simp: kernel_ok_def)
  note d = runningD [OF this]
  from d(4) obtain y where y: "context_of (pcbs s q) = Some y" by (auto simp: live_pcb_def)
  have b: "stack (pcbs s q) = Some (fst y)" "snd y + CTX_WORDS \<le> STACK_SIZE"
    using ctx_okD [OF x d(3) y] by auto
  have "pc_ok i (load_context y s, s)"
    using ok x v b d(1) by (auto simp: pc_ok_def on_stack_def)
  with isr_restore [OF d(1) y b(2)] d(1) y that show thesis by blast
qed

section \<open>Interrupts\<close>

text \<open>
  The interrupts that the kernel has a handler for, and under which conditions: a system call
  keeps to \<open>call_ok\<close>, a tick to \<open>service_ok\<close>, and there is room for the characters that come in.
\<close>

datatype irq = Call | Tick | Serial

fun vector_of :: "irq \<Rightarrow> u32" where
  "vector_of Call = INT_VEC_SYSCALL"
| "vector_of Tick = INT_VEC_TIMER"
| "vector_of Serial = INT_VEC_SERIAL_PORT_1"

fun irq_ok :: "(context_ptr \<Rightarrow> u32) \<Rightarrow> nat \<Rightarrow> irq \<Rightarrow> pc \<Rightarrow> bool" where
  "irq_ok adr i Call (c, s) = (\<forall>p. current s = Some p \<longrightarrow>
     call_ok i (sys_of (gp_regs c EAX)) (saved_at c) (saved_state adr p c INT_VEC_SYSCALL 0 s))"
| "irq_ok adr i Tick (c, s) = service_ok (system_time s + 1) s"
| "irq_ok adr i Serial (c, s) = (\<exists>evs rest. inq s = uart_reads evs @ rest \<and> inlast s + received evs \<le> BUF_SIZE)"

fun handler :: "linkage \<Rightarrow> irq \<Rightarrow> kstate \<Rightarrow> kstate outcome" where
  "handler lk Call = isr_syscall lk"
| "handler lk Tick = isr_clock"
| "handler lk Serial = isr_sio"

text \<open>What the handler may change of the contexts of others.\<close>

fun touches :: "irq \<Rightarrow> cpu \<Rightarrow> kstate \<Rightarrow> context_ptr set" where
  "touches Call c s = {saved_at c}"
| "touches Tick c s = {}"
| "touches Serial c s = reader_ctxs s"

lemma keeps_more: "keeps A {} {} s t \<Longrightarrow> keeps A J K s t"
  by (auto simp: keeps_def)

lemma handler_rest:
  assumes ok: "pc_ok i (c, s)" and p: "current s = Some p" and q: "irq_ok adr i r (c, s)"
    and t: "t = saved_state adr p c (vector_of r) 0 s"
  obtains s' where "handler lk r t = Inr s'" "kernel_ok i s'"
    "keeps (touches r c t) (set (pcbs_in (q_view s) Free_pcbs)) (set (stacks_in (q_view s))) t s'"
proof -
  have ks: "kernel_ok i s" and st: "on_stack c p s" using ok p by (simp_all add: pc_ok_def)
  have kt: "kernel_ok i t" unfolding t by (rule saved_state_ok [OF ks p])
  show thesis
  proof (cases r)
    case Call
    have rq: "requested t p (saved_at c) (sys_of (gp_regs c EAX))"
      unfolding t using st by (intro saved_state_requested [OF p]) (simp add: on_stack_def)
    have "call_ok i (sys_of (gp_regs c EAX)) (saved_at c) t" using q p Call by (simp add: t)
    from isr_syscall_rest [where lk = lk, OF kt rq this] obtain s' where s': "isr_syscall lk t = Inr s'" "kernel_ok i s'" by blast
    with isr_syscall_keeps [OF kt rq s'(1)] show thesis using that Call by (simp add: t)
  next
    case Tick
    have "service_ok (system_time t + 1) t" using q Tick by (simp add: t saved_state_service)
    from isr_clock_rest [OF kt this] obtain s' where s': "isr_clock t = Inr s'" "kernel_ok i s'" by blast
    with keeps_more [OF isr_clock_keeps [OF s'(1)]] show thesis using that Tick by simp
  next
    case Serial
    then obtain evs rest where e: "inq t = uart_reads evs @ rest" "inlast t + received evs \<le> BUF_SIZE"
      using q by (auto simp: t)
    from isr_sio_rest [OF kt e] obtain s' where s': "isr_sio t = Inr s'" "kernel_ok i s'" by blast
    with keeps_more [OF isr_sio_keeps [OF kt e s'(1)]] show thesis using that Serial by simp
  qed
qed

lemma run_handler: "isr_table s (vector_of r) = Some h \<Longrightarrow> vectors_ok s \<Longrightarrow> run_isr lk dev h (vector_of r) e t = handler lk r t"
  by (cases r) (auto simp: vectors_ok_def)

lemma vectors_ok_keeps: "vectors_ok s \<Longrightarrow> keeps A J K s s' \<Longrightarrow> vectors_ok s'"
  by (simp add: vectors_ok_def keeps_def)

text \<open>
  Every interrupt comes back to user code: the handler returns, and the registers are those that
  were saved when the process that now runs was last interrupted, or those it starts with.
\<close>

lemma interrupt_returns:
  assumes ok: "pc_ok i (c, s)" and p: "current s = Some p" and q: "irq_ok adr i r (c, s)"
    and t: "t = saved_state adr p c (vector_of r) 0 s"
  obtains s' x y where "interrupt lk adr dev (vector_of r) 0 (c, s) = Inr (load_context y s', s')"
    "handler lk r t = Inr s'" "current s' = Some x" "context_of (pcbs s' x) = Some y"
    "pc_ok i (load_context y s', s')"
    "keeps (touches r c t) (set (pcbs_in (q_view s) Free_pcbs)) (set (stacks_in (q_view s))) t s'"
proof -
  have v: "vectors_ok s" and st: "on_stack c p s" and x: "ctx_ok s" using ok p by (simp_all add: pc_ok_def)
  obtain h where h: "isr_table s (vector_of r) = Some h" using v by (cases r) (auto simp: vectors_ok_def)
  have ne: "\<not> err_isr (vector_of r)" by (cases r) (simp_all add: err_isr_def)
  have rm: "room c" using st by (simp add: on_stack_def)
  from interrupt_saved [OF rm p, of lk adr dev "vector_of r" 0] obtain c1 where
    e: "interrupt lk adr dev (vector_of r) 0 (c, s) = bindE (handler lk r t) (\<lambda>s. isr_restore adr (c1, s))"
    unfolding h deref_simps bindE_simps run_handler [OF h v] t [symmetric] by blast
  obtain s' where s': "handler lk r t = Inr s'" "kernel_ok i s'"
    "keeps (touches r c t) (set (pcbs_in (q_view s) Free_pcbs)) (set (stacks_in (q_view s))) t s'"
    by (rule handler_rest [OF ok p q t, of lk])
  have x': "ctx_ok s'" using saved_state_ctx [OF x st] s'(3) unfolding t by (rule ctx_ok_keeps)
  have "vectors_ok t" using v by (simp add: t vectors_ok_def)
  then have v': "vectors_ok s'" using s'(3) by (rule vectors_ok_keeps)
  obtain z y where "isr_restore adr (c1, s') = Inr (load_context y s', s')" "current s' = Some z"
    "context_of (pcbs s' z) = Some y" "pc_ok i (load_context y s', s')"
    by (rule isr_restore_ok [OF s'(2) x' v', of adr c1])
  with that s'(1,3) e show thesis by simp
qed

section \<open>The processes that wait\<close>

text \<open>The registers with which a process will go on.\<close>

definition saved_regs :: "nat \<Rightarrow> kstate \<Rightarrow> cpu option" where
  "saved_regs p s = map_option (\<lambda>x. load_context x s) (context_of (pcbs s p))"

text \<open>Two live processes have different stacks, and no live process has a free one.\<close>

lemma owned_lists:
  assumes k: "kinv [c] [] [] s"
  shows "distinct (pcbs_in (q_view s) Free_pcbs @ c # concat (map (pcbs_in (q_view s)) live_queues))"
    "distinct (stacks_in (q_view s) @ map (stack_idx (pcbs s)) (c # concat (map (pcbs_in (q_view s)) live_queues)))"
    "q \<in># live (q_view s) \<longleftrightarrow> q \<in> set (concat (map (pcbs_in (q_view s)) live_queues))"
    "q \<in># live (q_view s) \<Longrightarrow> q < MAX_PROCS"
proof -
  note o = kinvD(4) [OF k]
  have m: "mset (pcbs_in (q_view s) Free_pcbs @ c # concat (map (pcbs_in (q_view s)) live_queues)) \<subseteq># mset_set {..<MAX_PROCS}"
    "mset (stacks_in (q_view s) @ map (stack_idx (pcbs s)) (c # concat (map (pcbs_in (q_view s)) live_queues)))
      \<subseteq># mset_set {..<MAX_PROCS}"
    using o by (simp_all add: owned_def live_def)
  then show "distinct (pcbs_in (q_view s) Free_pcbs @ c # concat (map (pcbs_in (q_view s)) live_queues))"
    "distinct (stacks_in (q_view s) @ map (stack_idx (pcbs s)) (c # concat (map (pcbs_in (q_view s)) live_queues)))"
    by (blast intro: sub_mset_distinct)+
  show l: "q \<in># live (q_view s) \<longleftrightarrow> q \<in> set (concat (map (pcbs_in (q_view s)) live_queues))"
    unfolding live_def by (rule in_multiset_in_set)
  show "q \<in># live (q_view s) \<Longrightarrow> q < MAX_PROCS"
    using sub_mset_set [OF m(1), of q] l by auto
qed

lemma owned_apart:
  assumes k: "kinv [c] [] [] s" and q: "q \<in># live (q_view s)"
  shows "q \<noteq> c" "stack_idx (pcbs s) q \<noteq> stack_idx (pcbs s) c" "stack_idx (pcbs s) q \<notin> set (stacks_in (q_view s))"
    "q \<notin> set (pcbs_in (q_view s) Free_pcbs)" "q < MAX_PROCS" "live_pcb (pcbs s q)"
    "r \<in># live (q_view s) \<Longrightarrow> stack_idx (pcbs s) r = stack_idx (pcbs s) q \<Longrightarrow> r = q"
proof -
  note l = owned_lists [OF k]
  let ?L = "concat (map (pcbs_in (q_view s)) live_queues)"
  have q': "q \<in> set ?L" using q l(3) by blast
  then have sq: "stack_idx (pcbs s) q \<in> set (map (stack_idx (pcbs s)) ?L)" by (simp del: set_concat)
  show "q \<noteq> c" "stack_idx (pcbs s) q \<noteq> stack_idx (pcbs s) c" "stack_idx (pcbs s) q \<notin> set (stacks_in (q_view s))"
    "q \<notin> set (pcbs_in (q_view s) Free_pcbs)" "q < MAX_PROCS"
    using l(1,2) l(4) [OF q] q' sq by (auto simp del: set_concat set_map map_concat)
  show "live_pcb (pcbs s q)" using kinvD(4) [OF k] q by (auto simp: owned_def)
  assume "r \<in># live (q_view s)" "stack_idx (pcbs s) r = stack_idx (pcbs s) q"
  moreover have "inj_on (stack_idx (pcbs s)) (set ?L)" using l(2) by (simp add: distinct_map del: set_concat)
  ultimately show "r = q" using q' l(3) [of r] by (auto dest: inj_onD)
qed

text \<open>A context depends on the stack it is on, and on the words of it.\<close>

lemma load_context_cong:
  assumes "\<And>k. k < CTX_WORDS \<Longrightarrow> ctx_get x k s' = ctx_get x k s"
  shows "load_context x s' = load_context x s"
  using assms by (auto simp: load_context_def fun_eq_iff split: reg.split seg.split)

lemma load_context_eax:
  assumes "\<And>k. k < CTX_WORDS \<Longrightarrow> k \<noteq> CTX_EAX \<Longrightarrow> ctx_get x k s' = ctx_get x k s"
  shows "load_context x s' = to_reg EAX (ctx_get x CTX_EAX s') (load_context x s)"
  using assms by (auto simp: load_context_def to_reg_def fun_eq_iff split: reg.split seg.split)

text \<open>
  Whatever an interrupt does, a process that waits will go on with the registers it had; one
  that waits for a character may find it in EAX.
\<close>

lemma interrupt_spares:
  assumes ok: "pc_ok i (c, s)" and p: "current s = Some p"
    and t: "t = saved_state adr p c (vector_of r) 0 s"
    and k: "keeps (touches r c t) (set (pcbs_in (q_view s) Free_pcbs)) (set (stacks_in (q_view s))) t s'"
    and q: "q \<in># live (q_view s)" and x: "context_of (pcbs s q) = Some x"
  shows "context_of (pcbs s' q) = Some x"
    "r \<noteq> Serial \<or> q \<notin> set (pcbs_in (q_view s) Reading) \<Longrightarrow> load_context x s' = load_context x s"
    "load_context x s' = to_reg EAX (ctx_get x CTX_EAX s') (load_context x s)"
    "w \<noteq> snd x + CTX_EAX \<Longrightarrow> stacks s' (fst x) w = stacks s (fst x) w"
proof -
  have ks: "kernel_ok i s" and st: "on_stack c p s" and xo: "ctx_ok s" using ok p by (simp_all add: pc_ok_def)
  from ks obtain p' where "running p' s" by (auto simp: kernel_ok_def)
  with p have run: "running p s" using runningD(1) by fastforce
  note kv = runningD(2) [OF run]
  note a = owned_apart [OF kv q]
  have pq: "pcbs t q = pcbs s q" using a(1) by (simp add: t)
  show "context_of (pcbs s' q) = Some x" using k a(4) pq x unfolding keeps_def by metis
  have sx: "stack (pcbs s q) = Some (fst x)" using ctx_okD [OF xo a(5) x] by blast
  then have ix: "stack_idx (pcbs s) q = fst x" by (simp add: stack_idx_def)
  have ip: "stack_idx (pcbs s) p = fst (r_esp c)" using st by (simp add: on_stack_def stack_idx_def)
  have stt: "stacks t (fst x) = stacks s (fst x)"
    using saved_state_user [of adr p c "vector_of r" 0 s] a(2) ix ip unfolding t by auto
  have kk: "stacks s' (fst x) w = stacks s (fst x) w" if "\<And>n. (fst x, n) \<in> touches r c t \<Longrightarrow> w \<noteq> n + CTX_EAX" for w
    using k that a(3) ix stt unfolding keeps_def by metis
  have rd: "q \<in> set (pcbs_in (q_view s) Reading) \<and> n = snd x" if "(fst x, n) \<in> reader_ctxs t" for n
  proof -
    from that obtain z where z: "z \<in> set (pcbs_in (q_view s) Reading)" "context_of (pcbs t z) = Some (fst x, n)"
      by (auto simp: reader_ctxs_def t)
    have lz: "z \<in># live (q_view s)" using in_live [OF reading_live z(1)] .
    note b = owned_apart [OF kv lz]
    have zc: "context_of (pcbs s z) = Some (fst x, n)" using z(2) b(1) by (simp add: t)
    have "stack_idx (pcbs s) z = fst x" using ctx_okD [OF xo b(5) zc] by (simp add: stack_idx_def)
    then have "z = q" using a(7) [OF lz] ix by simp
    with z(1) zc x have "q \<in> set (pcbs_in (q_view s) Reading)" "x = (fst x, n)" by simp_all
    then show ?thesis by (metis snd_conv)
  qed
  have no: "(fst x, n) \<notin> touches r c t" if "r \<noteq> Serial \<or> q \<notin> set (pcbs_in (q_view s) Reading)" for n
    using that rd a(2) ix ip by (cases r) (auto simp: saved_at_def)
  then have "r \<noteq> Serial \<or> q \<notin> set (pcbs_in (q_view s) Reading) \<Longrightarrow> ctx_get x j s' = ctx_get x j s" for j
    using kk unfolding ctx_get_def by blast
  then show "r \<noteq> Serial \<or> q \<notin> set (pcbs_in (q_view s) Reading) \<Longrightarrow> load_context x s' = load_context x s"
    by (rule load_context_cong)
  have ww: "stacks s' (fst x) w = stacks s (fst x) w" if "w \<noteq> snd x + CTX_EAX" for w
  proof -
    have "w \<noteq> n + CTX_EAX" if "(fst x, n) \<in> touches r c t" for n
    proof (cases "r = Serial")
      case True
      then show ?thesis using that rd [of n] \<open>w \<noteq> snd x + CTX_EAX\<close> by auto
    next
      case False
      with no that show ?thesis by blast
    qed
    then show ?thesis using kk by simp
  qed
  then show "w \<noteq> snd x + CTX_EAX \<Longrightarrow> stacks s' (fst x) w = stacks s (fst x) w" .
  have "ctx_get x j s' = ctx_get x j s" if "j \<noteq> CTX_EAX" for j
    unfolding ctx_get_def using that by (intro ww) simp
  then show "load_context x s' = to_reg EAX (ctx_get x CTX_EAX s') (load_context x s)"
    by (rule load_context_eax)
qed

end
