(* ===== verification/Cpu_Runs.thy ===== *)
theory Cpu_Runs
  imports Cpu_Steps
begin

text \<open>
  Runs of the processor: what happens between two steps of a process while others run, what a
  system call looks like to its caller, and how a process starts.
\<close>

section \<open>Steps\<close>

text \<open>
  User code changes its registers, the memory and the stack it runs on, and keeps its stack pointer
  there; a device changes what it will answer; an interrupt is the whole way into the
  kernel and back.
\<close>

inductive pc_step :: "linkage \<Rightarrow> (context_ptr \<Rightarrow> u32) \<Rightarrow> (isr_fcn \<Rightarrow> kstate \<Rightarrow> kstate outcome) \<Rightarrow> nat \<Rightarrow> pc \<Rightarrow> pc \<Rightarrow> bool"
  for lk adr dev i where
  user: "current s = Some p \<Longrightarrow> on_stack c' p s \<Longrightarrow> \<forall>k. k \<noteq> fst (r_esp c) \<longrightarrow> st k = stacks s k \<Longrightarrow>
    pc_step lk adr dev i (c, s) (c', s\<lparr>mem := m, stacks := st\<rparr>)"
| device: "pc_step lk adr dev i (c, s) (c, s\<lparr>inq := vs\<rparr>)"
| irq: "irq_ok adr i r (c, s) \<Longrightarrow> interrupt lk adr dev (vector_of r) 0 (c, s) = Inr m \<Longrightarrow> pc_step lk adr dev i (c, s) m"

inductive_cases pc_stepE: "pc_step lk adr dev i (c, s) m"

lemma pc_ok_current:
  assumes "pc_ok i (c, s)"
  obtains p where "current s = Some p" "running p s" "on_stack c p s"
proof -
  from assms obtain p where "running p s" by (auto simp: pc_ok_def kernel_ok_def)
  with assms runningD(1) [OF this] that show thesis by (simp add: pc_ok_def)
qed

lemma pc_ok_same:
  assumes "pc_ok i (c, s)" "current s = Some p" "on_stack c' p s"
    and "same_procs s t" "same_sio s t" "isr_table t = isr_table s"
  shows "pc_ok i (c', t)"
  using assms same_procs_cong(6,7) [OF assms(4)] kernel_ok_cong [OF assms(4,5)]
  by (simp add: pc_ok_def ctx_ok_def vectors_ok_def on_stack_def)

lemma pc_step_ok:
  assumes "pc_step lk adr dev i m m'" "pc_ok i m"
  shows "pc_ok i m'"
  using assms(1)
proof cases
  case (user s p c' c st mm)
  have "same_procs s (s\<lparr>mem := mm, stacks := st\<rparr>)" "same_sio s (s\<lparr>mem := mm, stacks := st\<rparr>)"
    by (simp_all add: same_procs_def same_sio_def)
  from pc_ok_same [OF _ user(3,4) this] assms(2) show ?thesis unfolding user(1,2) by simp
next
  case (device c s vs)
  have ok: "pc_ok i (c, s)" using assms(2) device(1) by simp
  obtain p where p: "current s = Some p" "running p s" "on_stack c p s" by (rule pc_ok_current [OF ok])
  have "same_procs s (s\<lparr>inq := vs\<rparr>)" "same_sio s (s\<lparr>inq := vs\<rparr>)"
    by (simp_all add: same_procs_def same_sio_def)
  from pc_ok_same [OF ok p(1,3) this] show ?thesis unfolding device(2) by simp
next
  case (irq r c s)
  have ok: "pc_ok i (c, s)" using assms(2) irq(1) by simp
  obtain p where p: "current s = Some p" "running p s" "on_stack c p s" by (rule pc_ok_current [OF ok])
  obtain s' x y where "interrupt lk adr dev (vector_of r) 0 (c, s) = Inr (load_context y s', s')"
    "pc_ok i (load_context y s', s')"
    by (rule interrupt_returns [OF ok p(1) irq(2) refl])
  then show ?thesis using irq(3) by simp
qed

text \<open>The kernel's side of a step is the one that the step relation of the kernel has.\<close>

lemma set_context_same:
  "context_of (pcbs s p) = Some x \<Longrightarrow> set_pcb p (\<lambda>p. p\<lparr>context_of := Some x\<rparr>) s = s"
  by (rule kstate.equality) (auto simp: set_pcb_def fun_eq_iff intro: pcb_t.equality)

lemma pc_step_reachable:
  assumes st: "pc_step lk adr dev i (c, s) (c', s')" and ok: "pc_ok i (c, s)" and r: "reachable lk i s0 s"
  shows "reachable lk i s0 s'"
  using st
proof (rule pc_stepE)
  fix p c'' st m
  assume u: "(c', s') = (c'', s\<lparr>mem := m, stacks := st\<rparr>)" "current s = Some p"
  obtain q where q: "running q s" using ok by (auto simp: pc_ok_def kernel_ok_def)
  then have "live_pcb (pcbs s p)" using runningD(1,4) [OF q] u(2) by simp
  then obtain x where "context_of (pcbs s p) = Some x" by (auto simp: live_pcb_def)
  then have "set_pcb p (\<lambda>p. p\<lparr>context_of := Some x\<rparr>) (s\<lparr>mem := m, stacks := st\<rparr>) = s'"
    using u(1) by (subst set_context_same) simp_all
  with kstep.user [OF u(2), where lk = lk and i = i and ctx = x and m = m and st = st] r show ?thesis by (auto intro: reachable.step)
next
  fix vs
  assume "(c', s') = (c, s\<lparr>inq := vs\<rparr>)"
  then show ?thesis using reachable.step [OF r kstep.device] by simp
next
  fix rr
  assume q: "irq_ok adr i rr (c, s)" and run: "interrupt lk adr dev (vector_of rr) 0 (c, s) = Inr (c', s')"
  obtain p where p: "current s = Some p" "running p s" "on_stack c p s" by (rule pc_ok_current [OF ok])
  define t where "t = saved_state adr p c (vector_of rr) 0 s"
  obtain u x y where u: "interrupt lk adr dev (vector_of rr) 0 (c, s) = Inr (load_context y u, u)" "handler lk rr t = Inr u"
    by (rule interrupt_returns [OF ok p(1) q t_def, of lk dev])
  have s': "u = s'" using u(1) run by simp
  obtain st where "t = set_pcb p (\<lambda>p. p\<lparr>context_of := Some (saved_at c)\<rparr>) (s\<lparr>mem := mem s, stacks := st\<rparr>)"
    using saved_state_user [of adr p c "vector_of rr" 0 s] unfolding t_def by auto
  then have rt: "reachable lk i s0 t" using reachable.step [OF r kstep.user [OF p(1)]] by metis
  have "kstep lk i t s'"
  proof (cases rr)
    case Call
    have "requested t p (saved_at c) (sys_of (gp_regs c EAX))"
      unfolding t_def using p(3) by (intro saved_state_requested [OF p(1)]) (simp add: on_stack_def)
    then show ?thesis using q u(2) p(1) Call unfolding s' by (intro kstep.syscall) (auto simp: t_def)
  next
    case Tick
    then show ?thesis using q u(2) unfolding s' by (intro kstep.tick) (simp_all add: t_def saved_state_service)
  next
    case Serial
    then obtain evs rest where "inq t = uart_reads evs @ rest" "inlast t + received evs \<le> BUF_SIZE"
      using q by (auto simp: t_def)
    then show ?thesis using u(2) Serial unfolding s' by (auto intro: kstep.serial)
  qed
  with rt show ?thesis by (rule reachable.step)
qed

section \<open>While a process waits\<close>

text \<open>
  A run in which the process \<open>q\<close> waits until the last step; with \<open>b\<close> it does not wait for a character.
\<close>

inductive away :: "linkage \<Rightarrow> (context_ptr \<Rightarrow> u32) \<Rightarrow> (isr_fcn \<Rightarrow> kstate \<Rightarrow> kstate outcome) \<Rightarrow> nat \<Rightarrow> bool \<Rightarrow> nat \<Rightarrow> pc \<Rightarrow> pc \<Rightarrow> bool"
  for lk adr dev i b q m0 where
  start: "away lk adr dev i b q m0 m0"
| step: "away lk adr dev i b q m0 (c, s) \<Longrightarrow> q \<in># live (q_view s) \<Longrightarrow> (b \<longrightarrow> q \<notin> set (pcbs_in (q_view s) Reading)) \<Longrightarrow>
    pc_step lk adr dev i (c, s) m \<Longrightarrow> away lk adr dev i b q m0 m"

text \<open>What one step leaves of a process that waits.\<close>

definition waits_with :: "bool \<Rightarrow> nat \<Rightarrow> context_ptr \<Rightarrow> kstate \<Rightarrow> kstate \<Rightarrow> bool" where
  "waits_with b q x s s' \<longleftrightarrow> context_of (pcbs s' q) = Some x \<and>
     load_context x s' = to_reg EAX (ctx_get x CTX_EAX s') (load_context x s) \<and>
     (b \<longrightarrow> load_context x s' = load_context x s) \<and>
     (\<forall>w. w \<noteq> snd x + CTX_EAX \<longrightarrow> stacks s' (fst x) w = stacks s (fst x) w)"

lemma to_reg_twice [simp]: "to_reg r v (to_reg r w c) = to_reg r v c"
  by (simp add: to_reg_def)

lemma to_reg_same [simp]: "to_reg r (gp_regs c r) c = c"
  by (simp add: to_reg_def)

lemma waits_with_refl: "context_of (pcbs s q) = Some x \<Longrightarrow> waits_with b q x s s"
proof -
  have "gp_regs (load_context x s) EAX = ctx_get x CTX_EAX s" by (simp add: load_context_def)
  then show "context_of (pcbs s q) = Some x \<Longrightarrow> waits_with b q x s s"
    unfolding waits_with_def by (metis to_reg_same)
qed

lemma waits_with_trans: "waits_with b q x s t \<Longrightarrow> waits_with b q x t u \<Longrightarrow> waits_with b q x s u"
  by (auto simp: waits_with_def)

lemma waits_with_stack:
  assumes "context_of (pcbs s q) = Some x" "pcbs s' = pcbs s" "stacks s' (fst x) = stacks s (fst x)"
  shows "waits_with b q x s s'"
proof -
  have "ctx_get x k s' = ctx_get x k s" for k using assms(3) by (simp add: ctx_get_def)
  then have "load_context x s' = load_context x s" by (intro load_context_cong)
  then show ?thesis using waits_with_refl [OF assms(1), of b] assms \<open>\<And>k. ctx_get x k s' = ctx_get x k s\<close>
    unfolding waits_with_def by simp
qed

lemma pc_step_waits:
  assumes st: "pc_step lk adr dev i (c, s) (c', s')" and ok: "pc_ok i (c, s)"
    and q: "q \<in># live (q_view s)" "b \<longrightarrow> q \<notin> set (pcbs_in (q_view s) Reading)" and x: "context_of (pcbs s q) = Some x"
  shows "waits_with b q x s s'" "current s' = Some q \<Longrightarrow> c' = load_context x s'"
proof -
  obtain p where p: "current s = Some p" "running p s" "on_stack c p s" by (rule pc_ok_current [OF ok])
  note a = owned_apart [OF runningD(2) [OF p(2)] q(1)]
  have ctx: "ctx_ok s" using ok by (simp add: pc_ok_def)
  have "stack (pcbs s q) = Some (fst x)" using ctx_okD [OF ctx a(5) x] by blast
  then have far: "fst x \<noteq> fst (r_esp c)" using a(2) p(3) by (simp add: on_stack_def stack_idx_def)
  have "waits_with b q x s s' \<and> (current s' = Some q \<longrightarrow> c' = load_context x s')"
    using st
  proof (rule pc_stepE)
    fix c'' st m p'
    assume "(c', s') = (c'', s\<lparr>mem := m, stacks := st\<rparr>)" "\<forall>k. k \<noteq> fst (r_esp c) \<longrightarrow> st k = stacks s k"
    then show ?thesis using waits_with_stack [OF x, of s'] far p(1) a(1) by simp
  next
    fix vs
    assume "(c', s') = (c, s\<lparr>inq := vs\<rparr>)"
    then show ?thesis using waits_with_stack [OF x, of s'] p(1) a(1) by simp
  next
    fix r
    assume r: "irq_ok adr i r (c, s)" and run: "interrupt lk adr dev (vector_of r) 0 (c, s) = Inr (c', s')"
    define t where "t = saved_state adr p c (vector_of r) 0 s"
    obtain u z y where u: "interrupt lk adr dev (vector_of r) 0 (c, s) = Inr (load_context y u, u)"
      "current u = Some z" "context_of (pcbs u z) = Some y"
      "keeps (touches r c t) (set (pcbs_in (q_view s) Free_pcbs)) (set (stacks_in (q_view s))) t u"
      by (rule interrupt_returns [OF ok p(1) r t_def, of lk dev])
    have e: "u = s'" "c' = load_context y s'" using u(1) run by simp_all
    note sp = interrupt_spares [OF ok p(1) t_def u(4) q(1) x, unfolded e(1)]
    have "waits_with b q x s s'" using sp q(2) unfolding waits_with_def by blast
    moreover have "current s' = Some q \<longrightarrow> y = x" using u(2,3) sp(1) e(1) by auto
    ultimately show ?thesis using e(2) by simp
  qed
  then show "waits_with b q x s s'" "current s' = Some q \<Longrightarrow> c' = load_context x s'" by simp_all
qed

text \<open>
  Whatever the other processes and the interrupts do, the process goes on with the registers and the
  stack it had when it was left; if it waits for a character, EAX may have changed.
\<close>

lemma away_waits:
  assumes "away lk adr dev i b q m0 m" "pc_ok i m0" "q \<in># live (q_view (snd m0))" "context_of (pcbs (snd m0) q) = Some x"
  shows "pc_ok i m \<and> waits_with b q x (snd m0) (snd m) \<and> (current (snd m) = Some q \<longrightarrow> fst m = load_context x (snd m))"
  using assms
proof (induction rule: away.induct)
  case start
  obtain c s where m0: "m0 = (c, s)" by (cases m0)
  have ok: "pc_ok i (c, s)" using start(1) m0 by simp
  obtain p where p: "current s = Some p" "running p s" "on_stack c p s" by (rule pc_ok_current [OF ok])
  have "q \<noteq> p" using owned_apart(1) [OF runningD(2) [OF p(2)]] start(2) m0 by simp
  then show ?case using start p(1) waits_with_refl [of s q x b] by (simp add: m0)
next
  case (step c s m)
  obtain c' s' where m: "m = (c', s')" by (cases m)
  have ih: "pc_ok i (c, s)" "waits_with b q x (snd m0) s" using step.IH step.prems by simp_all
  then have x: "context_of (pcbs s q) = Some x" by (simp add: waits_with_def)
  note w = pc_step_waits [OF step.hyps(4) [unfolded m] ih(1) step.hyps(2,3) x]
  show ?case using waits_with_trans [OF ih(2) w(1)] w(2) pc_step_ok [OF step.hyps(4) ih(1)] by (simp add: m)
qed

end
