(* ===== verification/Cpu_Calls.thy ===== *)
theory Cpu_Calls
  imports Cpu_Runs
begin

text \<open>
  Interrupts as the interrupted process sees them: it goes on where it was with its registers and
  its stack, a system call has its arguments from the stack and its result in EAX, and a new
  process starts at its function with \<open>exit\<close> behind it.
\<close>

section \<open>Being interrupted\<close>

text \<open>The words of the stack in which the context of an interrupt goes.\<close>

abbreviation (input) frame_words :: "cpu \<Rightarrow> nat set" where
  "frame_words c \<equiv> {snd (r_esp c) - CTX_WORDS..<snd (r_esp c)}"

lemma saved_state_words:
  "w \<notin> frame_words c \<Longrightarrow> room c \<Longrightarrow> stacks (saved_state adr p c v e s) (fst (r_esp c)) w = stacks s (fst (r_esp c)) w"
  by (auto simp: saved_state_def put_words_def set_pcb_def split: prod.split)

lemma saved_state_load:
  "room c \<Longrightarrow> load_context (saved_at c) (saved_state adr p c v e s) = c"
  unfolding saved_at_def by (rule load_saved_state)

lemma interrupt_leaves:
  assumes ok: "pc_ok i (c, s)" and p: "current s = Some p" and q: "irq_ok adr i r (c, s)"
    and run: "interrupt lk adr dev (vector_of r) 0 (c, s) = Inr (c', s')"
  shows "context_of (pcbs s' p) = Some (saved_at c)"
    "load_context (saved_at c) s' = (if r = Call then to_reg EAX (ctx_get (saved_at c) CTX_EAX s') c else c)"
    "w \<notin> frame_words c \<Longrightarrow> stacks s' (fst (r_esp c)) w = stacks s (fst (r_esp c)) w"
    "current s' = Some p \<Longrightarrow> c' = load_context (saved_at c) s'"
    "handler lk r (saved_state adr p c (vector_of r) 0 s) = Inr s'"
proof -
  define t where "t = saved_state adr p c (vector_of r) 0 s"
  obtain u z y where u: "interrupt lk adr dev (vector_of r) 0 (c, s) = Inr (load_context y u, u)" "handler lk r t = Inr u"
    "current u = Some z" "context_of (pcbs u z) = Some y"
    "keeps (touches r c t) (set (pcbs_in (q_view s) Free_pcbs)) (set (stacks_in (q_view s))) t u"
    by (rule interrupt_returns [OF ok p q t_def, of lk dev])
  have e: "u = s'" "c' = load_context y s'" using u(1) run by simp_all
  obtain p' where p': "current s = Some p'" "running p' s" "on_stack c p' s" by (rule pc_ok_current [OF ok])
  then have r: "running p s" and on: "on_stack c p s" using p by auto
  have rm: "room c" using on by (simp add: on_stack_def)
  note o = owned_lists [OF runningD(2) [OF r]]
  have ix: "stack_idx (pcbs s) p = fst (r_esp c)" using on by (simp add: on_stack_def stack_idx_def)
  have free: "p \<notin> set (pcbs_in (q_view s) Free_pcbs)" using o(1) by auto
  have stk: "fst (r_esp c) \<notin> set (stacks_in (q_view s))" using o(2) ix by auto
  show ctx: "context_of (pcbs s' p) = Some (saved_at c)"
  proof -
    have "context_of (pcbs t p) = Some (saved_at c)" by (simp add: t_def)
    moreover have "context_of (pcbs s' p) = context_of (pcbs t p)" using u(5) free e(1) unfolding keeps_def by blast
    ultimately show ?thesis by simp
  qed
  have readers: False if "(fst (r_esp c), n) \<in> reader_ctxs t" for n
  proof -
    from that obtain z where z: "z \<in> set (pcbs_in (q_view s) Reading)" "context_of (pcbs t z) = Some (fst (r_esp c), n)"
      by (auto simp: reader_ctxs_def t_def)
    note a = owned_apart [OF runningD(2) [OF r] in_live [OF reading_live z(1)]]
    have "context_of (pcbs s z) = Some (fst (r_esp c), n)" using z(2) a(1) by (simp add: t_def)
    then have "stack_idx (pcbs s) z = fst (r_esp c)"
      using ctx_okD [of s z] ok a(5) by (simp add: pc_ok_def stack_idx_def)
    then show ?thesis using a(2) ix by simp
  qed
  have same: "stacks s' (fst (r_esp c)) w = stacks t (fst (r_esp c)) w"
    if "r = Call \<longrightarrow> w \<noteq> snd (saved_at c) + CTX_EAX" for w
  proof -
    have "w \<noteq> n + CTX_EAX" if "(fst (r_esp c), n) \<in> touches r c t" for n
      using that \<open>r = Call \<longrightarrow> _\<close> readers by (cases r) (auto simp: saved_at_def)
    then show ?thesis using u(5) stk e(1) unfolding keeps_def by metis
  qed
  have at: "ctx_get (saved_at c) k s' = ctx_get (saved_at c) k t" if "r = Call \<longrightarrow> k \<noteq> CTX_EAX" for k
    using same [of "snd (saved_at c) + k"] that by (simp add: ctx_get_def saved_at_def)
  have ld: "load_context (saved_at c) t = c" unfolding t_def using rm by (rule saved_state_load)
  show "load_context (saved_at c) s' = (if r = Call then to_reg EAX (ctx_get (saved_at c) CTX_EAX s') c else c)"
  proof (cases "r = Call")
    case True
    then show ?thesis using load_context_eax [of "saved_at c" s' t] at ld by simp
  next
    case False
    then show ?thesis using load_context_cong [of "saved_at c" s' t] at ld by simp
  qed
  show "stacks s' (fst (r_esp c)) w = stacks s (fst (r_esp c)) w" if "w \<notin> frame_words c"
  proof -
    have "w \<noteq> snd (saved_at c) + CTX_EAX" using that rm by (auto simp: saved_at_def)
    then have "stacks s' (fst (r_esp c)) w = stacks t (fst (r_esp c)) w" by (intro same) simp
    also have "\<dots> = stacks s (fst (r_esp c)) w" unfolding t_def using that rm by (rule saved_state_words)
    finally show ?thesis .
  qed
  show "current s' = Some p \<Longrightarrow> c' = load_context (saved_at c) s'" using u(3,4) e ctx by simp
  show "handler lk r (saved_state adr p c (vector_of r) 0 s) = Inr s'" using u(2) e(1) by (simp add: t_def)
qed

text \<open>
  \<open>resumed p m0 m\<close>: process \<open>p\<close> runs in \<open>m\<close>, either at once or after a run in which it waited.
\<close>

definition resumed :: "linkage \<Rightarrow> (context_ptr \<Rightarrow> u32) \<Rightarrow> (isr_fcn \<Rightarrow> kstate \<Rightarrow> kstate outcome) \<Rightarrow> nat \<Rightarrow> bool \<Rightarrow> nat \<Rightarrow> pc \<Rightarrow> pc \<Rightarrow> bool" where
  "resumed lk adr dev i b p m0 m \<longleftrightarrow> current (snd m) = Some p \<and>
     (m = m0 \<or> p \<in># live (q_view (snd m0)) \<and> away lk adr dev i b p m0 m)"

lemma interrupt_resumes:
  assumes ok: "pc_ok i (c, s)" and p: "current s = Some p" and q: "irq_ok adr i r (c, s)"
    and run: "interrupt lk adr dev (vector_of r) 0 (c, s) = Inr m1" and re: "resumed lk adr dev i b p m1 (c', s')"
  shows "\<exists>v. c' = to_reg EAX v c" "b \<Longrightarrow> r \<noteq> Call \<Longrightarrow> c' = c"
    "b \<Longrightarrow> r = Call \<Longrightarrow> c' = to_reg EAX (ctx_get (saved_at c) CTX_EAX (snd m1)) c"
    "w \<notin> frame_words c \<Longrightarrow> stacks s' (fst (r_esp c)) w = stacks s (fst (r_esp c)) w" "pc_ok i (c', s')"
proof -
  obtain c1 s1 where m1: "m1 = (c1, s1)" by (cases m1)
  note l = interrupt_leaves [OF ok p q run [unfolded m1]]
  have on: "room c" using ok p by (simp add: pc_ok_def on_stack_def)
  have ok1: "pc_ok i m1" by (rule pc_step_ok [OF pc_step.irq [OF q run] ok])
  have "pc_ok i (c', s') \<and> waits_with b p (saved_at c) s1 s' \<and> c' = load_context (saved_at c) s'"
    using re away_waits [OF _ ok1, of lk adr dev b p "(c', s')" "saved_at c"] l(1,4) ok1
    unfolding resumed_def m1 by (auto intro: waits_with_refl)
  then have w: "pc_ok i (c', s')" "waits_with b p (saved_at c) s1 s'" "c' = load_context (saved_at c) s'" by blast+
  show "pc_ok i (c', s')" by (fact w(1))
  have "b \<Longrightarrow> c' = load_context (saved_at c) s1" using w(2,3) unfolding waits_with_def by metis
  then show "b \<Longrightarrow> r \<noteq> Call \<Longrightarrow> c' = c" "b \<Longrightarrow> r = Call \<Longrightarrow> c' = to_reg EAX (ctx_get (saved_at c) CTX_EAX (snd m1)) c"
    using l(2) by (simp_all add: m1)
  have "c' = to_reg EAX (ctx_get (saved_at c) CTX_EAX s') (if r = Call then to_reg EAX (ctx_get (saved_at c) CTX_EAX s1) c else c)"
    using w(2,3) l(2) by (simp add: waits_with_def)
  then show "\<exists>v. c' = to_reg EAX v c" by (cases "r = Call") auto
  show "stacks s' (fst (r_esp c)) w = stacks s (fst (r_esp c)) w" if "w \<notin> frame_words c"
  proof -
    have "w \<noteq> snd (saved_at c) + CTX_EAX" using that on by (auto simp: saved_at_def)
    then have "stacks s' (fst (r_esp c)) w = stacks s1 (fst (r_esp c)) w"
      using w(2) by (simp add: waits_with_def saved_at_def)
    then show ?thesis using l(3) [OF that] by simp
  qed
qed

section \<open>System calls\<close>

text \<open>The registers at the interrupt instruction of a stub.\<close>

definition at_int :: "u32 \<Rightarrow> u32 \<Rightarrow> cpu \<Rightarrow> cpu" where
  "at_int ret_at num c = (to_reg EAX num c)\<lparr>r_eip := ret_at\<rparr>"

lemma at_int_simps [simp]:
  "r_esp (at_int ret_at num c) = r_esp c" "gp_regs (at_int ret_at num c) EAX = num"
  "saved_at (at_int ret_at num c) = saved_at c" "on_stack (at_int ret_at num c) p s = on_stack c p s"
  by (simp_all add: at_int_def to_reg_def saved_at_def on_stack_def)

lemma pc_ok_at_int [simp]: "pc_ok i (at_int ret_at num c, s) = pc_ok i (c, s)"
  by (simp add: pc_ok_def)

lemma syscall_stub_eq:
  "syscall_stub lk adr dev ret_at num (c, s) = interrupt lk adr dev (vector_of Call) 0 (at_int ret_at num c, s)"
  by (simp add: syscall_stub_def exec1_def at_int_def)

lemma stub_return_eq:
  assumes "r_esp c = (k, n)" "n < STACK_SIZE"
  shows "stub_return adr (c, s) = Inr (c\<lparr>r_eip := stacks s k n, r_esp := (k, n + 1)\<rparr>, s)"
  using assms by (simp add: stub_return_def exec1_def pop_def ctx_get_def)

text \<open>The arguments of the call are the words behind the return address.\<close>

lemma call_args:
  assumes "room c"
  shows "sys_arg (saved_at c) k (saved_state adr p c v e s) = stacks s (fst (r_esp c)) (snd (r_esp c) + 1 + k)"
proof -
  have "sys_arg (saved_at c) k (saved_state adr p c v e s) =
      stacks (saved_state adr p c v e s) (fst (r_esp c)) (snd (r_esp c) + 1 + k)"
    using assms by (simp add: sys_arg_def saved_at_def)
  then show ?thesis using assms by (simp only:) (rule saved_state_words; simp)
qed

text \<open>The caller of a stub goes on behind the call, with all registers but EAX as they were.\<close>

definition returned :: "cpu \<Rightarrow> u32 \<Rightarrow> kstate \<Rightarrow> cpu" where
  "returned c v s = (to_reg EAX v c)\<lparr>r_eip := stacks s (fst (r_esp c)) (snd (r_esp c)),
     r_esp := (fst (r_esp c), snd (r_esp c) + 1)\<rparr>"

lemma stub_returns:
  assumes ok: "pc_ok i (c, s)" and p: "current s = Some p" and q: "irq_ok adr i Call (at_int ret_at num c, s)"
    and n: "snd (r_esp c) < STACK_SIZE"
    and run: "syscall_stub lk adr dev ret_at num (c, s) = Inr m1" and re: "resumed lk adr dev i b p m1 (c', s')"
  shows "\<exists>v. stub_return adr (c', s') = Inr (returned c v s, s')"
    "b \<Longrightarrow> stub_return adr (c', s') = Inr (returned c (ctx_get (saved_at c) CTX_EAX (snd m1)) s, s')"
proof -
  have ok': "pc_ok i (at_int ret_at num c, s)" using ok by simp
  note r = interrupt_resumes [OF ok' p q run [unfolded syscall_stub_eq] re, simplified]
  obtain k w where e: "r_esp c = (k, w)" by (cases "r_esp c")
  have "w \<notin> frame_words c" by (simp add: e)
  then have st: "stacks s' k w = stacks s k w" using r(4) [of w] by (simp add: e)
  have g: "stub_return adr (c', s') = Inr (returned c v s, s')" if "c' = to_reg EAX v (at_int ret_at num c)" for v
  proof -
    have "r_esp c' = (k, w)" using that e by (simp add: to_reg_def)
    from stub_return_eq [OF this, of adr s'] n e show ?thesis
      by (simp add: that st returned_def at_int_def to_reg_def)
  qed
  from r(1) g show "\<exists>v. stub_return adr (c', s') = Inr (returned c v s, s')" by blast
  show "b \<Longrightarrow> stub_return adr (c', s') = Inr (returned c (ctx_get (saved_at c) CTX_EAX (snd m1)) s, s')"
    using r(3) by (intro g) simp
qed

text \<open>Calls that only compute a result come back at once.\<close>

lemma stub_result:
  assumes ok: "pc_ok i (c, s)" and p: "current s = Some p" and n: "snd (r_esp c) < STACK_SIZE"
    and f: "sys_of num = f" "f \<noteq> Sys_exit" "call_ok i f (saved_at c) (saved_state adr p (at_int ret_at num c) INT_VEC_SYSCALL 0 s)"
    and res: "\<And>t. current t = Some p \<Longrightarrow> pcbs t = (pcbs s)(p := (pcbs s p)\<lparr>context_of := Some (saved_at c)\<rparr>) \<Longrightarrow>
      system_time t = system_time s \<Longrightarrow> call_sys lk f (saved_at c) t = Inr (ctx_set (saved_at c) CTX_EAX v t)"
  shows "\<exists>m s'. syscall_stub lk adr dev ret_at num (c, s) = Inr m \<and> stub_return adr m = Inr (returned c v s, s') \<and>
     pcbs s' = (pcbs s)(p := (pcbs s p)\<lparr>context_of := Some (saved_at c)\<rparr>) \<and> q_view s' = q_view s \<and>
     current (snd m) = Some p \<and> ctx_get (saved_at c) CTX_EAX (snd m) = v"
proof -
  let ?c = "at_int ret_at num c"
  have ok': "pc_ok i (?c, s)" using ok by simp
  define t where "t = saved_state adr p ?c (vector_of Call) 0 s"
  have q: "irq_ok adr i Call (?c, s)" using f p by simp
  obtain u z y where u: "interrupt lk adr dev (vector_of Call) 0 (?c, s) = Inr (load_context y u, u)" "handler lk Call t = Inr u"
    by (rule interrupt_returns [OF ok' p q t_def, of lk dev])
  have ks: "kernel_ok i s" using ok by (simp add: pc_ok_def)
  have kt: "kernel_ok i t" unfolding t_def by (rule saved_state_ok [OF ks p])
  have rm: "room ?c" using ok' p by (simp add: pc_ok_def on_stack_def)
  have rq: "requested t p (saved_at c) f" using saved_state_requested [OF p rm, of adr "vector_of Call" 0] f(1) by (simp add: t_def)
  have tb: "table_ok t" using kt by (simp add: kernel_ok_def env_ok_def)
  from isr_syscall_call [OF tb rq, of lk] f(2)
  have "isr_syscall lk t = bindE (call_sys lk f (saved_at c) t) (\<lambda>s. Inr (outb PIC_MASTER_CMD_PORT PIC_EOI s))" by auto
  moreover have "call_sys lk f (saved_at c) t = Inr (ctx_set (saved_at c) CTX_EAX v t)"
    by (rule res) (simp_all add: t_def p)
  ultimately have ue: "u = outb PIC_MASTER_CMD_PORT PIC_EOI (ctx_set (saved_at c) CTX_EAX v t)" using u(2) by simp
  have "same_procs t u" unfolding ue using same_basic(1,3) same_trans(1) by blast
  note sm = same_procs_cong [OF this]
  have cu: "current u = Some p" "pcbs u = pcbs t" "ctx_get (saved_at c) CTX_EAX u = v" "q_view u = q_view t"
    using sm by (simp_all add: p t_def) (simp add: ue outb_def ctx_get_def)
  have run: "syscall_stub lk adr dev ret_at num (c, s) = Inr (load_context y u, u)"
    using u(1) unfolding syscall_stub_eq .
  have "resumed lk adr dev i True p (load_context y u, u) (load_context y u, u)" by (simp add: resumed_def cu(1))
  from stub_returns(2) [OF ok p q n run this] show ?thesis
    using run cu by (intro exI [of _ "(load_context y u, u)"] exI [of _ u]) (simp add: t_def)
qed

text \<open>The calls for the caller's own numbers and for the time.\<close>

lemma stub_values:
  assumes "pc_ok i (c, s)" "current s = Some p" "snd (r_esp c) < STACK_SIZE"
    and "(num, v) \<in> {(SYS_getpid, ucast (pid (pcbs s p))), (SYS_getppid, ucast (ppid (pcbs s p))),
      (SYS_time, system_time s div timer_ticks_per_second lk)}"
  shows "\<exists>m s'. syscall_stub lk adr dev ret_at num (c, s) = Inr m \<and> stub_return adr m = Inr (returned c v s, s') \<and>
     current (snd m) = Some p \<and> ctx_get (saved_at c) CTX_EAX (snd m) = v"
proof -
  have f: "sys_of SYS_getpid = Sys_getpid" "sys_of SYS_getppid = Sys_getppid" "sys_of SYS_time = Sys_time"
    by (simp_all add: sys_of_def sys_init_def Let_def c_printf_def)
  from assms(4) consider "num = SYS_getpid" "v = ucast (pid (pcbs s p))" | "num = SYS_getppid" "v = ucast (ppid (pcbs s p))"
    | "num = SYS_time" "v = system_time s div timer_ticks_per_second lk" by auto
  then show ?thesis
  proof cases
    case 1
    from stub_result [OF assms(1-3) f(1), of adr ret_at lk v dev] 1 show ?thesis
      by (auto simp: sys_getpid_def call_ok_def)
  next
    case 2
    from stub_result [OF assms(1-3) f(2), of adr ret_at lk v dev] 2 show ?thesis
      by (auto simp: sys_getppid_def call_ok_def)
  next
    case 3
    from stub_result [OF assms(1-3) f(3), of adr ret_at lk v dev] 3 show ?thesis
      by (auto simp: sys_time_def call_ok_def)
  qed
qed

end
