(* ===== verification/Cpu_Start.thy ===== *)
theory Cpu_Start
  imports Cpu_Calls Sched_Steps
begin

text \<open>
  The first and the last instructions of a process: \<open>_start\<close> enters the first process, a new process
  starts at its function with \<open>exit\<close> as its return address, and \<open>exit\<close> or a call that does not exist
  ends it.
\<close>

section \<open>New processes\<close>

definition start_cpu :: "u32 \<Rightarrow> nat \<Rightarrow> cpu" where
  "start_cpu fcn stk =
     \<lparr>gp_regs = (\<lambda>_. 0), seg_regs = (\<lambda>r. if r = SS then ucast GDT_STACK else ucast GDT_DATA),
      r_esp = (stk, STACK_SIZE - 2), r_eip = fcn, r_cs = ucast GDT_CODE, r_eflags = DEFAULT_EFLAGS\<rparr>"

lemma load_new_stack:
  assumes "\<And>w. w < STACK_SIZE \<Longrightarrow> stacks s stk w = new_stack lk fcn w"
  shows "load_context (stk, STACK_SIZE - 2 - CTX_WORDS) s = start_cpu fcn stk"
proof -
  have "ctx_get (stk, 1004) k s = new_stack lk fcn (1004 + k)" if "k < 18" for k
    using assms [of "1004 + k"] that by (simp add: ctx_get_def)
  then show ?thesis
    by (auto simp: load_context_def start_cpu_def new_stack_def Let_def fun_eq_iff split: reg.split seg.split)
qed

section \<open>Boot\<close>

lemma startup_ok:
  assumes "all_empty s" "\<forall>q. hashfcn (queues s q) = None" "ide_found ps m" "inq s = probe_values (ps @ [m]) @ rest"
  obtains t where "startup lk stubs adr (c, s) = Inr (start_cpu (user_first_addr lk) 1, t)" "current t = Some 1"
    "pc_ok 0 (start_cpu (user_first_addr lk) 1, t)" "saved_regs 0 t = Some (start_cpu (user_idle_addr lk) 0)"
    "saved_regs 2 t = Some (start_cpu (ata_test_proc_addr lk) 2)" "ready_seq (q_view t) = [2, 0]"
proof -
  obtain t where t: "kernel_init lk stubs s = Inr t" "kernel_ok 0 t" "current t = Some 1" "ready_seq (q_view t) = [2, 0]"
    "\<And>e. e < 256 \<Longrightarrow> isr_table t e = Some (boot_handler e)"
    "\<And>p. p < MAX_PROCS \<Longrightarrow> context_of (pcbs t p) = (if p < 3 then Some (p, STACK_SIZE - 2 - CTX_WORDS) else None)"
    "\<And>p. p < 3 \<Longrightarrow> stack (pcbs t p) = Some p"
    "\<And>p w. p < 3 \<Longrightarrow> w < STACK_SIZE \<Longrightarrow> stacks t p w =
       new_stack lk ([user_idle_addr lk, user_first_addr lk, ata_test_proc_addr lk] ! p) w"
    by (rule kernel_init_ok [OF assms, of lk stubs]) blast
  have ld: "load_context (p, STACK_SIZE - 2 - CTX_WORDS) t =
      start_cpu ([user_idle_addr lk, user_first_addr lk, ata_test_proc_addr lk] ! p) p" if "p < 3" for p
    using t(8) [OF that] by (rule load_new_stack)
  have x: "ctx_ok t"
    unfolding ctx_ok_def using t(6,7) by (auto split: if_splits)
  have v: "vectors_ok t" by (simp add: vectors_ok_def t(5) boot_handler_def)
  have c1: "context_of (pcbs t 1) = Some (1, STACK_SIZE - 2 - CTX_WORDS)" using t(6) by simp
  have "isr_restore adr (c, t) = Inr (load_context (1, STACK_SIZE - 2 - CTX_WORDS) t, t)"
    using t(3) c1 by (rule isr_restore) simp
  then have "startup lk stubs adr (c, s) = Inr (start_cpu (user_first_addr lk) 1, t)"
    using ld [of 1] by (simp add: startup_def t(1))
  moreover have "on_stack (start_cpu (user_first_addr lk) 1) 1 t" using t(7) [of 1] by (simp add: on_stack_def start_cpu_def)
  then have "pc_ok 0 (start_cpu (user_first_addr lk) 1, t)" using t(2,3) x v by (simp add: pc_ok_def)
  moreover have "saved_regs 0 t = Some (start_cpu (user_idle_addr lk) 0)" "saved_regs 2 t = Some (start_cpu (ata_test_proc_addr lk) 2)"
    using ld [of 0] ld [of 2] t(6) by (simp_all add: saved_regs_def)
  ultimately show thesis using that t(3,4) by blast
qed

section \<open>Creating a process\<close>

lemma handler_call:
  assumes ok: "pc_ok i (c, s)" and p: "current s = Some p" and f: "sys_of num = f" "f \<noteq> Sys_exit"
    and t: "t = saved_state adr p (at_int ret_at num c) (vector_of Call) 0 s" and h: "handler lk Call t = Inr s'"
  obtains u where "call_sys lk f (saved_at c) t = Inr u" "s' = outb PIC_MASTER_CMD_PORT PIC_EOI u"
proof -
  have ok': "pc_ok i (at_int ret_at num c, s)" using ok by simp
  have ks: "kernel_ok i s" using ok by (simp add: pc_ok_def)
  have kt: "kernel_ok i t" unfolding t by (rule saved_state_ok [OF ks p])
  have rm: "room (at_int ret_at num c)" using ok' p by (simp add: pc_ok_def on_stack_def)
  have rq: "requested t p (saved_at c) f" using saved_state_requested [OF p rm, of adr "vector_of Call" 0] f(1) by (simp add: t)
  have tb: "table_ok t" using kt by (simp add: kernel_ok_def env_ok_def)
  from isr_syscall_call [OF tb rq, of lk] f(2) h
  have "bindE (call_sys lk f (saved_at c) t) (\<lambda>s. Inr (outb PIC_MASTER_CMD_PORT PIC_EOI s)) = Inr s'" by auto
  then show thesis using that by (auto simp: bindE_eq_Inr)
qed

lemma sys_of_simps:
  "sys_of SYS_spawn = Sys_spawn" "sys_of SYS_exit = Sys_exit"
  by (simp_all add: sys_of_def sys_init_def Let_def c_printf_def)

lemma stub_spawn:
  assumes ok: "pc_ok i (c, s)" and p: "current s = Some p"
    and fj: "pcbs_in (q_view s) Free_pcbs = j # js" and fs: "stacks_in (q_view s) = stk # sts"
  obtains m where "syscall_stub lk adr dev ret_at SYS_spawn (c, s) = Inr m" "pc_ok i m"
    "saved_regs j (snd m) = Some (start_cpu (stacks s (fst (r_esp c)) (snd (r_esp c) + 1)) stk)"
    "saved_regs p (snd m) = Some (to_reg EAX (ucast (next_pid s)) (at_int ret_at SYS_spawn c))"
proof -
  let ?c = "at_int ret_at SYS_spawn c"
  let ?f = "stacks s (fst (r_esp c)) (snd (r_esp c) + 1)"
  obtain p' where p': "current s = Some p'" "running p' s" "on_stack c p' s" by (rule pc_ok_current [OF ok])
  have r: "running p s" and on: "on_stack c p s" using p p' by auto
  have rm: "room c" using on by (simp add: on_stack_def)
  have ok': "pc_ok i (?c, s)" using ok by simp
  have ks: "kernel_ok i s" using ok by (simp add: pc_ok_def)
  define t where "t = saved_state adr p ?c (vector_of Call) 0 s"
  have q: "irq_ok adr i Call (?c, s)" by (simp add: sys_of_simps call_ok_def)
  obtain u z y where u: "interrupt lk adr dev (vector_of Call) 0 (?c, s) = Inr (load_context y u, u)" "handler lk Call t = Inr u"
    "pc_ok i (load_context y u, u)"
    by (rule interrupt_returns [OF ok' p q t_def, of lk dev])
  obtain u' where u': "spawn lk (saved_at c) (sys_arg (saved_at c) 0 t) LEVEL_DEFAULT t = Inr u'"
    "u = outb PIC_MASTER_CMD_PORT PIC_EOI u'"
    by (rule handler_call [OF ok p sys_of_simps(1) _ t_def u(2)]) (simp_all add: sys_spawn_def)
  have kt: "kernel_ok i t" unfolding t_def by (rule saved_state_ok [OF ks p])
  then obtain x where "running x t" "idle_ok i t" "env_ok t" by (auto simp: kernel_ok_def)
  moreover from this have "x = p" using runningD(1) [of x t] p by (simp add: t_def)
  ultimately have rt: "running p t" "idle_ok i t" "env_ok t" by simp_all
  have vt: "pcbs_in (q_view t) Free_pcbs = j # js" "stacks_in (q_view t) = stk # sts" using fj fs by (simp_all add: t_def)
  have lv: "unat LEVEL_DEFAULT < MLQ_LEVELS" by simp
  obtain v v' where v: "spawn lk (saved_at c) (sys_arg (saved_at c) 0 t) LEVEL_DEFAULT t = Inr v'" "dispatch v = Inr v'"
    "pcbs v = (pcbs t)
       (j := (new_pcb stk (next_pid t) LEVEL_DEFAULT)\<lparr>ppid := pid (pcbs t p), status := PROC_READY\<rparr>,
        p := (pcbs t p)\<lparr>status := PROC_READY\<rparr>)"
    "stacks v = stacks (ctx_set (saved_at c) CTX_EAX (ucast (next_pid t))
       (snd (make_proc lk j stk (sys_arg (saved_at c) 0 t) LEVEL_DEFAULT t)))"
    by (rule spawn_ok [OF rt vt lv, of lk "saved_at c" "sys_arg (saved_at c) 0 t"]) blast
  have part: "ctx_part u = ctx_part v" using ctx_dispatch [OF v(2)] u' v(1) by simp
  note f = ctx_part_fields [OF part]
  have arg: "sys_arg (saved_at c) 0 t = ?f"
    using call_args [of ?c 0 adr p "vector_of Call" 0 s] rm by (simp add: t_def)
  note o = owned_lists [OF runningD(2) [OF r]]
  have jp: "j \<noteq> p" using o(1) fj by auto
  have ix: "stack_idx (pcbs s) p = fst (r_esp c)" using on by (simp add: on_stack_def stack_idx_def)
  have far: "fst (saved_at c) \<noteq> stk" using o(2) fs ix by (auto simp: saved_at_def)
  have lc: "load_context y u = load_context y v" for y
    by (rule load_context_cong) (rule f(5))
  have "load_context (stk, STACK_SIZE - 2 - CTX_WORDS) v = start_cpu ?f stk"
  proof (rule load_new_stack)
    show "stacks v stk w = new_stack lk ?f w" if "w < STACK_SIZE" for w
      using far make_proc_stack [OF that] by (simp add: v(4) arg)
  qed
  then have j: "saved_regs j u = Some (start_cpu ?f stk)"
    using jp by (simp add: saved_regs_def f(3) lc v(3) new_pcb_def)
  have eax: "ctx_get (saved_at c) CTX_EAX u = ucast (next_pid s)"
  proof -
    have "next_pid t = next_pid s" using saved_state_user [of adr p ?c "vector_of Call" 0 s] by (auto simp: t_def set_pcb_def)
    then show ?thesis by (simp add: f(5)) (simp add: ctx_get_def v(4))
  qed
  note l = interrupt_leaves [OF ok' p q u(1)]
  have "saved_regs p u = Some (to_reg EAX (ucast (next_pid s)) ?c)"
    using l(1,2) eax by (simp add: saved_regs_def)
  with j u(1,3) that show thesis by (simp add: syscall_stub_eq)
qed

section \<open>Ending a process\<close>

lemma saved_state_sched: "sched_of (saved_state adr p c v e s) = sched_of s"
proof -
  from saved_state_user [of adr p c v e s] obtain st where
    "saved_state adr p c v e s = set_pcb p (\<lambda>p. p\<lparr>context_of := Some (saved_at c)\<rparr>) (s\<lparr>mem := mem s, stacks := st\<rparr>)" by auto
  then show ?thesis by (simp only: sched_user)
qed

lemma stub_exits:
  assumes ok: "pc_ok i (c, s)" and p: "current s = Some p" "p \<noteq> i" and f: "sys_of num = Sys_exit"
  obtains m where "syscall_stub lk adr dev ret_at num (c, s) = Inr m" "pc_ok i m"
    "spec E_exit (sched_of s) = Some (sched_of (snd m))"
proof -
  let ?c = "at_int ret_at num c"
  have ok': "pc_ok i (?c, s)" using ok by simp
  have ks: "kernel_ok i s" using ok by (simp add: pc_ok_def)
  define t where "t = saved_state adr p ?c (vector_of Call) 0 s"
  have ct: "current t = Some p" using p(1) by (simp add: t_def)
  have q: "irq_ok adr i Call (?c, s)" using p f by (simp add: call_ok_def)
  obtain u z y where u: "interrupt lk adr dev (vector_of Call) 0 (?c, s) = Inr (load_context y u, u)" "handler lk Call t = Inr u"
    "pc_ok i (load_context y u, u)"
    by (rule interrupt_returns [OF ok' p(1) q t_def, of lk dev])
  have kt: "kernel_ok i t" unfolding t_def by (rule saved_state_ok [OF ks p(1)])
  have rm: "room ?c" using ok' p(1) by (simp add: pc_ok_def on_stack_def)
  have rq: "requested t p (saved_at c) Sys_exit"
    using saved_state_requested [OF p(1) rm, of adr "vector_of Call" 0] f by (simp add: t_def)
  have "call_ok i Sys_exit (saved_at c) t" using ct p(2) by (simp add: call_ok_def)
  from sched_isr_syscall [OF kt rq this, of lk] u(2)
  have "spec E_exit (sched_of t) = Some (sched_of u)" by (auto simp: call_event_def)
  then show thesis using u(1,3) that by (simp add: syscall_stub_eq t_def saved_state_sched)
qed

text \<open>A function that returns with the stack as it found it goes to \<open>exit\<close>.\<close>

lemma return_to_exit:
  assumes ok: "pc_ok i (c, s)" and e: "r_esp c = (stk, STACK_SIZE - 2)" "stacks s stk (STACK_SIZE - 2) = exit_addr lk"
  shows "\<exists>c'. stub_return adr (c, s) = Inr (c', s) \<and> r_eip c' = exit_addr lk \<and> pc_ok i (c', s)"
proof -
  obtain p where p: "current s = Some p" "running p s" "on_stack c p s" by (rule pc_ok_current [OF ok])
  let ?c = "c\<lparr>r_eip := exit_addr lk, r_esp := (stk, STACK_SIZE - 2 + 1)\<rparr>"
  have "on_stack ?c p s" using p(3) e(1) by (simp add: on_stack_def)
  then have "pc_ok i (?c, s)" using pc_ok_same [OF ok p(1), of ?c s] by simp
  with stub_return_eq [OF e(1), of adr s] e(2) show ?thesis by (intro exI [of _ ?c]) simp
qed

section \<open>Runs\<close>

lemma pc_run_ok: "rtranclp (pc_step lk adr dev i) m0 m \<Longrightarrow> pc_ok i m0 \<Longrightarrow> pc_ok i m"
  by (induction rule: rtranclp_induct) (auto intro: pc_step_ok)

lemma pc_run_reachable:
  assumes "rtranclp (pc_step lk adr dev i) m0 m" "pc_ok i m0"
  shows "reachable lk i (snd m0) (snd m)"
  using assms(1)
proof (induction rule: rtranclp_induct)
  case base
  show ?case by (rule reachable.start)
next
  case (step m m')
  obtain c s c' s' where m: "m = (c, s)" "m' = (c', s')" by (cases m; cases m')
  have "pc_ok i (c, s)" using pc_run_ok [OF step.hyps(1) assms(2)] m(1) by simp
  from pc_step_reachable [OF step.hyps(2) [unfolded m] this] step.IH show ?case by (simp add: m)
qed

lemma irq_returns:
  assumes "pc_ok i m" "irq_ok adr i r m"
  shows "\<exists>m'. interrupt lk adr dev (vector_of r) 0 m = Inr m' \<and> pc_ok i m'"
proof -
  obtain c s where m: "m = (c, s)" by (cases m)
  have ok: "pc_ok i (c, s)" and q: "irq_ok adr i r (c, s)" using assms m by simp_all
  obtain p where p: "current s = Some p" "running p s" "on_stack c p s" by (rule pc_ok_current [OF ok])
  obtain s' x y where "interrupt lk adr dev (vector_of r) 0 (c, s) = Inr (load_context y s', s')"
    "pc_ok i (load_context y s', s')"
    by (rule interrupt_returns [OF ok p(1) q refl])
  then show ?thesis by (auto simp: m)
qed

text \<open>The call that a stub makes, and its arguments.\<close>

lemma stub_calls:
  assumes ok: "pc_ok i (c, s)" and p: "current s = Some p" and q: "irq_ok adr i Call (at_int ret_at num c, s)"
  shows "\<exists>t m. syscall_stub lk adr dev ret_at num (c, s) = Inr m \<and> isr_syscall lk t = Inr (snd m) \<and>
     requested t p (saved_at c) (sys_of num) \<and>
     (\<forall>k. sys_arg (saved_at c) k t = stacks s (fst (r_esp c)) (snd (r_esp c) + 1 + k))"
proof -
  let ?c = "at_int ret_at num c"
  have ok': "pc_ok i (?c, s)" using ok by simp
  have rm: "room ?c" using ok' p by (simp add: pc_ok_def on_stack_def)
  define t where "t = saved_state adr p ?c (vector_of Call) 0 s"
  obtain u z y where u: "interrupt lk adr dev (vector_of Call) 0 (?c, s) = Inr (load_context y u, u)" "handler lk Call t = Inr u"
    by (rule interrupt_returns [OF ok' p q t_def, of lk dev])
  have "requested t p (saved_at c) (sys_of num)"
    using saved_state_requested [OF p rm, of adr "vector_of Call" 0] by (simp add: t_def)
  moreover have "sys_arg (saved_at c) k t = stacks s (fst (r_esp c)) (snd (r_esp c) + 1 + k)" for k
    using call_args [OF rm, of k adr p "vector_of Call" 0 s] by (simp add: t_def)
  ultimately show ?thesis using u by (simp add: syscall_stub_eq) blast
qed

text \<open>The stubs by name.\<close>

lemma user_stubs_handlers:
  "(\<lambda>(a, b). (a, sys_of b)) ` set user_stubs =
     {(''spawn'', Sys_spawn), (''spawnl'', Sys_spawnl), (''sleep'', Sys_sleep), (''exit'', Sys_exit),
       (''kill'', Sys_kill), (''read'', Sys_read), (''write'', Sys_write), (''time'', Sys_time), (''getpid'', Sys_getpid),
       (''getppid'', Sys_getppid), (''getpidlist'', Sys_getpidlist), (''shmget'', Sys_shmget), (''shmat'', Sys_shmat),
       (''shmwrite'', Sys_shmwrite), (''shmread'', Sys_shmread), (''shmdt'', Sys_shmdt), (''shmrm'', Sys_shmrm),
       (''bogus'', Sys_exit)}"
  unfolding user_stubs_def by (simp add: sys_of_def sys_init_def Let_def c_printf_def word_le_nat_alt)

text \<open>The first run of a process.\<close>

lemma first_run:
  assumes ok: "pc_ok i m" and q: "saved_regs j (snd m) = Some c0"
    and m': "j \<in># live (q_view (snd m)) \<and> away lk adr dev i True j m m' \<and> current (snd m') = Some j"
  shows "fst m' = c0"
proof -
  from q obtain x where x: "context_of (pcbs (snd m) j) = Some x" "c0 = load_context x (snd m)"
    by (auto simp: saved_regs_def)
  have "waits_with True j x (snd m) (snd m')" "fst m' = load_context x (snd m')"
    using away_waits [of lk adr dev i True j m m' x] ok m' x(1) by blast+
  then show ?thesis unfolding waits_with_def x(2) by metis
qed

end
