(* ===== verification/Cpu_Events.thy ===== *)
theory Cpu_Events
  imports Cpu_Start
begin

text \<open>
  Runs of the processor with the scheduler's events they are made of: which event an interrupt is
  follows from the registers and the state it finds.
\<close>

section \<open>Events\<close>

text \<open>
  A step of user code or of a device is no event. A system call is the event of the call whose number
  is in EAX, with the arguments on the caller's stack; a tick serves the request that is due; a
  serial interrupt is an arrival for each character.
\<close>

inductive pc_event :: "linkage \<Rightarrow> (context_ptr \<Rightarrow> u32) \<Rightarrow> (isr_fcn \<Rightarrow> kstate \<Rightarrow> kstate outcome) \<Rightarrow> nat \<Rightarrow>
    pc \<Rightarrow> sched_event list \<Rightarrow> pc \<Rightarrow> bool"
  for lk adr dev i where
  user: "current s = Some p \<Longrightarrow> on_stack c' p s \<Longrightarrow> \<forall>k. k \<noteq> fst (r_esp c) \<longrightarrow> st k = stacks s k \<Longrightarrow>
    pc_event lk adr dev i (c, s) [] (c', s\<lparr>mem := m, stacks := st\<rparr>)"
| device: "pc_event lk adr dev i (c, s) [] (c, s\<lparr>inq := vs\<rparr>)"
| call: "current s = Some p \<Longrightarrow> irq_ok adr i Call (c, s) \<Longrightarrow> interrupt lk adr dev INT_VEC_SYSCALL 0 (c, s) = Inr m \<Longrightarrow>
    pc_event lk adr dev i (c, s)
      [call_event lk (sys_of (gp_regs c EAX)) (saved_at c) (saved_state adr p c INT_VEC_SYSCALL 0 s)] m"
| tick: "irq_ok adr i Tick (c, s) \<Longrightarrow> interrupt lk adr dev INT_VEC_TIMER 0 (c, s) = Inr m \<Longrightarrow>
    pc_event lk adr dev i (c, s) [E_tick (served_at (system_time s + 1) s)] m"
| serial: "inq s = uart_reads evs @ rest \<Longrightarrow> inlast s + received evs \<le> BUF_SIZE \<Longrightarrow>
    interrupt lk adr dev INT_VEC_SERIAL_PORT_1 0 (c, s) = Inr m \<Longrightarrow>
    pc_event lk adr dev i (c, s) (replicate (received evs) E_arrive) m"

inductive pc_history :: "linkage \<Rightarrow> (context_ptr \<Rightarrow> u32) \<Rightarrow> (isr_fcn \<Rightarrow> kstate \<Rightarrow> kstate outcome) \<Rightarrow> nat \<Rightarrow>
    pc \<Rightarrow> sched_event list \<Rightarrow> pc \<Rightarrow> bool"
  for lk adr dev i m0 where
  start: "pc_history lk adr dev i m0 [] m0"
| step: "pc_history lk adr dev i m0 es m \<Longrightarrow> pc_event lk adr dev i m fs m' \<Longrightarrow> pc_history lk adr dev i m0 (es @ fs) m'"

lemma pc_event_step:
  assumes "pc_event lk adr dev i m es m'"
  shows "pc_step lk adr dev i m m'"
  using assms
proof cases
  case (user s p c' c st mm)
  then show ?thesis by (auto intro: pc_step.user)
next
  case (device c s vs)
  then show ?thesis by (auto intro: pc_step.device)
next
  case (call s p c)
  then show ?thesis using pc_step.irq [of adr i Call c s lk dev m'] by simp
next
  case (tick c s)
  then show ?thesis using pc_step.irq [of adr i Tick c s lk dev m'] by simp
next
  case (serial s evs rest c)
  then show ?thesis using pc_step.irq [of adr i Serial c s lk dev m'] by auto
qed

lemma step_pc_event:
  assumes "pc_step lk adr dev i m m'" "pc_ok i m"
  shows "\<exists>es. pc_event lk adr dev i m es m'"
  using assms(1)
proof cases
  case (user s p c' c st mm)
  then show ?thesis by (auto intro: pc_event.user)
next
  case (device c s vs)
  then show ?thesis by (auto intro: pc_event.device)
next
  case (irq r c s)
  have "pc_ok i (c, s)" using assms(2) irq(1) by simp
  then obtain p where p: "current s = Some p" by (rule pc_ok_current)
  show ?thesis
  proof (cases r)
    case Call
    then show ?thesis unfolding irq(1) using pc_event.call [OF p, of adr i c lk dev m'] irq by auto
  next
    case Tick
    then show ?thesis unfolding irq(1) using pc_event.tick [of adr i c s lk dev m'] irq by auto
  next
    case Serial
    then show ?thesis unfolding irq(1) using pc_event.serial [of s _ _ lk adr dev c m' i] irq by fastforce
  qed
qed

lemma saved_state_served: "served_at now (saved_state adr p c v e s) = served_at now s"
proof -
  from saved_state_user [of adr p c v e s] obtain st where
    u: "saved_state adr p c v e s = set_pcb p (\<lambda>p. p\<lparr>context_of := Some (saved_at c)\<rparr>) (s\<lparr>stacks := st\<rparr>)" by blast
  have f: "ramdisk_service (saved_state adr p c v e s) = ramdisk_service s"
    "pending_requests (saved_state adr p c v e s) = pending_requests s" by (simp_all add: u set_pcb_def)
  have pr: "pending_request (pcbs (saved_state adr p c v e s) q) = pending_request (pcbs s q)" for q by simp
  show ?thesis unfolding served_at_def saved_state_fields(6) f pr ..
qed

text \<open>An interrupt changes the scheduler's state as its handler does.\<close>

lemma pc_event_sched:
  assumes "pc_event lk adr dev i (c, s) es (c', s')" and ok: "pc_ok i (c, s)"
  shows "spec_run es (sched_of s) = Some (sched_of s')"
proof -
  obtain p where p: "current s = Some p" "running p s" "on_stack c p s" by (rule pc_ok_current [OF ok])
  have ks: "kernel_ok i s" using ok by (simp add: pc_ok_def)
  have kt: "kernel_ok i (saved_state adr p c v 0 s)" for v by (rule saved_state_ok [OF ks p(1)])
  have st: "sched_of (saved_state adr p c v 0 s) = sched_of s" for v by (rule saved_state_sched)
  have run: "handler lk r (saved_state adr p c (vector_of r) 0 s) = Inr s'"
    if "irq_ok adr i r (c, s)" "interrupt lk adr dev (vector_of r) 0 (c, s) = Inr (c', s')" for r
    using interrupt_leaves(5) [OF ok p(1) that] .
  show ?thesis using assms(1)
  proof cases
    case (user q st m)
    have "sched_of (s\<lparr>mem := m, stacks := st\<rparr>) = sched_of s" by (rule sched_of_same) (simp_all add: same_procs_def)
    then show ?thesis using user by simp
  next
    case (device vs)
    then show ?thesis by simp
  next
    case (call q)
    have q: "q = p" using call p(1) by simp
    let ?t = "saved_state adr p c INT_VEC_SYSCALL 0 s"
    have "requested ?t p (saved_at c) (sys_of (gp_regs c EAX))"
      using p(3) by (intro saved_state_requested [OF p(1)]) (simp add: on_stack_def)
    moreover have "call_ok i (sys_of (gp_regs c EAX)) (saved_at c) ?t" using call p(1) by simp
    ultimately show ?thesis using sched_isr_syscall [where lk = lk, OF kt] run [of Call] call st
      by (fastforce simp: q spec_run_one)
  next
    case tick
    let ?t = "saved_state adr p c INT_VEC_TIMER 0 s"
    have "service_ok (system_time ?t + 1) ?t" using tick by (simp add: saved_state_service)
    from sched_tick [OF kt this] run [of Tick] tick show ?thesis
      by (auto simp: spec_run_one st saved_state_served simp del: spec.simps)
  next
    case (serial evs rest)
    let ?t = "saved_state adr p c INT_VEC_SERIAL_PORT_1 0 s"
    have "inq ?t = uart_reads evs @ rest" "inlast ?t + received evs \<le> BUF_SIZE" using serial by simp_all
    note sp = sched_isr_sio [OF kt this]
    have "irq_ok adr i Serial (c, s)" using serial by auto
    from run [OF this] have "isr_sio ?t = Inr s'" using serial by simp
    with sp show ?thesis using serial(1) by (simp add: st)
  qed
qed

lemma pc_history_run: "pc_history lk adr dev i m0 es m \<Longrightarrow> rtranclp (pc_step lk adr dev i) m0 m"
  by (induction rule: pc_history.induct) (auto intro: rtranclp.rtrancl_into_rtrancl pc_event_step)

lemma pc_run_history:
  assumes "rtranclp (pc_step lk adr dev i) m0 m" "pc_ok i m0"
  shows "\<exists>es. pc_history lk adr dev i m0 es m"
  using assms
proof (induction rule: rtranclp_induct)
  case (step m m')
  have "pc_ok i m" using pc_run_ok [OF step.hyps(1) step.prems] .
  with step step_pc_event show ?case by (blast intro: pc_history.step)
qed (blast intro: pc_history.start)

lemma pc_history_sched:
  assumes "pc_history lk adr dev i m0 es m" "pc_ok i m0"
  shows "spec_run es (sched_of (snd m0)) = Some (sched_of (snd m))"
  using assms
proof (induction rule: pc_history.induct)
  case (step es m fs m')
  obtain c s c' s' where m: "m = (c, s)" "m' = (c', s')" by (cases m; cases m')
  have "pc_ok i (c, s)" using pc_run_ok [OF pc_history_run [OF step(1)] step(4)] m(1) by simp
  from pc_event_sched [OF step(2) [unfolded m] this] step show ?case by (simp add: m spec_run_append)
qed simp

section \<open>Waiting for a character\<close>

text \<open>Only an arrival takes a process out of the queue of the readers, and only its own call puts it in.\<close>

lemma spec_dispatch_reading: "spec_dispatch a = Some b \<Longrightarrow> sc_reading b = sc_reading a"
  by (auto simp: spec_dispatch_def split: prod.splits option.splits)

lemma spec_ready_reading [simp]: "sc_reading (spec_ready p a) = sc_reading a"
  by (simp add: spec_ready_def)

lemma fold_ready_reading [simp]: "sc_reading (fold spec_ready ps a) = sc_reading a" "sc_runs (fold spec_ready ps a) = sc_runs a"
  by (induction ps arbitrary: a) simp_all

lemma spec_wake_reading [simp]: "sc_reading (spec_wake a) = sc_reading a" "sc_runs (spec_wake a) = sc_runs a"
  by (simp_all add: spec_wake_def)

lemma spec_serve_reading [simp]: "sc_reading (spec_serve r a) = sc_reading a" "sc_runs (spec_serve r a) = sc_runs a"
  by (simp_all add: spec_serve_def split: option.split)

lemma spec_spawn_reading: "spec_spawn l c a = Some b \<Longrightarrow> sc_reading b = sc_reading a"
  by (auto simp: spec_spawn_def Let_def dest!: spec_dispatch_reading split: list.splits if_splits)

lemma spec_reading:
  assumes "spec e a = Some b" "e \<noteq> E_arrive"
  shows "sc_reading b = sc_reading a \<or> (\<exists>c. sc_runs a = Some c \<and> sc_reading b = sc_reading a @ [c])"
  using assms
  by (cases e) (auto simp: spec_tick_def running_do_def dest!: spec_dispatch_reading spec_spawn_reading
      split: option.splits if_splits)

lemma arrivals_reading:
  "spec_run (replicate n E_arrive) a = Some b \<Longrightarrow> sc_reading b = drop n (sc_reading a)"
proof (induction n arbitrary: a)
  case (Suc n)
  show ?case
  proof (cases "sc_reading a")
    case Nil
    then show ?thesis using Suc by simp
  next
    case (Cons p ps)
    then show ?thesis using Suc(1) [of "spec_ready p (a\<lparr>sc_reading := ps\<rparr>)"] Suc(2) by simp
  qed
qed simp

text \<open>The characters that come in, and what the reader of one finds in EAX.\<close>

fun chars_of :: "uart_event list \<Rightarrow> u32 list" where
  "chars_of [] = []"
| "chars_of (Tx # evs) = chars_of evs"
| "chars_of (Rx ch # evs) = (ch AND 0xff) # chars_of evs"

lemma length_chars_of [simp]: "length (chars_of evs) = received evs"
  by (induction evs rule: received.induct) simp_all

abbreviation as_read :: "u32 \<Rightarrow> u32" where
  "as_read ch \<equiv> (if ch = 13 then 10 else ch) AND 0xff"

text \<open>Different readers have their contexts on different stacks.\<close>

lemma readers_apart:
  assumes k: "kinv [c] [] [] s" and x: "ctx_ok s" and v: "pcbs_in (q_view s) Reading = p # ps"
    and q: "q \<in> set ps" "context_of (pcbs s p) = Some y" "context_of (pcbs s q) = Some z"
  shows "fst y \<noteq> fst z"
proof -
  have l: "p \<in># live (q_view s)" "q \<in># live (q_view s)"
    using in_live [OF reading_live, of _ "q_view s"] v q(1) by simp_all
  have "distinct (pcbs_in (q_view s) Reading)"
    using owned_lists(1) [OF k] by (auto simp: live_queues_def)
  then have "p \<noteq> q" using v q(1) by auto
  then have "stack_idx (pcbs s) p \<noteq> stack_idx (pcbs s) q" using owned_apart(7) [OF k l(2,1)] by blast
  moreover have "stack (pcbs s p) = Some (fst y)" "stack (pcbs s q) = Some (fst z)"
    using ctx_okD [OF x owned_apart(5) [OF k l(1)] q(2)] ctx_okD [OF x owned_apart(5) [OF k l(2)] q(3)] by simp_all
  ultimately show ?thesis by (simp add: stack_idx_def)
qed

text \<open>The first reader gets the character, the others wait on.\<close>

lemma sio_rx_delivers:
  assumes ok: "kernel_ok i s" and x: "ctx_ok s" and v: "pcbs_in (q_view s) Reading = p # ps" and s': "sio_rx ch s = Inr s'"
  obtains y where "context_of (pcbs s p) = Some y" "ctx_get y CTX_EAX s' = as_read ch"
    "pcbs_in (q_view s') Reading = ps" "\<And>q. context_of (pcbs s' q) = context_of (pcbs s q)" "y \<notin> reader_ctxs s'"
proof -
  from ok obtain c where r: "running c s" by (auto simp: kernel_ok_def)
  note k = runningD(2) [OF r]
  from sio_rx_wakes [OF k v, where ch = ch and i = i] s' obtain y where w: "context_of (pcbs s p) = Some y"
    "q_view s' = (q_view s)(Reading := tl (q_view s Reading),
        Ready (unat (level (pcbs s p))) := q_view s (Ready (unat (level (pcbs s p)))) @ [(0, Some (Pcb p))])"
    "pcbs s' = (pcbs s)(p := (pcbs s p)\<lparr>status := PROC_READY\<rparr>)"
    "stacks s' = stacks (ctx_set y CTX_EAX (as_read ch) s)" by fastforce
  have ps: "pcbs_in (q_view s') Reading = ps" using v by (simp add: w(2) pcbs_in_def map_tl)
  have ctx: "context_of (pcbs s' q) = context_of (pcbs s q)" for q by (simp add: w(3))
  have "ctx_get y CTX_EAX s' = as_read ch" using w(4) by (simp add: ctx_get_def ctx_set_def)
  moreover have "y \<notin> reader_ctxs s'"
  proof
    assume "y \<in> reader_ctxs s'"
    then obtain q where "q \<in> set ps" "context_of (pcbs s q) = Some y" by (auto simp: reader_ctxs_def ps ctx)
    with readers_apart [OF k x v _ w(1)] show False by blast
  qed
  ultimately show thesis using that w(1) ps ctx by blast
qed

lemma isr_sio_loop_delivers:
  assumes "kernel_ok i s" "ctx_ok s" "inq s = uart_reads evs @ rest" "inlast s + received evs \<le> BUF_SIZE" "length evs < fuel"
    and "isr_sio_loop fuel s = Inr s'" "k < received evs" "k < length (pcbs_in (q_view s) Reading)"
    and "context_of (pcbs s (pcbs_in (q_view s) Reading ! k)) = Some x"
  shows "ctx_get x CTX_EAX s' = as_read (chars_of evs ! k)"
  using assms
proof (induction evs arbitrary: s fuel k rule: received.induct)
  case 1
  then show ?case by simp
next
  case (2 evs)
  then obtain f where f: "fuel = Suc f" by (cases fuel) auto
  let ?s = "s\<lparr>inq := uart_reads evs @ rest\<rparr>"
  from sio_tx_rest [of i ?s] 2(2) obtain t where
    t: "sio_tx ?s = Inr t" "kernel_ok i t" "inlast t \<le> inlast s" "inq t = uart_reads evs @ rest" by auto
  have run: "isr_sio_loop fuel s = isr_sio_loop f t" using 2(4) f t(1) by (simp add: inb_def)
  have p: "ctx_part t = ctx_part s" using ctx_sio_tx [OF t(1)] by simp
  have "same_procs s ?s" by (simp add: same_procs_def)
  then have r: "pcbs_in (q_view t) Reading = pcbs_in (q_view s) Reading"
    using ctx_sio_tx [OF t(1)] by (simp add: same_procs_cong)
  have x: "ctx_ok t" by (rule ctx_ok_keeps [OF 2(3) keeps_part [OF p]])
  show ?case using 2(1) [OF t(2) x t(4), of f k] 2(5-10) t(3) f run by (simp add: r ctx_part_fields(3) [OF p])
next
  case (3 ch evs)
  then obtain f where f: "fuel = Suc f" by (cases fuel) auto
  let ?s = "s\<lparr>inq := uart_reads evs @ rest\<rparr>"
  have ok: "kernel_ok i ?s" using 3(2) by simp
  from sio_rx_rest [OF ok, of "ch AND 0xff"] 3(5) obtain t where
    t: "sio_rx (ch AND 0xff) ?s = Inr t" "kernel_ok i t" "inlast t \<le> Suc (inlast s)" "inq t = uart_reads evs @ rest"
    by auto
  have run: "isr_sio_loop f t = Inr s'" using 3(4,7) f t(1) by (simp add: inb_def)
  have "same_procs s ?s" by (simp add: same_procs_def)
  then have r: "pcbs_in (q_view ?s) Reading = pcbs_in (q_view s) Reading" by (simp add: same_procs_cong)
  have xs: "ctx_ok ?s" using 3(3) by (simp add: ctx_ok_def)
  obtain p ps where v: "pcbs_in (q_view ?s) Reading = p # ps"
    using 3(9) r by (cases "pcbs_in (q_view s) Reading") auto
  have v': "pcbs_in (q_view s) Reading = p # ps" using v r by simp
  obtain y where y: "context_of (pcbs s p) = Some y" "ctx_get y CTX_EAX t = as_read (ch AND 0xff)"
    "pcbs_in (q_view t) Reading = ps" "\<And>q. context_of (pcbs t q) = context_of (pcbs s q)" "y \<notin> reader_ctxs t"
    by (rule sio_rx_delivers [OF ok xs v t(1)]) simp
  have x: "ctx_ok t" by (rule ctx_ok_keeps [OF xs sio_rx_keeps(1) [OF ok t(1)]])
  have b: "inlast t + received evs \<le> BUF_SIZE" "length evs < f" using 3(5,6) t(3) f by simp_all
  show ?case
  proof (cases k)
    case 0
    then have e: "x = y" using 3(10) v' y(1) by simp
    have "keeps (reader_ctxs t) {} {} t s'" by (rule isr_sio_loop_keeps [OF t(2,4) b run])
    moreover have "(fst y, n) \<in> reader_ctxs t \<Longrightarrow> snd y + CTX_EAX \<noteq> n + CTX_EAX" for n using y(5) by (cases y) auto
    ultimately have "ctx_get y CTX_EAX s' = ctx_get y CTX_EAX t"
      unfolding keeps_def ctx_get_def by blast
    then show ?thesis using y(2) 0 e by simp
  next
    case (Suc j)
    have "j < received evs" "j < length (pcbs_in (q_view t) Reading)"
      "context_of (pcbs t (pcbs_in (q_view t) Reading ! j)) = Some x"
      using 3(8-10) Suc v' y(3,4) by simp_all
    from 3(1) [OF t(2) x t(4) b run this] Suc show ?thesis by simp
  qed
qed

section \<open>Steps of others\<close>

text \<open>
  The serial interrupt in the state \<open>s\<close> brings the reader \<open>p\<close> a character, which it will find as \<open>v\<close>.
\<close>

definition gets_char :: "nat \<Rightarrow> u32 \<Rightarrow> kstate \<Rightarrow> bool" where
  "gets_char p v s \<longleftrightarrow> (\<exists>evs rest k. inq s = uart_reads evs @ rest \<and> k < received evs \<and>
     k < length (pcbs_in (q_view s) Reading) \<and> pcbs_in (q_view s) Reading ! k = p \<and> v = as_read (chars_of evs ! k))"

lemma call_no_arrival: "call_event lk f c s \<noteq> E_arrive"
  by (simp add: call_event_def kill_event_def Let_def split: sys_fcn.split option.split)

lemma pc_event_cases:
  assumes "pc_event lk adr dev i (c, s) es m"
  obtains "es = []" | e where "es = [e]" "e \<noteq> E_arrive"
    | evs rest where "es = replicate (received evs) E_arrive" "inq s = uart_reads evs @ rest"
      "inlast s + received evs \<le> BUF_SIZE" "interrupt lk adr dev (vector_of Serial) 0 (c, s) = Inr m"
  using assms by cases (use call_no_arrival in auto)

lemma step_reading:
  assumes e: "pc_event lk adr dev i (c, s) es (c', s')" and ok: "pc_ok i (c, s)" and q: "q \<in># live (q_view s)"
  shows "q \<notin> set (pcbs_in (q_view s) Reading) \<Longrightarrow> q \<notin> set (pcbs_in (q_view s') Reading)"
    "q \<in> set (pcbs_in (q_view s) Reading) \<Longrightarrow> context_of (pcbs s q) = Some x \<Longrightarrow>
       q \<in> set (pcbs_in (q_view s') Reading) \<or>
       interrupt lk adr dev (vector_of Serial) 0 (c, s) = Inr (c', s') \<and> gets_char q (ctx_get x CTX_EAX s') s \<and>
       q \<notin> set (pcbs_in (q_view s') Reading)"
proof -
  obtain p where p: "current s = Some p" "running p s" "on_stack c p s" by (rule pc_ok_current [OF ok])
  note k = runningD(2) [OF p(2)]
  have qp: "q \<noteq> p" by (rule owned_apart(1) [OF k q])
  have ks: "kernel_ok i s" and xs: "ctx_ok s" using ok by (simp_all add: pc_ok_def)
  note sp = pc_event_sched [OF e ok]
  let ?R = "pcbs_in (q_view s) Reading" and ?R' = "pcbs_in (q_view s') Reading"
  have single: "q \<in> set ?R' \<longleftrightarrow> q \<in> set ?R" if "es = [e]" "e \<noteq> E_arrive" for e
  proof -
    have "spec e (sched_of s) = Some (sched_of s')" using sp unfolding that(1) spec_run_one .
    from spec_reading [OF this that(2)] p(1) qp show ?thesis by auto
  qed
  have none: "?R' = ?R" if "es = []"
  proof -
    have "sc_reading (sched_of s') = sc_reading (sched_of s)" using sp that by simp
    then show ?thesis by simp
  qed
  have drop: "?R' = drop n ?R" if "es = replicate n E_arrive" for n
    using arrivals_reading [of n "sched_of s" "sched_of s'"] sp that by simp
  show "q \<notin> set ?R \<Longrightarrow> q \<notin> set ?R'"
    using e by (cases rule: pc_event_cases) (auto simp: single none drop dest: in_set_dropD)
  assume R: "q \<in> set ?R" and x: "context_of (pcbs s q) = Some x"
  show "q \<in> set ?R' \<or> interrupt lk adr dev (vector_of Serial) 0 (c, s) = Inr (c', s') \<and>
     gets_char q (ctx_get x CTX_EAX s') s \<and> q \<notin> set ?R'"
    using e
  proof (cases rule: pc_event_cases)
    case (3 evs rest)
    have "interrupt lk adr dev (vector_of Serial) 0 (c, s) = Inr (c', s') \<and> gets_char q (ctx_get x CTX_EAX s') s"
      if n: "q \<notin> set ?R'"
    proof -
      obtain j where j: "j < length ?R" "?R ! j = q" using R by (auto simp: in_set_conv_nth)
      have jr: "j < received evs"
      proof (rule ccontr)
        assume "\<not> j < received evs"
        then have "drop (received evs) ?R ! (j - received evs) = q" "j - received evs < length (drop (received evs) ?R)"
          using j by simp_all
        then show False using n nth_mem unfolding drop [OF 3(1)] by metis
      qed
      define t where "t = saved_state adr p c (vector_of Serial) 0 s"
      have okq: "irq_ok adr i Serial (c, s)" using 3(2,3) by auto
      have run: "isr_sio t = Inr s'" using interrupt_leaves(5) [OF ok p(1) okq 3(4)] by (simp add: t_def)
      have kt: "kernel_ok i t" unfolding t_def by (rule saved_state_ok [OF ks p(1)])
      have xt: "ctx_ok t" unfolding t_def by (rule saved_state_ctx [OF xs p(3)])
      have it: "inq t = uart_reads evs @ rest" "inlast t + received evs \<le> BUF_SIZE" using 3(2,3) by (simp_all add: t_def)
      have f: "length evs < Suc (length (inq t))" using it(1) length_uart_reads [of evs] by simp
      have "j < length (pcbs_in (q_view t) Reading)" "context_of (pcbs t (pcbs_in (q_view t) Reading ! j)) = Some x"
        using j x qp by (simp_all add: t_def)
      from isr_sio_loop_delivers [OF kt xt it f run [unfolded isr_sio_def] jr this]
      have "ctx_get x CTX_EAX s' = as_read (chars_of evs ! j)" .
      then show ?thesis using 3(2,4) jr j unfolding gets_char_def by blast
    qed
    then show ?thesis by blast
  qed (use R in \<open>simp_all add: single none\<close>)
qed

text \<open>
  A process that does not wait for a character when it is left does not do so before it runs again, so
  nothing of it changes.
\<close>

lemma away_no_reader:
  assumes "away lk adr dev i False q m0 m" "pc_ok i m0" "q \<in># live (q_view (snd m0))"
    and "q \<notin> set (pcbs_in (q_view (snd m0)) Reading)"
  shows "away lk adr dev i True q m0 m \<and> pc_ok i m \<and> q \<notin> set (pcbs_in (q_view (snd m)) Reading)"
  using assms
proof (induction rule: away.induct)
  case (step c s m)
  obtain c' s' where m: "m = (c', s')" by (cases m)
  have ih: "away lk adr dev i True q m0 (c, s)" "pc_ok i (c, s)" "q \<notin> set (pcbs_in (q_view s) Reading)"
    using step.IH step.prems by simp_all
  from step_pc_event [OF step.hyps(4) ih(2)] obtain es where e: "pc_event lk adr dev i (c, s) es (c', s')" by (auto simp: m)
  have "away lk adr dev i True q m0 m" using ih(1,3) step.hyps(2,4) by (blast intro: away.step)
  with pc_step_ok [OF step.hyps(4) ih(2)] step_reading(1) [OF e ih(2) step.hyps(2) ih(3)] show ?case by (simp add: m)
qed (simp add: away.start)

text \<open>
  A process that waits for a character does so until it gets one, and that is what it finds in EAX:
  in the run from \<open>m0\<close> to \<open>m1\<close> there is a serial interrupt that brings \<open>p\<close> the character \<open>v\<close>.
\<close>

definition char_came :: "linkage \<Rightarrow> (context_ptr \<Rightarrow> u32) \<Rightarrow> (isr_fcn \<Rightarrow> kstate \<Rightarrow> kstate outcome) \<Rightarrow> nat \<Rightarrow> nat \<Rightarrow> u32 \<Rightarrow>
    pc \<Rightarrow> pc \<Rightarrow> bool" where
  "char_came lk adr dev i p v m0 m1 \<longleftrightarrow> (\<exists>m m'. away lk adr dev i False p m0 m \<and> gets_char p v (snd m) \<and>
     interrupt lk adr dev INT_VEC_SERIAL_PORT_1 0 m = Inr m' \<and> away lk adr dev i False p m' m1)"

lemma away_reader:
  assumes "away lk adr dev i False q m0 m" "pc_ok i m0" "q \<in># live (q_view (snd m0))"
    and "context_of (pcbs (snd m0) q) = Some x" "q \<in> set (pcbs_in (q_view (snd m0)) Reading)"
  shows "q \<in> set (pcbs_in (q_view (snd m)) Reading) \<or>
    char_came lk adr dev i q (ctx_get x CTX_EAX (snd m)) m0 m \<and> q \<notin> set (pcbs_in (q_view (snd m)) Reading)"
  using assms
proof (induction rule: away.induct)
  case (step c s m)
  obtain c' s' where m: "m = (c', s')" by (cases m)
  have ok: "pc_ok i (c, s)" and w: "waits_with False q x (snd m0) s"
    using away_waits [OF step.hyps(1) step.prems(1-3)] by simp_all
  from w have x: "context_of (pcbs s q) = Some x" by (simp add: waits_with_def)
  from step_pc_event [OF step.hyps(4) ok] obtain es where e: "pc_event lk adr dev i (c, s) es (c', s')" by (auto simp: m)
  note r = step_reading [OF e ok step.hyps(2)]
  show ?case
  proof (cases "q \<in> set (pcbs_in (q_view s) Reading)")
    case True
    from r(2) [OF True x] show ?thesis
      using step.hyps(1) away.start [of lk adr dev i False q m] unfolding char_came_def m by fastforce
  next
    case False
    then have "char_came lk adr dev i q (ctx_get x CTX_EAX s) m0 (c, s)" using step.IH step.prems by simp
    then have ih: "char_came lk adr dev i q (ctx_get x CTX_EAX s) m0 m"
      unfolding char_came_def using away.step [OF _ step.hyps(2) _ step.hyps(4), of False] by blast
    have "waits_with True q x s s'" using pc_step_waits(1) [OF step.hyps(4) [unfolded m] ok step.hyps(2) _ x] False by simp
    then have "load_context x s' = load_context x s" unfolding waits_with_def by blast
    then have "gp_regs (load_context x s') EAX = gp_regs (load_context x s) EAX" by simp
    then have "ctx_get x CTX_EAX s' = ctx_get x CTX_EAX s" by (simp add: load_context_def)
    then show ?thesis using ih r(1) [OF False] by (simp add: m)
  qed
qed simp

lemma current_not_reading: "pc_ok i (c, s) \<Longrightarrow> current s = Some p \<Longrightarrow> p \<notin> set (pcbs_in (q_view s) Reading)"
proof
  assume ok: "pc_ok i (c, s)" and p: "current s = Some p" and r: "p \<in> set (pcbs_in (q_view s) Reading)"
  obtain q where q: "current s = Some q" "running q s" by (rule pc_ok_current [OF ok])
  have "p \<in># live (q_view s)" by (rule in_live [OF reading_live r])
  then show False using owned_apart(1) [OF runningD(2) [OF q(2)]] p q(1) by auto
qed

section \<open>Calls that wait, and new processes\<close>

text \<open>What the caller of a stub finds in EAX.\<close>

lemma stub_returns_with:
  assumes ok: "pc_ok i (c, s)" and p: "current s = Some p" and q: "irq_ok adr i Call (at_int ret_at num c, s)"
    and n: "snd (r_esp c) < STACK_SIZE"
    and run: "syscall_stub lk adr dev ret_at num (c, s) = Inr m1" and re: "resumed lk adr dev i False p m1 m"
  shows "\<exists>v. stub_return adr m = Inr (returned c v s, snd m) \<and>
    (p \<notin> set (pcbs_in (q_view (snd m1)) Reading) \<longrightarrow> v = ctx_get (saved_at c) CTX_EAX (snd m1)) \<and>
    (p \<in> set (pcbs_in (q_view (snd m1)) Reading) \<longrightarrow> char_came lk adr dev i p v m1 m)"
proof -
  obtain c1 s1 where m1: "m1 = (c1, s1)" by (cases m1)
  obtain c' s' where m: "m = (c', s')" by (cases m)
  have ok': "pc_ok i (at_int ret_at num c, s)" using ok by simp
  have irq: "interrupt lk adr dev (vector_of Call) 0 (at_int ret_at num c, s) = Inr m1" using run by (simp add: syscall_stub_eq)
  have ok1: "pc_ok i m1" by (rule pc_step_ok [OF pc_step.irq [OF q irq] ok'])
  have cur: "current s' = Some p" using re by (simp add: resumed_def m)
  show ?thesis
  proof (cases "p \<in> set (pcbs_in (q_view s1) Reading)")
    case False
    then have "resumed lk adr dev i True p m1 (c', s')"
      using re away_no_reader [of lk adr dev i p m1 m] ok1 unfolding resumed_def m m1 by auto
    from stub_returns(2) [OF ok p q n run this] False show ?thesis by (simp add: m m1)
  next
    case True
    have x: "context_of (pcbs s1 p) = Some (saved_at c)"
      using interrupt_leaves(1) [OF ok' p q irq [unfolded m1]] by simp
    have l: "p \<in># live (q_view s1)" by (rule in_live [OF reading_live True])
    have "m \<noteq> m1" using True current_not_reading [OF ok1 [unfolded m1], of p] cur by (auto simp: m m1)
    then have a: "away lk adr dev i False p m1 m" using re by (simp add: resumed_def)
    note w = away_waits [OF a ok1, unfolded m1 m snd_conv fst_conv, OF l x]
    have nr: "p \<notin> set (pcbs_in (q_view s') Reading)" using current_not_reading w cur by blast
    from away_reader [OF a ok1] l x True nr
    have came: "char_came lk adr dev i p (ctx_get (saved_at c) CTX_EAX s') m1 m" by (simp add: m1 m)
    obtain v where v: "stub_return adr (c', s') = Inr (returned c v s, s')"
      using stub_returns(1) [OF ok p q n run re [unfolded m]] by blast
    have "c' = load_context (saved_at c) s'" using w cur by blast
    moreover have "r_esp c' = (fst (r_esp c), snd (r_esp c) - CTX_WORDS + CTX_WORDS)"
      using calculation by (simp add: saved_at_def)
    ultimately have "v = ctx_get (saved_at c) CTX_EAX s'"
      using v by (auto simp: stub_return_def exec1_def returned_def pop_def to_reg_def load_context_def Let_def
          fun_eq_iff bindE_eq_Inr split: if_splits dest!: arg_cong [where f = "\<lambda>c. gp_regs c EAX"])
    with v came True show ?thesis by (auto simp: m m1)
  qed
qed

lemma spec_spawned_ready:
  assumes "spec (E_spawn l) a = Some b" "sc_runs a = Some c" "sc_free a = j # js" "sc_stacks a \<noteq> 0" "c \<noteq> j"
    and "l < length (sc_ready a)" "sc_level a c < length (sc_ready a)" "length (sc_ready a) = MLQ_LEVELS"
  shows "sc_runs b = Some j \<or> j \<in> set (concat (sc_ready b))"
proof -
  define a1 where "a1 = a\<lparr>sc_free := js, sc_stacks := sc_stacks a - 1, sc_dead := (sc_dead a)(j := False),
      sc_level := (sc_level a)(j := l), sc_left := (sc_left a)(j := 0)\<rparr>"
  have d: "spec_dispatch (spec_ready c (spec_ready j a1)) = Some b"
    using assms by (simp add: running_do_def spec_spawn_def a1_def Let_def)
  have f: "sc_level a1 j = l" "sc_level a1 c = sc_level a c" "length (sc_ready a1) = length (sc_ready a)"
    using assms(5) by (simp_all add: a1_def)
  have "j \<in> set (concat (sc_ready (spec_ready j a1)))" using f assms(6) by (intro spec_ready_mem) auto
  then have "j \<in> set (concat (sc_ready (spec_ready c (spec_ready j a1))))"
    using f assms(7) by (intro spec_ready_mem) (simp_all add: spec_ready_def)
  moreover have "\<not> sc_dead (spec_ready c (spec_ready j a1)) j" using assms(5) by (simp add: spec_ready_def)
  ultimately show ?thesis by (rule spec_dispatch_keeps [OF d])
qed

lemma stub_spawn_ready:
  assumes ok: "pc_ok i (c, s)" and p: "current s = Some p"
    and fj: "pcbs_in (q_view s) Free_pcbs = j # js" and fs: "stacks_in (q_view s) = stk # sts"
    and run: "syscall_stub lk adr dev ret_at SYS_spawn (c, s) = Inr m"
  shows "current (snd m) = Some j \<or> j \<in># live (q_view (snd m))" "j \<notin> set (pcbs_in (q_view (snd m)) Reading)"
    "spec (E_spawn (unat LEVEL_DEFAULT)) (sched_of s) = Some (sched_of (snd m))"
proof -
  let ?c = "at_int ret_at SYS_spawn c"
  obtain c' s' where m: "m = (c', s')" by (cases m)
  have ok': "pc_ok i (?c, s)" using ok by simp
  obtain p' where "current s = Some p'" "running p' s" by (rule pc_ok_current [OF ok])
  then have r: "running p s" using p by auto
  note k = runningD(2) [OF r]
  have q: "irq_ok adr i Call (?c, s)" by (simp add: sys_of_simps call_ok_def)
  have irq: "interrupt lk adr dev INT_VEC_SYSCALL 0 (?c, s) = Inr (c', s')" using run by (simp add: syscall_stub_eq m)
  have ev: "call_event lk (sys_of (gp_regs ?c EAX)) x t = E_spawn (unat LEVEL_DEFAULT)" for x t
    by (simp add: sys_of_simps call_event_def)
  have "spec_run [E_spawn (unat LEVEL_DEFAULT)] (sched_of s) = Some (sched_of s')"
    using pc_event_sched [OF pc_event.call [OF p q irq] ok'] unfolding ev .
  then have sp: "spec (E_spawn (unat LEVEL_DEFAULT)) (sched_of s) = Some (sched_of s')" unfolding spec_run_one .
  then show "spec (E_spawn (unat LEVEL_DEFAULT)) (sched_of s) = Some (sched_of (snd m))" by (simp only: m snd_conv)
  have pj: "p \<noteq> j" using owned_lists(1) [OF k] fj by auto
  have st: "sc_stacks (sched_of s) \<noteq> 0" using fs by (auto simp: stacks_in_def)
  have n: "length (levels_from 0 (q_view s)) = MLQ_LEVELS" by (simp add: levels_from_def)
  have "current s' = Some j \<or> j \<in> set (concat (sc_ready (sched_of s')))"
    using spec_spawned_ready [OF sp _ _ st pj] p fj level_below [OF k] by (simp add: n del: set_concat)
  then show "current (snd m) = Some j \<or> j \<in># live (q_view (snd m))"
    using ready_from_live by (auto simp: m simp flip: ready_from_levels simp del: set_concat)
  have "spec_spawn (unat LEVEL_DEFAULT) p (sched_of s) = Some (sched_of s')" using sp p by (simp add: running_do_def)
  from spec_spawn_reading [OF this] have "sc_reading (sched_of s') = sc_reading (sched_of s)" .
  moreover have "j \<notin> set (pcbs_in (q_view s) Reading)" using owned_lists(1) [OF k] fj by (auto simp: live_queues_def)
  ultimately show "j \<notin> set (pcbs_in (q_view (snd m)) Reading)" by (simp add: m)
qed

text \<open>The first run of a new process.\<close>

lemma starts_at:
  assumes ok: "pc_ok i (c, s)" and p: "current s = Some p"
    and fj: "pcbs_in (q_view s) Free_pcbs = j # js" and fs: "stacks_in (q_view s) = stk # sts"
    and run: "syscall_stub lk adr dev ret_at SYS_spawn (c, s) = Inr m" and okm: "pc_ok i m"
    and sv: "saved_regs j (snd m) = Some c0" and re: "resumed lk adr dev i False j m m'"
  shows "fst m' = c0"
proof -
  obtain c1 s1 where m: "m = (c1, s1)" by (cases m)
  note r = stub_spawn_ready [OF ok p fj fs run]
  have cur: "current (snd m') = Some j" using re by (simp add: resumed_def)
  from sv obtain x where x: "context_of (pcbs (snd m) j) = Some x" "c0 = load_context x (snd m)"
    by (auto simp: saved_regs_def)
  show ?thesis
  proof (cases "m' = m")
    case True
    let ?c = "at_int ret_at SYS_spawn c"
    have ok': "pc_ok i (?c, s)" using ok by simp
    have q: "irq_ok adr i Call (?c, s)" by (simp add: sys_of_simps call_ok_def)
    obtain u z y where u: "interrupt lk adr dev (vector_of Call) 0 (?c, s) = Inr (load_context y u, u)"
      "current u = Some z" "context_of (pcbs u z) = Some y"
      by (rule interrupt_returns [OF ok' p q refl, of lk dev])
    have "m = (load_context y u, u)" using u(1) run by (simp add: syscall_stub_eq)
    then show ?thesis using True u(2,3) x cur by auto
  next
    case False
    then have l: "j \<in># live (q_view (snd m))" and a: "away lk adr dev i False j m m'" using re by (simp_all add: resumed_def)
    from away_no_reader [OF a okm l r(2)] have "away lk adr dev i True j m m'" by blast
    with first_run [OF okm sv] l cur show ?thesis by blast
  qed
qed

end
