(* ===== verification/Cpu_Examples.thy ===== *)
theory Cpu_Examples
  imports Cpu_Start Examples
begin

text \<open>
  The concrete state of Examples with a processor: process 1 runs on its stack, behind the call
  of a stub with one argument.
\<close>

definition demo_adr :: "context_ptr \<Rightarrow> u32" where
  "demo_adr = (\<lambda>(i, w). of_nat (0x100000 + 4096 * i + 4 * w))"

text \<open>The interrupts of the other devices do nothing.\<close>

definition demo_dev :: "isr_fcn \<Rightarrow> kstate \<Rightarrow> kstate outcome" where
  "demo_dev h s = Inr s"

definition demo_cpu :: cpu where
  "demo_cpu = \<lparr>gp_regs = (\<lambda>r. if r = EBX then 7 else 9), seg_regs = (\<lambda>_. 0x18), r_esp = (1, 1000),
     r_eip = 0x5000, r_cs = 0x10, r_eflags = 0x202\<rparr>"

definition demo_machine :: kstate where
  "demo_machine = demo\<lparr>isr_table := (\<lambda>_. Some Default_unexpected_handler)(INT_VEC_SYSCALL := Some Isr_syscall,
       INT_VEC_TIMER := Some Isr_clock, INT_VEC_SERIAL_PORT_1 := Some Isr_sio),
     stacks := (\<lambda>_ _. 0)(1 := (\<lambda>_. 0)(1000 := 0x5100, 1001 := 0x6000, 1022 := exit_addr demo_lk))\<rparr>"

lemma demo_machine_fields [simp]:
  "current demo_machine = Some 1" "pcbs demo_machine = demo_pcb" "q_view demo_machine = q_view demo"
  "system_time demo_machine = 0" "inlast demo_machine = 0" "next_pid demo_machine = 4"
  "stacks demo_machine 1 = (\<lambda>_. 0)(1000 := 0x5100, 1001 := 0x6000, 1022 := exit_addr demo_lk)"
  "stacks demo_machine (Suc 0) = (\<lambda>_. 0)(1000 := 0x5100, 1001 := 0x6000, 1022 := exit_addr demo_lk)"
proof -
  show "q_view demo_machine = q_view demo" by (rule q_repr_cong(5)) (simp_all add: demo_machine_def)
qed (simp_all add: demo_machine_def)

lemma same_demo_machine: "same_procs demo demo_machine" "same_sio demo demo_machine"
  by (simp_all add: demo_machine_def same_procs_def same_sio_def)

lemma pc_ok_demo: "pc_ok 0 (demo_cpu, demo_machine)"
proof -
  have "kernel_ok 0 demo_machine" using kernel_ok_demo kernel_ok_cong [OF same_demo_machine] by simp
  moreover have "ctx_ok demo_machine" by (simp add: ctx_ok_def demo_pcb_def)
  moreover have "vectors_ok demo_machine" by (simp add: vectors_ok_def demo_machine_def)
  moreover have "on_stack demo_cpu 1 demo_machine" by (simp add: on_stack_def demo_cpu_def demo_pcb_def)
  ultimately show ?thesis by (simp add: pc_ok_def)
qed

lemma sched_demo_machine: "sched_of demo_machine = sched_of demo"
  by (rule sched_of_same) (simp_all add: same_demo_machine)

text \<open>A tick: process 1 has a tick left and goes on.\<close>

lemma demo_tick:
  "irq_ok demo_adr 0 Tick (demo_cpu, demo_machine)"
  "\<exists>c s. interrupt demo_lk demo_adr demo_dev (vector_of Tick) 0 (demo_cpu, demo_machine) = Inr (c, s) \<and> current s = Some 1"
proof -
  show ok: "irq_ok demo_adr 0 Tick (demo_cpu, demo_machine)" by (simp add: service_ok_def demo_machine_def)
  define t where "t = saved_state demo_adr 1 demo_cpu (vector_of Tick) 0 demo_machine"
  obtain s' x y where u: "interrupt demo_lk demo_adr demo_dev (vector_of Tick) 0 (demo_cpu, demo_machine) = Inr (load_context y s', s')"
    "handler demo_lk Tick t = Inr s'"
    by (rule interrupt_returns [OF pc_ok_demo demo_machine_fields(1) ok t_def, of demo_lk demo_dev])
  have st: "sched_of t = sched_of demo" by (simp add: t_def saved_state_sched sched_demo_machine)
  have kt: "kernel_ok 0 t"
    unfolding t_def using pc_ok_demo by (intro saved_state_ok) (simp_all add: pc_ok_def)
  have sv: "service_ok (system_time t + 1) t" using ok by (simp add: t_def saved_state_service)
  have nt: "served_at (system_time t + 1) t = None" by (simp add: t_def served_at_def)
  have same: "same_procs demo demo" by simp
  from sched_tick [OF kt sv] u(2) have "spec_tick None (sched_of demo) = Some (sched_of s')" by (simp add: nt st)
  then have b: "spec_tick None (sched_of demo) = Some b" if "b = sched_of s'" for b using that by simp
  define b where "b = sched_of s'"
  have "sc_runs b = Some 1"
    using b [OF b_def] unfolding sched_demo [OF same]
    by (auto simp: spec_tick_def spec_wake_def spec_serve_def spec_ready_def running_do_def word_le_nat_alt)
  then have "current s' = Some 1" by (simp add: b_def)
  then show "\<exists>c s. interrupt demo_lk demo_adr demo_dev (vector_of Tick) 0 (demo_cpu, demo_machine) = Inr (c, s) \<and> current s = Some 1"
    using u(1) by simp
qed

lemma demo_getpid:
  "irq_ok demo_adr 0 Call (at_int a SYS_getpid demo_cpu, demo_machine)"
  by (simp add: sys_of_def sys_init_def Let_def c_printf_def call_ok_def)

lemma demo_call:
  "\<exists>m. syscall_stub demo_lk demo_adr demo_dev a SYS_getpid (demo_cpu, demo_machine) = Inr m \<and>
     current (snd m) = Some 1 \<and> ctx_get (saved_at demo_cpu) CTX_EAX (snd m) = 1"
proof -
  have n: "snd (r_esp demo_cpu) < STACK_SIZE" by (simp add: demo_cpu_def)
  have v: "(SYS_getpid, 1) \<in> {(SYS_getpid :: u32, ucast (pid (pcbs demo_machine 1))),
      (SYS_getppid, ucast (ppid (pcbs demo_machine 1))), (SYS_time, system_time demo_machine div timer_ticks_per_second demo_lk)}"
    by (simp add: demo_pcb_def)
  from stub_values [OF pc_ok_demo demo_machine_fields(1) n v, of demo_adr demo_dev a] show ?thesis by blast
qed

end
