(* ===== verification/Spec2Isabelle.thy ===== *)
theory Spec2Isabelle
  imports Kernel_Steps Examples Console_Examples Ata_Laws Ata_Drive Ata_Examples Boot Shm_Laws Build_Image Test_Procs Round_Robin Sched_Steps Cpu_Events Cpu_Examples
begin

text \<open>
  A kernel for the x86, of a systems programming course: it schedules up to 24 processes
  with a multi-level queue, serves seventeen system calls, a clock, a serial line, a keyboard and
  a screen, hands out shared memory, and reads and writes a RAM disk and an IDE disk.  The
  theories model its C sources; the properties are the theorems of this theory.

  \<^bold>\<open>The program and its model.\<close>  Every global variable is a field of one state record \<open>kstate\<close>
  (Kernel_State), except those of the console, which has a state \<open>console\<close> of its own; both
  extend the record \<open>machine\<close> with the ports and the byte memory.  A function of the source is
  a definition with its name, less the leading underscore.  It takes the state last and returns
  it, as \<open>'a kop\<close> where it can end in something else than a return: an \<open>outcome\<close> is \<open>Inr\<close> of the
  result or \<open>Inl\<close> of a \<open>kerror\<close> (Prelude).  Integers have the width of the source.

  The theories, from the bottom up, with the files they model:

  \<^item> Prelude, Chains, Loops: outcomes and their sequencing, sorted insertion, linked lists over
    array elements with the locale \<open>free_list\<close>, and loops that may run for ever.
  \<^item> Kernel_State (defs.h, types.h and the headers of the modules), Machine (the port routines of
    startup.S, klibc.c, klib.h): the data, the ports, the byte memory.  Klibc: what the memory
    routines do.
  \<^item> Queues (queues.c): the ordered queues over the pool of nodes; the locale \<open>queue_module\<close> is what
    the other modules rely on.  Pools: the contract \<open>resource_pool\<close> of things handed out from a
    queue, which Stacks (stacks.c), Processes (processes.c) and Shared_Mem (shared_mem.c) meet.
    Handles: the free lists of disk.c and device.c.
  \<^item> Kernel_Inv: the invariant \<open>kinv\<close> of the scheduler's data; System (\<open>_make_proc\<close> and
    \<open>_cleanup\<close> of system.c), Scheduler (scheduler.c): the operations keep it.
  \<^item> Sio (sio.c, uart.h): the serial line; the locale \<open>char_stream\<close> is the contract of its two
    buffers.  Ramdisk (ramdisk.c): the disk in memory.
  \<^item> Syscalls (syscalls.c), Clock (clock.c), Kernel_Steps: the entries into the kernel.
    Kernel_Rest, Syscall_Laws, Shm_Laws: what holds between two entries, and what every call keeps.
    Round_Robin: runs of many ticks.  Sched_Spec: an abstract scheduler, whose state \<open>sched\<close> is
    lists of process numbers and whose steps \<open>spec\<close> are the events \<open>sched_event\<close>; Sched_Calls and
    Sched_Steps: the kernel refines it by the abstraction \<open>sched_of\<close>.
  \<^item> Console (c_io.c), Screen, Terminal, Keyboard, Numbers, Printf: the console.  The kernel modules
    only note their calls of the console in \<open>io\<close>, so that their state has no screen in it.
  \<^item> Ata, Ata_Laws, Ata_Info (ata.c), Ata_Drive (a drive at the other end of the ports), Test_Procs (the test processes of ata.c and device.c), Pci
    (pci.c), Devices (device.c, disk.c, ide.c), Support (support.c), Boot (\<open>_init\<close> of system.c): the
    devices, the interrupt tables and the start of it all.
  \<^item> Cpu (isr_stubs.S, ulibs.S, the end of startup.S): the registers, the instructions that these
    files use, the stubs of the interrupts and of the system calls.  Cpu_Laws: saving and restoring;
    Saved_Contexts: what each routine of the kernel does to the saved contexts.  Cpu_Steps, Cpu_Runs:
    whole interrupts, and runs of the machine.  Cpu_Calls, Cpu_Start: what a process sees of an
    interrupt and of a system call, and how it starts and ends. Cpu_Events: the runs of the machine as
    histories of the scheduler's events, and what a process that waits for a character gets.
  \<^item> Build_Image (BuildImage.c): the tool that makes the disk image on the host, against a reading of the
    table by its description in bootstrap.S (the transfer itself, and its limits on counts and offsets, is not modelled).
  \<^item> Examples, Console_Examples, Ata_Examples, Cpu_Examples: concrete states for the witnesses.

  \<^bold>\<open>Pointers and memory.\<close>  A pointer to an element of an array of the kernel is its index, with
  \<open>None\<close> for NULL; what a queue holds is an \<open>obj\<close>, and taking it for another type is \<open>Wild\<close>.  What
  user code can address freely, its buffers and the shared memory segments, is a byte memory
  with addresses of 32 bits that wrap around and no bounds in it.  NULL is an error where the code follows it to a
  PCB, a stack, a context, a request or a handle.  A pointer to a segment is an address: \<open>_current_shms\<close>
  is NULL, the address 0, until the first \<open>shmget\<close>, and the calls that use it read and write there, as they do on a machine
  without paging; a message that is longer than its segment goes on behind it.

  \<^bold>\<open>How the parts interact.\<close>  A process is in one of the queues or running.  \<open>kinv H F K s\<close> says so as
  a matter of ownership, counting with multisets: no PCB, stack or queue node is in two places,
  and every waiting process has the status of the place where it waits.  \<open>kernel_ok i s\<close> adds that the
  idle process \<open>i\<close> is running or ready and that the buffers of the serial line are sound.  The step
  relation \<open>kstep\<close> is an entry into the kernel (a system call, a tick, a serial interrupt) or user
  code, which may write any memory and any saved context.  \<open>kernel_ok\<close> is kept by every step
  (\<open>kernel_stays_sound\<close>), every entry returns under the conditions \<open>call_ok\<close> and \<open>service_ok\<close> on its
  arguments (\<open>kernel_entries_return\<close>), and \<open>_init\<close> establishes it (\<open>boot_starts_kernel\<close>).

  Below that is the processor.  A state \<open>pc\<close> is the registers with the kernel's state; \<open>pc_ok\<close> says
  that the kernel is sound, every saved context lies in the stack of its process, and the stack
  pointer is on the stack of the running process.  A step \<open>pc_step\<close> is user code, which may write
  any memory, its registers and its own stack, a device, or an interrupt from its first push to its \<open>iret\<close>.
  Every step of this machine is a run of \<open>kstep\<close> for the kernel (\<open>pc_step_reachable\<close>), so that all that
  holds for the kernel's states holds for the machine from \<open>_start\<close> on (\<open>machine_runs_on\<close>).  \<open>pc_history\<close> gives a
  run with the events that its interrupts are for the abstract scheduler.

  \<^bold>\<open>What the groups of lemmas show.\<close>  Queues: the representation of the lists of nodes is a view from
  queues to lists, and each operation is an update of the view, a sorted insertion or taking the
  head.  Scheduler and Clock: who runs next, who is woken, in which order; Round_Robin: the turns of
  the processes of one level over any number of ticks.  Sched_Spec, Sched_Calls, Sched_Steps: a tick,
  a system call and a received character are each one step of the abstract scheduler, so that the
  order in which processes run is a function of the events alone.  Syscall_Laws: the
  effect of every call and of its failures.  Sio: both buffers are first-in first-out up to
  their bounds.  Screen and Terminal: the video memory refines a terminal of rows and a cursor.
  Printf: the formatted output is the plain output of a text.  Numbers: the printed digits read
  back.  Cpu_Laws: the frame that a stub leaves is a \<open>context_t\<close>, and restoring it is the
  inverse of saving it.  Saved_Contexts: \<open>keeps A J K s s'\<close>, the kernel writes to the stacks of processes
  only the results in the contexts \<open>A\<close> and the new contexts of new processes.  Cpu_Runs, Cpu_Calls:
  therefore a process that is interrupted goes on with its registers and its stack, however long it waited.
  Build_Image: the loader finds every program that the tool stored.  Ata_Laws: whole requests
  to read and to write, with the drive as the sequence of values it gives and gets.
  Ata_Drive: a drive that goes by the registers gives back the block that was written.

  \<^bold>\<open>Loops and fuel.\<close>  A \<open>for\<close> loop over an array is a fold or a recursion over its indices.  The search
  for a place in a queue and the loops that take elements out of one have as fuel one more than
  the nodes there are (\<open>N_QNODES\<close>), and the lemmas show that this is never used up where the
  code's loop ends.  \<open>_strcpy\<close> has \<open>2 ^ 32\<close> rounds, after which the addresses start over.  The
  loops of the console and the driver that may not end are \<open>loop\<close>, which is \<open>Hang\<close> exactly then.
  What waits for a device reads \<open>inq\<close>, and a device that stops answering is a \<open>Hang\<close>; the theorems
  that something returns say what answers they need.

  \<^bold>\<open>Parameters.\<close>  \<open>linkage\<close> has the addresses that the linker decides and the constants of the clock
  that no file of the tree defines.  The stubs of isr_stubs.S are the function \<open>stubs\<close> of
  \<open>init_interrupts\<close>, which only enters their addresses.  \<open>adr\<close> gives the address of a word of a
  stack, \<open>ret_at\<close> is the address behind the interrupt instruction of a stub, and \<open>dev\<close> are the handlers of the
  keyboard and the disk, which the theorems about interrupts do not call: the interrupts of a run are
  system calls, ticks and those of the serial line, and the handlers of the other two are the subject of Keyboard and Ata_Laws; the calls of \<open>sleep\<close> and \<open>exit\<close> from within the driver and the test processes are the functions
  \<open>slp\<close> and \<open>ext\<close>.

  \<^bold>\<open>Not modelled.\<close>  Of the assembly files the boot sector (bootstrap.S), the set-up of segments and stack in
  \<open>_start\<close>, \<open>_get_ebp\<close>, the calls of the PCI BIOS, which nothing uses, and the debugging code of
  isr_stubs.S that is off; the frames of C on the system stack, whose place \<open>_system_esp\<close> is a part of the state and
  nothing more; a stack that is too small, where the hardware would write on into other
  memory and the model ends with \<open>Overrun\<close>; \<open>asm("cli")\<close> and
  \<open>asm("sti")\<close>, which have no effect on the state here, as an interrupt is a step between the
  entries; the user programs of user.h, whose source is not in the tree; \<open>__delay\<close> of support.c, which only counts; what \<open>_kpanic\<close> prints before
  it stops.  The arrays of the kernel and the byte memory are apart, so that a user buffer over a
  kernel array is outside the model.
\<close>

section \<open>The kernel as a whole\<close>

text \<open>
  C1: whatever system calls, clock ticks and serial interrupts follow each other, and whatever
  user code does to its memory in between, some process is running, no PCB is in two queues or
  in a queue while it runs or is free, no stack belongs to two processes or to a process and
  the free stacks, and the ready queues hold only ready processes and zombies.  The calls are those that keep to
  \<open>call_ok\<close>, the ticks those that keep to \<open>service_ok\<close>, and there is room for the characters that come in.
\<close>
theorem kernel_stays_sound:
  assumes "kernel_ok i s0" "reachable lk i s0 s"
  shows "\<exists>c. current s = Some c \<and> c < MAX_PROCS \<and> live_pcb (pcbs s c) \<and>
     distinct (pcbs_in (q_view s) Free_pcbs @ c # concat (map (pcbs_in (q_view s)) live_queues)) \<and>
     distinct (stacks_in (q_view s) @ map (stack_idx (pcbs s)) (c # concat (map (pcbs_in (q_view s)) live_queues))) \<and>
     (\<forall>l. \<forall>p \<in> set (pcbs_in (q_view s) (Ready l)). status (pcbs s p) \<in> {PROC_READY, PROC_ZOMBIE}) \<and>
     kernel_ok i s"
proof -
  have ok: "kernel_ok i s" using assms(2,1) by (rule reachable_rest)
  then obtain c where r: "running c s" by (auto simp: kernel_ok_def)
  note d = runningD [OF r] and o = kinvD(4,5) [OF runningD(2) [OF r]]
  have "mset (pcbs_in (q_view s) Free_pcbs @ c # concat (map (pcbs_in (q_view s)) live_queues)) \<subseteq># mset_set {..<MAX_PROCS}"
    "mset (stacks_in (q_view s) @ map (stack_idx (pcbs s)) (c # concat (map (pcbs_in (q_view s)) live_queues)))
      \<subseteq># mset_set {..<MAX_PROCS}"
    using o(1) by (simp_all add: owned_def live_def)
  then have "distinct (pcbs_in (q_view s) Free_pcbs @ c # concat (map (pcbs_in (q_view s)) live_queues))"
    "distinct (stacks_in (q_view s) @ map (stack_idx (pcbs s)) (c # concat (map (pcbs_in (q_view s)) live_queues)))"
    by (blast intro: sub_mset_distinct)+
  then show ?thesis using ok d(1,3,4) o(2) unfolding statuses_def by blast
qed

theorem kernel_stays_sound_witness:
  "\<exists>s' c. isr_clock demo = Inr s' \<and> current s' = Some c \<and>
     distinct (pcbs_in (q_view s') Free_pcbs @ c # concat (map (pcbs_in (q_view s')) live_queues))"
proof -
  have sv: "service_ok (system_time demo + 1) demo" by (simp add: service_ok_def)
  from isr_clock_rest [OF kernel_ok_demo sv] obtain s' where s': "isr_clock demo = Inr s'" by blast
  have "reachable demo_lk 0 demo s'" by (rule reachable.step [OF reachable.start kstep.tick [OF sv s']])
  from kernel_stays_sound [OF kernel_ok_demo this] s' show ?thesis by blast
qed

text \<open>
  C2: in every state that can be reached, every entry into the kernel returns: none of its loops
  goes on for ever, it calls \<open>_kpanic\<close> nowhere, takes nothing out of its queues as another type than it is, uses no NULL
  as a PCB, a context, a request or a routine, and stays in the serial buffers and in the RAM disk.  It says
  nothing of the memory that user code addresses, with the segments in it: there an address is any number,
  \<open>_current_shms\<close> may be NULL, which is the address 0, and a message may be longer than the segment it is written
  to.  The conditions are those of the steps: a call keeps to \<open>call_ok\<close>, a due
  disk request to \<open>service_ok\<close>, and there is room for the characters that come in.
\<close>
theorem kernel_entries_return:
  assumes "kernel_ok i s0" "reachable lk i s0 s"
  shows "(requested s c ctx f \<and> call_ok i f ctx s \<longrightarrow> (\<exists>s'. isr_syscall lk s = Inr s')) \<and>
     (service_ok (system_time s + 1) s \<longrightarrow> (\<exists>s'. isr_clock s = Inr s')) \<and>
     (inq s = uart_reads evs @ rest \<and> inlast s + received evs \<le> BUF_SIZE \<longrightarrow>
        (\<exists>s'. isr_sio s = Inr s' \<and> inq s' = rest))"
proof -
  have ok: "kernel_ok i s" using assms(2,1) by (rule reachable_rest)
  show ?thesis using isr_syscall_rest [OF ok] isr_clock_rest [OF ok] isr_sio_rest [OF ok] by meson
qed

theorem kernel_entries_return_witness:
  "(\<exists>s'. isr_clock demo = Inr s') \<and> (\<exists>s'. isr_syscall demo_lk demo = Inr s') \<and>
   (\<exists>s'. isr_sio (demo\<lparr>inq := uart_reads [Tx, Rx 65]\<rparr>) = Inr s' \<and> inq s' = [])"
proof -
  let ?t = "demo\<lparr>inq := uart_reads [Tx, Rx 65]\<rparr>"
  have q: "requested demo 1 (1, 1004) (sys_of (ctx_get (1, 1004) CTX_EAX demo))"
    by (simp add: requested_def demo_pcb_def)
  have eax: "sys_of (ctx_get (1, 1004) CTX_EAX demo) = Sys_spawn"
    by (simp add: ctx_get_def sys_of_def sys_init_def Let_def c_printf_def)
  have g: "call_ok 0 Sys_spawn (1, 1004) demo" by (simp add: call_ok_def)
  have sv: "service_ok (system_time demo + 1) demo" by (simp add: service_ok_def)
  note a = kernel_entries_return [OF kernel_ok_demo reachable.start,
    where c = 1 and ctx = "(1, 1004)" and f = Sys_spawn and lk = demo_lk]
  have "reachable demo_lk 0 demo ?t" by (rule reachable.step [OF reachable.start kstep.device])
  note b = kernel_entries_return [OF kernel_ok_demo this, where evs = "[Tx, Rx 65]" and rest = "[]"]
  show ?thesis using a b q eax g sv by simp
qed

text \<open>
  C3: the whole kernel refines the abstract scheduler.  Whatever calls, ticks and serial interrupts
  follow each other, and whatever user code does in between, the scheduler's part of the state
  they lead to is a function of the sequence of events alone: the one that \<open>spec_run\<close> computes.
  In particular the processes cannot change the order in which they run but through these
  events.
\<close>
theorem histories_refine_scheduler:
  assumes "kernel_ok i s0" "history lk i s0 es s"
  shows "spec_run es (sched_of s0) = Some (sched_of s) \<and> reachable lk i s0 s"
  using history_sched [OF assms(2,1)] history_reachable [OF assms(2)] ..

theorem histories_refine_scheduler_witness:
  "\<exists>s'. isr_sio (demo\<lparr>inq := uart_reads [Rx 65, Tx, Rx 66]\<rparr>) = Inr s' \<and> current s' = Some 1 \<and>
     levels_from 0 (q_view s') = [[], [3], [0]] \<and> pcbs_in (q_view s') Reading = []"
proof -
  let ?t = "demo\<lparr>inq := uart_reads [Rx 65, Tx, Rx 66]\<rparr>"
  have ok: "kernel_ok 0 ?t" using kernel_ok_demo by simp
  have room: "inlast ?t + received [Rx 65, Tx, Rx 66] \<le> BUF_SIZE" by simp
  have "inq ?t = uart_reads [Rx 65, Tx, Rx 66] @ []" by simp
  from isr_sio_rest [OF ok this room] obtain s' where s': "isr_sio ?t = Inr s'" by blast
  have "history demo_lk 0 demo (([] @ []) @ replicate (received [Rx 65, Tx, Rx 66]) E_arrive) s'"
    by (rule history.step [OF history.step [OF history.start observed.device] observed.serial [OF _ room s']]) simp
  then have "history demo_lk 0 demo [E_arrive, E_arrive] s'" by (simp add: numeral_2_eq_2)
  from histories_refine_scheduler [OF kernel_ok_demo this] have
    r: "spec_run [E_arrive, E_arrive] (sched_of demo) = Some (sched_of s')" by blast
  define b where "b = sched_of s'"
  have same: "same_procs demo demo" by (simp add: same_procs_def)
  have "sc_runs b = Some 1 \<and> sc_ready b = [[], [3], [0]] \<and> sc_reading b = []"
    using r unfolding sched_demo [OF same] b_def [symmetric] by (auto simp: spec_ready_def)
  then show ?thesis using s' by (intro exI [of _ s']) (simp add: b_def)
qed

text \<open>
  C4: a tick is a step of the abstract scheduler, which knows the processes only as lists of
  numbers: with a disk request that keeps to \<open>service_ok\<close> or none, \<open>_isr_clock\<close> returns, and who
  runs, who is ready at each level and in which order, who sleeps until when, who waits, what is
  free, who is dead and what is left of each quantum are then what \<open>spec_tick\<close> says.  The time goes on by
  one, the sleepers that are due get ready in their order, then the process whose request was
  served; then the running process has one tick less, or goes to the end of its level when it has
  none left, and the first process that is not dead runs with a full quantum.
\<close>
theorem ticks_refine_scheduler:
  assumes "kernel_ok i s" "service_ok (system_time s + 1) s"
  shows "\<exists>s'. isr_clock s = Inr s' \<and>
     spec (E_tick (served_at (system_time s + 1) s)) (sched_of s) = Some (sched_of s')"
  using assms by (rule sched_tick)

theorem ticks_refine_scheduler_witness:
  "\<exists>s'. isr_clock (demo\<lparr>system_time := 4\<rparr>) = Inr s' \<and> current s' = Some 1 \<and> quantum (pcbs s' 1) = 1 \<and>
     levels_from 0 (q_view s') = [[], [2], [0]] \<and> sc_asleep (sched_of s') = []"
proof -
  let ?s = "demo\<lparr>system_time := 4\<rparr>"
  have same: "same_procs demo ?s" "same_sio demo ?s" by (simp_all add: same_procs_def same_sio_def)
  note c = same_procs_cong [OF same(1)]
  have "kernel_ok 0 ?s" using kernel_ok_demo same by (rule quiet_rest)
  moreover have "service_ok (system_time ?s + 1) ?s" by (simp add: service_ok_def)
  ultimately obtain s' where s': "isr_clock ?s = Inr s'"
    "spec (E_tick (served_at (system_time ?s + 1) ?s)) (sched_of ?s) = Some (sched_of s')"
    using ticks_refine_scheduler by blast
  define b where "b = sched_of s'"
  have sv: "served_at (system_time ?s + 1) ?s = None" by (simp add: served_at_def)
  have "sc_runs b = Some 1 \<and> sc_left b 1 = 1 \<and> sc_ready b = [[], [2], [0]] \<and> sc_asleep b = []"
    using s'(2) unfolding sv sched_demo [OF same(1)] b_def [symmetric]
    by (auto simp: spec_tick_def spec_wake_def spec_serve_def spec_ready_def running_do_def)
  then show ?thesis using s'(1) by (intro exI [of _ s']) (simp add: b_def)
qed

text \<open>
  C5: every system call that keeps to \<open>call_ok\<close> is the step of the abstract scheduler that \<open>call_event\<close> names: \<open>spawn\<close>
  takes a PCB and a stack, puts the new process at the end of its level and the caller behind it,
  \<open>sleep\<close> puts the caller among the sleepers by its time, or gives up the processor when the time
  is 0, \<open>read\<close> lets it wait when no character is there, \<open>exit\<close> frees what it had, \<open>kill\<close> of
  another process marks it as dead, and the next process that is not dead runs after each of them
  but the last.  The other calls, those of shared memory among them, leave every part of the
  scheduler's state as it is.
\<close>
theorem calls_refine_scheduler:
  assumes "kernel_ok i s" "requested s cur c f" "call_ok i f c s"
  shows "\<exists>s'. isr_syscall lk s = Inr s' \<and> spec (call_event lk f c s) (sched_of s) = Some (sched_of s')"
  using assms by (rule sched_isr_syscall)

theorem calls_refine_scheduler_witness:
  "\<exists>s'. isr_syscall demo_lk demo = Inr s' \<and> current s' = Some 5 \<and> levels_from 0 (q_view s') = [[], [1], [0]] \<and>
     pcbs_in (q_view s') Free_pcbs = []"
proof -
  have q: "requested demo 1 (1, 1004) Sys_spawn"
    by (simp add: requested_def demo_pcb_def ctx_get_def sys_of_def sys_init_def Let_def c_printf_def)
  have "call_ok 0 Sys_spawn (1, 1004) demo" by (simp add: call_ok_def)
  from calls_refine_scheduler [OF kernel_ok_demo q this, of demo_lk] obtain s' where
    s': "isr_syscall demo_lk demo = Inr s'" "spec (E_spawn 1) (sched_of demo) = Some (sched_of s')"
    by (auto simp: call_event_def)
  define b where "b = sched_of s'"
  have same: "same_procs demo demo" by (simp add: same_procs_def)
  have "sc_runs b = Some 5 \<and> sc_ready b = [[], [1], [0]] \<and> sc_free b = []"
    using s'(2) unfolding sched_demo [OF same] b_def [symmetric]
    by (auto simp: spec_spawn_def spec_ready_def spec_dispatch_def running_do_def Let_def)
  then show ?thesis using s'(1) by (intro exI [of _ s']) (simp add: b_def)
qed

text \<open>
  C6: the queues hold \<open>void *\<close>, and the kernel casts what it takes out of them.  In every state
  that can be reached the casts are right: the queues of PCBs hold PCBs of the table, the free
  stacks are stacks of the table, the disk queues hold disk requests, and what is in the queue of free segments was put
  there as the address of a segment. Which address that is the theorem does not say: \<open>shmrm\<close> puts in what its
  caller passes. The sleepers stand by the time at which they wake, and no
  queue node is lost: a node is free or in exactly one queue.
\<close>
theorem queues_hold_their_type:
  assumes "kernel_ok i s0" "reachable lk i s0 s"
  shows "(\<forall>q \<in> set (Free_pcbs # live_queues). \<forall>e \<in> set (q_view s q). \<exists>j < MAX_PROCS. snd e = Some (Pcb j)) \<and>
     (\<forall>e \<in> set (q_view s Free_stacks). \<exists>j < MAX_PROCS. snd e = Some (Stack j)) \<and>
     (\<forall>e \<in> set (q_view s Free_shms). \<exists>a. snd e = Some (Shm a)) \<and>
     (\<forall>q \<in> {Ramdisk_io_pending, Ata_io_pending}. \<forall>e \<in> set (q_view s q). \<exists>d. snd e = Some (Disk_req d)) \<and>
     sorted (map fst (q_view s Sleeping)) \<and>
     n_free s + (\<Sum>q \<leftarrow> Free_pcbs # Free_stacks # live_queues @ other_queues. length (q_view s q)) = N_QNODES"
proof -
  have "kernel_ok i s" using assms(2,1) by (rule reachable_rest)
  then obtain c where "running c s" by (auto simp: kernel_ok_def)
  note d = kinvD [OF runningD(2) [OF this]]
  have "mset (pcbs_in (q_view s) q) \<subseteq># mset_set {..<MAX_PROCS}" if "q \<in> set (Free_pcbs # live_queues)" for q
    using owned_part(1) [OF d(4) that] .
  then have b: "pcb_of (snd e) < MAX_PROCS" if "q \<in> set (Free_pcbs # live_queues)" "e \<in> set (q_view s q)" for q e
    using that part_bound [where f = "\<lambda>e. pcb_of (snd e)"] unfolding pcbs_in_def by blast
  have "stack_of (snd e) < MAX_PROCS" if "e \<in> set (q_view s Free_stacks)" for e
    using that part_bound [where f = "\<lambda>e. stack_of (snd e)"] owned_part(2) [OF d(4)] unfolding stacks_in_def by blast
  then have "\<forall>e \<in> set (q_view s Free_stacks). \<exists>j < MAX_PROCS. snd e = Some (Stack j)"
    using d(3) unfolding typed_view_def by force
  moreover have "\<forall>q \<in> set (Free_pcbs # live_queues). \<forall>e \<in> set (q_view s q). \<exists>j < MAX_PROCS. snd e = Some (Pcb j)"
  proof (intro ballI)
    fix q e assume q: "q \<in> set (Free_pcbs # live_queues)" and e: "e \<in> set (q_view s q)"
    then have "snd e \<in> range c_pcb" using d(3) unfolding typed_view_def by blast
    then show "\<exists>j < MAX_PROCS. snd e = Some (Pcb j)" using b [OF q e] by auto
  qed
  moreover have "sorted (map fst (q_view s Sleeping))"
    using view_sorted [OF d(1), of Sleeping] d(2) by (simp add: hashes_ok_def q_ordered_def)
  moreover have "n_free s + (\<Sum>q \<leftarrow> Free_pcbs # Free_stacks # live_queues @ other_queues. length (q_view s q)) = N_QNODES"
    using d(6) by (simp add: n_used_def n_other_def)
  ultimately show ?thesis using d(3) unfolding typed_view_def by blast
qed

theorem queues_hold_their_type_witness:
  "\<exists>s'. isr_clock demo = Inr s' \<and> (\<forall>e \<in> set (q_view s' Sleeping). \<exists>j < MAX_PROCS. snd e = Some (Pcb j)) \<and>
     sorted (map fst (q_view s' Sleeping))"
proof -
  have sv: "service_ok (system_time demo + 1) demo" by (simp add: service_ok_def)
  from isr_clock_rest [OF kernel_ok_demo sv] obtain s' where s': "isr_clock demo = Inr s'" by blast
  have "reachable demo_lk 0 demo s'" by (rule reachable.step [OF reachable.start kstep.tick [OF sv s']])
  from queues_hold_their_type [OF kernel_ok_demo this] s' show ?thesis by (auto simp: live_queues_def)
qed

section \<open>The processor\<close>

text \<open>
  C7: \<open>_start\<close> enters process 1 at its function, with the registers of a new process. From there on,
  whatever user code does on its own stack and whatever the devices do, the machine is always in user
  code of the running process with the stack pointer on its stack and the kernel sound, and every
  system call, tick and serial interrupt that keeps to its conditions comes back to such a state.
\<close>
theorem machine_runs_on:
  assumes "all_empty s" "\<forall>q. hashfcn (queues s q) = None"
    and "ide_found ps m" "inq s = probe_values (ps @ [m]) @ rest"
  shows "\<exists>t. startup lk stubs adr (c, s) = Inr (start_cpu (user_first_addr lk) 1, t) \<and> current t = Some 1 \<and>
     (\<forall>m. rtranclp (pc_step lk adr dev 0) (start_cpu (user_first_addr lk) 1, t) m \<longrightarrow>
        pc_ok 0 m \<and> (\<forall>r. irq_ok adr 0 r m \<longrightarrow> (\<exists>m'. interrupt lk adr dev (vector_of r) 0 m = Inr m' \<and> pc_ok 0 m')))"
proof -
  obtain t where t: "startup lk stubs adr (c, s) = Inr (start_cpu (user_first_addr lk) 1, t)" "current t = Some 1"
    "pc_ok 0 (start_cpu (user_first_addr lk) 1, t)"
    by (rule startup_ok [OF assms, of lk stubs adr c])
  have "pc_ok 0 m" if "rtranclp (pc_step lk adr dev 0) (start_cpu (user_first_addr lk) 1, t) m" for m
    using that t(3) by (rule pc_run_ok)
  with t irq_returns show ?thesis by blast
qed

theorem machine_runs_on_witness:
  "\<exists>t. startup demo_lk (\<lambda>_. 0) demo_adr (demo_cpu, boot_state\<lparr>inq := [0x25708086, 0x25708086, 0x24db8086, 0x24db8086]\<rparr>) =
     Inr (start_cpu 0x10200 1, t) \<and> pc_ok 0 (start_cpu 0x10200 1, t) \<and>
     (\<exists>m'. interrupt demo_lk demo_adr demo_dev INT_VEC_SYSCALL 0 (at_int 0 SYS_getpid (start_cpu 0x10200 1), t) = Inr m')"
proof -
  let ?s = "boot_state\<lparr>inq := [0x25708086, 0x25708086, 0x24db8086, 0x24db8086]\<rparr>"
  have a: "all_empty ?s" "\<forall>q. hashfcn (queues ?s q) = None"
    by (simp_all add: all_empty_def boot_state_def)
  have b: "ide_found [(0x25708086, 0x25708086)] (0x24db8086, 0x24db8086)"
    by (simp add: ide_found_def probe_matches_def)
  have c: "inq ?s = probe_values ([(0x25708086, 0x25708086)] @ [(0x24db8086, 0x24db8086)]) @ []" by simp
  have l: "user_first_addr demo_lk = 0x10200" by (simp add: demo_lk_def)
  from machine_runs_on [OF a b c, of demo_lk "\<lambda>_. 0" demo_adr demo_cpu demo_dev] obtain t where
    t: "startup demo_lk (\<lambda>_. 0) demo_adr (demo_cpu, ?s) = Inr (start_cpu 0x10200 1, t)" "current t = Some 1"
    "\<And>m. rtranclp (pc_step demo_lk demo_adr demo_dev 0) (start_cpu 0x10200 1, t) m \<Longrightarrow>
        pc_ok 0 m \<and> (\<forall>r. irq_ok demo_adr 0 r m \<longrightarrow> (\<exists>m'. interrupt demo_lk demo_adr demo_dev (vector_of r) 0 m = Inr m' \<and> pc_ok 0 m'))"
    unfolding l by blast
  let ?m = "(at_int 0 SYS_getpid (start_cpu 0x10200 1), t)"
  have ok: "pc_ok 0 (start_cpu 0x10200 1, t)" using t(3) by blast
  then have "on_stack (at_int 0 SYS_getpid (start_cpu 0x10200 1)) 1 t" using t(2) by (simp add: pc_ok_def)
  from pc_step.user [where lk = demo_lk and adr = demo_adr and dev = demo_dev and i = 0 and m = "mem t" and st = "stacks t", OF t(2) this]
  have "pc_step demo_lk demo_adr demo_dev 0 (start_cpu 0x10200 1, t) ?m" by simp
  then have "rtranclp (pc_step demo_lk demo_adr demo_dev 0) (start_cpu 0x10200 1, t) ?m" by (rule r_into_rtranclp)
  moreover have "irq_ok demo_adr 0 Call ?m" by (simp add: sys_of_def sys_init_def Let_def c_printf_def call_ok_def)
  ultimately have "\<exists>m'. interrupt demo_lk demo_adr demo_dev (vector_of Call) 0 ?m = Inr m'" using t(3) by blast
  then show ?thesis using t(1) ok by simp
qed

text \<open>
  C8: the whole machine refines the scheduler's specification. Every run of user code, devices and
  interrupts is made of events, and each is given by what the interrupt finds: a system call
  is the event of the number in EAX and the arguments on the stack (whom it kills, how long it
  sleeps, at which level it spawns, whether it waits for a character), a tick serves the request that
  is due, a serial interrupt is an arrival for each character. The processes that run, are ready, sleep,
  wait, or are gone in the end are those that these events, in this order, lead to in the specification.
\<close>
theorem machine_refines_scheduler:
  assumes "pc_ok i m0"
  shows "(\<forall>m. rtranclp (pc_step lk adr dev i) m0 m \<longrightarrow> (\<exists>es. pc_history lk adr dev i m0 es m)) \<and>
    (\<forall>es m. pc_history lk adr dev i m0 es m \<longrightarrow> spec_run es (sched_of (snd m0)) = Some (sched_of (snd m)))"
  using pc_run_history [OF _ assms] pc_history_sched [OF _ assms] by blast

theorem machine_refines_scheduler_witness:
  "\<exists>m. syscall_stub demo_lk demo_adr demo_dev 0x5004 SYS_spawn (demo_cpu, demo_machine) = Inr m \<and>
     current (snd m) = Some 5 \<and> spec_run [E_spawn 1] (sched_of demo) = Some (sched_of (snd m))"
proof -
  let ?c = "at_int 0x5004 SYS_spawn demo_cpu"
  have ok: "pc_ok 0 (?c, demo_machine)" using pc_ok_demo by simp
  have q: "irq_ok demo_adr 0 Call (?c, demo_machine)" by (simp add: sys_of_simps call_ok_def)
  from irq_returns [OF ok q, of demo_lk demo_dev] obtain m where
    m: "interrupt demo_lk demo_adr demo_dev INT_VEC_SYSCALL 0 (?c, demo_machine) = Inr m" by auto
  have ev: "call_event demo_lk (sys_of (gp_regs ?c EAX)) x t = E_spawn 1" for x t
    by (simp add: sys_of_simps call_event_def)
  have "pc_history demo_lk demo_adr demo_dev 0 (?c, demo_machine) ([] @ [E_spawn 1]) m"
    using pc_event.call [OF demo_machine_fields(1) q m] unfolding ev by (rule pc_history.step [OF pc_history.start])
  then have "pc_history demo_lk demo_adr demo_dev 0 (?c, demo_machine) [E_spawn 1] m" by simp
  then have sp: "spec_run [E_spawn 1] (sched_of demo) = Some (sched_of (snd m))"
    using machine_refines_scheduler [OF ok, of demo_lk demo_adr demo_dev] unfolding sched_demo_machine [symmetric] snd_conv by blast
  have same: "same_procs demo demo" by simp
  define b where "b = sched_of (snd m)"
  have "sc_runs b = Some 5"
    using sp unfolding spec_run_one sched_demo [OF same] b_def [symmetric]
    by (auto simp: running_do_def spec_spawn_def spec_ready_def spec_dispatch_def)
  then have "current (snd m) = Some 5" by (simp add: b_def)
  with m sp show ?thesis by (simp add: syscall_stub_eq)
qed

text \<open>
  C9: a process does not see that it was interrupted. Whatever happens between an interrupt and the
  next instruction of the process, be it any number of steps of other processes, devices and further
  interrupts, it goes on with the registers it had, and with its stack as it was but for the eighteen
  words below the stack pointer. Only a system call and a wait for a character change EAX.
\<close>
theorem interrupted_process_resumes:
  assumes "pc_ok i (c, s)" "current s = Some p" "irq_ok adr i r (c, s)"
    and "interrupt lk adr dev (vector_of r) 0 (c, s) = Inr m1" "resumed lk adr dev i b p m1 (c', s')"
  shows "(\<exists>v. c' = to_reg EAX v c) \<and> (b \<and> r \<noteq> Call \<longrightarrow> c' = c) \<and>
    (\<forall>w. w \<notin> {snd (r_esp c) - CTX_WORDS..<snd (r_esp c)} \<longrightarrow> stacks s' (fst (r_esp c)) w = stacks s (fst (r_esp c)) w)"
  using interrupt_resumes [OF assms] by blast

theorem interrupted_process_resumes_witness:
  "\<exists>s'. interrupt demo_lk demo_adr demo_dev INT_VEC_TIMER 0 (demo_cpu, demo_machine) = Inr (demo_cpu, s') \<and>
     stacks s' 1 1000 = 0x5100 \<and> current s' = Some 1"
proof -
  obtain c' s' where u: "interrupt demo_lk demo_adr demo_dev (vector_of Tick) 0 (demo_cpu, demo_machine) = Inr (c', s')"
    "current s' = Some 1" using demo_tick(2) by blast
  then have "resumed demo_lk demo_adr demo_dev 0 True 1 (c', s') (c', s')" by (simp add: resumed_def)
  note r = interrupted_process_resumes [OF pc_ok_demo demo_machine_fields(1) demo_tick(1) u(1) this]
  have e: "fst (r_esp demo_cpu) = 1" "1000 \<notin> {snd (r_esp demo_cpu) - CTX_WORDS..<snd (r_esp demo_cpu)}"
    by (simp_all add: demo_cpu_def)
  have "stacks s' 1 1000 = stacks demo_machine 1 1000" using r e by metis
  moreover have "c' = demo_cpu" using r by simp
  ultimately show ?thesis using u by (intro exI [of _ s']) simp
qed

text \<open>
  C10: for every vector, with an error code of the hardware or without, the stub leaves the same frame
  below the stack pointer: the eighteen longwords of \<open>context_t\<close>, each register in its field, the vector
  and the error code, or 0, in theirs, and the context pointer of the PCB at its start. Restoring from there gives
  back every register, and the stack pointer.
\<close>
theorem saved_context_restores:
  assumes "r_esp c = (i, w + CTX_WORDS)" "w + CTX_WORDS \<le> STACK_SIZE" "current s = Some p"
  shows "\<exists>c1 s1. bindE (int_entry adr v e (c, s)) (isr_save adr) = Inr (v, if has_error_code v then e else 0, (c1, s1)) \<and>
     context_of (pcbs s1 p) = Some (i, w) \<and>
     map (\<lambda>k. ctx_get (i, w) k s1) [0..<CTX_WORDS] =
       [ucast (seg_regs c SS), ucast (seg_regs c GS), ucast (seg_regs c FS), ucast (seg_regs c ES), ucast (seg_regs c DS),
        gp_regs c EDI, gp_regs c ESI, gp_regs c EBP, adr (i, w + 13), gp_regs c EBX, gp_regs c EDX, gp_regs c ECX,
        gp_regs c EAX, v, if has_error_code v then e else 0, r_eip c, ucast (r_cs c), r_eflags c] \<and>
     (\<forall>c2. isr_restore adr (c2, s1) = Inr (c, s1))"
  using save_restore [OF assms] .

theorem saved_context_restores_witness:
  "\<exists>c1 s1. bindE (int_entry demo_adr 13 0x18 (demo_cpu, demo_machine)) (isr_save demo_adr) = Inr (13, 0x18, (c1, s1)) \<and>
     ctx_get (1, 982) 14 s1 = 0x18 \<and> isr_restore demo_adr (c1, s1) = Inr (demo_cpu, s1)"
proof -
  have e: "r_esp demo_cpu = (1, 982 + CTX_WORDS)" "982 + CTX_WORDS \<le> STACK_SIZE" by (simp_all add: demo_cpu_def)
  have h: "has_error_code 13" by (simp add: has_error_code_def)
  from saved_context_restores [OF e demo_machine_fields(1), of demo_adr 13 "0x18"] obtain c1 s1 where
    r: "bindE (int_entry demo_adr 13 0x18 (demo_cpu, demo_machine)) (isr_save demo_adr) = Inr (13, 0x18, (c1, s1))"
      "map (\<lambda>k. ctx_get (1, 982) k s1) [0..<CTX_WORDS] = context_words demo_adr demo_cpu 13 0x18 (1, 982 + 13)"
      "\<forall>c2. isr_restore demo_adr (c2, s1) = Inr (demo_cpu, s1)"
    by (simp only: h if_True, elim exE conjE) (rule that; simp only: context_words_def)
  have "map (\<lambda>k. ctx_get (1, 982) k s1) [0..<CTX_WORDS] ! 14 = 0x18" unfolding r(2) by (simp add: context_words_def)
  then have "ctx_get (1, 982) 14 s1 = 0x18" by (subst (asm) nth_map) simp_all
  with r(1,3) show ?thesis by blast
qed

text \<open>
  C11: each stub of the user library calls the handler of its name, with the words behind the return address on
  the caller's stack as its arguments, and the bogus one calls the handler of \<open>exit\<close>.
\<close>
theorem stubs_call_handlers:
  assumes "pc_ok i (c, s)" "current s = Some p" "(name, num) \<in> set user_stubs"
    and "irq_ok adr i Call (at_int ret_at num c, s)"
  shows "\<exists>t m f. syscall_stub lk adr dev ret_at num (c, s) = Inr m \<and> isr_syscall lk t = Inr (snd m) \<and>
     requested t p (saved_at c) f \<and> (\<forall>k. sys_arg (saved_at c) k t = stacks s (fst (r_esp c)) (snd (r_esp c) + 1 + k)) \<and>
     (name, f) \<in> {(''spawn'', Sys_spawn), (''spawnl'', Sys_spawnl), (''sleep'', Sys_sleep), (''exit'', Sys_exit),
       (''kill'', Sys_kill), (''read'', Sys_read), (''write'', Sys_write), (''time'', Sys_time), (''getpid'', Sys_getpid),
       (''getppid'', Sys_getppid), (''getpidlist'', Sys_getpidlist), (''shmget'', Sys_shmget), (''shmat'', Sys_shmat),
       (''shmwrite'', Sys_shmwrite), (''shmread'', Sys_shmread), (''shmdt'', Sys_shmdt), (''shmrm'', Sys_shmrm),
       (''bogus'', Sys_exit)}"
proof -
  obtain t m where t: "syscall_stub lk adr dev ret_at num (c, s) = Inr m \<and> isr_syscall lk t = Inr (snd m) \<and>
     requested t p (saved_at c) (sys_of num) \<and>
     (\<forall>k. sys_arg (saved_at c) k t = stacks s (fst (r_esp c)) (snd (r_esp c) + 1 + k))"
    using stub_calls [OF assms(1,2,4), of lk dev] by (elim exE) (rule that)
  have "(name, sys_of num) \<in> (\<lambda>(a, b). (a, sys_of b)) ` set user_stubs"
    by (rule image_eqI [OF _ assms(3)]) simp
  note h = this [unfolded user_stubs_handlers]
  show ?thesis by (intro exI [of _ t] exI [of _ m] exI [of _ "sys_of num"] conjI h) (use t in blast)+
qed

theorem stubs_call_handlers_witness:
  "\<exists>t m. syscall_stub demo_lk demo_adr demo_dev 0x5004 SYS_getpid (demo_cpu, demo_machine) = Inr m \<and>
     isr_syscall demo_lk t = Inr (snd m) \<and> sys_arg (saved_at demo_cpu) 0 t = 0x6000"
proof -
  have "(''getpid'', SYS_getpid) \<in> set user_stubs" by (simp add: user_stubs_def)
  from stubs_call_handlers [OF pc_ok_demo demo_machine_fields(1) this demo_getpid, where lk = demo_lk and dev = demo_dev and ret_at = "0x5004"]
  obtain t m where t: "syscall_stub demo_lk demo_adr demo_dev 0x5004 SYS_getpid (demo_cpu, demo_machine) = Inr m"
    "isr_syscall demo_lk t = Inr (snd m)"
    "\<And>k. sys_arg (saved_at demo_cpu) k t = stacks demo_machine (fst (r_esp demo_cpu)) (snd (r_esp demo_cpu) + 1 + k)"
    by blast
  from t(3) [of 0] have "sys_arg (saved_at demo_cpu) 0 t = 0x6000" by (simp add: demo_cpu_def)
  with t(1,2) show ?thesis by blast
qed

text \<open>
  C12: a system call comes back to its caller: when the caller runs again, at once or after any run in which
  it waited, the stub returns to the return address on the stack, with the stack pointer behind it, all registers
  but EAX as they were, and in EAX what the kernel left in the context, unless the caller waits for a
  character. Then in that run there is a serial interrupt at which the caller is the \<open>k\<close>th of the readers and that
  brings more than \<open>k\<close> characters, counted from 0, and in EAX is the \<open>k\<close>th of them: its low byte, with the carriage return
  as a line feed.
\<close>
theorem system_call_returns:
  assumes "pc_ok i (c, s)" "current s = Some p" "irq_ok adr i Call (at_int ret_at num c, s)" "snd (r_esp c) < STACK_SIZE"
    and "syscall_stub lk adr dev ret_at num (c, s) = Inr m1" "resumed lk adr dev i False p m1 m"
  shows "\<exists>v. stub_return adr m = Inr ((to_reg EAX v c)\<lparr>r_eip := stacks s (fst (r_esp c)) (snd (r_esp c)),
       r_esp := (fst (r_esp c), snd (r_esp c) + 1)\<rparr>, snd m) \<and>
     (p \<notin> set (pcbs_in (q_view (snd m1)) Reading) \<longrightarrow> v = ctx_get (saved_at c) CTX_EAX (snd m1)) \<and>
     (p \<in> set (pcbs_in (q_view (snd m1)) Reading) \<longrightarrow>
       (\<exists>m2 m3 evs rest k. away lk adr dev i False p m1 m2 \<and> interrupt lk adr dev INT_VEC_SERIAL_PORT_1 0 m2 = Inr m3 \<and>
          away lk adr dev i False p m3 m \<and> inq (snd m2) = uart_reads evs @ rest \<and> k < received evs \<and>
          k < length (pcbs_in (q_view (snd m2)) Reading) \<and> pcbs_in (q_view (snd m2)) Reading ! k = p \<and>
          v = (if chars_of evs ! k = 13 then 10 else chars_of evs ! k) AND 0xff))"
proof -
  from stub_returns_with [OF assms] obtain v where v: "stub_return adr m = Inr (returned c v s, snd m)"
    "p \<notin> set (pcbs_in (q_view (snd m1)) Reading) \<longrightarrow> v = ctx_get (saved_at c) CTX_EAX (snd m1)"
    "p \<in> set (pcbs_in (q_view (snd m1)) Reading) \<longrightarrow> char_came lk adr dev i p v m1 m" by blast
  show ?thesis
    by (intro exI [of _ v] conjI) (use v in \<open>unfold returned_def char_came_def gets_char_def, blast+\<close>)
qed

theorem system_call_returns_witness:
  "\<exists>m s'. syscall_stub demo_lk demo_adr demo_dev 0x5004 SYS_getpid (demo_cpu, demo_machine) = Inr m \<and>
     stub_return demo_adr m = Inr ((to_reg EAX 1 demo_cpu)\<lparr>r_eip := 0x5100, r_esp := (1, 1001)\<rparr>, s')"
proof -
  have n: "snd (r_esp demo_cpu) < STACK_SIZE" by (simp add: demo_cpu_def)
  obtain m s' where m: "syscall_stub demo_lk demo_adr demo_dev 0x5004 SYS_getpid (demo_cpu, demo_machine) = Inr m"
    "current (snd m) = Some 1" "ctx_get (saved_at demo_cpu) CTX_EAX (snd m) = 1" using demo_call by blast
  obtain c' s' where cs: "m = (c', s')" by (cases m)
  have "resumed demo_lk demo_adr demo_dev 0 False 1 m m" using m(2) by (simp add: resumed_def cs)
  note r = system_call_returns [OF pc_ok_demo demo_machine_fields(1) demo_getpid n m(1) this]
  have ok: "pc_ok 0 (at_int 0x5004 SYS_getpid demo_cpu, demo_machine)" using pc_ok_demo by simp
  have "pc_ok 0 m" using irq_returns [OF ok demo_getpid, of demo_lk demo_dev] m(1) by (auto simp: syscall_stub_eq)
  then have "1 \<notin> set (pcbs_in (q_view (snd m)) Reading)" using current_not_reading [of 0 c' s' 1] m(2) by (simp add: cs)
  then have "\<exists>v. stub_return demo_adr m = Inr ((to_reg EAX v demo_cpu)\<lparr>r_eip := 0x5100, r_esp := (1, 1001)\<rparr>, s') \<and> v = 1"
    using r m(3) by (auto simp: cs demo_cpu_def)
  then show ?thesis using m(1) by blast
qed

text \<open>
  C13: \<open>spawn(f)\<close> with a free PCB and a free stack: the caller will go on behind the call with the new pid in EAX,
  and the new process runs at once or is queued. Whenever it runs for the first time, at once or
  after any run in which it waited, it starts at \<open>f\<close> with all registers 0, the selectors and flags of user code, and the stack
  pointer at its return address.
\<close>
theorem spawned_process_starts:
  assumes "pc_ok i (c, s)" "current s = Some p"
    and "pcbs_in (q_view s) Free_pcbs = j # js" "stacks_in (q_view s) = stk # sts"
  defines "f \<equiv> stacks s (fst (r_esp c)) (snd (r_esp c) + 1)"
  shows "\<exists>m. syscall_stub lk adr dev ret_at SYS_spawn (c, s) = Inr m \<and> pc_ok i m \<and>
     spec (E_spawn 1) (sched_of s) = Some (sched_of (snd m)) \<and>
     saved_regs p (snd m) = Some ((to_reg EAX (ucast (next_pid s)) c)\<lparr>r_eip := ret_at\<rparr>) \<and>
     saved_regs j (snd m) = Some (start_cpu f stk) \<and>
     (current (snd m) = Some j \<or> j \<in># live (q_view (snd m))) \<and>
     (\<forall>m'. resumed lk adr dev i False j m m' \<longrightarrow> fst m' = start_cpu f stk)"
proof -
  obtain m where m: "syscall_stub lk adr dev ret_at SYS_spawn (c, s) = Inr m" "pc_ok i m"
    "saved_regs j (snd m) = Some (start_cpu f stk)"
    "saved_regs p (snd m) = Some (to_reg EAX (ucast (next_pid s)) (at_int ret_at SYS_spawn c))"
    unfolding f_def by (rule stub_spawn [OF assms(1-4)])
  have e: "to_reg EAX v (at_int ret_at SYS_spawn c) = (to_reg EAX v c)\<lparr>r_eip := ret_at\<rparr>" for v
    by (simp add: at_int_def to_reg_def)
  note r = stub_spawn_ready [OF assms(1-4) m(1)]
  have "fst m' = start_cpu f stk" if "resumed lk adr dev i False j m m'" for m'
    using that by (rule starts_at [OF assms(1-4) m(1-3)])
  then have "\<forall>m'. resumed lk adr dev i False j m m' \<longrightarrow> fst m' = start_cpu f stk" by blast
  with m r(1,3) show ?thesis by (intro exI [of _ m]) (simp add: e)
qed

theorem spawned_process_starts_witness:
  "\<exists>s'. syscall_stub demo_lk demo_adr demo_dev 0x5004 SYS_spawn (demo_cpu, demo_machine) = Inr (start_cpu 0x6000 5, s') \<and>
     current s' = Some 5 \<and> map_option (\<lambda>c. gp_regs c EAX) (saved_regs 1 s') = Some 4"
proof -
  have v: "pcbs_in (q_view demo_machine) Free_pcbs = 5 # []" "stacks_in (q_view demo_machine) = 5 # []"
    by (simp_all add: pcbs_in_def stacks_in_def)
  have f: "stacks demo_machine (fst (r_esp demo_cpu)) (snd (r_esp demo_cpu) + 1) = 0x6000" "ucast (next_pid demo_machine) = (4 :: u32)"
    by (simp_all add: demo_cpu_def)
  from spawned_process_starts [OF pc_ok_demo demo_machine_fields(1) v, of demo_lk demo_adr demo_dev "0x5004",
      unfolded f sched_demo_machine]
  obtain m where m: "syscall_stub demo_lk demo_adr demo_dev 0x5004 SYS_spawn (demo_cpu, demo_machine) = Inr m"
    "spec (E_spawn 1) (sched_of demo) = Some (sched_of (snd m))"
    "saved_regs 1 (snd m) = Some ((to_reg EAX 4 demo_cpu)\<lparr>r_eip := 0x5004\<rparr>)"
    "\<And>m'. resumed demo_lk demo_adr demo_dev 0 False 5 m m' \<Longrightarrow> fst m' = start_cpu 0x6000 5"
    by blast
  have same: "same_procs demo demo" by simp
  define b where "b = sched_of (snd m)"
  have "sc_runs b = Some 5"
    using m(2) unfolding sched_demo [OF same] b_def [symmetric]
    by (auto simp: running_do_def spec_spawn_def spec_ready_def spec_dispatch_def)
  then have c: "current (snd m) = Some 5" by (simp add: b_def)
  then have "fst m = start_cpu 0x6000 5" by (intro m(4)) (simp add: resumed_def)
  with m(1,3) c show ?thesis by (intro exI [of _ "snd m"]) (cases m; simp add: to_reg_def)
qed

text \<open>
  C14: a process other than the idle one ends when it calls \<open>exit\<close> and when it calls any number that is no system
  call, as \<open>bogus\<close> does: its PCB and its stack are free, and another process runs. A process whose
  function returns with the stack pointer as it found it comes to \<open>exit\<close>, with room on its stack for the call.
\<close>
theorem processes_end:
  assumes "pc_ok i (c, s)" "current s = Some p" "p \<noteq> i"
  shows "(num = SYS_exit \<or> N_SYSCALLS \<le> num \<longrightarrow> (\<exists>m. syscall_stub lk adr dev ret_at num (c, s) = Inr m \<and> pc_ok i m \<and>
       spec E_exit (sched_of s) = Some (sched_of (snd m)))) \<and>
     (r_esp c = (stk, STACK_SIZE - 2) \<and> stacks s stk (STACK_SIZE - 2) = exit_addr lk \<longrightarrow>
       (\<exists>c'. stub_return adr (c, s) = Inr (c', s) \<and> r_eip c' = exit_addr lk \<and> pc_ok i (c', s)))"
proof -
  have "\<exists>m. syscall_stub lk adr dev ret_at num (c, s) = Inr m \<and> pc_ok i m \<and>
       spec E_exit (sched_of s) = Some (sched_of (snd m))" if "num = SYS_exit \<or> N_SYSCALLS \<le> num"
  proof -
    have "sys_of num = Sys_exit" using that sys_of_simps(2) by (auto simp: sys_of_def)
    from stub_exits [OF assms this] show ?thesis by metis
  qed
  with return_to_exit [OF assms(1)] show ?thesis by blast
qed

theorem processes_end_witness:
  "\<exists>m c'. syscall_stub demo_lk demo_adr demo_dev 0x5004 0xfeedface (demo_cpu, demo_machine) = Inr m \<and>
     sc_free (sched_of (snd m)) = [5, 1] \<and> current (snd m) = Some 0 \<and>
     stub_return demo_adr (demo_cpu\<lparr>r_esp := (1, 1022)\<rparr>, demo_machine) = Inr (c', demo_machine) \<and> r_eip c' = 0x10000"
proof -
  have "N_SYSCALLS \<le> (0xfeedface :: u32)" by simp
  then have b: "0xfeedface = (SYS_exit :: u32) \<or> N_SYSCALLS \<le> (0xfeedface :: u32)" ..
  have ne: "(1 :: nat) \<noteq> 0" by simp
  from processes_end [OF pc_ok_demo demo_machine_fields(1) ne, of "0xfeedface" demo_lk demo_adr demo_dev "0x5004"] b obtain m where
    m: "syscall_stub demo_lk demo_adr demo_dev 0x5004 0xfeedface (demo_cpu, demo_machine) = Inr m"
      "spec E_exit (sched_of demo_machine) = Some (sched_of (snd m))" by blast
  have same: "same_procs demo demo" by simp
  define b where "b = sched_of (snd m)"
  have "sc_free b = [5, 1] \<and> sc_runs b = Some 0"
    using m(2) unfolding sched_demo_machine sched_demo [OF same] b_def [symmetric] by (auto simp: running_do_def spec_dispatch_def)
  then have f: "sc_free (sched_of (snd m)) = [5, 1]" "current (snd m) = Some 0" by (simp_all add: b_def)
  let ?c = "demo_cpu\<lparr>r_esp := (1, 1022)\<rparr>"
  have ok: "pc_ok 0 (?c, demo_machine)"
    using pc_ok_same [OF pc_ok_demo demo_machine_fields(1), of ?c demo_machine] by (simp add: on_stack_def demo_pcb_def)
  have x: "exit_addr demo_lk = 0x10000" by (simp add: demo_lk_def)
  have "r_esp ?c = (1, STACK_SIZE - 2) \<and> stacks demo_machine 1 (STACK_SIZE - 2) = exit_addr demo_lk" by simp
  with processes_end [OF ok demo_machine_fields(1) ne, where lk = demo_lk and adr = demo_adr and stk = 1] obtain c' where
    "stub_return demo_adr (?c, demo_machine) = Inr (c', demo_machine)" "r_eip c' = 0x10000" unfolding x by blast
  with m(1) f show ?thesis by blast
qed

section \<open>Scheduling\<close>

text \<open>
  \<open>_dispatch\<close> goes through the ready queues from the highest level down and in the order of
  each queue.  It frees the zombies it meets with their stacks, and the first process that is
  not a zombie runs, with a full quantum; the processes behind it stay as they are.
\<close>
lemma dispatch_runs_first_ready:
  assumes "kinv H F K s" "dropWhile (zombie (pcbs s)) (ready_seq (q_view s)) = p # rest"
  shows "\<exists>s'. dispatch s = Inr s' \<and> kinv (p # H) F K s' \<and>
     dispatched (takeWhile (zombie (pcbs s)) (ready_seq (q_view s))) p rest s s'"
  using assms by (rule dispatch_dispatched)

text \<open>
  When the ready queues hold nothing but zombies, or nothing at all, \<open>_dispatch\<close> panics after
  it has looked at all of them.
\<close>
lemma dispatch_without_ready_panics:
  assumes "kinv H F K s" "\<forall>p \<in> set (ready_seq (q_view s)). zombie (pcbs s) p"
  shows "dispatch s = Inl (Panic ''null pcb in dispatch'')"
  using assms by (rule dispatch_none)

text \<open>
  A clock tick, with no disk request to serve and the quantum of the running process not used
  up, makes exactly the sleepers ready whose time has come, each at the end of the queue of its
  level and in the order of their times; the others keep their order, and the running process
  goes on with one tick less.
\<close>
lemma tick_wakes_sleepers:
  assumes "running c s" "idle_ok i s" "env_ok s" "no_service s" "quantum (pcbs s c) \<noteq> 0"
    and "now = system_time s + 1" "sleepers = q_view s Sleeping"
    and "W = map (\<lambda>e. pcb_of (snd e)) (filter (\<lambda>e. fst e \<le> now) sleepers)"
  shows "\<exists>s'. isr_clock s = Inr s' \<and> running c s' \<and> quantum (pcbs s' c) = quantum (pcbs s c) - 1 \<and>
     q_view s' Sleeping = filter (\<lambda>e. now < fst e) sleepers \<and>
     (\<forall>p \<in> set W. status (pcbs s' p) = PROC_READY) \<and>
     (\<forall>l. pcbs_in (q_view s') (Ready l) = pcbs_in (q_view s) (Ready l) @ at_level (pcbs s) l W)"
proof -
  note tc = same_procs_cong [OF ticked_same(1) [of s]]
  have kt: "kinv [c] [] [] (ticked s)" using runningD(2) [OF assms(1)] by (simp add: tc)
  have W: "due (ticked s) = W" "drop (length W) sleepers = filter (\<lambda>e. now < fst e) sleepers"
    using due_filter [OF kt] assms(6-8) by (simp_all add: tc ticked_same)
  have cW: "c \<notin> set W" using due_not_held [OF kt] by (simp add: W)
  from clock_goes_on [OF assms(1-5)] obtain t s' where s': "woken W (ticked s) t" "isr_clock s = Inr s'"
    "running c s'" "q_view s' = q_view t" "pcbs s' = (pcbs t)(c := (pcbs s c)\<lparr>quantum := quantum (pcbs s c) - 1\<rparr>)"
    unfolding W by metis
  then show ?thesis
    using W(2) cW assms(7) unfolding woken_def tc by (auto simp: pcbs_in_def comp_def)
qed

text \<open>
  At the end of its quantum the running process goes to the end of the ready queue of its
  level, behind the processes that wake up at the same tick, and the first process in the ready
  queues that is not a zombie runs with a full quantum.
\<close>
lemma tick_preempts:
  assumes "running c s" "idle_ok i s" "env_ok s" "no_service s" "quantum (pcbs s c) = 0"
  shows "\<exists>t u p rest s'. woken (due (ticked s)) (ticked s) t \<and>
     q_view u = enq (Ready (unat (level (pcbs s c)))) c (q_view t) \<and>
     pcbs u = (pcbs t)(c := (pcbs s c)\<lparr>status := PROC_READY\<rparr>) \<and>
     ready_of u = p # rest \<and> isr_clock s = Inr s' \<and> running p s' \<and>
     ready_seq (q_view s') = rest \<and> quantum (pcbs s' p) = QUANTUM_DEFAULT"
  using clock_preempts [OF assms] by metis

text \<open>
  C15: the processes \<open>C\<close> of the highest level that has any, the running one first and the others in
  the order of their queue, take turns while no sleeper and no disk request is due: whatever user
  code does to its memory, after \<open>n\<close> ticks as many turns are over as three ticks fit into the ticks
  that have gone by since the first of them got the processor, and the processes behind the one
  that runs wait in the same cyclic order.  No other queue has moved: the levels below get
  nothing.
\<close>
theorem round_robin_turns:
  assumes "kernel_ok i s" "turns l C s" "quantum (pcbs s (hd C)) \<le> QUANTUM_DEFAULT"
    and "undisturbed N s" "n \<le> N" "computes s n s'"
  defines "k \<equiv> elapsed n (quantum (pcbs s (hd C))) div 3"
  shows "current s' = Some (C ! (k mod length C)) \<and> pcbs_in (q_view s') (Ready l) = tl (rotate k C) \<and>
     (\<forall>q. q \<noteq> Ready l \<longrightarrow> q_view s' q = q_view s q) \<and> kernel_ok i s'"
proof -
  have "turns l (rotate k C) s'" "kernel_ok i s'" "others_stay l s s'"
    using turns_taken [OF assms(6,1,2,4,5,3)] by (simp_all add: k_def)
  moreover from this(1) have "C \<noteq> []" by (simp add: turns_def)
  ultimately show ?thesis by (simp add: turns_def others_stay_def hd_rotate_conv_nth)
qed

theorem round_robin_turns_witness:
  "\<exists>s'. computes demo_turns 3 s' \<and> current s' = Some 0 \<and> pcbs_in (q_view s') (Ready 2) = [1]"
proof -
  note d = demo_turns_ok
  from turns_go_on [OF d(1,2,4), of 3] d(3) obtain s' where s': "computes demo_turns 3 s'" by auto
  have "elapsed 3 (quantum (pcbs demo_turns (hd [1, 0]))) = 3" using d(5) by (simp add: elapsed_def)
  with round_robin_turns [OF d(1,2,3,4) _ s'] s' show ?thesis by (intro exI [of _ s']) simp
qed

text \<open>
  C16: a process that waits at the highest level that has any does get the processor, as long as no other event
  comes in between: when in the next \<open>3 * j\<close> ticks no sleeper wakes up and no disk request is due, and nothing but ticks
  and user code happens, the one at position \<open>j\<close> in the order of the turns runs after at most \<open>3 * j\<close> ticks, each of which returns.
\<close>
theorem ready_process_runs:
  assumes "kernel_ok i s" "turns l C s" "quantum (pcbs s (hd C)) \<le> QUANTUM_DEFAULT"
    and "undisturbed (3 * j) s" "j < length C"
  shows "\<exists>n \<le> 3 * j. (\<exists>s'. computes s n s') \<and> (\<forall>s'. computes s n s' \<longrightarrow> running (C ! j) s')"
proof -
  let ?q = "quantum (pcbs s (hd C))"
  define n where "n = 3 * j - (unat QUANTUM_DEFAULT - unat ?q)"
  have "unat ?q \<le> 2" using assms(3) by (simp add: word_le_nat_alt)
  then have n: "n \<le> 3 * j" "elapsed n ?q div 3 = j" by (cases "j = 0"; simp add: n_def elapsed_def)+
  have "running (C ! j) s'" if "computes s n s'" for s'
  proof -
    have t: "turns l (rotate j C) s'" "kernel_ok i s'"
      using turns_taken [OF that assms(1,2,4) n(1) assms(3)] n(2) by simp_all
    have "C \<noteq> []" using assms(5) by auto
    then have "hd (rotate j C) = C ! j" using assms(5) by (simp add: hd_rotate_conv_nth)
    then show ?thesis using turns_running(1) [OF t(2,1)] by simp
  qed
  then show ?thesis using turns_go_on [OF assms(1,2,4,3) n(1)] n(1) by blast
qed

theorem ready_process_runs_witness:
  "\<exists>n \<le> 3. (\<exists>s'. computes demo_turns n s' \<and> current s' = Some 0)"
proof -
  note d = demo_turns_ok
  have "undisturbed (3 * 1) demo_turns" using d(4) by simp
  from ready_process_runs [OF d(1-3) this] show ?thesis by (auto dest: runningD(1))
qed


section \<open>System calls\<close>

text \<open>
  \<open>_sys_sleep\<close> with a time that is not 0 gives the caller its time to wake up (the argument
  cut to sixteen bits, in ticks, added to the system time), puts it in the sleep queue behind
  everyone who wakes up at that time or earlier, and runs the next ready process.
\<close>
lemma sleep_queues_by_time:
  assumes "running cur s" "idle_ready i s" "env_ok s"
    and "(ucast (sys_arg c 0 s) :: u16) \<noteq> 0"
    and "w = system_time s + ucast (ucast (sys_arg c 0 s) :: u16) * timer_ticks_per_second lk"
  shows "\<exists>p rest s'. ready_of s = p # rest \<and> sys_sleep lk c s = Inr s' \<and> running p s' \<and>
     q_view s' Sleeping = insert_by fst (w, Some (Pcb cur)) (q_view s Sleeping) \<and>
     pcbs s' cur = (pcbs s cur)\<lparr>wakeup := w, status := PROC_SLEEPING\<rparr> \<and>
     ready_seq (q_view s') = rest"
  using sys_sleep_effect [OF assms] by metis

text \<open>
  \<open>_sys_exit\<close> gives the caller's PCB and stack to the queues of free ones, behind what is free
  already and before the zombies that \<open>_dispatch\<close> meets, and the next process runs.
\<close>
lemma exit_frees_caller:
  assumes "running cur s" "idle_ready i s" "env_ok s"
  shows "\<exists>p rest s'. ready_of s = p # rest \<and> sys_exit c s = Inr s' \<and> running p s' \<and> idle_ok i s' \<and>
     pcbs_in (q_view s') Free_pcbs = pcbs_in (q_view s) Free_pcbs @ cur # zombies_of s \<and>
     stacks_in (q_view s') = stacks_in (q_view s) @ map (stack_idx (pcbs s)) (cur # zombies_of s) \<and>
     ready_seq (q_view s') = rest \<and> status (pcbs s' cur) = PROC_FREE"
  unfolding sys_exit_def using cleanup_current_dispatch [OF assms] by metis

text \<open>
  \<open>_sys_kill\<close> of another process than the idle one marks the first active PCB with that pid as a
  zombie, returns the status it had, and leaves it in the queue it is in; if there is none it
  returns -1 and changes nothing else.
\<close>
lemma kill_marks_zombie:
  assumes "running cur s" and "p = ucast (sys_arg c 0 (ctx_set c CTX_EAX (-1) s))"
    and "p \<noteq> 0" "p \<noteq> pid (pcbs s cur)"
  shows "\<exists>s'. sys_kill c s = Inr s' \<and> q_view s' = q_view s \<and> current s' = current s \<and>
     (case kill_target p s of
        None \<Rightarrow> pcbs s' = pcbs s \<and> ctx_get c CTX_EAX s' = -1 \<and> (\<forall>j < MAX_PROCS. pid (pcbs s j) = p \<longrightarrow> status (pcbs s j) \<le> PROC_NEW)
      | Some j \<Rightarrow> pid (pcbs s j) = p \<and> PROC_NEW < status (pcbs s j) \<and>
          pcbs s' = (pcbs s)(j := (pcbs s j)\<lparr>status := PROC_ZOMBIE\<rparr>) \<and>
          ctx_get c CTX_EAX s' = ucast (status (pcbs s j)))"
proof (cases "kill_target p s")
  case None
  then have "status (pcbs s j) \<le> PROC_NEW" if "j < MAX_PROCS" "pid (pcbs s j) = p" for j
    using that by (auto simp: kill_target_def find_None_iff not_less)
  with None show ?thesis
    unfolding sys_kill_other [OF assms] by (simp add: ctx_get_def)
next
  case (Some j)
  with kill_target_SomeD [OF Some] show ?thesis
    unfolding sys_kill_other [OF assms] by (simp add: ctx_get_def)
qed

text \<open>
  C17: a process that is killed while it sleeps is not dead. \<open>kill\<close> by another process makes it a zombie and leaves it in
  the sleep queue; when it is killed in the last tick before it is due, the tick that wakes it up makes
  it a process as any other, which runs at once or is ready. The device's part is that a disk request
  that is due at this tick is one that can be served.
\<close>
theorem killed_sleeper_lives:
  assumes "kernel_ok i s" "p = ucast (sys_arg c 0 (ctx_set c CTX_EAX (-1) s))" "p \<noteq> 0" "current s = Some cur"
    and "p \<noteq> pid (pcbs s cur)" "kill_target p s = Some j" "(k, Some (Pcb j)) \<in> set (q_view s Sleeping)"
    and "k \<le> system_time s + 1" "service_ok (system_time s + 1) s"
  shows "\<exists>s1 s2. sys_kill c s = Inr s1 \<and> status (pcbs s1 j) = PROC_ZOMBIE \<and> q_view s1 Sleeping = q_view s Sleeping \<and>
    isr_clock s1 = Inr s2 \<and> status (pcbs s2 j) \<noteq> PROC_ZOMBIE \<and> (current s2 = Some j \<or> j \<in> set (ready_seq (q_view s2)))"
  using assms by (rule killed_sleeper_lives_on)

theorem killed_sleeper_lives_witness:
  "\<exists>s1 s2. sys_kill (1, 900) (demo\<lparr>system_time := 4, stacks := \<lambda>_ _. 2\<rparr>) = Inr s1 \<and> status (pcbs s1 2) = PROC_ZOMBIE \<and>
     isr_clock s1 = Inr s2 \<and> status (pcbs s2 2) \<noteq> PROC_ZOMBIE"
proof -
  let ?t = "demo\<lparr>system_time := 4, stacks := \<lambda>_ _. 2\<rparr>"
  have same: "same_procs demo ?t" "same_sio demo ?t" by (simp_all add: same_procs_def same_sio_def)
  note c = same_procs_cong [OF same(1)]
  have "kernel_ok 0 ?t" using kernel_ok_demo kernel_ok_cong [OF same] by simp
  moreover have "2 = (ucast (sys_arg (1, 900) 0 (ctx_set (1, 900) CTX_EAX (-1) ?t)) :: u16)"
    by (simp add: sys_arg_def ctx_set_def)
  moreover have "current ?t = Some 1" by simp
  moreover have "(2 :: u16) \<noteq> pid (pcbs ?t 1)" by (simp add: demo_pcb_def)
  moreover have "kill_target 2 ?t = Some 2" by (simp add: kill_target_def demo_pcb_def upt_rec)
  moreover have "(5, Some (Pcb 2)) \<in> set (q_view ?t Sleeping)" by (simp add: c)
  moreover have "5 \<le> system_time ?t + 1" by simp
  moreover have "service_ok (system_time ?t + 1) ?t" by (simp add: service_ok_def c)
  ultimately show ?thesis using killed_sleeper_lives [of 0 ?t 2 "(1, 900)" 1 2 5] by (simp del: One_nat_def) blast
qed

text \<open>
  \<open>_spawn\<close> with a level below the number of levels takes the first free PCB and the first free
  stack, gives the new process the next pid, the caller as its parent, a stack from which it
  starts at \<open>fcn\<close> and returns to \<open>exit\<close>, and the end of the ready queue of its level; the
  caller gets the pid and goes behind the others of its own level.
\<close>
lemma spawn_starts_process:
  assumes "running cur s" "idle_ok i s" "env_ok s"
    and "pcbs_in (q_view s) Free_pcbs = j # js" "stacks_in (q_view s) = stk # sts"
    and "unat lvl < MLQ_LEVELS"
  shows "\<exists>t s'. spawn lk c fcn lvl s = Inr s' \<and> dispatch t = Inr s' \<and> kernel_ok i s' \<and>
     next_pid t = next_pid s + 1 \<and>
     pcbs t = (pcbs s)
       (j := (new_pcb stk (next_pid s) lvl)\<lparr>ppid := pid (pcbs s cur), status := PROC_READY\<rparr>,
        cur := (pcbs s cur)\<lparr>status := PROC_READY\<rparr>) \<and>
     q_view t = enq (Ready (unat (level (pcbs s cur)))) cur (enq (Ready (unat lvl)) j
       (deq Free_stacks (deq Free_pcbs (q_view s)))) \<and>
     ctx_get c CTX_EAX t = ucast (next_pid s) \<and>
     (fst c \<noteq> stk \<longrightarrow> (\<forall>w < STACK_SIZE. stacks t stk w = new_stack lk fcn w))"
proof -
  obtain t s' where t: "spawn lk c fcn lvl s = Inr s'" "dispatch t = Inr s'" "kernel_ok i s'"
    "next_pid t = next_pid s + 1"
    "pcbs t = (pcbs s)
       (j := (new_pcb stk (next_pid s) lvl)\<lparr>ppid := pid (pcbs s cur), status := PROC_READY\<rparr>,
        cur := (pcbs s cur)\<lparr>status := PROC_READY\<rparr>)"
    "q_view t = enq (Ready (unat (level (pcbs s cur)))) cur (enq (Ready (unat lvl)) j
       (deq Free_stacks (deq Free_pcbs (q_view s))))"
    "stacks t = stacks (ctx_set c CTX_EAX (ucast (next_pid s)) (snd (make_proc lk j stk fcn lvl s)))"
    by (rule spawn_ok [OF assms])
  moreover have "ctx_get c CTX_EAX t = ucast (next_pid s)" by (simp add: ctx_get_def t(7))
  moreover have "stacks t stk w = new_stack lk fcn w" if "fst c \<noteq> stk" "w < STACK_SIZE" for w
    using that(1) make_proc_stack [OF that(2)] by (simp add: t(7))
  ultimately show ?thesis by blast
qed

text \<open>
  Without a free PCB or without a free stack \<open>_spawn\<close> gives the caller -1, and the caller runs
  on: the same PCBs are free as before, no pid is used up, and no other process changes.
\<close>
lemma spawn_without_room:
  assumes "running cur s" "idle_ok i s" "env_ok s"
    and "pcbs_in (q_view s) Free_pcbs = [] \<or> stacks_in (q_view s) = []"
  shows "\<exists>t. spawn lk c fcn lvl s = Inr (ctx_set c CTX_EAX (-1) t) \<and> kernel_ok i t \<and> current t = Some cur \<and>
     set (pcbs_in (q_view t) Free_pcbs) = set (pcbs_in (q_view s) Free_pcbs) \<and> next_pid t = next_pid s \<and>
     (\<forall>q. q \<noteq> Free_pcbs \<longrightarrow> q_view t q = q_view s q) \<and>
     (\<forall>k. k \<notin> set (pcbs_in (q_view s) Free_pcbs) \<longrightarrow> pcbs t k = pcbs s k)"
proof (cases "pcbs_in (q_view s) Free_pcbs")
  case Nil
  with spawn_no_pcb [OF assms(1) Nil] assms(1-3) runningD(1) [OF assms(1)] show ?thesis
    by (auto intro: kernel_okI)
next
  case (Cons j js)
  with assms(4) have "stacks_in (q_view s) = []" by simp
  from spawn_no_stack [OF assms(1-3) Cons this, where lk = lk and c = c and fcn = fcn and lvl = lvl] Cons show ?thesis by auto
qed

text \<open>
  C18: with a level out of range \<open>_spawn\<close> loses a PCB and a stack: \<open>_schedule\<close> refuses the new
  process and \<open>_spawn\<close> does not look at the status, so the caller gets a pid while the PCB and
  the stack are in no queue and owned by nobody.
\<close>
theorem spawn_bad_level_loses:
  assumes "running cur s" "idle_ok i s" "env_ok s"
    and "pcbs_in (q_view s) Free_pcbs = j # js" "stacks_in (q_view s) = stk # sts"
    and "MLQ_LEVELS \<le> unat lvl"
  shows "\<exists>t s'. spawn lk c fcn lvl s = Inr s' \<and> dispatch t = Inr s' \<and>
     ctx_get c CTX_EAX t = ucast (next_pid s) \<and> pid (pcbs t j) = next_pid s \<and>
     j \<notin> set (pcbs_in (q_view t) Free_pcbs) \<and> (\<forall>q \<in> set live_queues. j \<notin> set (pcbs_in (q_view t) q)) \<and>
     stk \<notin> set (stacks_in (q_view t))"
proof -
  obtain t s' where t: "spawn lk c fcn lvl s = Inr s'" "dispatch t = Inr s'"
    "pcbs t = (pcbs s)
       (j := (new_pcb stk (next_pid s) lvl)\<lparr>ppid := pid (pcbs s cur)\<rparr>,
        cur := (pcbs s cur)\<lparr>status := PROC_READY\<rparr>)"
    "kinv [] [j] [stk] t"
    "stacks t = stacks (ctx_set c CTX_EAX (ucast (next_pid s)) (snd (make_proc lk j stk fcn lvl s)))"
    by (rule spawn_bad_level [OF assms])
  have "j \<noteq> cur"
    using runningD(2) [OF assms(1)] assms(4) kinvD(4) owned_held(3) by (metis list.set_intros(1))
  then have "pid (pcbs t j) = next_pid s" by (simp add: t(3) new_pcb_def)
  moreover have "j \<notin> set (pcbs_in (q_view t) Free_pcbs)" "j \<notin># live (q_view t)"
    using owned_fresh [OF kinvD(4) [OF t(4)]] by simp_all
  moreover have "stk \<notin> set (stacks_in (q_view t))"
  proof -
    have "mset (stacks_in (q_view t)) + image_mset (stack_idx (pcbs t)) (live (q_view t)) + {#stk#}
        \<subseteq># mset_set {..<MAX_PROCS}" using kinvD(4) [OF t(4)] by (simp add: owned_def)
    moreover have "mset (stk # stacks_in (q_view t)) \<subseteq>#
        mset (stacks_in (q_view t)) + image_mset (stack_idx (pcbs t)) (live (q_view t)) + {#stk#}" by simp
    ultimately have "mset (stk # stacks_in (q_view t)) \<subseteq># mset_set {..<MAX_PROCS}"
      using subset_mset.order_trans by blast
    from sub_mset_distinct [OF this] show ?thesis by simp
  qed
  moreover have "ctx_get c CTX_EAX t = ucast (next_pid s)" by (simp add: ctx_get_def t(5))
  ultimately show ?thesis using t(1,2) in_live by blast
qed

theorem spawn_bad_level_loses_witness:
  "\<exists>t s'. spawn demo_lk (1, 1004) 0x5000 3 demo = Inr s' \<and> dispatch t = Inr s' \<and>
     ctx_get (1, 1004) CTX_EAX t = 4 \<and> 5 \<notin> set (pcbs_in (q_view t) Free_pcbs)"
proof -
  have v: "pcbs_in (q_view demo) Free_pcbs = 5 # []" "stacks_in (q_view demo) = 5 # []"
    "MLQ_LEVELS \<le> unat (3 :: u8)" by (simp_all add: pcbs_in_def stacks_in_def)
  from spawn_bad_level_loses [OF running_demo idle_demo(2) env_ok_demo v, where lk = demo_lk and c = "(1, 1004)" and fcn = "0x5000"]
  obtain t s' where "spawn demo_lk (1, 1004) 0x5000 3 demo = Inr s'" "dispatch t = Inr s'"
    "ctx_get (1, 1004) CTX_EAX t = ucast (next_pid demo)" "5 \<notin> set (pcbs_in (q_view t) Free_pcbs)" by blast
  then show ?thesis by (intro exI [of _ t] exI [of _ s']) simp
qed

text \<open>
  \<open>_make_proc\<close> clears the PCB and fills in its stack, pid, level and context, takes the next
  pid, and makes a stack whose only words that are not 0 are the return address \<open>exit\<close> in the
  last word but one and, right before it, a context with the segment selectors, the flags and the
  entry point.
\<close>
lemma new_process_stack:
  assumes "make_proc lk i stk fcn lvl s = (p, s')"
  shows "p = next_pid s \<and> next_pid s' = next_pid s + 1 \<and>
     pcbs s' = (pcbs s)(i := zero_pcb\<lparr>stack := Some stk, pid := p, level := lvl, context_of := Some (stk, 1004)\<rparr>) \<and>
     (\<forall>w < STACK_SIZE. stacks s' stk w =
        (if w = 1004 then GDT_STACK else if w \<in> {1005, 1006, 1007, 1008} then GDT_DATA
         else if w = 1019 then fcn else if w = 1020 then GDT_CODE else if w = 1021 then 0x202
         else if w = 1022 then exit_addr lk else 0)) \<and>
     (\<forall>k. k \<noteq> stk \<longrightarrow> stacks s' k = stacks s k)"
proof -
  have p: "p = fst (make_proc lk i stk fcn lvl s)" "s' = snd (make_proc lk i stk fcn lvl s)"
    using assms by simp_all
  show ?thesis unfolding p by (auto simp: make_proc_eq make_proc_stacks new_pcb_def)
qed

section \<open>The serial line\<close>

text \<open>
  \<open>_sys_read\<close> returns the oldest character in the input buffer; if there is none, the caller
  goes to the end of the queue of readers, and the next process runs.
\<close>
lemma read_takes_or_waits:
  assumes "running cur s" "idle_ready i s" "env_ok s"
  shows "(\<forall>ch chs. in_data s = ch # chs \<longrightarrow>
       (\<exists>t. sys_read c s = Inr (ctx_set c CTX_EAX (ucast ch) t) \<and> same_procs s t \<and> in_data t = chs)) \<and>
     (in_data s = [] \<longrightarrow> (\<exists>p rest s'. ready_of s = p # rest \<and> sys_read c s = Inr s' \<and> running p s' \<and>
       pcbs_in (q_view s') Reading = pcbs_in (q_view s) Reading @ [cur] \<and>
       pcbs s' cur = (pcbs s cur)\<lparr>status := PROC_BLOCKED\<rparr> \<and> ready_seq (q_view s') = rest))"
proof (intro conjI allI impI)
  fix ch chs
  assume "in_data s = ch # chs"
  from sys_read_char [OF assms(3) this]
  show "\<exists>t. sys_read c s = Inr (ctx_set c CTX_EAX (ucast ch) t) \<and> same_procs s t \<and> in_data t = chs" by blast
next
  assume "in_data s = []"
  from sys_read_wait [OF assms this]
  show "\<exists>p rest s'. ready_of s = p # rest \<and> sys_read c s = Inr s' \<and> running p s' \<and>
       pcbs_in (q_view s') Reading = pcbs_in (q_view s) Reading @ [cur] \<and>
       pcbs s' cur = (pcbs s cur)\<lparr>status := PROC_BLOCKED\<rparr> \<and> ready_seq (q_view s') = rest" by metis
qed

text \<open>
  A character that comes in while a process waits for one goes to the first of them, as the
  value its system call returns (a carriage return as a line feed), and makes it ready; the
  input buffer does not change.
\<close>
lemma received_char_wakes_reader:
  assumes "kinv H F K s" "pcbs_in (q_view s) Reading = p # ps"
  shows "\<exists>c s'. context_of (pcbs s p) = Some c \<and> sio_rx ch s = Inr s' \<and> kinv H F K s' \<and>
     ctx_get c CTX_EAX s' = (if ch = 13 then 10 else ch) AND 0xff \<and>
     pcbs_in (q_view s') Reading = ps \<and>
     pcbs_in (q_view s') (Ready (unat (level (pcbs s p)))) = pcbs_in (q_view s) (Ready (unat (level (pcbs s p)))) @ [p] \<and>
     status (pcbs s' p) = PROC_READY \<and> in_data s' = in_data s"
proof -
  from sio_rx_wakes [OF assms, of ch] obtain c s' where s': "context_of (pcbs s p) = Some c"
    "sio_rx ch s = Inr s'" "kinv H F K s'"
    "q_view s' = (q_view s)(Reading := tl (q_view s Reading), Ready (unat (level (pcbs s p))) :=
       q_view s (Ready (unat (level (pcbs s p)))) @ [(0, Some (Pcb p))])"
    "pcbs s' = (pcbs s)(p := (pcbs s p)\<lparr>status := PROC_READY\<rparr>)"
    "stacks s' = stacks (ctx_set c CTX_EAX ((if ch = 13 then 10 else ch) AND 0xff) s)" "k_frame s s'" by blast
  have "map (\<lambda>e. pcb_of (snd e)) (tl (q_view s Reading)) = ps" using assms(2) by (simp add: pcbs_in_def map_tl)
  then show ?thesis
    using s'(1-3,5) k_frame_fields [OF s'(7)]
    by (intro exI [of _ c] exI [of _ s']) (simp add: s'(4,6) ctx_get_def pcbs_in_def in_data_def)
qed

text \<open>
  C19: the characters that come in while no process waits are read in the order they came in,
  with carriage returns as line feeds, as long as the buffer has places that were never used
  since it was last empty.
\<close>
theorem serial_input_in_order:
  assumes "in_ok s" "q_isempty Reading s" "inlast s + length cs \<le> BUF_SIZE"
  shows "\<exists>t s'. put_all (\<lambda>c. sio_rx (ucast c)) cs s = Inr t \<and>
     get_n in_get (length (in_data s) + length cs) t =
       Inr (in_data s @ map (\<lambda>c. if c = 13 then 10 else c) cs, s') \<and> in_data s' = []"
proof -
  have t: "concat (map cr_to_lf cs) = map (\<lambda>c. if c = 13 then 10 else c) cs"
    by (induction cs) (auto simp: cr_to_lf_def)
  from inp.stream_order [of s cs] assms show ?thesis by (simp add: t)
qed

theorem serial_input_in_order_witness:
  "\<exists>t s'. put_all (\<lambda>c. sio_rx (ucast c)) [65 :: u8, 13, 66] demo_base = Inr t \<and> get_n in_get 3 t = Inr ([65, 10, 66], s')"
proof -
  have "in_ok demo_base" "inlast demo_base + length [65 :: u8, 13, 66] \<le> BUF_SIZE"
    by (simp_all add: in_ok_def demo_base_fields)
  moreover have "q_isempty Reading demo_base" by (simp add: q_isempty_view demo_base_queues)
  moreover have "in_data demo_base = []" by (simp add: in_data_def demo_base_fields)
  ultimately show ?thesis using serial_input_in_order [of demo_base "[65, 13, 66]"] by (auto simp: numeral_3_eq_3)
qed

text \<open>
  C20: while the line is busy, the characters written to it are sent in the order they were
  written, a line feed after a carriage return, as long as they fit into the output buffer.
\<close>
theorem serial_output_in_order:
  assumes "out_ok s" "sending s" "outlast s + length (concat (map lf_to_crlf cs)) \<le> BUF_SIZE"
  shows "\<exists>t s'. put_all (\<lambda>c. sio_write (ucast c)) cs s = Inr t \<and>
     get_n out_get (length (out_data s @ concat (map lf_to_crlf cs))) t =
       Inr (out_data s @ concat (map lf_to_crlf cs), s') \<and> out_data s' = []"
  using outp.stream_order [of s cs] assms by blast

theorem serial_output_in_order_witness:
  "\<exists>t s'. put_all (\<lambda>c. sio_write (ucast c)) [65 :: u8, 10] (demo\<lparr>sending := True\<rparr>) = Inr t \<and>
     get_n out_get 3 t = Inr ([65, 13, 10], s')"
proof -
  let ?s = "demo\<lparr>sending := True\<rparr>"
  have "out_ok ?s" "sending ?s" "outlast ?s + length (concat (map lf_to_crlf [65, 10])) \<le> BUF_SIZE"
    "out_data ?s = []" by (simp_all add: out_ok_def lf_to_crlf_def out_data_def)
  then show ?thesis using serial_output_in_order [of ?s "[65, 10]"] by (auto simp: lf_to_crlf_def numeral_3_eq_3)
qed

text \<open>
  C21: the guard of the input buffer counts the characters in it and not the places used: with the
  last place used, a character that comes in is dropped if none was read since, and otherwise is
  stored behind the end of the buffer.
\<close>
theorem serial_input_overrun:
  assumes "in_ok s" "q_isempty Reading s" "inlast s = BUF_SIZE"
  shows "sio_rx ch s = (if innext s = 0 then Inr s else Inl (Overrun ''inbuffer''))"
  using sio_rx_full [OF assms] sio_rx_overrun [OF assms] by simp

theorem serial_input_overrun_witness:
  "sio_rx 65 (demo_base\<lparr>innext := 1, inlast := 1024, incount := 1023\<rparr>) = Inl (Overrun ''inbuffer'')"
proof -
  let ?s = "demo_base\<lparr>innext := 1, inlast := 1024, incount := 1023\<rparr>"
  have "q_isempty Reading demo_base" by (simp add: q_isempty_view demo_base_queues)
  then have "q_isempty Reading ?s" by (simp add: q_isempty_def)
  moreover have "in_ok ?s" by (simp add: in_ok_def)
  ultimately show ?thesis using serial_input_overrun [of ?s 65] by simp
qed

section \<open>Queues and pools\<close>

text \<open>
  C22: with a free node, \<open>_q_insert\<close> succeeds and puts the element behind every element whose key
  is not greater if the queue has an ordering function, and at the end if it has none; it takes
  one node and changes no other queue, the keys of an ordered queue stay sorted, and all links
  and tail pointers are right again.  Without a free node it reports it and changes nothing.
\<close>
theorem queue_insert_places:
  assumes "q_wf s" "q_key s q p = Inr k"
  shows "if n_free s = 0 then q_insert q p s = Inr (STAT_ALLOC_FAIL, s)
     else \<exists>s'. q_insert q p s = Inr (STAT_SUCCESS, s') \<and> q_wf s' \<and> n_free s' = n_free s - 1 \<and>
       q_view s' = (q_view s)(q := (if q_ordered s q then insert_by fst (k, p) (q_view s q)
         else q_view s q @ [(k, p)])) \<and>
       (q_ordered s q \<longrightarrow> sorted (map fst (q_view s' q)))"
proof (cases "n_free s = 0")
  case True
  then show ?thesis using q_insert_full [OF assms(1)] by simp
next
  case False
  from q_insert_ok [OF assms(1) False assms(2)] obtain s' where
    s': "q_insert q p s = Inr (STAT_SUCCESS, s')" "q_wf s'" "q_frame s s'"
      "q_view s' = (q_view s)(q := q_place (q_ordered s q) (k, p) (q_view s q))" "n_free s' = n_free s - 1" by blast
  have "q_ordered s q \<longrightarrow> sorted (map fst (q_view s' q))"
    using view_sorted [OF s'(2), of q] q_frame_ordered [OF s'(3)] by simp
  then show ?thesis using False s' by (auto simp: q_place_def)
qed

theorem queue_insert_places_witness:
  "\<exists>s'. q_insert Sleeping (Some (Pcb 1)) demo = Inr (STAT_SUCCESS, s') \<and>
     q_view s' Sleeping = [(0, Some (Pcb 1)), (5, Some (Pcb 2))]"
proof -
  note d = kinvD [OF demo_steps(4)]
  have k: "q_key demo Sleeping (Some (Pcb 1)) = Inr 0" "q_ordered demo Sleeping"
    using d(2) by (simp_all add: hashes_ok_def q_key_def q_ordered_def call_hash_def hash_sleep_def demo_pcb_def zero_pcb_def)
  have "n_free demo \<noteq> 0" using kinv_room [OF demo_steps(4)] by simp
  then show ?thesis using queue_insert_places [OF d(1) k(1)] k(2) by (auto simp del: fun_upd_apply) simp
qed

text \<open>
  \<open>_q_remove\<close> takes the first element out of a queue and gives its node back; from an empty
  queue it takes nothing.  \<open>_q_remove_if_le\<close> does so only if the key of the first element is not
  greater than the limit.
\<close>
lemma queue_remove_takes_first:
  assumes "q_wf s"
  shows "case q_view s q of
       [] \<Rightarrow> q_remove q s = (None, s) \<and> q_remove_if_le q lim s = (None, s)
     | (k, p) # es \<Rightarrow> (\<exists>s'. q_remove q s = (p, s') \<and> q_wf s' \<and> q_view s' = (q_view s)(q := es) \<and>
         n_free s' = Suc (n_free s) \<and>
         q_remove_if_le q lim s = (if k \<le> lim then (p, s') else (None, s)))"
proof (cases "q_view s q")
  case Nil
  then show ?thesis using q_remove_empty [OF assms Nil] by (simp add: q_remove_if_le_eq [OF assms])
next
  case (Cons e es)
  obtain k p where e: "e = (k, p)" by (cases e)
  from q_remove_ok [OF assms Cons [unfolded e]] show ?thesis
    unfolding Cons e by (auto simp: q_remove_if_le_eq [OF assms] Cons e)
qed

text \<open>
  What is put into an empty queue without an ordering function comes out in the order it went
  in, and the pool of nodes is then as full as before.
\<close>
lemma queue_is_fifo:
  assumes "q_wf s" "q_view s q = []" "\<not> q_ordered s q" "length ps \<le> n_free s"
  shows "\<exists>t s'. insert_all q_insert q ps s = Inr (replicate (length ps) STAT_SUCCESS, t) \<and>
     remove_n q_remove q (length ps) t = (ps, s') \<and> q_view s' = q_view s \<and> n_free s' = n_free s"
proof -
  have "q_key s q p = Inr 0" for p using assms(3) by (auto simp: q_ordered_def q_key_def)
  from kq.fifo [OF assms this] show ?thesis .
qed

text \<open>
  The processes put into an empty sleep queue come out sorted by their times to wake up, those
  with the same time in the order they went in.
\<close>
lemma sleep_queue_sorts:
  assumes "q_wf s" "q_view s Sleeping = []" "hashfcn (queues s Sleeping) = Some Hash_sleep"
    and "length ps \<le> n_free s"
  shows "\<exists>t s'. insert_all q_insert Sleeping (map (\<lambda>i. Some (Pcb i)) ps) s =
       Inr (replicate (length ps) STAT_SUCCESS, t) \<and>
     remove_n q_remove Sleeping (length ps) t =
       (map (\<lambda>i. Some (Pcb i)) (sort_key (\<lambda>i. wakeup (pcbs s i)) ps), s')"
proof -
  let ?c = "\<lambda>i. Some (Pcb i)" and ?w = "\<lambda>i. wakeup (pcbs s i)"
  have key: "q_key s Sleeping p = Inr ((\<lambda>p. ?w (pcb_of p)) p)" if "p \<in> set (map ?c ps)" for p
    using that assms(3) by (auto simp: q_key_def call_hash_def hash_sleep_def)
  have "q_ordered s Sleeping" "length (map ?c ps) \<le> n_free s"
    using assms(3,4) by (simp_all add: q_ordered_def)
  from kq.priority [OF assms(1,2) this key] show ?thesis
    by (auto simp: sort_key_map comp_def)
qed

text \<open>
  After \<open>_stack_init\<close> every user stack is cleared and free: \<open>_stack_alloc\<close> gives each of them
  out once, in the order of the array, and then returns NULL.
\<close>
lemma stacks_after_init:
  assumes "q_wf s" "q_view s Free_stacks = []" "MAX_PROCS \<le> n_free s"
  shows "\<exists>t u. stack_init s = Inr t \<and> (\<forall>i < MAX_PROCS. \<forall>w < STACK_SIZE. stacks t i w = 0) \<and>
     alloc_n stack_alloc (Suc MAX_PROCS) t = Inr (map Some [0..<MAX_PROCS] @ [None], u)"
proof -
  from stack_init_ok [OF assms] obtain t where t: "stack_init s = Inr t" "stack_pool t"
    "free_stacks t = [0..<MAX_PROCS]" "\<forall>i < MAX_PROCS. \<forall>w < STACK_SIZE. stacks t i w = 0" by blast
  from stack_pool.alloc_exhausted [OF t(2)] t(1,4) show ?thesis unfolding t(3) by auto
qed

text \<open>
  A PCB that is given back is given out again after all that were free before, each of them
  once, and it is marked free until then.
\<close>
lemma pcbs_recycled:
  assumes "kinv H (i # F) K s"
  shows "\<exists>t u. pcb_dealloc i s = Inr (STAT_SUCCESS, t) \<and> status (pcbs t i) = PROC_FREE \<and>
     alloc_n pcb_alloc (length (pcbs_in (q_view s) Free_pcbs) + 2) t =
       Inr (map Some (pcbs_in (q_view s) Free_pcbs @ [i]) @ [None], u)"
proof -
  from kinv_pcb_dealloc [OF assms] obtain t where t: "pcb_dealloc i s = Inr (STAT_SUCCESS, t)" "kinv H F K t"
    "pcbs t = (pcbs s)(i := (pcbs s i)\<lparr>status := PROC_FREE\<rparr>)"
    "q_view t = (q_view s)(Free_pcbs := q_view s Free_pcbs @ [(0, Some (Pcb i))])" by blast
  note p = kinv_pools [OF t(2)]
  have "free_pcbs t = pcbs_in (q_view s) Free_pcbs @ [i]" by (simp add: p(3) t(4) pcbs_in_def)
  with pcb_pool.alloc_exhausted [OF p(1)] t(1,3) show ?thesis by auto
qed

text \<open>
  \<open>_sys_getpidlist\<close> returns the number of active processes, and stores the pids of the first
  of them in the order of the table, as many as the caller's buffer holds and no more.
\<close>
lemma pid_list_is_cut:
  assumes "k = min (unat (sys_arg c 1 s)) (length (active s))"
  shows "sys_getpidlist c s =
     Inr (ctx_set c CTX_EAX (of_nat (length (active s)))
       (store16 (sys_arg c 0 s) (map (\<lambda>i. pid (pcbs s i)) (take k (active s))) s))"
  unfolding assms by (simp add: sys_getpidlist_eq Let_def)

section \<open>Memory\<close>

text \<open>
  C23: the blocks that \<open>_shm_malloc\<close> gives out for sizes below \<open>2 ^ 31\<close>, from \<open>_mem_init\<close> on, all lie
  in the 512 bytes of the shared memory and do not overlap.
\<close>
theorem shm_blocks_disjoint:
  assumes "memory_addr lk \<noteq> 0" "unat (memory_addr lk) + 512 < 2 ^ 31" "\<forall>n \<in> set ns. unat n < 2 ^ 31"
    and "malloc_all lk ns (mem_init lk s) = (bs, s')"
  shows "(\<forall>b \<in> set bs. block b \<subseteq> {unat (memory_addr lk)..<unat (memory_addr lk) + 512}) \<and>
    (\<forall>i j. i < j \<and> j < length bs \<longrightarrow> block (bs ! i) \<inter> block (bs ! j) = {})"
proof -
  have f: "free_ptr (mem_init lk s) = memory_addr lk" by (simp add: mem_init_def Let_def c_puts_def)
  have "mem_ok lk (mem_init lk s)" using assms(1,2) by (simp add: mem_ok_def f)
  from malloc_all_blocks [OF this assms(3,2,4)] show ?thesis unfolding f .
qed

theorem shm_blocks_disjoint_witness:
  "\<exists>bs s'. malloc_all demo_lk [200, 200, 200, 100] (mem_init demo_lk demo) = (bs, s') \<and>
     block (bs ! 0) \<inter> block (bs ! 1) = {} \<and> length bs = 4"
proof -
  obtain bs s' where m: "malloc_all demo_lk [200, 200, 200, 100] (mem_init demo_lk demo) = (bs, s')"
    by (cases "malloc_all demo_lk [200, 200, 200, 100] (mem_init demo_lk demo)")
  then have len: "length bs = 4" by (auto split: prod.splits)
  have "memory_addr demo_lk \<noteq> 0" "unat (memory_addr demo_lk) + 512 < 2 ^ 31"
    "\<forall>n \<in> set [200, 200, 200, 100 :: u32]. unat n < 2 ^ 31" by (simp_all add: demo_lk_def)
  from shm_blocks_disjoint [OF this m] m len show ?thesis by auto
qed

text \<open>
  C24: a size that wraps the free pointer around is accepted, and moves it back. So a block can be given out
  twice: after \<open>_shm_malloc(n)\<close> for an \<open>n\<close> that fits the pool, the size \<open>-n\<close> is accepted too,
  and the next \<open>_shm_malloc(n)\<close> returns the block that has just been given out.
\<close>
theorem shm_malloc_goes_back:
  assumes "mem_ok lk s"
  shows "(unat (free_ptr s + sz) < unat (free_ptr s) \<longrightarrow>
      shm_malloc lk sz s = (free_ptr s, s\<lparr>free_ptr := free_ptr s + sz\<rparr>)) \<and>
    (unat (free_ptr s) + unat n \<le> unat (memory_addr lk) + 512 \<longrightarrow>
      (\<exists>t. shm_malloc lk n s = (free_ptr s, t) \<and> shm_malloc lk (- n) t = (free_ptr s + n, s) \<and>
         fst (shm_malloc lk n (snd (shm_malloc lk (- n) t))) = fst (shm_malloc lk n s)))"
proof -
  have a: "shm_malloc lk sz s = (free_ptr s, s\<lparr>free_ptr := free_ptr s + sz\<rparr>)"
    if "unat (free_ptr s + sz) < unat (free_ptr s)" using shm_malloc_wraps [OF assms that] .
  have m: "unat (memory_addr lk + 512) = unat (memory_addr lk) + 512"
    using assms unat_add_lem [of "memory_addr lk" 512] by (simp add: mem_ok_def)
  have b: "shm_malloc lk n s = (free_ptr s, s\<lparr>free_ptr := free_ptr s + n\<rparr>)"
    "shm_malloc lk (- n) (s\<lparr>free_ptr := free_ptr s + n\<rparr>) = (free_ptr s + n, s)"
    if n: "unat (free_ptr s) + unat n \<le> unat (memory_addr lk) + 512"
  proof -
    have "unat (free_ptr s + n) = unat (free_ptr s) + unat n"
      using n assms unat_add_lem [of "free_ptr s" n] by (simp add: mem_ok_def)
    then have "\<not> memory_addr lk + 512 < free_ptr s + n" "\<not> memory_addr lk + 512 < free_ptr s"
      using n m by (simp_all add: word_less_nat_alt)
    then show "shm_malloc lk n s = (free_ptr s, s\<lparr>free_ptr := free_ptr s + n\<rparr>)"
      "shm_malloc lk (- n) (s\<lparr>free_ptr := free_ptr s + n\<rparr>) = (free_ptr s + n, s)"
      by (simp_all add: shm_malloc_def Let_def)
  qed
  show ?thesis using a b by auto
qed

theorem shm_malloc_goes_back_witness:
  "\<exists>t. shm_malloc demo_lk (-16) (demo\<lparr>free_ptr := 0x30040\<rparr>) = (0x30040, demo\<lparr>free_ptr := 0x30030\<rparr>) \<and>
     shm_malloc demo_lk 16 (demo\<lparr>free_ptr := 0x30040\<rparr>) = (0x30040, t) \<and>
     shm_malloc demo_lk (-16) t = (0x30050, demo\<lparr>free_ptr := 0x30040\<rparr>)"
proof -
  let ?s = "demo\<lparr>free_ptr := 0x30040\<rparr>"
  have ok: "mem_ok demo_lk ?s" by (simp add: mem_ok_def demo_lk_def)
  have "unat (free_ptr ?s + (-16)) < unat (free_ptr ?s)"
    "unat (free_ptr ?s) + unat (16 :: u32) \<le> unat (memory_addr demo_lk) + 512" by (simp_all add: demo_lk_def)
  with shm_malloc_goes_back [OF ok, of "-16" 16] show ?thesis by auto
qed

text \<open>
  \<open>_strcpy\<close> to a place that does not overlap the string copies it with its null byte, changes no
  other byte, and returns the address behind the null byte it wrote (not the start of the copy).
\<close>
lemma strcpy_copies_string:
  assumes "cstring src cs s" "length cs < fuel" "Suc (length cs) < 2 ^ 32"
    and "disjoint_blocks dst src (of_nat (Suc (length cs)))"
  shows "\<exists>s'. strcpy fuel dst src s = Inr (dst + of_nat (length cs) + 1, s') \<and> cstring dst cs s' \<and>
    (\<forall>x. \<not> unat (x - dst) < Suc (length cs) \<longrightarrow> mem s' x = mem s x) \<and> s' = s\<lparr>mem := mem s'\<rparr>"
  using assms by (intro strcpy_ok) simp_all

text \<open>
  C25: \<open>_sys_shmat\<close> makes the caller a member of the segment and returns the address of its memory,
  while \<open>_sys_shmwrite\<close>, \<open>_sys_shmread\<close> and \<open>_sys_shmdt\<close> take the address they are given for that of
  the struct.  Called with what \<open>_sys_shmat\<close> returned, they look for the caller's pid in the memory
  of the segment; unless it happens to be there, they deny the access, return -1 and change
  no memory.
\<close>
theorem attached_segment_is_denied:
  assumes "current s = Some cur" "sys_arg c 0 s = ucast (shm_id (current_shms s) s)"
    and "shm_num_members (current_shms s) s < 2"
    and "apart (current_shms s) (shm_address (current_shms s) s)"
    and "pid (pcbs s cur) \<notin> {shm_current_pids (shm_address (current_shms s) s) 0 s,
              shm_current_pids (shm_address (current_shms s) s) 1 s}"
  shows "\<exists>t k. sys_shmat c s = Inr t \<and> k < 2 \<and> shm_current_pids (current_shms s) k t = pid (pcbs s cur) \<and>
     ctx_get c CTX_EAX t = shm_address (current_shms s) s \<and> current t = current s \<and> pcbs t = pcbs s \<and>
     (\<forall>call u d. call \<in> {sys_shmwrite, sys_shmread, sys_shmdt} \<and> mem u = mem t \<and> current u = Some cur \<and>
        pid (pcbs u cur) = pid (pcbs s cur) \<and> sys_arg d 0 u = ctx_get c CTX_EAX t \<longrightarrow> denied call d u)"
proof -
  obtain t k where t: "sys_shmat c s = Inr t" "k < 2" "ctx_get c CTX_EAX t = shm_address (current_shms s) s"
    "shm_current_pids (current_shms s) k t = pid (pcbs s cur)" "current t = current s" "pcbs t = pcbs s"
    "\<And>call d u. call \<in> {sys_shmwrite, sys_shmread, sys_shmdt} \<Longrightarrow> mem u = mem t \<Longrightarrow> current u = Some cur \<Longrightarrow>
       pid (pcbs u cur) = pid (pcbs s cur) \<Longrightarrow> sys_arg d 0 u = ctx_get c CTX_EAX t \<Longrightarrow> denied call d u"
    using shmat_then_denied [OF assms] by metis
  then show ?thesis by (intro exI [of _ t] exI [of _ k]) simp
qed

theorem attached_segment_is_denied_witness:
  "\<exists>s t u w. sys_shmat (1, 1000) s = Inr t \<and> ctx_get (1, 1000) CTX_EAX t = 0x5000 \<and>
     u = t\<lparr>stacks := (\<lambda>_ _. 0x5000)\<rparr> \<and> sys_shmwrite (1, 1000) u = Inr w \<and> ctx_get (1, 1000) CTX_EAX w = -1"
proof -
  define s where "s = st16 0x2010 7 (st32 0x2000 0x5000 (demo\<lparr>mem := (\<lambda>_. 0), current_shms := 0x2000, stacks := (\<lambda>_ _. 7)\<rparr>))"
  have f: "current_shms s = 0x2000" "current s = Some 1" "stacks s = (\<lambda>_ _. 7)" "pcbs s = pcbs demo"
    by (simp_all add: s_def st16_def st32_def)
  have m: "shm_address 0x2000 s = 0x5000" "shm_id 0x2000 s = 7" "shm_num_members 0x2000 s = 0"
    "shm_current_pids 0x5000 0 s = 0" "shm_current_pids 0x5000 1 s = 0"
    unfolding shm_field_defs ld32_def ld16_def s_def st16_def st32_def
    by (simp_all add: cat_split_16 cat_split_32) code_simp
  have a: "sys_arg (1, 1000) 0 s = ucast (shm_id (current_shms s) s)" by (simp add: f m sys_arg_def)
  have b: "shm_num_members (current_shms s) s < 2" "apart (current_shms s) (shm_address (current_shms s) s)"
    by (simp_all add: f m apart_def)
  have p: "pid (pcbs s 1) \<notin> {shm_current_pids (shm_address (current_shms s) s) 0 s,
      shm_current_pids (shm_address (current_shms s) s) 1 s}"
    unfolding f m by (simp add: demo_pcb_def)
  from attached_segment_is_denied [OF f(2) a b p] obtain t where
    t: "sys_shmat (1, 1000) s = Inr t" "ctx_get (1, 1000) CTX_EAX t = 0x5000" "current t = Some 1" "pcbs t = pcbs s"
      "\<forall>call u d. call \<in> {sys_shmwrite, sys_shmread, sys_shmdt} \<and> mem u = mem t \<and> current u = Some 1 \<and>
        pid (pcbs u 1) = pid (pcbs s 1) \<and> sys_arg d 0 u = ctx_get (1, 1000) CTX_EAX t \<longrightarrow> denied call d u"
    by (auto simp: f m)
  let ?u = "t\<lparr>stacks := (\<lambda>_ _. 0x5000)\<rparr>"
  have "denied sys_shmwrite (1, 1000) ?u" using t(2-4) by (intro t(5) [rule_format]) (simp add: sys_arg_def)
  with t(1,2) show ?thesis unfolding denied_def by blast
qed

text \<open>
  C26: with the address of the struct, a message that a member writes to the segment is what a member
  reads from it: \<open>_sys_shmwrite\<close> and then \<open>_sys_shmread\<close> return 1, and the string is in the reader's
  buffer, whatever else happened in between that left the memory alone.
\<close>
theorem shm_message_passes:
  assumes "Suc (length msg) < 2 ^ 32" "cstring src msg s"
    and "current s = Some p" "sys_arg c 0 s = a" "sys_arg c 1 s = src"
    and "pid (pcbs s p) \<in> {shm_current_pids a 0 s, shm_current_pids a 1 s}"
    and "shm_address a s = m" "n = of_nat (Suc (length msg))"
    and "disjoint_blocks m src n" "disjoint_blocks dst m n" "SHM_SIZEOF \<le> m - a" "n \<le> a - m"
  shows "\<exists>t. sys_shmwrite c s = Inr t \<and> ctx_get c CTX_EAX t = 1 \<and>
     (\<forall>u d q. mem u = mem t \<and> current u = Some q \<and> sys_arg d 0 u = a \<and> sys_arg d 1 u = dst \<and>
        pid (pcbs u q) \<in> {shm_current_pids a 0 s, shm_current_pids a 1 s} \<longrightarrow>
        (\<exists>v. sys_shmread d u = Inr v \<and> ctx_get d CTX_EAX v = 1 \<and> cstring dst msg v))"
  using message_passes [OF assms] by metis

theorem shm_message_passes_witness:
  "\<exists>s t v. sys_shmwrite (1, 1000) s = Inr t \<and>
     sys_shmread (1, 1000) (demo\<lparr>mem := mem t, stacks := (\<lambda>_ w. if w = 1019 then 0x2000 else 0x7000)\<rparr>) = Inr v \<and>
     cstring 0x7000 [72, 105] v"
proof -
  define s where "s = st16 0x2012 1 (st32 0x2000 0x5000 (demo\<lparr>mem := (\<lambda>_. 0)(0x6000 := 72, 0x6001 := 105),
     stacks := (\<lambda>_ w. if w = 1019 then 0x2000 else 0x6000)\<rparr>))"
  have f: "current s = Some 1" "stacks s = (\<lambda>_ w. if w = 1019 then 0x2000 else 0x6000)" "pcbs s = pcbs demo"
    by (simp_all add: s_def st16_def st32_def)
  have m: "shm_address 0x2000 s = 0x5000" "shm_current_pids 0x2000 0 s = 1"
    unfolding shm_field_defs ld32_def ld16_def s_def st16_def st32_def
    by (simp_all add: cat_split_16 cat_split_32) code_simp
  have c: "cstring 0x6000 [72, 105] s"
    unfolding cstring_Cons cstring_Nil by (simp add: s_def st16_def st32_def)
  have a: "sys_arg (1, 1000) 0 s = 0x2000" "sys_arg (1, 1000) 1 s = 0x6000" by (simp_all add: f sys_arg_def)
  have p: "pid (pcbs s 1) \<in> {shm_current_pids 0x2000 0 s, shm_current_pids 0x2000 1 s}"
    unfolding f m by (simp add: demo_pcb_def)
  have n: "(3 :: u32) = of_nat (Suc (length [72 :: u8, 105]))" "Suc (length [72 :: u8, 105]) < 2 ^ 32" by simp_all
  have d: "disjoint_blocks 0x5000 0x6000 3" "disjoint_blocks 0x7000 0x5000 3" "SHM_SIZEOF \<le> 0x5000 - 0x2000" "(3 :: u32) \<le> 0x2000 - 0x5000"
    by (simp_all add: disjoint_blocksI)
  from shm_message_passes [OF n(2) c f(1) a p m(1) n(1) d] obtain t where
    t: "sys_shmwrite (1, 1000) s = Inr t"
      "\<And>u d q. mem u = mem t \<Longrightarrow> current u = Some q \<Longrightarrow> sys_arg d 0 u = 0x2000 \<Longrightarrow> sys_arg d 1 u = 0x7000 \<Longrightarrow>
        pid (pcbs u q) \<in> {shm_current_pids 0x2000 0 s, shm_current_pids 0x2000 1 s} \<Longrightarrow>
        \<exists>v. sys_shmread d u = Inr v \<and> ctx_get d CTX_EAX v = 1 \<and> cstring 0x7000 [72, 105] v" by metis
  let ?u = "demo\<lparr>mem := mem t, stacks := (\<lambda>_ w. if w = 1019 then 0x2000 else 0x7000)\<rparr>"
  have "\<exists>v. sys_shmread (1, 1000) ?u = Inr v \<and> ctx_get (1, 1000) CTX_EAX v = 1 \<and> cstring 0x7000 [72, 105] v"
    by (rule t(2) [where q = 1]) (use p in \<open>simp_all add: sys_arg_def f\<close>)
  with t(1) show ?thesis by blast
qed


section \<open>The disk in memory\<close>

text \<open>
  C27: blocks that are written to the disk and read into another buffer are the bytes that were
  written, for every range that lies on the disk; nothing else on the disk or in the memory
  changes.
\<close>
theorem disk_gives_back:
  assumes "on_disk lba n"
  shows "\<exists>r t s'. rd_write lba n src s = Inr (r, t) \<and> rd_read lba n dst t = Inr (r, s') \<and>
     (\<forall>x. mem s' x = (if unat (x - dst) < 512 * unat n then mem s (src + (x - dst)) else mem s x)) \<and>
     (\<forall>x. \<not> (unat lba \<le> x \<and> x < unat lba + 512 * unat n) \<longrightarrow> ramdisk s' x = ramdisk s x)"
proof -
  from rd_write_ok [OF assms, of src s] obtain t where t: "rd_write lba n src s = Inr (n * 512 * 512, t)"
    "t = s\<lparr>ramdisk := ramdisk t\<rparr>"
    "\<And>x. ramdisk t x = (if unat lba \<le> x \<and> x < unat lba + 512 * unat n then mem s (src + of_nat (x - unat lba)) else ramdisk s x)"
    by blast
  from rd_read_ok [OF assms, of dst t] obtain s' where s': "rd_read lba n dst t = Inr (n * 512 * 512, s')"
    "ramdisk s' = ramdisk t"
    "\<And>x. mem s' x = (if unat (x - dst) < 512 * unat n then ramdisk t (unat lba + unat (x - dst)) else mem t x)"
    by blast
  have m: "mem t = mem s" by (subst t(2)) simp
  have "mem s' x = (if unat (x - dst) < 512 * unat n then mem s (src + (x - dst)) else mem s x)" for x
    unfolding s'(3) t(3) m by simp
  moreover have "ramdisk s' x = ramdisk s x" if "\<not> (unat lba \<le> x \<and> x < unat lba + 512 * unat n)" for x
    unfolding s'(2) t(3) by (simp only: that if_False)
  ultimately show ?thesis using t(1) s'(1) by blast
qed

theorem disk_gives_back_witness:
  "\<exists>r t s'. rd_write 512 2 0x5000 (st8 0x5001 7 demo) = Inr (r, t) \<and> rd_read 512 2 0x8000 t = Inr (r, s') \<and> mem s' 0x8001 = 7"
proof -
  have "on_disk 512 2" by (simp add: on_disk_def)
  from disk_gives_back [OF this, of "0x5000" "st8 0x5001 7 demo" "0x8000"] show ?thesis
    by (fastforce simp: st8_def)
qed

text \<open>
  C28: the range check of \<open>_rd_request\<close> compares bytes with blocks and takes the address of the disk
  off the block number.  With the disk at an address of 11,000 or more it lets a read of all
  twenty blocks and one more from the start of the disk pass, and the read leaves the disk.
\<close>
theorem disk_check_lets_overruns_pass:
  assumes "11000 \<le> unat (ramdisk_addr lk)" "unat (ramdisk_addr lk) < 2 ^ 31"
    and "dr_lba (pending_requests s dr) = 0" "dr_nblocks (pending_requests s dr) = 21"
    and "dr_cmd (pending_requests s dr) = DISK_CMD_READ" "kinv [c] [] [] s" "current s = Some c"
    and "n_other (q_view s) < OTHER_MAX"
  shows "(\<exists>s'. rd_request lk (Some dr) s = Inr (DISK_STATUS_READ_PENDING, s') \<and>
       Some (Disk_req dr) \<in> set (q_data s' Ramdisk_io_pending) \<and> current s' = Some c \<and>
       Some (Pcb c) \<in> set (q_data s' Blocked_requests)) \<and>
     (\<forall>buf t. rd_read 0 21 buf t = Inl (Overrun ''ramdisk''))"
proof
  have "rd_accepts lk 0 21"
  proof -
    have "unat (20 + ramdisk_addr lk) = 20 + unat (ramdisk_addr lk)"
      using assms(2) by (subst unat_add_lem [THEN iffD1]) simp_all
    then show ?thesis using assms(1) by (simp add: rd_accepts_def word_le_nat_alt)
  qed
  from rd_request_read [OF this [folded assms(3,4)] assms(5-8)]
  show "\<exists>s'. rd_request lk (Some dr) s = Inr (DISK_STATUS_READ_PENDING, s') \<and>
       Some (Disk_req dr) \<in> set (q_data s' Ramdisk_io_pending) \<and> current s' = Some c \<and>
       Some (Pcb c) \<in> set (q_data s' Blocked_requests)" .
  show "\<forall>buf t. rd_read 0 21 buf t = Inl (Overrun ''ramdisk'')"
    by (intro allI rd_read_overrun) (simp_all add: on_disk_def)
qed

theorem disk_check_lets_overruns_pass_witness:
  "\<exists>s'. rd_request demo_lk (Some 0) (demo\<lparr>pending_requests := (\<lambda>_. zero_request\<lparr>dr_nblocks := 21, dr_cmd := 1\<rparr>)\<rparr>) =
     Inr (DISK_STATUS_READ_PENDING, s') \<and> current s' = Some 1 \<and> Some (Pcb 1) \<in> set (q_data s' Blocked_requests)"
proof -
  let ?s = "demo\<lparr>pending_requests := (\<lambda>_. zero_request\<lparr>dr_nblocks := 21, dr_cmd := 1\<rparr>)\<rparr>"
  have same: "same_procs demo ?s" by (simp add: same_procs_def)
  note c = same_procs_cong [OF same]
  have a: "11000 \<le> unat (ramdisk_addr demo_lk)" "unat (ramdisk_addr demo_lk) < 2 ^ 31"
    "dr_lba (pending_requests ?s 0) = 0" "dr_nblocks (pending_requests ?s 0) = 21"
    "dr_cmd (pending_requests ?s 0) = DISK_CMD_READ"
    by (simp_all add: demo_lk_def zero_request_def)
  have b: "kinv [1] [] [] ?s" "current ?s = Some 1" "n_other (q_view ?s) < OTHER_MAX"
    using demo_steps(4) unfolding c by (simp_all add: n_other_def other_queues_def)
  from disk_check_lets_overruns_pass [OF a b] show ?thesis by blast
qed

text \<open>
  C29: when a tick serves a read request for which no process waits while some process waits for
  another request, the loop over the waiting processes never ends: it puts each of them back at
  the end of the queue for ever. In the state in which the service comes to the loop, no number of rounds is enough.
\<close>
theorem disk_service_hangs:
  assumes "kinv H F K s" "dr_cmd (pending_requests s dr) = DISK_CMD_READ"
    and "on_disk (dr_lba (pending_requests s dr)) (dr_nblocks (pending_requests s dr))"
    and "pcbs_in (q_view s) Blocked_requests \<noteq> []"
    and "\<forall>p \<in> set (pcbs_in (q_view s) Blocked_requests). pending_request (pcbs s p) \<noteq> Some dr"
  shows "serve_request dr s = Inl Hang \<and>
    (\<exists>n t. rd_read (dr_lba (pending_requests s dr)) (dr_nblocks (pending_requests s dr)) (dr_buffer (pending_requests s dr)) s =
       Inr (n, t) \<and> (\<forall>fuel. blocked_scan fuel dr t = Inl Hang))"
proof -
  let ?r = "pending_requests s dr"
  from rd_read_ok [OF assms(3), of "dr_buffer ?r" s] obtain n t where
    t: "rd_read (dr_lba ?r) (dr_nblocks ?r) (dr_buffer ?r) s = Inr (n, t)" "t = s\<lparr>mem := mem t\<rparr>" by blast
  note c = same_procs_cong [OF same_mem_update [OF t(2), THEN conjunct1]]
  have "blocked_scan fuel dr t = Inl Hang" for fuel
    using blocked_scan_hang [of H F K t dr fuel] assms by (simp add: c)
  then show ?thesis using assms(2) t(1) by (auto simp: serve_request_def Let_def simp del: blocked_scan.simps)
qed

theorem disk_service_hangs_witness:
  "\<exists>s. kinv [0, 3, 1] [5] [5] s \<and> serve_request 0 s = Inl Hang"
proof -
  from kinv_put [OF kinv_perm [THEN iffD1, OF _ refl refl kinv_demo_base, of "[2, 0, 3, 1]"] blocked_live]
  obtain t where t: "kinv [0, 3, 1] [5] [5] t" "q_frame demo_base t"
    "q_view t = (q_view demo_base)(Blocked_requests := [(0, Some (Pcb 2))])"
    by (auto simp: q_place_def demo_base_queues)
  let ?s = "t\<lparr>pending_requests := (\<lambda>_. zero_request\<lparr>dr_nblocks := 1, dr_cmd := 1\<rparr>)\<rparr>"
  have same: "same_procs t ?s" by (simp add: same_procs_def)
  note c = same_procs_cong [OF same]
  have B: "pcbs_in (q_view ?s) Blocked_requests = [2]" unfolding c t(3) by (simp add: pcbs_in_def)
  have k: "kinv [0, 3, 1] [5] [5] ?s" using t(1) unfolding c .
  moreover have "dr_cmd (pending_requests ?s 0) = DISK_CMD_READ"
    "on_disk (dr_lba (pending_requests ?s 0)) (dr_nblocks (pending_requests ?s 0))"
    "pcbs_in (q_view ?s) Blocked_requests \<noteq> []"
    "\<forall>p \<in> set (pcbs_in (q_view ?s) Blocked_requests). pending_request (pcbs ?s p) \<noteq> Some 0"
    unfolding B by (simp_all add: on_disk_def zero_request_def q_frame_fields [OF t(2)] demo_pcb_def zero_pcb_def)
  ultimately show ?thesis using disk_service_hangs by blast
qed

text \<open>
  When a tick serves a read request that lies on the disk and a process waits for it, the bytes
  are copied, the first process that waits for it becomes ready at the end of its queue with no
  request pending, the request is marked as done, and the others that wait stay in the queue.
\<close>
lemma disk_service_wakes:
  assumes "kinv H F K s" "dr_cmd (pending_requests s dr) = DISK_CMD_READ"
    and "on_disk (dr_lba (pending_requests s dr)) (dr_nblocks (pending_requests s dr))"
    and "pcbs_in (q_view s) Blocked_requests = as @ p # bs"
    and "pending_request (pcbs s p) = Some dr" "\<forall>a \<in> set as. pending_request (pcbs s a) \<noteq> Some dr"
  shows "\<exists>t s'. rd_read (dr_lba (pending_requests s dr)) (dr_nblocks (pending_requests s dr)) (dr_buffer (pending_requests s dr)) s =
       Inr (dr_nblocks (pending_requests s dr) * 512 * 512, t) \<and>
     serve_request dr s = Inr s' \<and> kinv H F K s' \<and> pcbs_in (q_view s') Blocked_requests = bs @ as \<and>
     pcbs s' = (pcbs s)(p := (pcbs s p)\<lparr>pending_request := None, status := PROC_READY\<rparr>) \<and>
     dr_status (pending_requests s' dr) = DISK_STATUS_IO_SUCCESS"
proof -
  let ?r = "pending_requests s dr"
  from rd_read_ok [OF assms(3), of "dr_buffer ?r" s] obtain t where
    t: "rd_read (dr_lba ?r) (dr_nblocks ?r) (dr_buffer ?r) s = Inr (dr_nblocks ?r * 512 * 512, t)" "t = s\<lparr>mem := mem t\<rparr>" by blast
  note c = same_procs_cong [OF same_mem_update [OF t(2), THEN conjunct1]]
  have "length (pcbs_in (q_view s) Blocked_requests) \<le> n_used (q_view s)"
    by (simp add: n_used_def live_queues_def pcbs_in_def)
  then have "length as < N_QNODES + 1" using kinvD(6) [OF assms(1)] assms(4) by simp
  with blocked_scan_ok [of H F K t as p bs dr "N_QNODES + 1"] assms(1,4-6) obtain s' where
    s': "blocked_scan (N_QNODES + 1) dr t = Inr s'" "kinv H F K s'" "pcbs_in (q_view s') Blocked_requests = bs @ as"
      "request_done dr p t s'" by (auto simp: c)
  then have "serve_request dr s = Inr s'" using assms(2) t(1)
    by (simp add: serve_request_def Let_def request_done_def del: blocked_scan.simps)
  then show ?thesis using t(1) s' by (auto simp: request_done_def c)
qed


section \<open>The console\<close>

text \<open>
  C30: the console is a terminal.  After \<open>c_io_init\<close>, and after any \<open>c_setscroll\<close>, printing a string
  always returns, and what the scroll region shows then is what a terminal of rows and a cursor
  shows after the characters one by one, with the newlines, the carriage returns, the wrapping at
  the right edge and the scrolling; no cell outside the scroll region changes, nor does anything
  but the video memory, the ports and the cursor.
\<close>
theorem console_is_terminal:
  assumes "con_ok s"
  shows "con_ok (c_io_init s0) \<and> con_ok (c_setscroll a b c d s) \<and>
     (\<exists>t. c_puts' str s = Inr t \<and> con_ok t \<and> con_frame s t \<and> outside s t \<and>
        term_of t = fold (\<lambda>ch. term_put (scast ch)) str (term_of s))"
  using c_io_init_ok c_setscroll_ok [OF con_okD(1) [OF assms]] c_puts_ok [OF assms] by blast

theorem console_is_terminal_witness:
  "\<exists>t. c_puts' [72, 10, 73] demo_con = Inr t \<and> con_ok t \<and> outside demo_con t \<and> con_ok (c_setscroll 0 7 99 99 demo_con)"
  using console_is_terminal [OF con_ok_demo, of _ 0 7 99 99 "[72, 10, 73]"] by blast

text \<open>
  C31: \<open>c_printf\<close> is \<open>c_puts\<close> of the text its format stands for, for every format of plain characters and
  codes with alignment, fill and width, and for every list of arguments that fits the codes; the
  terminal then shows that text.
\<close>
theorem printf_prints_text:
  assumes "list_all directive_ok ds" "render ds ap = Some tx"
  shows "c_printf' (concat (map fmt_bytes ds)) ap s = c_puts' tx s \<and>
    (con_ok s \<longrightarrow> (\<exists>t. c_printf' (concat (map fmt_bytes ds)) ap s = Inr t \<and>
       term_of t = fold (\<lambda>ch. term_put (scast ch)) tx (term_of s)))"
  using printf_renders [OF assms, of s] c_puts_ok [of s tx] by auto

theorem printf_prints_text_witness:
  "\<exists>t. c_printf' [120, 61, 37, 45, 52, 100, 124] [Num 7] demo_con = Inr t \<and>
     term_of t = fold (\<lambda>ch. term_put (scast ch)) [120 :: u8, 61, 55, 32, 32, 32, 124] (term_of demo_con)"
proof -
  let ?ds = "[Lit 120, Lit 61, Code True False 4 Conv_d, Lit 124]"
  have v: "cvtdec 7 = [55]" "dec_digits 4 = [52]" by code_simp+
  have "list_all directive_ok ?ds" "render ?ds [Num 7] = Some [120, 61, 55, 32, 32, 32, 124]"
    by (simp_all add: v fill_def numeral_3_eq_3)
  from printf_prints_text [OF this, of demo_con, THEN conjunct2, THEN mp, OF con_ok_demo] show ?thesis by (simp add: v)
qed

text \<open>
  C32: the digits that \<open>%d\<close> prints read back as the signed value, the most negative one included, and
  those of \<open>%x\<close> as the unsigned one; both fit the buffer of twelve bytes.  The digits of \<open>%o\<close> do not
  read back as the value: they are a digit for the two high bits, 6 or 7 where the number is negative, and the double of the low
  twenty-nine bits, so that bit 29 is lost. Below \<open>2 ^ 29\<close> that is twice the value.
\<close>
theorem numbers_read_back:
  "read_dec (cvtdec v) = sint v \<and> length (cvtdec v) \<le> 11 \<and>
   digits_val 16 (cvthex v) = unat v \<and> length (cvthex v) \<le> 8 \<and>
   digits_val 8 (cvtoct v) = [0, 1, 6, 7] ! (unat v div 2 ^ 30) * 2 ^ 30 + 2 * (unat v mod 2 ^ 29) \<and>
   (v < 0x20000000 \<longrightarrow> digits_val 8 (cvtoct v) = 2 * unat v) \<and> length (cvtoct v) \<le> 11"
proof -
  have "digits_val 8 (cvtoct v) = 2 * unat v" if "v < 0x20000000"
    using that cvtoct_val [of v] by (simp add: word_less_nat_alt)
  then show ?thesis
    by (intro conjI impI read_cvtdec length_cvtdec cvthex_val cvthex_shape(2) length_cvtoct cvtoct_val)
qed

theorem numbers_read_back_witness:
  "digits_val 8 (cvtoct 8) = 16 \<and> cvtoct 8 = [50, 48] \<and> read_dec (cvtdec 8) = sint (8 :: u32)"
proof -
  have "cvtoct 8 = [50, 48]" by code_simp
  then show ?thesis using numbers_read_back [of 8] by simp
qed

text \<open>
  C33: keys that are pressed while the keyboard buffer has room are read as a line: \<open>c_gets\<close> returns the
  number of characters up to and with the newline, stores them and a null byte in the buffer,
  leaves what was typed after the newline, and the terminal has shown them all.
\<close>
theorem typed_line_is_read:
  assumes "con_ok s" "kbd_ok s" "kbd_data s = []" "typed codes s = line @ 10 # rest"
    and "length (typed codes s) \<le> 199" "10 \<notin> set line" "EOT \<notin> set line" "length line + 1 < unat sz"
  shows "\<exists>t. c_gets ie buffer sz (fold input_scan_code codes s) = Inr (of_nat (length line) + 1, t) \<and>
     kbd_data t = rest \<and> mem t = write_bytes buffer (line @ [10, 0]) (mem s) \<and>
     term_of t = fold echo (line @ [10]) (term_of s)"
proof -
  note k = keys_queued [OF assms(2), of codes]
  note f = kbd_frame_screen [OF k(3)]
  have "kbd_data (fold input_scan_code codes s) = line @ 10 # rest" using k(2) assms(3-5) by simp
  from c_gets_ok [OF _ k(1) this assms(6-8), of ie buffer] assms(1) f show ?thesis by simp
qed

theorem typed_line_is_read_witness:
  "\<exists>t. c_gets True 0x5000 80 (fold input_scan_code [0x2a, 0x23, 0xaa, 0x17, 0x97, 0x1c] demo_con) = Inr (3, t) \<and>
     kbd_data t = [] \<and> mem t 0x5000 = 72 \<and> mem t 0x5001 = 105"
proof -
  have t: "typed [0x2a, 0x23, 0xaa, 0x17, 0x97, 0x1c] demo_con = [72, 105] @ 10 # []"
    by (simp add: key_char_def modifier_def input_scan_code_def Let_def demo_con_fields scan_code_def)
  have l: "length (typed [0x2a, 0x23, 0xaa, 0x17, 0x97, 0x1c] demo_con) \<le> 199" unfolding t by simp
  from typed_line_is_read [OF con_ok_demo kbd_demo t l, where sz = 80 and ie = True and buffer = "0x5000"]
  obtain u where "c_gets True 0x5000 80 (fold input_scan_code [0x2a, 0x23, 0xaa, 0x17, 0x97, 0x1c] demo_con) = Inr (3, u)"
    "kbd_data u = []" "mem u = write_bytes 0x5000 [72, 105, 10, 0] (mem demo_con)" by auto
  then show ?thesis by (intro exI [of _ u]) (simp add: demo_con_fields)
qed

section \<open>The disk on the primary channel\<close>

text \<open>
  C34: with a drive that gets ready and answers every interrupt with a block, a request to read
  returns with success.  The driver has then given the drive only the bits 0 to 7 and 24 to 27 of
  the block number and a sector count of one, has stored every block at the same address, so
  that the buffer holds the last one, and has left the request in its queue.
\<close>
theorem disk_read_completes:
  assumes "can_request DISK_CMD_READ (length bs) dr c s"
    and "list_all drive_busy ps" "drive_ready rd" "length st = 6" "length st' = 6"
    and "bs \<noteq> []" "list_all (block_ok DISK_CMD_READ) bs" "inq s = read_values ps rd st st' bs @ rest"
  shows "\<exists>s'. ata_request slp (Some dr) s = Inr (DISK_STATUS_IO_SUCCESS, s') \<and> inq s' = rest \<and>
     transferred DISK_CMD_READ dr s' \<and>
     mem s' = halfwords (dr_buffer (pending_requests s dr)) (block_words (last bs)) (mem s) \<and>
     io s' = io s @ Out (ctrl_port ATA_CTRL_DEV_CONTROL s) 0 #
       request_registers DISK_CMD_READ (dr_lba (pending_requests s dr)) s @ concat (replicate (length bs) ata_eoi) \<and>
     request_effect dr c s s'"
  using assms by (rule read_request)

theorem disk_read_completes_witness:
  "\<exists>s s'. ata_request (\<lambda>_. Inr) (Some 0) s = Inr (DISK_STATUS_IO_SUCCESS, s') \<and> inq s' = [] \<and>
     mem s' 0x5000 = 0x34 \<and> mem s' 0x5001 = 0x12 \<and> dr_nblocks (pending_requests s 0) = 2"
proof -
  let ?st = "replicate 6 (0x48 :: u32)"
  let ?bs = "[(?st, replicate 256 0xffff, ?st), (?st, replicate 256 (0x1234 :: u16), ?st)]"
  let ?s = "demo_disk DISK_CMD_READ 2 (read_values [replicate 6 0x80] ?st ?st ?st ?bs)"
  have a: "can_request DISK_CMD_READ (length ?bs) 0 1 ?s" by (rule demo_can_request) simp
  have b: "list_all drive_busy [replicate 6 0x80]" "drive_ready ?st" "length ?st = 6"
    by (simp_all add: drive_busy_def drive_ready_def reads_def)
  have c: "?bs \<noteq> []" "list_all (block_ok DISK_CMD_READ) ?bs" "inq ?s = read_values [replicate 6 0x80] ?st ?st ?st ?bs @ []"
    by (simp_all add: demo_disk_def)
  from disk_read_completes [OF a b(1,2,3,3) c, of "\<lambda>_. Inr"] obtain s' where
    s': "ata_request (\<lambda>_. Inr) (Some 0) ?s = Inr (DISK_STATUS_IO_SUCCESS, s')" "inq s' = []"
      "mem s' = halfwords 0x5000 (replicate 256 0x1234) (mem ?s)"
    by (auto simp: demo_disk_def)
  have "mem s' 0x5000 = 0x34" "mem s' 0x5001 = 0x12"
    unfolding s'(3) by (simp_all add: halfwords_byte half_byte_def)
  with s'(1,2) show ?thesis by (intro exI [of _ ?s] exI [of _ s']) (simp add: demo_disk_def)
qed

text \<open>
  C35: with a drive that gets ready, asks for data and answers every interrupt, and a stub of \<open>sleep\<close> that returns and
  leaves the memory and the driver's state alone, a request to write returns with success and the memory as it was.  The driver has sent the 256 words of the buffer
  to the data port, the first time before any interrupt; for a request of several blocks it has
  sent the same 256 words again at each interrupt.  It flushes the cache of the drive at the end.
\<close>
theorem disk_write_completes:
  assumes "can_request DISK_CMD_WRITE (Suc (length (wa_blocks w))) dr c s" "write_answers_ok w"
    and "sleeps_quietly slp" "inq s = write_values w @ rest"
  defines "data \<equiv> data_out (cmd_port ATA_CMD_BR_DATA s) (words_at 256 (dr_buffer (pending_requests s dr)) (mem s))"
  shows "\<exists>s' e. ata_request slp (Some dr) s = Inr (DISK_STATUS_IO_SUCCESS, s') \<and> inq s' = rest \<and>
     transferred DISK_CMD_WRITE dr s' \<and> mem s' = mem s \<and>
     io s' = io s @ Out (ctrl_port ATA_CTRL_DEV_CONTROL s) 0 #
       request_registers DISK_CMD_WRITE (dr_lba (pending_requests s dr)) s @ e @ data @
       concat (replicate (length (wa_blocks w)) (data @ ata_eoi)) @
       [Out (cmd_port ATA_CMD_COMMAND s) ATA7_FLUSH_CACHE, Puts ''\<newline>'']"
  unfolding data_def using write_request [OF assms(1-4)] by blast

theorem disk_write_completes_witness:
  "\<exists>s'. ata_request (\<lambda>_. Inr) (Some 0) (demo_disk DISK_CMD_WRITE 2 (write_values (demo_answers 1))) =
     Inr (DISK_STATUS_IO_SUCCESS, s') \<and> inq s' = []"
proof -
  let ?s = "demo_disk DISK_CMD_WRITE 2 (write_values (demo_answers 1))"
  have a: "can_request DISK_CMD_WRITE (Suc (length (wa_blocks (demo_answers 1)))) 0 1 ?s"
    by (rule demo_can_request) (simp add: demo_answers_def)
  have i: "inq ?s = write_values (demo_answers 1) @ []" by (simp add: demo_disk_def)
  from disk_write_completes [OF a demo_answers_ok sleeps_quietly_skip i] show ?thesis by blast
qed

text \<open>
  C36: a block that is written to the drive and read again is the same, byte for byte, wherever it is read to.
  The drive is one that goes by what the driver writes to its ports: it stores the 256 words
  that follow a command to write under the address in its registers, and a command to read asks for the words stored under
  the address that is then in them. The driver addresses the sector of the bits 0 to 7 and 24 to 27 of the block number
  alone, so that two blocks whose numbers differ only in the others are one; a read of a
  block of another sector asks for what was there before the write. Both requests are for one block, the drive gets ready and
  answers the read with the words it was asked for, and the stub of \<open>sleep\<close> returns and leaves the memory, the driver's
  state and the drive alone.
\<close>
theorem disk_block_comes_back:
  assumes "can_request DISK_CMD_WRITE 1 dr c s" "write_answers_ok w" "wa_blocks w = []"
    and "sleeps_quietly slp" "spares_drive slp" "inq s = write_values w @ rest" "on_primary s"
    and "can_request DISK_CMD_READ 1 dr' c' t" "list_all drive_busy ps" "drive_ready rd" "length st = 6" "length st' = 6"
    and "block_ok DISK_CMD_READ (b, sent, b')" "inq t = read_values ps rd st st' [(b, sent, b')] @ rest'" "on_primary t"
  defines "a \<equiv> dr_buffer (pending_requests s dr)" and "a' \<equiv> dr_buffer (pending_requests t dr')"
    and "n \<equiv> dr_lba (pending_requests s dr) AND 0x0f0000ff" and "n' \<equiv> dr_lba (pending_requests t dr') AND 0x0f0000ff"
  shows "\<exists>s' t' W R. ata_request slp (Some dr) s = Inr (DISK_STATUS_IO_SUCCESS, s') \<and> io s' = io s @ W \<and>
     ata_request slp (Some dr') t = Inr (DISK_STATUS_IO_SUCCESS, t') \<and> io t' = io t @ R \<and>
     (\<forall>d. d_store (drive_run W d) = (d_store d)(n := words_at 256 a (mem s)) \<and>
        d_sends (drive_run R (drive_run W d)) = (if n' = n then words_at 256 a (mem s) else d_store d n') \<and>
        (n' = n \<and> sent = d_sends (drive_run R (drive_run W d)) \<longrightarrow>
           (\<forall>k < 512. mem t' (a' + of_nat k) = mem s (a + of_nat k))))"
  using block_comes_back [OF assms(1-15)] unfolding a_def a'_def n_def n'_def sector_of_def .

theorem disk_block_comes_back_witness:
  "\<exists>s s' t t' W R. ata_request (\<lambda>_. Inr) (Some 0) s = Inr (DISK_STATUS_IO_SUCCESS, s') \<and> io s' = io s @ W \<and>
     ata_request (\<lambda>_. Inr) (Some 0) t = Inr (DISK_STATUS_IO_SUCCESS, t') \<and> io t' = io t @ R \<and>
     dr_lba (pending_requests s 0) = 0x105 \<and> dr_lba (pending_requests t 0) = 5 \<and>
     d_store (drive_run W \<lparr>d_select = 0, d_low = 0, d_mid = 0, d_high = 0, d_taken = None, d_sends = [], d_store = \<lambda>_. []\<rparr>) 5 =
       words_at 256 0x5000 (mem s) \<and> mem t 0x6007 = 0 \<and> mem t' 0x6007 = 7"
proof -
  let ?r = drive_status
  define s where "s = (demo_disk DISK_CMD_WRITE 1 (write_values (demo_answers 0)))
    \<lparr>ata_cmd_blk_reg := 0x1f0, ata_ctrl_blk_reg := 0x3f4,
     pending_requests := (\<lambda>_. zero_request\<lparr>dr_cmd := DISK_CMD_WRITE, dr_lba := 0x105, dr_nblocks := 1, dr_buffer := 0x5000\<rparr>)\<rparr>"
  define sent where "sent = words_at 256 0x5000 (mem s)"
  define t where "t = (demo_disk DISK_CMD_READ 1 (read_values [] ?r ?r ?r [(?r, sent, ?r)]))
    \<lparr>ata_cmd_blk_reg := 0x1f0, ata_ctrl_blk_reg := 0x3f4, mem := \<lambda>_. 0,
     pending_requests := (\<lambda>_. zero_request\<lparr>dr_cmd := DISK_CMD_READ, dr_lba := 5, dr_nblocks := 1, dr_buffer := 0x6000\<rparr>)\<rparr>"
  have same: "queues x = queues demo_base \<and> qnodes x = qnodes demo_base \<and> free_qnodes x = free_qnodes demo_base"
    if "x \<in> {s, t}" for x using that by (auto simp: s_def t_def demo_disk_def)
  have can: "can_request DISK_CMD_WRITE 1 0 1 s" "can_request DISK_CMD_READ 1 0 1 t"
    unfolding can_request_def
    using q_repr_cong [of s demo_base] q_repr_cong [of t demo_base] same [of s] same [of t]
    by (simp_all add: demo_base_queues N_QNODES_def) (simp_all add: s_def t_def demo_disk_def)
  have i: "inq s = write_values (demo_answers 0) @ []" "inq t = read_values [] ?r ?r ?r [(?r, sent, ?r)] @ []"
    by (simp_all add: s_def t_def demo_disk_def)
  have p: "on_primary s" "on_primary t" by (simp_all add: on_primary_def s_def t_def)
  have sp: "spares_drive (\<lambda>_. Inr)" by (simp add: spares_drive_def)
  have w: "wa_blocks (demo_answers 0) = []" by (simp add: demo_answers_def)
  have b: "list_all drive_busy []" "block_ok DISK_CMD_READ (?r, sent, ?r)" by (simp_all add: sent_def)
  have f: "dr_buffer (pending_requests t 0) = 0x6000" "dr_buffer (pending_requests s 0) = 0x5000"
    "dr_lba (pending_requests s 0) = 0x105" "dr_lba (pending_requests t 0) = 5" "mem s = ucast" "mem t 0x6007 = 0"
    by (simp_all add: s_def t_def demo_disk_def)
  have n: "(0x105 :: u32) AND 0x0f0000ff = 5" "(5 :: u32) AND 0x0f0000ff = 5" by simp_all
  from disk_block_comes_back [OF can(1) demo_answers_ok w sleeps_quietly_skip sp i(1) p(1) can(2) b(1)
      drive_status_ok(2,1,1) b(2) i(2) p(2), unfolded f(1-4) n]
  obtain s' t' W R where r: "ata_request (\<lambda>_. Inr) (Some 0) s = Inr (DISK_STATUS_IO_SUCCESS, s')" "io s' = io s @ W"
    "ata_request (\<lambda>_. Inr) (Some 0) t = Inr (DISK_STATUS_IO_SUCCESS, t')" "io t' = io t @ R"
    "\<And>d. d_store (drive_run W d) = (d_store d)(5 := sent)" "\<And>d. d_sends (drive_run R (drive_run W d)) = sent"
    and m: "\<And>d. sent = d_sends (drive_run R (drive_run W d)) \<longrightarrow> (\<forall>k < 512. mem t' (0x6000 + of_nat k) = mem s (0x5000 + of_nat k))"
    unfolding sent_def [symmetric] by auto
  have "\<forall>k < 512. mem t' (0x6000 + of_nat k) = mem s (0x5000 + of_nat k)" by (rule m [THEN mp, OF r(6) [symmetric]])
  from spec [OF this, of 7] have "mem t' 0x6007 = mem s 0x5007" by simp
  then have "mem t' 0x6007 = 7" by (simp add: f(5))
  with r f show ?thesis
    by (intro exI [of _ s] exI [of _ s'] exI [of _ t] exI [of _ t'] exI [of _ W] exI [of _ R] conjI) (simp_all add: sent_def)
qed

section \<open>The start of the kernel\<close>

text \<open>
  C37: \<open>_init\<close> returns when the search for the IDE controller meets one among the first 255
  configuration spaces.  Then the three first processes have the pids 0, 1 and 2 and stacks on
  which they start at their own functions, process 1 runs, 2 and the idle process are ready in
  this order, every vector has its handler, and from there on every state the kernel reaches is
  sound.  The controller is recorded as a function of device 0 on bus 0, by the number of probes
  before it, whatever device it is.
\<close>
theorem boot_starts_kernel:
  assumes "all_empty s" "\<forall>q. hashfcn (queues s q) = None"
    and "ide_found ps m" "inq s = probe_values (ps @ [m]) @ rest"
  shows "\<exists>t. kernel_init lk stubs s = Inr t \<and> current t = Some 1 \<and> ready_seq (q_view t) = [2, 0] \<and>
     map (\<lambda>i. pid (pcbs t i)) [0, 1, 2] = [0, 1, 2] \<and> next_pid t = 3 \<and>
     map (\<lambda>i. stacks t i 1019) [0, 1, 2] = [user_idle_addr lk, user_first_addr lk, ata_test_proc_addr lk] \<and>
     (\<forall>e. e < 256 \<longrightarrow> isr_table t e = Some (boot_handler e)) \<and> inq t = rest \<and>
     ide_controller t = \<lparr>pci_bus = 0, pci_device = 0, pci_function = of_nat (length ps)\<rparr> \<and>
     (\<forall>u. reachable lk 0 t u \<longrightarrow> kernel_ok 0 u)"
proof -
  obtain t where t: "kernel_init lk stubs s = Inr t" "kernel_ok 0 t" "current t = Some 1"
    "ready_seq (q_view t) = [2, 0]" "map (\<lambda>i. pid (pcbs t i)) [0, 1, 2] = [0, 1, 2]" "next_pid t = 3"
    "stacks t 0 1019 = user_idle_addr lk" "stacks t 1 1019 = user_first_addr lk" "stacks t 2 1019 = ata_test_proc_addr lk"
    "\<And>e. e < 256 \<Longrightarrow> isr_table t e = Some (boot_handler e)" "inq t = rest"
    "ide_controller t = \<lparr>pci_bus = 0, pci_device = 0, pci_function = of_nat (length ps)\<rparr>"
    using kernel_init_ok [OF assms, of lk stubs] by metis
  have "\<forall>u. reachable lk 0 t u \<longrightarrow> kernel_ok 0 u" using reachable_rest t(2) by blast
  with t show ?thesis by (intro exI [of _ t]) auto
qed

theorem boot_starts_kernel_witness:
  "\<exists>t. kernel_init demo_lk (\<lambda>_. 0) (boot_state\<lparr>inq := [0x25708086, 0x25708086, 0x24db8086, 0x24db8086]\<rparr>) = Inr t \<and>
     current t = Some 1 \<and> ready_seq (q_view t) = [2, 0] \<and> isr_table t 0x80 = Some Isr_syscall \<and> inq t = []"
proof -
  let ?s = "boot_state\<lparr>inq := [0x25708086, 0x25708086, 0x24db8086, 0x24db8086]\<rparr>"
  have a: "all_empty ?s" "\<forall>q. hashfcn (queues ?s q) = None"
    by (simp_all add: all_empty_def boot_state_def)
  have b: "ide_found [(0x25708086, 0x25708086)] (0x24db8086, 0x24db8086)"
    by (simp add: ide_found_def probe_matches_def)
  have c: "inq ?s = probe_values ([(0x25708086, 0x25708086)] @ [(0x24db8086, 0x24db8086)]) @ []" by simp
  from boot_starts_kernel [OF a b c, of demo_lk "\<lambda>_. 0"] obtain t where
    t: "kernel_init demo_lk (\<lambda>_. 0) ?s = Inr t" "current t = Some 1" "ready_seq (q_view t) = [2, 0]"
      "\<forall>e. e < 256 \<longrightarrow> isr_table t e = Some (boot_handler e)" "inq t = []"
    by blast
  then show ?thesis by (intro exI [of _ t]) (simp add: boot_handler_def)
qed

section \<open>Device handles\<close>

text \<open>
  C38: closing a disk puts its handle on the free list twice, because the closing function of the
  disk and \<open>_dev_close\<close> both give it back.  The next two calls of \<open>_dev_open\<close> then return the
  same handle, and the third finds the list empty, however many handles were free.
\<close>
theorem closed_handle_is_shared:
  assumes "dev_identifier (device_handles s d) \<in> {DEV_RAMDISK, DEV_IDE_PRI}"
  shows "\<exists>t u v. dev_close (Some d) s = Inr t \<and> dev_open a t = (Some d, u) \<and> dev_open b u = (Some d, v) \<and>
     fst (dev_open c v) = None"
  using close_then_open [OF assms] by metis

theorem closed_handle_is_shared_witness:
  "\<exists>s t u v. dev_open DEV_RAMDISK (fold (\<lambda>i. dev_dealloc_handle (Some i)) [0..<DEV_MAX_DEVICES] boot_state) = (Some 255, s) \<and>
     dev_close (Some 255) s = Inr t \<and> dev_open DEV_RAMDISK t = (Some 255, u) \<and>
     dev_open DEV_IDE_PRI u = (Some 255, v) \<and> fst (dev_open DEV_RAMDISK v) = None"
proof -
  have l: "[0..<DEV_MAX_DEVICES] = [0..<255] @ [255]" by (simp add: upt_rec)
  define s0 where "s0 = fold (\<lambda>i. dev_dealloc_handle (Some i)) [0..<255] boot_state"
  have f: "fold (\<lambda>i. dev_dealloc_handle (Some i)) [0..<DEV_MAX_DEVICES] boot_state = dev_dealloc_handle (Some 255) s0"
    unfolding l by (simp add: s0_def)
  define s where "s = snd (dev_open DEV_RAMDISK (dev_dealloc_handle (Some 255) s0))"
  have o: "dev_open DEV_RAMDISK (dev_dealloc_handle (Some 255) s0) = (Some 255, s)"
    by (simp add: s_def prod_eq_iff dev_open_def dev_dealloc_handle_def dev_alloc_handle_def split_beta)
  have "dev_identifier (device_handles s 255) \<in> {DEV_RAMDISK, DEV_IDE_PRI}"
    by (simp add: s_def dev_open_def dev_dealloc_handle_def dev_alloc_handle_def rd_open_def set_device_def Let_def c_puts_def)
  from closed_handle_is_shared [OF this, of DEV_RAMDISK DEV_IDE_PRI DEV_RAMDISK] o show ?thesis
    unfolding f by blast
qed

section \<open>The disk image\<close>

text \<open>
  C39: what the image builder stores, the loader of bootstrap.S finds.  When the tool succeeds, the
  table at the end of the bootstrap leads the loader to every program in the order of the
  arguments, at the address that was given for it and with its bytes filled up to whole sectors;
  what is before the table is the bootstrap as it was, and nothing else is in the image.
  It takes that no program is empty, that no address is negative, and that the bootstrap has a
  zero word left before the table.
\<close>
theorem image_loads_back:
  assumes "build_main creat files (''-o'' # out # boot # pair_args ps) = Inr img"
    and "\<forall>(name, addr) \<in> set ps. name \<noteq> out \<and> files name \<noteq> Some [] \<and> 0 \<le> fst (strtol addr 0)"
    and "boot \<noteq> out" "files boot = Some b" "b' = snd (copy_file b)"
    and "6 * length ps + 2 \<le> length b'" "word_at (length b' - 6 * length ps - 2) b' = 0"
  shows "loader (length b') (length b') img =
      map (\<lambda>(name, addr). (fst (strtol addr 0), snd (copy_file (the (files name))))) ps \<and>
    take (length b' - 6 * length ps) img = take (length b' - 6 * length ps) b' \<and>
    length img = length b' + length (concat (map (\<lambda>(name, addr). snd (copy_file (the (files name)))) ps))"
  using build_loads [OF assms] by simp

theorem image_loads_back_witness:
  "\<exists>img. build_main (\<lambda>_. True) [''boot'' \<mapsto> [1, 2], ''prog'' \<mapsto> [7]] [''-o'', ''img'', ''boot'', ''prog'', ''0x10000''] = Inr img \<and>
     loader 512 512 img = [(0x10000, 7 # replicate 511 0)] \<and> length img = 1024"
proof -
  let ?files = "[''boot'' \<mapsto> [1, 2 :: u8], ''prog'' \<mapsto> [7]]"
  have c: "copy_file [1, 2] = (1, 1 # 2 # replicate 510 0)" "copy_file [7] = (1, 7 # replicate 511 0)"
    using copy_file_spec [of "[1, 2]"] copy_file_spec [of "[7]"] by (simp_all add: prod_eq_iff)
  have a: "decode_address ''0x10000'' = Some (0x1000, 0, 0x10000)" "fst (strtol ''0x10000'' 0) = 0x10000" by code_simp+
  define r where "r = build_main (\<lambda>_. True) ?files (''-o'' # ''img'' # ''boot'' # pair_args [(''prog'', ''0x10000'')])"
  have "\<exists>img. r = Inr img"
    by (simp add: r_def build_main_def process_file_def patch_image_def Let_def c a)
  then obtain img where img: "build_main (\<lambda>_. True) ?files (''-o'' # ''img'' # ''boot'' # pair_args [(''prog'', ''0x10000'')]) = Inr img"
    unfolding r_def ..
  have f: "\<forall>(name, addr) \<in> set [(''prog'', ''0x10000'')]. name \<noteq> ''img'' \<and> ?files name \<noteq> Some [] \<and> 0 \<le> fst (strtol addr 0)"
    using a(2) by simp
  have b: "''boot'' \<noteq> ''img''" "?files ''boot'' = Some [1, 2]" "1 # 2 # replicate 510 0 = snd (copy_file [1, 2])"
    by (simp_all add: c)
  have z: "6 * length [(''prog'', ''0x10000'')] + 2 \<le> length (1 # 2 # replicate 510 (0 :: u8))"
    "word_at (length (1 # 2 # replicate 510 (0 :: u8)) - 6 * length [(''prog'', ''0x10000'')] - 2) (1 # 2 # replicate 510 0) = 0"
    by (simp_all add: word_at_def nth_Cons')
  from image_loads_back [OF img f b z] img show ?thesis
    by (intro exI [of _ img]) (simp add: c a)
qed

text \<open>
  C40: an address in the form \<open>segment:offset\<close>, which the tool's usage message offers, is always
  refused: \<open>strtol\<close> stops at the colon, and the code then expects the end of the string.  With such an
  address the tool never makes an image.
\<close>
theorem colon_addresses_refused:
  assumes "CHR '':'' \<in> set addr"
  shows "(files name = Some f \<longrightarrow> process_file files name addr st = Inl (Invalid_address addr)) \<and>
    ((name, addr) \<in> set ps \<longrightarrow> (\<forall>img. build_main creat files (''-o'' # out # boot # pair_args ps) \<noteq> Inr img))"
  using assms decode_colon [OF assms] build_no_colon [of creat files out boot ps]
  by (auto simp: process_file_def Let_def split: prod.split)

theorem colon_addresses_refused_witness:
  "process_file [''prog'' \<mapsto> [7]] ''prog'' ''10c0:0000'' ([], []) = Inl (Invalid_address ''10c0:0000'')"
  using colon_addresses_refused [of "''10c0:0000''" "[''prog'' \<mapsto> [7]]" "''prog''" "[7]" "([], [])"] by simp

end
